(* ===== verification/Go_Base.thy ===== *)
theory Go_Base
  imports Complex_Main "HOL-Library.Word"
begin

text \<open>
  The prelude of the development: what the sources use of the Go language and its standard
  library, together with the generic lemmas the components share.

  \<^item> A Go string is a sequence of bytes and becomes a \<^typ>\<open>string\<close>, one \<^typ>\<open>char\<close> per byte.
    \<^verbatim>\<open>strings.TrimSpace\<close> removes the UTF-8 encodings of every white space code point.
    \<^verbatim>\<open>strings.ToLower\<close> is modelled on ASCII letters: bytes outside ASCII are left alone, so the
    model agrees with Go on ASCII text, which is what every validated name of the program is.
    \<^verbatim>\<open>strings.EqualFold\<close> also knows the two code points outside ASCII that fold to ASCII letters
    (the long s and the Kelvin sign), so it agrees with Go whenever one side is ASCII.
  \<^item> A \<^verbatim>\<open>time.Time\<close> is an \<^typ>\<open>int\<close>, the nanoseconds since an epoch; a \<^verbatim>\<open>time.Duration\<close> is an
    \<^typ>\<open>int\<close> of nanoseconds.
  \<^item> A Go \<^verbatim>\<open>map\<close> that is ranged over becomes an association list with distinct keys, in the order
    the range statement happens to visit it.
\<close>

named_theorems go_str "characteristic equations of the string library"
named_theorems go_inv "preservation of well-formedness"

type_synonym time = int
type_synonym duration = int

abbreviation second :: duration where "second \<equiv> 1000000000"
abbreviation minute :: duration where "minute \<equiv> 60000000000"
abbreviation hour :: duration where "hour \<equiv> 3600000000000"

section \<open>Bytes and strings\<close>

definition byte :: "char \<Rightarrow> nat" where
  "byte c = of_char c"

definition is_digit :: "char \<Rightarrow> bool" where
  "is_digit c \<longleftrightarrow> 48 \<le> byte c \<and> byte c \<le> 57"

definition is_lower :: "char \<Rightarrow> bool" where
  "is_lower c \<longleftrightarrow> 97 \<le> byte c \<and> byte c \<le> 122"

definition is_upper :: "char \<Rightarrow> bool" where
  "is_upper c \<longleftrightarrow> 65 \<le> byte c \<and> byte c \<le> 90"

definition lower_char :: "char \<Rightarrow> char" where
  "lower_char c = (if is_upper c then char_of (byte c + 32) else c)"

definition upper_char :: "char \<Rightarrow> char" where
  "upper_char c = (if is_lower c then char_of (byte c - 32) else c)"

definition to_lower :: "string \<Rightarrow> string" where
  "to_lower s = map lower_char s"

lemma byte_char_of: "n < 256 \<Longrightarrow> byte (char_of n) = n"
  by (simp add: byte_def)

lemma lower_char_idem [simp]: "lower_char (lower_char c) = lower_char c"
proof (cases "is_upper c")
  case True
  then have "byte (char_of (byte c + 32)) = byte c + 32"
    by (intro byte_char_of) (simp add: is_upper_def)
  with True show ?thesis by (simp add: lower_char_def is_upper_def)
qed (simp add: lower_char_def)

lemma to_lower_idem [simp]: "to_lower (to_lower s) = to_lower s"
  by (simp add: to_lower_def)

lemma length_to_lower [simp]: "length (to_lower s) = length s"
  by (simp add: to_lower_def)

lemma to_lower_Nil [simp]: "to_lower s = [] \<longleftrightarrow> s = []"
  by (simp add: to_lower_def)

subsection \<open>Prefixes, suffixes and searching\<close>

definition has_prefix :: "'a list \<Rightarrow> 'a list \<Rightarrow> bool" where
  "has_prefix s p \<longleftrightarrow> take (length p) s = p"

definition has_suffix :: "'a list \<Rightarrow> 'a list \<Rightarrow> bool" where
  "has_suffix s p \<longleftrightarrow> has_prefix (rev s) (rev p)"

definition trim_prefix :: "'a list \<Rightarrow> 'a list \<Rightarrow> 'a list" where
  "trim_prefix s p = (if has_prefix s p then drop (length p) s else s)"

definition trim_suffix :: "'a list \<Rightarrow> 'a list \<Rightarrow> 'a list" where
  "trim_suffix s p = (if has_suffix s p then take (length s - length p) s else s)"

definition cut_prefix :: "'a list \<Rightarrow> 'a list \<Rightarrow> 'a list option" where
  "cut_prefix s p = (if has_prefix s p then Some (drop (length p) s) else None)"

fun index_byte :: "'a list \<Rightarrow> 'a \<Rightarrow> nat option" where
  "index_byte [] c = None"
| "index_byte (x # xs) c = (if x = c then Some 0 else map_option Suc (index_byte xs c))"

definition last_index_byte :: "'a list \<Rightarrow> 'a \<Rightarrow> nat option" where
  "last_index_byte s c = map_option (\<lambda>i. length s - Suc i) (index_byte (rev s) c)"

text \<open>\<^verbatim>\<open>strings.Cut\<close> with a one-byte separator: what precedes it, what follows it, and
  whether it was there at all.\<close>

fun cut :: "'a list \<Rightarrow> 'a \<Rightarrow> 'a list \<times> 'a list \<times> bool" where
  "cut [] c = ([], [], False)"
| "cut (x # xs) c =
     (if x = c then ([], xs, True)
      else case cut xs c of (a, b, f) \<Rightarrow> (x # a, b, f))"

text \<open>\<^verbatim>\<open>strings.Split\<close> with a one-byte separator.\<close>

fun split :: "'a list \<Rightarrow> 'a \<Rightarrow> 'a list list" where
  "split [] c = [[]]"
| "split (x # xs) c =
     (if x = c then [] # split xs c
      else case split xs c of [] \<Rightarrow> [[x]] | y # ys \<Rightarrow> (x # y) # ys)"

fun contains :: "'a list \<Rightarrow> 'a list \<Rightarrow> bool" where
  "contains [] p = (p = [])"
| "contains (x # xs) p = (has_prefix (x # xs) p \<or> contains xs p)"

lemma has_prefix_Nil [simp]: "has_prefix s []"
  by (simp add: has_prefix_def)

lemma has_prefix_iff: "has_prefix s p \<longleftrightarrow> (\<exists>t. s = p @ t)"
  unfolding has_prefix_def by (metis append_eq_conv_conj append_take_drop_id)

lemma has_prefix_append [simp]: "has_prefix (p @ t) p"
  by (auto simp: has_prefix_iff)

lemma has_prefix_trans: "has_prefix s p \<Longrightarrow> has_prefix p q \<Longrightarrow> has_prefix s q"
  by (auto simp: has_prefix_iff)

lemma has_suffix_iff: "has_suffix s p \<longleftrightarrow> (\<exists>t. s = t @ p)"
  by (auto simp: has_suffix_def has_prefix_iff) (metis rev_append rev_rev_ident)

lemma cut_prefix_Some [go_str]: "cut_prefix s p = Some t \<longleftrightarrow> s = p @ t"
  by (auto simp: cut_prefix_def has_prefix_iff)

lemma cut_prefix_None [go_str]: "cut_prefix s p = None \<longleftrightarrow> \<not> has_prefix s p"
  by (simp add: cut_prefix_def)

lemma trim_suffix_append [simp]: "trim_suffix (t @ p) p = t"
  by (simp add: trim_suffix_def has_suffix_iff)

lemma trim_suffix_other: "\<not> has_suffix s p \<Longrightarrow> trim_suffix s p = s"
  by (simp add: trim_suffix_def)

lemma index_byte_None [go_str]: "index_byte s c = None \<longleftrightarrow> c \<notin> set s"
  by (induction s) auto

lemma index_byte_Some [go_str]:
  "index_byte s c = Some i \<longleftrightarrow> i < length s \<and> s ! i = c \<and> c \<notin> set (take i s)"
proof (induction s arbitrary: i)
  case (Cons x xs)
  then show ?case by (cases i) auto
qed simp

lemma cut_eq [go_str]:
  "cut s c = (case index_byte s c of None \<Rightarrow> (s, [], False)
              | Some i \<Rightarrow> (take i s, drop (Suc i) s, True))"
  by (induction s) (auto split: option.splits)

lemma index_byte_append: "c \<notin> set a \<Longrightarrow> index_byte (a @ c # b) c = Some (length a)"
  by (induction a) auto

lemma cut_True_iff: "cut s c = (a, b, True) \<longleftrightarrow> s = a @ c # b \<and> c \<notin> set a"
proof
  assume "cut s c = (a, b, True)"
  then obtain i where "index_byte s c = Some i" "a = take i s" "b = drop (Suc i) s"
    by (auto simp: cut_eq split: option.splits)
  then show "s = a @ c # b \<and> c \<notin> set a"
    using id_take_nth_drop [of i s] by (simp add: index_byte_Some)
next
  assume "s = a @ c # b \<and> c \<notin> set a"
  then show "cut s c = (a, b, True)" by (simp add: cut_eq index_byte_append)
qed

lemma cut_False_iff: "cut s c = (a, b, False) \<longleftrightarrow> c \<notin> set s \<and> a = s \<and> b = []"
  by (auto simp: cut_eq simp flip: index_byte_None split: option.splits)

lemma split_not_Nil [simp]: "split s c \<noteq> []"
  by (induction s) (auto split: list.splits)

lemma contains_iff: "contains s p \<longleftrightarrow> (\<exists>a b. s = a @ p @ b)"
proof (induction s)
  case (Cons x xs)
  then show ?case
    by (auto simp: has_prefix_iff Cons_eq_append_conv)
qed auto

text \<open>Joining the parts of a split with the separator gives the text back, and no part
  contains the separator.\<close>

fun join :: "'a list list \<Rightarrow> 'a \<Rightarrow> 'a list" where
  "join [] c = []"
| "join [x] c = x"
| "join (x # y # ys) c = x @ c # join (y # ys) c"

lemma join_split: "join (split s c) c = s"
proof (induction s)
  case (Cons x xs)
  obtain y ys where y: "split xs c = y # ys"
    by (metis split_not_Nil neq_Nil_conv)
  with Cons show ?case by (cases ys) auto
qed simp

lemma split_parts: "p \<in> set (split s c) \<Longrightarrow> c \<notin> set p"
  by (induction s arbitrary: p) (auto split: list.splits if_splits)

subsection \<open>White space\<close>

text \<open>The UTF-8 encodings of the code points for which \<^verbatim>\<open>unicode.IsSpace\<close> holds.\<close>

definition space_encodings :: "string list" where
  "space_encodings =
     [[CHR 0x09], [CHR 0x0A], [CHR 0x0B], [CHR 0x0C], [CHR 0x0D], [CHR 0x20],
      [CHR 0xC2, CHR 0x85], [CHR 0xC2, CHR 0xA0], [CHR 0xE1, CHR 0x9A, CHR 0x80],
      [CHR 0xE2, CHR 0x80, CHR 0x80], [CHR 0xE2, CHR 0x80, CHR 0x81],
      [CHR 0xE2, CHR 0x80, CHR 0x82], [CHR 0xE2, CHR 0x80, CHR 0x83],
      [CHR 0xE2, CHR 0x80, CHR 0x84], [CHR 0xE2, CHR 0x80, CHR 0x85],
      [CHR 0xE2, CHR 0x80, CHR 0x86], [CHR 0xE2, CHR 0x80, CHR 0x87],
      [CHR 0xE2, CHR 0x80, CHR 0x88], [CHR 0xE2, CHR 0x80, CHR 0x89],
      [CHR 0xE2, CHR 0x80, CHR 0x8A], [CHR 0xE2, CHR 0x80, CHR 0xA8],
      [CHR 0xE2, CHR 0x80, CHR 0xA9], [CHR 0xE2, CHR 0x80, CHR 0xAF],
      [CHR 0xE2, CHR 0x81, CHR 0x9F], [CHR 0xE3, CHR 0x80, CHR 0x80]]"

text \<open>Remove members of a list of non-empty words from the front for as long as one is there.\<close>

function strip_words :: "'a list list \<Rightarrow> 'a list \<Rightarrow> 'a list" where
  "strip_words ws s =
     (case find (\<lambda>w. w \<noteq> [] \<and> has_prefix s w) ws of
        None \<Rightarrow> s
      | Some w \<Rightarrow> strip_words ws (drop (length w) s))"
  by pat_completeness auto
termination
proof (relation "measure (\<lambda>(ws, s). length s)")
  fix ws :: "'a list list" and s w
  assume "find (\<lambda>w. w \<noteq> [] \<and> has_prefix s w) ws = Some w"
  then have "w \<noteq> [] \<and> has_prefix s w" by (auto simp: find_Some_iff)
  then have "length (drop (length w) s) < length s" by (auto simp: has_prefix_iff)
  then show "((ws, drop (length w) s), ws, s) \<in> measure (\<lambda>(ws, s). length s)" by simp
qed simp

declare strip_words.simps [simp del]

definition trim_left_space :: "string \<Rightarrow> string" where
  "trim_left_space s = strip_words space_encodings s"

definition trim_right_space :: "string \<Rightarrow> string" where
  "trim_right_space s = rev (strip_words (map rev space_encodings) (rev s))"

definition trim_space :: "string \<Rightarrow> string" where
  "trim_space s = trim_right_space (trim_left_space s)"

abbreviation no_word_prefix :: "'a list list \<Rightarrow> 'a list \<Rightarrow> bool" where
  "no_word_prefix ws s \<equiv> \<forall>w \<in> set ws. w \<noteq> [] \<longrightarrow> \<not> has_prefix s w"

lemma strip_words_fix: "no_word_prefix ws s \<Longrightarrow> strip_words ws s = s"
proof -
  assume "no_word_prefix ws s"
  then have "find (\<lambda>w. w \<noteq> [] \<and> has_prefix s w) ws = None" by (auto simp: find_None_iff)
  then show ?thesis by (subst strip_words.simps) simp
qed

lemma strip_words_suffix: "\<exists>t. s = t @ strip_words ws s"
proof (induction ws s rule: strip_words.induct)
  case (1 ws s)
  show ?case
  proof (cases "find (\<lambda>w. w \<noteq> [] \<and> has_prefix s w) ws")
    case None
    then show ?thesis by (subst strip_words.simps) simp
  next
    case (Some w)
    with "1.IH" obtain t where t: "drop (length w) s = t @ strip_words ws (drop (length w) s)"
      by blast
    have "strip_words ws s = strip_words ws (drop (length w) s)"
      using Some by (subst strip_words.simps) simp
    with t have "s = (take (length w) s @ t) @ strip_words ws s"
      by (metis append_take_drop_id append.assoc)
    then show ?thesis by blast
  qed
qed

lemma strip_words_none: "no_word_prefix ws (strip_words ws s)"
proof (induction ws s rule: strip_words.induct)
  case (1 ws s)
  show ?case
  proof (cases "find (\<lambda>w. w \<noteq> [] \<and> has_prefix s w) ws")
    case None
    then have "no_word_prefix ws s" by (auto simp: find_None_iff)
    then show ?thesis by (simp add: strip_words_fix)
  next
    case (Some w)
    with "1.IH" [OF Some] show ?thesis by (subst strip_words.simps) simp
  qed
qed

lemma trim_space_Nil [simp]: "trim_space [] = []"
  by (simp add: trim_space_def trim_left_space_def trim_right_space_def strip_words_fix
      has_prefix_def)

text \<open>A trimmed text neither starts nor ends with white space, and trimming it again changes
  nothing.\<close>

lemma trim_space_no_left: "no_word_prefix space_encodings (trim_space s)"
proof -
  obtain t where "rev (trim_left_space s) = t @ rev (trim_space s)"
    using strip_words_suffix [of "rev (trim_left_space s)" "map rev space_encodings"]
    by (auto simp: trim_space_def trim_right_space_def)
  then have "trim_left_space s = trim_space s @ rev t"
    by (metis rev_append rev_rev_ident)
  then have "has_prefix (trim_left_space s) (trim_space s)" by simp
  moreover have "no_word_prefix space_encodings (trim_left_space s)"
    unfolding trim_left_space_def by (rule strip_words_none)
  ultimately show ?thesis by (meson has_prefix_trans)
qed

lemma trim_space_no_right: "no_word_prefix (map rev space_encodings) (rev (trim_space s))"
  unfolding trim_space_def trim_right_space_def rev_rev_ident by (rule strip_words_none)

lemma trim_space_idem [simp]: "trim_space (trim_space s) = trim_space s"
proof -
  have "trim_left_space (trim_space s) = trim_space s"
    unfolding trim_left_space_def by (rule strip_words_fix) (rule trim_space_no_left)
  moreover have "trim_right_space (trim_space s) = trim_space s"
    unfolding trim_right_space_def by (simp only: strip_words_fix [OF trim_space_no_right] rev_rev_ident)
  ultimately show ?thesis by (simp add: trim_space_def [of "trim_space s"])
qed

text \<open>Lowering a text neither creates nor removes white space, so it commutes with trimming.\<close>

lemma lower_char_other:
  assumes "\<not> is_lower b" "\<not> is_upper b"
  shows "lower_char c = b \<longleftrightarrow> c = b"
proof (cases "is_upper c")
  case True
  then have "byte (char_of (byte c + 32)) = byte c + 32"
    by (intro byte_char_of) (simp add: is_upper_def)
  with True assms show ?thesis
    by (auto simp: lower_char_def is_lower_def is_upper_def)
qed (simp add: lower_char_def)

definition caseless :: "string \<Rightarrow> bool" where
  "caseless w \<longleftrightarrow> list_all (\<lambda>b. \<not> is_lower b \<and> \<not> is_upper b) w"

lemma caseless_space: "list_all caseless space_encodings"
  by code_simp

lemma to_lower_eq_caseless: "caseless w \<Longrightarrow> to_lower s = w \<longleftrightarrow> s = w"
proof (induction w arbitrary: s)
  case (Cons b w)
  then show ?case
    by (cases s) (auto simp: caseless_def to_lower_def lower_char_other)
qed (simp add: to_lower_def)

lemma has_prefix_to_lower: "caseless w \<Longrightarrow> has_prefix (to_lower s) w \<longleftrightarrow> has_prefix s w"
  using to_lower_eq_caseless [of w "take (length w) s"]
  by (simp add: has_prefix_def to_lower_def take_map)

lemma strip_words_to_lower:
  "list_all caseless ws \<Longrightarrow> strip_words ws (to_lower s) = to_lower (strip_words ws s)"
proof (induction ws s rule: strip_words.induct)
  case (1 ws s)
  have eq: "find (\<lambda>w. w \<noteq> [] \<and> has_prefix (to_lower s) w) ws =
            find (\<lambda>w. w \<noteq> [] \<and> has_prefix s w) ws"
    using "1.prems" by (intro find_cong) (auto simp: has_prefix_to_lower list_all_iff)
  show ?case
  proof (cases "find (\<lambda>w. w \<noteq> [] \<and> has_prefix s w) ws")
    case None
    with eq show ?thesis by (simp add: strip_words.simps [of ws s] strip_words.simps [of ws "to_lower s"])
  next
    case (Some w)
    then have "strip_words ws (to_lower (drop (length w) s)) = to_lower (strip_words ws (drop (length w) s))"
      using "1.IH" "1.prems" by blast
    moreover have "drop n (to_lower s) = to_lower (drop n s)" for n by (simp add: to_lower_def drop_map)
    ultimately show ?thesis using Some eq
      by (simp add: strip_words.simps [of ws s] strip_words.simps [of ws "to_lower s"])
  qed
qed

lemma trim_space_to_lower: "trim_space (to_lower s) = to_lower (trim_space s)"
proof -
  have r: "rev (to_lower t) = to_lower (rev t)" for t by (simp add: to_lower_def rev_map)
  have "list_all caseless (map rev space_encodings)"
    using caseless_space by (simp add: list_all_iff caseless_def)
  then show ?thesis
    by (simp add: trim_space_def trim_left_space_def trim_right_space_def caseless_space
        strip_words_to_lower r)
qed

subsection \<open>Case-insensitive comparison\<close>

text \<open>The simple folding \<^verbatim>\<open>strings.EqualFold\<close> uses, on bytes: ASCII letters are lowered, the long
  s (\<^verbatim>\<open>C5 BF\<close>) becomes \<^verbatim>\<open>s\<close> and the Kelvin sign (\<^verbatim>\<open>E2 84 AA\<close>) becomes \<^verbatim>\<open>k\<close>.\<close>

fun fold_case :: "string \<Rightarrow> string" where
  "fold_case [] = []"
| "fold_case (a # s) =
     (if a = CHR 0xC5 \<and> has_prefix s [CHR 0xBF] then CHR ''s'' # fold_case (drop 1 s)
      else if a = CHR 0xE2 \<and> has_prefix s [CHR 0x84, CHR 0xAA]
           then CHR ''k'' # fold_case (drop 2 s)
      else lower_char a # fold_case s)"

definition equal_fold :: "string \<Rightarrow> string \<Rightarrow> bool" where
  "equal_fold s t \<longleftrightarrow> fold_case s = fold_case t"

lemma equal_fold_refl [simp]: "equal_fold s s"
  by (simp add: equal_fold_def)

lemma equal_fold_sym: "equal_fold s t \<longleftrightarrow> equal_fold t s"
  by (auto simp: equal_fold_def)

section \<open>Numbers\<close>

text \<open>\<^verbatim>\<open>strconv.Itoa\<close>.\<close>

fun itoa_nat :: "nat \<Rightarrow> string" where
  "itoa_nat n = (if n < 10 then [char_of (48 + n)] else itoa_nat (n div 10) @ [char_of (48 + n mod 10)])"

declare itoa_nat.simps [simp del]

definition itoa :: "int \<Rightarrow> string" where
  "itoa n = (if n < 0 then CHR ''-'' # itoa_nat (nat (- n)) else itoa_nat (nat n))"

definition digit_val :: "char \<Rightarrow> nat" where
  "digit_val c = byte c - 48"

definition decimal :: "string \<Rightarrow> nat" where
  "decimal s = foldl (\<lambda>n c. 10 * n + digit_val c) 0 s"

text \<open>\<^verbatim>\<open>strconv.ParseInt(s, 10, 64)\<close>: an optional sign, at least one decimal digit and nothing
  else, and a value that fits 64 bits; \<^const>\<open>None\<close> is the error.\<close>

definition parse_int :: "string \<Rightarrow> int option" where
  "parse_int s =
     (let neg = has_prefix s ''-'';
          ds = (if neg \<or> has_prefix s ''+'' then drop 1 s else s);
          v = (if neg then - int (decimal ds) else int (decimal ds))
      in if ds \<noteq> [] \<and> list_all is_digit ds \<and> - (2 ^ 63) \<le> v \<and> v < 2 ^ 63 then Some v else None)"

lemma decimal_append: "decimal (s @ [c]) = 10 * decimal s + digit_val c"
  by (simp add: decimal_def)

lemma itoa_nat_digits: "itoa_nat n \<noteq> [] \<and> list_all is_digit (itoa_nat n)"
proof (induction n rule: itoa_nat.induct)
  case (1 n)
  have d: "is_digit (char_of (48 + m))" if "m < 10" for m :: nat
    using that by (simp add: is_digit_def byte_char_of)
  show ?case
  proof (cases "n < 10")
    case True
    then show ?thesis using d by (subst (1 2) itoa_nat.simps) simp
  next
    case False
    with 1 d [of "n mod 10"] show ?thesis by (subst (1 2) itoa_nat.simps) simp
  qed
qed

lemma decimal_itoa_nat: "decimal (itoa_nat n) = n"
proof (induction n rule: itoa_nat.induct)
  case (1 n)
  have d: "digit_val (char_of (48 + m)) = m" if "m < 10" for m :: nat
    using that by (simp add: digit_val_def byte_char_of)
  show ?case
  proof (cases "n < 10")
    case True
    then show ?thesis using d by (subst itoa_nat.simps) (simp add: decimal_def)
  next
    case False
    with 1 show ?thesis by (subst itoa_nat.simps) (simp add: decimal_append d)
  qed
qed

text \<open>Printing a 64-bit integer and parsing it back gives the integer.\<close>

lemma parse_int_itoa: "- (2 ^ 63) \<le> n \<Longrightarrow> n < 2 ^ 63 \<Longrightarrow> parse_int (itoa n) = Some n"
proof (cases "n < 0")
  case True
  assume "- (2 ^ 63) \<le> n" "n < 2 ^ 63"
  with True show ?thesis
    by (simp add: itoa_def parse_int_def Let_def has_prefix_def itoa_nat_digits decimal_itoa_nat)
next
  case False
  assume b: "- (2 ^ 63) \<le> n" "n < 2 ^ 63"
  obtain c t where ct: "itoa_nat (nat n) = c # t" and "is_digit c"
    using itoa_nat_digits [of "nat n"] by (cases "itoa_nat (nat n)") auto
  then have "c \<noteq> CHR ''-''" "c \<noteq> CHR ''+''" by (auto simp: is_digit_def byte_def)
  with ct have "\<not> has_prefix (itoa n) ''-''" "\<not> has_prefix (itoa n) ''+''"
    using False by (auto simp: itoa_def has_prefix_def)
  with False b show ?thesis
    by (simp add: parse_int_def Let_def itoa_def itoa_nat_digits decimal_itoa_nat)
qed

text \<open>Go's integer division truncates towards zero.\<close>

definition go_quot :: "int \<Rightarrow> int \<Rightarrow> int" where
  "go_quot a b = sgn a * sgn b * (\<bar>a\<bar> div \<bar>b\<bar>)"

lemma go_quot_nonneg: "0 \<le> a \<Longrightarrow> 0 < b \<Longrightarrow> go_quot a b = a div b"
  by (cases "a = 0") (auto simp: go_quot_def sgn_if)

section \<open>Lists and association lists\<close>

text \<open>The loop the normalisers share: keep a value unless it was seen before.\<close>

fun dedup :: "'a list \<Rightarrow> 'a list \<Rightarrow> 'a list" where
  "dedup seen [] = []"
| "dedup seen (x # xs) =
     (if x \<in> set seen then dedup seen xs else x # dedup (x # seen) xs)"

lemma set_dedup: "set (dedup seen xs) = set xs - set seen"
  by (induction xs arbitrary: seen) auto

lemma distinct_dedup: "distinct (dedup seen xs)"
  by (induction xs arbitrary: seen) (auto simp: set_dedup)

lemma dedup_distinct: "distinct xs \<Longrightarrow> set xs \<inter> set seen = {} \<Longrightarrow> dedup seen xs = xs"
  by (induction xs arbitrary: seen) auto

lemma dedup_idem [simp]: "dedup [] (dedup [] xs) = dedup [] xs"
  by (simp add: dedup_distinct distinct_dedup)

text \<open>Association lists: store, delete, and the keys.\<close>

fun al_put :: "'k \<Rightarrow> 'v \<Rightarrow> ('k \<times> 'v) list \<Rightarrow> ('k \<times> 'v) list" where
  "al_put k v [] = [(k, v)]"
| "al_put k v ((k', v') # m) = (if k = k' then (k, v) # m else (k', v') # al_put k v m)"

definition al_del :: "'k \<Rightarrow> ('k \<times> 'v) list \<Rightarrow> ('k \<times> 'v) list" where
  "al_del k m = filter (\<lambda>p. fst p \<noteq> k) m"

abbreviation al_keys :: "('k \<times> 'v) list \<Rightarrow> 'k list" where
  "al_keys m \<equiv> map fst m"

lemma map_of_al_put [simp]: "map_of (al_put k v m) = (map_of m)(k \<mapsto> v)"
  by (induction k v m rule: al_put.induct) auto

lemma set_keys_al_put: "set (al_keys (al_put k v m)) = insert k (set (al_keys m))"
  by (induction k v m rule: al_put.induct) auto

lemma distinct_al_put [go_inv]: "distinct (al_keys m) \<Longrightarrow> distinct (al_keys (al_put k v m))"
proof (induction k v m rule: al_put.induct)
  case (2 k v k' v' m)
  then show ?case using set_keys_al_put [of k v m] by auto
qed simp

lemma map_of_filter_key [simp]:
  "map_of (filter (\<lambda>p. P (fst p)) m) k = (if P k then map_of m k else None)"
  by (induction m) auto

lemma map_of_al_del [simp]: "map_of (al_del k m) = (map_of m)(k := None)"
  unfolding al_del_def by (rule ext) (simp add: map_of_filter_key [of "\<lambda>x. x \<noteq> k"])

lemma distinct_filter_keys [go_inv]: "distinct (al_keys m) \<Longrightarrow> distinct (al_keys (filter P m))"
  by (simp add: distinct_map_filter)

lemma distinct_al_del [go_inv]: "distinct (al_keys m) \<Longrightarrow> distinct (al_keys (al_del k m))"
  unfolding al_del_def by (rule distinct_filter_keys)

lemma al_put_absent: "map_of m k = None \<Longrightarrow> al_put k v m = m @ [(k, v)]"
  by (induction k v m rule: al_put.induct) (auto split: if_splits)

lemma length_al_put: "length (al_put k v m) = (if map_of m k = None then Suc (length m) else length m)"
  by (induction k v m rule: al_put.induct) auto

lemma length_al_del_le: "length (al_del k m) \<le> length m"
  by (simp add: al_del_def)

lemma length_al_del: "distinct (al_keys m) \<Longrightarrow> map_of m k = Some v \<Longrightarrow> Suc (length (al_del k m)) = length m"
proof (induction m)
  case (Cons p m)
  show ?case
  proof (cases "fst p = k")
    case True
    with Cons.prems have "al_del k m = m"
      by (auto simp: al_del_def filter_id_conv image_iff)
    with True show ?thesis by (simp add: al_del_def)
  next
    case False
    with Cons show ?thesis by (cases p) (simp add: al_del_def)
  qed
qed simp

text \<open>The first element of a list with a property.\<close>

lemma find_in_filter: "find P xs = Some x \<Longrightarrow> Q x \<Longrightarrow> find P (filter Q xs) = Some x"
  by (induction xs) (auto split: if_splits)

lemma find_SomeD: "find P xs = Some x \<Longrightarrow> x \<in> set xs \<and> P x"
  by (auto simp: find_Some_iff)

text \<open>The first element at which a key is largest: the scan that keeps a running best and
  replaces it on a strict improvement.\<close>

fun best_scan :: "('a \<Rightarrow> 'a \<Rightarrow> bool) \<Rightarrow> 'a \<Rightarrow> 'a list \<Rightarrow> 'a" where
  "best_scan better b [] = b"
| "best_scan better b (x # xs) = best_scan better (if better x b then x else b) xs"

lemma best_scan_mem: "best_scan better b xs \<in> insert b (set xs)"
proof (induction xs arbitrary: b)
  case (Cons x xs)
  show ?case using Cons [of x] Cons [of b] by (cases "better x b") auto
qed simp

lemma best_scan_best:
  assumes asym: "\<And>x y. better x y \<Longrightarrow> \<not> better y x"
    and neg_trans: "\<And>x y z. \<not> better x y \<Longrightarrow> \<not> better y z \<Longrightarrow> \<not> better x z"
  shows "x \<in> insert b (set xs) \<Longrightarrow> \<not> better x (best_scan better b xs)"
proof (induction xs arbitrary: b x)
  case Nil
  then show ?case using asym by auto
next
  case (Cons y ys)
  define b1 where "b1 = (if better y b then y else b)"
  have b1: "\<not> better b1 (best_scan better b1 ys)" using Cons.IH [of b1 b1] by simp
  have "\<not> better y b1" "\<not> better b b1" using asym by (auto simp: b1_def)
  with b1 have "\<not> better y (best_scan better b1 ys)" "\<not> better b (best_scan better b1 ys)"
    using neg_trans by blast+
  then show ?case using Cons by (auto simp: b1_def)
qed

text \<open>Runs of a labelled step relation, and the amortised accounting of what their steps cost: a
  step is paid for by a fall of the potential.\<close>

inductive run :: "('s \<Rightarrow> 'e \<Rightarrow> 's \<Rightarrow> bool) \<Rightarrow> 's \<Rightarrow> 'e list \<Rightarrow> 's \<Rightarrow> bool" for step where
  run_refl: "run step s [] s"
| run_step: "step s e s' \<Longrightarrow> run step s' es s'' \<Longrightarrow> run step s (e # es) s''"

inductive_cases run_NilE: "run step s [] s'"
inductive_cases run_ConsE: "run step s (e # es) s'"

lemma run_invariant:
  assumes "run step s es s'" "ok s" "\<And>s e s'. step s e s' \<Longrightarrow> ok s \<Longrightarrow> ok s'"
  shows "ok s'"
  using assms by (induction rule: run.induct) blast+

lemma run_mono:
  assumes "run step s es s'" "\<And>s e s'. e \<in> set es \<Longrightarrow> step s e s' \<Longrightarrow> step' s e s'"
  shows "run step' s es s'"
  using assms by (induction rule: run.induct) (auto intro: run.intros)

locale metered =
  fixes step :: "'s \<Rightarrow> 'e \<Rightarrow> 's \<Rightarrow> bool"
    and ok :: "'s \<Rightarrow> bool"
    and potential :: "'s \<Rightarrow> rat"
    and cost :: "'e \<Rightarrow> rat"
  assumes inv_step: "step s e s' \<Longrightarrow> ok s \<Longrightarrow> ok s'"
    and paid: "step s e s' \<Longrightarrow> ok s \<Longrightarrow> cost e + potential s' \<le> potential s"
begin

lemma run_paid:
  assumes "run step s es s'" "ok s"
  shows "ok s' \<and> sum_list (map cost es) + potential s' \<le> potential s"
  using assms
proof (induction rule: run.induct)
  case (run_step s e s' es s'')
  from paid [OF run_step.hyps(1) run_step.prems] inv_step [OF run_step.hyps(1) run_step.prems]
    run_step.IH show ?case by auto
qed simp

end

end
