(* ===== verification/Domain_Upstream.thy ===== *)
theory Domain_Upstream
  imports Go_Base
begin

text \<open>
  The part of \<^verbatim>\<open>internal/domain/host.go\<close> the balancer reads: the algorithm names, one upstream,
  the active and passive health settings with their defaults, and the normalisation every
  upstream gets. The lemmas say that normalisation establishes what the balancer relies on
  (a weight of at least one, a non-negative connection limit) and is idempotent.
\<close>

section \<open>Algorithms\<close>

type_synonym Algorithm = string

definition RoundRobin :: Algorithm where "RoundRobin = ''round_robin''"
definition WeightedRoundRobin :: Algorithm where "WeightedRoundRobin = ''weighted_round_robin''"
definition LeastConnections :: Algorithm where "LeastConnections = ''least_connections''"
definition IPHash :: Algorithm where "IPHash = ''ip_hash''"

lemmas algorithm_defs = RoundRobin_def WeightedRoundRobin_def LeastConnections_def IPHash_def

definition Algorithm_Valid :: "Algorithm \<Rightarrow> bool" where
  "Algorithm_Valid a \<longleftrightarrow>
     a = RoundRobin \<or> a = WeightedRoundRobin \<or> a = LeastConnections \<or> a = IPHash"

definition Algorithms :: "Algorithm list" where
  "Algorithms = [RoundRobin, WeightedRoundRobin, LeastConnections, IPHash]"

lemma Algorithm_Valid_iff: "Algorithm_Valid a \<longleftrightarrow> a \<in> set Algorithms"
  by (simp add: Algorithm_Valid_def Algorithms_def)

section \<open>Upstreams\<close>

record upstream =
  u_ID :: int
  u_HostID :: int
  u_Scheme :: string
  u_Address :: string
  u_Weight :: int
  u_MaxConns :: int
  u_Enabled :: bool
  u_SkipTLSVerify :: bool

text \<open>The base address requests are forwarded to: the scheme and the host of the URL.\<close>

definition Upstream_URL :: "upstream \<Rightarrow> string \<times> string" where
  "Upstream_URL u = (u_Scheme u, u_Address u)"

section \<open>Health settings\<close>

record health_check =
  hc_Enabled :: bool
  hc_Path :: string
  hc_Interval :: duration
  hc_Timeout :: duration
  hc_HealthyThreshold :: int
  hc_UnhealthyThreshold :: int
  hc_ExpectStatus :: int

record passive_health =
  ph_Enabled :: bool
  ph_MaxFails :: int
  ph_EjectFor :: duration

definition DefaultPassiveHealth :: passive_health where
  "DefaultPassiveHealth = \<lparr>ph_Enabled = True, ph_MaxFails = 3, ph_EjectFor = 30 * second\<rparr>"

definition DefaultHealthCheck :: health_check where
  "DefaultHealthCheck =
     \<lparr>hc_Enabled = True, hc_Path = ''/'', hc_Interval = 10 * second, hc_Timeout = 5 * second,
      hc_HealthyThreshold = 2, hc_UnhealthyThreshold = 3, hc_ExpectStatus = 0\<rparr>"

section \<open>Normalisation of upstreams\<close>

definition normalize_upstream :: "upstream \<Rightarrow> upstream" where
  "normalize_upstream u =
     (let scheme = to_lower (trim_space (u_Scheme u));
          scheme = (if scheme = [] then ''http'' else scheme)
      in u\<lparr>u_Scheme := scheme,
           u_Address := trim_space (u_Address u),
           u_Weight := (if u_Weight u \<le> 0 then 1 else u_Weight u),
           u_MaxConns := (if u_MaxConns u < 0 then 0 else u_MaxConns u)\<rparr>)"

definition NormalizeUpstreams :: "upstream list \<Rightarrow> upstream list" where
  "NormalizeUpstreams ups = map normalize_upstream ups"

lemma normalize_upstream_weight: "1 \<le> u_Weight (normalize_upstream u)"
  by (simp add: normalize_upstream_def Let_def)

lemma NormalizeUpstreams_weights: "u \<in> set (NormalizeUpstreams ups) \<Longrightarrow> 1 \<le> u_Weight u \<and> 0 \<le> u_MaxConns u"
  by (auto simp: NormalizeUpstreams_def normalize_upstream_def Let_def)

lemma normalize_upstream_idem: "normalize_upstream (normalize_upstream u) = normalize_upstream u"
proof -
  have "to_lower (trim_space ''http'') = ''http''" by code_simp
  then show ?thesis
    by (simp add: normalize_upstream_def Let_def trim_space_to_lower)
qed

lemma NormalizeUpstreams_idem: "NormalizeUpstreams (NormalizeUpstreams ups) = NormalizeUpstreams ups"
  by (simp add: NormalizeUpstreams_def normalize_upstream_idem)

end
