(* ===== verification/Balancer_Backend.thy ===== *)
theory Balancer_Backend
  imports Domain_Upstream
begin

text \<open>
  \<^verbatim>\<open>internal/balancer/backend.go\<close>: one upstream with the state the proxy learns about it. Every
  method is a function on the record; the ones that report a transition return the new record
  and the flag. \<^verbatim>\<open>maphash.String\<close> with the process-wide random seed is the parameter \<open>hash\<close>.

  The lemmas describe the two health state machines over whole runs: the probe streaks of
  \<open>RecordProbe\<close> (a backend goes down exactly when a streak of failures reaches its threshold
  and comes back exactly when a streak of successes does), and the passive ejection of
  \<open>RecordProxyResult\<close> (out after \<open>MaxFails\<close> consecutive failures, for \<open>EjectFor\<close>, not before).
\<close>

section \<open>The record and its methods\<close>

record backend =
  b_Upstream :: upstream
  b_URL :: "string \<times> string"
  b_key :: string
  b_keyHash :: "64 word"
  b_healthy :: bool
  b_activeConns :: int
  b_totalRequests :: "64 word"
  b_totalLatency :: "64 word"
  b_lastError :: "string option"
  b_consecutiveOK :: int
  b_consecutiveFail :: int
  b_ejectedUntil :: int
  b_proxyFails :: int
  b_currentWeight :: int

definition backendKey :: "upstream \<Rightarrow> string" where
  "backendKey u = u_Scheme u @ ''://'' @ u_Address u"

definition NewBackend :: "(string \<Rightarrow> 64 word) \<Rightarrow> upstream \<Rightarrow> backend" where
  "NewBackend hash u =
     \<lparr>b_Upstream = u, b_URL = Upstream_URL u, b_key = backendKey u,
      b_keyHash = hash (backendKey u), b_healthy = True, b_activeConns = 0,
      b_totalRequests = 0, b_totalLatency = 0, b_lastError = None,
      b_consecutiveOK = 0, b_consecutiveFail = 0, b_ejectedUntil = 0, b_proxyFails = 0,
      b_currentWeight = 0\<rparr>"

definition Ejected :: "backend \<Rightarrow> time \<Rightarrow> bool \<times> duration" where
  "Ejected b now =
     (let until = b_ejectedUntil b
      in if until = 0 then (False, 0)
         else let left = until - now
              in if left \<le> 0 then (False, 0) else (True, left))"

definition Available :: "backend \<Rightarrow> time \<Rightarrow> bool" where
  "Available b now = (if \<not> b_healthy b then False else \<not> fst (Ejected b now))"

definition RecordProxyResult ::
  "bool \<Rightarrow> passive_health \<Rightarrow> time \<Rightarrow> backend \<Rightarrow> backend \<times> bool" where
  "RecordProxyResult success cfg now b =
     (if \<not> ph_Enabled cfg then (b, False)
      else if success then
        (b\<lparr>b_proxyFails := 0, b_ejectedUntil := 0\<rparr>, b_ejectedUntil b \<noteq> 0)
      else
        let fails = b_proxyFails b + 1;
            b1 = b\<lparr>b_proxyFails := fails\<rparr>
        in if fails < ph_MaxFails cfg then (b1, False)
           else let b2 = b1\<lparr>b_proxyFails := 0\<rparr>;
                    deadline = now + ph_EjectFor cfg;
                    wasEjected = fst (Ejected b2 now)
                in (b2\<lparr>b_ejectedUntil := deadline\<rparr>, \<not> wasEjected))"

definition ClearEjection :: "backend \<Rightarrow> backend" where
  "ClearEjection b = b\<lparr>b_proxyFails := 0, b_ejectedUntil := 0\<rparr>"

definition SetHealthy :: "bool \<Rightarrow> backend \<Rightarrow> backend \<times> bool" where
  "SetHealthy v b = (b\<lparr>b_healthy := v\<rparr>, b_healthy b \<noteq> v)"

definition Acquire :: "backend \<Rightarrow> backend" where
  "Acquire b = b\<lparr>b_activeConns := b_activeConns b + 1\<rparr>"

definition Release :: "duration \<Rightarrow> backend \<Rightarrow> backend" where
  "Release latency b =
     b\<lparr>b_activeConns := b_activeConns b - 1,
       b_totalRequests := b_totalRequests b + 1,
       b_totalLatency := b_totalLatency b + word_of_int (go_quot latency 1000000)\<rparr>"

definition HasCapacity :: "backend \<Rightarrow> bool" where
  "HasCapacity b =
     (let limit = u_MaxConns (b_Upstream b) in limit = 0 \<or> b_activeConns b < limit)"

definition RecordError :: "string option \<Rightarrow> backend \<Rightarrow> backend" where
  "RecordError err b = b\<lparr>b_lastError := err\<rparr>"

definition LastError :: "backend \<Rightarrow> string" where
  "LastError b = (case b_lastError b of Some p \<Rightarrow> p | None \<Rightarrow> [])"

record upstream_snapshot =
  us_UpstreamID :: int
  us_Address :: string
  us_Healthy :: bool
  us_Enabled :: bool
  us_Weight :: int
  us_Ejected :: bool
  us_EjectedForSeconds :: int
  us_ActiveConns :: int
  us_Location :: string
  us_TotalRequests :: "64 word"
  us_WindowRequests :: "64 word"
  us_MeanLatencyMS :: rat
  us_LastError :: string

text \<open>The mean is a quotient of two 64-bit counters; it is a rational number here, where the
  code rounds it to a \<^verbatim>\<open>float64\<close>.\<close>

definition Backend_Snapshot :: "backend \<Rightarrow> time \<Rightarrow> upstream_snapshot" where
  "Backend_Snapshot b now =
     (let total = b_totalRequests b;
          mean = (if total > 0 then of_nat (unat (b_totalLatency b)) / of_nat (unat total) else 0);
          (ejected, remaining) = Ejected b now
      in \<lparr>us_UpstreamID = u_ID (b_Upstream b), us_Address = b_key b,
          us_Healthy = b_healthy b, us_Enabled = u_Enabled (b_Upstream b),
          us_Weight = u_Weight (b_Upstream b), us_Ejected = ejected,
          us_EjectedForSeconds = go_quot remaining second,
          us_ActiveConns = b_activeConns b, us_Location = [], us_TotalRequests = total, us_WindowRequests = 0,
          us_MeanLatencyMS = mean, us_LastError = LastError b\<rparr>)"

definition RecordProbe :: "bool \<Rightarrow> int \<Rightarrow> int \<Rightarrow> backend \<Rightarrow> backend \<times> bool" where
  "RecordProbe success healthyThreshold unhealthyThreshold b =
     (if success then
        let b1 = b\<lparr>b_consecutiveFail := 0, b_consecutiveOK := b_consecutiveOK b + 1\<rparr>
        in if \<not> b_healthy b1 \<and> b_consecutiveOK b1 \<ge> healthyThreshold
           then SetHealthy True (RecordError None b1)
           else (b1, False)
      else
        let b1 = b\<lparr>b_consecutiveOK := 0, b_consecutiveFail := b_consecutiveFail b + 1\<rparr>
        in if b_healthy b1 \<and> b_consecutiveFail b1 \<ge> unhealthyThreshold
           then SetHealthy False b1
           else (b1, False))"

definition inheritFrom :: "backend \<Rightarrow> backend \<Rightarrow> backend" where
  "inheritFrom b old =
     b\<lparr>b_healthy := b_healthy old,
       b_totalRequests := b_totalRequests old,
       b_totalLatency := b_totalLatency old,
       b_lastError := b_lastError old,
       b_ejectedUntil := b_ejectedUntil old,
       b_proxyFails := b_proxyFails old,
       b_consecutiveOK := b_consecutiveOK old,
       b_consecutiveFail := b_consecutiveFail old\<rparr>"

lemmas backend_defs = Ejected_def Available_def RecordProxyResult_def ClearEjection_def
  SetHealthy_def Acquire_def Release_def HasCapacity_def RecordError_def

section \<open>Probe streaks\<close>

definition probe :: "int \<Rightarrow> int \<Rightarrow> backend \<Rightarrow> bool \<Rightarrow> backend" where
  "probe ht ut b ok = fst (RecordProbe ok ht ut b)"

definition probes :: "int \<Rightarrow> int \<Rightarrow> backend \<Rightarrow> bool list \<Rightarrow> backend" where
  "probes ht ut b rs = foldl (probe ht ut) b rs"

text \<open>The length of the streak of equal results a run of probes ends with.\<close>

definition streak :: "bool \<Rightarrow> bool list \<Rightarrow> int" where
  "streak r rs = int (length (takeWhile (\<lambda>x. x = r) (rev rs)))"

lemma streak_Nil [simp]: "streak r [] = 0"
  by (simp add: streak_def)

lemma streak_snoc [simp]: "streak r (rs @ [x]) = (if x = r then streak r rs + 1 else 0)"
  by (simp add: streak_def)

lemma streak_nonneg [simp]: "0 \<le> streak r rs"
  by (simp add: streak_def)

lemma probes_snoc: "probes ht ut b (rs @ [r]) = probe ht ut (probes ht ut b rs) r"
  by (simp add: probes_def)

lemma probe_counters:
  "b_consecutiveOK (probe ht ut b r) = (if r then b_consecutiveOK b + 1 else 0)"
  "b_consecutiveFail (probe ht ut b r) = (if r then 0 else b_consecutiveFail b + 1)"
  by (simp_all add: probe_def RecordProbe_def SetHealthy_def RecordError_def Let_def)

lemma probe_healthy:
  "b_healthy (probe ht ut b r) =
     (if r then b_healthy b \<or> ht \<le> b_consecutiveOK b + 1
      else b_healthy b \<and> \<not> ut \<le> b_consecutiveFail b + 1)"
  by (auto simp: probe_def RecordProbe_def SetHealthy_def RecordError_def Let_def)

lemma RecordProbe_changed:
  "snd (RecordProbe r ht ut b) \<longleftrightarrow> b_healthy (probe ht ut b r) \<noteq> b_healthy b"
  by (auto simp: probe_def RecordProbe_def SetHealthy_def RecordError_def Let_def)

lemma probes_counters:
  assumes "b_consecutiveOK b = 0" "b_consecutiveFail b = 0"
  shows "b_consecutiveOK (probes ht ut b rs) = streak True rs \<and>
         b_consecutiveFail (probes ht ut b rs) = streak False rs"
proof (induction rs rule: rev_induct)
  case Nil
  then show ?case using assms by (simp add: probes_def)
next
  case (snoc r rs)
  then show ?case by (simp add: probes_snoc probe_counters)
qed

lemma NewBackend_counters [simp]:
  "b_consecutiveOK (NewBackend hash u) = 0" "b_consecutiveFail (NewBackend hash u) = 0"
  "b_healthy (NewBackend hash u)" "b_proxyFails (NewBackend hash u) = 0"
  "b_ejectedUntil (NewBackend hash u) = 0" "b_currentWeight (NewBackend hash u) = 0"
  by (simp_all add: NewBackend_def)

section \<open>Passive ejection\<close>

definition fail_at :: "passive_health \<Rightarrow> backend \<Rightarrow> time \<Rightarrow> backend" where
  "fail_at cfg b t = fst (RecordProxyResult False cfg t b)"

lemma Ejected_iff: "fst (Ejected b now) \<longleftrightarrow> b_ejectedUntil b \<noteq> 0 \<and> now < b_ejectedUntil b"
  by (simp add: Ejected_def Let_def)

lemma Ejected_remaining: "fst (Ejected b now) \<Longrightarrow> snd (Ejected b now) = b_ejectedUntil b - now"
  by (auto simp: Ejected_def Let_def split: if_splits)

lemma fail_at_below:
  "ph_Enabled cfg \<Longrightarrow> b_proxyFails b + 1 < ph_MaxFails cfg \<Longrightarrow>
   fail_at cfg b t = b\<lparr>b_proxyFails := b_proxyFails b + 1\<rparr>"
  by (simp add: fail_at_def RecordProxyResult_def Let_def)

lemma fail_at_reach:
  "ph_Enabled cfg \<Longrightarrow> ph_MaxFails cfg \<le> b_proxyFails b + 1 \<Longrightarrow>
   fail_at cfg b t = b\<lparr>b_proxyFails := 0, b_ejectedUntil := t + ph_EjectFor cfg\<rparr>"
  by (simp add: fail_at_def RecordProxyResult_def Let_def)

text \<open>Fewer failures than the limit only count.\<close>

lemma fails_below:
  assumes "ph_Enabled cfg" "b_proxyFails b + int (length ts) < ph_MaxFails cfg"
  shows "foldl (fail_at cfg) b ts = b\<lparr>b_proxyFails := b_proxyFails b + int (length ts)\<rparr>"
  using assms(2)
proof (induction ts arbitrary: b)
  case (Cons t ts)
  then show ?case by (simp add: fail_at_below [OF assms(1)])
qed simp

section \<open>Properties\<close>

lemma probes_streak_bounds:
  assumes "1 \<le> ht" "1 \<le> ut"
  shows "(b_healthy (probes ht ut (NewBackend hash u) rs) \<longrightarrow> streak False rs < ut) \<and>
         (\<not> b_healthy (probes ht ut (NewBackend hash u) rs) \<longrightarrow> streak True rs < ht)"
proof (induction rs rule: rev_induct)
  case Nil
  then show ?case using assms by (simp add: probes_def)
next
  case (snoc r rs)
  have "b_consecutiveOK (probes ht ut (NewBackend hash u) rs) = streak True rs"
       "b_consecutiveFail (probes ht ut (NewBackend hash u) rs) = streak False rs"
    by (simp_all add: probes_counters)
  with snoc assms show ?case by (auto simp: probes_snoc probe_healthy)
qed

text \<open>Active health: in any run of probe results from a new backend, a probe takes a healthy
  backend down exactly when it completes a streak of \<open>UnhealthyThreshold\<close> failures, brings a
  down backend back exactly when it completes a streak of \<open>HealthyThreshold\<close> successes, and
  reports a change exactly in these two cases.\<close>

theorem RecordProbe_streaks:
  assumes "1 \<le> ht" "1 \<le> ut" and b: "b = probes ht ut (NewBackend hash u) rs"
    and b': "RecordProbe r ht ut b = (b', changed)"
  shows "(b_healthy b \<longrightarrow> (\<not> b_healthy b' \<longleftrightarrow> streak False (rs @ [r]) = ut)) \<and>
         (\<not> b_healthy b \<longrightarrow> (b_healthy b' \<longleftrightarrow> streak True (rs @ [r]) = ht)) \<and>
         (changed \<longleftrightarrow> b_healthy b' \<noteq> b_healthy b)"
proof -
  have p: "b' = probe ht ut b r" and c: "changed = snd (RecordProbe r ht ut b)"
    using b' by (simp_all add: probe_def)
  have "b_consecutiveOK b = streak True rs" "b_consecutiveFail b = streak False rs"
    by (simp_all add: b probes_counters)
  moreover have "b_healthy b \<Longrightarrow> streak False rs < ut" "\<not> b_healthy b \<Longrightarrow> streak True rs < ht"
    using probes_streak_bounds [OF assms(1,2)] b by blast+
  ultimately show ?thesis
    using assms(1,2) unfolding p c RecordProbe_changed by (auto simp: probe_healthy)
qed

definition ex_upstream :: "string \<Rightarrow> int \<Rightarrow> upstream" where
  "ex_upstream addr w =
     \<lparr>u_ID = 1, u_HostID = 1, u_Scheme = ''http'', u_Address = addr, u_Weight = w,
      u_MaxConns = 0, u_Enabled = True, u_SkipTLSVerify = False\<rparr>"

theorem RecordProbe_streaks_witness:
  "\<not> b_healthy (fst (RecordProbe False 2 3
       (probes 2 3 (NewBackend (\<lambda>_. 0) (ex_upstream ''a:80'' 1)) [True, False, False])))"
proof -
  let ?b = "probes 2 3 (NewBackend (\<lambda>_. 0) (ex_upstream ''a:80'' 1)) [True, False, False]"
  obtain b' c where r: "RecordProbe False 2 3 ?b = (b', c)" by fastforce
  have "b_healthy ?b" by (simp add: probes_def probe_healthy probe_counters)
  moreover have "streak False ([True, False, False] @ [False]) = 3" by (simp add: streak_def)
  ultimately have "\<not> b_healthy b'"
    using RecordProbe_streaks [of 2 3 ?b "\<lambda>_. 0" "ex_upstream ''a:80'' 1" "[True, False, False]" False b' c] r
    by simp
  then show ?thesis using r by simp
qed

text \<open>Passive health: with a budget of \<open>MaxFails\<close> failures, fewer consecutive connection
  failures leave a backend available at every moment; the failure that exhausts the budget, at
  time \<open>t\<close>, makes it unavailable exactly until \<open>t + EjectFor\<close>, and one success puts it back at
  once.\<close>

theorem RecordProxyResult_ejects:
  assumes cfg: "ph_Enabled cfg" "ph_MaxFails cfg = int (length ts) + 1" "0 < t + ph_EjectFor cfg"
    and b: "b_healthy b" "b_proxyFails b = 0" "b_ejectedUntil b = 0"
  shows "(\<forall>n \<le> length ts. Available (foldl (fail_at cfg) b (take n ts)) now) \<and>
         (Available (foldl (fail_at cfg) b (ts @ [t])) now \<longleftrightarrow> t + ph_EjectFor cfg \<le> now) \<and>
         Available (fst (RecordProxyResult True cfg t' (foldl (fail_at cfg) b (ts @ [t])))) now"
proof -
  have below: "foldl (fail_at cfg) b (take n ts) = b\<lparr>b_proxyFails := int n\<rparr>" if "n \<le> length ts" for n
    using that fails_below [of cfg b "take n ts"] cfg b by simp
  have "foldl (fail_at cfg) b (ts @ [t]) = b\<lparr>b_proxyFails := 0, b_ejectedUntil := t + ph_EjectFor cfg\<rparr>"
    using below [of "length ts"] cfg fail_at_reach [of cfg "b\<lparr>b_proxyFails := int (length ts)\<rparr>" t] by simp
  then show ?thesis
    using below cfg b by (auto simp: Available_def Ejected_iff RecordProxyResult_def)
qed

theorem RecordProxyResult_ejects_witness:
  "Available (foldl (fail_at DefaultPassiveHealth) (NewBackend (\<lambda>_. 0) (ex_upstream ''a:80'' 1)) [5, 6]) 7 \<and>
   \<not> Available (foldl (fail_at DefaultPassiveHealth) (NewBackend (\<lambda>_. 0) (ex_upstream ''a:80'' 1)) [5, 6, 7]) 8"
proof -
  let ?b = "NewBackend (\<lambda>_. 0) (ex_upstream ''a:80'' 1)"
  have h: "ph_Enabled DefaultPassiveHealth" "ph_MaxFails DefaultPassiveHealth = int (length [5, 6 :: int]) + 1"
    "0 < 7 + ph_EjectFor DefaultPassiveHealth" by (simp_all add: DefaultPassiveHealth_def)
  have "Available (foldl (fail_at DefaultPassiveHealth) ?b (take 2 [5, 6])) 7"
    by (rule RecordProxyResult_ejects [OF h, THEN conjunct1, rule_format]) simp_all
  moreover have "\<not> Available (foldl (fail_at DefaultPassiveHealth) ?b ([5, 6] @ [7])) 8"
    using RecordProxyResult_ejects [OF h, of ?b 8 0] by (simp add: DefaultPassiveHealth_def)
  ultimately show ?thesis by simp
qed

end
