(* ===== verification/Balancer_Selector.thy ===== *)
theory Balancer_Selector
  imports Balancer_Backend "HOL-Library.Option_ord"
begin

text \<open>
  \<^verbatim>\<open>internal/balancer/selector.go\<close>: the four balancing algorithms. Backends are shared and
  mutable, so a candidate is an address into a heap of backends; smooth weighted round robin
  writes the running scores of its candidates there, the other selectors only read it.

  \<open>selector\<close> is the contract of the Go interface (a picked backend is one of the candidates and
  only running scores change), \<open>total_selector\<close> adds that a non-empty candidate list always
  yields a backend. Round robin, weighted round robin and least connections satisfy both; IP
  hash satisfies the first only, because the score of one hash value is minus infinity. The
  dispatcher \<open>Select\<close> satisfies the contract as a whole, which is what the pool builds on.
\<close>

unbundle bit_operations_syntax

type_synonym bid = nat
type_synonym heap = "bid \<Rightarrow> backend"

text \<open>What \<^verbatim>\<open>Select\<close> hands back: a backend, a nil pointer, or a run-time panic.\<close>

datatype sel_result = Picked bid | NilBackend | Panic

datatype selector = SelRoundRobin "64 word" | SelWeighted | SelLeast | SelIPHash

definition newSelector :: "Algorithm \<Rightarrow> selector" where
  "newSelector a =
     (if a = WeightedRoundRobin then SelWeighted
      else if a = LeastConnections then SelLeast
      else if a = IPHash then SelIPHash
      else SelRoundRobin 0)"

abbreviation weight :: "heap \<Rightarrow> bid \<Rightarrow> int" where
  "weight h b \<equiv> u_Weight (b_Upstream (h b))"

abbreviation score :: "heap \<Rightarrow> bid \<Rightarrow> int" where
  "score h b \<equiv> b_currentWeight (h b)"

section \<open>Round robin\<close>

definition roundRobin_Select :: "64 word \<Rightarrow> heap \<Rightarrow> bid list \<Rightarrow> 64 word \<times> heap \<times> sel_result" where
  "roundRobin_Select counter h candidates =
     (let counter' = counter + 1; n = counter' - 1
      in (counter', h,
          if candidates = [] then Panic
          else Picked (candidates ! unat (n mod of_nat (length candidates)))))"

section \<open>Smooth weighted round robin\<close>

definition add_weight :: "heap \<Rightarrow> bid \<Rightarrow> heap" where
  "add_weight h b = h(b := (h b)\<lparr>b_currentWeight := score h b + weight h b\<rparr>)"

fun wrr_loop :: "heap \<Rightarrow> bid option \<Rightarrow> int \<Rightarrow> bid list \<Rightarrow> heap \<times> bid option \<times> int" where
  "wrr_loop h best tot [] = (h, best, tot)"
| "wrr_loop h best tot (b # bs) =
     (let h' = add_weight h b;
          best' = (case best of None \<Rightarrow> Some b
                   | Some x \<Rightarrow> if score h' b > score h' x then Some b else best)
      in wrr_loop h' best' (tot + weight h b) bs)"

definition weightedRoundRobin_Select :: "heap \<Rightarrow> bid list \<Rightarrow> heap \<times> sel_result" where
  "weightedRoundRobin_Select h candidates =
     (case wrr_loop h None 0 candidates of
        (h', None, tot) \<Rightarrow> (h', Panic)
      | (h', Some best, tot) \<Rightarrow>
          (h'(best := (h' best)\<lparr>b_currentWeight := score h' best - tot\<rparr>), Picked best))"

section \<open>Least connections\<close>

definition lc_better :: "heap \<Rightarrow> bid \<Rightarrow> bid \<Rightarrow> bool" where
  "lc_better h b best \<longleftrightarrow>
     b_activeConns (h b) < b_activeConns (h best) \<or>
     b_activeConns (h b) = b_activeConns (h best) \<and> weight h b > weight h best"

definition leastConnections_Select :: "heap \<Rightarrow> bid list \<Rightarrow> sel_result" where
  "leastConnections_Select h candidates =
     (case candidates of [] \<Rightarrow> Panic | b # bs \<Rightarrow> Picked (best_scan (lc_better h) b bs))"

section \<open>IP hash\<close>

definition mix64 :: "64 word \<Rightarrow> 64 word \<Rightarrow> 64 word" where
  "mix64 a b =
     (let x = a XOR (b + 0x9E3779B97F4A7C15 + push_bit 6 a + drop_bit 2 a);
          x = x XOR drop_bit 30 x;
          x = x * 0xBF58476D1CE4E5B9;
          x = x XOR drop_bit 27 x;
          x = x * 0x94D049BB133111EB;
          x = x XOR drop_bit 31 x
      in x)"

text \<open>
  \<open>u\<close> as the floating point unit computes it. The numerator is an integer of at most \<open>2\<^sup>5\<^sup>3\<close> and
  exact; the denominator \<open>2\<^sup>5\<^sup>3 + 1\<close> is not a \<^verbatim>\<open>float64\<close> and rounds to \<open>2\<^sup>5\<^sup>3\<close>; dividing by a
  power of two is exact. So \<open>u\<close> lies in the half-open interval \<open>(0, 1]\<close> and reaches 1.
\<close>

definition hash_unit :: "64 word \<Rightarrow> backend \<Rightarrow> real" where
  "hash_unit ipHashed b = (real (unat (drop_bit 11 (mix64 ipHashed (b_keyHash b)))) + 1) / 2 ^ 53"

text \<open>The score \<^verbatim>\<open>weight / -math.Log(u)\<close>, for a positive weight: at \<open>u = 1\<close> the divisor is minus
  zero and the quotient minus infinity, which is \<^const>\<open>None\<close> here.\<close>

definition weightedScore :: "64 word \<Rightarrow> backend \<Rightarrow> real option" where
  "weightedScore ipHashed b =
     (let u = hash_unit ipHashed b
      in if u = 1 then None else Some (of_int (u_Weight (b_Upstream b)) / - ln u))"

definition score_gt :: "real option \<Rightarrow> real option \<Rightarrow> bool" where
  "score_gt s t = (case s of None \<Rightarrow> False | Some x \<Rightarrow> (case t of None \<Rightarrow> True | Some y \<Rightarrow> x > y))"

text \<open>The scan over the candidates: \<open>best\<close> is nil and \<open>bestScore\<close> minus infinity at first.\<close>

fun ip_loop :: "(bid \<Rightarrow> real option) \<Rightarrow> bid option \<Rightarrow> real option \<Rightarrow> bid list \<Rightarrow> bid option" where
  "ip_loop sc best bestScore [] = best"
| "ip_loop sc best bestScore (b # bs) =
     (if score_gt (sc b) bestScore then ip_loop sc (Some b) (sc b) bs
      else ip_loop sc best bestScore bs)"

definition ipHash_Select :: "(string \<Rightarrow> 64 word) \<Rightarrow> heap \<Rightarrow> bid list \<Rightarrow> string \<Rightarrow> sel_result" where
  "ipHash_Select hash h candidates clientIP =
     (case ip_loop (\<lambda>b. weightedScore (hash clientIP) (h b)) None None candidates of
        None \<Rightarrow> NilBackend | Some b \<Rightarrow> Picked b)"

section \<open>The interface\<close>

fun Select :: "(string \<Rightarrow> 64 word) \<Rightarrow> selector \<Rightarrow> heap \<Rightarrow> bid list \<Rightarrow> string \<Rightarrow> selector \<times> heap \<times> sel_result" where
  "Select hash (SelRoundRobin c) h cs ip =
     (case roundRobin_Select c h cs of (c', h', r) \<Rightarrow> (SelRoundRobin c', h', r))"
| "Select hash SelWeighted h cs ip =
     (case weightedRoundRobin_Select h cs of (h', r) \<Rightarrow> (SelWeighted, h', r))"
| "Select hash SelLeast h cs ip = (SelLeast, h, leastConnections_Select h cs)"
| "Select hash SelIPHash h cs ip = (SelIPHash, h, ipHash_Select hash h cs ip)"

text \<open>Two heaps that differ in running scores only.\<close>

definition same_but_score :: "heap \<Rightarrow> heap \<Rightarrow> bool" where
  "same_but_score h h' \<longleftrightarrow> (\<forall>b. h' b = (h b)\<lparr>b_currentWeight := score h' b\<rparr>)"

lemma same_but_score_refl [simp]: "same_but_score h h"
  by (simp add: same_but_score_def)

lemma same_but_score_weight: "same_but_score h h' \<Longrightarrow> weight h' b = weight h b"
proof -
  assume "same_but_score h h'"
  then have "h' b = (h b)\<lparr>b_currentWeight := score h' b\<rparr>" unfolding same_but_score_def by blast
  then have "b_Upstream (h' b) = b_Upstream ((h b)\<lparr>b_currentWeight := score h' b\<rparr>)" by simp
  then show ?thesis by simp
qed

locale selector_contract =
  fixes select :: "'s \<Rightarrow> heap \<Rightarrow> bid list \<Rightarrow> string \<Rightarrow> 's \<times> heap \<times> sel_result"
  assumes sound: "length cs < 2 ^ 64 \<Longrightarrow> select s h cs ip = (s', h', Picked b) \<Longrightarrow> b \<in> set cs"
    and frame: "select s h cs ip = (s', h', r) \<Longrightarrow> same_but_score h h'"
begin

lemma select_keeps_config: "select s h cs ip = (s', h', r) \<Longrightarrow> weight h' b = weight h b"
  using frame same_but_score_weight by blast

end

locale total_selector = selector_contract +
  assumes picks: "cs \<noteq> [] \<Longrightarrow> \<exists>s' h' b. select s h cs ip = (s', h', Picked b)"
begin

lemma never_nil: "cs \<noteq> [] \<Longrightarrow> select s h cs ip = (s', h', r) \<Longrightarrow> r \<noteq> NilBackend \<and> r \<noteq> Panic"
  using picks [of cs s h ip] by auto

end

section \<open>Weighted round robin: the scores after one selection\<close>

definition bumped :: "heap \<Rightarrow> bid set \<Rightarrow> heap" where
  "bumped h S = (\<lambda>b. if b \<in> S then (h b)\<lparr>b_currentWeight := score h b + weight h b\<rparr> else h b)"

lemma bumped_add_weight: "b \<notin> S \<Longrightarrow> bumped (add_weight h b) S = bumped h (insert b S)"
  by (auto simp: bumped_def add_weight_def)

definition is_best :: "heap \<Rightarrow> bid set \<Rightarrow> bid \<Rightarrow> bool" where
  "is_best h S x \<longleftrightarrow> x \<in> S \<and> (\<forall>c \<in> S. score h c \<le> score h x)"

lemma wrr_loop_spec:
  assumes "distinct cs" "x \<notin> set cs"
  shows "\<exists>y. wrr_loop h (Some x) t cs = (bumped h (set cs), Some y, t + sum_list (map (weight h) cs)) \<and>
             is_best (bumped h (set cs)) (insert x (set cs)) y"
  using assms
proof (induction cs arbitrary: h x t)
  case Nil
  then show ?case by (auto simp: bumped_def is_best_def)
next
  case (Cons b cs)
  define h1 where "h1 = add_weight h b"
  define x1 where "x1 = (if score h1 b > score h1 x then b else x)"
  have nx: "x1 \<notin> set cs" using Cons.prems by (auto simp: x1_def)
  have w: "map (weight h1) cs = map (weight h) cs" by (simp add: h1_def add_weight_def)
  have h': "bumped h1 (set cs) = bumped h (set (b # cs))"
    using Cons.prems by (simp add: h1_def bumped_add_weight)
  obtain y where y: "wrr_loop h1 (Some x1) (t + weight h b) cs =
      (bumped h1 (set cs), Some y, t + weight h b + sum_list (map (weight h1) cs))"
    and best: "is_best (bumped h1 (set cs)) (insert x1 (set cs)) y"
    using Cons.IH [of x1 h1 "t + weight h b"] Cons.prems(1) nx by auto
  have loop: "wrr_loop h (Some x) t (b # cs) = wrr_loop h1 (Some x1) (t + weight h b) cs"
    by (simp add: h1_def x1_def Let_def)
  have "score (bumped h1 (set cs)) b = score h1 b" "score (bumped h1 (set cs)) x = score h1 x"
       "score (bumped h1 (set cs)) x1 = score h1 x1"
    using Cons.prems nx by (simp_all add: bumped_def)
  moreover have "score h1 b \<le> score h1 x1" "score h1 x \<le> score h1 x1" by (auto simp: x1_def)
  ultimately have "is_best (bumped h1 (set cs)) (insert x (set (b # cs))) y"
    using best by (auto simp: is_best_def x1_def split: if_splits)
  with y loop w h' show ?case by (auto simp: add.assoc)
qed

lemma wrr_Select_spec:
  assumes "distinct cs" "cs \<noteq> []"
  shows "\<exists>x. weightedRoundRobin_Select h cs =
      ((bumped h (set cs))(x := (bumped h (set cs) x)\<lparr>b_currentWeight :=
          score h x + weight h x - sum_list (map (weight h) cs)\<rparr>), Picked x) \<and>
      is_best (bumped h (set cs)) (set cs) x"
proof -
  obtain c ds where cs: "cs = c # ds" using assms(2) by (cases cs) auto
  have w: "map (weight (add_weight h c)) ds = map (weight h) ds" by (simp add: add_weight_def)
  have bm: "bumped (add_weight h c) (set ds) = bumped h (set cs)"
    using assms(1) cs by (simp add: bumped_add_weight)
  obtain x where
    x: "wrr_loop (add_weight h c) (Some c) (weight h c) ds =
       (bumped h (set cs), Some x, sum_list (map (weight h) cs))"
    and best: "is_best (bumped h (set cs)) (set cs) x"
    using wrr_loop_spec [of ds c "add_weight h c" "weight h c"] assms(1) cs
    unfolding bm w by auto
  have "wrr_loop h None 0 cs = (bumped h (set cs), Some x, sum_list (map (weight h) cs))"
    using x by (simp add: cs Let_def)
  moreover have "score (bumped h (set cs)) x = score h x + weight h x"
    using best by (simp add: is_best_def bumped_def)
  ultimately have "weightedRoundRobin_Select h cs =
      ((bumped h (set cs))(x := (bumped h (set cs) x)\<lparr>b_currentWeight :=
          score h x + weight h x - sum_list (map (weight h) cs)\<rparr>), Picked x)"
    by (simp add: weightedRoundRobin_Select_def)
  with best show ?thesis by blast
qed

text \<open>One selection: every candidate gains its weight and the winner pays the total.\<close>

lemma wrr_Select_scores:
  assumes "distinct cs" "weightedRoundRobin_Select h cs = (h', Picked x)"
  shows "x \<in> set cs"
    and "same_but_score h h'"
    and "score h' b = (if b \<in> set cs then score h b + weight h b else score h b) -
                      (if b = x then sum_list (map (weight h) cs) else 0)"
    and "\<And>c. c \<in> set cs \<Longrightarrow> score h c + weight h c \<le> score h x + weight h x"
proof -
  have "cs \<noteq> []" using assms(2) by (auto simp: weightedRoundRobin_Select_def)
  with wrr_Select_spec [OF assms(1), of h] assms(2)
  have h': "h' = (bumped h (set cs))(x := (bumped h (set cs) x)\<lparr>b_currentWeight :=
          score h x + weight h x - sum_list (map (weight h) cs)\<rparr>)"
    and x: "is_best (bumped h (set cs)) (set cs) x" by auto
  show xs: "x \<in> set cs" using x by (simp add: is_best_def)
  show "same_but_score h h'" by (auto simp: h' same_but_score_def bumped_def)
  show "score h' b = (if b \<in> set cs then score h b + weight h b else score h b) -
                      (if b = x then sum_list (map (weight h) cs) else 0)"
    using xs by (auto simp: h' bumped_def)
  show "score h c + weight h c \<le> score h x + weight h x" if "c \<in> set cs" for c
    using x that by (auto simp: is_best_def bumped_def split: if_splits)
qed

section \<open>The contracts hold\<close>

lemma same_but_score_trans: "same_but_score h h' \<Longrightarrow> same_but_score h' h'' \<Longrightarrow> same_but_score h h''"
  unfolding same_but_score_def by (metis backend.surjective backend.update_convs(14))

lemma wrr_loop_basic:
  "wrr_loop h best t cs = (h', best', t') \<Longrightarrow>
   set_option best' \<subseteq> set_option best \<union> set cs \<and> (best \<noteq> None \<or> cs \<noteq> [] \<longrightarrow> best' \<noteq> None) \<and>
   same_but_score h h'"
proof (induction h best t cs rule: wrr_loop.induct)
  case (2 h best t b bs)
  define best1 where "best1 = (case best of None \<Rightarrow> Some b
     | Some x \<Rightarrow> if score (add_weight h b) b > score (add_weight h b) x then Some b else best)"
  have step: "same_but_score h (add_weight h b)" by (simp add: same_but_score_def add_weight_def)
  have "wrr_loop (add_weight h b) best1 (t + weight h b) bs = (h', best', t')"
    using "2.prems" by (simp add: Let_def best1_def)
  with "2.IH" [OF refl best1_def] have ih: "set_option best' \<subseteq> set_option best1 \<union> set bs"
    "best1 \<noteq> None \<longrightarrow> best' \<noteq> None" "same_but_score (add_weight h b) h'" by blast+
  have "best1 \<noteq> None" "set_option best1 \<subseteq> set_option best \<union> {b}"
    by (auto simp: best1_def split: option.splits)
  with ih same_but_score_trans [OF step ih(3)] show ?case by auto
qed simp

lemma wrr_Select_cases:
  "weightedRoundRobin_Select h cs = (h', r) \<Longrightarrow>
   same_but_score h h' \<and> (if cs = [] then r = Panic else \<exists>b \<in> set cs. r = Picked b)"
proof -
  assume sel: "weightedRoundRobin_Select h cs = (h', r)"
  obtain h1 best t where l: "wrr_loop h None 0 cs = (h1, best, t)" by (metis prod_cases3)
  from wrr_loop_basic [OF l] have b: "set_option best \<subseteq> set cs" "cs \<noteq> [] \<longrightarrow> best \<noteq> None"
    and f: "same_but_score h h1" by auto
  show ?thesis
  proof (cases best)
    case None
    then show ?thesis using sel l b f by (auto simp: weightedRoundRobin_Select_def)
  next
    case (Some x)
    then have "h' = h1(x := (h1 x)\<lparr>b_currentWeight := score h1 x - t\<rparr>)" "r = Picked x"
      using sel l by (auto simp: weightedRoundRobin_Select_def)
    moreover have "same_but_score h1 (h1(x := (h1 x)\<lparr>b_currentWeight := score h1 x - t\<rparr>))"
      by (simp add: same_but_score_def)
    ultimately show ?thesis using b f Some same_but_score_trans by auto
  qed
qed

lemma ip_loop_mem: "ip_loop sc best bs cs = Some b \<Longrightarrow> b \<in> set cs \<or> best = Some b"
  by (induction sc best bs cs rule: ip_loop.induct) (auto split: if_splits)

lemma roundRobin_index: "cs \<noteq> [] \<Longrightarrow> length cs < 2 ^ 64 \<Longrightarrow> unat ((n :: 64 word) mod of_nat (length cs)) = unat n mod length cs"
  by (simp add: unat_mod_distrib unat_of_nat take_bit_nat_eq_self)

interpretation wrr: total_selector "\<lambda>_ h cs ip. (case weightedRoundRobin_Select h cs of (h', r) \<Rightarrow> ((), h', r))"
proof unfold_locales
  show "b \<in> set cs" if "(case weightedRoundRobin_Select h cs of (h', r) \<Rightarrow> ((), h', r)) = (s', h', Picked b)"
    for s' :: unit and h cs h' b
    using that wrr_Select_cases [of h cs h' "Picked b"] by (auto split: prod.splits if_splits)
  show "same_but_score h h'" if "(case weightedRoundRobin_Select h cs of (h', r) \<Rightarrow> ((), h', r)) = (s', h', r)"
    for s' :: unit and h cs h' r
    using that wrr_Select_cases [of h cs h' r] by (auto split: prod.splits)
  show "\<exists>s' h' b. (case weightedRoundRobin_Select h cs of (h', r) \<Rightarrow> ((), h', r)) = (s', h', Picked b)"
    if "cs \<noteq> []" for h cs
    using that wrr_Select_cases [of h cs] by (cases "weightedRoundRobin_Select h cs") auto
qed

interpretation lc: total_selector "\<lambda>_ h cs ip. ((), h, leastConnections_Select h cs)"
proof unfold_locales
  show "b \<in> set cs" if "((), h, leastConnections_Select h cs) = (s', h', Picked b)"
    for s' :: unit and h cs h' b
    using that best_scan_mem [of "lc_better h" "hd cs" "tl cs"]
    by (auto simp: leastConnections_Select_def split: list.splits)
qed (auto simp: leastConnections_Select_def split: list.splits)

interpretation ip: selector_contract "\<lambda>_ h cs ip. ((), h, ipHash_Select hash h cs ip)"
  for hash
proof unfold_locales
  show "b \<in> set cs" if "((), h, ipHash_Select hash h cs ip) = (s', h', Picked b)"
    for s' :: unit and h cs ip h' b
    using that ip_loop_mem by (fastforce simp: ipHash_Select_def split: option.splits)
qed auto

section \<open>Weighted round robin: one full cycle\<close>

text \<open>\<open>n\<close> consecutive selections over the same candidates, and the backends they picked.\<close>

fun wrr_run :: "nat \<Rightarrow> heap \<Rightarrow> bid list \<Rightarrow> heap \<times> bid list" where
  "wrr_run 0 h cs = (h, [])"
| "wrr_run (Suc n) h cs =
     (case weightedRoundRobin_Select h cs of
        (h', Picked b) \<Rightarrow> (case wrr_run n h' cs of (h'', bs) \<Rightarrow> (h'', b # bs))
      | (h', _) \<Rightarrow> (h', []))"

abbreviation total_weight :: "heap \<Rightarrow> bid list \<Rightarrow> int" where
  "total_weight h cs \<equiv> sum_list (map (weight h) cs)"

lemma same_but_score_total: "same_but_score h h' \<Longrightarrow> total_weight h' cs = total_weight h cs"
  using same_but_score_weight by (simp cong: map_cong)

lemma wrr_run_step:
  assumes "distinct cs" "cs \<noteq> []" "wrr_run (Suc n) h cs = (h'', bs')"
  obtains h' b bs where "weightedRoundRobin_Select h cs = (h', Picked b)"
    "wrr_run n h' cs = (h'', bs)" "bs' = b # bs"
proof -
  obtain h' r where s: "weightedRoundRobin_Select h cs = (h', r)" by fastforce
  moreover obtain b where "r = Picked b" using wrr_Select_cases [OF s] assms(2) by auto
  ultimately show thesis using that assms(3) by (auto split: prod.splits)
qed

lemma wrr_run_scores:
  assumes "distinct cs" "cs \<noteq> []" "wrr_run n h cs = (h', bs)"
  shows "length bs = n \<and> set bs \<subseteq> set cs \<and> same_but_score h h' \<and>
    (\<forall>b. score h' b = score h b + (if b \<in> set cs then int n * weight h b else 0)
                      - total_weight h cs * int (count_list bs b))"
  using assms(3)
proof (induction n arbitrary: h bs)
  case (Suc n)
  obtain h1 x bs1 where sel: "weightedRoundRobin_Select h cs = (h1, Picked x)"
    and run: "wrr_run n h1 cs = (h', bs1)" and bs: "bs = x # bs1"
    using wrr_run_step [OF assms(1,2) Suc.prems] .
  note ih = Suc.IH [OF run]
  note one = wrr_Select_scores [OF assms(1) sel]
  have w: "weight h1 b = weight h b" for b using one(2) by (rule same_but_score_weight)
  have t: "total_weight h1 cs = total_weight h cs" using one(2) by (rule same_but_score_total)
  have "score h' b = score h b + (if b \<in> set cs then int (Suc n) * weight h b else 0)
                      - total_weight h cs * int (count_list bs b)" for b
  proof -
    have "score h' b = score h1 b + (if b \<in> set cs then int n * weight h b else 0)
                      - total_weight h cs * int (count_list bs1 b)" using ih w t by simp
    then show ?thesis using one(3) [of b] one(1)
      by (cases "b = x"; cases "b \<in> set cs") (auto simp: bs algebra_simps)
  qed
  then show ?case using ih one bs same_but_score_trans by auto
qed simp

lemma wrr_run_lower:
  assumes d: "distinct cs" "cs \<noteq> []" and pos: "\<forall>b \<in> set cs. 1 \<le> weight h b"
    and run: "wrr_run n h cs = (h', bs)"
    and z: "sum (score h) (set cs) = 0" "\<forall>b \<in> set cs. - total_weight h cs < score h b"
  shows "\<forall>b \<in> set cs. - total_weight h cs < score h' b"
  using run z pos
proof (induction n arbitrary: h bs)
  case (Suc n)
  obtain h1 x bs1 where sel: "weightedRoundRobin_Select h cs = (h1, Picked x)"
    and run: "wrr_run n h1 cs = (h', bs1)"
    using wrr_run_step [OF d Suc.prems(1)] .
  note one = wrr_Select_scores [OF d(1) sel]
  have w: "weight h1 b = weight h b" for b using one(2) by (rule same_but_score_weight)
  have t: "total_weight h1 cs = total_weight h cs" using one(2) by (rule same_but_score_total)
  have W: "total_weight h cs = sum (weight h) (set cs)"
    using d(1) by (simp add: sum_list_distinct_conv_sum_set)
  have Wpos: "0 < total_weight h cs"
    unfolding W using d(2) Suc.prems(4) by (intro sum_pos) auto
  have sum_b: "(\<Sum>b\<in>set cs. score h b + weight h b) = total_weight h cs"
    using Suc.prems(2) by (simp add: sum.distrib W)
  have x_pos: "0 < score h x + weight h x"
  proof (rule ccontr)
    assume "\<not> ?thesis"
    then have "\<forall>b \<in> set cs. score h b + weight h b \<le> 0" using one(4) by force
    then have "(\<Sum>b\<in>set cs. score h b + weight h b) \<le> 0" by (intro sum_nonpos) auto
    with sum_b Wpos show False by simp
  qed
  have s1: "score h1 b = score h b + weight h b - (if b = x then total_weight h cs else 0)"
    if "b \<in> set cs" for b using one(3) [of b] that by simp
  have "sum (score h1) (set cs) =
      (\<Sum>b\<in>set cs. score h b + weight h b) - (\<Sum>b\<in>set cs. if b = x then total_weight h cs else 0)"
    by (simp add: s1 sum_subtractf)
  then have z1: "sum (score h1) (set cs) = 0" using sum_b one(1) by (simp add: sum.delta')
  have "\<forall>b \<in> set cs. - total_weight h1 cs < score h1 b"
  proof
    fix b assume b: "b \<in> set cs"
    then have "- total_weight h cs < score h b" "1 \<le> weight h b" using Suc.prems(3,4) by blast+
    then show "- total_weight h1 cs < score h1 b" using s1 [OF b] x_pos by (simp add: t)
  qed
  with Suc.IH [OF run z1] show ?case using Suc.prems(4) w t by simp
qed auto

text \<open>C22. Smooth weighted round robin is exactly proportional: starting from level scores, \<open>W\<close>
  consecutive selections over the same candidates, \<open>W\<close> being the sum of their weights, pick
  each candidate exactly as often as its weight says and leave every backend as it was, so
  that the same cycle repeats for ever.\<close>

theorem wrr_full_cycle:
  assumes d: "distinct cs" "cs \<noteq> []" and pos: "\<forall>b \<in> set cs. 1 \<le> weight h b"
    and level: "\<forall>b \<in> set cs. score h b = 0"
    and run: "wrr_run (nat (total_weight h cs)) h cs = (h', bs)"
  shows "(\<forall>b \<in> set cs. int (count_list bs b) = weight h b) \<and> set bs \<subseteq> set cs \<and> h' = h"
proof -
  have W: "total_weight h cs = sum (weight h) (set cs)"
    using d(1) by (simp add: sum_list_distinct_conv_sum_set)
  have Wpos: "0 < total_weight h cs" unfolding W using d(2) pos by (intro sum_pos) auto
  from wrr_run_scores [OF d run] have len: "length bs = nat (total_weight h cs)"
    and sub: "set bs \<subseteq> set cs" and frame: "same_but_score h h'"
    and sc: "\<And>b. score h' b = score h b
        + (if b \<in> set cs then int (nat (total_weight h cs)) * weight h b else 0)
        - total_weight h cs * int (count_list bs b)" by blast+
  have lower: "\<forall>b \<in> set cs. - total_weight h cs < score h' b"
    using wrr_run_lower [OF d pos run] level Wpos by simp
  have le: "int (count_list bs b) \<le> weight h b" if b: "b \<in> set cs" for b
  proof -
    have "score h' b = total_weight h cs * (weight h b - int (count_list bs b))"
      using sc [of b] level b Wpos by (simp add: algebra_simps)
    with lower b have "total_weight h cs * (- 1) < total_weight h cs * (weight h b - int (count_list bs b))"
      by auto
    then have "- 1 < weight h b - int (count_list bs b)"
      using Wpos by (simp only: mult_less_cancel_left_pos)
    then show ?thesis by simp
  qed
  have "(\<Sum>b\<in>set cs. weight h b - int (count_list bs b)) = 0"
    using sum_count_set [OF sub finite_set] len Wpos W
    by (simp add: sum_subtractf flip: of_nat_sum)
  then have "\<forall>b \<in> set cs. weight h b - int (count_list bs b) = 0"
    using le by (subst (asm) sum_nonneg_eq_0_iff) auto
  then have eq: "int (count_list bs b) = weight h b" if "b \<in> set cs" for b using that by simp
  have "score h' b = score h b" for b
  proof (cases "b \<in> set cs")
    case True
    then show ?thesis using sc [of b] eq Wpos by simp
  next
    case False
    then have "count_list bs b = 0" using sub by (auto simp: count_list_0_iff)
    then show ?thesis using sc [of b] False by simp
  qed
  then have "h' b = h b" for b
  proof -
    have "h' b = (h b)\<lparr>b_currentWeight := score h' b\<rparr>"
      using frame unfolding same_but_score_def by blast
    then show ?thesis using \<open>score h' b = score h b\<close> by simp
  qed
  with eq sub show ?thesis by auto
qed

definition ex_heap :: "int list \<Rightarrow> heap" where
  "ex_heap ws = (\<lambda>i. NewBackend (\<lambda>_. 0) (ex_upstream [char_of (65 + i)] (if i < length ws then ws ! i else 1)))"

theorem wrr_full_cycle_witness:
  "snd (wrr_run 7 (ex_heap [5, 1, 1]) [0, 1, 2]) = [0, 0, 1, 0, 2, 0, 0] \<and>
   int (count_list (snd (wrr_run 7 (ex_heap [5, 1, 1]) [0, 1, 2])) 0) = 5 \<and>
   fst (wrr_run 7 (ex_heap [5, 1, 1]) [0, 1, 2]) = ex_heap [5, 1, 1]"
proof -
  let ?h = "ex_heap [5, 1, 1]"
  have w: "weight ?h 0 = 5" "weight ?h 1 = 1" "weight ?h 2 = 1" "\<And>b. score ?h b = 0"
    by (simp_all add: ex_heap_def NewBackend_def ex_upstream_def)
  obtain h' bs where r: "wrr_run 7 ?h [0, 1, 2] = (h', bs)" by fastforce
  have "int (count_list bs 0) = 5 \<and> h' = ?h"
    using wrr_full_cycle [of "[0, 1, 2]" ?h h' bs] r w by simp
  moreover have "snd (wrr_run 7 ?h [0, 1, 2]) = [0, 0, 1, 0, 2, 0, 0]"
    by code_simp
  ultimately show ?thesis using r by simp
qed

section \<open>Round robin\<close>

text \<open>\<open>n\<close> consecutive selections over the same candidates.\<close>

fun rr_run :: "nat \<Rightarrow> 64 word \<Rightarrow> heap \<Rightarrow> bid list \<Rightarrow> 64 word \<times> sel_result list" where
  "rr_run 0 c h cs = (c, [])"
| "rr_run (Suc n) c h cs =
     (case roundRobin_Select c h cs of (c', h', r) \<Rightarrow>
        (case rr_run n c' h' cs of (c'', rs) \<Rightarrow> (c'', r # rs)))"

lemma rr_run_picks:
  assumes "cs \<noteq> []" "length cs < 2 ^ 64"
  shows "unat c + n < 2 ^ 64 \<Longrightarrow>
    rr_run n c h cs = (c + of_nat n, map (\<lambda>i. Picked (cs ! ((unat c + i) mod length cs))) [0..<n])"
proof (induction n arbitrary: c)
  case (Suc n)
  have c1: "unat (c + 1) = Suc (unat c)"
    using Suc.prems by (subst unat_add_lem [THEN iffD1]) simp_all
  have "roundRobin_Select c h cs = (c + 1, h, Picked (cs ! (unat c mod length cs)))"
    using assms roundRobin_index [of cs c] by (simp add: roundRobin_Select_def Let_def)
  moreover have "rr_run n (c + 1) h cs =
      (c + 1 + of_nat n, map (\<lambda>i. Picked (cs ! ((unat (c + 1) + i) mod length cs))) [0..<n])"
    using Suc.IH [of "c + 1"] Suc.prems c1 by simp
  moreover have "[0..<Suc n] = 0 # map Suc [0..<n]" by (metis map_Suc_upt upt_conv_Cons zero_less_Suc)
  ultimately show ?case by (simp add: c1 comp_def del: upt_Suc)
qed simp

text \<open>Round robin is fair: \<open>n\<close> consecutive selections over \<open>n\<close> candidates pick them in
  rotation, each exactly once, starting where the counter stands (as long as the 64-bit counter
  does not wrap in between).\<close>

theorem roundRobin_rotates:
  assumes "cs \<noteq> []" "unat c + length cs < 2 ^ 64"
  shows "rr_run (length cs) c h cs = (c + of_nat (length cs), map Picked (rotate (unat c) cs))"
proof -
  have "map (\<lambda>i. Picked (cs ! ((unat c + i) mod length cs))) [0..<length cs] =
        map Picked (rotate (unat c) cs)"
    by (rule nth_equalityI) (simp_all add: nth_rotate)
  then show ?thesis using rr_run_picks [of cs c "length cs" h] assms by simp
qed

theorem roundRobin_rotates_witness:
  "snd (rr_run 3 5 (ex_heap [1, 1, 1]) [10, 11, 12]) = [Picked 12, Picked 10, Picked 11]"
proof -
  have l: "length [10, 11, 12 :: bid] = 3" and r: "rotate (unat (5 :: 64 word)) [10, 11, 12 :: bid] = [12, 10, 11]"
    by code_simp+
  have "unat (5 :: 64 word) + length [10, 11, 12 :: bid] < 2 ^ 64" by simp
  from roundRobin_rotates [OF _ this, of "ex_heap [1, 1, 1]"] show ?thesis unfolding l r by simp
qed

interpretation rr: total_selector "\<lambda>c h cs ip. roundRobin_Select c h cs"
proof unfold_locales
  show "b \<in> set cs" if "length cs < 2 ^ 64" "roundRobin_Select c h cs = (c', h', Picked b)"
    for c h cs c' h' b
    using that roundRobin_index [of cs c]
    by (auto simp: roundRobin_Select_def Let_def split: if_splits)
qed (auto simp: roundRobin_Select_def Let_def)

interpretation sel: selector_contract "Select hash" for hash
proof unfold_locales
  show "b \<in> set cs" if "length cs < 2 ^ 64" "Select hash s h cs i = (s', h', Picked b)"
    for s h cs i s' h' b
  proof (cases s)
    case (SelRoundRobin c)
    with that(2) show ?thesis by (auto split: prod.splits dest: rr.sound [OF that(1)])
  next
    case SelWeighted
    with that(2) wrr_Select_cases [of h cs h' "Picked b"] show ?thesis
      by (auto split: prod.splits if_splits)
  next
    case SelLeast
    with that(2) show ?thesis using lc.sound [OF that(1)] by auto
  next
    case SelIPHash
    with that(2) show ?thesis using ip.sound [OF that(1)] by auto
  qed
  show "same_but_score h h'" if "Select hash s h cs i = (s', h', r)" for s h cs i s' h' r
    using that wrr_Select_cases [of h cs h' r]
    by (cases s) (auto split: prod.splits dest: rr.frame)
qed

section \<open>Least connections\<close>

lemma lc_better_asym: "lc_better h x y \<Longrightarrow> \<not> lc_better h y x"
  unfolding lc_better_def by linarith

lemma lc_better_neg_trans: "\<not> lc_better h x y \<Longrightarrow> \<not> lc_better h y z \<Longrightarrow> \<not> lc_better h x z"
  unfolding lc_better_def by linarith

text \<open>Least connections picks a candidate with the fewest requests in flight and, among those,
  one of the largest weight.\<close>

theorem leastConnections_optimal:
  assumes "leastConnections_Select h cs = Picked b"
  shows "b \<in> set cs \<and> (\<forall>c \<in> set cs. b_activeConns (h b) \<le> b_activeConns (h c) \<and>
           (b_activeConns (h c) = b_activeConns (h b) \<longrightarrow> weight h c \<le> weight h b))"
proof -
  obtain d ds where cs: "cs = d # ds" and b: "b = best_scan (lc_better h) d ds"
    using assms by (cases cs) (auto simp: leastConnections_Select_def)
  have nb: "\<not> lc_better h c b" if "c \<in> set cs" for c
    unfolding b using that cs by (intro best_scan_best [OF lc_better_asym lc_better_neg_trans]) simp_all
  have "b_activeConns (h b) \<le> b_activeConns (h c)"
    "b_activeConns (h c) = b_activeConns (h b) \<longrightarrow> weight h c \<le> weight h b" if "c \<in> set cs" for c
    using nb [OF that] by (auto simp: lc_better_def)
  moreover have "b \<in> set cs" using best_scan_mem [of "lc_better h" d ds] b cs by simp
  ultimately show ?thesis by simp
qed

definition ex_busy :: heap where
  "ex_busy = (\<lambda>i. (ex_heap [1, 5, 5] i)\<lparr>b_activeConns := (if i = 0 then 1 else if i = 3 then 0 else 2)\<rparr>)"

theorem leastConnections_optimal_witness:
  "leastConnections_Select ex_busy [0, 1, 3, 2] = Picked 3 \<and> b_activeConns (ex_busy 3) \<le> b_activeConns (ex_busy 0)"
proof -
  have p: "leastConnections_Select ex_busy [0, 1, 3, 2] = Picked 3" by code_simp
  from leastConnections_optimal [OF p] show ?thesis using p by simp
qed

section \<open>IP hash\<close>

lemma score_gt_less: "score_gt s t \<longleftrightarrow> t < s"
  by (cases s; cases t) (auto simp: score_gt_def)

text \<open>The scan returns the first candidate of the largest score, provided it is not minus
  infinity.\<close>

fun first_max :: "(bid \<Rightarrow> real option) \<Rightarrow> bid list \<Rightarrow> bid \<Rightarrow> bool" where
  "first_max sc [] b = False"
| "first_max sc (c # cs) b =
     (c = b \<and> (\<forall>z \<in> set cs. sc z \<le> sc b) \<or> sc c < sc b \<and> first_max sc cs b)"

lemma ip_loop_spec:
  "ip_loop sc best s cs = Some b \<longleftrightarrow>
     best = Some b \<and> (\<forall>c \<in> set cs. sc c \<le> s) \<or> s < sc b \<and> first_max sc cs b"
proof (induction cs arbitrary: best s)
  case (Cons c cs)
  show ?case
  proof (cases "s < sc c")
    case True
    then have "ip_loop sc best s (c # cs) = Some b \<longleftrightarrow>
        c = b \<and> (\<forall>z \<in> set cs. sc z \<le> sc c) \<or> sc c < sc b \<and> first_max sc cs b"
      using Cons [of "Some c" "sc c"] by (simp add: score_gt_less)
    moreover have "sc c < sc b \<Longrightarrow> s < sc b" using True by (rule less_trans)
    ultimately show ?thesis using True by auto
  next
    case False
    then have "ip_loop sc best s (c # cs) = Some b \<longleftrightarrow>
        best = Some b \<and> (\<forall>z \<in> set cs. sc z \<le> s) \<or> s < sc b \<and> first_max sc cs b"
      using Cons [of best s] by (simp add: score_gt_less)
    moreover have "s < sc b \<Longrightarrow> sc c < sc b" using False by simp
    ultimately show ?thesis using False by auto
  qed
qed simp

lemma first_max_filter: "first_max sc cs b \<Longrightarrow> P b \<Longrightarrow> first_max sc (filter P cs) b"
  by (induction cs) auto

lemma ip_loop_Some: "best \<noteq> None \<Longrightarrow> ip_loop sc best s cs \<noteq> None"
  by (induction cs arbitrary: best s) auto

lemma ip_loop_none: "ip_loop sc None None cs = None \<longleftrightarrow> (\<forall>c \<in> set cs. sc c = None)"
proof (induction cs)
  case (Cons c cs)
  then show ?case
    using ip_loop_Some [of "Some c" sc "sc c" cs] by (auto simp: score_gt_def split: option.splits)
qed simp

lemma ipHash_Picked:
  "ipHash_Select hash h cs ip = Picked b \<longleftrightarrow>
     ip_loop (\<lambda>b. weightedScore (hash ip) (h b)) None None cs = Some b"
  by (auto simp: ipHash_Select_def split: option.splits)

text \<open>IP hash moves only the clients of the backend that left: if a client is served by \<open>b\<close>,
  then it is still served by \<open>b\<close> whenever any set of other candidates is taken away.\<close>

theorem ipHash_stable:
  assumes "ipHash_Select hash h cs ip = Picked b" "P b"
  shows "ipHash_Select hash h (filter P cs) ip = Picked b"
proof -
  let ?sc = "\<lambda>b. weightedScore (hash ip) (h b)"
  have "None < ?sc b \<and> first_max ?sc cs b"
    using assms(1) unfolding ipHash_Picked ip_loop_spec by simp
  then show ?thesis
    using first_max_filter assms(2) unfolding ipHash_Picked ip_loop_spec by blast
qed

lemma hash_unit_one: "hash_unit k b = 1 \<longleftrightarrow> drop_bit 11 (mix64 k (b_keyHash b)) = 2 ^ 53 - 1"
proof -
  let ?x = "drop_bit 11 (mix64 k (b_keyHash b))"
  have "hash_unit k b = 1 \<longleftrightarrow> real (unat ?x) + 1 = real (2 ^ 53)"
    by (simp add: hash_unit_def field_simps)
  also have "\<dots> \<longleftrightarrow> real (Suc (unat ?x)) = real (2 ^ 53)" by simp
  also have "\<dots> \<longleftrightarrow> Suc (unat ?x) = 2 ^ 53" by (rule of_nat_eq_iff)
  also have "\<dots> \<longleftrightarrow> unat ?x = 2 ^ 53 - 1" by auto
  also have "\<dots> \<longleftrightarrow> ?x = 2 ^ 53 - 1"
  proof -
    have "unat (2 ^ 53 - 1 :: 64 word) = 2 ^ 53 - 1" by simp
    then show ?thesis by (simp only: word_unat_eq_iff)
  qed
  finally show ?thesis .
qed

text \<open>When IP hash finds nobody: it returns a nil backend exactly when the mixed hash of the
  client with every candidate has its 53 upper bits all set, even if the candidate list is not
  empty.\<close>

theorem ipHash_nil_iff:
  "ipHash_Select hash h cs ip = NilBackend \<longleftrightarrow>
     (\<forall>b \<in> set cs. drop_bit 11 (mix64 (hash ip) (b_keyHash (h b))) = 2 ^ 53 - 1)"
proof -
  have "ipHash_Select hash h cs ip = NilBackend \<longleftrightarrow>
      ip_loop (\<lambda>b. weightedScore (hash ip) (h b)) None None cs = None"
    by (auto simp: ipHash_Select_def split: option.splits)
  also have "\<dots> \<longleftrightarrow> (\<forall>b \<in> set cs. weightedScore (hash ip) (h b) = None)" by (rule ip_loop_none)
  also have "\<dots> \<longleftrightarrow> (\<forall>b \<in> set cs. drop_bit 11 (mix64 (hash ip) (b_keyHash (h b))) = 2 ^ 53 - 1)"
    by (simp add: weightedScore_def Let_def hash_unit_one)
  finally show ?thesis .
qed

definition unlucky_hash :: "string \<Rightarrow> 64 word" where
  "unlucky_hash s = (if s = ''192.0.2.1'' then 0 else 3558559446808474027)"

lemma unlucky_mix: "drop_bit 11 (mix64 0 3558559446808474027) = (2 ^ 53 - 1 :: 64 word)"
  by code_simp

lemma lucky_mix: "drop_bit 11 (mix64 0 0) \<noteq> (2 ^ 53 - 1 :: 64 word)"
  by code_simp

theorem ipHash_nil_iff_witness:
  "ipHash_Select unlucky_hash (\<lambda>_. NewBackend unlucky_hash (ex_upstream ''a:80'' 1)) [0] ''192.0.2.1'' = NilBackend"
  unfolding ipHash_nil_iff
  using unlucky_mix by (simp add: unlucky_hash_def NewBackend_def backendKey_def ex_upstream_def)

theorem ipHash_stable_witness:
  "ipHash_Select (\<lambda>_. 0) (ex_heap [1, 1]) [1, 0] ''192.0.2.1'' = Picked 1 \<and>
   ipHash_Select (\<lambda>_. 0) (ex_heap [1, 1]) [1] ''192.0.2.1'' = Picked 1"
proof -
  have s: "weightedScore 0 (ex_heap [1, 1] 1) = weightedScore 0 (ex_heap [1, 1] 0)"
    by (simp add: weightedScore_def hash_unit_def ex_heap_def NewBackend_def ex_upstream_def)
  have "weightedScore 0 (ex_heap [1, 1] 0) \<noteq> None"
    using lucky_mix by (simp add: weightedScore_def Let_def hash_unit_one ex_heap_def NewBackend_def)
  then obtain x where x: "weightedScore 0 (ex_heap [1, 1] 0) = Some x" by blast
  then have p: "ipHash_Select (\<lambda>_. 0) (ex_heap [1, 1]) [1, 0] ''192.0.2.1'' = Picked 1"
    unfolding ipHash_Picked ip_loop_spec by (simp add: s [unfolded One_nat_def] x)
  from ipHash_stable [OF p, of "\<lambda>b. b = 1"] p show ?thesis by simp
qed

end
