(* ===== verification/Balancer_Pool.thy ===== *)
theory Balancer_Pool
  imports Balancer_Selector
begin

text \<open>
  \<^verbatim>\<open>internal/balancer/pool.go\<close>: the live set of backends of one host. A pool holds addresses
  into the heap of backends; building one allocates a new backend per upstream, which takes over
  the health and the counters of the backend that addressed the same upstream before. \<open>pick_from\<close>
  is \<^verbatim>\<open>Pick\<close> over any implementation of the selector interface and is reasoned about in the
  context of the interface's contract; \<open>Pick\<close> instantiates it with the program's dispatcher.
\<close>

datatype pick_error = ErrNoBackends | ErrNoHealthyBackend

record pool =
  p_hostID :: int
  p_algorithm :: Algorithm
  p_backends :: "bid list"
  p_selector :: selector

text \<open>The heap together with the next free address.\<close>

type_synonym store = "heap \<times> nat"

section \<open>Building a pool\<close>

definition inherited_map :: "heap \<Rightarrow> pool option \<Rightarrow> string \<rightharpoonup> bid" where
  "inherited_map h prev =
     (case prev of None \<Rightarrow> Map.empty
      | Some p \<Rightarrow> foldl (\<lambda>m b. m(b_key (h b) \<mapsto> b)) Map.empty (p_backends p))"

definition build_backend :: "(string \<Rightarrow> 64 word) \<Rightarrow> heap \<Rightarrow> (string \<rightharpoonup> bid) \<Rightarrow> upstream \<Rightarrow> backend" where
  "build_backend hash h inherited u =
     (let b = NewBackend hash u
      in case inherited (b_key b) of Some old \<Rightarrow> inheritFrom b (h old) | None \<Rightarrow> b)"

fun build_backends ::
  "(string \<Rightarrow> 64 word) \<Rightarrow> (string \<rightharpoonup> bid) \<Rightarrow> store \<Rightarrow> upstream list \<Rightarrow> store \<times> bid list" where
  "build_backends hash inherited (h, n) [] = ((h, n), [])"
| "build_backends hash inherited (h, n) (u # us) =
     (case build_backends hash inherited (h(n := build_backend hash h inherited u), Suc n) us of
        (st, bs) \<Rightarrow> (st, n # bs))"

definition NewPool ::
  "(string \<Rightarrow> 64 word) \<Rightarrow> int \<Rightarrow> Algorithm \<Rightarrow> upstream list \<Rightarrow> pool option \<Rightarrow> store \<Rightarrow> store \<times> pool" where
  "NewPool hash hostID algorithm upstreams prev st =
     (case build_backends hash (inherited_map (fst st) prev) st upstreams of
        (st', bs) \<Rightarrow> (st', \<lparr>p_hostID = hostID, p_algorithm = algorithm, p_backends = bs,
                           p_selector = newSelector algorithm\<rparr>))"

section \<open>Picking a backend\<close>

definition containsBackend :: "bid list \<Rightarrow> bid \<Rightarrow> bool" where
  "containsBackend xs b = list_ex (\<lambda>x. x = b) xs"

fun scan_candidates :: "heap \<Rightarrow> time \<Rightarrow> bid list \<Rightarrow> bid list \<Rightarrow> bid list \<times> nat" where
  "scan_candidates h now excl [] = ([], 0)"
| "scan_candidates h now excl (b # bs) =
     (case scan_candidates h now excl bs of (candidates, enabled) \<Rightarrow>
        if \<not> u_Enabled (b_Upstream (h b)) then (candidates, enabled)
        else if \<not> Available (h b) now \<or> \<not> HasCapacity (h b) \<or> containsBackend excl b
             then (candidates, enabled + 1)
        else (b # candidates, enabled + 1))"

definition pick_from ::
  "('s \<Rightarrow> heap \<Rightarrow> bid list \<Rightarrow> string \<Rightarrow> 's \<times> heap \<times> sel_result) \<Rightarrow>
   's \<Rightarrow> heap \<Rightarrow> time \<Rightarrow> bid list \<Rightarrow> string \<Rightarrow> bid list \<Rightarrow> 's \<times> heap \<times> (pick_error + sel_result)" where
  "pick_from select s h now backends clientIP excl =
     (if backends = [] then (s, h, Inl ErrNoBackends)
      else case scan_candidates h now excl backends of (candidates, enabled) \<Rightarrow>
        if enabled = 0 then (s, h, Inl ErrNoBackends)
        else if candidates = [] then (s, h, Inl ErrNoHealthyBackend)
        else case select s h candidates clientIP of (s', h', r) \<Rightarrow> (s', h', Inr r))"

definition Pick ::
  "(string \<Rightarrow> 64 word) \<Rightarrow> time \<Rightarrow> heap \<Rightarrow> pool \<Rightarrow> string \<Rightarrow> bid list \<Rightarrow> heap \<times> pool \<times> (pick_error + sel_result)" where
  "Pick hash now h p clientIP excl =
     (case pick_from (Select hash) (p_selector p) h now (p_backends p) clientIP excl of
        (s', h', r) \<Rightarrow> (h', p\<lparr>p_selector := s'\<rparr>, r))"

section \<open>Reporting\<close>

definition Pool_Snapshot :: "heap \<Rightarrow> time \<Rightarrow> pool \<Rightarrow> upstream_snapshot list" where
  "Pool_Snapshot h now p = map (\<lambda>b. Backend_Snapshot (h b) now) (p_backends p)"

fun count_healthy :: "heap \<Rightarrow> time \<Rightarrow> bid list \<Rightarrow> nat \<times> nat" where
  "count_healthy h now [] = (0, 0)"
| "count_healthy h now (b # bs) =
     (case count_healthy h now bs of (up, tot) \<Rightarrow>
        if \<not> u_Enabled (b_Upstream (h b)) then (up, tot)
        else (if Available (h b) now then up + 1 else up, tot + 1))"

definition HealthyCount :: "heap \<Rightarrow> time \<Rightarrow> pool \<Rightarrow> nat \<times> nat" where
  "HealthyCount h now p = count_healthy h now (p_backends p)"

section \<open>Picking, over the interface\<close>

abbreviation enabled_in :: "heap \<Rightarrow> bid \<Rightarrow> bool" where
  "enabled_in h b \<equiv> u_Enabled (b_Upstream (h b))"

definition eligible :: "heap \<Rightarrow> time \<Rightarrow> bid list \<Rightarrow> bid \<Rightarrow> bool" where
  "eligible h now excl b \<longleftrightarrow> enabled_in h b \<and> Available (h b) now \<and> HasCapacity (h b) \<and> b \<notin> set excl"

lemma containsBackend_iff [simp]: "containsBackend xs b \<longleftrightarrow> b \<in> set xs"
  by (auto simp: containsBackend_def list_ex_iff)

lemma scan_candidates_eq:
  "scan_candidates h now excl bs = (filter (eligible h now excl) bs, length (filter (enabled_in h) bs))"
  by (induction bs) (auto simp: eligible_def)

lemma pick_from_errors:
  "snd (snd (pick_from select s h now bs ip excl)) = Inl ErrNoBackends \<longleftrightarrow> (\<forall>b \<in> set bs. \<not> enabled_in h b)"
  "snd (snd (pick_from select s h now bs ip excl)) = Inl ErrNoHealthyBackend \<longleftrightarrow>
     (\<exists>b \<in> set bs. enabled_in h b) \<and> (\<forall>b \<in> set bs. \<not> eligible h now excl b)"
  by (auto simp: pick_from_def scan_candidates_eq filter_empty_conv eligible_def split: prod.splits)

context selector_contract
begin

lemma pick_from_sound:
  assumes "length bs < 2 ^ 64" "pick_from select s h now bs ip excl = (s', h', Inr (Picked b))"
  shows "b \<in> set bs \<and> eligible h now excl b"
proof -
  have "length (filter (eligible h now excl) bs) < 2 ^ 64"
    using assms(1) length_filter_le [of "eligible h now excl" bs] by linarith
  moreover have "select s h (filter (eligible h now excl) bs) ip = (s', h', Picked b)"
    using assms(2) by (auto simp: pick_from_def scan_candidates_eq split: prod.splits if_splits)
  ultimately have "b \<in> set (filter (eligible h now excl) bs)" by (rule sound)
  then show ?thesis by simp
qed

lemma pick_from_frame: "pick_from select s h now bs ip excl = (s', h', r) \<Longrightarrow> same_but_score h h'"
  by (auto simp: pick_from_def split: prod.splits if_splits dest: frame)

end

context total_selector
begin

lemma pick_from_serves:
  assumes "b \<in> set bs" "eligible h now excl b"
  shows "\<exists>s' h' c. pick_from select s h now bs ip excl = (s', h', Inr (Picked c))"
proof -
  have "filter (eligible h now excl) bs \<noteq> []" using assms by (auto simp: filter_empty_conv)
  moreover have "filter (enabled_in h) bs \<noteq> []" using assms by (auto simp: filter_empty_conv eligible_def)
  moreover have "bs \<noteq> []" using assms(1) by auto
  ultimately show ?thesis
    using picks [of "filter (eligible h now excl) bs" s h ip]
    by (auto simp: pick_from_def scan_candidates_eq)
qed

end

section \<open>Properties of picking\<close>

text \<open>C21. A picked backend is one of the pool's, enabled by the operator, neither probed down nor
  ejected at that instant, below its connection limit and not among the ones already tried for
  this request; picking changes nothing but running scores.\<close>

theorem Pick_sound:
  assumes "length (p_backends p) < 2 ^ 64" "Pick hash now h p ip excl = (h', p', Inr (Picked b))"
  shows "b \<in> set (p_backends p) \<and> u_Enabled (b_Upstream (h b)) \<and> Available (h b) now \<and>
         HasCapacity (h b) \<and> b \<notin> set excl \<and> same_but_score h h' \<and> p_backends p' = p_backends p"
proof -
  obtain s' where "pick_from (Select hash) (p_selector p) h now (p_backends p) ip excl = (s', h', Inr (Picked b))"
    and "p' = p\<lparr>p_selector := s'\<rparr>" using assms(2) by (auto simp: Pick_def split: prod.splits)
  with sel.pick_from_sound [OF assms(1)] sel.pick_from_frame show ?thesis
    by (fastforce simp: eligible_def)
qed

definition ex_pool :: "Algorithm \<Rightarrow> bid list \<Rightarrow> pool" where
  "ex_pool alg bs = \<lparr>p_hostID = 1, p_algorithm = alg, p_backends = bs, p_selector = newSelector alg\<rparr>"

theorem Pick_sound_witness:
  "(case Pick (\<lambda>_. 0) 100 (ex_heap [5, 1, 1]) (ex_pool WeightedRoundRobin [0, 1, 2]) ''192.0.2.1'' [0] of
      (h', p', r) \<Rightarrow> r = Inr (Picked 1)) \<and> Available (ex_heap [5, 1, 1] 1) 100"
proof -
  let ?P = "Pick (\<lambda>_. 0) 100 (ex_heap [5, 1, 1]) (ex_pool WeightedRoundRobin [0, 1, 2]) ''192.0.2.1'' [0]"
  have r: "snd (snd ?P) = Inr (Picked 1)"
    by (simp add: Pick_def pick_from_def ex_pool_def newSelector_def algorithm_defs backend_defs
        weightedRoundRobin_Select_def add_weight_def ex_heap_def NewBackend_def ex_upstream_def Let_def)
  obtain h' p' where P: "?P = (h', p', Inr (Picked 1))" using r by (metis prod.collapse)
  have "length (p_backends (ex_pool WeightedRoundRobin [0, 1, 2])) < 2 ^ 64" by (simp add: ex_pool_def)
  from Pick_sound [OF this P] show ?thesis using P by simp
qed

text \<open>The two errors mean what they say: no enabled upstream at all, and enabled upstreams of
  which every one is down, ejected, full or already tried.\<close>

theorem Pick_errors:
  "(snd (snd (Pick hash now h p ip excl)) = Inl ErrNoBackends \<longleftrightarrow>
      (\<forall>b \<in> set (p_backends p). \<not> u_Enabled (b_Upstream (h b)))) \<and>
   (snd (snd (Pick hash now h p ip excl)) = Inl ErrNoHealthyBackend \<longleftrightarrow>
      (\<exists>b \<in> set (p_backends p). u_Enabled (b_Upstream (h b))) \<and>
      (\<forall>b \<in> set (p_backends p). u_Enabled (b_Upstream (h b)) \<longrightarrow>
         \<not> Available (h b) now \<or> \<not> HasCapacity (h b) \<or> b \<in> set excl))"
proof -
  have "snd (snd (Pick hash now h p ip excl)) =
        snd (snd (pick_from (Select hash) (p_selector p) h now (p_backends p) ip excl))"
    by (simp add: Pick_def split: prod.splits)
  then show ?thesis
    using pick_from_errors [of "Select hash" "p_selector p" h now "p_backends p" ip excl]
    by (auto simp: eligible_def)
qed

theorem Pick_errors_witness:
  "snd (snd (Pick (\<lambda>_. 0) 100 (ex_heap [1]) (ex_pool RoundRobin [0]) ''192.0.2.1'' [0])) = Inl ErrNoHealthyBackend"
  using Pick_errors [of "\<lambda>_. 0" 100 "ex_heap [1]" "ex_pool RoundRobin [0]" "''192.0.2.1''" "[0]"]
  by (simp add: ex_pool_def ex_heap_def NewBackend_def ex_upstream_def)

text \<open>Progress: with any algorithm but IP hash, a pool with an eligible backend always serves
  the request from some backend.\<close>

theorem Pick_serves:
  assumes "p_selector p \<noteq> SelIPHash" and b: "b \<in> set (p_backends p)" "eligible h now excl b"
  shows "\<exists>h' p' c. Pick hash now h p ip excl = (h', p', Inr (Picked c))"
proof (cases "p_selector p")
  case (SelRoundRobin c)
  with rr.pick_from_serves [OF b, of c ip] show ?thesis
    by (fastforce simp: Pick_def pick_from_def split: prod.splits if_splits)
next
  case SelWeighted
  with wrr.pick_from_serves [OF b, of "()" ip] show ?thesis
    by (fastforce simp: Pick_def pick_from_def split: prod.splits if_splits)
next
  case SelLeast
  with lc.pick_from_serves [OF b, of "()" ip] show ?thesis
    by (fastforce simp: Pick_def pick_from_def split: prod.splits if_splits)
qed (use assms in simp)

theorem Pick_serves_witness:
  "\<exists>h' p' c. Pick (\<lambda>_. 0) 100 (ex_heap [5, 1]) (ex_pool LeastConnections [0, 1]) ''192.0.2.1'' [0] = (h', p', Inr (Picked c))"
  by (rule Pick_serves [of _ 1])
    (simp_all add: ex_pool_def newSelector_def algorithm_defs eligible_def backend_defs ex_heap_def
      NewBackend_def ex_upstream_def Let_def)

section \<open>Carrying state across a reload\<close>

lemma foldl_upd_dom: "(foldl (\<lambda>m b. m(f b \<mapsto> b)) m bs k = Some x) \<Longrightarrow> m k = Some x \<or> x \<in> set bs \<and> f x = k"
  by (induction bs arbitrary: m) (fastforce split: if_splits)+

lemma foldl_upd_hit:
  "distinct (map f bs) \<Longrightarrow> b \<in> set bs \<Longrightarrow> foldl (\<lambda>m b. m(f b \<mapsto> b)) m bs (f b) = Some b"
proof (induction bs arbitrary: m)
  case (Cons c cs)
  have keep: "f c \<notin> f ` set ds \<Longrightarrow> m (f c) = Some c \<Longrightarrow> foldl (\<lambda>m b. m(f b \<mapsto> b)) m ds (f c) = Some c" for ds m
    by (induction ds arbitrary: m) auto
  show ?case
  proof (cases "b = c")
    case True
    have "foldl (\<lambda>m b. m(f b \<mapsto> b)) (m(f c \<mapsto> c)) cs (f c) = Some c"
      by (rule keep) (use Cons.prems in auto)
    then show ?thesis using True by (simp only: foldl_Cons)
  next
    case False
    then show ?thesis using Cons by simp
  qed
qed simp

lemma build_backends_spec:
  assumes "ran inherited \<subseteq> {..<n0}" "n0 \<le> n"
    and "build_backends hash inherited (h, n) us = ((h', n'), bs)"
  shows "bs = [n..<n + length us] \<and> n' = n + length us \<and> (\<forall>a < n. h' a = h a) \<and>
         (\<forall>i < length us. h' (n + i) = build_backend hash h inherited (us ! i))"
  using assms(2,3)
proof (induction us arbitrary: h n bs)
  case (Cons u us)
  define h1 where "h1 = h(n := build_backend hash h inherited u)"
  have h1: "h1 n = build_backend hash h inherited u" "\<And>a. a < n \<Longrightarrow> h1 a = h a" by (simp_all add: h1_def)
  obtain bs1 where b1: "build_backends hash inherited (h1, Suc n) us = ((h', n'), bs1)" and bs: "bs = n # bs1"
    using Cons.prems(2) by (auto simp: h1_def split: prod.splits)
  from Cons.IH [OF _ b1] Cons.prems(1)
  have ih: "bs1 = [Suc n..<Suc n + length us]" "n' = Suc n + length us" "\<forall>a < Suc n. h' a = h1 a"
    "\<forall>i < length us. h' (Suc n + i) = build_backend hash h1 inherited (us ! i)" by auto
  have same: "build_backend hash h1 inherited v = build_backend hash h inherited v" for v
  proof (cases "inherited (b_key (NewBackend hash v))")
    case (Some old)
    then have "old < n" using assms(1) Cons.prems(1) by (auto simp: ran_def)
    then show ?thesis using Some h1(2) by (simp add: build_backend_def Let_def)
  qed (simp add: build_backend_def Let_def)
  have "h' (n + i) = build_backend hash h inherited ((u # us) ! i)" if "i < length (u # us)" for i
    using that ih(3,4) same h1(1) by (cases i) auto
  moreover have "bs = [n..<n + length (u # us)]" 
    using bs ih(1) upt_conv_Cons [of n "n + length (u # us)"] by (simp del: upt_Suc)
  ultimately show ?case using ih(2,3) h1(2) by simp
qed simp

lemma inheritFrom_frame: "b_Upstream (inheritFrom b old) = b_Upstream b" "b_activeConns (inheritFrom b old) = b_activeConns b"
  by (simp_all add: inheritFrom_def)

lemma NewBackend_frame: "b_Upstream (NewBackend hash u) = u" "b_activeConns (NewBackend hash u) = 0"
  by (simp_all add: NewBackend_def)

text \<open>A reload keeps what is known: when a pool is rebuilt, each upstream gets a new backend
  at a fresh address with the new configuration and nothing in flight; if a backend of the
  previous pool addressed the same scheme and address, its health, ejection, streaks, counters
  and last error carry over, otherwise the backend starts healthy; the previous backends
  themselves are untouched.\<close>

theorem NewPool_inherits:
  assumes new: "NewPool hash hid alg us prev (h, n) = ((h', n'), p)"
    and prev: "prev = Some q" "\<forall>b \<in> set (p_backends q). b < n" "distinct (map (\<lambda>b. b_key (h b)) (p_backends q))"
    and i: "i < length us"
  shows "p_backends p = [n..<n + length us] \<and> (\<forall>a < n. h' a = h a) \<and>
    b_Upstream (h' (n + i)) = us ! i \<and> b_activeConns (h' (n + i)) = 0 \<and>
    (\<forall>old \<in> set (p_backends q). b_key (h old) = backendKey (us ! i) \<longrightarrow>
       h' (n + i) = inheritFrom (NewBackend hash (us ! i)) (h old)) \<and>
    ((\<forall>old \<in> set (p_backends q). b_key (h old) \<noteq> backendKey (us ! i)) \<longrightarrow>
       h' (n + i) = NewBackend hash (us ! i))"
proof -
  let ?inh = "inherited_map h prev"
  have m: "?inh = foldl (\<lambda>m b. m(b_key (h b) \<mapsto> b)) Map.empty (p_backends q)"
    using prev(1) by (simp add: inherited_map_def)
  have hit: "?inh (b_key (h b)) = Some b" if "b \<in> set (p_backends q)" for b
    unfolding m using foldl_upd_hit [OF prev(3) that] .
  have only: "?inh k = Some b \<Longrightarrow> b \<in> set (p_backends q) \<and> b_key (h b) = k" for k b
    using foldl_upd_dom [of "\<lambda>b. b_key (h b)" Map.empty "p_backends q" k b] by (simp add: m)
  have "ran ?inh \<subseteq> {..<n}" using only prev(2) by (auto simp: ran_def)
  moreover obtain bs where "build_backends hash ?inh (h, n) us = ((h', n'), bs)" "p_backends p = bs"
    using new by (auto simp: NewPool_def split: prod.splits)
  ultimately have spec: "p_backends p = [n..<n + length us]" "\<forall>a < n. h' a = h a"
    "h' (n + i) = build_backend hash h ?inh (us ! i)"
    using build_backends_spec [of ?inh n n hash h us h' n' bs] i by auto
  have key: "b_key (NewBackend hash (us ! i)) = backendKey (us ! i)" by (simp add: NewBackend_def)
  show ?thesis
  proof (cases "?inh (backendKey (us ! i))")
    case None
    then have "\<forall>old \<in> set (p_backends q). b_key (h old) \<noteq> backendKey (us ! i)" using hit by fastforce
    moreover have "h' (n + i) = NewBackend hash (us ! i)"
      using None spec(3) key by (simp add: build_backend_def)
    ultimately show ?thesis using spec(1,2) by (simp add: NewBackend_frame)
  next
    case (Some old)
    then have o: "old \<in> set (p_backends q)" "b_key (h old) = backendKey (us ! i)" using only by blast+
    have uniq: "x = old" if "x \<in> set (p_backends q)" "b_key (h x) = backendKey (us ! i)" for x
      using hit [OF that(1)] that(2) Some by simp
    have eq: "h' (n + i) = inheritFrom (NewBackend hash (us ! i)) (h old)"
      using Some spec(3) key by (simp add: build_backend_def)
    show ?thesis
    proof (intro conjI ballI impI)
      fix x assume "x \<in> set (p_backends q)" "b_key (h x) = backendKey (us ! i)"
      then show "h' (n + i) = inheritFrom (NewBackend hash (us ! i)) (h x)" using uniq eq by metis
    next
      assume "\<forall>x \<in> set (p_backends q). b_key (h x) \<noteq> backendKey (us ! i)"
      with o show "h' (n + i) = NewBackend hash (us ! i)" by blast
    qed (use spec(1,2) in \<open>simp_all only: eq inheritFrom_frame NewBackend_frame\<close>)
  qed
qed

definition ex_old :: heap where
  "ex_old = (\<lambda>i. (ex_heap [1, 1] i)\<lparr>b_healthy := False\<rparr>)"

theorem NewPool_inherits_witness:
  "(case NewPool (\<lambda>_. 0) 1 LeastConnections [ex_upstream ''A'' 9] (Some (ex_pool RoundRobin [0, 1])) (ex_old, 2) of
      ((h', n'), p) \<Rightarrow> p_backends p = [2] \<and> \<not> b_healthy (h' 2) \<and> u_Weight (b_Upstream (h' 2)) = 9)"
proof -
  obtain h' n' p where new: "NewPool (\<lambda>_. 0) 1 LeastConnections [ex_upstream ''A'' 9]
      (Some (ex_pool RoundRobin [0, 1])) (ex_old, 2) = ((h', n'), p)" by (metis prod.collapse)
  have k: "char_of (65 :: nat) = CHR ''A''" "char_of (Suc 65) = CHR ''B''" by code_simp+
  have "h' (2 + 0) = inheritFrom (NewBackend (\<lambda>_. 0) (ex_upstream ''A'' 9)) (ex_old 0) \<and> p_backends p = [2]"
    using NewPool_inherits [OF new refl, of 0] k
    by (simp add: ex_pool_def ex_old_def ex_heap_def NewBackend_def ex_upstream_def backendKey_def)
  then show ?thesis using new
    by (simp add: inheritFrom_def ex_old_def NewBackend_def ex_upstream_def)
qed

end
