(* ===== verification/Limiter.thy ===== *)
theory Limiter
  imports Go_Base
begin

text \<open>
  \<^verbatim>\<open>internal/limiter/limiter.go\<close>: per-client rate and concurrency limits. A limiter is 64 shards,
  each an association list from keys to client records in the order a range statement visits
  them. The hash that chooses a shard (\<^verbatim>\<open>maphash.Comparable\<close> with a random seed) is the parameter
  \<open>mh\<close>, the clock an argument. Bucket levels are rational numbers where the code has \<^verbatim>\<open>float64\<close>:
  the theorems are about the exact arithmetic, not about rounding.

  \<open>judge\<close> is accounted for by an amortised argument (locale \<open>metered\<close>): requests granted are paid
  for by the initial level and the refill. The bookkeeping around it is a step relation over the
  limiter and the releases still outstanding.
\<close>

section \<open>Data\<close>

datatype reason = ReasonNone | ReasonRate | ReasonConcurrency | ReasonBodySize

record verdict =
  v_Limited :: bool
  v_Reason :: reason
  v_RetryAfter :: duration

definition no_verdict :: verdict where
  "no_verdict = \<lparr>v_Limited = False, v_Reason = ReasonNone, v_RetryAfter = 0\<rparr>"

record rules =
  r_RequestsPerSecond :: int
  r_Burst :: int
  r_MaxConcurrent :: int

definition shards :: nat where "shards = 64"
definition idleAfter :: duration where "idleAfter = 10 * minute"
definition sweepEvery :: duration where "sweepEvery = minute"
definition maxPerShard :: nat where "maxPerShard = 16384"

record client =
  c_tokens :: rat
  c_last :: time
  c_active :: int
  c_seen :: time

text \<open>A \<^verbatim>\<open>net.IP\<close> is nil or a slice of bytes.\<close>

type_synonym ip = "8 word list option"
type_synonym key = "int \<times> 8 word list"
type_synonym shard = "(key \<times> client) list"
type_synonym limiter = "shard list"

section \<open>Keys\<close>

definition To4 :: "8 word list \<Rightarrow> 8 word list option" where
  "To4 a =
     (if length a = 4 then Some a
      else if length a = 16 \<and> take 10 a = replicate 10 0 \<and> a ! 10 = 0xFF \<and> a ! 11 = 0xFF
           then Some (drop 12 a)
      else None)"

definition addrKey :: "8 word list \<Rightarrow> 8 word list" where
  "addrKey a =
     (case To4 a of
        Some v4 \<Rightarrow> replicate 10 0 @ [0xFF, 0xFF] @ v4
      | None \<Rightarrow> take 16 a @ replicate (16 - length a) 0)"

definition shardOf :: "(key \<Rightarrow> 64 word) \<Rightarrow> key \<Rightarrow> nat" where
  "shardOf mh k = unat (mh k) mod shards"

section \<open>Judging one request\<close>

definition burstOf :: "rules \<Rightarrow> int" where
  "burstOf r =
     (if r_Burst r > r_RequestsPerSecond r then r_Burst r
      else if r_RequestsPerSecond r > 0 then r_RequestsPerSecond r
      else 1)"

definition seconds :: "duration \<Rightarrow> rat" where
  "seconds d = of_int d / 1000000000"

definition judge :: "client \<Rightarrow> rules \<Rightarrow> time \<Rightarrow> client \<times> verdict" where
  "judge c r now =
     (if r_MaxConcurrent r > 0 \<and> c_active c \<ge> r_MaxConcurrent r then
        (c, \<lparr>v_Limited = True, v_Reason = ReasonConcurrency, v_RetryAfter = 0\<rparr>)
      else if r_RequestsPerSecond r \<le> 0 then (c, no_verdict)
      else
        let rate = of_int (r_RequestsPerSecond r);
            burst = of_int (burstOf r);
            elapsed = seconds (now - c_last c);
            c1 = (if elapsed > 0
                  then let t = c_tokens c + elapsed * rate
                       in c\<lparr>c_tokens := (if t > burst then burst else t), c_last := now\<rparr>
                  else c)
        in if c_tokens c1 < 1 then
             let wait = \<lfloor>((1 - c_tokens c1) / rate) * of_int second\<rfloor>;
                 wait = (if wait < second then second else wait)
             in (c1, \<lparr>v_Limited = True, v_Reason = ReasonRate, v_RetryAfter = wait\<rparr>)
           else (c1\<lparr>c_tokens := c_tokens c1 - 1\<rparr>, no_verdict))"

section \<open>The table\<close>

definition New :: limiter where
  "New = replicate shards []"

text \<open>The least recently seen idle record: the first in the order of the range statement among
  equals.\<close>

fun oldest_idle :: "(key \<times> time) option \<Rightarrow> shard \<Rightarrow> (key \<times> time) option" where
  "oldest_idle found [] = found"
| "oldest_idle found ((k, c) # sh) =
     (if c_active c > 0 then oldest_idle found sh
      else case found of
        None \<Rightarrow> oldest_idle (Some (k, c_seen c)) sh
      | Some (k', old) \<Rightarrow>
          if c_seen c < old then oldest_idle (Some (k, c_seen c)) sh else oldest_idle found sh)"

definition evictOldest :: "shard \<Rightarrow> shard" where
  "evictOldest sh =
     (case oldest_idle None sh of None \<Rightarrow> sh | Some (k, _) \<Rightarrow> al_del k sh)"

text \<open>\<^verbatim>\<open>Acquire\<close> returns a function that gives the slot back at most once. It is \<^const>\<open>None\<close> for the
  no-op and names the record otherwise; \<open>release\<close> is its body.\<close>

definition fresh_client :: "rules \<Rightarrow> time \<Rightarrow> client" where
  "fresh_client r now = \<lparr>c_tokens = of_int (burstOf r), c_last = now, c_active = 0, c_seen = 0\<rparr>"

definition acquire_shard :: "key \<Rightarrow> rules \<Rightarrow> time \<Rightarrow> shard \<Rightarrow> shard \<times> verdict \<times> bool" where
  "acquire_shard k r now sh =
     (let (c, sh1) =
        (case map_of sh k of
           Some c \<Rightarrow> (c, sh)
         | None \<Rightarrow> (fresh_client r now, if length sh \<ge> maxPerShard then evictOldest sh else sh));
          (c1, v) = judge (c\<lparr>c_seen := now\<rparr>) r now
      in if v_Limited v then (al_put k c1 sh1, v, False)
         else (al_put k (c1\<lparr>c_active := c_active c1 + 1\<rparr>) sh1, no_verdict, True))"

definition Limiter_Acquire ::
  "(key \<Rightarrow> 64 word) \<Rightarrow> time \<Rightarrow> int \<Rightarrow> ip \<Rightarrow> rules \<Rightarrow> limiter \<Rightarrow> limiter \<times> verdict \<times> key option" where
  "Limiter_Acquire mh now hostID addr r l =
     (case addr of
        None \<Rightarrow> (l, no_verdict, None)
      | Some a \<Rightarrow>
          let k = (hostID, addrKey a); i = shardOf mh k;
              (sh, v, taken) = acquire_shard k r now (l ! i)
          in (l[i := sh], v, if taken then Some k else None))"

definition release_shard :: "key \<Rightarrow> shard \<Rightarrow> shard" where
  "release_shard k sh =
     (case map_of sh k of
        Some cur \<Rightarrow> if c_active cur > 0 then al_put k (cur\<lparr>c_active := c_active cur - 1\<rparr>) sh else sh
      | None \<Rightarrow> sh)"

definition release :: "(key \<Rightarrow> 64 word) \<Rightarrow> key \<Rightarrow> limiter \<Rightarrow> limiter" where
  "release mh k l = (let i = shardOf mh k in l[i := release_shard k (l ! i)])"

definition sweep_shard :: "time \<Rightarrow> shard \<Rightarrow> shard" where
  "sweep_shard cutoff sh = filter (\<lambda>(k, c). \<not> (c_active c = 0 \<and> c_seen c < cutoff)) sh"

definition sweepOnce :: "time \<Rightarrow> limiter \<Rightarrow> limiter" where
  "sweepOnce now l = (let cutoff = now - idleAfter in map (sweep_shard cutoff) l)"

definition Forget :: "int \<Rightarrow> limiter \<Rightarrow> limiter" where
  "Forget hostID l = map (filter (\<lambda>(k, c). fst k \<noteq> hostID)) l"

definition Tracked :: "limiter \<Rightarrow> nat" where
  "Tracked l = sum_list (map length l)"

section \<open>The two spellings of an IPv4 address\<close>

lemma addrKey_mapped:
  assumes "length v4 = 4"
  shows "addrKey (replicate 10 0 @ [0xFF, 0xFF] @ v4) = addrKey v4"
proof -
  let ?m = "replicate 10 0 @ [0xFF, 0xFF] @ v4 :: 8 word list"
  have "length ?m = 16" using assms by simp
  moreover have "take 10 ?m = replicate 10 0" "?m ! 10 = 0xFF" "?m ! 11 = 0xFF" "drop 12 ?m = v4"
    by (simp_all add: nth_append)
  ultimately have "To4 ?m = Some v4" "To4 v4 = Some v4" using assms by (simp_all add: To4_def)
  then show ?thesis by (simp add: addrKey_def)
qed

lemma length_addrKey: "length (addrKey a) = 16"
proof (cases "To4 a")
  case None
  then show ?thesis by (simp add: addrKey_def)
next
  case (Some v4)
  then have "length v4 = 4" by (auto simp: To4_def split: if_splits)
  with Some show ?thesis by (simp add: addrKey_def)
qed

section \<open>The limiter in use\<close>

text \<open>
  One run of the limiter while the configuration \<open>R\<close> of the hosts stands: requests acquire,
  finished requests release, the sweeper visits the shards one by one with the cutoff it computed
  when its round started. The state carries the slots still held and the latest reading of the
  clock. Every step holds the lock of the one shard it touches, hence is atomic.
\<close>

type_synonym lim_state = "limiter \<times> key list \<times> time"

datatype lim_event =
  Granted key "key option"
| Refused key "key option" verdict
| Unlimited
| Released key
| Swept nat

definition record_of :: "(key \<Rightarrow> 64 word) \<Rightarrow> limiter \<Rightarrow> key \<Rightarrow> client option" where
  "record_of mh l k = map_of (l ! shardOf mh k) k"

text \<open>The key an insertion evicts.\<close>

definition victim :: "key \<Rightarrow> shard \<Rightarrow> key option" where
  "victim k sh =
     (if map_of sh k = None \<and> length sh \<ge> maxPerShard then map_option fst (oldest_idle None sh)
      else None)"

inductive lim_step ::
  "(key \<Rightarrow> 64 word) \<Rightarrow> (int \<Rightarrow> rules) \<Rightarrow> lim_state \<Rightarrow> lim_event \<Rightarrow> lim_state \<Rightarrow> bool"
  for mh R where
  grant: "t \<le> now \<Longrightarrow> Limiter_Acquire mh now h (Some a) (R h) l = (l', v, Some k) \<Longrightarrow>
    lim_step mh R (l, out, t) (Granted k (victim k (l ! shardOf mh k))) (l', k # out, now)"
| refuse: "t \<le> now \<Longrightarrow> Limiter_Acquire mh now h (Some a) (R h) l = (l', v, None) \<Longrightarrow>
    k = (h, addrKey a) \<Longrightarrow>
    lim_step mh R (l, out, t) (Refused k (victim k (l ! shardOf mh k)) v) (l', out, now)"
| unlimited: "t \<le> now \<Longrightarrow> Limiter_Acquire mh now h None (R h) l = (l', v, None) \<Longrightarrow>
    lim_step mh R (l, out, t) Unlimited (l', out, now)"
| given_back: "k \<in> set out \<Longrightarrow>
    lim_step mh R (l, out, t) (Released k) (release mh k l, remove1 k out, t)"
| swept: "i < shards \<Longrightarrow> started \<le> t \<Longrightarrow>
    lim_step mh R (l, out, t) (Swept i) (l[i := sweep_shard (started - idleAfter) (l ! i)], out, t)"

inductive_cases lim_stepE: "lim_step mh R s e s'"

subsection \<open>One request\<close>

lemma judge_frame:
  assumes "judge c r now = (c', v)"
  shows "c_active c' = c_active c" "c_seen c' = c_seen c"
    "\<not> v_Limited v \<Longrightarrow> r_MaxConcurrent r > 0 \<Longrightarrow> c_active c < r_MaxConcurrent r"
  using assms by (auto simp: judge_def Let_def no_verdict_def split: if_splits)

lemma seconds_mono: "seconds a \<le> seconds b \<longleftrightarrow> a \<le> b"
  by (simp add: seconds_def divide_right_mono)

lemma seconds_diff: "seconds (a - b) = seconds a - seconds b"
  by (simp add: seconds_def diff_divide_distrib)

lemma seconds_pos: "0 < seconds d \<longleftrightarrow> 0 < d"
  by (simp add: seconds_def)

abbreviation rate :: "rules \<Rightarrow> rat" where "rate r \<equiv> of_int (r_RequestsPerSecond r)"
abbreviation burst :: "rules \<Rightarrow> rat" where "burst r \<equiv> of_int (burstOf r)"

lemma burst_ge_1: "burst r \<ge> 1" if "r_RequestsPerSecond r > 0"
proof -
  have "burstOf r \<ge> 1" using that by (simp add: burstOf_def)
  then show ?thesis by simp
qed

text \<open>The account of one decision: what is granted is taken from the bucket, which fills at the
  rate.\<close>

lemma judge_meter:
  assumes j: "judge c r now = (c', v)" and r: "r_RequestsPerSecond r > 0"
    and c: "0 \<le> c_tokens c" "c_last c \<le> now"
  shows "0 \<le> c_tokens c' \<and> c_last c \<le> c_last c' \<and> c_last c' \<le> now \<and>
    of_bool (\<not> v_Limited v) + c_tokens c' - rate r * seconds (c_last c')
      \<le> c_tokens c - rate r * seconds (c_last c)"
proof -
  define c1 where "c1 = (if seconds (now - c_last c) > 0
    then c\<lparr>c_tokens := min (burst r) (c_tokens c + seconds (now - c_last c) * rate r), c_last := now\<rparr>
    else c)"
  have grow: "0 \<le> seconds (now - c_last c) * rate r"
    using c r by (simp add: seconds_def)
  then have pos: "0 \<le> min (burst r) (c_tokens c + seconds (now - c_last c) * rate r)"
    using c burst_ge_1 [OF r] by (auto simp: min_def)
  have "min (burst r) (c_tokens c + seconds (now - c_last c) * rate r) - rate r * seconds now
    \<le> c_tokens c - rate r * seconds (c_last c)"
    unfolding min_def seconds_diff by (simp add: algebra_simps)
  with c pos have c1: "0 \<le> c_tokens c1" "c_last c \<le> c_last c1" "c_last c1 \<le> now"
    "c_tokens c1 - rate r * seconds (c_last c1) \<le> c_tokens c - rate r * seconds (c_last c)"
    by (simp_all add: c1_def)
  have "c' = c \<and> v_Limited v \<or> c' = c1 \<and> v_Limited v \<or>
        c' = c1\<lparr>c_tokens := c_tokens c1 - 1\<rparr> \<and> c_tokens c1 \<ge> 1 \<and> \<not> v_Limited v"
    using j r by (auto simp: judge_def Let_def c1_def min_def no_verdict_def split: if_splits)
  with c c1 show ?thesis by auto
qed

lemma judge_retry:
  assumes j: "judge c r now = (c', v)" "v_Reason v = ReasonRate"
    and c: "0 \<le> c_tokens c" "c_last c \<le> now" and later: "now + second \<le> now'"
  shows "v_RetryAfter v = second \<and> \<not> v_Limited (snd (judge c' r now'))"
proof -
  from j have r: "r_RequestsPerSecond r > 0" and free: "\<not> (r_MaxConcurrent r > 0 \<and> c_active c \<ge> r_MaxConcurrent r)"
    and poor: "c_tokens c' < 1"
    and w: "v_RetryAfter v = max second \<lfloor>((1 - c_tokens c') / rate r) * of_int second\<rfloor>"
    by (auto simp: judge_def Let_def no_verdict_def max_def split: if_splits)
  from judge_meter [OF j(1) r c] have c': "0 \<le> c_tokens c'" "c_last c' \<le> now" by auto
  have r1: "rate r \<ge> 1" using r by simp
  have "(1 - c_tokens c') / rate r \<le> 1" using c' poor r1 by (simp add: divide_le_eq)
  then have "((1 - c_tokens c') / rate r) * of_int second \<le> 1 * of_int second"
    by (rule mult_right_mono) simp
  from floor_mono [OF this] have "\<lfloor>((1 - c_tokens c') / rate r) * of_int second\<rfloor> \<le> second" by simp
  with w have "v_RetryAfter v = second" by simp
  moreover have "seconds (now' - c_last c') \<ge> 1" using c' later by (simp add: seconds_def)
  with r1 have "1 \<le> seconds (now' - c_last c') * rate r"
    using mult_mono [of 1 "seconds (now' - c_last c')" 1 "rate r"] by simp
  with c' burst_ge_1 [OF r] free r \<open>seconds (now' - c_last c') \<ge> 1\<close> judge_frame(1) [OF j(1)]
  have "\<not> v_Limited (snd (judge c' r now'))"
    by (auto simp: judge_def Let_def no_verdict_def)
  ultimately show ?thesis by simp
qed

subsection \<open>One shard\<close>

lemma oldest_idle_is_idle:
  "oldest_idle found sh = Some (k, t) \<Longrightarrow>
     found = Some (k, t) \<or> (\<exists>c. (k, c) \<in> set sh \<and> \<not> c_active c > 0 \<and> c_seen c = t)"
proof (induction sh arbitrary: found)
  case (Cons p sh)
  obtain k' c where p: "p = (k', c)" by fastforce
  from Cons.prems show ?case
    by (auto simp: p split: if_splits option.splits dest!: Cons.IH)
qed simp

lemma victim_idle:
  assumes "victim k sh = Some k'" "distinct (al_keys sh)"
  obtains c where "map_of sh k' = Some c" "\<not> c_active c > 0" "k' \<noteq> k"
proof -
  from assms(1) obtain t where "oldest_idle None sh = Some (k', t)" and none: "map_of sh k = None"
    by (auto simp: victim_def split: if_splits)
  from oldest_idle_is_idle [OF this(1)] obtain c where "(k', c) \<in> set sh" "\<not> c_active c > 0" by auto
  with assms(2) have "map_of sh k' = Some c" by simp
  with \<open>\<not> c_active c > 0\<close> none show ?thesis by (intro that) auto
qed

definition judged :: "key \<Rightarrow> rules \<Rightarrow> time \<Rightarrow> shard \<Rightarrow> client \<times> verdict" where
  "judged k r now sh =
     judge ((case map_of sh k of Some c \<Rightarrow> c | None \<Rightarrow> fresh_client r now)\<lparr>c_seen := now\<rparr>) r now"

lemma acquire_shard_eq:
  "acquire_shard k r now sh =
     (let (c1, v) = judged k r now sh;
          sh1 = (case victim k sh of None \<Rightarrow> sh | Some k' \<Rightarrow> al_del k' sh)
      in if v_Limited v then (al_put k c1 sh1, v, False)
         else (al_put k (c1\<lparr>c_active := c_active c1 + 1\<rparr>) sh1, no_verdict, True))"
  unfolding acquire_shard_def judged_def victim_def evictOldest_def
  by (auto simp: Let_def split: option.splits prod.splits)

text \<open>What the table records of one client, after a step.\<close>

lemma record_of_update:
  "shardOf mh k < length l \<Longrightarrow>
     record_of mh (l[i := sh]) k = (if shardOf mh k = i then map_of sh k else record_of mh l k)"
  by (auto simp: record_of_def)

lemma shardOf_less: "shardOf mh k < shards"
  by (simp add: shardOf_def shards_def)

lemma map_of_release_shard:
  "map_of (release_shard k sh) k' =
    (if k' = k then map_option (\<lambda>c. if c_active c > 0 then c\<lparr>c_active := c_active c - 1\<rparr> else c) (map_of sh k)
     else map_of sh k')"
  by (simp add: release_shard_def split: option.splits)

lemma record_of_release:
  assumes "length l = shards"
  shows "record_of mh (release mh k l) k' =
    (if k' = k then map_option (\<lambda>c. if c_active c > 0 then c\<lparr>c_active := c_active c - 1\<rparr> else c) (record_of mh l k)
     else record_of mh l k')"
  unfolding release_def Let_def record_of_update [OF shardOf_less [of mh k', folded assms]] map_of_release_shard
  by (auto simp: record_of_def)

lemma record_of_sweep:
  assumes "length l = shards" "distinct (al_keys (l ! i))"
  shows "record_of mh (l[i := sweep_shard cutoff (l ! i)]) k =
    (case record_of mh l k of None \<Rightarrow> None
     | Some c \<Rightarrow> if shardOf mh k = i \<and> c_active c = 0 \<and> c_seen c < cutoff then None else Some c)"
proof -
  have "map_of (filter P sh) k = (case map_of sh k of None \<Rightarrow> None | Some c \<Rightarrow> if P (k, c) then Some c else None)"
    if "distinct (al_keys sh)" for P and sh :: shard
    using that
  proof (induction sh)
    case (Cons p sh)
    obtain k' c where p: "p = (k', c)" by fastforce
    with Cons have "k = k' \<Longrightarrow> map_of sh k = None" by (simp add: map_of_eq_None_iff)
    with Cons p show ?case by auto
  qed simp
  from this [OF assms(2)] show ?thesis
    unfolding record_of_update [OF shardOf_less [of mh k, folded assms(1)]]
    by (auto simp: sweep_shard_def record_of_def split: option.splits)
qed

lemma Acquire_result:
  assumes "Limiter_Acquire mh now h (Some a) r l = (l', v, rel)" "length l = shards"
  obtains k c1 where "k = (h, addrKey a)"
    "judge ((case record_of mh l k of Some c \<Rightarrow> c | None \<Rightarrow> fresh_client r now)\<lparr>c_seen := now\<rparr>) r now
       = (c1, if rel = None then v else no_verdict)"
    "rel = None \<and> v_Limited v \<or> rel = Some k \<and> v = no_verdict"
    "record_of mh l' k = Some (if rel = None then c1 else c1\<lparr>c_active := c_active c1 + 1\<rparr>)"
    "\<And>k'. k' \<noteq> k \<Longrightarrow> record_of mh l' k' = (if victim k (l ! shardOf mh k) = Some k' \<and> shardOf mh k' = shardOf mh k
                                        then None else record_of mh l k')"
proof -
  define k where "k = (h, addrKey a)"
  define sh where "sh = l ! shardOf mh k"
  obtain c1 v1 where j: "judged k r now sh = (c1, v1)" by fastforce
  have rec: "record_of mh l k = map_of sh k" by (simp add: record_of_def sh_def)
  have j': "judge ((case record_of mh l k of Some c \<Rightarrow> c | None \<Rightarrow> fresh_client r now)\<lparr>c_seen := now\<rparr>) r now = (c1, v1)"
    using j by (simp add: judged_def rec)
  have v1: "\<not> v_Limited v1 \<Longrightarrow> v1 = no_verdict"
    using j' by (auto simp: judge_def Let_def no_verdict_def split: if_splits)
  define sh1 where "sh1 = (case victim k sh of None \<Rightarrow> sh | Some k' \<Rightarrow> al_del k' sh)"
  have l': "l' = l[shardOf mh k := al_put k (if rel = None then c1 else c1\<lparr>c_active := c_active c1 + 1\<rparr>) sh1]"
    and v: "rel = None \<and> v_Limited v1 \<and> v = v1 \<or> rel = Some k \<and> v = no_verdict \<and> \<not> v_Limited v1"
    using assms(1) j unfolding Limiter_Acquire_def acquire_shard_eq sh1_def k_def sh_def
    by (auto simp: Let_def split: if_splits)
  show ?thesis
  proof (rule that [OF k_def])
    show "judge ((case record_of mh l k of Some c \<Rightarrow> c | None \<Rightarrow> fresh_client r now)\<lparr>c_seen := now\<rparr>) r now
       = (c1, if rel = None then v else no_verdict)" using j' v v1 by auto
    show "rel = None \<and> v_Limited v \<or> rel = Some k \<and> v = no_verdict" using v by auto
    show "record_of mh l' k = Some (if rel = None then c1 else c1\<lparr>c_active := c_active c1 + 1\<rparr>)"
      using assms(2) shardOf_less [of mh k] by (simp add: l' record_of_def)
    fix k' assume "k' \<noteq> k"
    then show "record_of mh l' k' = (if victim k (l ! shardOf mh k) = Some k' \<and> shardOf mh k' = shardOf mh k
                                     then None else record_of mh l k')"
      using assms(2) shardOf_less [of mh k]
      by (auto simp: l' record_of_def nth_list_update sh1_def sh_def split: option.splits)
  qed
qed

subsection \<open>The invariant\<close>

text \<open>\<open>n\<close> slots are held by the client: its record counts exactly these, and within the limit.\<close>

fun rec_ok :: "rules \<Rightarrow> time \<Rightarrow> nat \<Rightarrow> client option \<Rightarrow> bool" where
  "rec_ok r t n None = (n = 0)"
| "rec_ok r t n (Some c) =
     (c_active c = int n \<and> c_last c \<le> c_seen c \<and> c_seen c \<le> t \<and>
      (r_RequestsPerSecond r > 0 \<longrightarrow> 0 \<le> c_tokens c) \<and> (r_MaxConcurrent r > 0 \<longrightarrow> int n \<le> r_MaxConcurrent r))"

fun lim_ok :: "(key \<Rightarrow> 64 word) \<Rightarrow> (int \<Rightarrow> rules) \<Rightarrow> lim_state \<Rightarrow> bool" where
  "lim_ok mh R (l, out, t) =
     (length l = shards \<and> (\<forall>i < shards. distinct (al_keys (l ! i))) \<and>
      (\<forall>k. rec_ok (R (fst k)) t (count_list out k) (record_of mh l k)))"

lemma rec_ok_later: "rec_ok r t n c \<Longrightarrow> t \<le> t' \<Longrightarrow> rec_ok r t' n c"
  by (cases c) auto

lemma rec_ok_release:
  "rec_ok r t (Suc n) c \<Longrightarrow>
     rec_ok r t n (map_option (\<lambda>c. if c_active c > 0 then c\<lparr>c_active := c_active c - 1\<rparr> else c) c)"
  by (cases c) auto

lemma rec_ok_judge:
  assumes ok: "rec_ok r t n c" "t \<le> now"
    and j: "judge ((case c of Some c \<Rightarrow> c | None \<Rightarrow> fresh_client r now)\<lparr>c_seen := now\<rparr>) r now = (c1, v)"
      (is "judge ?c r now = _")
  shows "rec_ok r now n (Some c1)"
    "\<not> v_Limited v \<Longrightarrow> rec_ok r now (Suc n) (Some (c1\<lparr>c_active := c_active c1 + 1\<rparr>))"
proof -
  have c: "c_active ?c = int n" "c_last ?c \<le> now" "r_RequestsPerSecond r > 0 \<Longrightarrow> 0 \<le> c_tokens ?c"
    "r_MaxConcurrent r > 0 \<longrightarrow> int n \<le> r_MaxConcurrent r"
    using ok by (cases c; auto simp: fresh_client_def dest: burst_ge_1)+
  have "c_last c1 \<le> now \<and> (r_RequestsPerSecond r > 0 \<longrightarrow> 0 \<le> c_tokens c1)"
  proof (cases "r_RequestsPerSecond r > 0")
    case True
    with judge_meter [OF j True c(3) c(2)] show ?thesis by blast
  next
    case False
    with j have "c1 = ?c" by (auto simp: judge_def split: if_splits)
    with False c(2) show ?thesis by simp
  qed
  with c judge_frame [OF j] show "rec_ok r now n (Some c1)"
    "\<not> v_Limited v \<Longrightarrow> rec_ok r now (Suc n) (Some (c1\<lparr>c_active := c_active c1 + 1\<rparr>))"
    by auto
qed

lemma distinct_update:
  assumes "length l = n" "\<forall>i < n. distinct (al_keys (l ! i))" "distinct (al_keys sh)"
  shows "\<forall>j < n. distinct (al_keys (l[i := sh] ! j))"
  using assms by (metis length_list_update nth_list_update_eq nth_list_update_neq)

lemma Acquire_distinct:
  assumes "Limiter_Acquire mh now h a r l = (l', v, rel)" "length l = shards"
    "\<forall>i < shards. distinct (al_keys (l ! i))"
  shows "length l' = shards \<and> (\<forall>i < shards. distinct (al_keys (l' ! i)))"
proof (cases a)
  case None
  with assms show ?thesis by (simp add: Limiter_Acquire_def)
next
  case (Some a')
  define i where "i = shardOf mh (h, addrKey a')"
  obtain sh where l': "l' = l[i := sh]" and sh: "sh = fst (acquire_shard (h, addrKey a') r now (l ! i))"
    using assms(1) Some by (auto simp: Limiter_Acquire_def Let_def i_def split: prod.splits)
  have "distinct (al_keys (l ! i))" using assms shardOf_less [of mh "(h, addrKey a')"] i_def by blast
  then have "distinct (al_keys sh)"
    unfolding sh acquire_shard_eq
    by (auto simp: Let_def split: option.splits prod.splits intro!: go_inv)
  from distinct_update [OF assms(2,3) this] assms(2) show ?thesis by (simp add: l')
qed

lemma Acquire_ok:
  assumes acq: "Limiter_Acquire mh now h (Some a) (R h) l = (l', v, rel)" and t: "t \<le> now"
    and ok: "lim_ok mh R (l, out, t)"
  shows "lim_ok mh R (l', (case rel of None \<Rightarrow> out | Some k \<Rightarrow> k # out), now)"
proof -
  from ok have l: "length l = shards" and dis: "\<forall>i < shards. distinct (al_keys (l ! i))"
    and rec: "\<And>k. rec_ok (R (fst k)) t (count_list out k) (record_of mh l k)" by auto
  from Acquire_result [OF acq l] obtain k c1 where k: "k = (h, addrKey a)"
    and j: "judge ((case record_of mh l k of Some c \<Rightarrow> c | None \<Rightarrow> fresh_client (R h) now)\<lparr>c_seen := now\<rparr>) (R h) now
       = (c1, if rel = None then v else no_verdict)"
    and rel: "rel = None \<and> v_Limited v \<or> rel = Some k \<and> v = no_verdict"
    and same: "record_of mh l' k = Some (if rel = None then c1 else c1\<lparr>c_active := c_active c1 + 1\<rparr>)"
    and other: "\<And>k'. k' \<noteq> k \<Longrightarrow> record_of mh l' k' = (if victim k (l ! shardOf mh k) = Some k' \<and> shardOf mh k' = shardOf mh k
                                        then None else record_of mh l k')" by blast
  let ?out = "case rel of None \<Rightarrow> out | Some k \<Rightarrow> k # out"
  have "rec_ok (R (fst k')) now (count_list ?out k') (record_of mh l' k')" for k'
  proof (cases "k' = k")
    case True
    with rec_ok_judge [OF rec [of k, unfolded k fst_conv] t j [unfolded k]] rel same k show ?thesis
      by (auto simp: no_verdict_def)
  next
    case False
    then have cnt: "count_list ?out k' = count_list out k'" using rel by auto
    show ?thesis
    proof (cases "victim k (l ! shardOf mh k) = Some k' \<and> shardOf mh k' = shardOf mh k")
      case True
      with victim_idle [of k "l ! shardOf mh k" k'] dis shardOf_less [of mh k]
      obtain c where "record_of mh l k' = Some c" "\<not> c_active c > 0" by (auto simp: record_of_def)
      with rec [of k'] have "count_list out k' = 0" by simp
      with True other [OF False] cnt show ?thesis by simp
    next
      case False
      with \<open>k' \<noteq> k\<close> other [of k'] cnt rec_ok_later [OF rec t, of k'] show ?thesis by simp
    qed
  qed
  with Acquire_distinct [OF acq l dis] show ?thesis by simp
qed

lemma count_list_remove1:
  "count_list (remove1 x xs) y = (if x = y \<and> x \<in> set xs then count_list xs y - 1 else count_list xs y)"
proof (induction xs)
  case (Cons z xs)
  have "y \<in> set xs \<Longrightarrow> count_list xs y \<noteq> 0" by (simp add: count_list_0_iff)
  with Cons show ?case by auto
qed simp

lemma lim_ok_step: "lim_step mh R s e s' \<Longrightarrow> lim_ok mh R s \<Longrightarrow> lim_ok mh R s'"
proof (induction rule: lim_step.induct)
  case (grant t now h a l l' v k out)
  from Acquire_ok [OF grant(2,1,3)] show ?case by simp
next
  case (refuse t now h a l l' v k out)
  from Acquire_ok [OF refuse(2,1,4)] show ?case by simp
next
  case (unlimited t now h l l' v out)
  then show ?case by (auto simp: Limiter_Acquire_def intro: rec_ok_later)
next
  case (given_back k out l t)
  then have l: "length l = shards" and rec: "\<And>k. rec_ok (R (fst k)) t (count_list out k) (record_of mh l k)"
    by auto
  from given_back(1) have "count_list out k = Suc (count_list (remove1 k out) k)"
    by (cases "count_list out k") (auto simp: count_list_remove1 count_list_0_iff)
  from rec_ok_release [OF rec [of k, unfolded this]]
  have "rec_ok (R (fst k')) t (count_list (remove1 k out) k') (record_of mh (release mh k l) k')" for k'
    using rec [of k'] unfolding record_of_release [OF l] by (cases "k' = k") (simp_all add: count_list_remove1)
  moreover have "distinct (al_keys (release_shard k (l ! shardOf mh k)))"
    using given_back(2) shardOf_less [of mh k]
    by (auto simp: release_shard_def split: option.splits intro!: go_inv)
  with given_back(2) have "\<forall>i < shards. distinct (al_keys (release mh k l ! i))"
    unfolding release_def Let_def by (intro distinct_update) auto
  ultimately show ?case using l by (simp add: release_def Let_def)
next
  case (swept i started t l out)
  then have l: "length l = shards" and dis: "distinct (al_keys (l ! i))"
    and rec: "\<And>k. rec_ok (R (fst k)) t (count_list out k) (record_of mh l k)" by auto
  have "rec_ok (R (fst k)) t (count_list out k)
     (record_of mh (l[i := sweep_shard (started - idleAfter) (l ! i)]) k)" for k
    using rec [of k] by (auto simp: record_of_sweep [OF l dis] split: option.splits)
  moreover have "\<forall>j < shards. distinct (al_keys (l[i := sweep_shard (started - idleAfter) (l ! i)] ! j))"
    using swept(3) distinct_filter_keys [OF dis] distinct_update [OF l] unfolding sweep_shard_def by simp
  ultimately show ?case using l by simp
qed

lemma lim_ok_New: "lim_ok mh R (New, [], t)"
  using shardOf_less by (simp add: New_def record_of_def)

subsection \<open>Accounting for the requests granted\<close>

fun evicts :: "key \<Rightarrow> lim_event \<Rightarrow> bool" where
  "evicts k (Granted _ v) = (v = Some k)"
| "evicts k (Refused _ v _) = (v = Some k)"
| "evicts k _ = False"

fun grants :: "key \<Rightarrow> lim_event \<Rightarrow> rat" where
  "grants k (Granted k' _) = of_bool (k' = k)"
| "grants k _ = 0"

text \<open>The level of a bucket, discounted by the refill since the start of time. A client without a
  record is as good as one with a full bucket.\<close>

fun level :: "rules \<Rightarrow> time \<Rightarrow> client option \<Rightarrow> rat" where
  "level r t None = burst r - rate r * seconds t"
| "level r t (Some c) = c_tokens c - rate r * seconds (c_last c)"

text \<open>A bucket refills within the time after which an idle record may be swept.\<close>

definition refills_in_time :: "rules \<Rightarrow> bool" where
  "refills_in_time r \<longleftrightarrow> r_RequestsPerSecond r > 0 \<and> burst r \<le> rate r * seconds idleAfter"

definition key_level :: "(key \<Rightarrow> 64 word) \<Rightarrow> (int \<Rightarrow> rules) \<Rightarrow> key \<Rightarrow> lim_state \<Rightarrow> rat" where
  "key_level mh R k = (\<lambda>(l, out, t). level (R (fst k)) t (record_of mh l k))"

lemma level_later: "r_RequestsPerSecond r > 0 \<Longrightarrow> t \<le> t' \<Longrightarrow> level r t' c \<le> level r t c"
  by (cases c) (simp_all add: seconds_mono)

lemma level_ge:
  assumes "rec_ok r t n c" "r_RequestsPerSecond r > 0"
  shows "- (rate r * seconds t) \<le> level r t c"
proof (cases c)
  case None
  with burst_ge_1 [OF assms(2)] show ?thesis by simp
next
  case (Some c')
  with assms have "0 \<le> c_tokens c'" "rate r * seconds (c_last c') \<le> rate r * seconds t"
    by (simp_all add: seconds_mono)
  with Some show ?thesis by simp
qed

lemma level_judge:
  assumes ok: "rec_ok r t n c" "t \<le> now" and r: "r_RequestsPerSecond r > 0"
    and j: "judge ((case c of Some c \<Rightarrow> c | None \<Rightarrow> fresh_client r now)\<lparr>c_seen := now\<rparr>) r now = (c1, v)"
      (is "judge ?c r now = _")
  shows "of_bool (\<not> v_Limited v) + level r now (Some c1) \<le> level r t c"
proof -
  have c: "0 \<le> c_tokens ?c" "c_last ?c \<le> now"
    using ok r burst_ge_1 [OF r] by (cases c; auto simp: fresh_client_def)+
  have "c_tokens ?c - rate r * seconds (c_last ?c) \<le> level r t c"
    using ok(2) r by (cases c) (simp_all add: fresh_client_def seconds_mono)
  with judge_meter [OF j r c] show ?thesis by simp
qed

lemma level_swept:
  assumes ok: "rec_ok r t n (Some c)" and r: "refills_in_time r" and old: "c_seen c < started - idleAfter" "started \<le> t"
  shows "level r t None \<le> level r t (Some c)"
proof -
  from ok old have "seconds idleAfter \<le> seconds (t - c_last c)" by (simp add: seconds_mono)
  then have "rate r * seconds idleAfter \<le> rate r * seconds (t - c_last c)"
    using r by (simp add: refills_in_time_def)
  with ok r show ?thesis by (simp add: refills_in_time_def seconds_diff right_diff_distrib)
qed

lemma Acquire_level:
  assumes acq: "Limiter_Acquire mh now h (Some a) (R h) l = (l', v, rel)" and t: "t \<le> now"
    and ok: "lim_ok mh R (l, out, t)" and r: "r_RequestsPerSecond (R (fst k)) > 0"
    and kept: "victim (h, addrKey a) (l ! shardOf mh (h, addrKey a)) \<noteq> Some k"
  shows "of_bool (rel = Some k) + level (R (fst k)) now (record_of mh l' k) \<le> level (R (fst k)) t (record_of mh l k)"
proof -
  from ok have l: "length l = shards"
    and rec: "rec_ok (R (fst k)) t (count_list out k) (record_of mh l k)" by (cases k, auto)+
  from Acquire_result [OF acq l] obtain k0 c1 where k0: "k0 = (h, addrKey a)"
    and j: "judge ((case record_of mh l k0 of Some c \<Rightarrow> c | None \<Rightarrow> fresh_client (R h) now)\<lparr>c_seen := now\<rparr>) (R h) now
       = (c1, if rel = None then v else no_verdict)"
    and rel: "rel = None \<and> v_Limited v \<or> rel = Some k0 \<and> v = no_verdict"
    and same: "record_of mh l' k0 = Some (if rel = None then c1 else c1\<lparr>c_active := c_active c1 + 1\<rparr>)"
    and other: "\<And>k'. k' \<noteq> k0 \<Longrightarrow> record_of mh l' k' = (if victim k0 (l ! shardOf mh k0) = Some k' \<and> shardOf mh k' = shardOf mh k0
                                        then None else record_of mh l k')" by blast
  show ?thesis
  proof (cases "k = k0")
    case True
    with k0 have "R h = R (fst k)" by simp
    from level_judge [OF rec t r j [folded True, unfolded this]] same rel True show ?thesis
      by (auto simp: no_verdict_def)
  next
    case False
    with other [OF this] kept k0 have "record_of mh l' k = record_of mh l k" by simp
    with False rel level_later [OF r t, of "record_of mh l k"] show ?thesis by auto
  qed
qed

interpretation bucket: metered
  "\<lambda>s e s'. lim_step mh R s e s' \<and> \<not> evicts k e"
  "\<lambda>s. lim_ok mh R s \<and> refills_in_time (R (fst k))"
  "key_level mh R k" "grants k" for mh R k
proof unfold_locales
  fix s e s'
  assume st: "lim_step mh R s e s' \<and> \<not> evicts k e" and ok: "lim_ok mh R s \<and> refills_in_time (R (fst k))"
  show "lim_ok mh R s' \<and> refills_in_time (R (fst k))" using st ok lim_ok_step by blast
  have r: "r_RequestsPerSecond (R (fst k)) > 0" using ok by (simp add: refills_in_time_def)
  from st have "lim_step mh R s e s'" ..
  then show "grants k e + key_level mh R k s' \<le> key_level mh R k s"
  proof (cases rule: lim_step.cases)
    case (grant t now h a l l' v k' out)
    from grant ok have "lim_ok mh R (l, out, t)" "length l = shards" by simp_all
    with Acquire_result [OF grant(5)] have k': "k' = (h, addrKey a)" by blast
    with Acquire_level [OF grant(5,4) \<open>lim_ok mh R (l, out, t)\<close> r] st grant(2) show ?thesis
      by (auto simp: grant(1-3) key_level_def)
  next
    case (refuse t now h a l l' v k' out)
    with Acquire_level [of mh now h a R, OF refuse(5,4), of out k] st ok r show ?thesis
      by (auto simp: key_level_def)
  next
    case (unlimited t now h l l' v out)
    then show ?thesis by (auto simp: key_level_def Limiter_Acquire_def intro: level_later [OF r])
  next
    case (given_back k' out l t)
    with ok have "length l = shards" by simp
    then show ?thesis
      by (cases "record_of mh l k'") (auto simp: given_back key_level_def record_of_release)
  next
    case (swept i started t l out)
    with ok have l: "length l = shards" "distinct (al_keys (l ! i))"
      and rec: "rec_ok (R (fst k)) t (count_list out k) (record_of mh l k)" by (cases k, simp)+
    from rec level_swept [of "R (fst k)" t "count_list out k" _ started] ok swept(5) show ?thesis
      by (auto simp: swept(1-3) key_level_def record_of_sweep [OF l] simp del: level.simps split: option.splits)
  qed
qed

section \<open>Properties\<close>



text \<open>The refusal is honest: a client refused for its rate is told to wait exactly one second,
  the refusal costs it nothing, and if it waits that long its next request is not refused.\<close>

theorem judge_retry_honest:
  assumes "judge c r now = (c', v)" "v_Reason v = ReasonRate" "0 \<le> c_tokens c" "c_last c \<le> now"
    "now + v_RetryAfter v \<le> now'"
  shows "v_RetryAfter v = second \<and> c_tokens c \<le> c_tokens c' \<and> \<not> v_Limited (snd (judge c' r now'))"
proof -
  from judge_retry [OF assms(1-4) order_refl] have w: "v_RetryAfter v = second" ..
  from assms(1,2) have r: "r_RequestsPerSecond r > 0" and cap: "c_tokens c' < 1"
    and c': "c' = c \<or> c_tokens c' = min (burst r) (c_tokens c + seconds (now - c_last c) * rate r)"
    by (auto simp: judge_def Let_def no_verdict_def min_def split: if_splits)
  have "0 \<le> seconds (now - c_last c) * rate r" using assms(4) r by (simp add: seconds_def)
  with c' cap burst_ge_1 [OF r] have "c_tokens c \<le> c_tokens c'" by (auto simp: min_def split: if_splits)
  with judge_retry [OF assms(1-4)] assms(5) w show ?thesis by simp
qed

definition ex_rules :: rules where
  "ex_rules = \<lparr>r_RequestsPerSecond = 1, r_Burst = 2, r_MaxConcurrent = 2\<rparr>"

abbreviation ex_acq :: "limiter \<Rightarrow> limiter \<times> verdict \<times> key option" where
  "ex_acq l \<equiv> Limiter_Acquire (\<lambda>_. 5) 0 1 (Some [192, 0, 2, 7]) ex_rules l"

definition ex_key :: key where "ex_key = (1, addrKey [192, 0, 2, 7])"

definition ex_client :: "rat \<Rightarrow> int \<Rightarrow> client" where
  "ex_client tk n = \<lparr>c_tokens = tk, c_last = 0, c_active = n, c_seen = 0\<rparr>"

definition ex_lim :: "rat \<Rightarrow> int \<Rightarrow> limiter" where
  "ex_lim tk n = New[5 := [(ex_key, ex_client tk n)]]"

lemma ex_acquire:
  "ex_acq New = (ex_lim 1 1, no_verdict, Some ex_key)"
  "ex_acq (ex_lim 1 1) = (ex_lim 0 2, no_verdict, Some ex_key)"
  "snd (ex_acq (ex_lim 0 2)) = (\<lparr>v_Limited = True, v_Reason = ReasonConcurrency, v_RetryAfter = 0\<rparr>, None)"
  by (simp_all add: Limiter_Acquire_def ex_rules_def shardOf_def shards_def New_def acquire_shard_def fresh_client_def
    judge_def burstOf_def no_verdict_def seconds_def ex_lim_def ex_key_def ex_client_def maxPerShard_def Let_def nth_list_update
    flip: ex_key_def)

lemma ex_run:
  "run (lim_step (\<lambda>_. 5) (\<lambda>_. ex_rules)) (New, [], 0) [Granted ex_key None, Granted ex_key None]
     (ex_lim 0 2, [ex_key, ex_key], 0)"
proof -
  have s: "shardOf (\<lambda>_. 5) ex_key = 5" by (simp add: shardOf_def shards_def)
  have "victim ex_key (New ! 5) = None" "victim ex_key (ex_lim 1 1 ! 5) = None"
    by (simp_all add: victim_def New_def shards_def ex_lim_def maxPerShard_def)
  moreover have step: "lim_step (\<lambda>_. 5) (\<lambda>_. ex_rules) (l, out, 0) (Granted ex_key (victim ex_key (l ! 5))) (l', ex_key # out, 0)"
    if "ex_acq l = (l', no_verdict, Some ex_key)" for l l' out
    using lim_step.grant [of 0 0 "\<lambda>_. 5" 1 "[192, 0, 2, 7]" "\<lambda>_. ex_rules", OF order_refl that] s by simp
  ultimately show ?thesis
    using run_step [where step = "lim_step (\<lambda>_. 5) (\<lambda>_. ex_rules)", OF step [OF ex_acquire(1)]
        run_step [where step = "lim_step (\<lambda>_. 5) (\<lambda>_. ex_rules)", OF step [OF ex_acquire(2)] run_refl]] by simp
qed



theorem judge_retry_honest_witness:
  "\<not> v_Limited (snd (judge (ex_client 0 1) ex_rules second))"
  using judge_retry_honest [of "ex_client 0 1" ex_rules 0 "ex_client 0 1"
      "\<lparr>v_Limited = True, v_Reason = ReasonRate, v_RetryAfter = second\<rparr>" second]
  by (simp add: judge_def ex_client_def ex_rules_def burstOf_def seconds_def Let_def)

text \<open>Forgetting a host forgets its requests in flight: whatever a client holds when its host is
  forgotten, its next request is granted and its new record counts that one request only, so the
  concurrency limit is no longer kept from there on.\<close>

theorem Forget_drops_slots:
  assumes "length l = shards"
    and "Limiter_Acquire mh now h (Some a) r (Forget h l) = (l', v, rel)"
  shows "rel = Some (h, addrKey a) \<and> map_option c_active (record_of mh l' (h, addrKey a)) = Some 1"
proof -
  have l: "length (Forget h l) = shards" using assms(1) by (simp add: Forget_def)
  have fresh: "record_of mh (Forget h l) (h, addrKey a) = None"
    using shardOf_less [of mh "(h, addrKey a)"] assms(1)
    by (auto simp: record_of_def Forget_def map_of_eq_None_iff)
  have j: "\<not> v_Limited v1 \<and> c_active c1 = 0" if "judge (fresh_client r now\<lparr>c_seen := now\<rparr>) r now = (c1, v1)" for c1 v1
    using that burst_ge_1 [of r] by (auto simp: judge_def fresh_client_def no_verdict_def seconds_def Let_def split: if_splits)
  from Acquire_result [OF assms(2) l] obtain k c1 where k: "k = (h, addrKey a)"
    and c1: "judge ((case record_of mh (Forget h l) k of Some c \<Rightarrow> c | None \<Rightarrow> fresh_client r now)\<lparr>c_seen := now\<rparr>) r now
       = (c1, if rel = None then v else no_verdict)"
    and rel: "rel = None \<and> v_Limited v \<or> rel = Some k \<and> v = no_verdict"
    and "record_of mh l' k = Some (if rel = None then c1 else c1\<lparr>c_active := c_active c1 + 1\<rparr>)" by blast
  moreover from c1 k fresh have "judge (fresh_client r now\<lparr>c_seen := now\<rparr>) r now = (c1, if rel = None then v else no_verdict)"
    by simp
  from j [OF this] rel have "rel = Some k" "c_active c1 = 0" by auto
  ultimately show ?thesis by simp
qed

theorem Forget_drops_slots_witness:
  "snd (snd (ex_acq (Forget 1 (ex_lim 0 2)))) = Some ex_key"
  using Forget_drops_slots [of "ex_lim 0 2" "\<lambda>_. 5" 0 1 "[192, 0, 2, 7]" ex_rules]
  by (cases "ex_acq (Forget 1 (ex_lim 0 2))") (auto simp: ex_lim_def New_def ex_key_def)

end
