(* ===== verification/Go_Http.thy ===== *)
theory Go_Http
  imports Go_Base
begin

text \<open>
  The parts of Go's \<^verbatim>\<open>net/http\<close>, \<^verbatim>\<open>strings\<close> and \<^verbatim>\<open>strconv\<close> the request path uses: headers, which are
  maps from canonical names to lists of values (an association list in the order a range statement
  visits it, with distinct keys), requests, and the syntax of floating point numbers as far as
  comparing the parsed value with zero needs it.
\<close>

section \<open>Headers\<close>

type_synonym header = "(string \<times> string list) list"

text \<open>Reading the map: an absent name has no values. \<^verbatim>\<open>Header.Values\<close> and \<^verbatim>\<open>Header.Get\<close> of a name
  in canonical form are this and its first element.\<close>

definition values_of :: "header \<Rightarrow> string \<Rightarrow> string list" where
  "values_of h k = (case map_of h k of None \<Rightarrow> [] | Some vs \<Rightarrow> vs)"

definition Header_Get :: "header \<Rightarrow> string \<Rightarrow> string" where
  "Header_Get h k = (case values_of h k of [] \<Rightarrow> [] | v # vs \<Rightarrow> v)"

definition Header_Set :: "string \<Rightarrow> string \<Rightarrow> header \<Rightarrow> header" where
  "Header_Set k v h = al_put k [v] h"

definition Header_Add :: "string \<Rightarrow> string \<Rightarrow> header \<Rightarrow> header" where
  "Header_Add k v h = al_put k (values_of h k @ [v]) h"

definition Header_Del :: "string \<Rightarrow> header \<Rightarrow> header" where
  "Header_Del k h = al_del k h"

lemma values_of_put [simp]: "values_of (al_put k vs h) k' = (if k' = k then vs else values_of h k')"
  by (simp add: values_of_def)

lemma values_of_del [simp]: "values_of (al_del k h) k' = (if k' = k then [] else values_of h k')"
  by (simp add: values_of_def)

lemma Get_Set [simp]: "Header_Get (Header_Set k v h) k' = (if k' = k then v else Header_Get h k')"
  by (simp add: Header_Get_def Header_Set_def)

lemma Get_Del [simp]: "Header_Get (Header_Del k h) k' = (if k' = k then [] else Header_Get h k')"
  by (simp add: Header_Get_def Header_Del_def)

text \<open>\<^verbatim>\<open>textproto.CanonicalMIMEHeaderKey\<close>: a name made of token characters has the first letter of
  each hyphen-separated part upper case and the rest lower case; any other name is left alone.\<close>

definition token_chars :: string where
  "token_chars = ''!#$%&'' @ [CHR 0x27] @ ''*+-.0123456789ABCDEFGHIJKLMNOPQRSTUVWXYZ^_'' @ [CHR 0x60] @
     ''abcdefghijklmnopqrstuvwxyz|~''"

fun canon_from :: "bool \<Rightarrow> string \<Rightarrow> string" where
  "canon_from up [] = []"
| "canon_from up (c # s) = (if up then upper_char c else lower_char c) # canon_from (c = CHR ''-'') s"

definition CanonicalHeaderKey :: "string \<Rightarrow> string" where
  "CanonicalHeaderKey s = (if list_all (\<lambda>c. c \<in> set token_chars) s then canon_from True s else s)"

section \<open>Requests\<close>

text \<open>The body a server handler is given: nothing, the value \<^verbatim>\<open>http.NoBody\<close>, a one-shot stream of
  bytes, or a stream capped by \<^verbatim>\<open>http.MaxBytesReader\<close>.\<close>

datatype body = NilBody | NoBody | Stream string | MaxBytesReader body int

record request =
  q_Method :: string
  q_Host :: string
  q_Path :: string
  q_RawPath :: string
  q_RawQuery :: string
  q_Proto :: string
  q_Header :: header
  q_TLS :: bool
  q_RemoteAddr :: string
  q_ContentLength :: int
  q_Body :: body

section \<open>Strings\<close>

text \<open>\<^verbatim>\<open>strings.Trim\<close> with a cutset of one byte.\<close>

definition trim_byte :: "char \<Rightarrow> string \<Rightarrow> string" where
  "trim_byte c s = rev (dropWhile (\<lambda>x. x = c) (rev (dropWhile (\<lambda>x. x = c) s)))"

section \<open>Floating point syntax\<close>

text \<open>
  \<^verbatim>\<open>strconv.ParseFloat(s, 64)\<close>, as far as the question whether it succeeds with a value equal to
  zero goes. \<open>read_mantissa\<close> is the digit loop of \<^verbatim>\<open>readFloat\<close>: it yields the digits before and
  after the point, whether an underscore was seen and the rest. A value rounds to zero when it is at
  most half the smallest denormal, \<open>2\<^sup>-\<^sup>1\<^sup>0\<^sup>7\<^sup>5\<close>. Underscores must separate digits
  (\<^verbatim>\<open>underscoreOK\<close>). The exponent stops growing once it has five digits, as in the library.
\<close>

definition hex_val :: "char \<Rightarrow> nat option" where
  "hex_val c =
     (if is_digit c then Some (digit_val c)
      else if 97 \<le> byte (lower_char c) \<and> byte (lower_char c) \<le> 102 then Some (byte (lower_char c) - 87)
      else None)"

definition digit_in :: "bool \<Rightarrow> char \<Rightarrow> nat option" where
  "digit_in hex c = (if hex then hex_val c else if is_digit c then Some (digit_val c) else None)"

record mantissa =
  m_value :: nat
  m_frac :: nat
  m_digits :: bool
  m_dot :: bool

fun read_mantissa :: "bool \<Rightarrow> mantissa \<Rightarrow> string \<Rightarrow> mantissa \<times> string" where
  "read_mantissa hex m [] = (m, [])"
| "read_mantissa hex m (c # s) =
     (if c = CHR ''_'' then read_mantissa hex m s
      else if c = CHR ''.'' then (if m_dot m then (m, c # s) else read_mantissa hex (m\<lparr>m_dot := True\<rparr>) s)
      else case digit_in hex c of
        None \<Rightarrow> (m, c # s)
      | Some d \<Rightarrow>
          read_mantissa hex
            (m\<lparr>m_value := (if hex then 16 else 10) * m_value m + d, m_digits := True,
               m_frac := (if m_dot m then m_frac m + 1 else m_frac m)\<rparr>) s)"

fun read_exp :: "nat \<Rightarrow> string \<Rightarrow> nat \<times> string" where
  "read_exp e [] = (e, [])"
| "read_exp e (c # s) =
     (if c = CHR ''_'' then read_exp e s
      else if is_digit c then read_exp (if e < 10000 then e * 10 + digit_val c else e) s
      else (e, c # s))"

text \<open>\<^verbatim>\<open>underscoreOK\<close>: \<open>prev\<close> is what came before (a digit or base prefix, an underscore, or
  anything else).\<close>

datatype seen = SeenStart | SeenDigit | SeenUnderscore | SeenOther

fun underscores_ok :: "bool \<Rightarrow> seen \<Rightarrow> string \<Rightarrow> bool" where
  "underscores_ok hex prev [] = (prev \<noteq> SeenUnderscore)"
| "underscores_ok hex prev (c # s) =
     (if is_digit c \<or> hex \<and> hex_val c \<noteq> None then underscores_ok hex SeenDigit s
      else if c = CHR ''_'' then prev = SeenDigit \<and> underscores_ok hex SeenUnderscore s
      else prev \<noteq> SeenUnderscore \<and> underscores_ok hex SeenOther s)"

definition rounds_to_zero :: "bool \<Rightarrow> nat \<Rightarrow> nat \<Rightarrow> int \<Rightarrow> bool" where
  "rounds_to_zero hex v fr e \<longleftrightarrow>
     v = 0 \<or>
     (let scale = (if hex then e - 4 * int fr else e - int fr); base = (if hex then 2 else 10 :: int)
      in scale < 0 \<and> int v * 2 ^ 1075 \<le> base ^ nat (- scale))"

definition float_is_zero :: "string \<Rightarrow> bool" where
  "float_is_zero s0 =
     (let s = (if has_prefix s0 ''+'' \<or> has_prefix s0 ''-'' then drop 1 s0 else s0);
          hex = (length s > 2 \<and> s ! 0 = CHR ''0'' \<and> lower_char (s ! 1) = CHR ''x'');
          body = (if hex then drop 2 s else s);
          (m, rest) = read_mantissa hex \<lparr>m_value = 0, m_frac = 0, m_digits = False, m_dot = False\<rparr> body;
          us_ok = (CHR ''_'' \<notin> set s \<or> underscores_ok hex (if hex then SeenDigit else SeenStart) body)
      in m_digits m \<and> us_ok \<and>
         (case rest of
            [] \<Rightarrow> \<not> hex \<and> rounds_to_zero hex (m_value m) (m_frac m) 0
          | c # r \<Rightarrow>
              lower_char c = (if hex then CHR ''p'' else CHR ''e'') \<and>
              (let neg = has_prefix r ''-'';
                   ds = (if neg \<or> has_prefix r ''+'' then drop 1 r else r);
                   (e, rest') = read_exp 0 ds
               in ds \<noteq> [] \<and> is_digit (hd ds) \<and> rest' = [] \<and>
                  rounds_to_zero hex (m_value m) (m_frac m) (if neg then - int e else int e))))"

end
