(* ===== verification/Domain_Errors.thy ===== *)
theory Domain_Errors
  imports Go_Base
begin

text \<open>
  \<^verbatim>\<open>internal/domain/errors.go\<close>: validation errors. A validator collects one entry per problem and
  reports an error exactly if it collected any. A message is kept as its format and arguments, as
  the validators pass them; \<^verbatim>\<open>fmt.Sprintf\<close> is not carried out.
\<close>

datatype fmt_arg = FStr string | FInt int

record field_error =
  fe_Field :: string
  fe_Format :: string
  fe_Args :: "fmt_arg list"

type_synonym validation_error = "field_error list"

definition v_Add :: "string \<Rightarrow> string \<Rightarrow> fmt_arg list \<Rightarrow> validation_error \<Rightarrow> validation_error" where
  "v_Add field format args v = v @ [\<lparr>fe_Field = field, fe_Format = format, fe_Args = args\<rparr>]"

definition v_Err :: "validation_error \<Rightarrow> validation_error option" where
  "v_Err v = (if v = [] then None else Some v)"

text \<open>One check of a validator: \<^verbatim>\<open>if cond { v.Add(...) }\<close>.\<close>

definition v_if :: "bool \<Rightarrow> string \<Rightarrow> string \<Rightarrow> fmt_arg list \<Rightarrow> validation_error \<Rightarrow> validation_error" where
  "v_if cond field format args v = (if cond then v_Add field format args v else v)"

lemma v_Add_not_Nil [simp]: "v_Add f m a v \<noteq> []"
  by (simp add: v_Add_def)

lemma v_if_Nil [simp]: "v_if c f m a v = [] \<longleftrightarrow> \<not> c \<and> v = []"
  by (simp add: v_if_def)

lemma v_Err_None [simp]: "v_Err v = None \<longleftrightarrow> v = []"
  by (simp add: v_Err_def)

text \<open>A loop of checks reports nothing exactly if no iteration does.\<close>

lemma foldl_checks_Nil:
  assumes "\<And>x v. step v x = [] \<longleftrightarrow> ok x \<and> v = []"
  shows "foldl step v xs = [] \<longleftrightarrow> (\<forall>x \<in> set xs. ok x) \<and> v = []"
  using assms by (induction xs arbitrary: v) auto

lemma foldl_checks_keep:
  assumes "\<And>v x. step v x = [] \<Longrightarrow> v = []"
  shows "foldl step v xs = [] \<Longrightarrow> v = []"
proof (induction xs arbitrary: v)
  case (Cons x xs)
  from Cons.IH [of "step v x"] Cons.prems have "step v x = []" by simp
  then show ?case by (rule assms)
qed simp

end
