(* ===== verification/Domain_Cache.thy ===== *)
theory Domain_Cache
  imports Domain_Errors
begin

text \<open>
  \<^verbatim>\<open>internal/domain/cache.go\<close>: the cache setting of a host, which paths it selects, and how operator
  input is canonicalised and validated. A result \<^const>\<open>None\<close> of the validator is the run-time panic
  of indexing an empty path; \<open>Cache_Validate_Normalize\<close> shows it cannot happen after normalisation.
\<close>

record cache_cfg =
  cf_Enabled :: bool
  cf_Paths :: "string list"
  cf_TTL :: duration
  cf_MaxTTL :: duration
  cf_MaxObjectBytes :: int
  cf_MaxBytes :: int

definition DefaultCachePaths :: "string list" where
  "DefaultCachePaths =
     [''.js'', ''.mjs'', ''.css'', ''.woff'', ''.woff2'', ''.ico'',
      ''.png'', ''.jpg'', ''.jpeg'', ''.gif'', ''.svg'', ''.webp'', ''.avif'',
      ''/assets/'', ''/static/'']"

definition DefaultCache :: cache_cfg where
  "DefaultCache =
     \<lparr>cf_Enabled = False, cf_Paths = DefaultCachePaths, cf_TTL = 5 * minute, cf_MaxTTL = 24 * hour,
      cf_MaxObjectBytes = 1048576, cf_MaxBytes = 67108864\<rparr>"

definition Cache_Active :: "cache_cfg \<Rightarrow> bool" where
  "Cache_Active c \<longleftrightarrow> cf_Enabled c \<and> cf_Paths c \<noteq> []"

fun path_matches :: "string list \<Rightarrow> string \<Rightarrow> bool" where
  "path_matches [] path = False"
| "path_matches (p # ps) path =
     (if p \<noteq> [] \<and> hd p = CHR ''.'' then
        (if length path \<ge> length p \<and> equal_fold (drop (length path - length p) path) p then True
         else path_matches ps path)
      else if has_prefix path p then True
      else path_matches ps path)"

definition Cache_Matches :: "cache_cfg \<Rightarrow> string \<Rightarrow> bool" where
  "Cache_Matches c path = path_matches (cf_Paths c) path"

fun normalize_paths :: "string list \<Rightarrow> string list \<Rightarrow> string list" where
  "normalize_paths seen [] = []"
| "normalize_paths seen (p0 # ps) =
     (let p1 = trim_space p0
      in if p1 = [] then normalize_paths seen ps
         else let p = (if hd p1 = CHR ''.'' then to_lower p1 else p1)
              in if p \<in> set seen then normalize_paths seen ps
                 else p # normalize_paths (p # seen) ps)"

definition Cache_Normalize :: "cache_cfg \<Rightarrow> cache_cfg" where
  "Cache_Normalize c =
     c\<lparr>cf_Paths := normalize_paths [] (cf_Paths c),
       cf_TTL := (if cf_TTL c \<le> 0 then 5 * minute else cf_TTL c),
       cf_MaxTTL := (if cf_MaxTTL c \<le> 0 then 24 * hour else cf_MaxTTL c),
       cf_MaxObjectBytes := (if cf_MaxObjectBytes c \<le> 0 then 1048576 else cf_MaxObjectBytes c),
       cf_MaxBytes := (if cf_MaxBytes c \<le> 0 then 67108864 else cf_MaxBytes c)\<rparr>"

fun validate_paths :: "validation_error \<Rightarrow> string list \<Rightarrow> validation_error option" where
  "validate_paths v [] = Some v"
| "validate_paths v (p # ps) =
     (if length p > 128 then
        validate_paths (v_Add ''cache.paths'' ''%q is longer than 128 characters'' [FStr p] v) ps
      else if p = [] then None
      else if hd p \<noteq> CHR ''.'' \<and> hd p \<noteq> CHR ''/'' then
        validate_paths (v_Add ''cache.paths''
          ''%q must be an extension like .js or a path prefix like /assets/'' [FStr p] v) ps
      else if p = ''.'' then
        validate_paths (v_Add ''cache.paths'' ''%q is not an extension'' [FStr p] v) ps
      else if p = ''/'' then
        validate_paths (v_Add ''cache.paths''
          ''%q matches every request; name the asset paths instead'' [FStr p] v) ps
      else validate_paths v ps)"

definition Cache_Validate :: "cache_cfg \<Rightarrow> validation_error option option" where
  "Cache_Validate c =
     (let v = v_if (cf_Enabled c \<and> length (cf_Paths c) = 0) ''cache.paths''
                ''choose at least one path or extension, or nothing can ever be cached'' [] [];
          v = v_if (length (cf_Paths c) > 64) ''cache.paths'' ''must be at most 64 entries'' [] v
      in case validate_paths v (cf_Paths c) of
           None \<Rightarrow> None
         | Some v \<Rightarrow>
             let v = v_if (cf_TTL c < second \<or> cf_TTL c > 24 * hour) ''cache.ttl''
                       ''must be between 1 second and 24 hours'' [] v;
                 v = v_if (cf_MaxTTL c < cf_TTL c) ''cache.maxTtl''
                       ''must not be shorter than the default TTL'' [] v;
                 v = v_if (cf_MaxTTL c > 30 * 24 * hour) ''cache.maxTtl'' ''must be at most 30 days'' [] v;
                 v = v_if (cf_MaxObjectBytes c < 1024 \<or> cf_MaxObjectBytes c > 67108864) ''cache.maxObjectBytes''
                       ''must be between 1 KiB and 64 MiB'' [] v;
                 v = v_if (cf_MaxBytes c < cf_MaxObjectBytes c) ''cache.maxBytes''
                       ''must be at least as large as one object'' [] v;
                 v = v_if (cf_MaxBytes c > 1073741824) ''cache.maxBytes'' ''must be at most 1 GiB'' [] v
             in Some (v_Err v))"

section \<open>Which paths are selected\<close>

lemma Cache_Matches_iff:
  "Cache_Matches c path \<longleftrightarrow>
     (\<exists>p \<in> set (cf_Paths c).
        if has_prefix p ''.'' then \<exists>a b. path = a @ b \<and> length b = length p \<and> equal_fold b p
        else has_prefix path p)"
proof -
  have ext: "(\<exists>a b. path = a @ b \<and> length b = length p \<and> equal_fold b p) \<longleftrightarrow>
    length path \<ge> length p \<and> equal_fold (drop (length path - length p) path) p" for p
  proof
    assume "length path \<ge> length p \<and> equal_fold (drop (length path - length p) path) p"
    then show "\<exists>a b. path = a @ b \<and> length b = length p \<and> equal_fold b p"
      by (intro exI [of _ "take (length path - length p) path"] exI [of _ "drop (length path - length p) path"]) auto
  qed auto
  have dot: "has_prefix p ''.'' \<longleftrightarrow> p \<noteq> [] \<and> hd p = CHR ''.''" for p
    by (cases p) (auto simp: has_prefix_def)
  have "path_matches ps path \<longleftrightarrow>
     (\<exists>p \<in> set ps. if has_prefix p ''.'' then length path \<ge> length p \<and> equal_fold (drop (length path - length p) path) p
        else has_prefix path p)" for ps
    by (induction ps) (auto simp: dot)
  then show ?thesis unfolding Cache_Matches_def ext by simp
qed

section \<open>Normalisation\<close>

definition norm_path :: "string \<Rightarrow> string" where
  "norm_path p0 = (let p = trim_space p0 in if p \<noteq> [] \<and> hd p = CHR ''.'' then to_lower p else p)"

lemma to_lower_hd: "s \<noteq> [] \<Longrightarrow> hd (to_lower s) = lower_char (hd s)"
  by (simp add: to_lower_def hd_map)

lemma norm_path_idem [simp]: "norm_path (norm_path p) = norm_path p"
proof (cases "trim_space p \<noteq> [] \<and> hd (trim_space p) = CHR ''.''")
  case True
  then have "hd (to_lower (trim_space p)) = CHR ''.''"
    by (simp add: to_lower_hd lower_char_def is_upper_def byte_def)
  with True show ?thesis by (simp add: norm_path_def Let_def trim_space_to_lower)
qed (auto simp: norm_path_def Let_def)

lemma norm_path_Nil [simp]: "norm_path [] = []"
  by (simp add: norm_path_def)

lemma normalize_paths_eq:
  "normalize_paths seen ps = dedup seen (filter (\<lambda>p. p \<noteq> []) (map norm_path ps))"
  by (induction ps arbitrary: seen) (auto simp: norm_path_def Let_def)

lemma normalize_paths_idem: "normalize_paths [] (normalize_paths [] ps) = normalize_paths [] ps"
proof -
  let ?ps = "filter (\<lambda>p. p \<noteq> []) (map norm_path ps)"
  have fixed: "norm_path p = p \<and> p \<noteq> []" if "p \<in> set (dedup [] ?ps)" for p
    using that by (auto simp: set_dedup)
  then have "map norm_path (dedup [] ?ps) = dedup [] ?ps" by (intro map_idI) blast
  moreover have "filter (\<lambda>p. p \<noteq> []) (dedup [] ?ps) = dedup [] ?ps"
    using fixed by (intro filter_True) blast
  ultimately show ?thesis unfolding normalize_paths_eq by (simp only: dedup_idem)
qed

text \<open>Normalising a cache setting twice is normalising it once, and afterwards every limit is
  positive and no path is empty or repeated.\<close>

theorem Cache_Normalize_canonical:
  "Cache_Normalize (Cache_Normalize c) = Cache_Normalize c \<and>
   cf_TTL (Cache_Normalize c) > 0 \<and> cf_MaxTTL (Cache_Normalize c) > 0 \<and>
   cf_MaxObjectBytes (Cache_Normalize c) > 0 \<and> cf_MaxBytes (Cache_Normalize c) > 0 \<and>
   [] \<notin> set (cf_Paths (Cache_Normalize c)) \<and> distinct (cf_Paths (Cache_Normalize c))"
proof -
  have "[] \<notin> set (normalize_paths [] (cf_Paths c))" "distinct (normalize_paths [] (cf_Paths c))"
    by (auto simp: normalize_paths_eq set_dedup distinct_dedup)
  then show ?thesis by (simp add: Cache_Normalize_def normalize_paths_idem)
qed

section \<open>Validation\<close>

definition path_ok :: "string \<Rightarrow> bool" where
  "path_ok p \<longleftrightarrow> length p \<le> 128 \<and> length p > 1 \<and> (hd p = CHR ''.'' \<or> hd p = CHR ''/'')"

lemma validate_paths_returns: "[] \<notin> set ps \<Longrightarrow> \<exists>v'. validate_paths v ps = Some v'"
  by (induction ps arbitrary: v) auto

lemma validate_paths_keeps: "validate_paths v ps = Some v' \<Longrightarrow> v \<noteq> [] \<Longrightarrow> v' \<noteq> []"
  by (induction v ps rule: validate_paths.induct) (auto split: if_splits)

lemma validate_paths_clean:
  "validate_paths v ps = Some [] \<longleftrightarrow> v = [] \<and> list_all path_ok ps"
proof (induction ps arbitrary: v)
  case (Cons p ps)
  have dead: "validate_paths (v_Add f m a v) ps \<noteq> Some []" for f m a
    using validate_paths_keeps [of "v_Add f m a v" ps "[]"] by auto
  have "path_ok p \<longleftrightarrow> length p \<le> 128 \<and> p \<noteq> [] \<and> (hd p = CHR ''.'' \<or> hd p = CHR ''/'') \<and> p \<noteq> ''.'' \<and> p \<noteq> ''/''"
    by (cases p; cases "tl p") (auto simp: path_ok_def)
  with Cons dead show ?case by auto
qed simp

text \<open>Validation of a normalised cache setting never panics; a setting it accepts has a time to
  live of at least a second and at most its maximum, a budget for at least one object, only entries
  that are extensions or path prefixes, and in particular never caches the root document.\<close>

theorem Cache_Validate_accepts:
  "Cache_Validate (Cache_Normalize c) \<noteq> None \<and>
   (Cache_Validate (Cache_Normalize c) = Some None \<longrightarrow>
      (let n = Cache_Normalize c
       in second \<le> cf_TTL n \<and> cf_TTL n \<le> cf_MaxTTL n \<and> cf_MaxTTL n \<le> 30 * 24 * hour \<and>
          1024 \<le> cf_MaxObjectBytes n \<and> cf_MaxObjectBytes n \<le> cf_MaxBytes n \<and> cf_MaxBytes n \<le> 2 ^ 30 \<and>
          list_all path_ok (cf_Paths n) \<and> \<not> Cache_Matches n ''/''))"
proof -
  let ?n = "Cache_Normalize c"
  have ne: "[] \<notin> set (cf_Paths ?n)" by (auto simp: Cache_Normalize_def normalize_paths_eq set_dedup)
  have "Cache_Validate ?n \<noteq> None"
    using validate_paths_returns [OF ne] by (fastforce simp: Cache_Validate_def Let_def split: option.splits)
  moreover have root: "\<not> Cache_Matches ?n ''/''" if "list_all path_ok (cf_Paths ?n)"
  proof
    assume "Cache_Matches ?n ''/''"
    then obtain p where "p \<in> set (cf_Paths ?n)" and m: "if has_prefix p ''.'' then \<exists>a b. ''/'' = a @ b \<and> length b = length p \<and> equal_fold b p
        else has_prefix ''/'' p" unfolding Cache_Matches_iff by blast
    with that have "length p > 1" by (auto simp: list_all_iff path_ok_def)
    moreover from m have "length p \<le> 1"
      by (auto simp: has_prefix_iff Cons_eq_append_conv split: if_splits)
    ultimately show False by simp
  qed
  moreover have "Cache_Validate ?n = Some None \<Longrightarrow>
    validate_paths [] (cf_Paths ?n) = Some [] \<and> second \<le> cf_TTL ?n \<and> cf_TTL ?n \<le> cf_MaxTTL ?n \<and> cf_MaxTTL ?n \<le> 30 * 24 * hour \<and>
          1024 \<le> cf_MaxObjectBytes ?n \<and> cf_MaxObjectBytes ?n \<le> cf_MaxBytes ?n \<and> cf_MaxBytes ?n \<le> 2 ^ 30"
    using validate_paths_clean [of "v_if (length (cf_Paths ?n) > 64) ''cache.paths'' ''must be at most 64 entries'' []
       (v_if (cf_Enabled ?n \<and> length (cf_Paths ?n) = 0) ''cache.paths''
                ''choose at least one path or extension, or nothing can ever be cached'' [] [])" "cf_Paths ?n"]
    by (auto simp: Cache_Validate_def Let_def validate_paths_clean split: option.splits)
  ultimately show ?thesis unfolding Let_def validate_paths_clean by blast
qed

theorem Cache_Validate_accepts_witness:
  "Cache_Validate (Cache_Normalize DefaultCache) = Some None \<and> \<not> Cache_Matches (Cache_Normalize DefaultCache) ''/''"
proof -
  have "Cache_Normalize DefaultCache = DefaultCache" by code_simp
  moreover have "Cache_Validate DefaultCache = Some None"
    by (simp add: DefaultCache_def DefaultCachePaths_def Cache_Validate_def v_if_def v_Err_def)
  ultimately show ?thesis using Cache_Validate_accepts [of DefaultCache] by (simp add: Let_def)
qed

end
