(* ===== verification/Cache_Policy.thy ===== *)
theory Cache_Policy
  imports Go_Http Domain_Cache "HOL-Library.Word"
begin

text \<open>
  \<^verbatim>\<open>internal/cache/policy.go\<close> and the entries of \<^verbatim>\<open>internal/cache/cache.go\<close>: what may be stored, for how
  long, to whom a stored response may be shown, and when a conditional request is answered with
  304. The parser of HTTP dates (\<^verbatim>\<open>http.ParseTime\<close>) is the parameter \<open>ParseTime\<close>, \<^const>\<open>None\<close> its
  error; the theorems hold for any.
\<close>

unbundle bit_operations_syntax

section \<open>Content codings\<close>

type_synonym encodings = "8 word"

definition EncGzip :: encodings where "EncGzip = 1"
definition EncBrotli :: encodings where "EncBrotli = 2"
definition EncDeflate :: encodings where "EncDeflate = 4"
definition EncZstd :: encodings where "EncZstd = 8"

fun quality_loop :: "string list \<Rightarrow> bool" where
  "quality_loop [] = False"
| "quality_loop (p # ps) =
     (case cut p (CHR ''='') of (name, val, found) \<Rightarrow>
        if \<not> found \<or> \<not> equal_fold (trim_space name) ''q'' then quality_loop ps
        else float_is_zero (trim_space val))"

definition refusedByQuality :: "string \<Rightarrow> bool" where
  "refusedByQuality params = quality_loop (split params (CHR '';''))"

definition coding_bit :: "string \<Rightarrow> encodings" where
  "coding_bit token =
     (if equal_fold token ''gzip'' \<or> equal_fold token ''x-gzip'' then EncGzip
      else if equal_fold token ''br'' then EncBrotli
      else if equal_fold token ''deflate'' then EncDeflate
      else if equal_fold token ''zstd'' then EncZstd
      else 0)"

definition accept_part :: "encodings \<Rightarrow> string \<Rightarrow> encodings" where
  "accept_part enc part =
     (case cut part (CHR '';'') of (token0, params, _) \<Rightarrow>
        let token = trim_space token0
        in if token = [] \<or> refusedByQuality params then enc else enc OR coding_bit token)"

definition ParseAcceptEncoding :: "string \<Rightarrow> encodings" where
  "ParseAcceptEncoding value =
     (if value = [] then 0 else foldl accept_part 0 (split value (CHR '','')))"

section \<open>Headers worth keeping\<close>

definition field :: "header \<Rightarrow> string \<Rightarrow> string" where
  "field h k = (case values_of h k of v # _ \<Rightarrow> v | [] \<Rightarrow> [])"

definition hopByHop :: "string list" where
  "hopByHop =
     [''Connection'', ''Keep-Alive'', ''Proxy-Authenticate'', ''Proxy-Authorization'',
      ''Proxy-Connection'', ''Te'', ''Trailer'', ''Transfer-Encoding'', ''Upgrade'']"

definition named_by_connection :: "header \<Rightarrow> string \<Rightarrow> bool" where
  "named_by_connection h key =
     list_ex (\<lambda>v. list_ex (\<lambda>name. equal_fold (trim_space name) key) (split v (CHR '','')))
       (values_of h ''Connection'')"

definition skipHeader :: "header \<Rightarrow> string \<Rightarrow> bool" where
  "skipHeader h key \<longleftrightarrow>
     equal_fold key ''Set-Cookie'' \<or> list_ex (equal_fold key) hopByHop \<or>
     equal_fold key ''Content-Length'' \<or> equal_fold key ''X-Cache'' \<or> equal_fold key ''Age'' \<or>
     named_by_connection h key"

definition CopyStorableHeader :: "header \<Rightarrow> header" where
  "CopyStorableHeader h = filter (\<lambda>(k, vs). \<not> skipHeader h k) h"

section \<open>Cache-Control\<close>

record cacheControl =
  cc_any :: bool
  cc_noStore :: bool
  cc_noCache :: bool
  cc_private :: bool
  cc_public :: bool
  cc_maxAge :: duration
  cc_hasMaxAge :: bool
  cc_sMaxAge :: duration
  cc_hasSMaxAge :: bool

definition no_directives :: cacheControl where
  "no_directives =
     \<lparr>cc_any = False, cc_noStore = False, cc_noCache = False, cc_private = False, cc_public = False,
      cc_maxAge = 0, cc_hasMaxAge = False, cc_sMaxAge = 0, cc_hasSMaxAge = False\<rparr>"

definition maxSeconds :: int where "maxSeconds = 100 * 365 * 24 * 60 * 60"

definition parseSeconds :: "string \<Rightarrow> duration option" where
  "parseSeconds arg =
     (case parse_int (trim_byte (CHR 0x22) (trim_space arg)) of
        None \<Rightarrow> None
      | Some n \<Rightarrow> if n < 0 then None else Some ((if n > maxSeconds then maxSeconds else n) * second))"

definition directive :: "cacheControl \<Rightarrow> string \<Rightarrow> cacheControl" where
  "directive cc part =
     (case cut part (CHR ''='') of (name0, arg, hasArg) \<Rightarrow>
        let name = trim_space name0
        in if equal_fold name ''no-store'' then cc\<lparr>cc_noStore := True\<rparr>
           else if equal_fold name ''no-cache'' then cc\<lparr>cc_noCache := True\<rparr>
           else if equal_fold name ''private'' then cc\<lparr>cc_private := True\<rparr>
           else if equal_fold name ''public'' then cc\<lparr>cc_public := True\<rparr>
           else if equal_fold name ''max-age'' \<and> hasArg then
             (case parseSeconds arg of Some d \<Rightarrow> cc\<lparr>cc_maxAge := d, cc_hasMaxAge := True\<rparr> | None \<Rightarrow> cc)
           else if equal_fold name ''s-maxage'' \<and> hasArg then
             (case parseSeconds arg of Some d \<Rightarrow> cc\<lparr>cc_sMaxAge := d, cc_hasSMaxAge := True\<rparr> | None \<Rightarrow> cc)
           else cc)"

definition directives :: "cacheControl \<Rightarrow> string \<Rightarrow> cacheControl" where
  "directives cc value =
     foldl directive (if value \<noteq> [] then cc\<lparr>cc_any := True\<rparr> else cc) (split value (CHR '',''))"

definition parseCacheControl :: "string list \<Rightarrow> cacheControl" where
  "parseCacheControl values = foldl directives no_directives values"

fun pragma_scan :: "string \<Rightarrow> bool" where
  "pragma_scan [] = False"
| "pragma_scan (c # s) =
     (length (c # s) \<ge> 8 \<and> (equal_fold (take 8 (c # s)) ''no-cache'' \<or> pragma_scan s))"

definition hasNoCachePragma :: "header \<Rightarrow> bool" where
  "hasNoCachePragma h = pragma_scan (field h ''Pragma'')"

definition requestDirectives :: "request \<Rightarrow> cacheControl" where
  "requestDirectives r =
     (let values = values_of (q_Header r) ''Cache-Control''
      in if values = [] then
           (if hasNoCachePragma (q_Header r) then no_directives\<lparr>cc_noCache := True\<rparr> else no_directives)
         else
           let cc = parseCacheControl values
           in if \<not> cc_any cc \<and> hasNoCachePragma (q_Header r) then cc\<lparr>cc_noCache := True\<rparr> else cc)"

section \<open>Requests\<close>

definition Eligible :: "cache_cfg \<Rightarrow> request \<Rightarrow> bool" where
  "Eligible cfg r =
     (if \<not> Cache_Active cfg then False
      else if q_Method r \<noteq> ''GET'' \<and> q_Method r \<noteq> ''HEAD'' then False
      else if field (q_Header r) ''Range'' \<noteq> [] then False
      else if cc_noStore (requestDirectives r) then False
      else Cache_Matches cfg (q_Path r))"

definition Invalidates :: "cache_cfg \<Rightarrow> request \<Rightarrow> bool" where
  "Invalidates cfg r =
     (if \<not> Cache_Active cfg then False
      else if q_Method r \<in> set [''GET'', ''HEAD'', ''OPTIONS'', ''TRACE''] then False
      else Cache_Matches cfg (q_Path r))"

text \<open>The credentials the policy looks for.\<close>

definition has_credentials :: "request \<Rightarrow> bool" where
  "has_credentials r \<longleftrightarrow> field (q_Header r) ''Authorization'' \<noteq> [] \<or> field (q_Header r) ''Cookie'' \<noteq> []"

section \<open>Entries\<close>

record entry =
  e_Status :: int
  e_Header :: header
  e_Body :: string
  e_ETag :: string
  e_LastModified :: string
  e_Public :: bool
  e_StoredAt :: time
  e_ExpiresAt :: time
  e_size :: int

record storability =
  s_ExpiresAt :: time
  s_Public :: bool
  s_Length :: int

definition entryOverhead :: int where "entryOverhead = 256"

definition header_size :: "header \<Rightarrow> int" where
  "header_size h =
     sum_list (map (\<lambda>(k, vs). sum_list (map (\<lambda>v. int (length k + length v + 4)) vs)) h)"

definition NewEntry :: "int \<Rightarrow> header \<Rightarrow> string \<Rightarrow> storability \<Rightarrow> time \<Rightarrow> entry" where
  "NewEntry status h body s now =
     (let stored = CopyStorableHeader h
      in \<lparr>e_Status = status, e_Header = stored, e_Body = body,
          e_ETag = Header_Get stored ''Etag'', e_LastModified = Header_Get stored ''Last-Modified'',
          e_Public = s_Public s, e_StoredAt = now, e_ExpiresAt = s_ExpiresAt s,
          e_size = int (length body) + entryOverhead + header_size stored\<rparr>)"

definition Fresh :: "entry \<Rightarrow> time \<Rightarrow> bool" where
  "Fresh e now \<longleftrightarrow> now < e_ExpiresAt e"

definition Age :: "entry \<Rightarrow> time \<Rightarrow> duration" where
  "Age e now = (if now - e_StoredAt e > 0 then now - e_StoredAt e else 0)"

definition Servable :: "entry \<Rightarrow> request \<Rightarrow> bool" where
  "Servable e r =
     (let d = requestDirectives r
      in if cc_noStore d \<or> cc_noCache d then False
         else if has_credentials r then e_Public e
         else True)"

section \<open>Responses\<close>

definition vary_value_ok :: "string \<Rightarrow> bool" where
  "vary_value_ok v =
     list_all (\<lambda>f. let f' = trim_space f in f' = [] \<or> equal_fold f' ''Accept-Encoding'') (split v (CHR '',''))"

definition varyIsCacheable :: "header \<Rightarrow> bool" where
  "varyIsCacheable h = list_all vary_value_ok (values_of h ''Vary'')"

definition freshness ::
  "(string \<Rightarrow> time option) \<Rightarrow> cacheControl \<Rightarrow> header \<Rightarrow> cache_cfg \<Rightarrow> time \<Rightarrow> duration option" where
  "freshness ParseTime cc h cfg now =
     (let ttl =
        (if cc_hasSMaxAge cc then Some (cc_sMaxAge cc)
         else if cc_hasMaxAge cc then Some (cc_maxAge cc)
         else if field h ''Expires'' \<noteq> [] then
           map_option (\<lambda>exp. exp - now) (ParseTime (field h ''Expires''))
         else Some (cf_TTL cfg))
      in case ttl of
           None \<Rightarrow> None
         | Some ttl \<Rightarrow>
             if ttl \<le> 0 then None
             else if ttl > cf_MaxTTL cfg then Some (cf_MaxTTL cfg)
             else Some ttl)"

definition Storable ::
  "(string \<Rightarrow> time option) \<Rightarrow> cache_cfg \<Rightarrow> request \<Rightarrow> int \<Rightarrow> header \<Rightarrow> time \<Rightarrow> storability option" where
  "Storable ParseTime cfg r status h now =
     (if q_Method r \<noteq> ''GET'' \<or> status \<noteq> 200 then None
      else case parse_int (field h ''Content-Length'') of
        None \<Rightarrow> None
      | Some len \<Rightarrow>
          if len < 0 \<or> len > cf_MaxObjectBytes cfg then None
          else if length (values_of h ''Set-Cookie'') > 0 then None
          else if \<not> varyIsCacheable h then None
          else
            let cc = parseCacheControl (values_of h ''Cache-Control'')
            in if cc_noStore cc \<or> cc_noCache cc \<or> cc_private cc then None
               else if \<not> cc_any cc \<and> hasNoCachePragma h then None
               else if has_credentials r \<and> \<not> cc_public cc then None
               else case freshness ParseTime cc h cfg now of
                 None \<Rightarrow> None
               | Some ttl \<Rightarrow> Some \<lparr>s_ExpiresAt = now + ttl, s_Public = cc_public cc, s_Length = len\<rparr>)"

section \<open>Conditional requests\<close>

definition trimWeak :: "string \<Rightarrow> string" where
  "trimWeak tag = (case cut_prefix tag ''W/'' of Some a \<Rightarrow> a | None \<Rightarrow> tag)"

definition etagMatches :: "string \<Rightarrow> string \<Rightarrow> bool" where
  "etagMatches ifNoneMatch stored =
     (if stored = [] then False
      else list_ex (\<lambda>c0. let c = trim_space c0 in c = ''*'' \<or> trimWeak c = trimWeak stored)
             (split ifNoneMatch (CHR '','')))"

definition NotModified :: "(string \<Rightarrow> time option) \<Rightarrow> entry \<Rightarrow> request \<Rightarrow> bool" where
  "NotModified ParseTime e r =
     (let inm = field (q_Header r) ''If-None-Match''; ims = field (q_Header r) ''If-Modified-Since''
      in if inm \<noteq> [] then etagMatches inm (e_ETag e)
         else if ims \<noteq> [] \<and> e_LastModified e \<noteq> [] then
           (case ParseTime ims of
              None \<Rightarrow> False
            | Some since \<Rightarrow>
                (case ParseTime (e_LastModified e) of
                   None \<Rightarrow> False
                 | Some modified \<Rightarrow> \<not> modified > since))
         else False)"

section \<open>What the parsers see\<close>

definition directive_name :: "string \<Rightarrow> string" where
  "directive_name part = trim_space (fst (cut part (CHR ''='')))"

definition has_directive :: "string list \<Rightarrow> string \<Rightarrow> bool" where
  "has_directive values name \<longleftrightarrow>
     (\<exists>v \<in> set values. \<exists>p \<in> set (split v (CHR '','')). equal_fold (directive_name p) name)"

lemma fold_directives:
  "fold_case ''no-store'' = ''no-store''" "fold_case ''no-cache'' = ''no-cache''"
  "fold_case ''private'' = ''private''" "fold_case ''public'' = ''public''"
  "fold_case ''max-age'' = ''max-age''" "fold_case ''s-maxage'' = ''s-maxage''"
  by code_simp+

lemma directive_flags:
  "cc_noStore (directive cc p) \<longleftrightarrow> cc_noStore cc \<or> equal_fold (directive_name p) ''no-store''"
  "cc_noCache (directive cc p) \<longleftrightarrow> cc_noCache cc \<or> equal_fold (directive_name p) ''no-cache''"
  "cc_private (directive cc p) \<longleftrightarrow> cc_private cc \<or> equal_fold (directive_name p) ''private''"
  "cc_public (directive cc p) \<longleftrightarrow> cc_public cc \<or> equal_fold (directive_name p) ''public''"
  "cc_any (directive cc p) = cc_any cc"
  by (auto simp: directive_def directive_name_def equal_fold_def fold_directives Let_def simp del: fold_case.simps
      split: prod.splits option.splits)

lemma flag_over_parts:
  assumes "\<And>cc p. flag (directive cc p) \<longleftrightarrow> flag cc \<or> P p" "\<And>cc. flag (cc\<lparr>cc_any := True\<rparr>) = flag cc"
  shows "flag (parseCacheControl vals) \<longleftrightarrow>
    flag no_directives \<or> (\<exists>v \<in> set vals. \<exists>p \<in> set (split v (CHR '','')). P p)"
proof -
  have one: "flag (foldl directive cc ps) \<longleftrightarrow> flag cc \<or> (\<exists>p \<in> set ps. P p)" for cc ps
    using assms(1) by (induction ps arbitrary: cc) auto
  have "flag (foldl directives cc vals) \<longleftrightarrow>
      flag cc \<or> (\<exists>v \<in> set vals. \<exists>p \<in> set (split v (CHR '','')). P p)" for cc
    by (induction vals arbitrary: cc) (auto simp: directives_def one assms(2))
  then show ?thesis by (simp add: parseCacheControl_def)
qed

lemma parseCacheControl_flags:
  "cc_noStore (parseCacheControl vs) \<longleftrightarrow> has_directive vs ''no-store''"
  "cc_noCache (parseCacheControl vs) \<longleftrightarrow> has_directive vs ''no-cache''"
  "cc_private (parseCacheControl vs) \<longleftrightarrow> has_directive vs ''private''"
  "cc_public (parseCacheControl vs) \<longleftrightarrow> has_directive vs ''public''"
  using flag_over_parts [where flag = cc_noStore] flag_over_parts [where flag = cc_noCache]
    flag_over_parts [where flag = cc_private] flag_over_parts [where flag = cc_public]
  by (simp_all add: directive_flags has_directive_def no_directives_def)

lemma freshness_bounds: "freshness PT cc h cfg now = Some ttl \<Longrightarrow> ttl \<le> cf_MaxTTL cfg \<and> (0 < cf_MaxTTL cfg \<longrightarrow> 0 < ttl)"
  by (auto simp: freshness_def Let_def split: option.splits if_splits)


definition ex_get :: "string \<Rightarrow> header \<Rightarrow> request" where
  "ex_get path h =
     \<lparr>q_Method = ''GET'', q_Host = ''example.com'', q_Path = path, q_RawPath = [], q_RawQuery = [],
      q_Proto = ''HTTP/1.1'', q_Header = h, q_TLS = False, q_RemoteAddr = ''192.0.2.1:4711'', q_ContentLength = 0,
      q_Body = NoBody\<rparr>"

definition ex_resp :: header where
  "ex_resp = [(''Content-Length'', [''5'']), (''Cache-Control'', [''public, max-age=60'']), (''Connection'', [''X-Hop'']),
    (''X-Hop'', [''1'']), (''Etag'', [''abc''])]"

lemma ex_Storable:
  "Storable (\<lambda>_. None) DefaultCache (ex_get ''/a.js'' [(''Cookie'', [''s=1''])]) 200 ex_resp 1000 =
     Some \<lparr>s_ExpiresAt = 60000001000, s_Public = True, s_Length = 5\<rparr>"
  by code_simp


definition offers :: "string \<Rightarrow> nat \<Rightarrow> bool" where
  "offers part n \<longleftrightarrow>
     (case cut part (CHR '';'') of (token, params, _) \<Rightarrow>
        trim_space token \<noteq> [] \<and> \<not> refusedByQuality params \<and> bit (coding_bit (trim_space token)) n)"

lemma accept_part_bit: "bit (accept_part enc part) n \<longleftrightarrow> bit enc n \<or> offers part n"
  by (auto simp: accept_part_def offers_def Let_def bit_or_iff split: prod.splits)

lemma accept_parts_bit: "bit (foldl accept_part enc ps) n \<longleftrightarrow> bit enc n \<or> (\<exists>p \<in> set ps. offers p n)"
  by (induction ps arbitrary: enc) (auto simp: accept_part_bit)

text \<open>The codings of a cache key: a bit is set exactly if some element of the Accept-Encoding list
  names that coding and is not refused by a zero quality. The order of the elements, their
  spelling in upper or lower case and repetitions make no difference.\<close>

theorem ParseAcceptEncoding_bits:
  "bit (ParseAcceptEncoding v) n \<longleftrightarrow>
     (\<exists>part \<in> set (split v (CHR '','')). case cut part (CHR '';'') of (token, params, _) \<Rightarrow>
        trim_space token \<noteq> [] \<and> \<not> refusedByQuality params \<and> bit (coding_bit (trim_space token)) n)"
proof (cases "v = []")
  case True
  then show ?thesis by (simp add: ParseAcceptEncoding_def)
next
  case False
  then show ?thesis
    using accept_parts_bit [of 0 "split v (CHR '','')" n] by (simp add: ParseAcceptEncoding_def offers_def)
qed

theorem ParseAcceptEncoding_bits_witness:
  "bit (ParseAcceptEncoding ''br;q=0, GZIP'') 0 \<and> \<not> bit (ParseAcceptEncoding ''br;q=0, GZIP'') 1"
proof
  show "bit (ParseAcceptEncoding ''br;q=0, GZIP'') 0"
    unfolding ParseAcceptEncoding_bits by code_simp
  show "\<not> bit (ParseAcceptEncoding ''br;q=0, GZIP'') 1"
    unfolding ParseAcceptEncoding_bits by code_simp
qed

lemma CopyStorableHeader_values:
  "values_of (CopyStorableHeader h) k = (if skipHeader h k then [] else values_of h k)"
proof -
  have "CopyStorableHeader h = filter (\<lambda>p. \<not> skipHeader h (fst p)) h"
    by (auto simp: CopyStorableHeader_def intro: filter_cong)
  then show ?thesis by (simp add: values_of_def map_of_filter_key [of "\<lambda>k. \<not> skipHeader h k"])
qed

lemma skip_listed: "key \<in> set hopByHop \<union> {''Set-Cookie'', ''Content-Length'', ''X-Cache'', ''Age''} \<Longrightarrow> skipHeader h key"
  unfolding skipHeader_def list_ex_iff using equal_fold_refl by blast

end
