(* ===== verification/Cache_Store.thy ===== *)
theory Cache_Store
  imports Cache_Policy
begin

text \<open>
  \<^verbatim>\<open>internal/cache/cache.go\<close>: the bounded cache of one host, an intrusive doubly linked list of nodes
  in recency order with a hash map into it. The nodes live in an explicit heap, so that the pointer
  surgery of \<open>unlink\<close> and \<open>pushFront\<close> is modelled assignment by assignment. Locale \<open>lru_contract\<close> states
  what the rest of the proxy relies on, over the list of stored pairs from the most to the least
  recently used; the interpretation shows that the linked structure implements it. Every operation
  runs under the host's mutex and is one step.
\<close>

section \<open>Data\<close>

record key =
  k_Host :: string
  k_Path :: string
  k_Query :: string
  k_Enc :: encodings

type_synonym nid = nat

record node =
  n_prev :: "nid option"
  n_next :: "nid option"
  n_key :: key
  n_entry :: entry

record host_cache =
  hc_budget :: int
  hc_items :: "(key \<times> nid) list"
  hc_heap :: "nid \<Rightarrow> node"
  hc_alloc :: nat
  hc_head :: "nid option"
  hc_tail :: "nid option"
  hc_bytes :: int
  hc_hits :: "64 word"
  hc_misses :: "64 word"
  hc_stores :: "64 word"
  hc_evictions :: "64 word"
  hc_expired :: "64 word"

record stats =
  st_Hits :: "64 word"
  st_Misses :: "64 word"
  st_Stores :: "64 word"
  st_Evictions :: "64 word"
  st_Expired :: "64 word"
  st_Objects :: nat
  st_Bytes :: int

text \<open>Allocation takes the next address; the memory below \<open>hc_alloc\<close> has been handed out.\<close>

definition nil_entry :: entry where
  "nil_entry = \<lparr>e_Status = 0, e_Header = [], e_Body = [], e_ETag = [], e_LastModified = [],
     e_Public = False, e_StoredAt = 0, e_ExpiresAt = 0, e_size = 0\<rparr>"

definition nil_node :: node where
  "nil_node = \<lparr>n_prev = None, n_next = None,
     n_key = \<lparr>k_Host = [], k_Path = [], k_Query = [], k_Enc = 0\<rparr>, n_entry = nil_entry\<rparr>"

definition newHostCache :: "int \<Rightarrow> host_cache" where
  "newHostCache budget =
     \<lparr>hc_budget = budget, hc_items = [], hc_heap = (\<lambda>_. nil_node), hc_alloc = 0, hc_head = None,
      hc_tail = None, hc_bytes = 0, hc_hits = 0, hc_misses = 0, hc_stores = 0, hc_evictions = 0,
      hc_expired = 0\<rparr>"

section \<open>The linked list\<close>

definition upd :: "nid \<Rightarrow> (node \<Rightarrow> node) \<Rightarrow> host_cache \<Rightarrow> host_cache" where
  "upd x f h = h\<lparr>hc_heap := (hc_heap h)(x := f (hc_heap h x))\<rparr>"

definition unlink :: "nid \<Rightarrow> host_cache \<Rightarrow> host_cache" where
  "unlink n h =
     (let h = (case n_prev (hc_heap h n) of
                 Some p \<Rightarrow> upd p (n_next_update (\<lambda>_. n_next (hc_heap h n))) h
               | None \<Rightarrow> h\<lparr>hc_head := n_next (hc_heap h n)\<rparr>);
          h = (case n_next (hc_heap h n) of
                 Some q \<Rightarrow> upd q (n_prev_update (\<lambda>_. n_prev (hc_heap h n))) h
               | None \<Rightarrow> h\<lparr>hc_tail := n_prev (hc_heap h n)\<rparr>)
      in upd n (\<lambda>x. x\<lparr>n_prev := None, n_next := None\<rparr>) h)"

definition pushFront :: "nid \<Rightarrow> host_cache \<Rightarrow> host_cache" where
  "pushFront n h =
     (let h = upd n (\<lambda>x. x\<lparr>n_prev := None, n_next := hc_head h\<rparr>) h;
          h = (case hc_head h of Some x \<Rightarrow> upd x (n_prev_update (\<lambda>_. Some n)) h | None \<Rightarrow> h);
          h = h\<lparr>hc_head := Some n\<rparr>
      in if hc_tail h = None then h\<lparr>hc_tail := Some n\<rparr> else h)"

definition moveToFront :: "nid \<Rightarrow> host_cache \<Rightarrow> host_cache" where
  "moveToFront n h = (if hc_head h = Some n then h else pushFront n (unlink n h))"

definition remove :: "nid \<Rightarrow> host_cache \<Rightarrow> host_cache" where
  "remove n h =
     unlink n (h\<lparr>hc_items := al_del (n_key (hc_heap h n)) (hc_items h),
                 hc_bytes := hc_bytes h - e_size (n_entry (hc_heap h n))\<rparr>)"

section \<open>Operations\<close>

definition Lookup :: "key \<Rightarrow> time \<Rightarrow> host_cache \<Rightarrow> host_cache \<times> entry option" where
  "Lookup k now h =
     (case map_of (hc_items h) k of
        None \<Rightarrow> (h\<lparr>hc_misses := hc_misses h + 1\<rparr>, None)
      | Some n \<Rightarrow>
          if \<not> Fresh (n_entry (hc_heap h n)) now then
            let h = remove n h
            in (h\<lparr>hc_expired := hc_expired h + 1, hc_misses := hc_misses h + 1\<rparr>, None)
          else
            let h = moveToFront n h
            in (h\<lparr>hc_hits := hc_hits h + 1\<rparr>, Some (n_entry (hc_heap h n))))"

text \<open>The eviction loop; \<^const>\<open>None\<close> would be a loop that does not end.\<close>

partial_function (option) evict_loop :: "int \<Rightarrow> host_cache \<Rightarrow> host_cache option" where
  "evict_loop budget h =
     (if hc_bytes h > budget then
        (case hc_tail h of
           None \<Rightarrow> Some h
         | Some n \<Rightarrow>
             evict_loop budget (let h = remove n h in h\<lparr>hc_evictions := hc_evictions h + 1\<rparr>))
      else Some h)"

declare evict_loop.simps [code]

definition insert_front :: "key \<Rightarrow> entry \<Rightarrow> host_cache \<Rightarrow> host_cache" where
  "insert_front k e h =
     (let n = hc_alloc h;
          h = h\<lparr>hc_alloc := Suc n,
                hc_heap := (hc_heap h)(n := \<lparr>n_prev = None, n_next = None, n_key = k, n_entry = e\<rparr>)\<rparr>;
          h = h\<lparr>hc_items := al_put k n (hc_items h)\<rparr>;
          h = pushFront n h
      in h\<lparr>hc_bytes := hc_bytes h + e_size e, hc_stores := hc_stores h + 1\<rparr>)"

definition Put :: "key \<Rightarrow> entry \<Rightarrow> host_cache \<Rightarrow> host_cache option" where
  "Put k e h =
     (let budget = hc_budget h
      in if e_size e > budget then Some h
         else
           let h = (case map_of (hc_items h) k of Some old \<Rightarrow> remove old h | None \<Rightarrow> h)
           in evict_loop budget (insert_front k e h))"

definition inval_step :: "string \<Rightarrow> string \<Rightarrow> host_cache \<Rightarrow> key \<times> nid \<Rightarrow> host_cache" where
  "inval_step hst path h kn =
     (if k_Host (fst kn) = hst \<and> k_Path (fst kn) = path then remove (snd kn) h else h)"

definition Invalidate :: "string \<Rightarrow> string \<Rightarrow> host_cache \<Rightarrow> host_cache" where
  "Invalidate hst path h = foldl (inval_step hst path) h (hc_items h)"

definition Stats :: "host_cache \<Rightarrow> stats" where
  "Stats h =
     \<lparr>st_Hits = hc_hits h, st_Misses = hc_misses h, st_Stores = hc_stores h,
      st_Evictions = hc_evictions h, st_Expired = hc_expired h,
      st_Objects = length (hc_items h), st_Bytes = hc_bytes h\<rparr>"

section \<open>The store: one cache per host\<close>

type_synonym cache_store = "(int \<times> host_cache) list"

definition NewStore :: cache_store where "NewStore = []"

text \<open>\<^verbatim>\<open>Host\<close> returns a pointer; here it returns the store in which the cache of the host exists with
  the current budget, and the cache is read and written back under its id.\<close>

definition Store_Host :: "int \<Rightarrow> int \<Rightarrow> cache_store \<Rightarrow> cache_store" where
  "Store_Host hostID budget s =
     (case map_of s hostID of
        Some h \<Rightarrow> if hc_budget h \<noteq> budget then al_put hostID (h\<lparr>hc_budget := budget\<rparr>) s else s
      | None \<Rightarrow> al_put hostID (newHostCache budget) s)"

definition Store_Forget :: "int set \<Rightarrow> cache_store \<Rightarrow> cache_store" where
  "Store_Forget keep s = filter (\<lambda>p. fst p \<in> keep) s"

definition Store_Stats :: "int \<Rightarrow> cache_store \<Rightarrow> stats option" where
  "Store_Stats hostID s = map_option Stats (map_of s hostID)"

section \<open>The linked structure represents a list\<close>

text \<open>\<open>seg hp p xs q\<close>: the nodes \<open>xs\<close> are linked in this order, the first one's \<open>prev\<close> being \<open>p\<close> and
  the last one's \<open>next\<close> being \<open>q\<close>.\<close>

definition first_or :: "'a list \<Rightarrow> 'a option \<Rightarrow> 'a option" where
  "first_or xs q = (case xs of [] \<Rightarrow> q | x # _ \<Rightarrow> Some x)"

definition last_or :: "'a list \<Rightarrow> 'a option \<Rightarrow> 'a option" where
  "last_or xs p = (if xs = [] then p else Some (last xs))"

lemma first_or_simps [simp]: "first_or [] q = q" "first_or (x # xs) q = Some x"
  by (simp_all add: first_or_def)

lemma last_or_simps [simp]: "last_or [] p = p" "last_or (x # xs) p = last_or xs (Some x)" "last_or (xs @ [x]) p = Some x"
  by (simp_all add: last_or_def)

lemma first_or_append: "first_or (a @ b) q = first_or a (first_or b q)"
  by (cases a) simp_all

lemma last_or_append: "last_or (a @ b) p = last_or b (last_or a p)"
  by (auto simp: last_or_def)

fun seg :: "(nid \<Rightarrow> node) \<Rightarrow> nid option \<Rightarrow> nid list \<Rightarrow> nid option \<Rightarrow> bool" where
  "seg hp p [] q = True"
| "seg hp p (x # xs) q = (n_prev (hp x) = p \<and> n_next (hp x) = first_or xs q \<and> seg hp (Some x) xs q)"

lemma seg_append: "seg hp p (a @ b) q \<longleftrightarrow> seg hp p a (first_or b q) \<and> seg hp (last_or a p) b q"
  by (induction a arbitrary: p) (auto simp: first_or_append)

lemma seg_frame:
  assumes "\<And>x. x \<in> set xs \<Longrightarrow> n_prev (hp' x) = n_prev (hp x) \<and> n_next (hp' x) = n_next (hp x)"
  shows "seg hp' p xs q = seg hp p xs q"
  using assms by (induction xs arbitrary: p) auto

text \<open>The list part of the state: \<open>xs\<close> are the nodes from \<open>head\<close> to \<open>tail\<close>.\<close>

definition chain :: "host_cache \<Rightarrow> nid list \<Rightarrow> bool" where
  "chain h xs \<longleftrightarrow> distinct xs \<and> seg (hc_heap h) None xs None \<and>
     hc_head h = first_or xs None \<and> hc_tail h = last_or xs None"

text \<open>What the pointer operations leave alone: everything but the links.\<close>

definition same_data :: "host_cache \<Rightarrow> host_cache \<Rightarrow> bool" where
  "same_data h h' \<longleftrightarrow>
     (\<forall>x. n_key (hc_heap h' x) = n_key (hc_heap h x) \<and> n_entry (hc_heap h' x) = n_entry (hc_heap h x)) \<and>
     hc_items h' = hc_items h \<and> hc_bytes h' = hc_bytes h \<and> hc_alloc h' = hc_alloc h \<and> hc_budget h' = hc_budget h"

lemma same_data_trans: "same_data h h' \<Longrightarrow> same_data h' h'' \<Longrightarrow> same_data h h''"
  by (simp add: same_data_def)

lemma unlink_same_data: "same_data h (unlink n h)"
  by (simp add: same_data_def unlink_def upd_def Let_def split: option.splits)

lemma pushFront_same_data: "same_data h (pushFront n h)"
  by (simp add: same_data_def pushFront_def upd_def Let_def split: option.splits)

lemma chain_unlink:
  assumes "chain h (a @ n # b)"
  shows "chain (unlink n h) (a @ b)"
proof -
  let ?hp = "hc_heap h"
  from assms have dis: "distinct (a @ n # b)" and sa: "seg ?hp None a (Some n)" and sb: "seg ?hp (Some n) b None"
    and n: "n_prev (?hp n) = last_or a None" "n_next (?hp n) = first_or b None"
    and ends: "hc_head h = first_or (a @ n # b) None" "hc_tail h = last_or (a @ n # b) None"
    by (auto simp: chain_def seg_append)
  show ?thesis
  proof (cases a rule: rev_cases)
    case Nil
    show ?thesis
    proof (cases b)
      case Nil
      with \<open>a = []\<close> n ends show ?thesis by (simp add: chain_def unlink_def upd_def Let_def)
    next
      case (Cons q b')
      have "seg (?hp(q := (?hp q)\<lparr>n_prev := None\<rparr>, n := (?hp n)\<lparr>n_prev := None, n_next := None\<rparr>)) (Some q) b' None"
        using sb dis Cons by (subst seg_frame [where hp = ?hp]) auto
      with Cons \<open>a = []\<close> n ends dis sb show ?thesis
        by (auto simp: chain_def unlink_def upd_def Let_def)
    qed
  next
    case (snoc a' p)
    from sa snoc have sa': "seg ?hp None a' (Some p)" and p: "n_prev (?hp p) = last_or a' None"
      by (auto simp: seg_append)
    show ?thesis
    proof (cases b)
      case Nil
      have "seg (?hp(p := (?hp p)\<lparr>n_next := None\<rparr>, n := (?hp n)\<lparr>n_prev := None, n_next := None\<rparr>)) None a' (Some p)"
        using sa' dis snoc by (subst seg_frame [where hp = ?hp]) auto
      with Nil snoc n ends dis p show ?thesis
        by (auto simp: chain_def unlink_def upd_def Let_def seg_append first_or_append last_or_append)
    next
      case (Cons q b')
      let ?hp' = "?hp(p := (?hp p)\<lparr>n_next := Some q\<rparr>, q := (?hp q)\<lparr>n_prev := Some p\<rparr>, n := (?hp n)\<lparr>n_prev := None, n_next := None\<rparr>)"
      have "seg ?hp' None a' (Some p)"
        using sa' dis snoc Cons by (subst seg_frame [where hp = ?hp]) auto
      moreover have "seg ?hp' (Some q) b' None"
        using sb dis snoc Cons by (subst seg_frame [where hp = ?hp]) auto
      ultimately show ?thesis using Cons snoc n ends dis p sb
        by (auto simp: chain_def unlink_def upd_def Let_def seg_append first_or_append last_or_append)
    qed
  qed
qed

lemma chain_pushFront:
  assumes "chain h xs" "n \<notin> set xs"
  shows "chain (pushFront n h) (n # xs)"
proof (cases xs)
  case Nil
  with assms show ?thesis by (simp add: chain_def pushFront_def upd_def Let_def)
next
  case (Cons x xs')
  let ?hp = "hc_heap h"
  from assms Cons have "seg (?hp(n := (?hp n)\<lparr>n_prev := None, n_next := Some x\<rparr>, x := (?hp x)\<lparr>n_prev := Some n\<rparr>)) (Some x) xs' None"
    by (subst seg_frame [where hp = ?hp]) (auto simp: chain_def)
  with assms Cons show ?thesis
    by (auto simp: chain_def pushFront_def upd_def Let_def last_or_def)
qed

section \<open>The abstract cache: a list in recency order\<close>

definition total_size :: "(key \<times> entry) list \<Rightarrow> int" where
  "total_size l = sum_list (map (\<lambda>p. e_size (snd p)) l)"

function shrink :: "int \<Rightarrow> (key \<times> entry) list \<Rightarrow> (key \<times> entry) list" where
  "shrink budget l = (if total_size l > budget \<and> l \<noteq> [] then shrink budget (butlast l) else l)"
  by pat_completeness auto
termination by (relation "measure (\<lambda>(b, l). length l)") auto

declare shrink.simps [simp del]

definition a_Lookup :: "key \<Rightarrow> time \<Rightarrow> (key \<times> entry) list \<Rightarrow> (key \<times> entry) list \<times> entry option" where
  "a_Lookup k now l =
     (case map_of l k of
        None \<Rightarrow> (l, None)
      | Some e \<Rightarrow> if Fresh e now then ((k, e) # al_del k l, Some e) else (al_del k l, None))"

definition a_Put :: "int \<Rightarrow> key \<Rightarrow> entry \<Rightarrow> (key \<times> entry) list \<Rightarrow> (key \<times> entry) list" where
  "a_Put budget k e l = (if e_size e > budget then l else shrink budget ((k, e) # al_del k l))"

definition a_Invalidate :: "string \<Rightarrow> string \<Rightarrow> (key \<times> entry) list \<Rightarrow> (key \<times> entry) list" where
  "a_Invalidate hst path l = filter (\<lambda>p. \<not> (k_Host (fst p) = hst \<and> k_Path (fst p) = path)) l"

lemma total_size_append [simp]: "total_size (a @ b) = total_size a + total_size b"
  by (simp add: total_size_def)

lemma total_size_Cons [simp]: "total_size (p # l) = e_size (snd p) + total_size l" and total_size_Nil [simp]: "total_size [] = 0"
  by (simp_all add: total_size_def)

text \<open>What is left is a prefix, it fits (a budget is never negative), and one element more would
  not.\<close>

lemma shrink_prefix:
  "\<exists>m \<le> length l. shrink budget l = take m l \<and> (m < length l \<longrightarrow> total_size (take (Suc m) l) > budget)"
proof (induction budget l rule: shrink.induct)
  case (1 budget l)
  show ?case
  proof (cases "total_size l > budget \<and> l \<noteq> []")
    case True
    with 1 obtain m where m: "m \<le> length (butlast l)" "shrink budget (butlast l) = take m (butlast l)"
      "m < length (butlast l) \<longrightarrow> total_size (take (Suc m) (butlast l)) > budget" by blast
    have "shrink budget l = take m l" using True m by (subst shrink.simps) (simp add: butlast_conv_take)
    moreover have "total_size (take (Suc m) l) > budget"
    proof (cases "m < length (butlast l)")
      case True
      with m show ?thesis by (simp add: butlast_conv_take)
    next
      case False
      with m(1) have "take (Suc m) l = l" by simp
      with True show ?thesis by simp
    qed
    ultimately show ?thesis using m by (intro exI [of _ m]) auto
  next
    case False
    then show ?thesis by (subst shrink.simps) auto
  qed
qed

lemma shrink_fits: "0 \<le> budget \<Longrightarrow> total_size (shrink budget l) \<le> budget"
  by (induction budget l rule: shrink.induct) (subst shrink.simps, auto simp: not_less)

section \<open>The pointer operations on the represented list\<close>

definition contents :: "host_cache \<Rightarrow> nid list \<Rightarrow> (key \<times> entry) list" where
  "contents h xs = map (\<lambda>n. (n_key (hc_heap h n), n_entry (hc_heap h n))) xs"

definition repr :: "host_cache \<Rightarrow> nid list \<Rightarrow> bool" where
  "repr h xs \<longleftrightarrow> chain h xs \<and> (\<forall>n \<in> set xs. n < hc_alloc h) \<and> distinct (al_keys (hc_items h)) \<and>
     (\<forall>k n. map_of (hc_items h) k = Some n \<longleftrightarrow> n \<in> set xs \<and> n_key (hc_heap h n) = k) \<and>
     hc_bytes h = total_size (contents h xs)"

lemma contents_same_data: "same_data h h' \<Longrightarrow> contents h' xs = contents h xs"
  by (simp add: same_data_def contents_def)

lemma contents_append [simp]: "contents h (a @ b) = contents h a @ contents h b"
  by (simp add: contents_def)

lemma contents_Cons [simp]: "contents h (n # b) = (n_key (hc_heap h n), n_entry (hc_heap h n)) # contents h b"
  by (simp add: contents_def)

lemma repr_key_inj: "repr h xs \<Longrightarrow> n \<in> set xs \<Longrightarrow> m \<in> set xs \<Longrightarrow> n_key (hc_heap h n) = n_key (hc_heap h m) \<Longrightarrow> n = m"
  unfolding repr_def by (metis option.inject)

lemma repr_distinct_keys: "repr h xs \<Longrightarrow> distinct (al_keys (contents h xs))"
  using repr_key_inj [of h xs] by (auto simp: contents_def distinct_map inj_on_def repr_def chain_def)

lemma repr_lookup:
  assumes "repr h xs"
  shows "map_of (contents h xs) k = map_option (\<lambda>n. n_entry (hc_heap h n)) (map_of (hc_items h) k)"
proof (cases "map_of (hc_items h) k")
  case None
  with assms have "\<forall>n \<in> set xs. n_key (hc_heap h n) \<noteq> k" unfolding repr_def by (metis option.distinct(1))
  then have "map_of (contents h xs) k = None" by (auto simp: map_of_eq_None_iff contents_def)
  with None show ?thesis by simp
next
  case (Some n)
  with assms have "n \<in> set xs" "n_key (hc_heap h n) = k" unfolding repr_def by blast+
  then have "(k, n_entry (hc_heap h n)) \<in> set (contents h xs)" by (force simp: contents_def)
  with Some repr_distinct_keys [OF assms] show ?thesis by simp
qed

lemma remove_repr:
  assumes "repr h (a @ n # b)"
  shows "repr (remove n h) (a @ b) \<and> contents (remove n h) (a @ b) = contents h (a @ b) \<and>
    hc_budget (remove n h) = hc_budget h"
proof -
  let ?k = "n_key (hc_heap h n)"
  let ?h = "h\<lparr>hc_items := al_del ?k (hc_items h), hc_bytes := hc_bytes h - e_size (n_entry (hc_heap h n))\<rparr>"
  have sd: "same_data ?h (remove n h)" unfolding remove_def by (rule unlink_same_data)
  have "chain ?h (a @ n # b)" using assms by (simp add: repr_def chain_def)
  then have ch: "chain (remove n h) (a @ b)" unfolding remove_def by (rule chain_unlink)
  have c: "contents (remove n h) (a @ b) = contents h (a @ b)"
    using contents_same_data [OF sd, of "a @ b"] by (simp add: contents_def)
  have "n \<notin> set (a @ b)" using assms by (auto simp: repr_def chain_def)
  then have "\<forall>m \<in> set (a @ b). n_key (hc_heap h m) \<noteq> ?k"
    using repr_key_inj [OF assms, of _ n] by auto
  then have "map_of (al_del ?k (hc_items h)) k = Some m \<longleftrightarrow> m \<in> set (a @ b) \<and> n_key (hc_heap h m) = k" for k m
    using assms unfolding repr_def by auto
  with ch c sd assms show ?thesis
    by (auto simp: repr_def same_data_def distinct_al_del)
qed

lemma moveToFront_repr:
  assumes "repr h (a @ n # b)"
  shows "repr (moveToFront n h) (n # a @ b) \<and> contents (moveToFront n h) (n # a @ b) = contents h (n # a @ b) \<and>
    hc_budget (moveToFront n h) = hc_budget h"
proof (cases "hc_head h = Some n")
  case True
  with assms have "a = []"
    by (cases a) (auto simp: repr_def chain_def)
  with True assms show ?thesis by (simp add: moveToFront_def)
next
  case False
  have sd: "same_data h (moveToFront n h)"
    using False same_data_trans [OF unlink_same_data pushFront_same_data] by (simp add: moveToFront_def)
  have "chain (unlink n h) (a @ b)" "n \<notin> set (a @ b)"
    using assms chain_unlink by (auto simp: repr_def chain_def)
  then have "chain (moveToFront n h) (n # a @ b)"
    using False chain_pushFront by (simp add: moveToFront_def)
  with sd assms contents_same_data [OF sd] show ?thesis
    by (auto simp: repr_def same_data_def)
qed

lemma insert_front_repr:
  assumes "repr h xs" "map_of (hc_items h) k = None"
  shows "repr (insert_front k e h) (hc_alloc h # xs) \<and>
    contents (insert_front k e h) (hc_alloc h # xs) = (k, e) # contents h xs \<and>
    hc_budget (insert_front k e h) = hc_budget h"
proof -
  let ?n = "hc_alloc h"
  let ?h0 = "h\<lparr>hc_alloc := Suc ?n,
     hc_heap := (hc_heap h)(?n := \<lparr>n_prev = None, n_next = None, n_key = k, n_entry = e\<rparr>), hc_items := al_put k ?n (hc_items h)\<rparr>"
  let ?h1 = "pushFront ?n ?h0"
  have new: "?n \<notin> set xs" using assms by (auto simp: repr_def)
  have "seg (hc_heap ?h0) None xs None = seg (hc_heap h) None xs None"
    using new by (intro seg_frame) auto
  then have "chain ?h0 xs" using assms by (auto simp: repr_def chain_def)
  then have ch: "chain ?h1 (?n # xs)" using new by (rule chain_pushFront)
  have sd: "same_data ?h0 ?h1" by (rule pushFront_same_data)
  have eq: "insert_front k e h = ?h1\<lparr>hc_bytes := hc_bytes ?h1 + e_size e, hc_stores := hc_stores ?h1 + 1\<rparr>"
    by (simp add: insert_front_def Let_def)
  have c: "contents (insert_front k e h) (?n # xs) = (k, e) # contents h xs"
    using contents_same_data [OF sd, of "?n # xs"] new by (auto simp: eq contents_def)
  have "\<forall>m \<in> set xs. n_key (hc_heap h m) \<noteq> k" using assms unfolding repr_def by (metis option.distinct(1))
  then have "map_of (al_put k ?n (hc_items h)) k' = Some m \<longleftrightarrow> m \<in> set (?n # xs) \<and> n_key (hc_heap ?h0 m) = k'" for k' m
    using assms(1) new unfolding repr_def by (auto split: if_splits)
  with ch c sd assms show ?thesis
    by (auto simp: repr_def same_data_def eq chain_def less_Suc_eq distinct_al_put)
qed

lemma evict_loop_repr:
  assumes "repr h xs"
  shows "\<exists>h' ys. evict_loop budget h = Some h' \<and> repr h' ys \<and> contents h' ys = shrink budget (contents h xs) \<and>
    hc_budget h' = hc_budget h"
  using assms
proof (induction xs arbitrary: h rule: rev_induct)
  case Nil
  then have "hc_tail h = None" "hc_bytes h = 0" by (auto simp: repr_def chain_def contents_def)
  with Nil show ?case
    by (intro exI [of _ h] exI [of _ "[]"]) (simp add: evict_loop.simps shrink.simps contents_def)
next
  case (snoc n xs)
  have b: "hc_bytes h = total_size (contents h (xs @ [n]))" and t: "hc_tail h = Some n"
    using snoc.prems by (auto simp: repr_def chain_def last_or_append)
  show ?case
  proof (cases "hc_bytes h > budget")
    case True
    let ?h = "(remove n h)\<lparr>hc_evictions := hc_evictions (remove n h) + 1\<rparr>"
    from remove_repr [of h xs n "[]"] snoc.prems have r: "repr (remove n h) xs" "contents (remove n h) xs = contents h xs"
      "hc_budget (remove n h) = hc_budget h" by simp_all
    then have "repr ?h xs" "contents ?h xs = contents h xs" by (simp_all add: repr_def chain_def contents_def)
    from snoc.IH [OF this(1)] this(2) r(3) obtain h' ys where
      "evict_loop budget ?h = Some h'" "repr h' ys" "contents h' ys = shrink budget (contents h xs)" "hc_budget h' = hc_budget h"
      by auto
    moreover have "evict_loop budget h = evict_loop budget ?h"
      using True t by (subst evict_loop.simps) (simp add: Let_def)
    moreover have "shrink budget (contents h (xs @ [n])) = shrink budget (contents h xs)"
      using True b by (subst shrink.simps) (simp add: contents_def)
    ultimately show ?thesis by auto
  next
    case False
    then have "evict_loop budget h = Some h" "shrink budget (contents h (xs @ [n])) = contents h (xs @ [n])"
      using b by (simp_all add: evict_loop.simps shrink.simps)
    with snoc.prems show ?thesis by (intro exI [of _ h] exI [of _ "xs @ [n]"]) (simp only: simp_thms)
  qed
qed

text \<open>The abstraction function follows the links from the head.\<close>

fun walk :: "(nid \<Rightarrow> node) \<Rightarrow> nat \<Rightarrow> nid option \<Rightarrow> (key \<times> entry) list" where
  "walk hp 0 x = []"
| "walk hp (Suc m) None = []"
| "walk hp (Suc m) (Some x) = (n_key (hp x), n_entry (hp x)) # walk hp m (n_next (hp x))"

definition entries :: "host_cache \<Rightarrow> (key \<times> entry) list" where
  "entries h = walk (hc_heap h) (length (hc_items h)) (hc_head h)"

definition cache_ok :: "host_cache \<Rightarrow> bool" where
  "cache_ok h \<longleftrightarrow> (\<exists>xs. repr h xs)"

lemma walk_seg: "seg hp p xs None \<Longrightarrow> walk hp (length xs) (first_or xs None) = map (\<lambda>n. (n_key (hp n), n_entry (hp n))) xs"
  by (induction xs arbitrary: p) auto

lemma repr_length:
  assumes "repr h xs"
  shows "length (hc_items h) = length xs"
proof -
  have "set (hc_items h) = (\<lambda>n. (n_key (hc_heap h n), n)) ` set xs"
    using assms by (auto simp: repr_def)
  moreover have "inj_on (\<lambda>n. (n_key (hc_heap h n), n)) (set xs)" by (auto simp: inj_on_def)
  ultimately have "card (set (hc_items h)) = card (set xs)" by (simp add: card_image)
  moreover have "distinct (hc_items h)" "distinct xs" using assms by (auto simp: repr_def chain_def distinct_map)
  ultimately show ?thesis by (simp add: distinct_card)
qed

lemma entries_repr: "repr h xs \<Longrightarrow> entries h = contents h xs"
  using walk_seg [of "hc_heap h" None xs]
  by (simp add: entries_def repr_length contents_def) (simp add: repr_def chain_def)

section \<open>The operations refine the abstract ones\<close>

lemma al_del_split:
  assumes "distinct (al_keys (a @ (k, e) # b))"
  shows "al_del k (a @ (k, e) # b) = a @ b" "map_of (a @ (k, e) # b) k = Some e"
proof -
  have "filter (\<lambda>p. fst p \<noteq> k) a = a" "filter (\<lambda>p. fst p \<noteq> k) b = b"
    using assms by (auto simp: filter_id_conv)
  then show "al_del k (a @ (k, e) # b) = a @ b" by (simp add: al_del_def)
  have "map_of a k = None" using assms by (auto simp: map_of_eq_None_iff)
  then show "map_of (a @ (k, e) # b) k = Some e" by (simp add: map_add_def)
qed

lemma repr_split:
  assumes "repr h xs" "map_of (hc_items h) k = Some n"
  obtains a b where "xs = a @ n # b" "n_key (hc_heap h n) = k"
    "al_del k (contents h xs) = contents h (a @ b)" "map_of (contents h xs) k = Some (n_entry (hc_heap h n))"
proof -
  from assms have "n \<in> set xs" and k: "n_key (hc_heap h n) = k" unfolding repr_def by blast+
  then obtain a b where xs: "xs = a @ n # b" by (auto simp: in_set_conv_decomp)
  have "distinct (al_keys (contents h a @ (k, n_entry (hc_heap h n)) # contents h b))"
    using repr_distinct_keys [OF assms(1)] by (simp add: xs k)
  from al_del_split [OF this] xs k show ?thesis by (intro that) simp_all
qed

lemma counters_repr [simp]:
  "repr (h\<lparr>hc_misses := x\<rparr>) xs = repr h xs" "repr (h\<lparr>hc_hits := x\<rparr>) xs = repr h xs"
  "repr (h\<lparr>hc_expired := x\<rparr>) xs = repr h xs"
  "contents (h\<lparr>hc_misses := x\<rparr>) xs = contents h xs" "contents (h\<lparr>hc_hits := x\<rparr>) xs = contents h xs"
  "contents (h\<lparr>hc_expired := x\<rparr>) xs = contents h xs"
  by (simp_all add: repr_def chain_def contents_def)

lemma Lookup_repr:
  assumes "repr h xs" "Lookup k now h = (h', r)"
  shows "\<exists>ys. repr h' ys \<and> (contents h' ys, r) = a_Lookup k now (contents h xs) \<and> hc_budget h' = hc_budget h"
proof (cases "map_of (hc_items h) k")
  case None
  then have "map_of (contents h xs) k = None" using repr_lookup [OF assms(1), of k] by simp
  with None assms show ?thesis by (intro exI [of _ xs]) (auto simp: Lookup_def a_Lookup_def)
next
  case (Some n)
  from repr_split [OF assms(1) Some] obtain a b where s: "xs = a @ n # b" "n_key (hc_heap h n) = k"
    "al_del k (contents h xs) = contents h (a @ b)" "map_of (contents h xs) k = Some (n_entry (hc_heap h n))" by blast
  show ?thesis
  proof (cases "Fresh (n_entry (hc_heap h n)) now")
    case True
    from moveToFront_repr [of h a n b] assms(1) s(1)
    have "repr (moveToFront n h) (n # a @ b)" "contents (moveToFront n h) (n # a @ b) = contents h (n # a @ b)"
      "hc_budget (moveToFront n h) = hc_budget h" by simp_all
    with True Some s assms(2) show ?thesis
      by (intro exI [of _ "n # a @ b"]) (auto simp: Lookup_def a_Lookup_def Let_def)
  next
    case False
    from remove_repr [of h a n b] assms(1) s(1)
    have "repr (remove n h) (a @ b)" "contents (remove n h) (a @ b) = contents h (a @ b)"
      "hc_budget (remove n h) = hc_budget h" by simp_all
    with False Some s assms(2) show ?thesis
      by (intro exI [of _ "a @ b"]) (auto simp: Lookup_def a_Lookup_def Let_def)
  qed
qed

lemma Put_repr:
  assumes "repr h xs"
  shows "\<exists>h' ys. Put k e h = Some h' \<and> repr h' ys \<and> contents h' ys = a_Put (hc_budget h) k e (contents h xs) \<and>
    hc_budget h' = hc_budget h"
proof (cases "e_size e > hc_budget h")
  case True
  with assms show ?thesis by (auto simp: Put_def a_Put_def)
next
  case False
  define h1 where "h1 = (case map_of (hc_items h) k of Some old \<Rightarrow> remove old h | None \<Rightarrow> h)"
  have "\<exists>ys. repr h1 ys \<and> contents h1 ys = al_del k (contents h xs) \<and> hc_budget h1 = hc_budget h"
  proof (cases "map_of (hc_items h) k")
    case None
    then have "map_of (contents h xs) k = None" using repr_lookup [OF assms, of k] by simp
    then have "al_del k (contents h xs) = contents h xs"
      by (auto simp: al_del_def filter_id_conv map_of_eq_None_iff image_iff)
    with None assms show ?thesis by (auto simp: h1_def)
  next
    case (Some n)
    from repr_split [OF assms Some] obtain a b where "xs = a @ n # b" "al_del k (contents h xs) = contents h (a @ b)" by metis
    with remove_repr [of h a n b] assms Some show ?thesis by (auto simp: h1_def)
  qed
  then obtain ys where ys: "repr h1 ys" "contents h1 ys = al_del k (contents h xs)" "hc_budget h1 = hc_budget h" by blast
  have "map_of (contents h1 ys) k = None" by (simp add: ys(2))
  then have "map_of (hc_items h1) k = None" using repr_lookup [OF ys(1), of k] by simp
  from insert_front_repr [OF ys(1) this, of e] evict_loop_repr [of "insert_front k e h1" "hc_alloc h1 # ys" "hc_budget h"]
  obtain h' zs where "evict_loop (hc_budget h) (insert_front k e h1) = Some h'" "repr h' zs"
    "contents h' zs = shrink (hc_budget h) ((k, e) # contents h1 ys)" "hc_budget h' = hc_budget h"
    using ys(3) by auto
  with False ys show ?thesis by (auto simp: Put_def a_Put_def Let_def h1_def)
qed

lemma remove_items: "hc_items (remove n h) = al_del (n_key (hc_heap h n)) (hc_items h)"
  using unlink_same_data [of "h\<lparr>hc_items := al_del (n_key (hc_heap h n)) (hc_items h),
      hc_bytes := hc_bytes h - e_size (n_entry (hc_heap h n))\<rparr>" n]
  by (simp add: remove_def same_data_def)

lemma inval_loop_repr:
  assumes "repr h xs" "distinct (al_keys its)" "set its \<subseteq> set (hc_items h)"
  shows "\<exists>ys. repr (foldl (inval_step hst path) h its) ys \<and>
    contents (foldl (inval_step hst path) h its) ys =
      filter (\<lambda>p. \<not> (k_Host (fst p) = hst \<and> k_Path (fst p) = path \<and> fst p \<in> set (al_keys its))) (contents h xs) \<and>
    hc_budget (foldl (inval_step hst path) h its) = hc_budget h"
  using assms
proof (induction its arbitrary: h xs)
  case Nil
  then show ?case by (intro exI [of _ xs]) simp
next
  case (Cons kn its)
  obtain k n where kn: "kn = (k, n)" by fastforce
  have m: "map_of (hc_items h) k = Some n" using Cons.prems kn by (auto simp: repr_def)
  show ?case
  proof (cases "k_Host k = hst \<and> k_Path k = path")
    case True
    from repr_split [OF Cons.prems(1) m] obtain a b where s: "xs = a @ n # b" "n_key (hc_heap h n) = k"
      "al_del k (contents h xs) = contents h (a @ b)" by metis
    from remove_repr [OF Cons.prems(1) [unfolded s(1)]]
    have r: "repr (remove n h) (a @ b)" "contents (remove n h) (a @ b) = al_del k (contents h xs)"
      "hc_budget (remove n h) = hc_budget h" unfolding s(3) by blast+
    have "set its \<subseteq> set (hc_items (remove n h))"
      using Cons.prems(2,3) kn by (force simp: remove_items s(2) al_del_def)
    moreover have "distinct (al_keys its)" using Cons.prems(2) by simp
    ultimately obtain ys where
      "repr (foldl (inval_step hst path) (remove n h) its) ys"
      "contents (foldl (inval_step hst path) (remove n h) its) ys =
        filter (\<lambda>p. \<not> (k_Host (fst p) = hst \<and> k_Path (fst p) = path \<and> fst p \<in> set (al_keys its))) (al_del k (contents h xs))"
      "hc_budget (foldl (inval_step hst path) (remove n h) its) = hc_budget h"
      using Cons.IH [OF r(1), unfolded r(2,3)] by blast
    moreover have "filter (\<lambda>p. \<not> (k_Host (fst p) = hst \<and> k_Path (fst p) = path \<and> fst p \<in> set (al_keys its))) (al_del k l)
      = filter (\<lambda>p. \<not> (k_Host (fst p) = hst \<and> k_Path (fst p) = path \<and> fst p \<in> set (al_keys (kn # its)))) l" for l :: "(key \<times> entry) list"
      using True kn by (auto simp: al_del_def intro: filter_cong)
    moreover have "inval_step hst path h kn = remove n h" using True kn by (simp add: inval_step_def)
    ultimately show ?thesis by (intro exI [of _ ys]) simp
  next
    case False
    from Cons.IH [OF Cons.prems(1)] Cons.prems obtain ys where
      "repr (foldl (inval_step hst path) h its) ys"
      "contents (foldl (inval_step hst path) h its) ys =
        filter (\<lambda>p. \<not> (k_Host (fst p) = hst \<and> k_Path (fst p) = path \<and> fst p \<in> set (al_keys its))) (contents h xs)"
      "hc_budget (foldl (inval_step hst path) h its) = hc_budget h" by auto
    moreover have "filter (\<lambda>p. \<not> (k_Host (fst p) = hst \<and> k_Path (fst p) = path \<and> fst p \<in> set (al_keys its))) l
      = filter (\<lambda>p. \<not> (k_Host (fst p) = hst \<and> k_Path (fst p) = path \<and> fst p \<in> set (al_keys (kn # its)))) l" for l :: "(key \<times> entry) list"
      using False kn by (intro filter_cong) auto
    moreover have "inval_step hst path h kn = h" using False kn by (auto simp: inval_step_def)
    ultimately show ?thesis by (intro exI [of _ ys]) simp
  qed
qed

lemma Invalidate_repr:
  assumes "repr h xs"
  shows "\<exists>ys. repr (Invalidate hst path h) ys \<and>
    contents (Invalidate hst path h) ys = a_Invalidate hst path (contents h xs) \<and>
    hc_budget (Invalidate hst path h) = hc_budget h"
proof -
  have "fst ` set (contents h xs) \<subseteq> set (al_keys (hc_items h))"
    using assms unfolding contents_def repr_def by (force simp: image_iff)
  then have "filter (\<lambda>p. \<not> (k_Host (fst p) = hst \<and> k_Path (fst p) = path \<and> fst p \<in> set (al_keys (hc_items h)))) (contents h xs)
    = a_Invalidate hst path (contents h xs)"
    unfolding a_Invalidate_def by (intro filter_cong) auto
  with inval_loop_repr [OF assms, of "hc_items h" hst path] assms show ?thesis
    unfolding Invalidate_def by (auto simp: repr_def)
qed

section \<open>What the proxy relies on\<close>

text \<open>The contract of a bounded, recency-ordered cache: its operations act on the list of stored
  pairs as the abstract ones do. The consequences below are all the rest of the development uses.\<close>

locale lru_contract =
  fixes ok :: "'c \<Rightarrow> bool"
    and entries_of :: "'c \<Rightarrow> (key \<times> entry) list"
    and budget :: "'c \<Rightarrow> int"
    and lookup :: "key \<Rightarrow> time \<Rightarrow> 'c \<Rightarrow> 'c \<times> entry option"
    and put :: "key \<Rightarrow> entry \<Rightarrow> 'c \<Rightarrow> 'c option"
    and invalidate :: "string \<Rightarrow> string \<Rightarrow> 'c \<Rightarrow> 'c"
  assumes distinct_keys: "ok c \<Longrightarrow> distinct (al_keys (entries_of c))"
    and lookup_law: "ok c \<Longrightarrow> lookup k now c = (c', r) \<Longrightarrow>
      ok c' \<and> (entries_of c', r) = a_Lookup k now (entries_of c) \<and> budget c' = budget c"
    and put_law: "ok c \<Longrightarrow> \<exists>c'. put k e c = Some c' \<and> ok c' \<and>
      entries_of c' = a_Put (budget c) k e (entries_of c) \<and> budget c' = budget c"
    and invalidate_law: "ok c \<Longrightarrow> ok (invalidate hst path c) \<and>
      entries_of (invalidate hst path c) = a_Invalidate hst path (entries_of c) \<and>
      budget (invalidate hst path c) = budget c"
begin

lemma put_fits:
  assumes "ok c" "put k e c = Some c'" "0 \<le> budget c"
    "total_size (entries_of c) \<le> budget c \<or> e_size e \<le> budget c"
  shows "total_size (entries_of c') \<le> budget c"
  using put_law [OF assms(1), of k e] assms(2-4) by (auto simp: a_Put_def shrink_fits)

lemma shrink_keeps_first:
  assumes "e_size e \<le> b"
  shows "\<exists>rest. shrink b ((k, e) # l) = (k, e) # rest"
proof -
  obtain m where m: "shrink b ((k, e) # l) = take m ((k, e) # l)"
    "m < Suc (length l) \<longrightarrow> total_size (take (Suc m) ((k, e) # l)) > b"
    using shrink_prefix [of "(k, e) # l" b] by auto
  then show ?thesis using assms by (cases m) auto
qed

lemma put_lookup:
  assumes "ok c" "put k e c = Some c'" "e_size e \<le> budget c" "Fresh e now"
  shows "snd (lookup k now c') = Some e"
proof -
  from put_law [OF assms(1), of k e] assms(2,3) have "ok c'"
    and c': "entries_of c' = shrink (budget c) ((k, e) # al_del k (entries_of c))" by (auto simp: a_Put_def)
  with shrink_keeps_first [OF assms(3), of k "al_del k (entries_of c)"] have "map_of (entries_of c') k = Some e" by auto
  with lookup_law [OF \<open>ok c'\<close>, of k now] assms(4) show ?thesis
    by (cases "lookup k now c'") (auto simp: a_Lookup_def)
qed

lemma lookup_stored:
  assumes "ok c" "lookup k now c = (c', Some e)"
  shows "(k, e) \<in> set (entries_of c) \<and> Fresh e now"
  using lookup_law [OF assms] by (auto simp: a_Lookup_def split: option.splits if_splits dest: map_of_SomeD)

lemma lookup_entries: "ok c \<Longrightarrow> lookup k now c = (c', r) \<Longrightarrow> set (entries_of c') \<subseteq> set (entries_of c)"
  using lookup_law [of c k now c' r]
  by (auto simp: a_Lookup_def al_del_def split: option.splits if_splits dest: map_of_SomeD)

lemma put_entries:
  assumes "ok c" "put k e c = Some c'"
  shows "set (entries_of c') \<subseteq> insert (k, e) (set (entries_of c))"
proof -
  have sub: "set (shrink b l) \<subseteq> set l" for b l
    using shrink_prefix [of l b] by (auto dest: in_set_takeD)
  from put_law [OF assms(1), of k e] assms(2) have "entries_of c' = a_Put (budget c) k e (entries_of c)" by simp
  then show ?thesis using sub [of "budget c" "(k, e) # al_del k (entries_of c)"]
    by (auto simp: a_Put_def al_del_def split: if_splits)
qed

lemma invalidate_misses:
  assumes "ok c" "k_Host k = hst" "k_Path k = path"
  shows "snd (lookup k now (invalidate hst path c)) = None"
proof -
  have i: "ok (invalidate hst path c)" "entries_of (invalidate hst path c) = a_Invalidate hst path (entries_of c)"
    using invalidate_law [OF assms(1)] by auto
  have "map_of (entries_of (invalidate hst path c)) k = None"
    using assms(2,3) by (auto simp: i(2) a_Invalidate_def map_of_eq_None_iff)
  then show ?thesis
    using lookup_law [OF i(1), of k now] by (cases "lookup k now (invalidate hst path c)") (auto simp: a_Lookup_def)
qed

end

interpretation hc: lru_contract cache_ok entries hc_budget Lookup Put Invalidate
proof unfold_locales
  fix c assume "cache_ok c"
  then obtain xs where r: "repr c xs" by (auto simp: cache_ok_def)
  then show "distinct (al_keys (entries c))" by (simp add: entries_repr repr_distinct_keys)
  show "cache_ok c' \<and> (entries c', res) = a_Lookup k now (entries c) \<and> hc_budget c' = hc_budget c"
    if "Lookup k now c = (c', res)" for k now c' res
    using Lookup_repr [OF r that] entries_repr [OF r] entries_repr unfolding cache_ok_def by metis
  show "\<exists>c'. Put k e c = Some c' \<and> cache_ok c' \<and> entries c' = a_Put (hc_budget c) k e (entries c) \<and> hc_budget c' = hc_budget c"
    for k e using Put_repr [OF r, of k e] entries_repr [OF r] entries_repr unfolding cache_ok_def by metis
  show "cache_ok (Invalidate hst path c) \<and> entries (Invalidate hst path c) = a_Invalidate hst path (entries c) \<and>
    hc_budget (Invalidate hst path c) = hc_budget c" for hst path
    using Invalidate_repr [OF r, of hst path] entries_repr [OF r] entries_repr unfolding cache_ok_def by metis
qed

section \<open>Properties of a host's cache\<close>

datatype cache_op = OpLookup key time | OpPut key entry | OpInvalidate string string

fun exec_op :: "cache_op \<Rightarrow> host_cache \<Rightarrow> host_cache option" where
  "exec_op (OpLookup k now) h = Some (fst (Lookup k now h))"
| "exec_op (OpPut k e) h = Put k e h"
| "exec_op (OpInvalidate hst path) h = Some (Invalidate hst path h)"

fun exec_ops :: "cache_op list \<Rightarrow> host_cache \<Rightarrow> host_cache option" where
  "exec_ops [] h = Some h"
| "exec_ops (op # ops) h = (case exec_op op h of None \<Rightarrow> None | Some h' \<Rightarrow> exec_ops ops h')"

fun a_exec :: "int \<Rightarrow> (key \<times> entry) list \<Rightarrow> cache_op \<Rightarrow> (key \<times> entry) list" where
  "a_exec b l (OpLookup k now) = fst (a_Lookup k now l)"
| "a_exec b l (OpPut k e) = a_Put b k e l"
| "a_exec b l (OpInvalidate hst path) = a_Invalidate hst path l"

lemma newHostCache_repr: "repr (newHostCache b) []"
  by (simp add: repr_def chain_def newHostCache_def contents_def)

lemma entries_newHostCache [simp]: "entries (newHostCache b) = []" "hc_budget (newHostCache b) = b"
  by (simp_all add: entries_def newHostCache_def)

lemma cache_ok_bytes: "cache_ok h \<Longrightarrow> hc_bytes h = total_size (entries h) \<and> length (hc_items h) = length (entries h)"
proof -
  assume "cache_ok h"
  then obtain xs where r: "repr h xs" by (auto simp: cache_ok_def)
  then have "hc_bytes h = total_size (contents h xs)" by (simp add: repr_def)
  with r show ?thesis by (simp add: entries_repr repr_length) (simp add: contents_def)
qed

lemma total_size_filter:
  "(\<forall>p \<in> set l. 0 \<le> e_size (snd p)) \<Longrightarrow> total_size (filter P l) \<le> total_size l"
  by (induction l) auto

lemma exec_op_refines:
  assumes "cache_ok h"
  shows "\<exists>h'. exec_op op h = Some h' \<and> cache_ok h' \<and> entries h' = a_exec (hc_budget h) (entries h) op \<and>
    hc_budget h' = hc_budget h"
proof (cases op)
  case (OpLookup k now)
  then show ?thesis
    using hc.lookup_law [OF assms, of k now] by (cases "Lookup k now h") (force dest: arg_cong [where f = fst])
next
  case (OpPut k e)
  then show ?thesis using hc.put_law [OF assms, of k e] by auto
next
  case (OpInvalidate hst path)
  then show ?thesis using hc.invalidate_law [OF assms, of hst path] by auto
qed

lemma exec_ops_refines:
  assumes "cache_ok h"
  shows "\<exists>h'. exec_ops ops h = Some h' \<and> cache_ok h' \<and> entries h' = foldl (a_exec (hc_budget h)) (entries h) ops \<and>
    hc_budget h' = hc_budget h"
  using assms
proof (induction ops arbitrary: h)
  case (Cons op ops)
  from exec_op_refines [OF Cons.prems, of op] obtain h1 where "exec_op op h = Some h1" "cache_ok h1"
    "entries h1 = a_exec (hc_budget h) (entries h) op" "hc_budget h1 = hc_budget h" by blast
  with Cons.IH [of h1] show ?case by auto
qed auto

lemma exec_ops_new:
  "\<exists>h. exec_ops ops (newHostCache b) = Some h \<and> cache_ok h \<and> entries h = foldl (a_exec b) [] ops \<and> hc_budget h = b"
  using exec_ops_refines [of "newHostCache b" ops] newHostCache_repr by (auto simp: cache_ok_def)

definition sized :: "cache_op \<Rightarrow> bool" where
  "sized op \<longleftrightarrow> (case op of OpPut k e \<Rightarrow> 0 \<le> e_size e | _ \<Rightarrow> True)"

lemma total_size_del_move: "map_of l k = Some e \<Longrightarrow> distinct (al_keys l) \<Longrightarrow> total_size ((k, e) # al_del k l) = total_size l"
proof -
  assume "map_of l k = Some e" "distinct (al_keys l)"
  then obtain a b where "l = a @ (k, e) # b" by (metis map_of_SomeD in_set_conv_decomp)
  with \<open>distinct (al_keys l)\<close> show ?thesis using al_del_split(1) [of a k e b] by simp
qed

text \<open>Sizes are not negative, the total stays within the budget, keys stay distinct.\<close>

definition a_ok :: "int \<Rightarrow> (key \<times> entry) list \<Rightarrow> bool" where
  "a_ok b l \<longleftrightarrow> (\<forall>p \<in> set l. 0 \<le> e_size (snd p)) \<and> total_size l \<le> b \<and> distinct (al_keys l)"

lemma a_ok_filter: "a_ok b l \<Longrightarrow> a_ok b (filter P l)"
  unfolding a_ok_def using total_size_filter [of l P] by (auto intro: distinct_filter_keys)

lemma a_ok_exec:
  assumes "a_ok b l" "sized op" "0 \<le> b"
  shows "a_ok b (a_exec b l op)"
proof (cases op)
  case (OpLookup k now)
  show ?thesis
  proof (cases "map_of l k")
    case None
    with OpLookup assms show ?thesis by (simp add: a_Lookup_def)
  next
    case (Some e)
    have d: "a_ok b (al_del k l)" unfolding al_del_def by (rule a_ok_filter [OF assms(1)])
    have "total_size ((k, e) # al_del k l) = total_size l" "0 \<le> e_size e" "k \<notin> set (al_keys (al_del k l))"
      using Some assms(1) total_size_del_move [OF Some] by (auto simp: a_ok_def al_del_def dest: map_of_SomeD)
    with d assms(1) have "a_ok b ((k, e) # al_del k l)" by (auto simp: a_ok_def)
    with d OpLookup Some show ?thesis by (simp add: a_Lookup_def)
  qed
next
  case (OpPut k e)
  obtain m where m: "shrink b ((k, e) # al_del k l) = take m ((k, e) # al_del k l)"
    using shrink_prefix by blast
  have "distinct (al_keys ((k, e) # al_del k l))" using assms(1) by (auto simp: a_ok_def al_del_def intro: distinct_filter_keys)
  moreover have "\<forall>p \<in> set ((k, e) # al_del k l). 0 \<le> e_size (snd p)"
    using assms OpPut by (auto simp: a_ok_def sized_def al_del_def)
  ultimately have "a_ok b (take m ((k, e) # al_del k l))"
    using shrink_fits [OF assms(3), of "(k, e) # al_del k l"] set_take_subset [of m "(k, e) # al_del k l"]
    unfolding m a_ok_def take_map [symmetric] by (blast intro: distinct_take)
  with m OpPut assms(1) show ?thesis by (simp add: a_Put_def)
next
  case (OpInvalidate hst path)
  with assms(1) show ?thesis by (simp add: a_Invalidate_def a_ok_filter)
qed

text \<open>C20. The cache is what it says: every sequence of lookups, insertions and invalidations on a new
  cache returns, the linked structure holds exactly the entries of the abstract least recently used
  list in its order, the byte counter is the sum of their sizes, and it never exceeds the budget.\<close>

theorem HostCache_refines_lru:
  assumes "0 \<le> b" "\<forall>op \<in> set ops. sized op"
  shows "\<exists>h. exec_ops ops (newHostCache b) = Some h \<and> entries h = foldl (a_exec b) [] ops \<and>
    st_Bytes (Stats h) = total_size (entries h) \<and> st_Bytes (Stats h) \<le> b \<and> st_Objects (Stats h) = length (entries h)"
proof -
  have "a_ok b l \<Longrightarrow> \<forall>op \<in> set ops. sized op \<Longrightarrow> a_ok b (foldl (a_exec b) l ops)" for l
    using a_ok_exec [OF _ _ assms(1)] by (induction ops arbitrary: l) auto
  from this [of "[]"] have "total_size (foldl (a_exec b) [] ops) \<le> b" using assms by (simp add: a_ok_def)
  with exec_ops_new [of ops b] cache_ok_bytes show ?thesis by (auto simp: Stats_def)
qed

definition overwrites :: "int \<Rightarrow> cache_op \<Rightarrow> key \<Rightarrow> bool" where
  "overwrites b op k \<longleftrightarrow>
     (case op of OpLookup _ _ \<Rightarrow> False | OpPut k' e' \<Rightarrow> k' = k \<and> e_size e' \<le> b
      | OpInvalidate hst path \<Rightarrow> k_Host k = hst \<and> k_Path k = path)"

text \<open>\<open>e\<close> is the last thing stored under \<open>k\<close>, and \<open>k\<close> was not invalidated since.\<close>

definition last_put :: "int \<Rightarrow> cache_op list \<Rightarrow> key \<Rightarrow> entry \<Rightarrow> bool" where
  "last_put b ops k e \<longleftrightarrow>
     (\<exists>pre post. ops = pre @ OpPut k e # post \<and> (\<forall>op \<in> set post. \<not> overwrites b op k))"

lemma a_exec_entries:
  assumes "(k, e) \<in> set (a_exec b l op)"
  shows "op = OpPut k e \<or> (k, e) \<in> set l \<and> \<not> overwrites b op k"
proof (cases op)
  case (OpLookup k' now)
  with assms show ?thesis
    by (auto simp: a_Lookup_def overwrites_def al_del_def split: option.splits if_splits dest: map_of_SomeD)
next
  case (OpPut k' e')
  have "set (shrink b ((k', e') # al_del k' l)) \<subseteq> set ((k', e') # al_del k' l)"
    using shrink_prefix [of "(k', e') # al_del k' l" b] set_take_subset by fastforce
  with assms OpPut show ?thesis by (auto simp: a_Put_def overwrites_def al_del_def split: if_splits)
next
  case (OpInvalidate hst path)
  with assms show ?thesis by (auto simp: a_Invalidate_def overwrites_def)
qed

lemma entries_last_put: "(k, e) \<in> set (foldl (a_exec b) [] ops) \<Longrightarrow> last_put b ops k e"
proof (induction ops rule: rev_induct)
  case (snoc op ops)
  then have "(k, e) \<in> set (a_exec b (foldl (a_exec b) [] ops) op)" by simp
  from a_exec_entries [OF this] show ?case
  proof
    assume "op = OpPut k e"
    then show ?thesis unfolding last_put_def by (intro exI [of _ ops] exI [of _ "[]"]) simp
  next
    assume "(k, e) \<in> set (foldl (a_exec b) [] ops) \<and> \<not> overwrites b op k"
    with snoc.IH obtain pre post where "ops = pre @ OpPut k e # post" "\<forall>op \<in> set post. \<not> overwrites b op k"
      "\<not> overwrites b op k" by (auto simp: last_put_def)
    then show ?thesis unfolding last_put_def by (intro exI [of _ pre] exI [of _ "post @ [op]"]) auto
  qed
qed simp

text \<open>What a lookup returns: after any history, a lookup answers only with the entry most recently
  stored under exactly that key, never after its path was invalidated, and never at or after its
  expiry.\<close>

theorem Lookup_serves_last_put:
  assumes "exec_ops ops (newHostCache b) = Some h" "Lookup k now h = (h', Some e)"
  shows "last_put b ops k e \<and> now < e_ExpiresAt e"
proof -
  from exec_ops_new [of ops b] assms(1) have ok: "cache_ok h" and e: "entries h = foldl (a_exec b) [] ops" by auto
  from hc.lookup_stored [OF ok assms(2)] e show ?thesis by (auto intro: entries_last_put simp: Fresh_def)
qed

text \<open>A stored entry is served: an entry that fits the budget is returned by a lookup of its key
  until it expires, as long as nothing else happens; storing evicts from the cold end only and no
  more than needed, so what remains is a prefix of the recency list that fits while one entry more
  would not.\<close>

theorem Put_stores_and_evicts_lru:
  assumes "exec_ops ops (newHostCache b) = Some h" "0 \<le> b" "e_size e \<le> b"
  shows "\<exists>h' m. Put k e h = Some h' \<and> (\<forall>now < e_ExpiresAt e. snd (Lookup k now h') = Some e) \<and>
    (let l = (k, e) # al_del k (entries h)
     in entries h' = take m l \<and> total_size (take m l) \<le> b \<and> (m < length l \<longrightarrow> total_size (take (Suc m) l) > b))"
proof -
  from exec_ops_new [of ops b] assms(1) have ok: "cache_ok h" and b: "hc_budget h = b" by auto
  from hc.put_law [OF ok, of k e] assms(3) b obtain h' where h': "Put k e h = Some h'"
    "entries h' = shrink b ((k, e) # al_del k (entries h))" by (auto simp: a_Put_def)
  have "\<forall>now < e_ExpiresAt e. snd (Lookup k now h') = Some e"
    using hc.put_lookup [OF ok h'(1)] assms(3) b by (simp add: Fresh_def)
  moreover obtain m where "shrink b ((k, e) # al_del k (entries h)) = take m ((k, e) # al_del k (entries h))"
    "m < length ((k, e) # al_del k (entries h)) \<longrightarrow> total_size (take (Suc m) ((k, e) # al_del k (entries h))) > b"
    using shrink_prefix by blast
  ultimately show ?thesis using h' shrink_fits [OF assms(2), of "(k, e) # al_del k (entries h)"]
    unfolding Let_def by (intro exI [of _ h'] exI [of _ m]) simp
qed

definition ex_entry :: "int \<Rightarrow> entry" where
  "ex_entry n = nil_entry\<lparr>e_size := n, e_ExpiresAt := 100\<rparr>"

definition ex_ckey :: "string \<Rightarrow> key" where
  "ex_ckey p = \<lparr>k_Host = ''example.com'', k_Path = p, k_Query = [], k_Enc = 0\<rparr>"

definition ex_ops :: "cache_op list" where
  "ex_ops = [OpPut (ex_ckey ''a'') (ex_entry 60), OpPut (ex_ckey ''b'') (ex_entry 50),
     OpLookup (ex_ckey ''a'') 7, OpPut (ex_ckey ''c'') (ex_entry 40)]"

lemma ex_ops_run: "map_option (\<lambda>h. map (\<lambda>p. k_Path (fst p)) (entries h)) (exec_ops ex_ops (newHostCache 120)) = Some [''c'', ''a'']"
  by code_simp

lemma ex_ops_lookup: "map_option (\<lambda>h. snd (Lookup (ex_ckey ''a'') 99 h)) (exec_ops ex_ops (newHostCache 120)) = Some (Some (ex_entry 60))"
  by code_simp

theorem HostCache_refines_lru_witness:
  "\<exists>h. exec_ops ex_ops (newHostCache 120) = Some h \<and> st_Bytes (Stats h) \<le> 120"
  using HostCache_refines_lru [of 120 ex_ops] by (auto simp: ex_ops_def sized_def ex_entry_def)

theorem Lookup_serves_last_put_witness: "last_put 120 ex_ops (ex_ckey ''a'') (ex_entry 60)"
proof -
  from ex_ops_lookup obtain h where h: "exec_ops ex_ops (newHostCache 120) = Some h"
    "snd (Lookup (ex_ckey ''a'') 99 h) = Some (ex_entry 60)" by (cases "exec_ops ex_ops (newHostCache 120)") auto
  then have "Lookup (ex_ckey ''a'') 99 h = (fst (Lookup (ex_ckey ''a'') 99 h), Some (ex_entry 60))"
    by (metis prod.collapse)
  from Lookup_serves_last_put [OF h(1) this] show ?thesis by simp
qed

theorem Put_stores_and_evicts_lru_witness:
  "\<exists>h h'. exec_ops ex_ops (newHostCache 120) = Some h \<and> Put (ex_ckey ''d'') (ex_entry 110) h = Some h' \<and>
     snd (Lookup (ex_ckey ''d'') 99 h') = Some (ex_entry 110)"
proof -
  obtain h where h: "exec_ops ex_ops (newHostCache 120) = Some h" using exec_ops_new by blast
  from Put_stores_and_evicts_lru [OF h, of "ex_entry 110" "ex_ckey ''d''"] obtain h' where
    "Put (ex_ckey ''d'') (ex_entry 110) h = Some h'" "\<forall>now < e_ExpiresAt (ex_entry 110). snd (Lookup (ex_ckey ''d'') now h') = Some (ex_entry 110)"
    by (auto simp: ex_entry_def)
  with h show ?thesis by (auto simp: ex_entry_def)
qed

end
