(* ===== verification/Netip.thy ===== *)
theory Netip
  imports Go_Base "HOL-Library.Word"
begin

text \<open>
  IP addresses as Go's \<^verbatim>\<open>net/netip\<close> and \<^verbatim>\<open>net\<close> packages read and compare them: \<^verbatim>\<open>ParseAddr\<close>, \<^verbatim>\<open>ParsePrefix\<close>,
  \<^verbatim>\<open>Prefix.Contains\<close>, \<^verbatim>\<open>Addr.Unmap\<close>, printing, and on top of them \<^verbatim>\<open>net.ParseIP\<close>, \<^verbatim>\<open>net.ParseCIDR\<close>,
  \<^verbatim>\<open>net.SplitHostPort\<close> and \<^verbatim>\<open>net.JoinHostPort\<close>. Errors are \<^const>\<open>None\<close>.
\<close>

unbundle bit_operations_syntax

datatype addr = Addr4 "32 word" | Addr6 "128 word" string

section \<open>Parsing addresses\<close>

definition octet :: "string \<Rightarrow> 8 word option" where
  "octet s =
     (if s \<noteq> [] \<and> list_all is_digit s \<and> (length s = 1 \<or> hd s \<noteq> CHR ''0'') \<and> length s \<le> 3 \<and> decimal s \<le> 255
      then Some (of_nat (decimal s)) else None)"

text \<open>\<^verbatim>\<open>parseIPv4Fields\<close>: four decimal octets without leading zeros.\<close>

definition parse_ipv4 :: "string \<Rightarrow> 8 word list option" where
  "parse_ipv4 s =
     (case map octet (split s (CHR ''.'')) of
        [Some a, Some b, Some c, Some d] \<Rightarrow> Some [a, b, c, d]
      | _ \<Rightarrow> None)"

definition hex_digit :: "char \<Rightarrow> nat option" where
  "hex_digit c =
     (if is_digit c then Some (digit_val c)
      else if 97 \<le> byte c \<and> byte c \<le> 102 then Some (byte c - 87)
      else if 65 \<le> byte c \<and> byte c \<le> 70 then Some (byte c - 55)
      else None)"

definition hex_value :: "string \<Rightarrow> 16 word" where
  "hex_value s = foldl (\<lambda>w c. push_bit 4 w OR of_nat (case hex_digit c of Some d \<Rightarrow> d | None \<Rightarrow> 0)) 0 s"

text \<open>
  The loop of \<^verbatim>\<open>parseIPv6\<close>: \<open>ell\<close> is the position of the ellipsis, \<open>ip\<close> the bytes so far, \<open>s\<close> the text
  left. It yields the position, the bytes and the unread text.
\<close>

function parse6_loop :: "nat option \<Rightarrow> 8 word list \<Rightarrow> string \<Rightarrow> (nat option \<times> 8 word list \<times> string) option" where
  "parse6_loop ell ip s =
     (if length ip \<ge> 16 then Some (ell, ip, s)
      else
        let grp = takeWhile (\<lambda>c. hex_digit c \<noteq> None) s; rest = dropWhile (\<lambda>c. hex_digit c \<noteq> None) s
        in if grp = [] \<or> length grp > 4 then None
           else if has_prefix rest ''.'' then
             (if ell = None \<and> length ip \<noteq> 12 \<or> length ip + 4 > 16 then None
              else case parse_ipv4 s of None \<Rightarrow> None | Some v4 \<Rightarrow> Some (ell, ip @ v4, []))
           else
             let ip' = ip @ [ucast (drop_bit 8 (hex_value grp)), ucast (hex_value grp)]
             in if rest = [] then Some (ell, ip', [])
                else if hd rest \<noteq> CHR '':'' \<or> length rest = 1 then None
                else if has_prefix (tl rest) '':'' then
                  (if ell \<noteq> None then None
                   else if tl (tl rest) = [] then Some (Some (length ip'), ip', [])
                   else parse6_loop (Some (length ip')) ip' (tl (tl rest)))
                else parse6_loop ell ip' (tl rest))"
  by pat_completeness auto
termination
proof (relation "measure (\<lambda>(ell, ip, s). 16 - length ip)")
qed auto

declare parse6_loop.simps [simp del]

definition word_of_bytes :: "8 word list \<Rightarrow> 'a::len word" where
  "word_of_bytes bs = foldl (\<lambda>w b. push_bit 8 w OR ucast b) 0 bs"

definition parse_ipv6 :: "string \<Rightarrow> addr option" where
  "parse_ipv6 s0 =
     (case cut s0 (CHR ''%'') of (s1, zone, found) \<Rightarrow>
        if found \<and> zone = [] then None
        else
          let lead = has_prefix s1 ''::''; s = (if lead then drop 2 s1 else s1)
          in if lead \<and> s = [] then Some (Addr6 0 zone)
             else case parse6_loop (if lead then Some 0 else None) [] s of
               None \<Rightarrow> None
             | Some (ell, ip, rest) \<Rightarrow>
                 if rest \<noteq> [] then None
                 else if length ip < 16 then
                   (case ell of
                      None \<Rightarrow> None
                    | Some e \<Rightarrow> Some (Addr6 (word_of_bytes (take e ip @ replicate (16 - length ip) 0 @ drop e ip)) zone))
                 else if ell \<noteq> None then None
                 else Some (Addr6 (word_of_bytes ip) zone))"

fun addr_kind :: "string \<Rightarrow> char option" where
  "addr_kind [] = None"
| "addr_kind (c # s) = (if c \<in> set ''.:%'' then Some c else addr_kind s)"

definition ParseAddr :: "string \<Rightarrow> addr option" where
  "ParseAddr s =
     (case addr_kind s of
        Some c \<Rightarrow>
          if c = CHR ''.'' then map_option (\<lambda>bs. Addr4 (word_of_bytes bs)) (parse_ipv4 s)
          else if c = CHR '':'' then parse_ipv6 s
          else None
      | None \<Rightarrow> None)"

fun Zone :: "addr \<Rightarrow> string" where
  "Zone (Addr4 _) = []"
| "Zone (Addr6 _ z) = z"

fun BitLen :: "addr \<Rightarrow> nat" where
  "BitLen (Addr4 _) = 32"
| "BitLen (Addr6 _ _) = 128"

text \<open>An IPv4-mapped IPv6 address becomes the IPv4 address; others stay.\<close>

fun Unmap :: "addr \<Rightarrow> addr" where
  "Unmap (Addr6 w z) = (if drop_bit 32 w = 0xFFFF then Addr4 (ucast w) else Addr6 w z)"
| "Unmap (Addr4 w) = Addr4 w"

section \<open>Prefixes\<close>

record prefix =
  px_Addr :: addr
  px_Bits :: nat

definition ParsePrefix :: "string \<Rightarrow> prefix option" where
  "ParsePrefix s =
     (case last_index_byte s (CHR ''/'') of
        None \<Rightarrow> None
      | Some i \<Rightarrow>
          (case ParseAddr (take i s) of
             None \<Rightarrow> None
           | Some ip \<Rightarrow>
               let bitsStr = drop (Suc i) s
               in if Zone ip \<noteq> [] then None
                  else if length bitsStr > 1 \<and> \<not> (49 \<le> byte (hd bitsStr) \<and> byte (hd bitsStr) \<le> 57) then None
                  else case parse_int bitsStr of
                    None \<Rightarrow> None
                  | Some bits \<Rightarrow>
                      if bits < 0 \<or> bits > int (BitLen ip) then None
                      else Some \<lparr>px_Addr = ip, px_Bits = nat bits\<rparr>))"

fun same_network :: "nat \<Rightarrow> addr \<Rightarrow> addr \<Rightarrow> bool" where
  "same_network bits (Addr4 a) (Addr4 b) = (drop_bit (32 - bits) (a XOR b) = 0)"
| "same_network bits (Addr6 a _) (Addr6 b _) = (drop_bit (128 - bits) (a XOR b) = 0)"
| "same_network bits _ _ = False"

definition Contains :: "prefix \<Rightarrow> addr \<Rightarrow> bool" where
  "Contains p ip \<longleftrightarrow> Zone ip = [] \<and> same_network (px_Bits p) (px_Addr p) ip"

fun mask_addr :: "nat \<Rightarrow> addr \<Rightarrow> addr" where
  "mask_addr bits (Addr4 a) = Addr4 (push_bit (32 - bits) (drop_bit (32 - bits) a))"
| "mask_addr bits (Addr6 a z) = Addr6 (push_bit (128 - bits) (drop_bit (128 - bits) a)) []"

definition Masked :: "prefix \<Rightarrow> prefix" where
  "Masked p = p\<lparr>px_Addr := mask_addr (px_Bits p) (px_Addr p)\<rparr>"

section \<open>Printing\<close>

definition bytes_of_word :: "nat \<Rightarrow> 'a::len word \<Rightarrow> nat list" where
  "bytes_of_word n w = map (\<lambda>i. unat (drop_bit (8 * i) w AND 0xFF)) (rev [0..<n])"

definition dotted :: "nat list \<Rightarrow> string" where
  "dotted bs = join (map itoa_nat bs) (CHR ''.'')"

definition nibble_char :: "16 word \<Rightarrow> char" where
  "nibble_char w = (let k = unat (w AND 0xF) in if k < 10 then char_of (48 + k) else char_of (87 + k))"

definition hex_group :: "16 word \<Rightarrow> string" where
  "hex_group w =
     (let ds = dropWhile (\<lambda>c. c = CHR ''0'') (map (\<lambda>i. nibble_char (drop_bit (4 * i) w)) [3, 2, 1, 0])
      in if ds = [] then ''0'' else ds)"

fun zero_run :: "16 word list \<Rightarrow> nat" where
  "zero_run (g # gs) = (if g = 0 then Suc (zero_run gs) else 0)"
| "zero_run [] = 0"

text \<open>The longest run of at least two zero groups, the first among equals: its start and length.\<close>

definition best_run :: "16 word list \<Rightarrow> nat \<times> nat" where
  "best_run gs =
     foldl (\<lambda>(s, l) i. let r = zero_run (drop i gs) in if r \<ge> 2 \<and> r > l then (i, r) else (s, l)) (0, 0) [0..<length gs]"

definition colons :: "16 word list \<Rightarrow> string" where
  "colons gs = join (map hex_group gs) (CHR '':'')"

definition v6_text :: "16 word list \<Rightarrow> string" where
  "v6_text gs =
     (case best_run gs of (s, l) \<Rightarrow>
        if l = 0 then colons gs else colons (take s gs) @ ''::'' @ colons (drop (s + l) gs))"

definition groups_of :: "128 word \<Rightarrow> 16 word list" where
  "groups_of w = map (\<lambda>i. ucast (drop_bit (16 * i) w)) [7, 6, 5, 4, 3, 2, 1, 0]"

fun Addr_String :: "addr \<Rightarrow> string" where
  "Addr_String (Addr4 w) = dotted (bytes_of_word 4 w)"
| "Addr_String (Addr6 w z) =
     (if drop_bit 32 w = 0xFFFF then ''::ffff:'' @ dotted (bytes_of_word 4 (ucast w :: 32 word))
      else v6_text (groups_of w)) @ (if z = [] then [] else CHR ''%'' # z)"

definition Prefix_String :: "prefix \<Rightarrow> string" where
  "Prefix_String p = Addr_String (px_Addr p) @ ''/'' @ itoa_nat (px_Bits p)"

section \<open>Package net\<close>

text \<open>\<^verbatim>\<open>net.ParseIP\<close> refuses zones and yields 16 bytes, an IPv4 address in mapped form. It is kept as
  the address itself here; \<open>To4\<close> is \<open>Unmap\<close> seen from IPv4.\<close>

definition ParseIP :: "string \<Rightarrow> addr option" where
  "ParseIP s = (case ParseAddr s of None \<Rightarrow> None | Some a \<Rightarrow> if Zone a \<noteq> [] then None else Some (Unmap a))"

fun is_v4 :: "addr \<Rightarrow> bool" where
  "is_v4 (Addr4 _) = True"
| "is_v4 (Addr6 _ _) = False"

text \<open>\<^verbatim>\<open>net.ParseCIDR\<close> reads the length with \<^verbatim>\<open>dtoi\<close>: digits only, and fewer than \<open>2\<^sup>2\<^sup>4\<close>. The network
  number of a mapped prefix is seen as IPv4 by \<^verbatim>\<open>IPNet.Contains\<close>, if its mask leaves it mapped.\<close>

definition ParseCIDR :: "string \<Rightarrow> prefix option" where
  "ParseCIDR s =
     (case cut s (CHR ''/'') of (a, m, found) \<Rightarrow>
        if \<not> found then None
        else case ParseAddr a of
          None \<Rightarrow> None
        | Some ip \<Rightarrow>
            if Zone ip \<noteq> [] \<or> m = [] \<or> \<not> list_all is_digit m \<or> decimal m \<ge> 16777215 \<or> decimal m > BitLen ip then None
            else Some (Masked \<lparr>px_Addr = ip, px_Bits = decimal m\<rparr>))"

definition IPNet_Contains :: "prefix \<Rightarrow> addr \<Rightarrow> bool" where
  "IPNet_Contains n ip =
     (case (px_Addr n, Unmap (px_Addr n)) of
        (Addr6 _ _, Addr4 w) \<Rightarrow> same_network (px_Bits n - 96) (Addr4 w) (Unmap ip)
      | (_, a) \<Rightarrow> same_network (px_Bits n) a (Unmap ip))"

text \<open>\<^verbatim>\<open>net.SplitHostPort\<close>.\<close>

definition SplitHostPort :: "string \<Rightarrow> (string \<times> string) option" where
  "SplitHostPort hp =
     (case last_index_byte hp (CHR '':'') of
        None \<Rightarrow> None
      | Some i \<Rightarrow>
          if has_prefix hp ''['' then
            (case index_byte hp (CHR '']'') of
               None \<Rightarrow> None
             | Some e \<Rightarrow>
                 if e + 1 \<noteq> i then None
                 else
                   let host = drop 1 (take e hp)
                   in if CHR ''['' \<in> set (drop 1 hp) \<or> CHR '']'' \<in> set (drop (Suc e) hp) then None
                      else Some (host, drop (Suc i) hp))
          else
            let host = take i hp
            in if CHR '':'' \<in> set host \<or> CHR ''['' \<in> set hp \<or> CHR '']'' \<in> set hp then None
               else Some (host, drop (Suc i) hp))"

definition JoinHostPort :: "string \<Rightarrow> string \<Rightarrow> string" where
  "JoinHostPort host port =
     (if CHR '':'' \<in> set host then ''['' @ host @ '']:'' @ port else host @ '':'' @ port)"

end
