(* ===== verification/Domain_Settings.thy ===== *)
theory Domain_Settings
  imports Netip Go_Http Domain_Errors
begin

text \<open>
  The per-host settings of \<^verbatim>\<open>internal/domain\<close> that are neither routing nor caching: modes, request
  inspection, header rules, compression, traffic limits, maintenance and error pages, usage alerts
  and the access log, each with its defaults, its canonical form and its validator.
\<close>

section \<open>Modes (mode.go)\<close>

type_synonym mode = string

definition ModeOff :: mode where "ModeOff = ''off''"
definition ModeDetect :: mode where "ModeDetect = ''detect''"
definition ModeBlock :: mode where "ModeBlock = ''block''"

definition Mode_Valid :: "mode \<Rightarrow> bool" where
  "Mode_Valid m \<longleftrightarrow> m = ModeOff \<or> m = ModeDetect \<or> m = ModeBlock"

definition Mode_Enabled :: "mode \<Rightarrow> bool" where
  "Mode_Enabled m \<longleftrightarrow> m = ModeDetect \<or> m = ModeBlock"

definition NormalizeMode :: "mode \<Rightarrow> mode" where
  "NormalizeMode m0 = (let m = to_lower (trim_space m0) in if m = [] then ModeOff else m)"

section \<open>Request inspection (guardian.go)\<close>

type_synonym guardian_rule = string

definition RulePathTraversal :: guardian_rule where "RulePathTraversal = ''path_traversal''"
definition RuleSensitiveFiles :: guardian_rule where "RuleSensitiveFiles = ''sensitive_files''"
definition RuleSQLInjection :: guardian_rule where "RuleSQLInjection = ''sql_injection''"
definition RuleShellInjection :: guardian_rule where "RuleShellInjection = ''shell_injection''"
definition RuleScannerAgents :: guardian_rule where "RuleScannerAgents = ''scanner_agents''"
definition RuleControlCharacters :: guardian_rule where "RuleControlCharacters = ''control_characters''"

definition GuardianRules :: "guardian_rule list" where
  "GuardianRules =
     [RulePathTraversal, RuleSensitiveFiles, RuleControlCharacters,
      RuleScannerAgents, RuleSQLInjection, RuleShellInjection]"

definition GuardianRule_Valid :: "guardian_rule \<Rightarrow> bool" where
  "GuardianRule_Valid r = list_ex (\<lambda>known. r = known) GuardianRules"

definition SafeByDefault :: "guardian_rule \<Rightarrow> bool" where
  "SafeByDefault r \<longleftrightarrow> \<not> (r = RuleSQLInjection \<or> r = RuleShellInjection)"

record guardian =
  g_Mode :: mode
  g_Rules :: "guardian_rule list"
  g_MaxURILength :: int

definition DefaultGuardian :: guardian where
  "DefaultGuardian =
     \<lparr>g_Mode = ModeOff, g_Rules = filter SafeByDefault GuardianRules, g_MaxURILength = 2048\<rparr>"

definition Guardian_Enabled :: "guardian \<Rightarrow> bool" where
  "Guardian_Enabled g \<longleftrightarrow> g_Mode g = ModeDetect \<or> g_Mode g = ModeBlock"

definition Guardian_Has :: "guardian \<Rightarrow> guardian_rule \<Rightarrow> bool" where
  "Guardian_Has g r = list_ex (\<lambda>enabled. enabled = r) (g_Rules g)"

text \<open>The loop the settings share: canonicalise each entry, drop empty ones and repetitions.\<close>

fun canonical_list :: "(string \<Rightarrow> string) \<Rightarrow> string list \<Rightarrow> string list \<Rightarrow> string list" where
  "canonical_list f seen [] = []"
| "canonical_list f seen (x # xs) =
     (let y = f x
      in if y = [] \<or> y \<in> set seen then canonical_list f seen xs
         else y # canonical_list f (y # seen) xs)"

lemma canonical_list_eq: "canonical_list f seen xs = dedup seen (filter (\<lambda>y. y \<noteq> []) (map f xs))"
  by (induction xs arbitrary: seen) (auto simp: Let_def)

lemma canonical_list_props: "distinct (canonical_list f seen xs)" "[] \<notin> set (canonical_list f seen xs)"
  by (auto simp: canonical_list_eq distinct_dedup set_dedup)

lemma canonical_list_idem:
  assumes "\<And>x. f (f x) = f x"
  shows "canonical_list f [] (canonical_list f [] xs) = canonical_list f [] xs"
proof -
  let ?ys = "dedup [] (filter (\<lambda>y. y \<noteq> []) (map f xs))"
  have y: "f y = y \<and> y \<noteq> []" if "y \<in> set ?ys" for y using that assms by (auto simp: set_dedup)
  then have "map f ?ys = ?ys" by (intro map_idI) blast
  moreover have "filter (\<lambda>y. y \<noteq> []) ?ys = ?ys" using y by (intro filter_True) blast
  ultimately show ?thesis unfolding canonical_list_eq by (simp only: dedup_idem)
qed

definition Guardian_Normalize :: "guardian \<Rightarrow> guardian" where
  "Guardian_Normalize g =
     g\<lparr>g_Mode := NormalizeMode (g_Mode g),
       g_MaxURILength := (if g_MaxURILength g < 0 then 0 else g_MaxURILength g),
       g_Rules := canonical_list (\<lambda>r. to_lower (trim_space r)) [] (g_Rules g)\<rparr>"

definition Guardian_Validate :: "guardian \<Rightarrow> validation_error option" where
  "Guardian_Validate g =
     (let v = v_if (\<not> Mode_Valid (g_Mode g)) ''guardian.mode'' ''must be off, detect or block'' [] [];
          v = foldl (\<lambda>v r. v_if (\<not> GuardianRule_Valid r) ''guardian.rules'' ''%q is not a known rule'' [FStr r] v)
                v (g_Rules g);
          v = v_if (Guardian_Enabled g \<and> length (g_Rules g) = 0) ''guardian.rules''
                ''choose at least one rule, or inspection can never match'' [] v;
          v = v_if (g_MaxURILength g \<noteq> 0 \<and> (g_MaxURILength g < 256 \<or> g_MaxURILength g > 65536))
                ''guardian.maxUriLength'' ''must be between 256 and 65536, or 0 to disable'' [] v
      in v_Err v)"

section \<open>Header rules (headers.go)\<close>

record header_rule =
  hr_Name :: string
  hr_Value :: string
  hr_Remove :: bool

record headers =
  hs_Request :: "header_rule list"
  hs_Response :: "header_rule list"

definition MaxHeaderRules :: nat where "MaxHeaderRules = 32"

definition protectedHeaders :: "(string \<times> string) list" where
  "protectedHeaders =
     [(''connection'', ''the proxy manages the connection''),
      (''transfer-encoding'', ''the proxy decides the framing''),
      (''content-length'', ''setting it does not change the body, it only makes the two disagree''),
      (''upgrade'', ''WebSocket upgrades are a per-host switch''),
      (''keep-alive'', ''the proxy manages the connection''),
      (''proxy-authenticate'', ''hop-by-hop, and meaningless past this proxy''),
      (''proxy-authorization'', ''hop-by-hop, and meaningless past this proxy''),
      (''te'', ''hop-by-hop''),
      (''trailer'', ''hop-by-hop''),
      (''host'', ''use \"Send the original Host header upstream\" instead'')]"

definition Headers_Empty :: "headers \<Rightarrow> bool" where
  "Headers_Empty h \<longleftrightarrow> length (hs_Request h) = 0 \<and> length (hs_Response h) = 0"

text \<open>\<^verbatim>\<open>Header.Set\<close> and \<^verbatim>\<open>Header.Del\<close> canonicalise the name they are given.\<close>

definition apply_rule :: "header \<Rightarrow> header_rule \<Rightarrow> header" where
  "apply_rule h r =
     (if hr_Remove r then Header_Del (CanonicalHeaderKey (hr_Name r)) h
      else Header_Set (CanonicalHeaderKey (hr_Name r)) (hr_Value r) h)"

definition applyRules :: "header_rule list \<Rightarrow> header \<Rightarrow> header" where
  "applyRules rules h = foldl apply_rule h rules"

definition ApplyRequest :: "headers \<Rightarrow> header \<Rightarrow> header" where
  "ApplyRequest hs h = applyRules (hs_Request hs) h"

definition ApplyResponse :: "headers \<Rightarrow> header \<Rightarrow> header" where
  "ApplyResponse hs h = applyRules (hs_Response hs) h"

fun normalizeRules :: "header_rule list \<Rightarrow> header_rule list" where
  "normalizeRules [] = []"
| "normalizeRules (r0 # rs) =
     (let r = r0\<lparr>hr_Name := CanonicalHeaderKey (trim_space (hr_Name r0)), hr_Value := trim_space (hr_Value r0)\<rparr>
      in if hr_Name r = [] then normalizeRules rs
         else (if hr_Remove r then r\<lparr>hr_Value := []\<rparr> else r) # normalizeRules rs)"

definition Headers_Normalize :: "headers \<Rightarrow> headers" where
  "Headers_Normalize h = \<lparr>hs_Request = normalizeRules (hs_Request h), hs_Response = normalizeRules (hs_Response h)\<rparr>"

definition validHeaderName :: "string \<Rightarrow> bool" where
  "validHeaderName name \<longleftrightarrow>
     list_all (\<lambda>c. is_lower c \<or> is_upper c \<or> is_digit c \<or>
        c \<in> set (''!#$%&'' @ [CHR 0x27] @ ''*+-.^_'' @ [CHR 0x60] @ ''|~'')) name \<and> name \<noteq> []"

definition validHeaderValue :: "string \<Rightarrow> bool" where
  "validHeaderValue value = list_all (\<lambda>c. \<not> (byte c < 32 \<and> byte c \<noteq> 9) \<and> byte c \<noteq> 127) value"

fun validate_rules_loop :: "string \<Rightarrow> nat \<Rightarrow> string list \<Rightarrow> validation_error \<Rightarrow> header_rule list \<Rightarrow> validation_error" where
  "validate_rules_loop pre i seen v [] = v"
| "validate_rules_loop pre i seen v (r # rs) =
     (let field = pre @ ''['' @ itoa_nat i @ '']''
      in if hr_Name r = [] then
           validate_rules_loop pre (Suc i) seen (v_Add (field @ ''.name'') ''give the header a name'' [] v) rs
         else
           let v = v_if (\<not> validHeaderName (hr_Name r)) (field @ ''.name'') ''%q is not a valid header name'' [FStr (hr_Name r)] v;
               v = (case map_of protectedHeaders (to_lower (hr_Name r)) of
                      Some why \<Rightarrow> v_Add (field @ ''.name'') ''%s cannot be set here: %s'' [FStr (hr_Name r), FStr why] v
                    | None \<Rightarrow> v);
               v = v_if (\<not> validHeaderValue (hr_Value r)) (field @ ''.value'')
                     ''must not contain control characters or line breaks'' [] v;
               v = v_if (hr_Name r \<in> set seen) (field @ ''.name'') ''duplicate rule for %s'' [FStr (hr_Name r)] v
           in validate_rules_loop pre (Suc i) (hr_Name r # seen) v rs)"

definition validateRules :: "validation_error \<Rightarrow> string \<Rightarrow> header_rule list \<Rightarrow> validation_error" where
  "validateRules v pre rules =
     validate_rules_loop pre 0 []
       (v_if (length rules > MaxHeaderRules) pre ''must be at most %d rules'' [FInt (int MaxHeaderRules)] v) rules"

definition Headers_Validate :: "validation_error \<Rightarrow> string \<Rightarrow> headers \<Rightarrow> validation_error" where
  "Headers_Validate v pre h =
     validateRules (validateRules v (pre @ ''.request'') (hs_Request h)) (pre @ ''.response'') (hs_Response h)"

section \<open>Compression (compression.go)\<close>

record compression =
  cp_Enabled :: bool
  cp_MinBytes :: int
  cp_Types :: "string list"
  cp_Level :: int

definition MinCompressionBytes :: int where "MinCompressionBytes = 64"
definition MaxCompressionBytes :: int where "MaxCompressionBytes = 10485760"
definition MaxCompressionTypes :: nat where "MaxCompressionTypes = 32"

definition DefaultCompressionTypes :: "string list" where
  "DefaultCompressionTypes =
     [''text/html'', ''text/css'', ''text/plain'', ''text/xml'',
      ''text/javascript'', ''application/javascript'', ''application/x-javascript'',
      ''application/json'', ''application/xml'', ''application/rss+xml'',
      ''image/svg+xml'', ''application/wasm'']"

definition DefaultCompression :: compression where
  "DefaultCompression =
     \<lparr>cp_Enabled = False, cp_MinBytes = 1024, cp_Types = DefaultCompressionTypes, cp_Level = 5\<rparr>"

definition Compression_Wants :: "compression \<Rightarrow> string \<Rightarrow> bool" where
  "Compression_Wants c contentType =
     (let media0 = (case index_byte contentType (CHR '';'') of Some i \<Rightarrow> take i contentType | None \<Rightarrow> contentType);
          media = to_lower (trim_space media0)
      in if media = [] then False else list_ex (\<lambda>t. t = media) (cp_Types c))"

definition media_type :: "string \<Rightarrow> string" where
  "media_type t0 =
     (let t = to_lower (trim_space t0)
      in case index_byte t (CHR '';'') of Some i \<Rightarrow> trim_space (take i t) | None \<Rightarrow> t)"

definition Compression_Normalize :: "compression \<Rightarrow> compression" where
  "Compression_Normalize c =
     c\<lparr>cp_MinBytes := (if cp_MinBytes c = 0 then 1024 else cp_MinBytes c),
       cp_Level := (if cp_Level c = 0 then 5 else cp_Level c),
       cp_Types := canonical_list media_type [] (cp_Types c)\<rparr>"

definition Compression_Validate :: "compression \<Rightarrow> validation_error option" where
  "Compression_Validate c =
     (let v = v_if (cp_MinBytes c < MinCompressionBytes \<or> cp_MinBytes c > MaxCompressionBytes) ''compression.minBytes''
                ''must be between %d and %d'' [FInt MinCompressionBytes, FInt MaxCompressionBytes] [];
          v = v_if (cp_Level c < 1 \<or> cp_Level c > 9) ''compression.level'' ''must be between 1 and 9'' [] v;
          v = v_if (length (cp_Types c) > MaxCompressionTypes) ''compression.types'' ''must be at most %d''
                [FInt (int MaxCompressionTypes)] v;
          v = foldl (\<lambda>v t. v_if (\<not> contains t ''/'' \<or> CHR 0x20 \<in> set t \<or> CHR 0x09 \<in> set t) ''compression.types''
                ''%q is not a content type'' [FStr t] v) v (cp_Types c);
          v = v_if (cp_Enabled c \<and> length (cp_Types c) = 0) ''compression.types''
                ''list at least one content type, or switch compression off'' [] v
      in v_Err v)"

section \<open>Lists of addresses (maintenance.go)\<close>

fun parse_cidrs :: "string list \<Rightarrow> string list \<Rightarrow> string list \<times> prefix list" where
  "parse_cidrs seen [] = ([], [])"
| "parse_cidrs seen (raw # rest) =
     (let entry0 = trim_space raw
      in if entry0 = [] then parse_cidrs seen rest
         else
           let entry = (if \<not> contains entry0 ''/'' then
                          (case ParseIP entry0 of
                             Some ip \<Rightarrow> if is_v4 ip then entry0 @ ''/32'' else entry0 @ ''/128''
                           | None \<Rightarrow> entry0)
                        else entry0)
           in if entry \<in> set seen then parse_cidrs seen rest
              else case parse_cidrs (entry # seen) rest of (cidrs, nets) \<Rightarrow>
                (entry # cidrs, (case ParseCIDR entry of Some n \<Rightarrow> n # nets | None \<Rightarrow> nets)))"

definition parseCIDRList :: "string list \<Rightarrow> string list \<times> prefix list" where
  "parseCIDRList xs = parse_cidrs [] xs"

definition nets_contain :: "prefix list \<Rightarrow> addr option \<Rightarrow> bool" where
  "nets_contain nets ip = (case ip of None \<Rightarrow> False | Some a \<Rightarrow> list_ex (\<lambda>n. IPNet_Contains n a) nets)"

section \<open>Traffic limits (trafficlimit.go)\<close>

record traffic_limits =
  tl_Mode :: mode
  tl_RequestsPerSecond :: int
  tl_Burst :: int
  tl_MaxConcurrent :: int
  tl_MaxBodyBytes :: int
  tl_Exempt :: "string list"
  tl_exempt :: "prefix list"

definition MaxRequestsPerSecond :: int where "MaxRequestsPerSecond = 1000000"
definition MaxBurstRequests :: int where "MaxBurstRequests = 1000000"
definition MaxConcurrentPerIP :: int where "MaxConcurrentPerIP = 100000"
definition MaxRequestBodyBytes :: int where "MaxRequestBodyBytes = 1099511627776"
definition MaxExemptEntries :: nat where "MaxExemptEntries = 64"

definition DefaultTrafficLimits :: traffic_limits where
  "DefaultTrafficLimits =
     \<lparr>tl_Mode = ModeOff, tl_RequestsPerSecond = 50, tl_Burst = 100, tl_MaxConcurrent = 40,
      tl_MaxBodyBytes = 33554432, tl_Exempt = [], tl_exempt = []\<rparr>"

definition TrafficLimits_Enabled :: "traffic_limits \<Rightarrow> bool" where
  "TrafficLimits_Enabled t = Mode_Enabled (tl_Mode t)"

definition IsExempt :: "traffic_limits \<Rightarrow> addr option \<Rightarrow> bool" where
  "IsExempt t ip = nets_contain (tl_exempt t) ip"

definition TrafficLimits_Normalize :: "traffic_limits \<Rightarrow> traffic_limits" where
  "TrafficLimits_Normalize t =
     (let rps = (if tl_RequestsPerSecond t < 0 then 0 else tl_RequestsPerSecond t)
      in t\<lparr>tl_Mode := NormalizeMode (tl_Mode t),
           tl_RequestsPerSecond := rps,
           tl_MaxConcurrent := (if tl_MaxConcurrent t < 0 then 0 else tl_MaxConcurrent t),
           tl_MaxBodyBytes := (if tl_MaxBodyBytes t < 0 then 0 else tl_MaxBodyBytes t),
           tl_Burst := (if tl_Burst t < rps then rps else tl_Burst t),
           tl_Exempt := fst (parseCIDRList (tl_Exempt t)),
           tl_exempt := snd (parseCIDRList (tl_Exempt t))\<rparr>)"

definition TrafficLimits_Validate :: "traffic_limits \<Rightarrow> validation_error option" where
  "TrafficLimits_Validate t =
     (let v = v_if (\<not> Mode_Valid (tl_Mode t)) ''trafficLimits.mode'' ''must be off, detect or block'' [] [];
          v = v_if (tl_RequestsPerSecond t > MaxRequestsPerSecond) ''trafficLimits.requestsPerSecond''
                ''must be at most %d'' [FInt MaxRequestsPerSecond] v;
          v = v_if (tl_Burst t > MaxBurstRequests) ''trafficLimits.burst'' ''must be at most %d'' [FInt MaxBurstRequests] v;
          v = v_if (tl_MaxConcurrent t > MaxConcurrentPerIP) ''trafficLimits.maxConcurrent''
                ''must be at most %d'' [FInt MaxConcurrentPerIP] v;
          v = v_if (tl_MaxBodyBytes t > MaxRequestBodyBytes) ''trafficLimits.maxBodyBytes''
                ''must be at most %d bytes'' [FInt MaxRequestBodyBytes] v;
          v = v_if (length (tl_Exempt t) > MaxExemptEntries) ''trafficLimits.exempt''
                ''must be at most %d entries'' [FInt (int MaxExemptEntries)] v;
          v = foldl (\<lambda>v entry. v_if (ParseCIDR entry = None) ''trafficLimits.exempt''
                ''%q is not an address or CIDR range'' [FStr entry] v) v (tl_Exempt t);
          v = v_if (TrafficLimits_Enabled t \<and> tl_RequestsPerSecond t = 0 \<and> tl_MaxConcurrent t = 0 \<and> tl_MaxBodyBytes t = 0)
                ''trafficLimits.mode'' ''set a rate, a concurrency cap or a body size before turning limits on'' [] v
      in v_Err v)"

section \<open>Maintenance and error pages (maintenance.go)\<close>

record maintenance =
  mt_Enabled :: bool
  mt_StatusCode :: int
  mt_Title :: string
  mt_Message :: string
  mt_RetryAfterSeconds :: int
  mt_AllowFrom :: "string list"
  mt_allowFrom :: "prefix list"

record error_pages =
  ep_Enabled :: bool
  ep_Title :: string
  ep_Message :: string

definition MaxPageTitleLength :: nat where "MaxPageTitleLength = 120"
definition MaxPageMessageLength :: nat where "MaxPageMessageLength = 2000"
definition MaxAllowFromEntries :: nat where "MaxAllowFromEntries = 32"
definition MaxRetryAfterSeconds :: int where "MaxRetryAfterSeconds = 86400"

definition DefaultMaintenance :: maintenance where
  "DefaultMaintenance =
     \<lparr>mt_Enabled = False, mt_StatusCode = 503, mt_Title = ''Down for maintenance'',
      mt_Message = ''We are making some changes and will be back shortly. Thank you for your patience.'',
      mt_RetryAfterSeconds = 300, mt_AllowFrom = [], mt_allowFrom = []\<rparr>"

definition DefaultErrorPages :: error_pages where
  "DefaultErrorPages =
     \<lparr>ep_Enabled = False, ep_Title = ''This site is temporarily unavailable'',
      ep_Message = ''Something went wrong on our side. Please try again in a few moments.''\<rparr>"

definition Maintenance_Allows :: "maintenance \<Rightarrow> addr option \<Rightarrow> bool" where
  "Maintenance_Allows m ip = nets_contain (mt_allowFrom m) ip"

definition Maintenance_Normalize :: "maintenance \<Rightarrow> maintenance" where
  "Maintenance_Normalize m =
     m\<lparr>mt_Title := trim_space (mt_Title m), mt_Message := trim_space (mt_Message m),
       mt_StatusCode := (if mt_StatusCode m = 0 then 503 else mt_StatusCode m),
       mt_RetryAfterSeconds := (if mt_RetryAfterSeconds m < 0 then 0 else mt_RetryAfterSeconds m),
       mt_AllowFrom := fst (parseCIDRList (mt_AllowFrom m)),
       mt_allowFrom := snd (parseCIDRList (mt_AllowFrom m))\<rparr>"

definition Maintenance_Validate :: "maintenance \<Rightarrow> validation_error option" where
  "Maintenance_Validate m =
     (let v = v_if (mt_StatusCode m \<notin> set [200, 307, 503]) ''maintenance.statusCode'' ''must be 503, 307 or 200'' [] [];
          v = v_if (length (mt_Title m) > MaxPageTitleLength) ''maintenance.title'' ''must be at most %d characters''
                [FInt (int MaxPageTitleLength)] v;
          v = v_if (length (mt_Message m) > MaxPageMessageLength) ''maintenance.message'' ''must be at most %d characters''
                [FInt (int MaxPageMessageLength)] v;
          v = v_if (mt_RetryAfterSeconds m > MaxRetryAfterSeconds) ''maintenance.retryAfterSeconds'' ''must be at most %d''
                [FInt MaxRetryAfterSeconds] v;
          v = v_if (length (mt_AllowFrom m) > MaxAllowFromEntries) ''maintenance.allowFrom'' ''must be at most %d entries''
                [FInt (int MaxAllowFromEntries)] v;
          v = foldl (\<lambda>v entry. v_if (ParseCIDR entry = None) ''maintenance.allowFrom''
                ''%q is not an address or CIDR range'' [FStr entry] v) v (mt_AllowFrom m);
          v = v_if (mt_Enabled m \<and> mt_Title m = []) ''maintenance.title''
                ''give the page a heading before switching it on'' [] v
      in v_Err v)"

definition ErrorPages_Normalize :: "error_pages \<Rightarrow> error_pages" where
  "ErrorPages_Normalize e = e\<lparr>ep_Title := trim_space (ep_Title e), ep_Message := trim_space (ep_Message e)\<rparr>"

definition ErrorPages_Validate :: "error_pages \<Rightarrow> validation_error option" where
  "ErrorPages_Validate e =
     (let v = v_if (length (ep_Title e) > MaxPageTitleLength) ''errorPages.title'' ''must be at most %d characters''
                [FInt (int MaxPageTitleLength)] [];
          v = v_if (length (ep_Message e) > MaxPageMessageLength) ''errorPages.message'' ''must be at most %d characters''
                [FInt (int MaxPageMessageLength)] v;
          v = v_if (ep_Enabled e \<and> ep_Title e = []) ''errorPages.title''
                ''give the page a heading before switching it on'' [] v
      in v_Err v)"

section \<open>Usage alerts (usage\_alert.go)\<close>

record usage_alert =
  ua_Enabled :: bool
  ua_Bytes :: int
  ua_PeriodDays :: int

definition MinUsagePeriodDays :: int where "MinUsagePeriodDays = 1"
definition MaxUsagePeriodDays :: int where "MaxUsagePeriodDays = 90"
definition MinUsageBytes :: int where "MinUsageBytes = 1048576"

definition DefaultUsageAlert :: usage_alert where
  "DefaultUsageAlert = \<lparr>ua_Enabled = False, ua_Bytes = 107374182400, ua_PeriodDays = 30\<rparr>"

definition UsageAlert_Normalize :: "usage_alert \<Rightarrow> usage_alert" where
  "UsageAlert_Normalize u =
     u\<lparr>ua_PeriodDays := (if ua_PeriodDays u = 0 then 30 else ua_PeriodDays u),
       ua_Bytes := (if ua_Bytes u < 0 then 0 else ua_Bytes u)\<rparr>"

definition UsageAlert_Validate :: "usage_alert \<Rightarrow> validation_error option" where
  "UsageAlert_Validate u =
     (let v = v_if (ua_PeriodDays u < MinUsagePeriodDays \<or> ua_PeriodDays u > MaxUsagePeriodDays) ''usageAlert.periodDays''
                ''must be between %d and %d'' [FInt MinUsagePeriodDays, FInt MaxUsagePeriodDays] [];
          v = v_if (ua_Enabled u \<and> ua_Bytes u < MinUsageBytes) ''usageAlert.bytes'' ''must be at least %d bytes''
                [FInt MinUsageBytes] v
      in v_Err v)"

section \<open>The access log (accesslog.go)\<close>

record access_log_settings =
  ls_Enabled :: bool
  ls_IncludeQuery :: bool

record access_log_entry =
  le_ID :: int
  le_Timestamp :: time
  le_HostID :: int
  le_Method :: string
  le_Path :: string
  le_Status :: int
  le_DurationMS :: int
  le_BytesOut :: int
  le_ClientIP :: string
  le_Upstream :: string
  le_UserAgent :: string
  le_Error :: string

definition maxLoggedField :: nat where "maxLoggedField = 512"

definition isUTF8Start :: "char \<Rightarrow> bool" where
  "isUTF8Start c \<longleftrightarrow> \<not> (128 \<le> byte c \<and> byte c < 192)"

fun cut_back :: "string \<Rightarrow> nat \<Rightarrow> nat" where
  "cut_back s 0 = 0"
| "cut_back s (Suc n) = (if \<not> isUTF8Start (s ! Suc n) then cut_back s n else Suc n)"

text \<open>The ellipsis is the three bytes of U+2026.\<close>

definition clamp :: "string \<Rightarrow> nat \<Rightarrow> string" where
  "clamp s mx = (if length s \<le> mx then s else take (cut_back s mx) s @ [CHR 0xE2, CHR 0x80, CHR 0xA6])"

definition Truncate :: "access_log_entry \<Rightarrow> access_log_entry" where
  "Truncate e =
     e\<lparr>le_Path := clamp (le_Path e) maxLoggedField, le_UserAgent := clamp (le_UserAgent e) maxLoggedField,
       le_Error := clamp (le_Error e) maxLoggedField, le_ClientIP := clamp (le_ClientIP e) 64,
       le_Method := clamp (le_Method e) 16, le_Upstream := clamp (le_Upstream e) 128\<rparr>"

record access_log_query =
  lq_HostID :: int
  lq_From :: "time option"
  lq_To :: "time option"
  lq_StatusClass :: int
  lq_Search :: string
  lq_FailedOnly :: bool
  lq_Limit :: int
  lq_Offset :: int

definition DefaultAccessLogPage :: int where "DefaultAccessLogPage = 100"
definition MaxAccessLogPage :: int where "MaxAccessLogPage = 500"

text \<open>A zero \<^verbatim>\<open>time.Time\<close> is \<^const>\<open>None\<close>; \<open>now\<close> is the clock.\<close>

definition AccessLogQuery_Normalize :: "time \<Rightarrow> access_log_query \<Rightarrow> access_log_query" where
  "AccessLogQuery_Normalize now q =
     (let to = (case lq_To q of None \<Rightarrow> now | Some t \<Rightarrow> t)
      in q\<lparr>lq_Search := trim_space (lq_Search q),
           lq_Limit := (if lq_Limit q \<le> 0 \<or> lq_Limit q > MaxAccessLogPage then DefaultAccessLogPage else lq_Limit q),
           lq_Offset := (if lq_Offset q < 0 then 0 else lq_Offset q),
           lq_StatusClass := (if lq_StatusClass q \<noteq> 0 \<and> (lq_StatusClass q < 2 \<or> lq_StatusClass q > 5) then 0
                              else lq_StatusClass q),
           lq_To := Some to,
           lq_From := (case lq_From q of None \<Rightarrow> Some (to - 24 * hour) | Some t \<Rightarrow> Some t)\<rparr>)"

section \<open>Properties\<close>

lemma lower_upper [simp]: "lower_char (upper_char c) = lower_char c"
proof (cases "is_lower c")
  case True
  then have "byte (char_of (byte c - 32)) = byte c - 32" by (intro byte_char_of) (auto simp: is_lower_def)
  moreover have "char_of (byte c) = c" by (simp add: byte_def)
  ultimately show ?thesis using True by (auto simp: upper_char_def lower_char_def is_lower_def is_upper_def)
qed (simp add: upper_char_def)

lemma to_lower_canon_from: "to_lower (canon_from up s) = to_lower s"
  by (induction up s rule: canon_from.induct) (auto simp: to_lower_def)

lemma to_lower_CanonicalHeaderKey: "to_lower (CanonicalHeaderKey s) = to_lower s"
  by (simp add: CanonicalHeaderKey_def to_lower_canon_from)

lemma validate_rules_loop_clean:
  "validate_rules_loop pre i seen v rules = [] \<longleftrightarrow>
     v = [] \<and> distinct (map hr_Name rules) \<and> set (map hr_Name rules) \<inter> set seen = {} \<and>
     (\<forall>r \<in> set rules. validHeaderName (hr_Name r) \<and> validHeaderValue (hr_Value r) \<and>
        map_of protectedHeaders (to_lower (hr_Name r)) = None)"
proof (induction rules arbitrary: i seen v)
  case (Cons r rs)
  have "validHeaderName (hr_Name r) \<Longrightarrow> hr_Name r \<noteq> []" by (simp add: validHeaderName_def)
  with Cons show ?case by (auto simp: Let_def split: option.splits)
qed simp

lemma applyRules_other:
  "\<forall>r \<in> set rules. CanonicalHeaderKey (hr_Name r) \<noteq> k \<Longrightarrow> values_of (applyRules rules h) k = values_of h k"
  unfolding applyRules_def
  by (induction rules arbitrary: h) (auto simp: apply_rule_def Header_Set_def Header_Del_def)

text \<open>Header rules that validation accepts are harmless: they never touch a header that describes
  the connection or the framing, in whatever spelling, and no value they write contains a line
  break.\<close>

theorem accepted_header_rules_safe:
  assumes ok: "Headers_Validate [] pre hs = []"
  shows "(to_lower k \<in> fst ` set protectedHeaders \<longrightarrow>
       values_of (ApplyRequest hs h) k = values_of h k \<and> values_of (ApplyResponse hs h) k = values_of h k) \<and>
    (\<forall>r \<in> set (hs_Request hs @ hs_Response hs). CHR 0x0A \<notin> set (hr_Value r) \<and> CHR 0x0D \<notin> set (hr_Value r))"
proof -
  have rules: "validHeaderName (hr_Name r) \<and> validHeaderValue (hr_Value r) \<and> map_of protectedHeaders (to_lower (hr_Name r)) = None"
    if "r \<in> set (hs_Request hs @ hs_Response hs)" for r
    using ok that by (auto simp: Headers_Validate_def validateRules_def validate_rules_loop_clean)
  have "values_of (ApplyRequest hs h) k = values_of h k \<and> values_of (ApplyResponse hs h) k = values_of h k"
    if k: "to_lower k \<in> fst ` set protectedHeaders"
  proof -
    have "CanonicalHeaderKey (hr_Name r) \<noteq> k" if "r \<in> set (hs_Request hs @ hs_Response hs)" for r
    proof
      assume "CanonicalHeaderKey (hr_Name r) = k"
      then have "to_lower k = to_lower (hr_Name r)" using to_lower_CanonicalHeaderKey [of "hr_Name r"] by simp
      with rules [OF that] k show False by (simp add: map_of_eq_None_iff)
    qed
    then show ?thesis unfolding ApplyRequest_def ApplyResponse_def by (auto intro!: applyRules_other)
  qed
  moreover have "validHeaderValue v \<Longrightarrow> CHR 0x0A \<notin> set v \<and> CHR 0x0D \<notin> set v" for v
    by (auto simp: validHeaderValue_def list_all_iff byte_def)
  ultimately show ?thesis using rules by blast
qed

theorem accepted_header_rules_safe_witness:
  "values_of (ApplyRequest \<lparr>hs_Request = [\<lparr>hr_Name = ''X-Api'', hr_Value = ''1'', hr_Remove = False\<rparr>], hs_Response = []\<rparr>
      [(''Content-Length'', [''5''])]) ''Content-Length'' = [''5'']"
proof -
  let ?hs = "\<lparr>hs_Request = [\<lparr>hr_Name = ''X-Api'', hr_Value = ''1'', hr_Remove = False\<rparr>], hs_Response = []\<rparr>"
  have "Headers_Validate [] ''headers'' ?hs = []" by code_simp
  moreover have "to_lower ''Content-Length'' \<in> fst ` set protectedHeaders" by code_simp
  ultimately have "values_of (ApplyRequest ?hs [(''Content-Length'', [''5''])]) ''Content-Length'' =
      values_of [(''Content-Length'', [''5''])] ''Content-Length''"
    using accepted_header_rules_safe by blast
  then show ?thesis by (simp add: values_of_def)
qed

lemma cut_back_le: "cut_back s n \<le> n"
  by (induction n) (auto intro: le_SucI)

text \<open>A logged field is bounded whatever the client sends: the path, the user agent and the error
  take at most 515 bytes, and what is stored is a prefix of what was sent, followed by an ellipsis
  if anything was cut, and cut on the boundary of a character.\<close>

theorem Truncate_bounds:
  "length (le_Path (Truncate e)) \<le> 515 \<and> length (le_UserAgent (Truncate e)) \<le> 515 \<and>
   length (le_Error (Truncate e)) \<le> 515 \<and> length (le_ClientIP (Truncate e)) \<le> 67 \<and>
   length (le_Method (Truncate e)) \<le> 19 \<and> length (le_Upstream (Truncate e)) \<le> 131 \<and>
   (\<exists>n. le_Path (Truncate e) = le_Path e \<or>
        le_Path (Truncate e) = take n (le_Path e) @ [CHR 0xE2, CHR 0x80, CHR 0xA6] \<and> (n = 0 \<or> isUTF8Start (le_Path e ! n)))"
proof -
  have len: "length (clamp s n) \<le> n + 3" for s n
    using cut_back_le [of s n] by (simp add: clamp_def)
  have start: "cut_back s n = 0 \<or> isUTF8Start (s ! cut_back s n)" for s n
    by (induction n) auto
  show ?thesis
    using len [of "le_Path e" 512] len [of "le_UserAgent e" 512] len [of "le_Error e" 512] len [of "le_ClientIP e" 64]
      len [of "le_Method e" 16] len [of "le_Upstream e" 128] start [of "le_Path e" 512]
    by (auto simp: Truncate_def maxLoggedField_def clamp_def [of "le_Path e"])
qed

end
