(* ===== verification/Domain_Host.thy ===== *)
theory Domain_Host
  imports Domain_Upstream Domain_Settings Domain_Cache
begin

text \<open>
  \<^verbatim>\<open>internal/domain/host.go\<close> and \<^verbatim>\<open>location.go\<close>: hosts, the path locations below them, the syntax of
  domains and upstream addresses, and the canonical form and validation of a whole host. Ranging
  over a string yields runes in Go; the validators compare them with ASCII characters only, so bytes
  give the same answer.
\<close>

section \<open>Domains and addresses\<close>

text \<open>Errors of the validators are their messages; \<^const>\<open>None\<close> is nil.\<close>

definition validateLabel :: "string \<Rightarrow> string option" where
  "validateLabel label =
     (if label = [] then Some ''contains an empty label''
      else if length label > 63 then Some ''contains a label longer than 63 characters''
      else if hd label = CHR ''-'' \<or> last label = CHR ''-'' then
        Some ''has a label starting or ending with a hyphen''
      else if \<not> list_all (\<lambda>c. is_lower c \<or> is_digit c \<or> c = CHR ''-'') label then
        Some ''contains an invalid character; use a-z, 0-9 and hyphen''
      else None)"

fun labels_loop :: "nat \<Rightarrow> nat \<Rightarrow> string list \<Rightarrow> string option" where
  "labels_loop n i [] = None"
| "labels_loop n i (label # ls) =
     (if label = ''*'' then
        (if i \<noteq> 0 then Some ''wildcard is only allowed as the leftmost label''
         else if n < 3 then Some ''wildcard must cover a registrable domain, e.g. *.example.com''
         else labels_loop n (Suc i) ls)
      else case validateLabel label of
        Some e \<Rightarrow> Some e
      | None \<Rightarrow> labels_loop n (Suc i) ls)"

definition validateDomain :: "string \<Rightarrow> string option" where
  "validateDomain d =
     (if d = [] then Some ''is empty''
      else if length d > 253 then Some ''is longer than 253 characters''
      else let labels = split d (CHR ''.'') in labels_loop (length labels) 0 labels)"

definition validateHostPort :: "string \<Rightarrow> string option" where
  "validateHostPort a =
     (if a = [] then Some ''is required''
      else case SplitHostPort a of
        None \<Rightarrow> Some ''must be host:port, e.g. 10.0.0.5:8080''
      | Some (host, port) \<Rightarrow>
          if host = [] then Some ''is missing a host''
          else case parse_int port of
            None \<Rightarrow> Some ''has an invalid port''
          | Some n \<Rightarrow>
              if n < 1 \<or> n > 65535 then Some ''has an invalid port''
              else if ParseIP host \<noteq> None then None
              else validateDomain host)"

section \<open>Upstreams\<close>

fun validate_upstreams :: "string \<Rightarrow> nat \<Rightarrow> string list \<Rightarrow> validation_error \<Rightarrow> upstream list \<Rightarrow> validation_error" where
  "validate_upstreams pre i seen v [] = v"
| "validate_upstreams pre i seen v (u # us) =
     (let field = pre @ ''['' @ itoa_nat i @ '']'';
          v = v_if (u_Scheme u \<noteq> ''http'' \<and> u_Scheme u \<noteq> ''https'') (field @ ''.scheme'') ''must be http or https'' [] v;
          v = (case validateHostPort (u_Address u) of
                 Some e \<Rightarrow> v_Add (field @ ''.address'') ''%s'' [FStr e] v | None \<Rightarrow> v);
          v = v_if (u_Weight u < 1 \<or> u_Weight u > 1000) (field @ ''.weight'') ''must be between 1 and 1000'' [] v;
          k = u_Scheme u @ ''://'' @ u_Address u;
          v = v_if (k \<in> set seen) (field @ ''.address'') ''duplicate upstream %s'' [FStr k] v
      in validate_upstreams pre (Suc i) (k # seen) v us)"

definition ValidateUpstreams :: "validation_error \<Rightarrow> string \<Rightarrow> upstream list \<Rightarrow> validation_error" where
  "ValidateUpstreams v pre ups = validate_upstreams pre 0 [] v ups"

section \<open>Locations (location.go)\<close>

record location =
  lc_ID :: int
  lc_HostID :: int
  lc_Path :: string
  lc_StripPrefix :: bool
  lc_Upstreams :: "upstream list"
  lc_Headers :: headers
  lc_Position :: nat

definition MaxLocationsPerHost :: nat where "MaxLocationsPerHost = 32"

definition Location_Matches :: "location \<Rightarrow> string \<Rightarrow> bool" where
  "Location_Matches l path =
     (if lc_Path l = ''/'' then True
      else if \<not> has_prefix path (lc_Path l) then False
      else let rest = drop (length (lc_Path l)) path in rest = [] \<or> has_prefix rest ''/'')"

definition Location_Forward :: "location \<Rightarrow> string \<Rightarrow> string" where
  "Location_Forward l path =
     (if \<not> lc_StripPrefix l \<or> lc_Path l = ''/'' then path
      else let stripped = trim_prefix path (lc_Path l) in if stripped = [] then ''/'' else stripped)"

function trim_slashes :: "string \<Rightarrow> string" where
  "trim_slashes p = (if length p > 1 \<and> has_suffix p ''/'' then trim_slashes (take (length p - 1) p) else p)"
  by pat_completeness auto
termination by (relation "measure length") auto

declare trim_slashes.simps [simp del]

definition normalize_path :: "string \<Rightarrow> string" where
  "normalize_path p0 =
     (let p = trim_space p0;
          p = (if p = [] then ''/'' else p);
          p = (if \<not> has_prefix p ''/'' then ''/'' @ p else p)
      in trim_slashes p)"

definition Location_Normalize :: "location \<Rightarrow> location" where
  "Location_Normalize l =
     l\<lparr>lc_Path := normalize_path (lc_Path l), lc_Upstreams := NormalizeUpstreams (lc_Upstreams l),
       lc_Headers := Headers_Normalize (lc_Headers l)\<rparr>"

definition Location_Validate :: "location \<Rightarrow> nat \<Rightarrow> validation_error option" where
  "Location_Validate l index =
     (let base = ''locations['' @ itoa_nat index @ '']'';
          v = v_if (\<not> has_prefix (lc_Path l) ''/'') (base @ ''.path'') ''must start with /'' [] [];
          v = v_if (list_ex (\<lambda>c. c \<in> {CHR 0x20, CHR 0x09, CHR 0x0D, CHR 0x0A}) (lc_Path l)) (base @ ''.path'')
                ''must not contain spaces'' [] v;
          v = v_if (contains (lc_Path l) ''//'') (base @ ''.path'') ''must not contain an empty segment'' [] v;
          v = v_if (lc_Path l = ''/'') (base @ ''.path'')
                ''use the host's own upstreams for \"/\" rather than a location'' [] v;
          v = v_if (length (lc_Upstreams l) = 0) (base @ ''.upstreams'')
                ''add at least one upstream, or remove the location'' [] v;
          v = ValidateUpstreams v (base @ ''.upstreams'') (lc_Upstreams l);
          v = Headers_Validate v (base @ ''.headers'') (lc_Headers l)
      in v_Err v)"

section \<open>Hosts\<close>

record host =
  h_ID :: int
  h_Name :: string
  h_Enabled :: bool
  h_Domains :: "string list"
  h_Algorithm :: Algorithm
  h_Upstreams :: "upstream list"
  h_CertificateID :: "int option"
  h_AccessListID :: "int option"
  h_ForceHTTPS :: bool
  h_HSTSMaxAge :: int
  h_WebSocketSupport :: bool
  h_PreserveHost :: bool
  h_HealthCheck :: health_check
  h_PassiveHealth :: passive_health
  h_AccessLog :: access_log_settings
  h_Guardian :: guardian
  h_Cache :: cache_cfg
  h_TrafficLimits :: traffic_limits
  h_Maintenance :: maintenance
  h_ErrorPages :: error_pages
  h_UsageAlert :: usage_alert
  h_Locations :: "location list"
  h_Headers :: headers
  h_Compression :: compression

definition norm_domain :: "string \<Rightarrow> string" where
  "norm_domain d = trim_suffix (to_lower (trim_space d)) ''.''"

definition norm_health :: "health_check \<Rightarrow> health_check" where
  "norm_health hc =
     (let path = (if hc_Path hc = [] then ''/'' else hc_Path hc);
          path = (if \<not> has_prefix path ''/'' then ''/'' @ path else path);
          interval = (if hc_Interval hc \<le> 0 then 10 * second else hc_Interval hc);
          tmo = (if hc_Timeout hc \<le> 0 \<or> hc_Timeout hc > interval then min (5 * second) interval else hc_Timeout hc)
      in hc\<lparr>hc_Path := path, hc_Interval := interval, hc_Timeout := tmo,
            hc_HealthyThreshold := (if hc_HealthyThreshold hc \<le> 0 then 2 else hc_HealthyThreshold hc),
            hc_UnhealthyThreshold := (if hc_UnhealthyThreshold hc \<le> 0 then 3 else hc_UnhealthyThreshold hc)\<rparr>)"

definition norm_passive :: "passive_health \<Rightarrow> passive_health" where
  "norm_passive ph =
     ph\<lparr>ph_MaxFails := (if ph_MaxFails ph \<le> 0 then 3 else ph_MaxFails ph),
        ph_EjectFor := (if ph_EjectFor ph \<le> 0 then 30 * second else ph_EjectFor ph)\<rparr>"

text \<open>\<^verbatim>\<open>sort.SliceStable\<close> by descending path length: a stable sort on the negated length.\<close>

definition by_path_length :: "location list \<Rightarrow> location list" where
  "by_path_length ls = sort_key (\<lambda>l. - int (length (lc_Path l))) ls"

definition norm_locations :: "location list \<Rightarrow> location list" where
  "norm_locations ls =
     by_path_length (map (\<lambda>(i, l). (Location_Normalize l)\<lparr>lc_Position := i\<rparr>) (enumerate 0 ls))"

definition Host_Normalize :: "host \<Rightarrow> host" where
  "Host_Normalize h =
     h\<lparr>h_Name := trim_space (h_Name h),
       h_Algorithm := (if h_Algorithm h = [] then RoundRobin else h_Algorithm h),
       h_Domains := canonical_list norm_domain [] (h_Domains h),
       h_Upstreams := NormalizeUpstreams (h_Upstreams h),
       h_HealthCheck := norm_health (h_HealthCheck h),
       h_Guardian := Guardian_Normalize (h_Guardian h),
       h_Cache := Cache_Normalize (h_Cache h),
       h_TrafficLimits := TrafficLimits_Normalize (h_TrafficLimits h),
       h_Maintenance := Maintenance_Normalize (h_Maintenance h),
       h_ErrorPages := ErrorPages_Normalize (h_ErrorPages h),
       h_UsageAlert := UsageAlert_Normalize (h_UsageAlert h),
       h_Headers := Headers_Normalize (h_Headers h),
       h_Compression := Compression_Normalize (h_Compression h),
       h_Locations := norm_locations (h_Locations h),
       h_PassiveHealth := norm_passive (h_PassiveHealth h)\<rparr>"

definition fields_of :: "validation_error option \<Rightarrow> validation_error" where
  "fields_of e = (case e of None \<Rightarrow> [] | Some v \<Rightarrow> v)"

fun validate_domains :: "nat \<Rightarrow> validation_error \<Rightarrow> string list \<Rightarrow> validation_error" where
  "validate_domains i v [] = v"
| "validate_domains i v (d # ds) =
     validate_domains (Suc i)
       (case validateDomain d of
          Some e \<Rightarrow> v_Add (''domains['' @ itoa_nat i @ '']'') ''%s'' [FStr e] v | None \<Rightarrow> v) ds"

fun validate_locations :: "nat \<Rightarrow> string list \<Rightarrow> validation_error \<Rightarrow> location list \<Rightarrow> validation_error" where
  "validate_locations i seen v [] = v"
| "validate_locations i seen v (l # ls) =
     (let v = v @ fields_of (Location_Validate l i);
          v = v_if (lc_Path l \<in> set seen) (''locations['' @ itoa_nat i @ ''].path'') ''duplicate path %q'' [FStr (lc_Path l)] v
      in validate_locations (Suc i) (lc_Path l # seen) v ls)"

text \<open>The result \<^const>\<open>None\<close> is a run-time panic, which only the cache validator can raise.\<close>

definition Host_Validate :: "host \<Rightarrow> validation_error option option" where
  "Host_Validate h =
     (let v = (if h_Name h = [] then v_Add ''name'' ''is required'' [] []
               else v_if (length (h_Name h) > 100) ''name'' ''must be at most 100 characters'' [] []);
          v = v_if (length (h_Domains h) = 0) ''domains'' ''at least one domain is required'' [] v;
          v = validate_domains 0 v (h_Domains h);
          v = v_if (\<not> Algorithm_Valid (h_Algorithm h)) ''algorithm'' ''%q is not a supported algorithm''
                [FStr (h_Algorithm h)] v;
          v = v_if (length (h_Upstreams h) = 0) ''upstreams'' ''at least one upstream is required'' [] v;
          v = ValidateUpstreams v ''upstreams'' (h_Upstreams h);
          v = v_if (h_HSTSMaxAge h < 0) ''hstsMaxAge'' ''must not be negative'' [] v;
          v = v_if (h_HSTSMaxAge h > 0 \<and> h_CertificateID h = None) ''hstsMaxAge''
                ''requires a certificate, since HSTS only applies to TLS responses'' [] v;
          v = v_if (h_ForceHTTPS h \<and> h_CertificateID h = None) ''forceHttps'' ''requires a certificate'' [] v;
          hc = h_HealthCheck h;
          v = v_if (hc_ExpectStatus hc \<noteq> 0 \<and> (hc_ExpectStatus hc < 100 \<or> hc_ExpectStatus hc > 599)) ''healthCheck.expectStatus''
                ''must be a valid HTTP status, or 0 to accept any 2xx/3xx'' [] v;
          v = v @ fields_of (Guardian_Validate (h_Guardian h))
      in case Cache_Validate (h_Cache h) of
           None \<Rightarrow> None
         | Some ce \<Rightarrow>
             let v = v @ fields_of ce;
                 v = v @ fields_of (TrafficLimits_Validate (h_TrafficLimits h));
                 v = v @ fields_of (Maintenance_Validate (h_Maintenance h));
                 v = v @ fields_of (ErrorPages_Validate (h_ErrorPages h));
                 v = v @ fields_of (UsageAlert_Validate (h_UsageAlert h));
                 v = Headers_Validate v ''headers'' (h_Headers h);
                 v = v @ fields_of (Compression_Validate (h_Compression h));
                 v = v_if (length (h_Locations h) > MaxLocationsPerHost) ''locations'' ''must be at most %d''
                       [FInt (int MaxLocationsPerHost)] v;
                 v = validate_locations 0 [] v (h_Locations h);
                 ph = h_PassiveHealth h;
                 v = v_if (ph_MaxFails ph < 1 \<or> ph_MaxFails ph > 100) ''passiveHealth.maxFails''
                       ''must be between 1 and 100'' [] v;
                 v = v_if (ph_EjectFor ph < second \<or> ph_EjectFor ph > hour) ''passiveHealth.ejectFor''
                       ''must be between 1 second and 1 hour'' [] v
             in Some (v_Err v))"

definition EnabledUpstreams :: "host \<Rightarrow> upstream list" where
  "EnabledUpstreams h = filter u_Enabled (h_Upstreams h)"

section \<open>Accepted domains are canonical\<close>

lemma trim_space_plain:
  assumes "\<And>c. c \<in> set s \<Longrightarrow> 33 \<le> byte c \<and> byte c < 128"
  shows "trim_space s = s"
proof -
  have ends: "\<forall>w \<in> set space_encodings. w \<noteq> [] \<and> \<not> (33 \<le> byte (hd w) \<and> byte (hd w) < 128) \<and> \<not> (33 \<le> byte (last w) \<and> byte (last w) < 128)"
    by code_simp
  have "\<not> has_prefix s w" if "w \<in> set space_encodings" for w
  proof
    assume "has_prefix s w"
    moreover have "w \<noteq> []" using ends that by blast
    ultimately have "hd w \<in> set s" by (cases w) (auto simp: has_prefix_iff)
    with assms ends that show False by blast
  qed
  moreover have "\<not> has_prefix (rev s) w" if "w \<in> set (map rev space_encodings)" for w
  proof
    assume "has_prefix (rev s) w"
    from that obtain u where u: "u \<in> set space_encodings" "w = rev u" by auto
    with ends have "w \<noteq> []" by auto
    with \<open>has_prefix (rev s) w\<close> have "hd w \<in> set (rev s)" by (cases w) (auto simp: has_prefix_iff)
    then have "last u \<in> set s" using u by (simp add: hd_rev)
    with assms ends u show False by blast
  qed
  ultimately show ?thesis
    by (simp add: trim_space_def trim_left_space_def trim_right_space_def strip_words_fix)
qed

lemma split_snoc: "split (s @ [c]) c = split s c @ [[]]"
  by (induction s) (auto split: list.splits)

lemma set_split: "x \<in> set s \<Longrightarrow> x = c \<or> (\<exists>p \<in> set (split s c). x \<in> set p)"
  by (induction s) (auto split: list.splits if_splits)

definition domain_char :: "char \<Rightarrow> bool" where
  "domain_char c \<longleftrightarrow> is_lower c \<or> is_digit c \<or> c \<in> {CHR ''-'', CHR ''.'', CHR ''*''}"

lemma labels_loop_None: "labels_loop n i ls = None \<Longrightarrow> l \<in> set ls \<Longrightarrow> l = ''*'' \<or> validateLabel l = None"
  by (induction n i ls rule: labels_loop.induct) (auto split: if_splits option.splits)

lemma accepted_domain:
  assumes "validateDomain d = None"
  shows "\<forall>c \<in> set d. domain_char c" "[] \<notin> set (split d (CHR ''.''))" "d \<noteq> []"
proof -
  from assms have l: "l = ''*'' \<or> validateLabel l = None" if "l \<in> set (split d (CHR ''.''))" for l
    using that by (auto simp: validateDomain_def Let_def split: if_splits dest: labels_loop_None)
  show "\<forall>c \<in> set d. domain_char c"
  proof
    fix c assume "c \<in> set d"
    from set_split [OF this, of "CHR ''.''"] show "domain_char c"
    proof
      assume "\<exists>p \<in> set (split d (CHR ''.'')). c \<in> set p"
      then obtain p where "p \<in> set (split d (CHR ''.''))" "c \<in> set p" by blast
      with l [of p] show ?thesis
        by (auto simp: domain_char_def validateLabel_def list_all_iff split: if_splits)
    qed (simp add: domain_char_def)
  qed
  show "[] \<notin> set (split d (CHR ''.''))" using l [of "[]"] by (auto simp: validateLabel_def)
  show "d \<noteq> []" using assms by (auto simp: validateDomain_def)
qed

lemma domain_char_plain: "domain_char c \<Longrightarrow> 33 \<le> byte c \<and> byte c < 128 \<and> lower_char c = c"
  by (auto simp: domain_char_def is_lower_def is_digit_def lower_char_def is_upper_def byte_def)

lemma accepted_domain_fixed:
  assumes "validateDomain d = None"
  shows "norm_domain d = d"
proof -
  note a = accepted_domain [OF assms]
  have "trim_space d = d" using a(1) domain_char_plain by (intro trim_space_plain) blast
  moreover have "to_lower d = d" using a(1) domain_char_plain unfolding to_lower_def by (intro map_idI) blast
  moreover have "\<not> has_suffix d ''.''"
    using a(2) split_snoc [of _ "CHR ''.''"] by (auto simp: has_suffix_iff)
  ultimately show ?thesis by (simp add: norm_domain_def trim_suffix_other)
qed

text \<open>An accepted host is canonical: the domains of a normalised host are distinct and not empty,
  and if validation accepts them, every one is in exactly the form request routing compares with
  (lower case, no surrounding white space, no trailing dot) and normalising again leaves them
  alone.\<close>

theorem accepted_domains_canonical:
  "distinct (h_Domains (Host_Normalize h)) \<and> [] \<notin> set (h_Domains (Host_Normalize h)) \<and>
   ((\<forall>d \<in> set (h_Domains (Host_Normalize h)). validateDomain d = None) \<longrightarrow>
      (\<forall>d \<in> set (h_Domains (Host_Normalize h)). trim_suffix (to_lower (trim_space d)) ''.'' = d) \<and>
      h_Domains (Host_Normalize (Host_Normalize h)) = h_Domains (Host_Normalize h))"
proof -
  let ?ds = "canonical_list norm_domain [] (h_Domains h)"
  have "(\<forall>d \<in> set ?ds. norm_domain d = d) \<and> canonical_list norm_domain [] ?ds = ?ds"
    if ok: "\<forall>d \<in> set ?ds. validateDomain d = None"
  proof
    show fx: "\<forall>d \<in> set ?ds. norm_domain d = d" using ok accepted_domain_fixed by blast
    then have "map norm_domain ?ds = ?ds" by (intro map_idI) blast
    moreover have "filter (\<lambda>y. y \<noteq> []) ?ds = ?ds" using canonical_list_props by (intro filter_True) blast
    ultimately show "canonical_list norm_domain [] ?ds = ?ds"
      using canonical_list_props by (subst canonical_list_eq) (simp add: dedup_distinct)
  qed
  then show ?thesis
    using canonical_list_props by (simp add: Host_Normalize_def norm_domain_def)
qed

definition ex_host :: "string list \<Rightarrow> host" where
  "ex_host ds =
     \<lparr>h_ID = 1, h_Name = ''site'', h_Enabled = True, h_Domains = ds, h_Algorithm = RoundRobin,
      h_Upstreams = [\<lparr>u_ID = 1, u_HostID = 1, u_Scheme = ''http'', u_Address = ''10.0.0.5:8080'', u_Weight = 1,
        u_MaxConns = 0, u_Enabled = True, u_SkipTLSVerify = False\<rparr>],
      h_CertificateID = None, h_AccessListID = None, h_ForceHTTPS = False, h_HSTSMaxAge = 0,
      h_WebSocketSupport = False, h_PreserveHost = False, h_HealthCheck = DefaultHealthCheck,
      h_PassiveHealth = DefaultPassiveHealth, h_AccessLog = \<lparr>ls_Enabled = False, ls_IncludeQuery = False\<rparr>,
      h_Guardian = DefaultGuardian, h_Cache = DefaultCache, h_TrafficLimits = DefaultTrafficLimits,
      h_Maintenance = DefaultMaintenance, h_ErrorPages = DefaultErrorPages, h_UsageAlert = DefaultUsageAlert,
      h_Locations = [], h_Headers = \<lparr>hs_Request = [], hs_Response = []\<rparr>, h_Compression = DefaultCompression\<rparr>"

lemma ex_domains: "canonical_list norm_domain [] ['' Example.COM.'', ''*.example.com''] = [''example.com'', ''*.example.com'']"
  by code_simp

lemma ex_domains_valid: "validateDomain ''example.com'' = None" "validateDomain ''*.example.com'' = None"
  by code_simp+

theorem accepted_domains_canonical_witness:
  "h_Domains (Host_Normalize (Host_Normalize (ex_host ['' Example.COM.'', ''*.example.com'']))) = [''example.com'', ''*.example.com'']"
  using accepted_domains_canonical [of "ex_host ['' Example.COM.'', ''*.example.com'']"] ex_domains_valid
  by (simp add: Host_Normalize_def ex_host_def ex_domains del: canonical_list.simps)

text \<open>Normalising is not idempotent in general: a second pass may change what the first one
  produced, for instance on a domain typed with two trailing dots.\<close>

theorem Host_Normalize_not_idempotent:
  "h_Domains (Host_Normalize (Host_Normalize (ex_host [''example.com..'']))) \<noteq> h_Domains (Host_Normalize (ex_host [''example.com..'']))"
proof -
  have "canonical_list norm_domain [] [''example.com..''] = [''example.com.'']"
    "canonical_list norm_domain [] [''example.com.''] = [''example.com'']" by code_simp+
  then show ?thesis by (simp add: Host_Normalize_def ex_host_def del: canonical_list.simps)
qed

section \<open>Locations claim whole segments\<close>

lemma trim_slashes_result: "trim_slashes p = p' \<Longrightarrow> has_prefix p ''/'' \<Longrightarrow> has_prefix p' ''/'' \<and> (p' = ''/'' \<or> \<not> has_suffix p' ''/'')"
proof (induction p rule: trim_slashes.induct)
  case (1 p)
  show ?case
  proof (cases "length p > 1 \<and> has_suffix p ''/''")
    case True
    then have "has_prefix (take (length p - 1) p) ''/''" using "1.prems"(2) by (cases p) (auto simp: has_prefix_def take_Cons')
    moreover have "trim_slashes (take (length p - 1) p) = p'" using True "1.prems"(1) trim_slashes.simps [of p] by simp
    ultimately show ?thesis using 1(1) True by blast
  next
    case False
    then have "p' = p" using "1.prems"(1) trim_slashes.simps [of p] by auto
    moreover have "p = ''/''" if "length p \<le> 1" using that "1.prems"(2) by (cases p) (auto simp: has_prefix_def)
    ultimately show ?thesis using False "1.prems"(2) by fastforce
  qed
qed

lemma normalize_path_shape: "has_prefix (normalize_path p) ''/'' \<and> (normalize_path p = ''/'' \<or> \<not> has_suffix (normalize_path p) ''/'')"
  unfolding normalize_path_def Let_def by (rule trim_slashes_result [OF refl]) (auto simp: has_prefix_def)

text \<open>A location claims its path and everything below it, segment by segment, and nothing else:
  the path \<^verbatim>\<open>/api\<close> claims \<^verbatim>\<open>/api\<close> and \<^verbatim>\<open>/api/v1\<close> but never \<^verbatim>\<open>/apiary\<close>. With the prefix stripped, what is
  sent upstream starts with a slash and is exactly what follows the location's path.\<close>

theorem Location_claims_segments:
  "let n = Location_Normalize l
   in (Location_Matches n path \<longleftrightarrow> lc_Path n = ''/'' \<or> path = lc_Path n \<or> (\<exists>rest. path = lc_Path n @ ''/'' @ rest)) \<and>
      (Location_Matches n path \<and> lc_StripPrefix n \<and> lc_Path n \<noteq> ''/'' \<longrightarrow>
         has_prefix (Location_Forward n path) ''/'' \<and>
         (path = lc_Path n \<and> Location_Forward n path = ''/'' \<or> path = lc_Path n @ Location_Forward n path))"
proof -
  have m: "Location_Matches n path \<longleftrightarrow> lc_Path n = ''/'' \<or> path = lc_Path n \<or> (\<exists>rest. path = lc_Path n @ ''/'' @ rest)" for n
    by (auto simp: Location_Matches_def Let_def has_prefix_iff)
  show ?thesis
    unfolding Let_def m by (auto simp: Location_Forward_def trim_prefix_def Let_def has_prefix_def)
qed

definition ex_location :: "string \<Rightarrow> location" where
  "ex_location p =
     \<lparr>lc_ID = 1, lc_HostID = 1, lc_Path = p, lc_StripPrefix = True, lc_Upstreams = [],
      lc_Headers = \<lparr>hs_Request = [], hs_Response = []\<rparr>, lc_Position = 0\<rparr>"

lemma ex_location_path: "lc_Path (Location_Normalize (ex_location '' api/'')) = ''/api''"
  by code_simp

theorem Location_claims_segments_witness:
  "\<not> Location_Matches (Location_Normalize (ex_location '' api/'')) ''/apiary'' \<and>
   has_prefix (Location_Forward (Location_Normalize (ex_location '' api/'')) ''/api/v1'') ''/''"
proof -
  have "lc_StripPrefix (Location_Normalize (ex_location '' api/''))" by (simp add: Location_Normalize_def ex_location_def)
  then show ?thesis
    using Location_claims_segments [of "ex_location '' api/''" "''/apiary''"]
      Location_claims_segments [of "ex_location '' api/''" "''/api/v1''"] by (simp add: Let_def ex_location_path has_prefix_def)
qed

end
