(* ===== verification/Domain_Redirect.thy ===== *)
theory Domain_Redirect
  imports Domain_Host
begin

text \<open>
  \<^verbatim>\<open>internal/domain/redirect.go\<close>: domains answered with a redirect, and the URL a request is sent to.
  \<^verbatim>\<open>url.Parse\<close> and \<^verbatim>\<open>URL.String\<close> are the parameters \<open>parse\<close> and \<open>unparse\<close>; a parsed URL is the record of the
  parts the code reads. The one documented fact about \<open>parse\<close> a theorem needs is that the path of a URL
  with a host is empty or starts with a slash (\<open>rooted\<close>).
\<close>

record url =
  url_Scheme :: string
  url_Host :: string
  url_EscapedPath :: string
  url_RawQuery :: string
  url_Fragment :: string

record redirect =
  rd_ID :: int
  rd_Name :: string
  rd_Enabled :: bool
  rd_Domains :: "string list"
  rd_Target :: string
  rd_StatusCode :: int
  rd_PreservePath :: bool
  rd_CertificateID :: "int option"

definition RedirectStatuses :: "int list" where "RedirectStatuses = [301, 302, 307, 308]"

definition ValidRedirectStatus :: "int \<Rightarrow> bool" where
  "ValidRedirectStatus code \<longleftrightarrow> code = 301 \<or> code = 302 \<or> code = 307 \<or> code = 308"

definition DefaultRedirectStatus :: int where "DefaultRedirectStatus = 301"

section \<open>Canonical form\<close>

definition isAllDigits :: "string \<Rightarrow> bool" where
  "isAllDigits s = list_all is_digit s"

definition hasURLScheme :: "string \<Rightarrow> bool" where
  "hasURLScheme s =
     (case index_byte s (CHR '':'') of
        None \<Rightarrow> False
      | Some colon \<Rightarrow>
          if colon = 0 then False
          else if \<not> list_all (\<lambda>c. is_lower c \<or> is_upper c \<or> is_digit c \<or> c = CHR ''+'' \<or> c = CHR ''-'') (take colon s) then False
          else let rest = fst (cut (drop (Suc colon) s) (CHR ''/'')) in rest = [] \<or> \<not> isAllDigits rest)"

definition normalizeTarget :: "(string \<Rightarrow> url option) \<Rightarrow> (url \<Rightarrow> string) \<Rightarrow> string \<Rightarrow> string" where
  "normalizeTarget parse unparse target0 =
     (let target = trim_space target0
      in if target = [] then []
         else
           let target = (case cut_prefix target ''//'' of
                           Some rest \<Rightarrow> ''https://'' @ rest
                         | None \<Rightarrow> if \<not> hasURLScheme target then ''https://'' @ target else target)
           in case parse target of
                None \<Rightarrow> target
              | Some u \<Rightarrow> unparse (u\<lparr>url_Scheme := to_lower (url_Scheme u), url_Host := to_lower (url_Host u)\<rparr>))"

definition Redirect_Normalize :: "(string \<Rightarrow> url option) \<Rightarrow> (url \<Rightarrow> string) \<Rightarrow> redirect \<Rightarrow> redirect" where
  "Redirect_Normalize parse unparse r =
     r\<lparr>rd_Name := trim_space (rd_Name r), rd_Domains := canonical_list norm_domain [] (rd_Domains r),
       rd_StatusCode := (if rd_StatusCode r = 0 then DefaultRedirectStatus else rd_StatusCode r),
       rd_Target := normalizeTarget parse unparse (rd_Target r)\<rparr>"

section \<open>Validation\<close>

definition MatchesDomain :: "redirect \<Rightarrow> string \<Rightarrow> bool" where
  "MatchesDomain r name0 =
     (let name = to_lower (trim_suffix name0 ''.'')
      in list_ex (\<lambda>d. d = name \<or>
           (case cut_prefix d ''*.'' of
              None \<Rightarrow> False
            | Some suffix \<Rightarrow>
                (case index_byte name (CHR ''.'') of
                   None \<Rightarrow> False
                 | Some idx \<Rightarrow> drop (Suc idx) name = suffix)))
         (rd_Domains r))"

text \<open>\<^verbatim>\<open>URL.Hostname\<close>: the host without a valid port and without brackets.\<close>

definition url_hostname :: "string \<Rightarrow> string" where
  "url_hostname hp =
     (let host = (case last_index_byte hp (CHR '':'') of
                    Some i \<Rightarrow> if list_all is_digit (drop (Suc i) hp) then take i hp else hp
                  | None \<Rightarrow> hp)
      in if has_prefix host ''['' \<and> has_suffix host '']'' then butlast (tl host) else host)"

definition targetHost :: "(string \<Rightarrow> url option) \<Rightarrow> string \<Rightarrow> string" where
  "targetHost parse target =
     (case parse target of None \<Rightarrow> [] | Some u \<Rightarrow> to_lower (url_hostname (url_Host u)))"

definition validateTarget :: "(string \<Rightarrow> url option) \<Rightarrow> redirect \<Rightarrow> validation_error \<Rightarrow> validation_error" where
  "validateTarget parse r v =
     (if rd_Target r = [] then v_Add ''target'' ''is required'' [] v
      else case parse (rd_Target r) of
        None \<Rightarrow> v_Add ''target'' ''is not a valid URL'' [] v
      | Some u \<Rightarrow>
          if url_Scheme u \<noteq> ''http'' \<and> url_Scheme u \<noteq> ''https'' then
            v_Add ''target'' ''must be an http or https URL'' [] v
          else if url_Host u = [] then v_Add ''target'' ''is missing a domain'' [] v
          else
            let v = v_if (url_Fragment u \<noteq> []) ''target''
                      ''must not contain a #fragment; it is never sent to the target server'' [] v
            in v_if (list_ex (\<lambda>c. c = CHR 0x0D \<or> c = CHR 0x0A) (rd_Target r)) ''target''
                 ''must not contain line breaks'' [] v)"

definition Redirect_Validate :: "(string \<Rightarrow> url option) \<Rightarrow> redirect \<Rightarrow> validation_error option" where
  "Redirect_Validate parse r =
     (let v = (if rd_Name r = [] then v_Add ''name'' ''is required'' [] []
               else v_if (length (rd_Name r) > 100) ''name'' ''must be at most 100 characters'' [] []);
          v = v_if (length (rd_Domains r) = 0) ''domains'' ''at least one domain is required'' [] v;
          v = validate_domains 0 v (rd_Domains r);
          v = v_if (\<not> ValidRedirectStatus (rd_StatusCode r)) ''statusCode''
                ''must be 301, 302, 307 or 308; 307 and 308 are the ones that keep the method and body'' [] v;
          v = validateTarget parse r v;
          hst = targetHost parse (rd_Target r);
          v = v_if (hst \<noteq> [] \<and> MatchesDomain r hst) ''target''
                ''points back at %s, which this redirect already answers for'' [FStr hst] v
      in v_Err v)"

section \<open>Where a request is sent\<close>

definition isControl :: "char \<Rightarrow> bool" where
  "isControl c \<longleftrightarrow> byte c < 32 \<or> byte c = 127"

text \<open>An escaped path is ASCII, so bytes and runes agree.\<close>

definition sanitizePath :: "string \<Rightarrow> string" where
  "sanitizePath p =
     (if p = [] then []
      else if \<not> list_ex isControl p then (if hd p \<noteq> CHR ''/'' then ''/'' @ p else p)
      else let out = filter (\<lambda>c. \<not> isControl c) p
           in if out \<noteq> [] \<and> hd out \<noteq> CHR ''/'' then ''/'' @ out else out)"

definition mergeQuery :: "string \<Rightarrow> string \<Rightarrow> string" where
  "mergeQuery tq rq = (if tq = [] then rq else if rq = [] then tq else tq @ ''&'' @ rq)"

definition rawQuery :: "string \<Rightarrow> string" where
  "rawQuery q = (if q = [] then [] else ''?'' @ q)"

definition Redirect_Location :: "(string \<Rightarrow> url option) \<Rightarrow> redirect \<Rightarrow> url \<Rightarrow> string" where
  "Redirect_Location parse r reqURL =
     (case parse (rd_Target r) of
        None \<Rightarrow> rd_Target r
      | Some target \<Rightarrow>
          if url_Host target = [] then rd_Target r
          else
            let base = url_Scheme target @ ''://'' @ url_Host target
            in if \<not> rd_PreservePath r then base @ url_EscapedPath target @ rawQuery (url_RawQuery target)
               else
                 let pre = trim_suffix (url_EscapedPath target) ''/'';
                     suf = sanitizePath (url_EscapedPath reqURL);
                     suf = (if suf = ''/'' \<and> pre \<noteq> [] then [] else suf)
                 in base @ pre @ suf @ rawQuery (mergeQuery (url_RawQuery target) (url_RawQuery reqURL)))"

section \<open>Properties\<close>

definition rooted :: "url \<Rightarrow> bool" where
  "rooted u \<longleftrightarrow> url_EscapedPath u = [] \<or> hd (url_EscapedPath u) = CHR ''/''"

lemma sanitizePath_shape:
  "(sanitizePath p = [] \<or> hd (sanitizePath p) = CHR ''/'') \<and> (\<forall>c \<in> set (sanitizePath p). \<not> isControl c)"
proof -
  have "\<not> isControl (CHR ''/'')" by (simp add: isControl_def byte_def)
  then show ?thesis by (auto simp: sanitizePath_def Let_def list_ex_iff)
qed

lemma trim_slash_shape: "p = [] \<or> hd p = CHR ''/'' \<Longrightarrow> trim_suffix p ''/'' = [] \<or> hd (trim_suffix p ''/'') = CHR ''/''"
  by (cases p rule: rev_cases) (auto simp: trim_suffix_def has_suffix_iff hd_append split: if_splits)

text \<open>No part of a request can change where the visitor is sent: whatever path and query a request
  has, the answer goes to the scheme and host of the configured target, which are followed by
  nothing, a path or a query, and a target that validation accepts is http or https.\<close>

theorem Redirect_keeps_authority:
  assumes "Redirect_Validate parse r = None" "parse (rd_Target r) = Some u" "rooted u"
  shows "\<exists>rest. Redirect_Location parse r reqURL = url_Scheme u @ ''://'' @ url_Host u @ rest \<and>
      (rest = [] \<or> hd rest = CHR ''/'' \<or> hd rest = CHR ''?'') \<and>
      url_Scheme u \<in> {''http'', ''https''} \<and> url_Host u \<noteq> []"
proof -
  have u: "url_Scheme u \<in> {''http'', ''https''}" "url_Host u \<noteq> []"
    using assms(1,2) by (auto simp: Redirect_Validate_def validateTarget_def Let_def split: if_splits)
  have q: "rawQuery x = [] \<or> hd (rawQuery x) = CHR ''?''" for x by (simp add: rawQuery_def)
  have shape: "a @ b @ rawQuery x = [] \<or> hd (a @ b @ rawQuery x) = CHR ''/'' \<or> hd (a @ b @ rawQuery x) = CHR ''?''"
    if "a = [] \<or> hd a = CHR ''/''" "b = [] \<or> hd b = CHR ''/''" for a b x
    using that q [of x] by (cases a; cases b) auto
  let ?pre = "trim_suffix (url_EscapedPath u) ''/''"
  let ?suf = "if sanitizePath (url_EscapedPath reqURL) = ''/'' \<and> ?pre \<noteq> [] then [] else sanitizePath (url_EscapedPath reqURL)"
  have "?suf = [] \<or> hd ?suf = CHR ''/''" using sanitizePath_shape [of "url_EscapedPath reqURL"] by auto
  with trim_slash_shape assms(3)
  have "?pre @ ?suf @ rawQuery x = [] \<or> hd (?pre @ ?suf @ rawQuery x) = CHR ''/'' \<or> hd (?pre @ ?suf @ rawQuery x) = CHR ''?''" for x
    by (intro shape) (auto simp: rooted_def)
  moreover have "url_EscapedPath u @ [] @ rawQuery x = [] \<or> hd (url_EscapedPath u @ [] @ rawQuery x) = CHR ''/'' \<or>
      hd (url_EscapedPath u @ [] @ rawQuery x) = CHR ''?''" for x
    using assms(3) by (intro shape) (auto simp: rooted_def)
  ultimately show ?thesis
    using assms(2) u unfolding Redirect_Location_def by (simp add: Let_def)
qed

definition ex_redirect :: redirect where
  "ex_redirect =
     \<lparr>rd_ID = 1, rd_Name = ''old'', rd_Enabled = True, rd_Domains = [''old.example''], rd_Target = ''https://new.example/app'',
      rd_StatusCode = 308, rd_PreservePath = True, rd_CertificateID = None\<rparr>"

definition ex_parse :: "string \<Rightarrow> url option" where
  "ex_parse s =
     Some \<lparr>url_Scheme = ''https'', url_Host = ''new.example'', url_EscapedPath = ''/app'', url_RawQuery = [], url_Fragment = []\<rparr>"

theorem Redirect_keeps_authority_witness:
  "\<exists>rest. Redirect_Location ex_parse ex_redirect
      \<lparr>url_Scheme = [], url_Host = [], url_EscapedPath = ''//evil.example'', url_RawQuery = ''x=1'', url_Fragment = []\<rparr>
     = ''https'' @ ''://'' @ ''new.example'' @ rest"
proof -
  have "Redirect_Validate ex_parse ex_redirect = None" by code_simp
  from Redirect_keeps_authority [OF this, of "the (ex_parse [])"
      "\<lparr>url_Scheme = [], url_Host = [], url_EscapedPath = ''//evil.example'', url_RawQuery = ''x=1'', url_Fragment = []\<rparr>"]
  show ?thesis by (auto simp: ex_parse_def rooted_def)
qed

end
