(* ===== verification/Domain_Access.thy ===== *)
theory Domain_Access
  imports Netip Domain_Errors
begin

text \<open>
  \<^verbatim>\<open>internal/domain/accesslist.go\<close>: access lists, that is address rules and basic auth users, how a
  request is evaluated against one, and how operator input is canonicalised and validated. The
  comparison of a password with a stored hash (\<^verbatim>\<open>bcrypt.CompareHashAndPassword\<close>) is the parameter
  \<open>bcrypt\<close>: whether it returns nil.
\<close>

type_synonym access_action = string

definition AccessAllow :: access_action where "AccessAllow = ''allow''"
definition AccessDeny :: access_action where "AccessDeny = ''deny''"

definition AccessAction_Valid :: "access_action \<Rightarrow> bool" where
  "AccessAction_Valid a \<longleftrightarrow> a = AccessAllow \<or> a = AccessDeny"

record access_rule =
  ar_ID :: int
  ar_AccessListID :: int
  ar_Action :: access_action
  ar_CIDR :: string

record basic_auth_user =
  bu_ID :: int
  bu_AccessListID :: int
  bu_Username :: string
  bu_PasswordHash :: string

record access_list =
  al_ID :: int
  al_Name :: string
  al_SatisfyAny :: bool
  al_Rules :: "access_rule list"
  al_BasicAuth :: "basic_auth_user list"
  al_UpdatedAt :: time

datatype access_decision = AccessGranted | AccessRefused | AccessNeedsCredentials

record basic_credentials =
  bc_Username :: string
  bc_Password :: string
  bc_Present :: bool
  bc_Verified :: bool

section \<open>Evaluation\<close>

fun rules_loop :: "addr \<Rightarrow> bool \<Rightarrow> bool \<Rightarrow> access_rule list \<Rightarrow> bool" where
  "rules_loop a hasAllow matchedAllow [] = (\<not> hasAllow \<or> matchedAllow)"
| "rules_loop a hasAllow matchedAllow (r # rs) =
     (case ParsePrefix (ar_CIDR r) of
        None \<Rightarrow> False
      | Some px \<Rightarrow>
          let hasAllow = (hasAllow \<or> ar_Action r = AccessAllow)
          in if \<not> Contains px a then rules_loop a hasAllow matchedAllow rs
             else if ar_Action r = AccessDeny then False
             else rules_loop a hasAllow True rs)"

definition allowsAddress :: "access_list \<Rightarrow> string \<Rightarrow> bool" where
  "allowsAddress l clientIP =
     (if al_Rules l = [] then True
      else case ParseAddr clientIP of
        None \<Rightarrow> False
      | Some a \<Rightarrow> rules_loop (Unmap a) False False (al_Rules l))"

fun users_loop :: "(string \<Rightarrow> string \<Rightarrow> bool) \<Rightarrow> basic_credentials \<Rightarrow> basic_auth_user list \<Rightarrow> bool" where
  "users_loop bcrypt creds [] = False"
| "users_loop bcrypt creds (u # us) =
     (if bu_Username u \<noteq> bc_Username creds then users_loop bcrypt creds us
      else bcrypt (bu_PasswordHash u) (bc_Password creds))"

definition acceptsCredentials :: "(string \<Rightarrow> string \<Rightarrow> bool) \<Rightarrow> access_list \<Rightarrow> basic_credentials \<Rightarrow> bool" where
  "acceptsCredentials bcrypt l creds =
     (if \<not> bc_Present creds then False
      else if bc_Verified creds then True
      else users_loop bcrypt creds (al_BasicAuth l))"

definition EvaluateAccess ::
  "(string \<Rightarrow> string \<Rightarrow> bool) \<Rightarrow> access_list option \<Rightarrow> string \<Rightarrow> basic_credentials \<Rightarrow> access_decision" where
  "EvaluateAccess bcrypt lo clientIP creds =
     (case lo of
        None \<Rightarrow> AccessGranted
      | Some l \<Rightarrow>
          let addressOK = allowsAddress l clientIP; authConfigured = (length (al_BasicAuth l) > 0)
          in if al_SatisfyAny l \<and> addressOK then AccessGranted
             else if \<not> al_SatisfyAny l \<and> \<not> addressOK then AccessRefused
             else if \<not> authConfigured then (if addressOK then AccessGranted else AccessRefused)
             else if acceptsCredentials bcrypt l creds then AccessGranted
             else AccessNeedsCredentials)"

section \<open>Canonical form\<close>

definition normalizeCIDR :: "string \<Rightarrow> string" where
  "normalizeCIDR raw =
     (let s = trim_space raw
      in if s = [] then []
         else case ParseAddr s of
           Some a \<Rightarrow> Prefix_String \<lparr>px_Addr = Unmap a, px_Bits = BitLen (Unmap a)\<rparr>
         | None \<Rightarrow>
             (case ParsePrefix s of
                Some px \<Rightarrow> Prefix_String (Masked px)
              | None \<Rightarrow> s))"

fun normalize_rules :: "string list \<Rightarrow> access_rule list \<Rightarrow> access_rule list" where
  "normalize_rules seen [] = []"
| "normalize_rules seen (r0 # rs) =
     (let act0 = to_lower (trim_space (ar_Action r0));
          act = (if act0 = [] then AccessAllow else act0);
          cidr = normalizeCIDR (ar_CIDR r0);
          r = r0\<lparr>ar_Action := act, ar_CIDR := cidr\<rparr>
      in if cidr = [] then normalize_rules seen rs
         else let k = act @ '' '' @ cidr
              in if k \<in> set seen then normalize_rules seen rs
                 else r # normalize_rules (k # seen) rs)"

fun normalize_users :: "string list \<Rightarrow> basic_auth_user list \<Rightarrow> basic_auth_user list" where
  "normalize_users seen [] = []"
| "normalize_users seen (u0 # us) =
     (let u = u0\<lparr>bu_Username := trim_space (bu_Username u0)\<rparr>
      in if bu_Username u = [] \<and> bu_PasswordHash u = [] then normalize_users seen us
         else if bu_Username u \<in> set seen then normalize_users seen us
         else u # normalize_users (bu_Username u # seen) us)"

definition AccessList_Normalize :: "access_list \<Rightarrow> access_list" where
  "AccessList_Normalize l =
     l\<lparr>al_Name := trim_space (al_Name l), al_Rules := normalize_rules [] (al_Rules l),
       al_BasicAuth := normalize_users [] (al_BasicAuth l)\<rparr>"

section \<open>Validation\<close>

definition validate_rule :: "validation_error \<Rightarrow> nat \<times> access_rule \<Rightarrow> validation_error" where
  "validate_rule v ir =
     (case ir of (i, r) \<Rightarrow>
        let field = ''rules['' @ itoa_nat i @ '']'';
            v = v_if (\<not> AccessAction_Valid (ar_Action r)) (field @ ''.action'')
                  ''%q is not a supported action; use allow or deny'' [FStr (ar_Action r)] v
        in v_if (ParsePrefix (ar_CIDR r) = None) (field @ ''.cidr'')
             ''must be an address or a CIDR block, e.g. 10.0.0.0/8, 203.0.113.7 or 2001:db8::/32'' [] v)"

definition validate_user :: "validation_error \<Rightarrow> nat \<times> basic_auth_user \<Rightarrow> validation_error" where
  "validate_user v iu =
     (case iu of (i, u) \<Rightarrow>
        let field = ''basicAuth['' @ itoa_nat i @ '']'';
            v = (if bu_Username u = [] then v_Add (field @ ''.username'') ''is required'' [] v
                 else if length (bu_Username u) > 64 then
                   v_Add (field @ ''.username'') ''must be at most 64 characters'' [] v
                 else if CHR '':'' \<in> set (bu_Username u) then
                   v_Add (field @ ''.username'') ''may not contain a colon'' [] v
                 else v)
        in v_if (bu_PasswordHash u = []) (field @ ''.password'') ''is required'' [] v)"

definition AccessList_Validate :: "access_list \<Rightarrow> validation_error option" where
  "AccessList_Validate l =
     (let v = (if al_Name l = [] then v_Add ''name'' ''is required'' [] []
               else v_if (length (al_Name l) > 100) ''name'' ''must be at most 100 characters'' [] []);
          v = foldl validate_rule v (enumerate 0 (al_Rules l));
          v = foldl validate_user v (enumerate 0 (al_BasicAuth l));
          v = v_if (length (al_Rules l) = 0 \<and> length (al_BasicAuth l) = 0) ''rules''
                ''an access list needs at least one rule or one user, or it would admit every request'' [] v;
          v = v_if (al_SatisfyAny l \<and> (length (al_Rules l) = 0 \<or> length (al_BasicAuth l) = 0)) ''satisfyAny''
                ''needs both address rules and users, since with only one of them either half alone would admit every request'' [] v
      in v_Err v)"

section \<open>Properties\<close>

definition covers :: "access_rule \<Rightarrow> addr \<Rightarrow> bool" where
  "covers r a \<longleftrightarrow> (\<exists>px. ParsePrefix (ar_CIDR r) = Some px \<and> Contains px a)"

lemma rules_loop_iff:
  "rules_loop a ha ma rs \<longleftrightarrow>
     (\<forall>r \<in> set rs. ParsePrefix (ar_CIDR r) \<noteq> None) \<and>
     (\<forall>r \<in> set rs. covers r a \<longrightarrow> ar_Action r \<noteq> AccessDeny) \<and>
     (\<not> ha \<and> (\<forall>r \<in> set rs. ar_Action r \<noteq> AccessAllow) \<or> ma \<or> (\<exists>r \<in> set rs. covers r a))"
proof (induction rs arbitrary: ha ma)
  case (Cons r rs)
  have ad: "AccessAllow \<noteq> AccessDeny" by (simp add: AccessAllow_def AccessDeny_def)
  show ?case
  proof (cases "ParsePrefix (ar_CIDR r)")
    case (Some px)
    then have "covers r a \<longleftrightarrow> Contains px a" by (simp add: covers_def)
    with Cons Some ad show ?thesis by (cases "Contains px a") auto
  qed simp
qed auto

text \<open>C35. The address half: with rules, an address passes exactly if it parses, every rule's block
  parses, no deny rule covers it, and either some rule covers it or no rule allows anything. In
  particular a deny always overrides an allow, whatever the order of the rules, and an IPv4 client
  seen in mapped form is judged like the IPv4 client it is.\<close>

theorem allowsAddress_iff:
  "allowsAddress l ip \<longleftrightarrow> al_Rules l = [] \<or>
     (\<exists>a. ParseAddr ip = Some a \<and> (\<forall>r \<in> set (al_Rules l). ParsePrefix (ar_CIDR r) \<noteq> None) \<and>
        \<not> (\<exists>r \<in> set (al_Rules l). covers r (Unmap a) \<and> ar_Action r = AccessDeny) \<and>
        ((\<exists>r \<in> set (al_Rules l). covers r (Unmap a)) \<or> \<not> (\<exists>r \<in> set (al_Rules l). ar_Action r = AccessAllow)))"
  by (cases "ParseAddr ip") (auto simp: allowsAddress_def rules_loop_iff)

definition ex_rule :: "access_action \<Rightarrow> string \<Rightarrow> access_rule" where
  "ex_rule act cidr = \<lparr>ar_ID = 1, ar_AccessListID = 1, ar_Action = act, ar_CIDR = cidr\<rparr>"

definition ex_list :: "bool \<Rightarrow> access_list" where
  "ex_list any =
     \<lparr>al_ID = 1, al_Name = ''office'', al_SatisfyAny = any,
      al_Rules = [ex_rule AccessAllow ''10.0.0.0/8'', ex_rule AccessDeny ''10.9.0.0/16''],
      al_BasicAuth = [\<lparr>bu_ID = 1, bu_AccessListID = 1, bu_Username = ''ann'', bu_PasswordHash = ''h''\<rparr>],
      al_UpdatedAt = 5\<rparr>"

lemma ex_list_addresses:
  "allowsAddress (ex_list any) ''10.1.2.3''" "\<not> allowsAddress (ex_list any) ''10.9.2.3''"
  "\<not> allowsAddress (ex_list any) ''192.0.2.1''"
proof -
  have "allowsAddress (ex_list True) ''10.1.2.3''" "\<not> allowsAddress (ex_list True) ''10.9.2.3''"
    "\<not> allowsAddress (ex_list True) ''192.0.2.1''" by code_simp+
  moreover have "allowsAddress (ex_list any) ip = allowsAddress (ex_list True) ip" for ip
  proof -
    have "al_Rules (ex_list any) = al_Rules (ex_list True)" by (simp add: ex_list_def)
    then show ?thesis unfolding allowsAddress_def by (rule arg_cong)
  qed
  ultimately show "allowsAddress (ex_list any) ''10.1.2.3''" "\<not> allowsAddress (ex_list any) ''10.9.2.3''"
    "\<not> allowsAddress (ex_list any) ''192.0.2.1''" by simp_all
qed

theorem allowsAddress_iff_witness:
  "\<not> (\<exists>r \<in> set (al_Rules (ex_list True)). covers r (Addr4 0x0A010203) \<and> ar_Action r = AccessDeny)"
proof -
  have "ParseAddr ''10.1.2.3'' = Some (Addr4 0x0A010203)" by code_simp
  with ex_list_addresses(1) [of True] show ?thesis unfolding allowsAddress_iff by (auto simp: ex_list_def)
qed

lemma users_loop_find:
  "users_loop bcrypt creds us \<longleftrightarrow>
     (\<exists>u. find (\<lambda>u. bu_Username u = bc_Username creds) us = Some u \<and> bcrypt (bu_PasswordHash u) (bc_Password creds))"
  by (induction us) auto

text \<open>The whole decision for a list that validation accepts and credentials nobody vouched for:
  without the relaxation a request is admitted exactly if its address passes and, where users are
  configured, it carries the name of a user and that user's password; with the relaxation one of
  the two is enough. A refused request is challenged exactly if credentials could still admit it.\<close>

theorem EvaluateAccess_decides:
  assumes "AccessList_Validate l = None" "\<not> bc_Verified creds"
  shows "let addr = allowsAddress l ip;
           pw = (bc_Present creds \<and> (\<exists>u. find (\<lambda>u. bu_Username u = bc_Username creds) (al_BasicAuth l) = Some u \<and>
                   bcrypt (bu_PasswordHash u) (bc_Password creds)))
         in EvaluateAccess bcrypt (Some l) ip creds =
             (if (if al_SatisfyAny l then addr \<or> pw else addr \<and> (al_BasicAuth l = [] \<or> pw)) then AccessGranted
              else if al_BasicAuth l \<noteq> [] \<and> (al_SatisfyAny l \<or> addr) then AccessNeedsCredentials
              else AccessRefused)"
proof -
  have "\<not> (al_SatisfyAny l \<and> (al_Rules l = [] \<or> al_BasicAuth l = []))"
    using assms(1) by (auto simp: AccessList_Validate_def Let_def)
  with assms(2) show ?thesis
    by (cases "al_SatisfyAny l"; cases "allowsAddress l ip"; cases "al_BasicAuth l = []")
      (simp_all add: EvaluateAccess_def acceptsCredentials_def users_loop_find Let_def)
qed

theorem EvaluateAccess_decides_witness:
  "EvaluateAccess (\<lambda>h p. h = ''h'' \<and> p = ''secret'') (Some (ex_list False)) ''10.1.2.3''
     \<lparr>bc_Username = ''ann'', bc_Password = ''guess'', bc_Present = True, bc_Verified = False\<rparr> = AccessNeedsCredentials"
proof -
  have "AccessList_Validate (ex_list False) = None" by code_simp
  from EvaluateAccess_decides [OF this, of "\<lparr>bc_Username = ''ann'', bc_Password = ''guess'', bc_Present = True, bc_Verified = False\<rparr>"
      "''10.1.2.3''" "\<lambda>h p. h = ''h'' \<and> p = ''secret''"] ex_list_addresses(1) [of False]
  show ?thesis by (simp add: ex_list_def Let_def)
qed

end
