(* ===== verification/Proxy_Routing.thy ===== *)
theory Proxy_Routing
  imports Balancer_Pool Domain_Redirect Domain_Access
begin

text \<open>
  \<^verbatim>\<open>internal/proxy/routing.go\<close>: the routing table. Routes are pointers in the code, shared between the
  lookup maps and the list of all routes; here the maps hold positions in that list, so that a route
  and the state of its pools exist once. Building a table allocates the pools of every host and
  location in the store of backends, which takes over the state of the previous table's pools.
\<close>

record route_location =
  rl_config :: location
  rl_pool :: pool

record route =
  rt_host :: host
  rt_pool :: pool
  rt_locations :: "route_location list"
  rt_access :: "access_list option"

record routing_table =
  t_exact :: "string \<rightharpoonup> nat"
  t_wildcard :: "string \<rightharpoonup> nat"
  t_routes :: "route list"
  t_redirectExact :: "string \<rightharpoonup> redirect"
  t_redirectWildcard :: "string \<rightharpoonup> redirect"

record config =
  cfg_Hosts :: "host list"
  cfg_Redirects :: "redirect list"
  cfg_AccessLists :: "int \<rightharpoonup> access_list"

section \<open>Locations of a route\<close>

definition route_pick :: "route \<Rightarrow> string \<Rightarrow> route_location option" where
  "route_pick r path = find (\<lambda>l. Location_Matches (rl_config l) path) (rt_locations r)"

definition route_poolFor :: "route \<Rightarrow> string \<Rightarrow> pool \<times> route_location option" where
  "route_poolFor r path =
     (case route_pick r path of Some l \<Rightarrow> (rl_pool l, Some l) | None \<Rightarrow> (rt_pool r, None))"

section \<open>The name a request asks for\<close>

definition normalizeHostHeader :: "string \<Rightarrow> string" where
  "normalizeHostHeader h0 =
     (let h = trim_space h0
      in if h = [] then []
         else
           let h = (if has_prefix h ''['' then
                      (case index_byte h (CHR '']'') of Some e \<Rightarrow> drop 1 (take e h) | None \<Rightarrow> h)
                    else
                      (case last_index_byte h (CHR '':'') of
                         Some idx \<Rightarrow>
                           let port = drop (Suc idx) h
                           in if port \<noteq> [] \<and> isAllDigits port then take idx h else h
                       | None \<Rightarrow> h))
           in to_lower (trim_suffix h ''.''))"

section \<open>Building the table\<close>

definition table_locationPool :: "routing_table option \<Rightarrow> int \<Rightarrow> string \<Rightarrow> pool option" where
  "table_locationPool t hostID path =
     (case t of
        None \<Rightarrow> None
      | Some t \<Rightarrow>
          map_option rl_pool
            (find (\<lambda>l. lc_Path (rl_config l) = path)
               (concat (map rt_locations (filter (\<lambda>r. h_ID (rt_host r) = hostID) (t_routes t))))))"

definition table_poolFor :: "routing_table option \<Rightarrow> int \<Rightarrow> pool option" where
  "table_poolFor t hostID =
     (case t of
        None \<Rightarrow> None
      | Some t \<Rightarrow> map_option rt_pool (find (\<lambda>r. h_ID (rt_host r) = hostID) (t_routes t)))"

fun build_locations ::
  "(string \<Rightarrow> 64 word) \<Rightarrow> routing_table option \<Rightarrow> host \<Rightarrow> store \<Rightarrow> location list \<Rightarrow> store \<times> route_location list" where
  "build_locations hash prev h st [] = (st, [])"
| "build_locations hash prev h st (lc # lcs) =
     (let (st, p) = NewPool hash (h_ID h) (h_Algorithm h) (lc_Upstreams lc)
                      (table_locationPool prev (h_ID h) (lc_Path lc)) st;
          (st, rls) = build_locations hash prev h st lcs
      in (st, \<lparr>rl_config = lc, rl_pool = p\<rparr> # rls))"

definition build_route ::
  "(string \<Rightarrow> 64 word) \<Rightarrow> (int \<rightharpoonup> access_list) \<Rightarrow> routing_table option \<Rightarrow> store \<Rightarrow> host \<Rightarrow> store \<times> route" where
  "build_route hash acls prev st h =
     (let (st, p) = NewPool hash (h_ID h) (h_Algorithm h) (h_Upstreams h) (table_poolFor prev (h_ID h)) st;
          (st, rls) = build_locations hash prev h st (h_Locations h)
      in (st, \<lparr>rt_host = h, rt_pool = p,
               rt_locations = sort_key (\<lambda>l. - int (length (lc_Path (rl_config l)))) rls,
               rt_access = (case h_AccessListID h of Some i \<Rightarrow> acls i | None \<Rightarrow> None)\<rparr>))"

definition add_domain :: "'a \<Rightarrow> (string \<rightharpoonup> 'a) \<times> (string \<rightharpoonup> 'a) \<Rightarrow> string \<Rightarrow> (string \<rightharpoonup> 'a) \<times> (string \<rightharpoonup> 'a)" where
  "add_domain x maps d =
     (case maps of (exact, wildcard) \<Rightarrow>
        (case cut_prefix d ''*.'' of
           Some parent \<Rightarrow> (exact, wildcard(parent \<mapsto> x))
         | None \<Rightarrow> (exact(d \<mapsto> x), wildcard)))"

fun build_hosts ::
  "(string \<Rightarrow> 64 word) \<Rightarrow> (int \<rightharpoonup> access_list) \<Rightarrow> routing_table option \<Rightarrow> store \<Rightarrow> routing_table \<Rightarrow> host list \<Rightarrow>
   store \<times> routing_table" where
  "build_hosts hash acls prev st t [] = (st, t)"
| "build_hosts hash acls prev st t (h # hs) =
     (let (st, r) = build_route hash acls prev st h;
          i = length (t_routes t);
          t = t\<lparr>t_routes := t_routes t @ [r]\<rparr>;
          t = (if \<not> h_Enabled h then t
               else case foldl (add_domain i) (t_exact t, t_wildcard t) (h_Domains h) of
                 (exact, wildcard) \<Rightarrow> t\<lparr>t_exact := exact, t_wildcard := wildcard\<rparr>)
      in build_hosts hash acls prev st t hs)"

definition build_redirects :: "redirect list \<Rightarrow> (string \<rightharpoonup> redirect) \<times> (string \<rightharpoonup> redirect)" where
  "build_redirects rds =
     foldl (\<lambda>maps rd. if \<not> rd_Enabled rd then maps else foldl (add_domain rd) maps (rd_Domains rd))
       (Map.empty, Map.empty) rds"

definition empty_table :: routing_table where
  "empty_table = \<lparr>t_exact = Map.empty, t_wildcard = Map.empty, t_routes = [],
     t_redirectExact = Map.empty, t_redirectWildcard = Map.empty\<rparr>"

definition buildRoutingTable ::
  "(string \<Rightarrow> 64 word) \<Rightarrow> config \<Rightarrow> routing_table option \<Rightarrow> store \<Rightarrow> store \<times> routing_table" where
  "buildRoutingTable hash cfg prev st =
     (let (st, t) = build_hosts hash (cfg_AccessLists cfg) prev st empty_table (cfg_Hosts cfg);
          (exact, wildcard) = build_redirects (cfg_Redirects cfg)
      in (st, t\<lparr>t_redirectExact := exact, t_redirectWildcard := wildcard\<rparr>))"

section \<open>Lookup\<close>

definition lookup_maps :: "(string \<rightharpoonup> 'a) \<Rightarrow> (string \<rightharpoonup> 'a) \<Rightarrow> string \<Rightarrow> 'a option" where
  "lookup_maps exact wildcard hostHeader =
     (let name = normalizeHostHeader hostHeader
      in if name = [] then None
         else case exact name of
           Some r \<Rightarrow> Some r
         | None \<Rightarrow>
             (case cut name (CHR ''.'') of (_, parent, found) \<Rightarrow>
                if found then (case wildcard parent of Some r \<Rightarrow> Some r | None \<Rightarrow> None) else None))"

definition table_lookupRedirect :: "routing_table \<Rightarrow> string \<Rightarrow> redirect option" where
  "table_lookupRedirect t hostHeader = lookup_maps (t_redirectExact t) (t_redirectWildcard t) hostHeader"

definition table_lookup :: "routing_table \<Rightarrow> string \<Rightarrow> nat option" where
  "table_lookup t hostHeader = lookup_maps (t_exact t) (t_wildcard t) hostHeader"

definition certificateFor :: "routing_table \<Rightarrow> string \<Rightarrow> nat option" where
  "certificateFor t serverName =
     (case table_lookup t serverName of
        None \<Rightarrow> None
      | Some i \<Rightarrow> if h_CertificateID (rt_host (t_routes t ! i)) = None then None else Some i)"

section \<open>Longest prefix\<close>

lemma find_sorted_best:
  assumes "find P (sort_key f xs) = Some x" "y \<in> set xs" "P y"
  shows "f x \<le> (f y :: int)"
proof -
  from assms(1) obtain i where i: "i < length (sort_key f xs)" "sort_key f xs ! i = x" "\<forall>j < i. \<not> P (sort_key f xs ! j)"
    by (auto simp: find_Some_iff)
  obtain j where j: "j < length (sort_key f xs)" "sort_key f xs ! j = y"
    using assms(2) by (metis in_set_conv_nth set_sort)
  with i assms(3) have "i \<le> j" by (metis not_le)
  then have "map f (sort_key f xs) ! i \<le> map f (sort_key f xs) ! j"
    using sorted_sort_key [of f xs] j by (intro sorted_nth_mono) auto
  with i j show ?thesis by (simp add: nth_map)
qed

lemma build_locations_configs: "map rl_config (snd (build_locations hash prev h st lcs)) = lcs"
  by (induction lcs arbitrary: st) (auto simp: split_def Let_def)

text \<open>The most specific location wins: a request is served by a location of the host whose path
  claims it, none of the host's locations that claim it has a longer path, and by the host's own
  pool exactly if no location claims it.\<close>

theorem route_pick_longest:
  assumes "build_route hash acls prev st h = (st', r)"
  shows "(route_pick r path = None \<longleftrightarrow> (\<forall>l \<in> set (h_Locations h). \<not> Location_Matches l path)) \<and>
    (\<forall>l. route_pick r path = Some l \<longrightarrow>
       rl_config l \<in> set (h_Locations h) \<and> Location_Matches (rl_config l) path \<and>
       (\<forall>l' \<in> set (h_Locations h). Location_Matches l' path \<longrightarrow> length (lc_Path l') \<le> length (lc_Path (rl_config l))))"
proof -
  obtain st1 p where np: "NewPool hash (h_ID h) (h_Algorithm h) (h_Upstreams h) (table_poolFor prev (h_ID h)) st = (st1, p)"
    by fastforce
  obtain st2 rls where bl: "build_locations hash prev h st1 (h_Locations h) = (st2, rls)" by fastforce
  have r: "rt_locations r = sort_key (\<lambda>l. - int (length (lc_Path (rl_config l)))) rls"
    using assms np bl by (auto simp: build_route_def Let_def)
  have cfgs: "map rl_config rls = h_Locations h"
    using build_locations_configs [of hash prev h st1 "h_Locations h"] bl by simp
  have img: "set (h_Locations h) = rl_config ` set rls" by (simp flip: cfgs)
  have "\<forall>l' \<in> set rls. Location_Matches (rl_config l') path \<longrightarrow> length (lc_Path (rl_config l')) \<le> length (lc_Path (rl_config l))"
    if "route_pick r path = Some l" for l
    using that find_sorted_best [of "\<lambda>l. Location_Matches (rl_config l) path" "\<lambda>l. - int (length (lc_Path (rl_config l)))" rls l]
    unfolding route_pick_def r by auto
  moreover have "route_pick r path = Some l \<Longrightarrow> l \<in> set rls \<and> Location_Matches (rl_config l) path" for l
    unfolding route_pick_def r by (auto simp: find_Some_iff in_set_conv_nth) (metis length_sort nth_mem set_sort in_set_conv_nth)
  moreover have "route_pick r path = None \<longleftrightarrow> (\<forall>l \<in> set rls. \<not> Location_Matches (rl_config l) path)"
    unfolding route_pick_def r by (auto simp: find_None_iff)
  ultimately show ?thesis unfolding img by simp
qed

definition ex_sited :: host where
  "ex_sited = (ex_host [''example.com'', ''*.example.com''])\<lparr>h_Locations := [ex_location ''/api'', ex_location ''/api/v2'']\<rparr>"

theorem route_pick_longest_witness:
  "route_pick (snd (build_route (\<lambda>_. 0) Map.empty None (\<lambda>_. undefined, 0) ex_sited)) ''/other'' = None"
proof -
  have "\<not> Location_Matches (ex_location ''/api'') ''/other''" "\<not> Location_Matches (ex_location ''/api/v2'') ''/other''"
    by code_simp+
  then show ?thesis
    using route_pick_longest [OF prod.collapse [symmetric], of "\<lambda>_. 0" Map.empty None "(\<lambda>_. undefined, 0)" ex_sited "''/other''"]
    by (simp add: ex_sited_def)
qed

section \<open>What the table resolves\<close>

abbreviation wild :: "string \<Rightarrow> bool" where "wild d \<equiv> has_prefix d ''*.''"

lemma add_domain_step:
  "fst (add_domain x m d) n = (if n = d \<and> \<not> wild d then Some x else fst m n)"
  "snd (add_domain x m d) p = (if d = ''*.'' @ p then Some x else snd m p)"
proof -
  show "fst (add_domain x m d) n = (if n = d \<and> \<not> wild d then Some x else fst m n)"
    by (cases m) (auto simp: add_domain_def cut_prefix_def)
  show "snd (add_domain x m d) p = (if d = ''*.'' @ p then Some x else snd m p)"
    by (cases m; cases "wild d") (auto simp: add_domain_def cut_prefix_def has_prefix_iff)
qed

lemma add_domains:
  "fst (foldl (add_domain x) m ds) n = (if n \<in> set ds \<and> \<not> wild n then Some x else fst m n)"
  "snd (foldl (add_domain x) m ds) p = (if ''*.'' @ p \<in> set ds then Some x else snd m p)"
proof -
  show "fst (foldl (add_domain x) m ds) n = (if n \<in> set ds \<and> \<not> wild n then Some x else fst m n)"
    by (induction ds arbitrary: m) (auto simp: add_domain_step)
  show "snd (foldl (add_domain x) m ds) p = (if ''*.'' @ p \<in> set ds then Some x else snd m p)"
    by (induction ds arbitrary: m) (auto simp: add_domain_step)
qed

definition apart :: "host \<Rightarrow> host \<Rightarrow> bool" where
  "apart a b \<longleftrightarrow> (h_Enabled a \<and> h_Enabled b \<longrightarrow> set (h_Domains a) \<inter> set (h_Domains b) = {})"

definition answers :: "host list \<Rightarrow> string \<Rightarrow> nat \<Rightarrow> bool" where
  "answers hs d i \<longleftrightarrow> i < length hs \<and> h_Enabled (hs ! i) \<and> d \<in> set (h_Domains (hs ! i))"

definition maps_ok :: "(string \<rightharpoonup> nat) \<Rightarrow> (string \<rightharpoonup> nat) \<Rightarrow> host list \<Rightarrow> bool" where
  "maps_ok e w hs \<longleftrightarrow>
     (\<forall>n i. e n = Some i \<longleftrightarrow> answers hs n i \<and> \<not> wild n) \<and> (\<forall>p i. w p = Some i \<longleftrightarrow> answers hs (''*.'' @ p) i)"

lemma answers_snoc:
  "answers (hs @ [h]) d i \<longleftrightarrow> answers hs d i \<or> i = length hs \<and> h_Enabled h \<and> d \<in> set (h_Domains h)"
  by (auto simp: answers_def nth_append less_Suc_eq)

lemma maps_ok_snoc:
  assumes "maps_ok e w hs" "\<forall>a \<in> set hs. apart a h"
    and "(e', w') = (if \<not> h_Enabled h then (e, w) else foldl (add_domain (length hs)) (e, w) (h_Domains h))"
  shows "maps_ok e' w' (hs @ [h])"
proof -
  have excl: "\<not> answers hs d i" if "h_Enabled h" "d \<in> set (h_Domains h)" for d i
    using assms(2) that unfolding answers_def apart_def by (metis disjoint_iff nth_mem)
  show ?thesis
  proof (cases "h_Enabled h")
    case True
    with assms(3) have "e' n = (if n \<in> set (h_Domains h) \<and> \<not> wild n then Some (length hs) else e n)"
      "w' p = (if ''*.'' @ p \<in> set (h_Domains h) then Some (length hs) else w p)" for n p
      using add_domains [of "length hs" "(e, w)" "h_Domains h"] by (metis fst_conv snd_conv)+
    with assms(1) excl True show ?thesis unfolding maps_ok_def answers_snoc by auto
  next
    case False
    with assms(1,3) show ?thesis unfolding maps_ok_def answers_snoc by simp
  qed
qed

lemma build_hosts_ok:
  assumes "build_hosts hash acls prev st t hs = (st', t')" "maps_ok (t_exact t) (t_wildcard t) (map rt_host (t_routes t))"
    "sorted_wrt apart (map rt_host (t_routes t) @ hs)"
  shows "map rt_host (t_routes t') = map rt_host (t_routes t) @ hs \<and> maps_ok (t_exact t') (t_wildcard t') (map rt_host (t_routes t'))"
  using assms
proof (induction hs arbitrary: st t)
  case (Cons h hs)
  obtain st1 r where r: "build_route hash acls prev st h = (st1, r)" by fastforce
  then have rh: "rt_host r = h" by (auto simp: build_route_def Let_def split: prod.splits)
  obtain e w where ew: "(e, w) = (if \<not> h_Enabled h then (t_exact t, t_wildcard t)
      else foldl (add_domain (length (t_routes t))) (t_exact t, t_wildcard t) (h_Domains h))" by (metis surj_pair)
  define t1 where "t1 = t\<lparr>t_routes := t_routes t @ [r], t_exact := e, t_wildcard := w\<rparr>"
  have "build_hosts hash acls prev st t (h # hs) = build_hosts hash acls prev st1 t1 hs"
    using r ew unfolding t1_def by (cases "h_Enabled h") (auto simp: Let_def split: prod.splits)
  moreover have "maps_ok e w (map rt_host (t_routes t) @ [h])"
    using Cons.prems(2,3) ew by (intro maps_ok_snoc) (auto simp: sorted_wrt_append)
  moreover have "map rt_host (t_routes t1) = map rt_host (t_routes t) @ [h]" "t_exact t1 = e" "t_wildcard t1 = w"
    by (simp_all add: t1_def rh)
  ultimately show ?case using Cons.IH [of st1 t1] Cons.prems by auto
qed simp

text \<open>C33. Routing by name: with every domain claimed by at most one enabled host, which the store
  enforces, a request reaches an enabled host exactly if the name in its Host header (lower case,
  without port and trailing dot) is one of the host's domains or, when no enabled host has that
  very domain, if the host has the wildcard for the name's parent, one label up; and the route
  found carries that host's configuration.\<close>

theorem table_lookup_iff:
  assumes "buildRoutingTable hash cfg prev st = (st', t)" "sorted_wrt apart (cfg_Hosts cfg)"
  shows "map rt_host (t_routes t) = cfg_Hosts cfg \<and>
    (table_lookup t hdr = Some i \<longleftrightarrow>
       (let n = normalizeHostHeader hdr
        in n \<noteq> [] \<and> (answers (cfg_Hosts cfg) n i \<and> \<not> wild n \<or>
             (\<forall>j. \<not> (answers (cfg_Hosts cfg) n j \<and> \<not> wild n)) \<and>
             (\<exists>label parent. cut n (CHR ''.'') = (label, parent, True) \<and> answers (cfg_Hosts cfg) (''*.'' @ parent) i))))"
proof -
  obtain st1 t1 where b: "build_hosts hash (cfg_AccessLists cfg) prev st empty_table (cfg_Hosts cfg) = (st1, t1)" by fastforce
  have "maps_ok (t_exact empty_table) (t_wildcard empty_table) (map rt_host (t_routes empty_table))"
    by (simp add: maps_ok_def empty_table_def answers_def)
  from build_hosts_ok [OF b this] assms(2)
  have h: "map rt_host (t_routes t1) = cfg_Hosts cfg" and ok: "maps_ok (t_exact t1) (t_wildcard t1) (cfg_Hosts cfg)"
    by (auto simp: empty_table_def)
  have t: "t_exact t = t_exact t1" "t_wildcard t = t_wildcard t1" "t_routes t = t_routes t1"
    using assms(1) b by (auto simp: buildRoutingTable_def Let_def split: prod.splits)
  let ?n = "normalizeHostHeader hdr"
  obtain label parent found where c: "cut ?n (CHR ''.'') = (label, parent, found)" by (cases "cut ?n (CHR ''.'')") auto
  show ?thesis
  proof (cases "t_exact t1 ?n")
    case None
    with ok have "\<not> (answers (cfg_Hosts cfg) ?n j \<and> \<not> wild ?n)" for j unfolding maps_ok_def by (metis option.distinct(1))
    then have no: "\<forall>j. \<not> (answers (cfg_Hosts cfg) ?n j \<and> \<not> wild ?n)" by blast
    have wc: "t_wildcard t1 parent = Some i \<longleftrightarrow> answers (cfg_Hosts cfg) (''*.'' @ parent) i"
      using ok unfolding maps_ok_def by blast
    have l: "table_lookup t hdr = (if ?n = [] then None else if found then t_wildcard t1 parent else None)"
      using None c t by (simp add: table_lookup_def lookup_maps_def Let_def split: option.splits)
    have "table_lookup t hdr = Some i \<longleftrightarrow> ?n \<noteq> [] \<and> found \<and> answers (cfg_Hosts cfg) (''*.'' @ parent) i"
      unfolding l wc [symmetric] by simp
    with no c h t show ?thesis unfolding Let_def by auto
  next
    case (Some j)
    with ok have "answers (cfg_Hosts cfg) ?n j \<and> \<not> wild ?n" and "\<And>k. answers (cfg_Hosts cfg) ?n k \<and> \<not> wild ?n \<longleftrightarrow> k = j"
      unfolding maps_ok_def by (metis option.inject)+
    with Some h t show ?thesis by (auto simp: table_lookup_def lookup_maps_def Let_def)
  qed
qed

theorem table_lookup_iff_witness:
  "table_lookup (snd (buildRoutingTable (\<lambda>_. 0) \<lparr>cfg_Hosts = [ex_host [''example.com''], ex_host [''*.example.com'']], cfg_Redirects = [],
      cfg_AccessLists = Map.empty\<rparr> None (\<lambda>_. undefined, 0))) ''API.example.com:8443'' = Some 1"
proof -
  let ?cfg = "\<lparr>cfg_Hosts = [ex_host [''example.com''], ex_host [''*.example.com'']], cfg_Redirects = [], cfg_AccessLists = Map.empty\<rparr>"
  have ex: "h_Domains (ex_host ds) = ds" "h_Enabled (ex_host ds)" for ds by (simp_all add: ex_host_def)
  have ap: "sorted_wrt apart (cfg_Hosts ?cfg)" by (simp add: apart_def ex)
  have n: "normalizeHostHeader ''API.example.com:8443'' = ''api.example.com''" by code_simp
  have c: "cut ''api.example.com'' (CHR ''.'') = (''api'', ''example.com'', True)" by code_simp
  have a: "answers (cfg_Hosts ?cfg) (''*.'' @ ''example.com'') 1" by (simp add: answers_def ex)
  have no: "\<not> answers (cfg_Hosts ?cfg) ''api.example.com'' j" for j
    by (auto simp: answers_def ex nth_Cons split: nat.splits)
  have ne: "''api.example.com'' \<noteq> []" by simp
  show ?thesis
    by (rule table_lookup_iff [OF prod.collapse [symmetric] ap, THEN conjunct2, THEN iffD2], unfold n Let_def)
      (intro conjI ne disjI2 allI exI, use no in blast, rule c, rule a)
qed

end
