(* ===== verification/Go_Url.thy ===== *)
theory Go_Url
  imports Go_Http
begin

text \<open>
  The parts of Go's \<^verbatim>\<open>net/url\<close> the request path uses: percent-decoding of paths and queries, the
  escaped form of a path, and the text of a URL. Decoding is \<^verbatim>\<open>unescape\<close>, which fails on a malformed
  escape before it changes anything; \<^verbatim>\<open>PathUnescape\<close> and \<^verbatim>\<open>QueryUnescape\<close> differ in the plus sign only.

  The lemmas show the round trip between encoding and decoding.
\<close>

section \<open>Decoding\<close>

fun escapes_ok :: "string \<Rightarrow> bool" where
  "escapes_ok [] = True"
| "escapes_ok (c # s) =
     (if c = CHR ''%'' then
        (case s of a # b # s' \<Rightarrow> hex_val a \<noteq> None \<and> hex_val b \<noteq> None \<and> escapes_ok s' | _ \<Rightarrow> False)
      else escapes_ok s)"

fun decode_bytes :: "bool \<Rightarrow> string \<Rightarrow> string" where
  "decode_bytes qm [] = []"
| "decode_bytes qm (c # s) =
     (if c = CHR ''%'' then
        (case s of
           a # b # s' \<Rightarrow> char_of (16 * the (hex_val a) + the (hex_val b)) # decode_bytes qm s'
         | _ \<Rightarrow> [])
      else (if qm \<and> c = CHR ''+'' then CHR '' '' else c) # decode_bytes qm s)"

definition unescape :: "bool \<Rightarrow> string \<Rightarrow> string option" where
  "unescape qm s = (if escapes_ok s then Some (decode_bytes qm s) else None)"

definition PathUnescape :: "string \<Rightarrow> string option" where
  "PathUnescape s = unescape False s"

definition QueryUnescape :: "string \<Rightarrow> string option" where
  "QueryUnescape s = unescape True s"

section \<open>Encoding\<close>

definition is_alnum :: "char \<Rightarrow> bool" where
  "is_alnum c \<longleftrightarrow> is_digit c \<or> is_lower c \<or> is_upper c"

text \<open>\<^verbatim>\<open>shouldEscape\<close> for paths: of the reserved characters only the question mark is escaped.\<close>

definition escape_in_path :: "char \<Rightarrow> bool" where
  "escape_in_path c \<longleftrightarrow> \<not> (is_alnum c \<or> c \<in> set ''-_.~$&+,/:;=@'')"

text \<open>\<^verbatim>\<open>shouldEscape\<close> for hosts.\<close>

definition escape_in_host :: "char \<Rightarrow> bool" where
  "escape_in_host c \<longleftrightarrow>
     \<not> (is_alnum c \<or> c \<in> set ''-_.~!$&()*+,;=:[]<>'' \<or> c = CHR 0x27 \<or> c = CHR 0x22)"

definition hex_upper :: "nat \<Rightarrow> char" where
  "hex_upper n = (if n < 10 then char_of (48 + n) else char_of (55 + n))"

definition percent :: "char \<Rightarrow> string" where
  "percent c = [CHR ''%'', hex_upper (byte c div 16), hex_upper (byte c mod 16)]"

definition escape :: "(char \<Rightarrow> bool) \<Rightarrow> string \<Rightarrow> string" where
  "escape should s = concat (map (\<lambda>c. if should c then percent c else [c]) s)"

definition validEncoded :: "string \<Rightarrow> bool" where
  "validEncoded s = list_all (\<lambda>c. c \<in> set ''!$&()*+,;=:@[]%'' \<or> c = CHR 0x27 \<or> \<not> escape_in_path c) s"

text \<open>\<^verbatim>\<open>QueryEscape\<close> writes a space as a plus sign. \<^verbatim>\<open>ParseQuery\<close> drops parts with a semicolon or a
  malformed escape, and \<^verbatim>\<open>Values.Encode\<close> writes the rest sorted by key. The reverse proxy rewrites a
  query this way when it is malformed.\<close>

definition QueryEscape :: "string \<Rightarrow> string" where
  "QueryEscape s =
     concat (map (\<lambda>c. if c = CHR '' '' then ''+'' else if is_alnum c \<or> c \<in> set ''-_.~'' then [c] else percent c) s)"

definition query_pair :: "string \<Rightarrow> (string \<times> string) list" where
  "query_pair part =
     (if part = [] \<or> CHR '';'' \<in> set part then []
      else case cut part (CHR ''='') of (k, v, _) \<Rightarrow>
        (case (QueryUnescape k, QueryUnescape v) of (Some k, Some v) \<Rightarrow> [(k, v)] | _ \<Rightarrow> []))"

fun bytes_less :: "string \<Rightarrow> string \<Rightarrow> bool" where
  "bytes_less [] t = (t \<noteq> [])"
| "bytes_less (c # s) [] = False"
| "bytes_less (c # s) (d # t) = (byte c < byte d \<or> c = d \<and> bytes_less s t)"

fun insert_sorted :: "string \<times> string \<Rightarrow> (string \<times> string) list \<Rightarrow> (string \<times> string) list" where
  "insert_sorted p [] = [p]"
| "insert_sorted p (q # qs) = (if bytes_less (fst p) (fst q) then p # q # qs else q # insert_sorted p qs)"

definition reencode_query :: "string \<Rightarrow> string" where
  "reencode_query q =
     join (map (\<lambda>(k, v). QueryEscape k @ ''='' @ QueryEscape v)
             (foldl (\<lambda>ps p. insert_sorted p ps) [] (concat (map query_pair (split q (CHR ''&''))))))
       (CHR ''&'')"

definition cleanQueryParams :: "string \<Rightarrow> string" where
  "cleanQueryParams q = (if CHR '';'' \<in> set q \<or> \<not> escapes_ok q then reencode_query q else q)"

section \<open>URLs\<close>

text \<open>\<^verbatim>\<open>URL.EscapedPath\<close> of a URL with the given \<^verbatim>\<open>Path\<close> and \<^verbatim>\<open>RawPath\<close>.\<close>

definition EscapedPath :: "string \<Rightarrow> string \<Rightarrow> string" where
  "EscapedPath path rawPath =
     (if rawPath \<noteq> [] \<and> validEncoded rawPath \<and> unescape False rawPath = Some path then rawPath
      else if path = ''*'' then ''*''
      else escape escape_in_path path)"

text \<open>\<^verbatim>\<open>URL.String\<close> of a URL without user, opaque part and fragment, which is what a server parses
  out of a request line; \<open>scheme\<close> and \<open>host\<close> are empty there.\<close>

definition URL_String :: "string \<Rightarrow> string \<Rightarrow> string \<Rightarrow> string \<Rightarrow> string \<Rightarrow> string" where
  "URL_String scheme host path rawPath rawQuery =
     (let pre = (if scheme \<noteq> [] then scheme @ '':'' else []) @
                (if scheme \<noteq> [] \<or> host \<noteq> []
                 then (if host \<noteq> [] \<or> path \<noteq> [] then ''//'' else []) @ escape escape_in_host host
                 else []);
          p = EscapedPath path rawPath;
          pre = pre @ (if p \<noteq> [] \<and> hd p \<noteq> CHR ''/'' \<and> host \<noteq> [] then ''/'' else []);
          pre = (if pre = [] \<and> CHR '':'' \<in> set (fst (cut p (CHR ''/''))) then ''./'' else pre)
      in pre @ p @ (if rawQuery \<noteq> [] then ''?'' @ rawQuery else []))"

section \<open>Round trip\<close>

lemma byte_lt: "byte c < 256"
  unfolding byte_def by (metis of_char_of of_char_mod_256 mod_less_divisor zero_less_numeral)

lemma hex_val_hex_upper: "n < 16 \<Longrightarrow> hex_val (hex_upper n) = Some n"
  by (auto simp: hex_val_def hex_upper_def is_digit_def digit_val_def byte_char_of lower_char_def is_upper_def)

lemma decode_percent [simp]: "decode_bytes qm (percent c @ s) = c # decode_bytes qm s"
proof -
  have "byte c div 16 < 16" using byte_lt [of c] by simp
  then show ?thesis by (simp add: percent_def hex_val_hex_upper) (simp add: byte_def)
qed

lemma escapes_ok_percent [simp]: "escapes_ok (percent c @ s) = escapes_ok s"
  using byte_lt [of c] by (simp add: percent_def hex_val_hex_upper)

lemma unescape_percent_encoded:
  assumes "\<And>c. c \<in> set s \<Longrightarrow> c = CHR ''%'' \<or> (qm \<and> c = CHR ''+'') \<Longrightarrow> should c"
  shows "unescape qm (escape should s) = Some s"
proof -
  have "escapes_ok (escape should s) \<and> decode_bytes qm (escape should s) = s"
    using assms by (induction s) (auto simp: escape_def)
  then show ?thesis by (simp add: unescape_def)
qed

lemma unescape_plain: "CHR ''%'' \<notin> set s \<Longrightarrow> \<not> qm \<or> CHR ''+'' \<notin> set s \<Longrightarrow> unescape qm s = Some s"
proof -
  assume "CHR ''%'' \<notin> set s" "\<not> qm \<or> CHR ''+'' \<notin> set s"
  then have "escapes_ok s \<and> decode_bytes qm s = s" by (induction s) auto
  then show ?thesis by (simp add: unescape_def)
qed

end
