(* ===== verification/Proxy_Writer.thy ===== *)
theory Proxy_Writer
  imports Go_Url
begin

text \<open>
  Response writers. \<open>writer_ops\<close> is Go's interface \<^verbatim>\<open>http.ResponseWriter\<close> (with \<^verbatim>\<open>Flush\<close>) as a record of
  functions on the state of a writer, so that the proxy's wrappers, which hold another writer, can be
  stacked on anything that implements it. \<open>conn\<close> is the writer at the bottom, the one \<^verbatim>\<open>net/http\<close>
  hands to a handler. \<open>recorder\<close> is \<^verbatim>\<open>internal/proxy/recorder.go\<close>.

  The contract of a writer is the locale \<open>response_writer\<close>: what a client has received only grows,
  and the status it has seen is settled by the first header that is not informational.
\<close>

section \<open>The interface\<close>

record 'w writer_ops =
  wo_Header :: "'w \<Rightarrow> header"
  wo_SetHeader :: "header \<Rightarrow> 'w \<Rightarrow> 'w"
  wo_WriteHeader :: "int \<Rightarrow> 'w \<Rightarrow> 'w"
  wo_Write :: "string \<Rightarrow> 'w \<Rightarrow> 'w \<times> nat"
  wo_Flush :: "'w \<Rightarrow> 'w"

text \<open>A write returns how many bytes were taken; it failed if these are fewer than it was given.
  Handlers edit the header map in place: \<open>edit_header\<close> is such an edit.\<close>

definition edit_header :: "'w writer_ops \<Rightarrow> (header \<Rightarrow> header) \<Rightarrow> 'w \<Rightarrow> 'w" where
  "edit_header ops f w = wo_SetHeader ops (f (wo_Header ops w)) w"

section \<open>The connection to the client\<close>

text \<open>What the client has received: informational responses, then the final status with the headers as
  they were at that moment, then the body. \<open>cl_room\<close> is how many bytes of a body the connection still
  takes, for whatever reason it stops taking them (the client goes away, the declared length is
  exceeded, the response may not have a body); \<^const>\<open>None\<close> is no bound.\<close>

record conn =
  cl_header :: header
  cl_info :: "int list"
  cl_sent :: "(int \<times> header) option"
  cl_body :: string
  cl_room :: "nat option"

definition new_conn :: "nat option \<Rightarrow> conn" where
  "new_conn room = \<lparr>cl_header = [], cl_info = [], cl_sent = None, cl_body = [], cl_room = room\<rparr>"

definition informational :: "int \<Rightarrow> bool" where
  "informational status \<longleftrightarrow> 100 \<le> status \<and> status \<le> 199 \<and> status \<noteq> 101"

definition conn_WriteHeader :: "int \<Rightarrow> conn \<Rightarrow> conn" where
  "conn_WriteHeader status w =
     (if cl_sent w \<noteq> None then w
      else if informational status then w\<lparr>cl_info := cl_info w @ [status]\<rparr>
      else w\<lparr>cl_sent := Some (status, cl_header w)\<rparr>)"

definition conn_Write :: "string \<Rightarrow> conn \<Rightarrow> conn \<times> nat" where
  "conn_Write b w =
     (let w = conn_WriteHeader 200 w;
          n = (case cl_room w of None \<Rightarrow> length b | Some m \<Rightarrow> min m (length b))
      in (w\<lparr>cl_body := cl_body w @ take n b, cl_room := map_option (\<lambda>m. m - n) (cl_room w)\<rparr>, n))"

definition conn_Flush :: "conn \<Rightarrow> conn" where
  "conn_Flush w = conn_WriteHeader 200 w"

definition conn_ops :: "conn writer_ops" where
  "conn_ops = \<lparr>wo_Header = cl_header, wo_SetHeader = (\<lambda>h w. w\<lparr>cl_header := h\<rparr>),
     wo_WriteHeader = conn_WriteHeader, wo_Write = conn_Write, wo_Flush = conn_Flush\<rparr>"

section \<open>The recorder\<close>

record 'w recorder =
  rc_inner :: 'w
  rc_status :: int
  rc_written :: int
  rc_headerSent :: bool

definition new_recorder :: "'w \<Rightarrow> 'w recorder" where
  "new_recorder w = \<lparr>rc_inner = w, rc_status = 0, rc_written = 0, rc_headerSent = False\<rparr>"

definition recorder_WriteHeader :: "'w writer_ops \<Rightarrow> int \<Rightarrow> 'w recorder \<Rightarrow> 'w recorder" where
  "recorder_WriteHeader ops status r =
     (if rc_headerSent r then r
      else r\<lparr>rc_status := status, rc_headerSent := True, rc_inner := wo_WriteHeader ops status (rc_inner r)\<rparr>)"

definition recorder_Write :: "'w writer_ops \<Rightarrow> string \<Rightarrow> 'w recorder \<Rightarrow> 'w recorder \<times> nat" where
  "recorder_Write ops b r =
     (let r = (if \<not> rc_headerSent r then recorder_WriteHeader ops 200 r else r);
          (w, n) = wo_Write ops b (rc_inner r)
      in (r\<lparr>rc_inner := w, rc_written := rc_written r + int n\<rparr>, n))"

definition dirty :: "'w recorder \<Rightarrow> bool" where
  "dirty r \<longleftrightarrow> rc_headerSent r \<or> rc_written r > 0"

text \<open>The embedded writer supplies \<^verbatim>\<open>Header\<close>; \<^verbatim>\<open>Flush\<close> is reached through \<^verbatim>\<open>Unwrap\<close>.\<close>

definition recorder_ops :: "'w writer_ops \<Rightarrow> 'w recorder writer_ops" where
  "recorder_ops ops =
     \<lparr>wo_Header = (\<lambda>r. wo_Header ops (rc_inner r)),
      wo_SetHeader = (\<lambda>h r. r\<lparr>rc_inner := wo_SetHeader ops h (rc_inner r)\<rparr>),
      wo_WriteHeader = recorder_WriteHeader ops, wo_Write = recorder_Write ops,
      wo_Flush = (\<lambda>r. r\<lparr>rc_inner := wo_Flush ops (rc_inner r)\<rparr>)\<rparr>"

lemmas writer_ops_defs = conn_ops_def recorder_ops_def

lemma conn_ops_simps [simp]:
  "wo_Header conn_ops = cl_header" "wo_SetHeader conn_ops h w = w\<lparr>cl_header := h\<rparr>"
  "wo_WriteHeader conn_ops = conn_WriteHeader" "wo_Write conn_ops = conn_Write" "wo_Flush conn_ops = conn_Flush"
  by (simp_all add: conn_ops_def)

lemma recorder_ops_simps [simp]:
  "wo_Header (recorder_ops ops) r = wo_Header ops (rc_inner r)"
  "wo_SetHeader (recorder_ops ops) h r = r\<lparr>rc_inner := wo_SetHeader ops h (rc_inner r)\<rparr>"
  "wo_WriteHeader (recorder_ops ops) = recorder_WriteHeader ops"
  "wo_Write (recorder_ops ops) = recorder_Write ops"
  "wo_Flush (recorder_ops ops) r = r\<lparr>rc_inner := wo_Flush ops (rc_inner r)\<rparr>"
  by (simp_all add: recorder_ops_def)

section \<open>The contract of a writer\<close>

text \<open>\<open>received\<close> is what has reached the client through a writer: the final status if there is one,
  and the body. Every operation only adds to it.\<close>

definition grows :: "(int \<times> header) option \<times> string \<Rightarrow> (int \<times> header) option \<times> string \<Rightarrow> bool" where
  "grows a b \<longleftrightarrow> (fst a \<noteq> None \<longrightarrow> fst b = fst a) \<and> (\<exists>more. snd b = snd a @ more)"

lemma grows_refl [simp, intro]: "grows a a"
  by (simp add: grows_def)

lemma grows_trans: "grows a b \<Longrightarrow> grows b c \<Longrightarrow> grows a c"
  by (auto simp: grows_def)

locale response_writer =
  fixes ops :: "'w writer_ops"
    and received :: "'w \<Rightarrow> (int \<times> header) option \<times> string"
  assumes SetHeader_silent: "received (wo_SetHeader ops h w) = received w"
    and WriteHeader_grows: "grows (received w) (received (wo_WriteHeader ops st w))"
    and Write_grows: "grows (received w) (received (fst (wo_Write ops b w)))"
    and Flush_grows: "grows (received w) (received (wo_Flush ops w))"
begin

lemma edit_silent: "received (edit_header ops f w) = received w"
  by (simp add: edit_header_def SetHeader_silent)

text \<open>The recorder over a writer is a writer.\<close>

lemma recorder_laws:
  "received (rc_inner (wo_SetHeader (recorder_ops ops) h r)) = received (rc_inner r)"
  "grows (received (rc_inner r)) (received (rc_inner (wo_WriteHeader (recorder_ops ops) st r)))"
  "grows (received (rc_inner r)) (received (rc_inner (fst (wo_Write (recorder_ops ops) b r))))"
  "grows (received (rc_inner r)) (received (rc_inner (wo_Flush (recorder_ops ops) r)))"
proof -
  have hdr: "grows (received (rc_inner r)) (received (rc_inner (recorder_WriteHeader ops st r)))" for st r
    by (simp add: recorder_WriteHeader_def WriteHeader_grows)
  then show "grows (received (rc_inner r)) (received (rc_inner (wo_WriteHeader (recorder_ops ops) st r)))" by simp
  have "grows (received (rc_inner r)) (received (rc_inner (if \<not> rc_headerSent r then recorder_WriteHeader ops 200 r else r)))"
    using hdr by simp
  from grows_trans [OF this Write_grows]
  show "grows (received (rc_inner r)) (received (rc_inner (fst (wo_Write (recorder_ops ops) b r))))"
    by (simp add: recorder_Write_def Let_def split_beta)
qed (simp_all add: SetHeader_silent Flush_grows)

end

abbreviation conn_received :: "conn \<Rightarrow> (int \<times> header) option \<times> string" where
  "conn_received w \<equiv> (cl_sent w, cl_body w)"

locale recorded_writer = response_writer

sublocale recorded_writer \<subseteq> recorded: response_writer "recorder_ops ops" "\<lambda>r. received (rc_inner r)"
  by unfold_locales (rule recorder_laws)+

interpretation client: recorded_writer conn_ops conn_received
  by unfold_locales
    (auto simp: grows_def conn_WriteHeader_def conn_Write_def conn_Flush_def Let_def)

section \<open>What the recorder reports\<close>

text \<open>With no informational response, what the recorder says is what the client got.\<close>

lemma recorder_reports:
  assumes "cl_sent (rc_inner r) = None" "\<not> rc_headerSent r" "\<not> informational st"
  shows "rc_status (recorder_WriteHeader conn_ops st r) = st \<and>
    cl_sent (rc_inner (recorder_WriteHeader conn_ops st r)) = Some (st, cl_header (rc_inner r))"
  using assms by (simp add: recorder_WriteHeader_def conn_WriteHeader_def)

text \<open>An informational response makes the proxy lose the real status: when an upstream sends one, such
  as 100 Continue or 103 Early Hints, before its final status, the recorder takes it for the final
  one, so the client receives the body under status 200 whatever the upstream's status was, and the
  metrics and the access log are given the informational code.\<close>

theorem informational_loses_status:
  assumes "informational st1" "b \<noteq> []"
  shows "let r1 = recorder_WriteHeader conn_ops st1 (new_recorder (new_conn None));
             r2 = recorder_WriteHeader conn_ops st2 (edit_header (recorder_ops conn_ops) (\<lambda>_. h) r1);
             r3 = fst (recorder_Write conn_ops b r2)
         in cl_info (rc_inner r3) = [st1] \<and> cl_sent (rc_inner r3) = Some (200, h) \<and> cl_body (rc_inner r3) = b \<and>
            rc_status r3 = st1"
proof -
  have "\<not> informational 200" by (simp add: informational_def)
  with assms show ?thesis
    by (simp add: recorder_WriteHeader_def recorder_Write_def new_recorder_def new_conn_def conn_WriteHeader_def
      conn_Write_def edit_header_def Let_def)
qed

theorem informational_loses_status_witness:
  "cl_sent (rc_inner (fst (recorder_Write conn_ops ''gone'' (recorder_WriteHeader conn_ops 404
      (edit_header (recorder_ops conn_ops) (\<lambda>_. [(''Content-Length'', [''4''])])
        (recorder_WriteHeader conn_ops 103 (new_recorder (new_conn None)))))))) = Some (200, [(''Content-Length'', [''4''])])"
  using informational_loses_status [of 103 "''gone''" 404 "[(''Content-Length'', [''4''])]"]
  by (simp add: informational_def Let_def)

end
