(* ===== verification/Proxy_Page.thy ===== *)
theory Proxy_Page
  imports Proxy_Writer Domain_Settings
begin

text \<open>
  \<^verbatim>\<open>internal/proxy/page.go\<close> and \<^verbatim>\<open>writeProblem\<close> of \<^verbatim>\<open>internal/proxy/handler.go\<close>: the pages the proxy
  writes itself, and \<^verbatim>\<open>http.Redirect\<close>, which the handler uses for its redirects. \<open>quoted\<close> marks the
  places of a literal where the source has a double quote.
\<close>

definition quoted :: "string \<Rightarrow> string" where
  "quoted s = map (\<lambda>c. if c = CHR ''~'' then CHR 0x22 else c) s"

text \<open>\<^verbatim>\<open>html.EscapeString\<close>.\<close>

definition escape_char :: "char \<Rightarrow> string" where
  "escape_char c =
     (if c = CHR ''&'' then ''&amp;''
      else if c = CHR 0x27 then ''&#39;''
      else if c = CHR ''<'' then ''&lt;''
      else if c = CHR ''>'' then ''&gt;''
      else if c = CHR 0x22 then ''&#34;''
      else [c])"

definition EscapeString :: "string \<Rightarrow> string" where
  "EscapeString s = concat (map escape_char s)"

definition StatusText :: "int \<Rightarrow> string" where
  "StatusText code =
     (if code = 301 then ''Moved Permanently''
      else if code = 302 then ''Found''
      else if code = 307 then ''Temporary Redirect''
      else if code = 308 then ''Permanent Redirect''
      else if code = 502 then ''Bad Gateway''
      else if code = 503 then ''Service Unavailable''
      else [])"

definition page_style :: string where
  "page_style =
     quoted (''<!doctype html><html lang=~en~><head><meta charset=~utf-8~>'' @
       ''<meta name=~viewport~ content=~width=device-width,initial-scale=1~>'') "

definition page_css :: string where
  "page_css =
     '':root{color-scheme:light dark}'' @ ''*{box-sizing:border-box}'' @
     ''body{margin:0;min-height:100vh;display:flex;align-items:center;justify-content:center;'' @
     ''padding:24px;background:#fafafa;color:#171717;'' @
     quoted ''font:16px/1.6 system-ui,-apple-system,~Segoe UI~,Roboto,sans-serif}'' @
     ''main{max-width:32rem;text-align:center}'' @
     ''h1{margin:0 0 .75rem;font-size:1.5rem;font-weight:600;letter-spacing:-.01em}'' @
     ''p{margin:0;color:#525252}'' @
     ''.code{margin-top:2rem;font:12px ui-monospace,SFMono-Regular,Menlo,monospace;color:#a3a3a3}'' @
     ''@media(prefers-color-scheme:dark){body{background:#0a0a0a;color:#fafafa}'' @
     ''p{color:#a3a3a3}.code{color:#525252}}''"

definition breaks :: "string \<Rightarrow> string" where
  "breaks s = concat (map (\<lambda>c. if byte c = 10 then ''<br>'' else [c]) s)"

definition renderPage :: "string \<Rightarrow> string \<Rightarrow> int \<Rightarrow> string" where
  "renderPage title message status =
     page_style @ ''<title>'' @ EscapeString title @ ''</title><style>'' @ page_css @
     ''</style></head><body><main><h1>'' @ EscapeString title @ ''</h1>'' @
     (if message \<noteq> [] then ''<p>'' @ breaks (EscapeString message) @ ''</p>'' else []) @
     quoted ''<p class=~code~>'' @ itoa status @ '' &middot; ponzproxy</p></main></body></html>''"

definition writePage :: "'w writer_ops \<Rightarrow> int \<Rightarrow> string \<Rightarrow> string \<Rightarrow> int \<Rightarrow> 'w \<Rightarrow> 'w \<times> nat" where
  "writePage ops status title message retryAfter w =
     (let body = renderPage title message status;
          w = edit_header ops (\<lambda>h.
            let h = (if retryAfter > 0 then Header_Set ''Retry-After'' (itoa retryAfter) h else h);
                h = Header_Set ''Content-Type'' ''text/html; charset=utf-8'' h;
                h = Header_Set ''Content-Length'' (itoa (int (length body))) h;
                h = Header_Set ''X-Content-Type-Options'' ''nosniff'' h
            in Header_Set ''Cache-Control'' ''no-store, must-revalidate'' h) w;
          w = wo_WriteHeader ops status w
      in wo_Write ops body w)"

definition errorPage :: "error_pages \<Rightarrow> int \<Rightarrow> string \<Rightarrow> string \<times> string" where
  "errorPage pages status fallback =
     (if ep_Enabled pages \<and> ep_Title pages \<noteq> [] then (ep_Title pages, ep_Message pages)
      else (StatusText status, fallback))"

definition writeProblem :: "'w writer_ops \<Rightarrow> int \<Rightarrow> string \<Rightarrow> 'w \<Rightarrow> 'w" where
  "writeProblem ops status msg w =
     (let w = edit_header ops (\<lambda>h.
            let h = Header_Set ''Content-Type'' ''text/plain; charset=utf-8'' h;
                h = Header_Set ''Content-Length'' (itoa (int (length msg))) h
            in Header_Set ''X-Content-Type-Options'' ''nosniff'' h) w;
          w = wo_WriteHeader ops status w
      in fst (wo_Write ops msg w))"

text \<open>\<^verbatim>\<open>http.Redirect\<close> to an absolute URL: the header, with bytes outside ASCII escaped, and for a GET a
  short body.\<close>

definition hex_lower :: "nat \<Rightarrow> char" where
  "hex_lower n = (if n < 10 then char_of (48 + n) else char_of (87 + n))"

definition hexEscapeNonASCII :: "string \<Rightarrow> string" where
  "hexEscapeNonASCII s =
     concat (map (\<lambda>c. if byte c \<ge> 128 then [CHR ''%'', hex_lower (byte c div 16), hex_lower (byte c mod 16)] else [c]) s)"

definition http_Redirect :: "'w writer_ops \<Rightarrow> request \<Rightarrow> string \<Rightarrow> int \<Rightarrow> 'w \<Rightarrow> 'w" where
  "http_Redirect ops r url code w =
     (let hadCT = (map_of (wo_Header ops w) ''Content-Type'' \<noteq> None);
          w = edit_header ops (\<lambda>h.
            let h = Header_Set ''Location'' (hexEscapeNonASCII url) h
            in if \<not> hadCT \<and> (q_Method r = ''GET'' \<or> q_Method r = ''HEAD'')
               then Header_Set ''Content-Type'' ''text/html; charset=utf-8'' h else h) w;
          w = wo_WriteHeader ops code w
      in if \<not> hadCT \<and> q_Method r = ''GET''
         then fst (wo_Write ops (quoted ''<a href=~'' @ EscapeString url @ quoted ''~>'' @ StatusText code @ ''</a>.'' @ [CHR 0x0A, CHR 0x0A]) w)
         else w)"

text \<open>Operator text cannot open a tag or leave an attribute: nothing it contributes to a page is markup
  except the line breaks.\<close>

lemma EscapeString_inert: "c \<in> set (EscapeString s) \<Longrightarrow> c \<notin> {CHR ''<'', CHR ''>'', CHR 0x22, CHR 0x27}"
  by (auto simp: EscapeString_def escape_char_def split: if_splits)

end
