(* ===== verification/Proxy_Compress.thy ===== *)
theory Proxy_Compress
  imports Proxy_Writer Domain_Settings
begin

text \<open>
  \<^verbatim>\<open>internal/proxy/compress.go\<close>: the writer that compresses a response once it is known to be worth
  it. The compressor of \<^verbatim>\<open>compress/gzip\<close> is the parameter \<open>gz\<close>, a state machine that turns writes,
  flushes and the close into bytes for the writer below; what is assumed of it is \<open>gzip_sound\<close>, that
  unpacking everything it emitted gives back everything it was given. The pool of compressors hands
  out reset ones, so taking one is \<open>gz_new\<close>.
\<close>

section \<open>Content negotiation\<close>

fun qualityZero_loop :: "string list \<Rightarrow> bool \<times> bool" where
  "qualityZero_loop [] = (False, False)"
| "qualityZero_loop (p # ps) =
     (case cut (trim_space p) (CHR ''='') of (k, v, found) \<Rightarrow>
        if \<not> found \<or> \<not> equal_fold (trim_space k) ''q'' then qualityZero_loop ps
        else (trim_space v \<in> set [''0'', ''0.'', ''0.0'', ''0.00'', ''0.000''], True))"

definition qualityZero :: "string \<Rightarrow> bool \<times> bool" where
  "qualityZero params = qualityZero_loop (split params (CHR '';''))"

definition gzip_part :: "string \<Rightarrow> bool" where
  "gzip_part part =
     (case cut (trim_space part) (CHR '';'') of (token, params, _) \<Rightarrow>
        let token = to_lower (trim_space token)
        in (token = ''gzip'' \<or> token = ''*'') \<and> \<not> (case qualityZero params of (q, ok) \<Rightarrow> ok \<and> q))"

definition acceptsGzip :: "string \<Rightarrow> bool" where
  "acceptsGzip accept = list_ex gzip_part (split accept (CHR '',''))"

definition headerHasToken :: "header \<Rightarrow> string \<Rightarrow> string \<Rightarrow> bool" where
  "headerHasToken h k token =
     list_ex (\<lambda>v. list_ex (\<lambda>part. equal_fold (trim_space part) token) (split v (CHR '',''))) (values_of h k)"

definition isWebSocketUpgrade :: "request \<Rightarrow> bool" where
  "isWebSocketUpgrade r \<longleftrightarrow>
     equal_fold (Header_Get (q_Header r) ''Upgrade'') ''websocket'' \<and> headerHasToken (q_Header r) ''Connection'' ''upgrade''"

text \<open>The loop over the digits wraps at 64 bits.\<close>

fun declared_loop :: "64 word \<Rightarrow> string \<Rightarrow> 64 word option" where
  "declared_loop n [] = Some n"
| "declared_loop n (c # s) =
     (if \<not> is_digit c then None else declared_loop (n * 10 + of_nat (digit_val c)) s)"

definition declaredLength :: "header \<Rightarrow> int option" where
  "declaredLength h =
     (let v = Header_Get h ''Content-Length''
      in if v = [] then None else map_option sint (declared_loop 0 v))"

definition vary_covers :: "string \<Rightarrow> string \<Rightarrow> bool" where
  "vary_covers fld existing =
     list_ex (\<lambda>part. equal_fold (trim_space part) fld \<or> trim_space part = ''*'') (split existing (CHR '',''))"

definition addVary :: "string \<Rightarrow> header \<Rightarrow> header" where
  "addVary fld h = (if list_ex (vary_covers fld) (values_of h ''Vary'') then h else Header_Add ''Vary'' fld h)"

section \<open>The compressor\<close>

record 'g gzip =
  gz_new :: "int \<Rightarrow> 'g"
  gz_Write :: "string \<Rightarrow> 'g \<Rightarrow> 'g \<times> string"
  gz_Flush :: "'g \<Rightarrow> 'g \<times> string"
  gz_Close :: "'g \<Rightarrow> string"

datatype gz_op = GzWrite string | GzFlush

fun gz_run :: "'g gzip \<Rightarrow> gz_op list \<Rightarrow> 'g \<Rightarrow> 'g \<times> string" where
  "gz_run gz [] g = (g, [])"
| "gz_run gz (op # ops) g =
     (let (g, out) = (case op of GzWrite s \<Rightarrow> gz_Write gz s g | GzFlush \<Rightarrow> gz_Flush gz g);
          (g, out') = gz_run gz ops g
      in (g, out @ out'))"

fun gz_input :: "gz_op list \<Rightarrow> string" where
  "gz_input [] = []"
| "gz_input (GzWrite s # ops) = s @ gz_input ops"
| "gz_input (GzFlush # ops) = gz_input ops"

definition gzip_sound :: "'g gzip \<Rightarrow> (string \<Rightarrow> string option) \<Rightarrow> bool" where
  "gzip_sound gz gunzip \<longleftrightarrow>
     (\<forall>level ops. case gz_run gz ops (gz_new gz level) of (g, out) \<Rightarrow> gunzip (out @ gz_Close gz g) = Some (gz_input ops))"

section \<open>The writer\<close>

record ('w, 'g) compressWriter =
  zw_inner :: 'w
  zw_cfg :: compression
  zw_decided :: bool
  zw_compressing :: bool
  zw_status :: int
  zw_wroteHeader :: bool
  zw_buf :: string
  zw_gz :: "'g option"

definition new_zw :: "'w \<Rightarrow> compression \<Rightarrow> ('w, 'g) compressWriter" where
  "new_zw w cfg = \<lparr>zw_inner = w, zw_cfg = cfg, zw_decided = False, zw_compressing = False, zw_status = 0,
     zw_wroteHeader = False, zw_buf = [], zw_gz = None\<rparr>"

text \<open>\<^verbatim>\<open>newCompressWriter\<close> returns its argument unchanged (\<^const>\<open>None\<close> here) when nothing is to be compressed.\<close>

definition newCompressWriter :: "'w \<Rightarrow> request \<Rightarrow> compression \<Rightarrow> ('w, 'g) compressWriter option" where
  "newCompressWriter w r cfg =
     (if \<not> cp_Enabled cfg then None
      else if \<not> acceptsGzip (Header_Get (q_Header r) ''Accept-Encoding'') then None
      else if q_Method r = ''HEAD'' \<or> isWebSocketUpgrade r then None
      else Some (new_zw w cfg))"

definition zw_decide :: "bool \<Rightarrow> ('w, 'g) compressWriter \<Rightarrow> ('w, 'g) compressWriter" where
  "zw_decide b z = z\<lparr>zw_decided := True, zw_compressing := b\<rparr>"

definition zw_settle :: "'w writer_ops \<Rightarrow> int \<Rightarrow> ('w, 'g) compressWriter \<Rightarrow> ('w, 'g) compressWriter" where
  "zw_settle ops status z =
     (let z = zw_decide False z in z\<lparr>zw_inner := wo_WriteHeader ops status (zw_inner z)\<rparr>)"

definition zw_WriteHeader :: "'w writer_ops \<Rightarrow> int \<Rightarrow> ('w, 'g) compressWriter \<Rightarrow> ('w, 'g) compressWriter" where
  "zw_WriteHeader ops status z =
     (if zw_wroteHeader z then z
      else
        let z = z\<lparr>zw_status := status, zw_wroteHeader := True\<rparr>
        in if status = 204 \<or> status = 304 \<or> status < 200 then zw_settle ops status z
           else
             let h = wo_Header ops (zw_inner z)
             in if Header_Get h ''Content-Encoding'' \<noteq> [] then zw_settle ops status z
                else if \<not> Compression_Wants (zw_cfg z) (Header_Get h ''Content-Type'') then zw_settle ops status z
                else
                  let h = addVary ''Accept-Encoding'' h;
                      z = z\<lparr>zw_inner := wo_SetHeader ops h (zw_inner z)\<rparr>
                  in (case declaredLength h of
                        Some n \<Rightarrow> if n < cp_MinBytes (zw_cfg z) then zw_settle ops status z else z
                      | None \<Rightarrow> z))"

definition statusOrOK :: "('w, 'g) compressWriter \<Rightarrow> int" where
  "statusOrOK z = (if zw_status z = 0 then 200 else zw_status z)"

definition compressed_header :: "header \<Rightarrow> header" where
  "compressed_header h =
     (let h = Header_Set ''Content-Encoding'' ''gzip'' h;
          h = Header_Del ''Content-Length'' h;
          tag = Header_Get h ''Etag''
      in if tag \<noteq> [] \<and> \<not> has_prefix tag ''W/'' then Header_Set ''Etag'' (''W/'' @ tag) h else h)"

definition zw_start :: "'w writer_ops \<Rightarrow> 'g gzip \<Rightarrow> bool \<Rightarrow> ('w, 'g) compressWriter \<Rightarrow> ('w, 'g) compressWriter" where
  "zw_start ops gz compress z =
     (if zw_decided z then z
      else
        let z = zw_decide compress z;
            z = (if compress
                 then z\<lparr>zw_inner := edit_header ops compressed_header (zw_inner z),
                        zw_gz := Some (gz_new gz (cp_Level (zw_cfg z)))\<rparr>
                 else z)
        in z\<lparr>zw_inner := wo_WriteHeader ops (statusOrOK z) (zw_inner z)\<rparr>)"

text \<open>A write to the compressor passes what it emits to the writer below and fails if that does not take
  all of it. With no compressor the code would dereference a nil pointer; \<open>zw_start\<close> sets it before.\<close>

definition zw_gzWrite :: "'w writer_ops \<Rightarrow> 'g gzip \<Rightarrow> string \<Rightarrow> ('w, 'g) compressWriter \<Rightarrow> ('w, 'g) compressWriter \<times> nat" where
  "zw_gzWrite ops gz p z =
     (case zw_gz z of
        None \<Rightarrow> (z, 0)
      | Some g \<Rightarrow>
          let (g, out) = gz_Write gz p g;
              (w, n) = wo_Write ops out (zw_inner z)
          in (z\<lparr>zw_inner := w, zw_gz := Some g\<rparr>, if n < length out then 0 else length p))"

definition zw_write :: "'w writer_ops \<Rightarrow> 'g gzip \<Rightarrow> string \<Rightarrow> ('w, 'g) compressWriter \<Rightarrow> ('w, 'g) compressWriter \<times> nat" where
  "zw_write ops gz p z =
     (if zw_compressing z then zw_gzWrite ops gz p z
      else let (w, n) = wo_Write ops p (zw_inner z) in (z\<lparr>zw_inner := w\<rparr>, n))"

definition zw_Write :: "'w writer_ops \<Rightarrow> 'g gzip \<Rightarrow> string \<Rightarrow> ('w, 'g) compressWriter \<Rightarrow> ('w, 'g) compressWriter \<times> nat" where
  "zw_Write ops gz p z =
     (let z = (if \<not> zw_wroteHeader z then zw_WriteHeader ops 200 z else z)
      in if zw_decided z then zw_write ops gz p z
         else
           let z = z\<lparr>zw_buf := zw_buf z @ p\<rparr>
           in if int (length (zw_buf z)) < cp_MinBytes (zw_cfg z) then (z, length p)
              else
                let z = zw_start ops gz True z;
                    held = zw_buf z;
                    (z, n) = zw_gzWrite ops gz held (z\<lparr>zw_buf := []\<rparr>)
                in (z, if n < length held then 0 else length p))"

definition zw_gzFlush :: "'w writer_ops \<Rightarrow> 'g gzip \<Rightarrow> ('w, 'g) compressWriter \<Rightarrow> ('w, 'g) compressWriter" where
  "zw_gzFlush ops gz z =
     (case zw_gz z of
        None \<Rightarrow> z
      | Some g \<Rightarrow> let (g, out) = gz_Flush gz g in z\<lparr>zw_inner := fst (wo_Write ops out (zw_inner z)), zw_gz := Some g\<rparr>)"

definition zw_Flush :: "'w writer_ops \<Rightarrow> 'g gzip \<Rightarrow> ('w, 'g) compressWriter \<Rightarrow> ('w, 'g) compressWriter" where
  "zw_Flush ops gz z =
     (if \<not> zw_decided z \<and> length (zw_buf z) = 0 then z
      else
        let z = (if \<not> zw_decided z then
                   let z = zw_start ops gz (int (length (zw_buf z)) \<ge> cp_MinBytes (zw_cfg z)) z
                   in fst (zw_write ops gz (zw_buf z) (z\<lparr>zw_buf := []\<rparr>))
                 else z);
            z = (if zw_compressing z then zw_gzFlush ops gz z else z)
        in z\<lparr>zw_inner := wo_Flush ops (zw_inner z)\<rparr>)"

definition zw_Close :: "'w writer_ops \<Rightarrow> 'g gzip \<Rightarrow> ('w, 'g) compressWriter \<Rightarrow> ('w, 'g) compressWriter" where
  "zw_Close ops gz z =
     (if \<not> zw_decided z then
        let z = zw_start ops gz False z
        in if length (zw_buf z) > 0
           then z\<lparr>zw_inner := fst (wo_Write ops (zw_buf z) (zw_inner z)), zw_buf := []\<rparr>
           else z
      else case zw_gz z of
        Some g \<Rightarrow> if zw_compressing z
                   then z\<lparr>zw_inner := fst (wo_Write ops (gz_Close gz g) (zw_inner z)), zw_gz := None\<rparr> else z
      | None \<Rightarrow> z)"

definition compress_ops :: "'w writer_ops \<Rightarrow> 'g gzip \<Rightarrow> ('w, 'g) compressWriter writer_ops" where
  "compress_ops ops gz =
     \<lparr>wo_Header = (\<lambda>z. wo_Header ops (zw_inner z)),
      wo_SetHeader = (\<lambda>h z. z\<lparr>zw_inner := wo_SetHeader ops h (zw_inner z)\<rparr>),
      wo_WriteHeader = zw_WriteHeader ops, wo_Write = zw_Write ops gz, wo_Flush = zw_Flush ops gz\<rparr>"

lemma compress_ops_simps [simp]:
  "wo_Header (compress_ops ops gz) z = wo_Header ops (zw_inner z)"
  "wo_SetHeader (compress_ops ops gz) h z = z\<lparr>zw_inner := wo_SetHeader ops h (zw_inner z)\<rparr>"
  "wo_WriteHeader (compress_ops ops gz) = zw_WriteHeader ops"
  "wo_Write (compress_ops ops gz) = zw_Write ops gz"
  "wo_Flush (compress_ops ops gz) = zw_Flush ops gz"
  by (simp_all add: compress_ops_def)

section \<open>The contract of a writer\<close>

locale compressed_writer = response_writer +
  fixes gz :: "'g gzip"
begin

abbreviation zgrows :: "('a, 'g) compressWriter \<Rightarrow> ('a, 'g) compressWriter \<Rightarrow> bool" where
  "zgrows z z' \<equiv> grows (received (zw_inner z)) (received (zw_inner z'))"

lemma settle_grows: "zgrows z (zw_settle ops st z)"
  by (simp add: zw_settle_def zw_decide_def Let_def WriteHeader_grows)

lemma zw_WriteHeader_grows: "zgrows z (zw_WriteHeader ops st z)"
proof -
  have "zgrows z (zw_settle ops st (z\<lparr>zw_status := st, zw_wroteHeader := True\<rparr>))"
    using settle_grows [of "z\<lparr>zw_status := st, zw_wroteHeader := True\<rparr>" st] by simp
  moreover have "zgrows z (zw_settle ops st (z\<lparr>zw_status := st, zw_wroteHeader := True, zw_inner := wo_SetHeader ops h (zw_inner z)\<rparr>))" for h
    using settle_grows [of "z\<lparr>zw_status := st, zw_wroteHeader := True, zw_inner := wo_SetHeader ops h (zw_inner z)\<rparr>" st]
    by (simp add: SetHeader_silent)
  ultimately show ?thesis
    by (simp add: zw_WriteHeader_def Let_def SetHeader_silent split: option.splits)
qed

lemma start_grows: "zgrows z (zw_start ops gz b z)"
proof -
  have "grows (received (zw_inner z)) (received (wo_WriteHeader ops st (edit_header ops f (zw_inner z))))" for st f
    using WriteHeader_grows [of "edit_header ops f (zw_inner z)" st] by (simp add: edit_silent)
  then show ?thesis by (simp add: zw_start_def zw_decide_def Let_def WriteHeader_grows)
qed

lemma gzWrite_grows: "zgrows z (fst (zw_gzWrite ops gz p z))"
  by (auto simp: zw_gzWrite_def Let_def split_beta Write_grows split: option.splits)

lemma write_grows: "zgrows z (fst (zw_write ops gz p z))"
  by (simp add: zw_write_def Let_def split_beta Write_grows gzWrite_grows)

lemma started_write_grows:
  "zgrows z (fst (zw_gzWrite ops gz p (zw_start ops gz b z\<lparr>zw_buf := q\<rparr>)))"
  "zgrows z (fst (zw_write ops gz p (zw_start ops gz b z\<lparr>zw_buf := q\<rparr>)))"
proof -
  let ?y = "zw_start ops gz b z\<lparr>zw_buf := q\<rparr>"
  have "zgrows z ?y" using start_grows [of z b] by simp
  then show "zgrows z (fst (zw_gzWrite ops gz p ?y))" "zgrows z (fst (zw_write ops gz p ?y))"
    using gzWrite_grows [of ?y p] write_grows [of ?y p] by (blast intro: grows_trans)+
qed

lemma zw_Write_grows: "zgrows z (fst (zw_Write ops gz p z))"
proof -
  define z1 where "z1 = (if \<not> zw_wroteHeader z then zw_WriteHeader ops 200 z else z)"
  have 1: "zgrows z z1" by (simp add: z1_def zw_WriteHeader_grows)
  have "zgrows z1 (fst (zw_gzWrite ops gz q (zw_start ops gz True (z1\<lparr>zw_buf := q\<rparr>)\<lparr>zw_buf := []\<rparr>)))" for q
    using started_write_grows(1) [where z = "z1\<lparr>zw_buf := q\<rparr>" and b = True and q = "[]" and p = q] by simp
  then have "zgrows z1 (fst (zw_Write ops gz p z))"
    unfolding zw_Write_def z1_def [symmetric] Let_def
    by (auto simp: split_beta write_grows zw_start_def zw_decide_def Let_def)
  with 1 show ?thesis by (rule grows_trans)
qed

lemma zw_Flush_grows: "zgrows z (zw_Flush ops gz z)"
proof -
  define z1 where "z1 = (if \<not> zw_decided z then
      let z = zw_start ops gz (int (length (zw_buf z)) \<ge> cp_MinBytes (zw_cfg z)) z
      in fst (zw_write ops gz (zw_buf z) (z\<lparr>zw_buf := []\<rparr>)) else z)"
  define z2 where "z2 = (if zw_compressing z1 then zw_gzFlush ops gz z1 else z1)"
  have 1: "zgrows z z1" by (simp add: z1_def Let_def started_write_grows(2))
  have 2: "zgrows z1 z2" by (auto simp: z2_def zw_gzFlush_def Let_def split_beta Write_grows split: option.splits)
  have "zw_Flush ops gz z = (if \<not> zw_decided z \<and> length (zw_buf z) = 0 then z else z2\<lparr>zw_inner := wo_Flush ops (zw_inner z2)\<rparr>)"
    unfolding zw_Flush_def z2_def z1_def by (simp add: Let_def)
  moreover have "zgrows z (z2\<lparr>zw_inner := wo_Flush ops (zw_inner z2)\<rparr>)"
    using grows_trans [OF grows_trans [OF 1 2] Flush_grows] by simp
  ultimately show ?thesis by simp
qed

end

sublocale compressed_writer \<subseteq> compressed: response_writer "compress_ops ops gz" "\<lambda>z. received (zw_inner z)"
  by unfold_locales (simp_all add: SetHeader_silent zw_WriteHeader_grows zw_Write_grows zw_Flush_grows)

interpretation zclient: compressed_writer conn_ops conn_received gz for gz
  by unfold_locales

section \<open>Transparency\<close>

text \<open>What a handler does to the writer after the header: it writes and flushes.\<close>

datatype body_op = BWrite string | BFlush

fun body_data :: "body_op list \<Rightarrow> string" where
  "body_data [] = []"
| "body_data (BWrite b # bs) = b @ body_data bs"
| "body_data (BFlush # bs) = body_data bs"

fun zw_exec :: "'w writer_ops \<Rightarrow> 'g gzip \<Rightarrow> body_op list \<Rightarrow> ('w, 'g) compressWriter \<Rightarrow> ('w, 'g) compressWriter" where
  "zw_exec ops gz [] z = z"
| "zw_exec ops gz (BWrite b # bs) z = zw_exec ops gz bs (fst (zw_Write ops gz b z))"
| "zw_exec ops gz (BFlush # bs) z = zw_exec ops gz bs (zw_Flush ops gz z)"

text \<open>The three phases of the writer over a connection, after \<open>d\<close> was written under status \<open>st\<close> and
  header \<open>h\<close>.\<close>

definition held :: "int \<Rightarrow> header \<Rightarrow> string \<Rightarrow> (conn, 'g) compressWriter \<Rightarrow> bool" where
  "held st h d z \<longleftrightarrow> \<not> zw_decided z \<and> zw_wroteHeader z \<and> zw_status z = st \<and> zw_buf z = d \<and> cl_sent (zw_inner z) = None \<and>
     cl_body (zw_inner z) = [] \<and> cl_header (zw_inner z) = h \<and> cl_room (zw_inner z) = None"

definition passing :: "int \<Rightarrow> header \<Rightarrow> string \<Rightarrow> (conn, 'g) compressWriter \<Rightarrow> bool" where
  "passing st h d z \<longleftrightarrow> zw_decided z \<and> \<not> zw_compressing z \<and> zw_wroteHeader z \<and> cl_sent (zw_inner z) = Some (st, h) \<and>
     cl_body (zw_inner z) = d \<and> cl_room (zw_inner z) = None"

definition packing :: "'g gzip \<Rightarrow> int \<Rightarrow> header \<Rightarrow> string \<Rightarrow> (conn, 'g) compressWriter \<Rightarrow> bool" where
  "packing gz st h d z \<longleftrightarrow> zw_decided z \<and> zw_compressing z \<and> zw_wroteHeader z \<and>
     cl_sent (zw_inner z) = Some (st, compressed_header h) \<and> cl_room (zw_inner z) = None \<and>
     (\<exists>level gops g. gz_run gz gops (gz_new gz level) = (g, cl_body (zw_inner z)) \<and> gz_input gops = d \<and> zw_gz z = Some g)"

lemma gz_run_append:
  "gz_run gz (xs @ ys) g = (let (g1, o1) = gz_run gz xs g; (g2, o2) = gz_run gz ys g1 in (g2, o1 @ o2))"
  by (induction xs arbitrary: g) (auto simp: Let_def split: prod.splits)

lemma gz_input_append: "gz_input (xs @ ys) = gz_input xs @ gz_input ys"
  by (induction xs rule: gz_input.induct) auto

lemma conn_Write_open:
  "cl_sent w = Some x \<Longrightarrow> cl_room w = None \<Longrightarrow> conn_Write b w = (w\<lparr>cl_body := cl_body w @ b\<rparr>, length b)"
  by (simp add: conn_Write_def conn_WriteHeader_def Let_def)

lemma conn_Flush_open: "cl_sent w = Some x \<Longrightarrow> conn_Flush w = w"
  by (simp add: conn_Flush_def conn_WriteHeader_def)

lemma passing_write:
  "passing st h d z \<Longrightarrow> passing st h (d @ p) (fst (zw_write conn_ops gz p z))"
  by (auto simp: passing_def zw_write_def conn_Write_open)

lemma packing_write:
  assumes "packing gz st h d z"
  shows "packing gz st h (d @ p) (fst (zw_gzWrite conn_ops gz p z))"
proof -
  from assms obtain level gops g where g: "gz_run gz gops (gz_new gz level) = (g, cl_body (zw_inner z))"
    "gz_input gops = d" "zw_gz z = Some g" and s: "cl_sent (zw_inner z) = Some (st, compressed_header h)" "cl_room (zw_inner z) = None"
    by (auto simp: packing_def)
  obtain g' out where w: "gz_Write gz p g = (g', out)" by fastforce
  have "gz_run gz (gops @ [GzWrite p]) (gz_new gz level) = (g', cl_body (zw_inner z) @ out)"
    "gz_input (gops @ [GzWrite p]) = d @ p"
    using g w by (simp_all add: gz_run_append gz_input_append)
  with assms g s w show ?thesis
    by (auto simp: packing_def zw_gzWrite_def conn_Write_open)
qed

lemma packing_flush:
  assumes "packing gz st h d z"
  shows "packing gz st h d (zw_gzFlush conn_ops gz z)"
proof -
  from assms obtain level gops g where g: "gz_run gz gops (gz_new gz level) = (g, cl_body (zw_inner z))"
    "gz_input gops = d" "zw_gz z = Some g" and s: "cl_sent (zw_inner z) = Some (st, compressed_header h)" "cl_room (zw_inner z) = None"
    by (auto simp: packing_def)
  obtain g' out where w: "gz_Flush gz g = (g', out)" by fastforce
  have "gz_run gz (gops @ [GzFlush]) (gz_new gz level) = (g', cl_body (zw_inner z) @ out)"
    "gz_input (gops @ [GzFlush]) = d"
    using g w by (simp_all add: gz_run_append gz_input_append)
  with assms g s w show ?thesis
    by (auto simp: packing_def zw_gzFlush_def conn_Write_open)
qed

lemma held_start:
  assumes "held st h d z" "\<not> informational st" "st \<noteq> 0"
  shows "passing st h [] (zw_start conn_ops gz False z\<lparr>zw_buf := q\<rparr>)"
    and "packing gz st h [] (zw_start conn_ops gz True z\<lparr>zw_buf := q\<rparr>)"
    and "zw_buf (zw_start conn_ops gz b z) = d"
proof -
  have "gz_run gz [] (gz_new gz level) = (gz_new gz level, [])" "gz_input [] = []" for level by simp_all
  then show "packing gz st h [] (zw_start conn_ops gz True z\<lparr>zw_buf := q\<rparr>)"
    using assms unfolding packing_def held_def
    by (auto simp: zw_start_def zw_decide_def Let_def conn_WriteHeader_def statusOrOK_def edit_header_def
      intro!: exI [of _ "cp_Level (zw_cfg z)"] exI [of _ "[]"])
qed (use assms in \<open>auto simp: held_def passing_def zw_start_def zw_decide_def Let_def conn_WriteHeader_def statusOrOK_def\<close>)

definition phase :: "'g gzip \<Rightarrow> int \<Rightarrow> header \<Rightarrow> string \<Rightarrow> (conn, 'g) compressWriter \<Rightarrow> bool" where
  "phase gz st h d z \<longleftrightarrow> held st h d z \<or> passing st h d z \<or> packing gz st h d z"

lemma phase_Write:
  assumes "phase gz st h d z" "\<not> informational st" "st \<noteq> 0"
  shows "phase gz st h (d @ p) (fst (zw_Write conn_ops gz p z)) \<and> (passing st h d z \<longrightarrow> passing st h (d @ p) (fst (zw_Write conn_ops gz p z)))"
proof (cases "held st h d z")
  case True
  let ?z = "z\<lparr>zw_buf := d @ p\<rparr>"
  have h: "held st h (d @ p) ?z" using True by (simp add: held_def)
  have eq: "fst (zw_Write conn_ops gz p z) =
      (if int (length (d @ p)) < cp_MinBytes (zw_cfg z) then ?z
       else fst (zw_gzWrite conn_ops gz (d @ p) (zw_start conn_ops gz True ?z\<lparr>zw_buf := []\<rparr>)))"
    using True held_start(3) [OF h assms(2,3)] by (auto simp: zw_Write_def held_def Let_def split_beta)
  have "packing gz st h ([] @ d @ p) (fst (zw_gzWrite conn_ops gz (d @ p) (zw_start conn_ops gz True ?z\<lparr>zw_buf := []\<rparr>)))"
    by (rule packing_write [OF held_start(2) [OF h assms(2,3)]])
  with h True show ?thesis unfolding eq by (auto simp: phase_def held_def passing_def)
next
  case False
  then have "zw_decided z" "zw_wroteHeader z" using assms(1) by (auto simp: phase_def passing_def packing_def)
  then have eq: "zw_Write conn_ops gz p z = zw_write conn_ops gz p z" by (simp add: zw_Write_def)
  have "packing gz st h d z \<Longrightarrow> packing gz st h (d @ p) (fst (zw_write conn_ops gz p z))"
    using packing_write [of gz st h d z p] by (simp add: zw_write_def packing_def)
  with False assms(1) passing_write [of st h d z p gz] show ?thesis unfolding eq by (auto simp: phase_def)
qed

lemma phase_Flush:
  assumes "phase gz st h d z" "\<not> informational st" "st \<noteq> 0"
  shows "phase gz st h d (zw_Flush conn_ops gz z) \<and> (passing st h d z \<longrightarrow> passing st h d (zw_Flush conn_ops gz z))"
proof -
  have fl: "passing st h d y \<Longrightarrow> passing st h d (y\<lparr>zw_inner := conn_Flush (zw_inner y)\<rparr>)"
    "packing gz st h d y \<Longrightarrow> packing gz st h d (y\<lparr>zw_inner := conn_Flush (zw_inner y)\<rparr>)" for y
    by (auto simp: passing_def packing_def conn_Flush_open)
  define tail where "tail y = (let y = (if zw_compressing y then zw_gzFlush conn_ops gz y else y) in y\<lparr>zw_inner := conn_Flush (zw_inner y)\<rparr>)"
    for y :: "(conn, 'a) compressWriter"
  have t: "passing st h d y \<Longrightarrow> passing st h d (tail y)" "packing gz st h d y \<Longrightarrow> packing gz st h d (tail y)" for y
    using fl packing_flush [of gz st h d y] unfolding tail_def Let_def by (auto simp: passing_def packing_def)
  show ?thesis
  proof (cases "held st h d z")
    case True
    let ?b = "int (length (zw_buf z)) \<ge> cp_MinBytes (zw_cfg z)"
    let ?y = "fst (zw_write conn_ops gz d (zw_start conn_ops gz ?b z\<lparr>zw_buf := []\<rparr>))"
    have eq: "zw_Flush conn_ops gz z = (if d = [] then z else tail ?y)"
      using True held_start(3) [OF True assms(2,3), of gz ?b] by (auto simp: zw_Flush_def held_def tail_def Let_def)
    have "passing st h d ?y \<or> packing gz st h d ?y"
    proof (cases ?b)
      case b: True
      have "packing gz st h ([] @ d) (fst (zw_gzWrite conn_ops gz d (zw_start conn_ops gz True z\<lparr>zw_buf := []\<rparr>)))"
        by (rule packing_write [OF held_start(2) [OF True assms(2,3)]])
      moreover have "zw_compressing (zw_start conn_ops gz True z\<lparr>zw_buf := []\<rparr>)"
        using held_start(2) [OF True assms(2,3), where q = "[]" and gz = gz] by (simp add: packing_def)
      ultimately show ?thesis using b by (simp add: zw_write_def)
    next
      case False
      then show ?thesis using passing_write [OF held_start(1) [OF True assms(2,3)], of d gz] by simp
    qed
    with t have "phase gz st h d (zw_Flush conn_ops gz z)" unfolding eq using True by (auto simp: phase_def)
    with True show ?thesis by (auto simp: held_def passing_def)
  next
    case False
    then have "zw_Flush conn_ops gz z = tail z"
      using assms(1) by (auto simp: phase_def passing_def packing_def zw_Flush_def tail_def Let_def)
    with t False assms(1) show ?thesis by (auto simp: phase_def)
  qed
qed

lemma phase_exec:
  assumes "\<not> informational st" "st \<noteq> 0"
  shows "phase gz st h d z \<Longrightarrow> phase gz st h (d @ body_data bs) (zw_exec conn_ops gz bs z) \<and>
    (passing st h d z \<longrightarrow> passing st h (d @ body_data bs) (zw_exec conn_ops gz bs z))"
proof (induction conn_ops gz bs z arbitrary: d rule: zw_exec.induct)
  case (2 gz b bs z)
  from phase_Write [OF 2(2) assms, of b] 2(1) [of "d @ b"] show ?case by (metis append_assoc body_data.simps(2) zw_exec.simps(2))
next
  case (3 gz bs z)
  with phase_Flush [OF 3(2) assms] show ?case by simp
qed simp

lemma phase_Close:
  assumes "phase gz st h d z" "\<not> informational st" "st \<noteq> 0" "gzip_sound gz gunzip"
  shows "let w = zw_inner (zw_Close conn_ops gz z)
    in cl_sent w = Some (st, h) \<and> cl_body w = d \<or> \<not> passing st h d z \<and> cl_sent w = Some (st, compressed_header h) \<and> gunzip (cl_body w) = Some d"
proof -
  consider "held st h d z" | "passing st h d z" | "packing gz st h d z" using assms(1) by (auto simp: phase_def)
  then show ?thesis
  proof cases
    case 1
    then have "passing st h [] (zw_start conn_ops gz False z)"
      using held_start(1) [OF 1 assms(2,3), where q = d and gz = gz] held_start(3) [OF 1 assms(2,3), of gz False] by (simp add: passing_def)
    with 1 held_start(3) [OF 1 assms(2,3), of gz False] show ?thesis
      by (auto simp: zw_Close_def held_def passing_def Let_def conn_Write_open)
  next
    case 2
    then show ?thesis by (auto simp: zw_Close_def passing_def Let_def split: option.splits)
  next
    case 3
    then obtain level gops g where g: "gz_run gz gops (gz_new gz level) = (g, cl_body (zw_inner z))"
      "gz_input gops = d" "zw_gz z = Some g" by (auto simp: packing_def)
    then have "gunzip (cl_body (zw_inner z) @ gz_Close gz g) = Some d"
      using assms(4) [unfolded gzip_sound_def, rule_format, of gops level] by simp
    with 3 g show ?thesis by (auto simp: zw_Close_def packing_def passing_def Let_def conn_Write_open)
  qed
qed

lemma vary_covers_self: "vary_covers ''Accept-Encoding'' ''Accept-Encoding''"
  by code_simp

lemma addVary_covers: "list_ex (vary_covers ''Accept-Encoding'') (values_of (addVary ''Accept-Encoding'' h) ''Vary'')"
  by (simp add: addVary_def Header_Add_def vary_covers_self)

lemma compressed_header_fields:
  "Header_Get (compressed_header h) ''Content-Encoding'' = ''gzip''"
  "Header_Get (compressed_header h) ''Content-Length'' = []"
  "values_of (compressed_header h) ''Vary'' = values_of h ''Vary''"
  by (simp_all add: compressed_header_def Let_def) (simp add: Header_Set_def Header_Del_def)

text \<open>Compression is considered for this status and these headers.\<close>

definition compressible :: "compression \<Rightarrow> int \<Rightarrow> header \<Rightarrow> bool" where
  "compressible cfg st h \<longleftrightarrow> st \<noteq> 204 \<and> st \<noteq> 304 \<and> Header_Get h ''Content-Encoding'' = [] \<and>
     Compression_Wants cfg (Header_Get h ''Content-Type'')"

lemma zw_WriteHeader_phase:
  fixes gz :: "'g gzip" and cfg h
  assumes "200 \<le> st"
  defines "z \<equiv> zw_WriteHeader conn_ops st (new_zw (new_conn None\<lparr>cl_header := h\<rparr>) cfg :: (conn, 'g) compressWriter)"
  shows "if compressible cfg st h then phase gz st (addVary ''Accept-Encoding'' h) [] z else passing st h [] z"
proof -
  have i: "\<not> informational st" using assms(1) by (simp add: informational_def)
  show ?thesis
  proof (cases "compressible cfg st h")
    case True
    with assms(1) i show ?thesis
      by (auto simp: z_def phase_def held_def passing_def compressible_def zw_WriteHeader_def new_zw_def new_conn_def
        zw_settle_def zw_decide_def Let_def conn_WriteHeader_def split: option.splits)
  next
    case False
    with assms(1) i show ?thesis
      by (auto simp: z_def passing_def compressible_def zw_WriteHeader_def new_zw_def new_conn_def
        zw_settle_def zw_decide_def Let_def conn_WriteHeader_def)
  qed
qed

text \<open>C11. Compression is invisible to whoever reads the response: whatever a handler writes and flushes after
  a final status, and however it cuts the body up, the client receives that status and either the
  headers and the bytes as they are (with a Vary that covers the request's Accept-Encoding where
  compression was considered), or headers that announce gzip, carry no length and vary on
  Accept-Encoding, and a body that unpacks to exactly the bytes written. A response the host's
  settings exclude is never touched.\<close>

theorem compress_transparent:
  fixes gz :: "'g gzip"
  assumes "gzip_sound gz gunzip" "200 \<le> st"
  shows "let z = zw_WriteHeader conn_ops st (new_zw (new_conn None\<lparr>cl_header := h\<rparr>) cfg :: (conn, 'g) compressWriter);
             w = zw_inner (zw_Close conn_ops gz (zw_exec conn_ops gz bs z));
             hv = addVary ''Accept-Encoding'' h
         in (\<not> compressible cfg st h \<and> cl_sent w = Some (st, h) \<and> cl_body w = body_data bs) \<or>
            (compressible cfg st h \<and> list_ex (vary_covers ''Accept-Encoding'') (values_of hv ''Vary'') \<and>
              (cl_sent w = Some (st, hv) \<and> cl_body w = body_data bs \<or>
               (\<exists>hz. cl_sent w = Some (st, hz) \<and> Header_Get hz ''Content-Encoding'' = ''gzip'' \<and>
                  Header_Get hz ''Content-Length'' = [] \<and> values_of hz ''Vary'' = values_of hv ''Vary'' \<and>
                  gunzip (cl_body w) = Some (body_data bs))))"
proof -
  have i: "\<not> informational st" "st \<noteq> 0" using assms(2) by (auto simp: informational_def)
  let ?z = "zw_WriteHeader conn_ops st (new_zw (new_conn None\<lparr>cl_header := h\<rparr>) cfg :: (conn, 'g) compressWriter)"
  note start = zw_WriteHeader_phase [OF assms(2), where cfg = cfg and h = h and gz = gz]
  show ?thesis
  proof (cases "compressible cfg st h")
    case True
    with start have "phase gz st (addVary ''Accept-Encoding'' h) [] ?z" by simp
    then have "phase gz st (addVary ''Accept-Encoding'' h) (body_data bs) (zw_exec conn_ops gz bs ?z)"
      using phase_exec [OF i, of gz _ "[]" ?z bs] by simp
    from phase_Close [OF this i assms(1)] True show ?thesis
      using compressed_header_fields addVary_covers unfolding Let_def by blast
  next
    case False
    with start have p: "passing st h [] ?z" by simp
    then have "passing st h (body_data bs) (zw_exec conn_ops gz bs ?z)"
      using phase_exec [OF i, of gz h "[]" ?z bs] by (simp add: phase_def)
    from phase_Close [OF _ i assms(1), of h "body_data bs"] this False show ?thesis
      unfolding Let_def phase_def by blast
  qed
qed

text \<open>A compressor that frames its input with a marker at the end.\<close>

definition ex_gzip :: "unit gzip" where
  "ex_gzip = \<lparr>gz_new = (\<lambda>_. ()), gz_Write = (\<lambda>s g. (g, s)), gz_Flush = (\<lambda>g. (g, [])), gz_Close = (\<lambda>_. ''!'')\<rparr>"

lemma ex_gzip_sound: "gzip_sound ex_gzip (\<lambda>s. Some (butlast s))"
proof -
  have "gz_run ex_gzip ops g = ((), gz_input ops)" for ops g
    by (induction ops arbitrary: g rule: gz_input.induct) (simp_all add: ex_gzip_def)
  then show ?thesis by (simp add: gzip_sound_def ex_gzip_def)
qed

theorem compress_transparent_witness:
  "let z = zw_WriteHeader conn_ops 200 (new_zw (new_conn None\<lparr>cl_header := [(''Content-Type'', [''text/css''])]\<rparr>)
             (DefaultCompression\<lparr>cp_MinBytes := 5\<rparr>) :: (conn, unit) compressWriter);
       w = zw_inner (zw_Close conn_ops ex_gzip (zw_exec conn_ops ex_gzip [BFlush, BWrite ''body'', BWrite ''{}'', BFlush] z))
   in map_option fst (cl_sent w) = Some 200 \<and> (cl_body w = ''body{}'' \<or> butlast (cl_body w) = ''body{}'')"
  using compress_transparent [OF ex_gzip_sound, of 200 "[(''Content-Type'', [''text/css''])]" "DefaultCompression\<lparr>cp_MinBytes := 5\<rparr>"
      "[BFlush, BWrite ''body'', BWrite ''{}'', BFlush]"]
  unfolding Let_def by auto

end
