(* ===== verification/Proxy_Cache.thy ===== *)
theory Proxy_Cache
  imports Proxy_Writer Cache_Store Proxy_Routing
begin

text \<open>
  \<^verbatim>\<open>internal/proxy/cache.go\<close>: answering requests from a host's cache and copying cacheable responses
  into it while they stream to the client. The capturing writer calls \<^verbatim>\<open>Put\<close> on the host's cache; it
  collects these calls in \<open>cw_puts\<close>, and whoever runs the writer applies them to the cache, so that
  other requests may change the cache while a response streams. Its buffer is modelled by its
  contents; how much is reserved for it has no effect on them. \<^verbatim>\<open>http.ParseTime\<close> is a parameter, and
  clock readings are arguments.
\<close>

section \<open>Serving\<close>

definition cacheKey :: "request \<Rightarrow> key" where
  "cacheKey r =
     \<lparr>k_Host = normalizeHostHeader (q_Host r), k_Path = q_Path r, k_Query = q_RawQuery r,
      k_Enc = ParseAcceptEncoding (Header_Get (q_Header r) ''Accept-Encoding'')\<rparr>"

definition cacheHit :: "string list" where "cacheHit = [''HIT'']"
definition cacheMiss :: "string list" where "cacheMiss = [''MISS'']"

definition put_all :: "header \<Rightarrow> header \<Rightarrow> header" where
  "put_all stored h = foldl (\<lambda>h (k, vs). al_put k vs h) h stored"

definition set_hsts :: "request \<Rightarrow> host \<Rightarrow> header \<Rightarrow> header" where
  "set_hsts r hst h =
     (if q_TLS r \<and> h_HSTSMaxAge hst > 0 \<and> Header_Get h ''Strict-Transport-Security'' = []
      then Header_Set ''Strict-Transport-Security'' (''max-age='' @ itoa (h_HSTSMaxAge hst)) h else h)"

text \<open>The result is the writer with the status and the number of bytes that are recorded.\<close>

definition serveCached ::
  "(string \<Rightarrow> time option) \<Rightarrow> 'w writer_ops \<Rightarrow> request \<Rightarrow> host \<Rightarrow> entry \<Rightarrow> time \<Rightarrow> 'w \<Rightarrow> 'w \<times> int \<times> nat" where
  "serveCached ParseTime ops r hst e now w =
     (let h = put_all (e_Header e) (wo_Header ops w);
          h = al_put ''Age'' [itoa (go_quot (Age e now) second)] h;
          h = set_hsts r hst h
      in if NotModified ParseTime e r then
           let w = wo_SetHeader ops (al_put ''X-Cache'' cacheHit h) w;
               w = wo_WriteHeader ops 304 w
           in (w, 304, 0)
         else
           let h = al_put ''X-Cache'' cacheHit h;
               h = al_put ''Content-Length'' [itoa (int (length (e_Body e)))] h;
               w = wo_SetHeader ops h w;
               w = wo_WriteHeader ops (e_Status e) w;
               (w, n) = wo_Write ops (e_Body e) w
           in (w, e_Status e, n))"

section \<open>Capturing\<close>

record 'w captureWriter =
  cw_inner :: 'w
  cw_req :: request
  cw_cfg :: cache_cfg
  cw_key :: key
  cw_status :: int
  cw_terms :: storability
  cw_buf :: string
  cw_capturing :: bool
  cw_puts :: "(key \<times> entry) list"

definition new_capture :: "'w \<Rightarrow> request \<Rightarrow> cache_cfg \<Rightarrow> 'w captureWriter" where
  "new_capture w r cfg =
     \<lparr>cw_inner = w, cw_req = r, cw_cfg = cfg, cw_key = cacheKey r, cw_status = 0,
      cw_terms = \<lparr>s_ExpiresAt = 0, s_Public = False, s_Length = 0\<rparr>, cw_buf = [], cw_capturing = False, cw_puts = []\<rparr>"

definition commit :: "'w writer_ops \<Rightarrow> time \<Rightarrow> 'w captureWriter \<Rightarrow> 'w captureWriter" where
  "commit ops now c =
     (let e = NewEntry (cw_status c) (wo_Header ops (cw_inner c)) (cw_buf c) (cw_terms c) now
      in c\<lparr>cw_puts := cw_puts c @ [(cw_key c, e)], cw_capturing := False, cw_buf := []\<rparr>)"

definition abandon :: "'w captureWriter \<Rightarrow> 'w captureWriter" where
  "abandon c = c\<lparr>cw_capturing := False, cw_buf := []\<rparr>"

definition capture_WriteHeader ::
  "(string \<Rightarrow> time option) \<Rightarrow> 'w writer_ops \<Rightarrow> time \<Rightarrow> int \<Rightarrow> 'w captureWriter \<Rightarrow> 'w captureWriter" where
  "capture_WriteHeader ParseTime ops now status c =
     (let c = c\<lparr>cw_status := status\<rparr>;
          h = wo_Header ops (cw_inner c);
          c = (case Storable ParseTime (cw_cfg c) (cw_req c) status h now of
                 Some terms \<Rightarrow> c\<lparr>cw_terms := terms, cw_capturing := True, cw_buf := []\<rparr>
               | None \<Rightarrow> c);
          w = wo_SetHeader ops (al_put ''X-Cache'' cacheMiss h) (cw_inner c);
          c = c\<lparr>cw_inner := wo_WriteHeader ops status w\<rparr>
      in if cw_capturing c \<and> s_Length (cw_terms c) = 0 then commit ops now c else c)"

definition capture_Write :: "'w writer_ops \<Rightarrow> time \<Rightarrow> string \<Rightarrow> 'w captureWriter \<Rightarrow> 'w captureWriter \<times> nat" where
  "capture_Write ops now b c =
     (case wo_Write ops b (cw_inner c) of (w, n) \<Rightarrow>
        let c = c\<lparr>cw_inner := w\<rparr>
        in if \<not> cw_capturing c \<or> n \<le> 0 then (c, n)
           else if int (length (cw_buf c)) + int n > s_Length (cw_terms c) then (abandon c, n)
           else
             let c = c\<lparr>cw_buf := cw_buf c @ take n b\<rparr>
             in if int (length (cw_buf c)) = s_Length (cw_terms c) then (commit ops now c, n) else (c, n))"

definition capture_ops :: "(string \<Rightarrow> time option) \<Rightarrow> 'w writer_ops \<Rightarrow> time \<Rightarrow> 'w captureWriter writer_ops" where
  "capture_ops ParseTime ops now =
     \<lparr>wo_Header = (\<lambda>c. wo_Header ops (cw_inner c)),
      wo_SetHeader = (\<lambda>h c. c\<lparr>cw_inner := wo_SetHeader ops h (cw_inner c)\<rparr>),
      wo_WriteHeader = capture_WriteHeader ParseTime ops now, wo_Write = capture_Write ops now,
      wo_Flush = (\<lambda>c. c\<lparr>cw_inner := wo_Flush ops (cw_inner c)\<rparr>)\<rparr>"

section \<open>The entry point\<close>

datatype ('w) intercepted = Answered 'w int nat | Untouched 'w | Capturing "'w captureWriter"

definition with_host :: "int \<Rightarrow> int \<Rightarrow> (host_cache \<Rightarrow> host_cache \<times> 'a) \<Rightarrow> cache_store \<Rightarrow> cache_store \<times> 'a" where
  "with_host hostID budget f s =
     (let s = Store_Host hostID budget s
      in case map_of s hostID of
           Some hc \<Rightarrow> (case f hc of (hc, x) \<Rightarrow> (al_put hostID hc s, x))
         | None \<Rightarrow> (case f (newHostCache budget) of (hc, x) \<Rightarrow> (s, x)))"

definition interceptCache ::
  "(string \<Rightarrow> time option) \<Rightarrow> time \<Rightarrow> 'w writer_ops \<Rightarrow> request \<Rightarrow> host \<Rightarrow> cache_store \<Rightarrow> 'w \<Rightarrow> cache_store \<times> 'w intercepted" where
  "interceptCache ParseTime now ops r hst s w =
     (let cfg = h_Cache hst
      in if Invalidates cfg r then
           case with_host (h_ID hst) (cf_MaxBytes cfg) (\<lambda>hc. (Invalidate (normalizeHostHeader (q_Host r)) (q_Path r) hc, ())) s of
             (s, _) \<Rightarrow> (s, Untouched w)
         else if \<not> Eligible cfg r then (s, Untouched w)
         else
           case with_host (h_ID hst) (cf_MaxBytes cfg) (Lookup (cacheKey r) now) s of
             (s, Some e) \<Rightarrow>
               if Servable e r then (case serveCached ParseTime ops r hst e now w of (w, status, n) \<Rightarrow> (s, Answered w status n))
               else (s, Capturing (new_capture w r cfg))
           | (s, None) \<Rightarrow> (s, Capturing (new_capture w r cfg)))"

text \<open>The calls a capturing writer made, applied to the host's cache. A store of a cache in good order
  returns, so the last branch is never taken.\<close>

fun apply_puts :: "(key \<times> entry) list \<Rightarrow> host_cache \<Rightarrow> host_cache" where
  "apply_puts [] hc = hc"
| "apply_puts ((k, e) # ps) hc = (case Put k e hc of Some hc' \<Rightarrow> apply_puts ps hc' | None \<Rightarrow> hc)"

definition forgetCaches :: "int set \<Rightarrow> cache_store \<Rightarrow> cache_store" where
  "forgetCaches keep s = Store_Forget keep s"

section \<open>The contract of a writer\<close>

lemma capture_ops_simps [simp]:
  "wo_Header (capture_ops pt ops now) c = wo_Header ops (cw_inner c)"
  "wo_SetHeader (capture_ops pt ops now) h c = c\<lparr>cw_inner := wo_SetHeader ops h (cw_inner c)\<rparr>"
  "wo_WriteHeader (capture_ops pt ops now) = capture_WriteHeader pt ops now"
  "wo_Write (capture_ops pt ops now) = capture_Write ops now"
  "wo_Flush (capture_ops pt ops now) c = c\<lparr>cw_inner := wo_Flush ops (cw_inner c)\<rparr>"
  by (simp_all add: capture_ops_def)

lemma commit_inner [simp]: "cw_inner (commit ops now c) = cw_inner c"
  by (simp add: commit_def)

lemma capture_Write_inner: "cw_inner (fst (capture_Write ops now b c)) = fst (wo_Write ops b (cw_inner c))"
  by (auto simp: capture_Write_def abandon_def Let_def split: prod.splits)

lemma capture_WriteHeader_inner:
  "cw_inner (capture_WriteHeader pt ops now st c) =
     wo_WriteHeader ops st (wo_SetHeader ops (al_put ''X-Cache'' cacheMiss (wo_Header ops (cw_inner c))) (cw_inner c))"
  by (simp add: capture_WriteHeader_def Let_def split: option.splits)

locale captured_writer = response_writer +
  fixes pt :: "string \<Rightarrow> time option" and now :: time

sublocale captured_writer \<subseteq> captured: response_writer "capture_ops pt ops now" "\<lambda>c. received (cw_inner c)"
proof unfold_locales
  fix c :: "'a captureWriter" and st
  show "grows (received (cw_inner c)) (received (cw_inner (wo_WriteHeader (capture_ops pt ops now) st c)))"
    using WriteHeader_grows [of "wo_SetHeader ops (al_put ''X-Cache'' cacheMiss (wo_Header ops (cw_inner c))) (cw_inner c)" st]
    by (simp add: capture_WriteHeader_inner SetHeader_silent)
qed (simp_all add: SetHeader_silent capture_Write_inner Write_grows Flush_grows)

interpretation capclient: captured_writer conn_ops conn_received pt now for pt now
  by unfold_locales

section \<open>What is stored\<close>

text \<open>One response that streams through a capturing writer to a client: the header at \<open>x_t0\<close>, then
  chunks, each at its time.\<close>

record origin_reply =
  x_req :: request
  x_status :: int
  x_header :: header
  x_room :: "nat option"
  x_t0 :: time
  x_chunks :: "(time \<times> string) list"

fun capture_writes :: "(time \<times> string) list \<Rightarrow> conn captureWriter \<Rightarrow> conn captureWriter" where
  "capture_writes [] c = c"
| "capture_writes ((t, b) # cs) c = capture_writes cs (fst (capture_Write conn_ops t b c))"

definition capture_reply :: "(string \<Rightarrow> time option) \<Rightarrow> cache_cfg \<Rightarrow> origin_reply \<Rightarrow> conn captureWriter" where
  "capture_reply pt cfg x =
     capture_writes (x_chunks x)
       (capture_WriteHeader pt conn_ops (x_t0 x) (x_status x)
         (new_capture (new_conn (x_room x)\<lparr>cl_header := x_header x\<rparr>) (x_req x) cfg))"

definition reply_received :: "(string \<Rightarrow> time option) \<Rightarrow> cache_cfg \<Rightarrow> origin_reply \<Rightarrow> string" where
  "reply_received pt cfg x = cl_body (cw_inner (capture_reply pt cfg x))"

text \<open>Either nothing has been stored, and while capturing the buffer is what the client has, or one complete
  body has been.\<close>

definition stored_entry :: "key \<Rightarrow> int \<Rightarrow> header \<Rightarrow> storability \<Rightarrow> string \<Rightarrow> (key \<times> entry) list \<Rightarrow> bool" where
  "stored_entry k st h terms body puts \<longleftrightarrow>
     (\<exists>t. puts = [(k, NewEntry st h body terms t)]) \<and> int (length body) = s_Length terms"

definition capture_inv :: "key \<Rightarrow> int \<Rightarrow> header \<Rightarrow> storability \<Rightarrow> conn captureWriter \<Rightarrow> bool" where
  "capture_inv k st h terms c \<longleftrightarrow>
     (if cw_capturing c then cw_puts c = [] \<and> cw_terms c = terms \<and> cw_status c = st \<and> cw_key c = k \<and>
        cw_buf c = cl_body (cw_inner c) \<and> cl_header (cw_inner c) = h
      else cw_puts c = [] \<or> (\<exists>body more. stored_entry k st h terms body (cw_puts c) \<and> cl_body (cw_inner c) = body @ more))"

lemma conn_Write_cases:
  assumes "conn_Write b w = (w', n)"
  shows "cl_body w' = cl_body w @ take n b \<and> cl_header w' = cl_header w \<and> n \<le> length b"
  using assms by (auto simp: conn_Write_def conn_WriteHeader_def Let_def split: option.splits if_splits)

lemma capture_Write_inv:
  assumes "capture_inv k st h terms c"
  shows "capture_inv k st h terms (fst (capture_Write conn_ops t b c))"
proof -
  obtain w n where w: "conn_Write b (cw_inner c) = (w, n)" by fastforce
  note cw = conn_Write_cases [OF w]
  show ?thesis
  proof (cases "cw_capturing c")
    case False
    with assms cw w show ?thesis unfolding capture_inv_def by (auto simp: capture_Write_def Let_def)
  next
    case True
    with assms have c: "cw_puts c = []" "cw_terms c = terms" "cw_status c = st" "cw_key c = k"
      "cw_buf c = cl_body (cw_inner c)" "cl_header (cw_inner c) = h" by (auto simp: capture_inv_def)
    show ?thesis
      using True c cw w
      by (auto simp: capture_inv_def capture_Write_def stored_entry_def abandon_def commit_def Let_def)
  qed
qed

lemma capture_writes_inv: "capture_inv k st h terms c \<Longrightarrow> capture_inv k st h terms (capture_writes cs c)"
  by (induction cs c rule: capture_writes.induct) (auto simp: capture_Write_inv)

lemma capture_writes_idle:
  "\<not> cw_capturing c \<Longrightarrow> cw_puts c = [] \<Longrightarrow> cw_puts (capture_writes cs c) = []"
  by (induction cs c rule: capture_writes.induct) (auto simp: capture_Write_def Let_def split: prod.splits)

abbreviation miss_header :: "header \<Rightarrow> header" where
  "miss_header h \<equiv> al_put ''X-Cache'' cacheMiss h"

lemma capture_stores_complete:
  "cw_puts (capture_reply pt cfg x) = [] \<or>
   (\<exists>terms body more. Storable pt cfg (x_req x) (x_status x) (x_header x) (x_t0 x) = Some terms \<and>
      stored_entry (cacheKey (x_req x)) (x_status x) (miss_header (x_header x)) terms body (cw_puts (capture_reply pt cfg x)) \<and>
      reply_received pt cfg x = body @ more)"
proof -
  let ?c = "capture_WriteHeader pt conn_ops (x_t0 x) (x_status x)
         (new_capture (new_conn (x_room x)\<lparr>cl_header := x_header x\<rparr>) (x_req x) cfg)"
  have hd: "cl_header (conn_WriteHeader st w) = cl_header w" "cl_body (conn_WriteHeader st w) = cl_body w" for st w
    by (simp_all add: conn_WriteHeader_def)
  show ?thesis
  proof (cases "Storable pt cfg (x_req x) (x_status x) (x_header x) (x_t0 x)")
    case None
    then have "\<not> cw_capturing ?c \<and> cw_puts ?c = []"
      by (simp add: capture_WriteHeader_def new_capture_def Let_def)
    then show ?thesis unfolding capture_reply_def by (simp add: capture_writes_idle)
  next
    case (Some terms)
    then have "capture_inv (cacheKey (x_req x)) (x_status x) (miss_header (x_header x)) terms ?c"
      by (auto simp: capture_inv_def capture_WriteHeader_def new_capture_def commit_def stored_entry_def Let_def hd new_conn_def)
    from capture_writes_inv [OF this, of "x_chunks x"] Some show ?thesis
      unfolding capture_inv_def reply_received_def capture_reply_def by (auto split: if_splits)
  qed
qed

section \<open>Sequences of requests to one host's cache\<close>

datatype cache_event = Ask request time | Reply origin_reply | Unsafe request

definition cache_step :: "(string \<Rightarrow> time option) \<Rightarrow> cache_cfg \<Rightarrow> host_cache \<Rightarrow> cache_event \<Rightarrow> host_cache \<Rightarrow> bool" where
  "cache_step pt cfg hc ev hc' \<longleftrightarrow> hc' =
     (case ev of
        Ask r now \<Rightarrow> fst (Lookup (cacheKey r) now hc)
      | Reply x \<Rightarrow> apply_puts (cw_puts (capture_reply pt cfg x)) hc
      | Unsafe r \<Rightarrow> Invalidate (normalizeHostHeader (q_Host r)) (q_Path r) hc)"

text \<open>An entry under a key is accounted for by a reply.\<close>

definition accounts :: "(string \<Rightarrow> time option) \<Rightarrow> cache_cfg \<Rightarrow> origin_reply \<Rightarrow> key \<times> entry \<Rightarrow> bool" where
  "accounts pt cfg x ke \<longleftrightarrow> cw_puts (capture_reply pt cfg x) = [ke]"

definition accounted :: "(string \<Rightarrow> time option) \<Rightarrow> cache_cfg \<Rightarrow> cache_event list \<Rightarrow> host_cache \<Rightarrow> bool" where
  "accounted pt cfg past hc \<longleftrightarrow> cache_ok hc \<and> hc_budget hc = cf_MaxBytes cfg \<and>
     (\<forall>ke \<in> set (entries hc). \<exists>x. Reply x \<in> set past \<and> accounts pt cfg x ke)"

lemma cache_step_accounted:
  assumes "cache_step pt cfg hc ev hc'" "accounted pt cfg past hc"
  shows "accounted pt cfg (past @ [ev]) hc'"
proof -
  from assms(2) have ok: "cache_ok hc" "hc_budget hc = cf_MaxBytes cfg"
    and en: "\<And>ke. ke \<in> set (entries hc) \<Longrightarrow> \<exists>x. Reply x \<in> set past \<and> accounts pt cfg x ke" by (auto simp: accounted_def)
  show ?thesis
  proof (cases ev)
    case (Ask r now)
    obtain res where l: "Lookup (cacheKey r) now hc = (hc', res)"
      using assms(1) Ask by (cases "Lookup (cacheKey r) now hc") (simp add: cache_step_def)
    from hc.lookup_law [OF ok(1) l] hc.lookup_entries [OF ok(1) l] ok(2) en show ?thesis
      unfolding accounted_def by fastforce
  next
    case (Unsafe r)
    with assms(1) have h: "hc' = Invalidate (normalizeHostHeader (q_Host r)) (q_Path r) hc" by (simp add: cache_step_def)
    from hc.invalidate_law [OF ok(1), of "normalizeHostHeader (q_Host r)" "q_Path r"] ok(2) en show ?thesis
      unfolding accounted_def h by (auto simp: a_Invalidate_def)
  next
    case (Reply x)
    with assms(1) have h: "hc' = apply_puts (cw_puts (capture_reply pt cfg x)) hc" by (simp add: cache_step_def)
    show ?thesis
    proof (cases "cw_puts (capture_reply pt cfg x) = []")
      case True
      with h ok en show ?thesis unfolding accounted_def by fastforce
    next
      case False
      then obtain k e where p: "cw_puts (capture_reply pt cfg x) = [(k, e)]"
        using capture_stores_complete [of pt cfg x] by (auto simp: stored_entry_def)
      then obtain hc2 where q: "Put k e hc = Some hc2" "hc' = hc2" using h hc.put_law [OF ok(1), of k e] by auto
      then have "cache_ok hc'" "hc_budget hc' = cf_MaxBytes cfg" using hc.put_law [OF ok(1), of k e] ok(2) by auto
      moreover have "\<exists>y. Reply y \<in> set (past @ [ev]) \<and> accounts pt cfg y ke" if "ke \<in> set (entries hc')" for ke
      proof (cases "ke = (k, e)")
        case True
        with p Reply show ?thesis by (auto simp: accounts_def)
      next
        case False
        with that hc.put_entries [OF ok(1) q(1)] q(2) have "ke \<in> set (entries hc)" by auto
        with en show ?thesis by fastforce
      qed
      ultimately show ?thesis by (simp add: accounted_def)
    qed
  qed
qed

lemma cache_run_accounted:
  "run (cache_step pt cfg) hc evs hc' \<Longrightarrow> accounted pt cfg past hc \<Longrightarrow> accounted pt cfg (past @ evs) hc'"
proof (induction arbitrary: past rule: run.induct)
  case (run_step hc ev hc1 evs hc')
  from run_step.IH [OF cache_step_accounted [OF run_step.hyps(1) run_step.prems]] show ?case by simp
qed simp

lemma accounted_new: "accounted pt cfg [] (newHostCache (cf_MaxBytes cfg))"
proof -
  have "cache_ok (newHostCache b) \<and> entries (newHostCache b) = []" for b
    using newHostCache_repr unfolding cache_ok_def by (auto simp: entries_def newHostCache_def)
  then show ?thesis by (simp add: accounted_def newHostCache_def)
qed

lemma serveCached_client:
  "serveCached pt conn_ops r hst e now (new_conn None) = (w, status, n) \<Longrightarrow> e_Status e = 200 \<Longrightarrow>
   map_option fst (cl_sent w) = Some status \<and> (status = 200 \<and> cl_body w = e_Body e \<or> status = 304 \<and> cl_body w = [])"
  by (auto simp: serveCached_def Let_def new_conn_def conn_WriteHeader_def conn_Write_def informational_def split: if_splits)

lemma interceptCache_hit:
  assumes "interceptCache pt now ops r hst s w0 = (s', Answered w status n)" "map_of s (h_ID hst) = Some hc"
    "hc_budget hc = cf_MaxBytes (h_Cache hst)"
  shows "\<exists>e hc'. Lookup (cacheKey r) now hc = (hc', Some e) \<and> Servable e r \<and> serveCached pt ops r hst e now w0 = (w, status, n)"
proof -
  have "Store_Host (h_ID hst) (cf_MaxBytes (h_Cache hst)) s = s" using assms(2,3) by (simp add: Store_Host_def)
  with assms show ?thesis
    by (auto simp: interceptCache_def with_host_def Let_def split: if_splits option.splits prod.splits)
qed

text \<open>The facts about the origin's reply that allow its body to answer a request.\<close>

definition may_answer :: "cache_cfg \<Rightarrow> origin_reply \<Rightarrow> request \<Rightarrow> time \<Rightarrow> bool" where
  "may_answer cfg x r now \<longleftrightarrow> cacheKey (x_req x) = cacheKey r \<and> q_Method (x_req x) = ''GET'' \<and> x_status x = 200 \<and>
     values_of (x_header x) ''Set-Cookie'' = [] \<and> now < x_t0 x + cf_MaxTTL cfg \<and>
     (has_credentials r \<or> has_credentials (x_req x) \<longrightarrow> has_directive (values_of (x_header x) ''Cache-Control'') ''public'')"

lemma accounted_entry:
  assumes "accounts pt cfg x (cacheKey r, e)" "Fresh e now" "Servable e r"
  shows "e_Status e = 200 \<and> may_answer cfg x r now \<and> parse_int (field (x_header x) ''Content-Length'') = Some (int (length (e_Body e))) \<and>
    (\<exists>more. reply_received pt cfg x = e_Body e @ more)"
proof -
  from assms(1) capture_stores_complete [of pt cfg x] obtain terms body more t where
    st: "Storable pt cfg (x_req x) (x_status x) (x_header x) (x_t0 x) = Some terms"
    and e: "cacheKey r = cacheKey (x_req x)" "e = NewEntry (x_status x) (miss_header (x_header x)) body terms t"
      "int (length body) = s_Length terms" "reply_received pt cfg x = body @ more"
    by (auto simp: accounts_def stored_entry_def)
  have f: "e_Status e = x_status x" "e_Body e = body" "e_Public e = s_Public terms" "e_ExpiresAt e = s_ExpiresAt terms"
    using e(2) by (simp_all add: NewEntry_def Let_def)
  have "s_ExpiresAt terms \<le> x_t0 x + cf_MaxTTL cfg"
    using st by (auto simp: Storable_def Let_def split: if_splits option.splits dest: freshness_bounds)
  moreover have "has_credentials r \<longrightarrow> s_Public terms" using assms(3) f(3) by (auto simp: Servable_def Let_def split: if_splits)
  moreover have "q_Method (x_req x) = ''GET'' \<and> x_status x = 200 \<and> values_of (x_header x) ''Set-Cookie'' = [] \<and>
      parse_int (field (x_header x) ''Content-Length'') = Some (s_Length terms) \<and>
      s_Public terms = has_directive (values_of (x_header x) ''Cache-Control'') ''public'' \<and> (has_credentials (x_req x) \<longrightarrow> s_Public terms)"
    using st by (auto simp: Storable_def Let_def parseCacheControl_flags split: if_splits option.splits)
  ultimately show ?thesis using assms(2) e f by (auto simp: may_answer_def Fresh_def)
qed

text \<open>C9. What the cache serves is what the origin sent: after any sequence of lookups, streamed responses and
  invalidations, however they are interleaved, a request answered from memory gets status 304, or
  status 200 with the complete body, of the length the origin declared, that an earlier client
  received in reply to a GET for the same host, path, query and codings; that reply set no cookie, is
  not older than the configured maximum, and was marked public if either request carried credentials.
  A truncated body is never served.\<close>

theorem cache_serves_origin_replies:
  assumes "run (cache_step pt (h_Cache hst)) (newHostCache (cf_MaxBytes (h_Cache hst))) evs hc" "map_of s (h_ID hst) = Some hc"
    and "interceptCache pt now conn_ops r hst s (new_conn None) = (s', Answered w status n)"
  shows "\<exists>x body more. Reply x \<in> set evs \<and> may_answer (h_Cache hst) x r now \<and>
    parse_int (field (x_header x) ''Content-Length'') = Some (int (length body)) \<and>
    reply_received pt (h_Cache hst) x = body @ more \<and>
    map_option fst (cl_sent w) = Some status \<and> (status = 200 \<and> cl_body w = body \<or> status = 304 \<and> cl_body w = [])"
proof -
  have ac: "accounted pt (h_Cache hst) evs hc" using cache_run_accounted [OF assms(1) accounted_new] by simp
  then have ok: "cache_ok hc" "hc_budget hc = cf_MaxBytes (h_Cache hst)" by (auto simp: accounted_def)
  from interceptCache_hit [OF assms(3,2) ok(2)] obtain e hc' where l: "Lookup (cacheKey r) now hc = (hc', Some e)" "Servable e r"
    and sv: "serveCached pt conn_ops r hst e now (new_conn None) = (w, status, n)" by blast
  from hc.lookup_stored [OF ok(1) l(1)] ac obtain x where x: "Reply x \<in> set evs" "accounts pt (h_Cache hst) x (cacheKey r, e)" "Fresh e now"
    unfolding accounted_def by fastforce
  from accounted_entry [OF x(2,3) l(2)] serveCached_client [OF sv] x(1) show ?thesis by metis
qed

definition ex_site :: host where
  "ex_site = ex_host [''example.com'']\<lparr>h_Cache := DefaultCache\<lparr>cf_Enabled := True\<rparr>\<rparr>"

definition ex_reply :: origin_reply where
  "ex_reply =
     \<lparr>x_req = ex_get ''/a.css'' [], x_status = 200, x_header = [(''Content-Length'', [''4''])], x_room = None, x_t0 = 10,
      x_chunks = [(11, ''bo''), (12, ''dy'')]\<rparr>"

definition ex_stored :: host_cache where
  "ex_stored = apply_puts (cw_puts (capture_reply (\<lambda>_. None) (h_Cache ex_site) ex_reply)) (newHostCache (cf_MaxBytes (h_Cache ex_site)))"

lemma ex_hit:
  "case interceptCache (\<lambda>_. None) 20 conn_ops (ex_get ''/a.css'' []) ex_site [(1, ex_stored)] (new_conn None) of
     (s', Answered w status n) \<Rightarrow> status = 200 \<and> cl_body w = ''body'' \<and> map (\<lambda>(i, c). hc_hits c) s' = [1] | _ \<Rightarrow> False"
  by code_simp

theorem cache_serves_origin_replies_witness:
  "\<exists>x body more. Reply x \<in> set [Reply ex_reply] \<and> may_answer (h_Cache ex_site) x (ex_get ''/a.css'' []) 20 \<and>
     reply_received (\<lambda>_. None) (h_Cache ex_site) x = body @ more \<and> body = ''body''"
proof -
  have run: "run (cache_step (\<lambda>_. None) (h_Cache ex_site)) (newHostCache (cf_MaxBytes (h_Cache ex_site))) [Reply ex_reply] ex_stored"
    by (rule run_step [OF _ run_refl]) (simp add: cache_step_def ex_stored_def)
  have m: "map_of [(1, ex_stored)] (h_ID ex_site) = Some ex_stored" by (simp add: ex_site_def ex_host_def)
  obtain s' w status n where i: "interceptCache (\<lambda>_. None) 20 conn_ops (ex_get ''/a.css'' []) ex_site [(1, ex_stored)] (new_conn None)
      = (s', Answered w status n)" "status = 200" "cl_body w = ''body''"
    using ex_hit by (auto split: prod.splits intercepted.splits)
  from cache_serves_origin_replies [OF run m i(1)] i(2,3) show ?thesis by auto
qed

end
