(* ===== verification/Proxy_Access.thy ===== *)
theory Proxy_Access
  imports Go_Url Domain_Access
begin

text \<open>
  \<^verbatim>\<open>internal/proxy/clientip.go\<close>, \<^verbatim>\<open>internal/proxy/authcache.go\<close> and the decision of
  \<^verbatim>\<open>internal/proxy/access.go\<close>: who a request comes from, the cache of verified credentials that keeps
  bcrypt off the request path, and how the two combine with an access list. SHA-256 is the parameter
  \<open>sha256\<close>. The cache is a map that is ranged over, hence an association list.

  \<open>access_decide\<close> is one request; \<open>auth_step\<close> makes a step relation of it, and the lemmas follow
  the cache over arbitrary sequences of requests against arbitrary versions of arbitrary lists.
\<close>

section \<open>The client's address\<close>

definition firstForwardedIP :: "string \<Rightarrow> string" where
  "firstForwardedIP v =
     (let hd0 = trim_space (fst (cut v (CHR '','')))
      in if hd0 = [] then []
         else let h = (case SplitHostPort hd0 of Some (hst, _) \<Rightarrow> hst | None \<Rightarrow> hd0)
              in if ParseIP h = None then [] else h)"

definition remoteIP :: "string \<Rightarrow> string" where
  "remoteIP remoteAddr = (case SplitHostPort remoteAddr of Some (hst, _) \<Rightarrow> hst | None \<Rightarrow> remoteAddr)"

definition clientIP :: "string \<Rightarrow> request \<Rightarrow> string" where
  "clientIP trusted r =
     (let ip = (if trusted \<noteq> [] then firstForwardedIP (Header_Get (q_Header r) (CanonicalHeaderKey trusted)) else [])
      in if ip \<noteq> [] then ip else remoteIP (q_RemoteAddr r))"

definition clientAddr :: "string \<Rightarrow> request \<Rightarrow> addr option" where
  "clientAddr trusted r = ParseIP (clientIP trusted r)"

section \<open>The Authorization header\<close>

text \<open>\<^verbatim>\<open>base64.StdEncoding.DecodeString\<close>, which skips line breaks, and \<^verbatim>\<open>Request.BasicAuth\<close>.\<close>

definition b64_val :: "char \<Rightarrow> nat option" where
  "b64_val c =
     (if is_upper c then Some (byte c - 65)
      else if is_lower c then Some (byte c - 71)
      else if is_digit c then Some (byte c + 4)
      else if c = CHR ''+'' then Some 62
      else if c = CHR ''/'' then Some 63
      else None)"

definition b64_bytes :: "nat list \<Rightarrow> string" where
  "b64_bytes vs =
     (case vs of
        [a, b] \<Rightarrow> [char_of (4 * a + b div 16)]
      | [a, b, c] \<Rightarrow> [char_of (4 * a + b div 16), char_of (16 * (b mod 16) + c div 4)]
      | [a, b, c, d] \<Rightarrow>
          [char_of (4 * a + b div 16), char_of (16 * (b mod 16) + c div 4), char_of (64 * (c mod 4) + d)]
      | _ \<Rightarrow> [])"

definition b64_quantum :: "char \<Rightarrow> char \<Rightarrow> char \<Rightarrow> char \<Rightarrow> bool \<Rightarrow> string option" where
  "b64_quantum a b c d final =
     (let n = (if c = CHR ''='' then 2 else if d = CHR ''='' then 3 else 4);
          vs = map b64_val (take n [a, b, c, d])
      in if None \<in> set vs \<or> (n < 4 \<and> (d \<noteq> CHR ''='' \<or> \<not> final)) then None
         else Some (b64_bytes (map the vs)))"

fun b64_decode :: "string \<Rightarrow> string option" where
  "b64_decode [] = Some []"
| "b64_decode [a] = None"
| "b64_decode [a, b] = None"
| "b64_decode [a, b, c] = None"
| "b64_decode (a # b # c # d # s) =
     (case b64_quantum a b c d (s = []) of
        None \<Rightarrow> None
      | Some t \<Rightarrow> (case b64_decode s of None \<Rightarrow> None | Some t' \<Rightarrow> Some (t @ t')))"

definition BasicAuth :: "request \<Rightarrow> string \<times> string \<times> bool" where
  "BasicAuth r =
     (let auth = Header_Get (q_Header r) ''Authorization'' in
      if to_lower (take 6 auth) \<noteq> ''basic '' then ([], [], False)
      else case b64_decode (filter (\<lambda>c. byte c \<noteq> 10 \<and> byte c \<noteq> 13) (drop 6 auth)) of
        None \<Rightarrow> ([], [], False)
      | Some cs \<Rightarrow>
          (case cut cs (CHR '':'') of (u, p, found) \<Rightarrow> if found then (u, p, True) else ([], [], False)))"

section \<open>The cache of verified credentials\<close>

definition authTTL :: duration where "authTTL = 30 * second"
definition authCacheMax :: nat where "authCacheMax = 4096"

record authKey =
  ak_listID :: int
  ak_listVersion :: time
  ak_digest :: string

type_synonym authCache = "(authKey \<times> time) list"

definition newAuthCache :: authCache where "newAuthCache = []"

definition be64 :: "nat \<Rightarrow> string" where
  "be64 n = map (\<lambda>i. char_of (n div 256 ^ i)) (rev [0..<8])"

definition makeAuthKey :: "(string \<Rightarrow> string) \<Rightarrow> int \<Rightarrow> time \<Rightarrow> string \<Rightarrow> string \<Rightarrow> authKey" where
  "makeAuthKey sha256 listID listVersion username password =
     \<lparr>ak_listID = listID, ak_listVersion = listVersion,
      ak_digest = sha256 (be64 (length username) @ username @ password)\<rparr>"

definition granted :: "authKey \<Rightarrow> time \<Rightarrow> authCache \<Rightarrow> authCache \<times> bool" where
  "granted k now c =
     (case map_of c k of
        None \<Rightarrow> (c, False)
      | Some expiry \<Rightarrow> if now > expiry then (al_del k c, False) else (c, True))"

definition evictExpiredLocked :: "time \<Rightarrow> authCache \<Rightarrow> authCache" where
  "evictExpiredLocked now c = filter (\<lambda>(k, expiry). \<not> now > expiry) c"

definition remember :: "authKey \<Rightarrow> time \<Rightarrow> authCache \<Rightarrow> authCache" where
  "remember k now c =
     (let c = (if length c \<ge> authCacheMax
               then let c = evictExpiredLocked now c in if length c \<ge> authCacheMax then newAuthCache else c
               else c)
      in al_put k (now + authTTL) c)"

section \<open>The decision on a request\<close>

text \<open>The part of \<^verbatim>\<open>enforceAccess\<close> that decides: \<open>t1\<close> and \<open>t2\<close> are the readings of the clock when
  the cache is asked and when the credential is remembered.\<close>

definition access_decide ::
  "(string \<Rightarrow> string \<Rightarrow> bool) \<Rightarrow> (string \<Rightarrow> string) \<Rightarrow> access_list \<Rightarrow> string \<Rightarrow> string \<times> string \<times> bool \<Rightarrow> time \<Rightarrow> time \<Rightarrow>
   authCache \<Rightarrow> authCache \<times> access_decision" where
  "access_decide bcrypt sha256 l client auth t1 t2 c =
     (case auth of (user, password, present) \<Rightarrow>
        let usable = (present \<and> length (al_BasicAuth l) > 0);
            k = makeAuthKey sha256 (al_ID l) (al_UpdatedAt l) user password;
            (c, cached) = (if usable then granted k t1 c else (c, False));
            creds = \<lparr>bc_Username = user, bc_Password = password, bc_Present = present, bc_Verified = cached\<rparr>;
            decision = EvaluateAccess bcrypt (Some l) client creds
        in if decision = AccessGranted \<and> present \<and> \<not> cached \<and> length (al_BasicAuth l) > 0
           then (remember k t2 c, decision)
           else (c, decision))"

section \<open>Sequences of requests\<close>

record attempt =
  at_list :: access_list
  at_client :: string
  at_user :: string
  at_password :: string
  at_present :: bool
  at_t1 :: time
  at_t2 :: time

definition at_key :: "(string \<Rightarrow> string) \<Rightarrow> attempt \<Rightarrow> authKey" where
  "at_key sha256 a = makeAuthKey sha256 (al_ID (at_list a)) (al_UpdatedAt (at_list a)) (at_user a) (at_password a)"

definition at_decide :: "(string \<Rightarrow> string \<Rightarrow> bool) \<Rightarrow> (string \<Rightarrow> string) \<Rightarrow> attempt \<Rightarrow> authCache \<Rightarrow> authCache \<times> access_decision" where
  "at_decide bcrypt sha256 a c =
     access_decide bcrypt sha256 (at_list a) (at_client a) (at_user a, at_password a, at_present a) (at_t1 a) (at_t2 a) c"

definition auth_step :: "(string \<Rightarrow> string \<Rightarrow> bool) \<Rightarrow> (string \<Rightarrow> string) \<Rightarrow> authCache \<Rightarrow> attempt \<Rightarrow> authCache \<Rightarrow> bool" where
  "auth_step bcrypt sha256 c a c' \<longleftrightarrow> c' = fst (at_decide bcrypt sha256 a c)"

text \<open>Bcrypt itself accepts the password of an attempt.\<close>

definition verified :: "(string \<Rightarrow> string \<Rightarrow> bool) \<Rightarrow> attempt \<Rightarrow> bool" where
  "verified bcrypt a \<longleftrightarrow> at_present a \<and>
     users_loop bcrypt \<lparr>bc_Username = at_user a, bc_Password = at_password a, bc_Present = True, bc_Verified = False\<rparr>
       (al_BasicAuth (at_list a))"

definition backed :: "(string \<Rightarrow> string \<Rightarrow> bool) \<Rightarrow> (string \<Rightarrow> string) \<Rightarrow> attempt list \<Rightarrow> authCache \<Rightarrow> bool" where
  "backed bcrypt sha256 past c \<longleftrightarrow>
     (\<forall>(k, expiry) \<in> set c. \<exists>a \<in> set past. verified bcrypt a \<and> at_key sha256 a = k \<and> expiry = at_t2 a + authTTL)"

lemma set_al_put: "set (al_put k v m) \<subseteq> insert (k, v) (set m)"
  by (induction k v m rule: al_put.induct) auto

lemma length_remember: "length c \<le> authCacheMax \<Longrightarrow> length (remember k now c) \<le> authCacheMax"
  unfolding remember_def Let_def
  by (auto simp: length_al_put newAuthCache_def authCacheMax_def not_le)

lemma set_remember: "set (remember k now c) \<subseteq> insert (k, now + authTTL) (set c)"
proof -
  have "set (al_put k v (evictExpiredLocked now c)) \<subseteq> insert (k, v) (set c)" for v
    using set_al_put [of k v "evictExpiredLocked now c"] by (auto simp: evictExpiredLocked_def)
  then show ?thesis
    using set_al_put [of k "now + authTTL" c] set_al_put [of k "now + authTTL" newAuthCache]
    unfolding remember_def Let_def by (auto simp: newAuthCache_def)
qed

lemma granted_subset: "granted k now c = (c', b) \<Longrightarrow> set c' \<subseteq> set c \<and> length c' \<le> length c"
  by (auto simp: granted_def al_del_def split: option.splits if_splits)

lemma granted_True: "granted k now c = (c', True) \<Longrightarrow> \<exists>expiry. (k, expiry) \<in> set c \<and> now \<le> expiry"
  by (auto simp: granted_def split: option.splits if_splits dest: map_of_SomeD)

text \<open>What a request does to the cache: entries may go, and the one that may come is the request's own,
  after it was let in without the cache's help.\<close>

lemma at_decide_cache:
  assumes "at_decide bcrypt sha256 a c = (c', d)"
  shows "length c \<le> authCacheMax \<Longrightarrow> length c' \<le> authCacheMax"
    and "set c' \<subseteq> set c \<or>
      set c' \<subseteq> insert (at_key sha256 a, at_t2 a + authTTL) (set c) \<and> d = AccessGranted \<and> at_present a \<and>
      al_BasicAuth (at_list a) \<noteq> [] \<and>
      EvaluateAccess bcrypt (Some (at_list a)) (at_client a)
        \<lparr>bc_Username = at_user a, bc_Password = at_password a, bc_Present = True, bc_Verified = False\<rparr> = AccessGranted"
proof -
  let ?k = "at_key sha256 a"
  obtain c1 cached where g: "(if at_present a \<and> al_BasicAuth (at_list a) \<noteq> [] then granted ?k (at_t1 a) c else (c, False)) = (c1, cached)"
    by fastforce
  then have sub: "set c1 \<subseteq> set c" "length c1 \<le> length c"
    using granted_subset [of ?k "at_t1 a" c c1 cached] by (auto split: if_splits)
  define creds where "creds = \<lparr>bc_Username = at_user a, bc_Password = at_password a, bc_Present = at_present a, bc_Verified = cached\<rparr>"
  define dec where "dec = EvaluateAccess bcrypt (Some (at_list a)) (at_client a) creds"
  define new where "new \<longleftrightarrow> dec = AccessGranted \<and> at_present a \<and> \<not> cached \<and> al_BasicAuth (at_list a) \<noteq> []"
  have r: "c' = (if new then remember ?k (at_t2 a) c1 else c1)" "d = dec"
    using assms g unfolding at_decide_def access_decide_def at_key_def new_def dec_def creds_def
    by (auto simp: Let_def split: if_splits)
  from sub r length_remember [of c1 ?k "at_t2 a"] show "length c \<le> authCacheMax \<Longrightarrow> length c' \<le> authCacheMax"
    by (auto split: if_splits)
  have "set c' \<subseteq> insert (?k, at_t2 a + authTTL) (set c)" if new
    using that r(1) sub set_remember [of ?k "at_t2 a" c1] by auto
  moreover have "creds = \<lparr>bc_Username = at_user a, bc_Password = at_password a, bc_Present = True, bc_Verified = False\<rparr>" if new
    using that by (simp add: new_def creds_def)
  ultimately show "set c' \<subseteq> set c \<or>
      set c' \<subseteq> insert (?k, at_t2 a + authTTL) (set c) \<and> d = AccessGranted \<and> at_present a \<and>
      al_BasicAuth (at_list a) \<noteq> [] \<and>
      EvaluateAccess bcrypt (Some (at_list a)) (at_client a)
        \<lparr>bc_Username = at_user a, bc_Password = at_password a, bc_Present = True, bc_Verified = False\<rparr> = AccessGranted"
    using r sub by (cases new) (auto simp: new_def dec_def)
qed

lemma satisfy_all_granted:
  assumes "\<not> al_SatisfyAny l" "al_BasicAuth l \<noteq> []" "EvaluateAccess bcrypt (Some l) client creds = AccessGranted"
  shows "allowsAddress l client \<and> acceptsCredentials bcrypt l creds"
  using assms by (auto simp: EvaluateAccess_def Let_def split: if_splits)

lemma auth_run:
  assumes "run (auth_step bcrypt sha256) c past c'" "\<forall>a \<in> set past. \<not> al_SatisfyAny (at_list a)"
    and "backed bcrypt sha256 before c" "length c \<le> authCacheMax"
  shows "backed bcrypt sha256 (before @ past) c' \<and> length c' \<le> authCacheMax"
  using assms
proof (induction arbitrary: before rule: run.induct)
  case (run_step c a c1 past c')
  obtain d where d: "at_decide bcrypt sha256 a c = (c1, d)"
    using run_step.hyps(1) unfolding auth_step_def by (metis prod.collapse)
  have len: "length c1 \<le> authCacheMax" using at_decide_cache(1) [OF d run_step.prems(3)] .
  have "backed bcrypt sha256 (before @ [a]) c1"
    using at_decide_cache(2) [OF d]
  proof
    assume "set c1 \<subseteq> set c"
    with run_step.prems(2) show ?thesis unfolding backed_def by fastforce
  next
    assume new: "set c1 \<subseteq> insert (at_key sha256 a, at_t2 a + authTTL) (set c) \<and> d = AccessGranted \<and> at_present a \<and>
      al_BasicAuth (at_list a) \<noteq> [] \<and>
      EvaluateAccess bcrypt (Some (at_list a)) (at_client a)
        \<lparr>bc_Username = at_user a, bc_Password = at_password a, bc_Present = True, bc_Verified = False\<rparr> = AccessGranted"
    with satisfy_all_granted run_step.prems(1) have "verified bcrypt a"
      by (fastforce simp: verified_def acceptsCredentials_def split: if_splits)
    with new run_step.prems(2) show ?thesis unfolding backed_def by fastforce
  qed
  from run_step.IH [OF _ this len] run_step.prems(1) show ?case by simp
qed simp

section \<open>Digests\<close>

lemma digits_determine:
  "(\<forall>i < k. (n div 256 ^ i) mod 256 = (m div 256 ^ i) mod (256 :: nat)) \<Longrightarrow> n mod 256 ^ k = m mod 256 ^ k"
proof (induction k)
  case (Suc k)
  have "x mod 256 ^ Suc k = 256 ^ k * (x div 256 ^ k mod 256) + x mod 256 ^ k" for x :: nat
    by (metis mod_mult2_eq power_Suc2)
  with Suc show ?case by simp
qed simp

lemma be64_inj: "be64 n = be64 m \<Longrightarrow> n < 2 ^ 64 \<Longrightarrow> m < 2 ^ 64 \<Longrightarrow> n = m"
proof -
  assume e: "be64 n = be64 m" and lt: "n < 2 ^ 64" "m < 2 ^ 64"
  have "(n div 256 ^ i) mod 256 = (m div 256 ^ i) mod 256" if "i < 8" for i
  proof -
    have "char_of (n div 256 ^ i) = (char_of (m div 256 ^ i) :: char)"
      using e that unfolding be64_def by (auto simp: map_eq_conv)
    then show ?thesis by (metis of_char_of)
  qed
  then have "n mod 256 ^ 8 = m mod 256 ^ 8" by (intro digits_determine) auto
  then show ?thesis using lt by simp
qed

definition digest_input :: "attempt \<Rightarrow> string" where
  "digest_input a = be64 (length (at_user a)) @ at_user a @ at_password a"

definition same_credential :: "attempt \<Rightarrow> attempt \<Rightarrow> bool" where
  "same_credential a b \<longleftrightarrow> al_ID (at_list a) = al_ID (at_list b) \<and> al_UpdatedAt (at_list a) = al_UpdatedAt (at_list b) \<and>
     at_user a = at_user b \<and> at_password a = at_password b"

lemma at_key_same:
  assumes "at_key sha256 a = at_key sha256 b" "inj_on sha256 {digest_input a, digest_input b}"
    "length (at_user a) < 2 ^ 64" "length (at_user b) < 2 ^ 64"
  shows "same_credential a b"
proof -
  have "sha256 (digest_input a) = sha256 (digest_input b)"
    and l: "al_ID (at_list a) = al_ID (at_list b)" "al_UpdatedAt (at_list a) = al_UpdatedAt (at_list b)"
    using assms(1) by (auto simp: at_key_def makeAuthKey_def digest_input_def)
  with assms(2) have e: "digest_input a = digest_input b" by (auto dest: inj_onD)
  have "length (be64 n) = 8" for n by (simp add: be64_def)
  with e have "be64 (length (at_user a)) = be64 (length (at_user b))"
    and r: "at_user a @ at_password a = at_user b @ at_password b"
    unfolding digest_input_def by (metis append_eq_append_conv)+
  with assms(3,4) have "length (at_user a) = length (at_user b)" by (blast intro: be64_inj)
  with r l show ?thesis unfolding same_credential_def by simp
qed

section \<open>Properties\<close>

text \<open>C12. A cached credential is as good as a checked one: against lists that require both halves, after any
  sequence of requests, a request is let in only if its address is allowed and bcrypt accepted the
  same user name and password for the same version of the list, in this request or in one whose
  check ended at most thirty seconds before; and the cache never holds more than its cap. The only
  assumption on SHA-256 is that it does not collide on the credentials sent.\<close>

theorem cached_grants_were_verified:
  assumes "run (auth_step bcrypt sha256) newAuthCache past c" "\<forall>b \<in> set (a # past). \<not> al_SatisfyAny (at_list b)"
    and "al_BasicAuth (at_list a) \<noteq> []" "at_decide bcrypt sha256 a c = (c', AccessGranted)"
    and "inj_on sha256 (digest_input ` set (a # past))" "\<forall>b \<in> set (a # past). length (at_user b) < 2 ^ 64"
  shows "allowsAddress (at_list a) (at_client a) \<and> length c' \<le> authCacheMax \<and>
    (verified bcrypt a \<or> (\<exists>b \<in> set past. verified bcrypt b \<and> same_credential a b \<and> at_t1 a \<le> at_t2 b + authTTL))"
proof -
  have inv: "backed bcrypt sha256 past c" "length c \<le> authCacheMax"
    using auth_run [OF assms(1), of "[]"] assms(2) by (auto simp: backed_def newAuthCache_def)
  let ?k = "at_key sha256 a"
  obtain c1 cached where g: "(if at_present a then granted ?k (at_t1 a) c else (c, False)) = (c1, cached)" by fastforce
  have "EvaluateAccess bcrypt (Some (at_list a)) (at_client a)
      \<lparr>bc_Username = at_user a, bc_Password = at_password a, bc_Present = at_present a, bc_Verified = cached\<rparr> = AccessGranted"
    using assms(3,4) g unfolding at_decide_def access_decide_def at_key_def by (auto simp: Let_def split: if_splits)
  then have ok: "allowsAddress (at_list a) (at_client a)"
    and acc: "acceptsCredentials bcrypt (at_list a)
      \<lparr>bc_Username = at_user a, bc_Password = at_password a, bc_Present = at_present a, bc_Verified = cached\<rparr>"
    using satisfy_all_granted assms(2,3) by auto
  have "verified bcrypt a \<or> (\<exists>b \<in> set past. verified bcrypt b \<and> same_credential a b \<and> at_t1 a \<le> at_t2 b + authTTL)"
  proof (cases cached)
    case True
    then obtain expiry where "(?k, expiry) \<in> set c" "at_t1 a \<le> expiry"
      using g granted_True [of ?k "at_t1 a" c c1] by (auto split: if_splits)
    then obtain b where b: "b \<in> set past" "verified bcrypt b" "at_key sha256 b = ?k" "at_t1 a \<le> at_t2 b + authTTL"
      using inv(1) unfolding backed_def by fastforce
    have "same_credential a b"
      using b(1,3) assms(5,6) by (intro at_key_same [of sha256]) (auto intro: inj_on_subset)
    with b show ?thesis by blast
  next
    case False
    with acc show ?thesis by (auto simp: acceptsCredentials_def verified_def split: if_splits)
  qed
  with ok at_decide_cache(1) [OF assms(4) inv(2)] show ?thesis by blast
qed

text \<open>With a list that accepts either half, the cache remembers what was never checked: a password sent
  from an allowed address is let in on the address alone, yet it is remembered as verified, and for
  thirty seconds it opens the list from every address, although bcrypt accepts no password at all
  and the same request would otherwise have been asked for credentials.\<close>

theorem satisfy_any_remembers_unchecked:
  assumes "al_SatisfyAny l" "al_BasicAuth l \<noteq> []" "allowsAddress l inside" "\<not> allowsAddress l outside" "t3 \<le> t2 + authTTL"
  shows "let reject = (\<lambda>_ _. False);
             (c, d1) = access_decide reject sha256 l inside (user, password, True) t1 t2 newAuthCache
         in d1 = AccessGranted \<and>
            snd (access_decide reject sha256 l outside (user, password, True) t3 t4 c) = AccessGranted \<and>
            snd (access_decide reject sha256 l outside (user, password, True) t3 t4 newAuthCache) = AccessNeedsCredentials"
proof -
  define k where "k = makeAuthKey sha256 (al_ID l) (al_UpdatedAt l) user password"
  let ?creds = "\<lambda>v. \<lparr>bc_Username = user, bc_Password = password, bc_Present = True, bc_Verified = v\<rparr>"
  have loop: "\<not> users_loop (\<lambda>_ _. False) creds us" for creds us by (induction us) auto
  have put: "remember k t2 newAuthCache = [(k, t2 + authTTL)]"
    by (simp add: remember_def newAuthCache_def authCacheMax_def)
  have fresh: "granted k t newAuthCache = (newAuthCache, False)" for t by (simp add: granted_def newAuthCache_def)
  have hit: "granted k t3 [(k, t2 + authTTL)] = ([(k, t2 + authTTL)], True)" using assms(5) by (simp add: granted_def)
  have ev: "EvaluateAccess (\<lambda>_ _. False) (Some l) inside (?creds v) = AccessGranted"
    "EvaluateAccess (\<lambda>_ _. False) (Some l) outside (?creds v) = (if v then AccessGranted else AccessNeedsCredentials)" for v
    using assms(1-4) loop by (auto simp: EvaluateAccess_def acceptsCredentials_def)
  have 1: "access_decide (\<lambda>_ _. False) sha256 l inside (user, password, True) t1 t2 newAuthCache = ([(k, t2 + authTTL)], AccessGranted)"
    using assms(2) by (simp add: access_decide_def flip: k_def) (simp add: fresh ev put)
  have 2: "snd (access_decide (\<lambda>_ _. False) sha256 l outside (user, password, True) t3 t4 [(k, t2 + authTTL)]) = AccessGranted"
    using assms(2) by (simp add: access_decide_def flip: k_def) (simp add: hit ev)
  have 3: "snd (access_decide (\<lambda>_ _. False) sha256 l outside (user, password, True) t3 t4 newAuthCache) = AccessNeedsCredentials"
    using assms(2) by (simp add: access_decide_def flip: k_def) (simp add: fresh ev)
  show ?thesis unfolding Let_def 1 by (simp add: 2 3)
qed

theorem satisfy_any_remembers_unchecked_witness:
  "let reject = (\<lambda>_ _. False);
       (c, d1) = access_decide reject (\<lambda>s. s) (ex_list True) ''10.1.2.3'' (''ann'', ''guess'', True) 100 100 newAuthCache
   in d1 = AccessGranted \<and>
      snd (access_decide reject (\<lambda>s. s) (ex_list True) ''192.0.2.1'' (''ann'', ''guess'', True) 200 200 c) = AccessGranted \<and>
      snd (access_decide reject (\<lambda>s. s) (ex_list True) ''192.0.2.1'' (''ann'', ''guess'', True) 200 200 newAuthCache)
        = AccessNeedsCredentials"
proof (rule satisfy_any_remembers_unchecked)
  show "al_SatisfyAny (ex_list True)" "al_BasicAuth (ex_list True) \<noteq> []" by (simp_all add: ex_list_def)
  show "allowsAddress (ex_list True) ''10.1.2.3''" "\<not> allowsAddress (ex_list True) ''192.0.2.1''" by (rule ex_list_addresses)+
  show "(200 :: int) \<le> 100 + authTTL" by (simp add: authTTL_def)
qed

definition ex_attempt :: "time \<Rightarrow> attempt" where
  "ex_attempt t =
     \<lparr>at_list = ex_list False, at_client = ''10.1.2.3'', at_user = ''ann'', at_password = ''pw'', at_present = True,
      at_t1 = t, at_t2 = t\<rparr>"

definition ex_bcrypt :: "string \<Rightarrow> string \<Rightarrow> bool" where
  "ex_bcrypt h p = (h = ''h'' \<and> p = ''pw'')"

lemma ex_attempt_decides:
  "at_decide ex_bcrypt (\<lambda>s. s) (ex_attempt t) [] = ([(at_key (\<lambda>s. s) (ex_attempt t), t + authTTL)], AccessGranted)"
proof -
  have "EvaluateAccess ex_bcrypt (Some (ex_list False)) ''10.1.2.3''
      \<lparr>bc_Username = ''ann'', bc_Password = ''pw'', bc_Present = True, bc_Verified = False\<rparr> = AccessGranted" by code_simp
  moreover have "length (al_BasicAuth (ex_list False)) > 0" by (simp add: ex_list_def)
  ultimately show ?thesis
    by (simp add: at_decide_def access_decide_def granted_def remember_def authCacheMax_def at_key_def ex_attempt_def)
qed

theorem cached_grants_were_verified_witness:
  "allowsAddress (at_list (ex_attempt 20)) (at_client (ex_attempt 20)) \<and> length (fst (at_decide ex_bcrypt (\<lambda>s. s) (ex_attempt 20)
      [(at_key (\<lambda>s. s) (ex_attempt 10), 10 + authTTL)])) \<le> authCacheMax \<and>
    (verified ex_bcrypt (ex_attempt 20) \<or> (\<exists>b \<in> set [ex_attempt 10]. verified ex_bcrypt b \<and> same_credential (ex_attempt 20) b \<and>
       at_t1 (ex_attempt 20) \<le> at_t2 b + authTTL))"
proof (rule cached_grants_were_verified)
  let ?c = "[(at_key (\<lambda>s. s) (ex_attempt 10), 10 + authTTL)]"
  show "run (auth_step ex_bcrypt (\<lambda>s. s)) newAuthCache [ex_attempt 10] ?c"
    by (rule run_step [OF _ run_refl]) (simp add: auth_step_def newAuthCache_def ex_attempt_decides)
  show "\<forall>b \<in> set [ex_attempt 20, ex_attempt 10]. \<not> al_SatisfyAny (at_list b)" by (simp add: ex_attempt_def ex_list_def)
  show "al_BasicAuth (at_list (ex_attempt 20)) \<noteq> []" by (simp add: ex_attempt_def ex_list_def)
  have "EvaluateAccess ex_bcrypt (Some (ex_list False)) ''10.1.2.3''
      \<lparr>bc_Username = ''ann'', bc_Password = ''pw'', bc_Present = True, bc_Verified = True\<rparr> = AccessGranted" by code_simp
  then have "snd (at_decide ex_bcrypt (\<lambda>s. s) (ex_attempt 20) ?c) = AccessGranted"
    by (simp add: at_decide_def access_decide_def granted_def at_key_def ex_attempt_def authTTL_def ex_list_def)
  then show "at_decide ex_bcrypt (\<lambda>s. s) (ex_attempt 20) ?c = (fst (at_decide ex_bcrypt (\<lambda>s. s) (ex_attempt 20) ?c), AccessGranted)"
    by (metis prod.collapse)
  show "inj_on (\<lambda>s. s) (digest_input ` set [ex_attempt 20, ex_attempt 10])" by simp
  show "\<forall>b \<in> set [ex_attempt 20, ex_attempt 10]. length (at_user b) < 2 ^ 64" by (simp add: ex_attempt_def)
qed

end
