(* ===== verification/Proxy_Forward.thy ===== *)
theory Proxy_Forward
  imports Proxy_Page Proxy_Compress Proxy_Cache Proxy_Access
begin

text \<open>
  Forwarding, from \<^verbatim>\<open>internal/proxy/handler.go\<close>: the request sent upstream (\<^verbatim>\<open>rewrite\<close>), the response sent
  back (\<^verbatim>\<open>modifyResponse\<close>), and the loop that picks a backend, sends the request and moves on to another
  backend when one cannot be reached.

  The reverse proxy of \<^verbatim>\<open>net/http/httputil\<close> is modelled as far as the handler can see it: it strips
  hop-by-hop headers and what the client says about forwarding, calls the hooks, relays informational
  responses, copies the response, and panics when a response breaks off. The transport underneath is
  the parameter \<open>upstream\<close>: what a backend does with the request in the given attempt.
\<close>

section \<open>The request sent upstream\<close>

definition hop_headers :: "string list" where
  "hop_headers = [''Connection'', ''Proxy-Connection'', ''Keep-Alive'', ''Proxy-Authenticate'', ''Proxy-Authorization'', ''Te'',
     ''Trailer'', ''Transfer-Encoding'', ''Upgrade'']"

definition connection_names :: "header \<Rightarrow> string list" where
  "connection_names h =
     map (\<lambda>p. CanonicalHeaderKey (trim_space p)) (filter (\<lambda>p. trim_space p \<noteq> [])
       (concat (map (\<lambda>v. split v (CHR '','')) (values_of h ''Connection''))))"

definition removeHopByHop :: "header \<Rightarrow> header" where
  "removeHopByHop h = filter (\<lambda>(k, vs). k \<notin> set (connection_names h) \<and> k \<notin> set hop_headers) h"

definition upgradeType :: "header \<Rightarrow> string" where
  "upgradeType h = (if headerHasToken h ''Connection'' ''Upgrade'' then Header_Get h ''Upgrade'' else [])"

text \<open>What \<^verbatim>\<open>ReverseProxy.ServeHTTP\<close> has made of the headers when it calls the rewrite hook.\<close>

definition outbound_header :: "request \<Rightarrow> header" where
  "outbound_header r =
     (let up = upgradeType (q_Header r);
          trailers = headerHasToken (q_Header r) ''Te'' ''trailers'';
          h = removeHopByHop (q_Header r);
          h = (if trailers then Header_Set ''Te'' ''trailers'' h else h);
          h = (if up \<noteq> [] then Header_Set ''Upgrade'' up (Header_Set ''Connection'' ''Upgrade'' h) else h);
          h = Header_Del ''Forwarded'' (Header_Del ''X-Forwarded-For'' h);
          h = Header_Del ''X-Forwarded-Host'' (Header_Del ''X-Forwarded-Proto'' h)
      in h)"

definition SetXForwarded :: "request \<Rightarrow> header \<Rightarrow> header" where
  "SetXForwarded r h =
     (let h = (case SplitHostPort (q_RemoteAddr r) of
                 Some (ip, _) \<Rightarrow>
                   let prior = values_of h ''X-Forwarded-For''
                   in Header_Set ''X-Forwarded-For''
                        (if prior \<noteq> [] then concat (map (\<lambda>p. p @ '', '') prior) @ ip else ip) h
               | None \<Rightarrow> Header_Del ''X-Forwarded-For'' h);
          h = Header_Set ''X-Forwarded-Host'' (q_Host r) h
      in Header_Set ''X-Forwarded-Proto'' (if q_TLS r then ''https'' else ''http'') h)"

record outbound =
  ob_Scheme :: string
  ob_Host :: string
  ob_request :: request

definition apply_if :: "(headers \<Rightarrow> header \<Rightarrow> header) \<Rightarrow> headers \<Rightarrow> header \<Rightarrow> header" where
  "apply_if f hs h = (if \<not> Headers_Empty hs then f hs h else h)"

definition rewrite :: "host \<Rightarrow> location option \<Rightarrow> backend \<Rightarrow> request \<Rightarrow> outbound" where
  "rewrite hst loc b r =
     (let strip = (case loc of Some l \<Rightarrow> lc_StripPrefix l | None \<Rightarrow> False);
          path = (case loc of Some l \<Rightarrow> if strip then Location_Forward l (q_Path r) else q_Path r | None \<Rightarrow> q_Path r);
          rawPath = (case loc of
                       Some l \<Rightarrow> if strip \<and> q_RawPath r \<noteq> [] then Location_Forward l (q_RawPath r) else q_RawPath r
                     | None \<Rightarrow> q_RawPath r);
          h = SetXForwarded r (outbound_header r);
          h = apply_if ApplyRequest (h_Headers hst) h;
          h = (case loc of Some l \<Rightarrow> apply_if ApplyRequest (lc_Headers l) h | None \<Rightarrow> h)
      in \<lparr>ob_Scheme = fst (b_URL b), ob_Host = snd (b_URL b),
          ob_request = r\<lparr>q_Path := path, q_RawPath := rawPath, q_RawQuery := cleanQueryParams (q_RawQuery r), q_Header := h,
            q_Host := (if h_PreserveHost hst then q_Host r else snd (b_URL b))\<rparr>\<rparr>)"

definition modifyResponse :: "host \<Rightarrow> location option \<Rightarrow> header \<Rightarrow> header" where
  "modifyResponse hst loc h =
     (let h = apply_if ApplyResponse (h_Headers hst) h
      in case loc of Some l \<Rightarrow> apply_if ApplyResponse (lc_Headers l) h | None \<Rightarrow> h)"

section \<open>One attempt\<close>

text \<open>What a backend does: it fails, at once or after some informational responses; it switches protocols,
  and the connection is taken over; or it sends informational codes, a status, headers and a body in
  pieces, which may break off (on either side), when \<open>complete\<close> is false.\<close>

datatype upstream_reply =
  Unreachable "int list" string
| Switched
| Responded "int list" int header "body_op list" (complete: bool)

datatype attempt_end = Relayed | UpstreamErr string | Aborted

fun relay_body :: "'w writer_ops \<Rightarrow> body_op list \<Rightarrow> 'w \<Rightarrow> 'w" where
  "relay_body ops [] w = w"
| "relay_body ops (BWrite b # bs) w = relay_body ops bs (fst (wo_Write ops b w))"
| "relay_body ops (BFlush # bs) w = relay_body ops bs (wo_Flush ops w)"

definition copyHeader :: "header \<Rightarrow> header \<Rightarrow> header" where
  "copyHeader dst src = foldl (\<lambda>h (k, vs). foldl (\<lambda>h v. Header_Add k v h) h vs) dst src"

definition relay_info :: "'w writer_ops \<Rightarrow> 'w \<Rightarrow> int \<Rightarrow> 'w" where
  "relay_info ops w code = wo_SetHeader ops [] (wo_WriteHeader ops code w)"

definition relay :: "'w writer_ops \<Rightarrow> host \<Rightarrow> location option \<Rightarrow> upstream_reply \<Rightarrow> 'w \<Rightarrow> 'w \<times> attempt_end" where
  "relay ops hst loc reply w =
     (case reply of
        Unreachable codes err \<Rightarrow> (foldl (relay_info ops) w codes, UpstreamErr err)
      | Switched \<Rightarrow> (w, Relayed)
      | Responded codes status h body ok \<Rightarrow>
          let w = foldl (relay_info ops) w codes;
              h = modifyResponse hst loc (removeHopByHop h);
              w = edit_header ops (\<lambda>dst. copyHeader dst h) w;
              w = wo_WriteHeader ops status w;
              w = relay_body ops body w
          in (w, if ok then Relayed else Aborted))"

section \<open>The retry loop\<close>

text \<open>What happens while a request is forwarded: the heap of backends, the pool (whose selector
  advances), the recorder, the requests sent and the ejections announced.\<close>

record 'w fwd =
  f_heap :: heap
  f_pool :: pool
  f_rec :: "'w recorder"
  f_sent :: "(bid \<times> outbound) list"
  f_ejections :: "bid list"

datatype fwd_end =
  Served bid
| Unavailable pick_error nat
| BadGateway bid string
| AbortedOn bid
| Crashed

definition canReplay :: "request \<Rightarrow> bool" where
  "canReplay r \<longleftrightarrow> q_ContentLength r = 0 \<and> (q_Body r = NilBody \<or> q_Body r = NoBody)"

record 'w fwd_env =
  fe_ops :: "'w writer_ops"
  fe_hash :: "string \<Rightarrow> 64 word"
  fe_upstream :: "nat \<Rightarrow> bid \<Rightarrow> outbound \<Rightarrow> upstream_reply"
  fe_clock :: "nat \<Rightarrow> time"
  fe_latency :: "nat \<Rightarrow> duration"
  fe_MaxRetries :: nat

text \<open>One attempt on a picked backend. The release of the backend is not deferred in the code: when the
  relay panics, it is skipped.\<close>

definition try_backend ::
  "'w fwd_env \<Rightarrow> request \<Rightarrow> host \<Rightarrow> location option \<Rightarrow> nat \<Rightarrow> bid \<Rightarrow> 'w fwd \<Rightarrow> 'w fwd \<times> attempt_end" where
  "try_backend env r hst loc attempt b f =
     (let h = (f_heap f)(b := Acquire (f_heap f b));
          out = rewrite hst loc (h b) r;
          (rec, res) = relay (recorder_ops (fe_ops env)) hst loc (fe_upstream env attempt b out) (f_rec f);
          f = f\<lparr>f_rec := rec, f_sent := f_sent f @ [(b, out)]\<rparr>
      in case res of
           Aborted \<Rightarrow> (f\<lparr>f_heap := h\<rparr>, res)
         | Relayed \<Rightarrow>
             let x = RecordError None (Release (fe_latency env attempt) (h b));
                 (x, _) = RecordProxyResult True (h_PassiveHealth hst) (fe_clock env attempt) x
             in (f\<lparr>f_heap := h(b := x)\<rparr>, res)
         | UpstreamErr err \<Rightarrow>
             let x = RecordError (Some err) (Release (fe_latency env attempt) (h b));
                 (x, ejected) = RecordProxyResult False (h_PassiveHealth hst) (fe_clock env attempt) x
             in (f\<lparr>f_heap := h(b := x), f_ejections := (if ejected then f_ejections f @ [b] else f_ejections f)\<rparr>, res))"

function forward_loop ::
  "'w fwd_env \<Rightarrow> request \<Rightarrow> host \<Rightarrow> location option \<Rightarrow> string \<Rightarrow> nat \<Rightarrow> bid list \<Rightarrow> (bid \<times> string) option \<Rightarrow> 'w fwd \<Rightarrow> 'w fwd \<times> fwd_end" where
  "forward_loop env r hst loc client attempt tried lastFail f =
     (case Pick (fe_hash env) (fe_clock env attempt) (f_heap f) (f_pool f) client tried of
        (h, p, Inl err) \<Rightarrow>
          (f\<lparr>f_heap := h, f_pool := p\<rparr>,
           case lastFail of Some (b, e) \<Rightarrow> BadGateway b e | None \<Rightarrow> Unavailable err (length tried))
      | (h, p, Inr (Picked b)) \<Rightarrow>
          (case try_backend env r hst loc attempt b (f\<lparr>f_heap := h, f_pool := p\<rparr>) of
             (f, Relayed) \<Rightarrow> (f, Served b)
           | (f, Aborted) \<Rightarrow> (f, AbortedOn b)
           | (f, UpstreamErr e) \<Rightarrow>
               if \<not> dirty (f_rec f) \<and> canReplay r \<and> attempt < fe_MaxRetries env
               then forward_loop env r hst loc client (Suc attempt) (tried @ [b]) (Some (b, e)) f
               else (f, BadGateway b e))
      | (h, p, Inr _) \<Rightarrow> (f\<lparr>f_heap := h, f_pool := p\<rparr>, Crashed))"
  by pat_completeness auto
termination
  by (relation "measure (\<lambda>(env, _, _, _, _, attempt, _). fe_MaxRetries env - attempt)") auto

declare forward_loop.simps [simp del]

section \<open>What the loop does\<close>

lemma Pick_result:
  assumes "Pick hash now h p ip excl = (h', p', res)" "length (p_backends p) < 2 ^ 64"
  shows "same_but_score h h' \<and> p_backends p' = p_backends p \<and> (\<forall>b. res = Inr (Picked b) \<longrightarrow> b \<in> set (p_backends p) \<and> b \<notin> set excl)"
proof -
  obtain s' where pf: "pick_from (Select hash) (p_selector p) h now (p_backends p) ip excl = (s', h', res)"
    and "p' = p\<lparr>p_selector := s'\<rparr>" using assms(1) by (auto simp: Pick_def split: prod.splits)
  with sel.pick_from_sound [OF assms(2)] sel.pick_from_frame [OF pf] show ?thesis by (auto simp: eligible_def)
qed

lemma same_but_score_conns: "same_but_score h h' \<Longrightarrow> b_activeConns (h' b) = b_activeConns (h b)"
  by (simp add: same_but_score_def) (metis backend.select_convs(6) backend.surjective backend.update_convs(14))

lemma RecordProxyResult_conns: "RecordProxyResult ok cfg now b = (b', e) \<Longrightarrow> b_activeConns b' = b_activeConns b"
  by (auto simp: RecordProxyResult_def Let_def split: if_splits)

lemma relay_info_dirty: "codes \<noteq> [] \<Longrightarrow> dirty (foldl (relay_info (recorder_ops ops)) rec codes)"
proof -
  have keep: "dirty rec \<Longrightarrow> dirty (foldl (relay_info (recorder_ops ops)) rec codes)" for rec codes
    by (induction codes arbitrary: rec) (auto simp: relay_info_def recorder_WriteHeader_def dirty_def)
  have "dirty (relay_info (recorder_ops ops) rec c)" for rec c
    by (simp add: relay_info_def recorder_WriteHeader_def dirty_def)
  with keep show "codes \<noteq> [] \<Longrightarrow> ?thesis" by (cases codes) auto
qed

lemma relay_UpstreamErr:
  assumes "relay (recorder_ops ops) hst loc reply rec = (rec', UpstreamErr err)"
  shows "\<exists>codes. reply = Unreachable codes err \<and> (\<not> dirty rec' \<longrightarrow> codes = [] \<and> rec' = rec)"
proof (cases reply)
  case (Unreachable codes e)
  with assms have "e = err" "rec' = foldl (relay_info (recorder_ops ops)) rec codes" by (simp_all add: relay_def)
  with Unreachable relay_info_dirty [of codes ops rec] show ?thesis by (cases "codes = []") auto
qed (use assms in \<open>auto simp: relay_def Let_def split: if_splits\<close>)

lemma try_backend_spec:
  assumes "try_backend env r hst loc k b f = (f', res)"
  shows "\<exists>out. f_sent f' = f_sent f @ [(b, out)] \<and> f_pool f' = f_pool f \<and>
     (\<forall>x. b_activeConns (f_heap f' x) = b_activeConns (f_heap f x) + (if res = Aborted \<and> x = b then 1 else 0)) \<and>
     (\<forall>err. res = UpstreamErr err \<longrightarrow> (\<exists>codes. fe_upstream env k b out = Unreachable codes err \<and>
        (\<not> dirty (f_rec f') \<longrightarrow> codes = [] \<and> f_rec f' = f_rec f)))"
proof -
  let ?out = "rewrite hst loc (Acquire (f_heap f b)) r"
  obtain rec where rl: "relay (recorder_ops (fe_ops env)) hst loc (fe_upstream env k b ?out) (f_rec f) = (rec, res)"
    and f': "f_rec f' = rec" "f_sent f' = f_sent f @ [(b, ?out)]" "f_pool f' = f_pool f"
    using assms by (auto simp: try_backend_def Let_def split: prod.splits attempt_end.splits)
  have "b_activeConns (f_heap f' x) = b_activeConns (f_heap f x) + (if res = Aborted \<and> x = b then 1 else 0)" for x
    using assms rl
    by (auto simp: try_backend_def Let_def Acquire_def Release_def RecordError_def split: prod.splits attempt_end.splits
      dest: RecordProxyResult_conns)
  moreover have "\<exists>codes. fe_upstream env k b ?out = Unreachable codes err \<and> (\<not> dirty (f_rec f') \<longrightarrow> codes = [] \<and> f_rec f' = f_rec f)"
    if "res = UpstreamErr err" for err
    using relay_UpstreamErr [OF rl [unfolded that]] f'(1) by simp
  ultimately show ?thesis using f' by blast
qed

text \<open>What a run of the loop adds, from the given attempt with the given backends tried.\<close>

definition retried_clean :: "'w fwd_env \<Rightarrow> nat \<Rightarrow> (bid \<times> outbound) list \<Rightarrow> bool" where
  "retried_clean env k sent \<longleftrightarrow>
     (\<forall>i. Suc i < length sent \<longrightarrow> (\<exists>err. fe_upstream env (k + i) (fst (sent ! i)) (snd (sent ! i)) = Unreachable [] err))"

definition end_ok :: "(bid \<times> outbound) list \<Rightarrow> (bid \<times> string) option \<Rightarrow> bool \<Rightarrow> fwd_end \<Rightarrow> bool" where
  "end_ok sent lastFail untouched e =
     (case e of
        Served b \<Rightarrow> sent \<noteq> [] \<and> fst (last sent) = b
      | AbortedOn b \<Rightarrow> sent \<noteq> [] \<and> fst (last sent) = b
      | BadGateway b err \<Rightarrow> if sent = [] then lastFail = Some (b, err) else fst (last sent) = b
      | Unavailable err n \<Rightarrow> sent = [] \<and> untouched \<and> lastFail = None
      | Crashed \<Rightarrow> True)"

definition loop_spec ::
  "'w fwd_env \<Rightarrow> request \<Rightarrow> nat \<Rightarrow> bid list \<Rightarrow> (bid \<times> string) option \<Rightarrow> 'w fwd \<Rightarrow> 'w fwd \<times> fwd_end \<Rightarrow> bool" where
  "loop_spec env r k tried lastFail f res \<longleftrightarrow>
     (case res of (f', e) \<Rightarrow> \<exists>sent. f_sent f' = f_sent f @ sent \<and>
        distinct (map fst sent) \<and> set (map fst sent) \<subseteq> set (p_backends (f_pool f)) - set tried \<and>
        length sent \<le> Suc (fe_MaxRetries env - k) \<and> (length sent > 1 \<longrightarrow> canReplay r) \<and> retried_clean env k sent \<and>
        (\<forall>x. b_activeConns (f_heap f' x) = b_activeConns (f_heap f x) + (if e = AbortedOn x then 1 else 0)) \<and>
        end_ok sent lastFail (f_rec f' = f_rec f) e)"

lemma retried_clean_Cons:
  assumes "retried_clean env (Suc k) sent" "fe_upstream env k b out = Unreachable [] err"
  shows "retried_clean env k ((b, out) # sent)"
  unfolding retried_clean_def
proof (intro allI impI)
  fix i assume "Suc i < length ((b, out) # sent)"
  with assms show "\<exists>err. fe_upstream env (k + i) (fst (((b, out) # sent) ! i)) (snd (((b, out) # sent) ! i)) = Unreachable [] err"
    by (cases i) (auto simp: retried_clean_def)
qed

lemma loop_spec_retry:
  assumes "loop_spec env r (Suc k) (tried @ [b]) (Some (b, err)) f1 res"
    and "f_sent f1 = f_sent f @ [(b, out)]" "p_backends (f_pool f1) = p_backends (f_pool f)"
    and "b \<in> set (p_backends (f_pool f)) - set tried"
    and "\<And>x. b_activeConns (f_heap f1 x) = b_activeConns (f_heap f x)"
    and "fe_upstream env k b out = Unreachable [] err" "canReplay r" "k < fe_MaxRetries env"
  shows "loop_spec env r k tried lastFail f res"
proof -
  obtain f' e where res: "res = (f', e)" by fastforce
  from assms(1) obtain sent where s: "f_sent f' = f_sent f1 @ sent" "distinct (map fst sent)"
    "set (map fst sent) \<subseteq> set (p_backends (f_pool f1)) - set (tried @ [b])" "length sent \<le> Suc (fe_MaxRetries env - Suc k)"
    "retried_clean env (Suc k) sent"
    and c: "\<And>x. b_activeConns (f_heap f' x) = b_activeConns (f_heap f1 x) + (if e = AbortedOn x then 1 else 0)"
    and e: "end_ok sent (Some (b, err)) (f_rec f' = f_rec f1) e"
    unfolding loop_spec_def res by auto
  show ?thesis
    unfolding loop_spec_def res prod.case
  proof (intro exI [of _ "(b, out) # sent"] conjI allI impI)
    show "retried_clean env k ((b, out) # sent)" using s(5) assms(6) by (rule retried_clean_Cons)
    show "b_activeConns (f_heap f' x) = b_activeConns (f_heap f x) + (if e = AbortedOn x then 1 else 0)" for x
      using c [of x] assms(5) [of x] by simp
    show "length ((b, out) # sent) \<le> Suc (fe_MaxRetries env - k)" using s(4) assms(8) by simp
    show "end_ok ((b, out) # sent) lastFail (f_rec f' = f_rec f) e"
      using e by (auto simp: end_ok_def split: fwd_end.splits if_splits)
  qed (use s assms(2-4,7) in auto)
qed

lemma forward_loop_spec:
  assumes "length (p_backends (f_pool f)) < 2 ^ 64"
  shows "loop_spec env r k tried lastFail f (forward_loop env r hst loc client k tried lastFail f)"
  using assms
proof (induction env r hst loc client k tried lastFail f rule: forward_loop.induct)
  case (1 env r hst loc client k tried lastFail f)
  obtain h p res where pk: "Pick (fe_hash env) (fe_clock env k) (f_heap f) (f_pool f) client tried = (h, p, res)"
    by (metis prod_cases3)
  note pr = Pick_result [OF pk 1(2)]
  have conns: "b_activeConns (h x) = b_activeConns (f_heap f x)" for x using pr same_but_score_conns by blast
  define g where "g = f\<lparr>f_heap := h, f_pool := p\<rparr>"
  have nil: "loop_spec env r k tried lastFail f (g, e)"
    if "e = Crashed \<or> (\<exists>b err. e = BadGateway b err \<and> lastFail = Some (b, err)) \<or> (\<exists>err n. e = Unavailable err n \<and> lastFail = None)" for e
    using that conns by (auto simp: loop_spec_def end_ok_def g_def retried_clean_def)
  show ?case
  proof (cases res)
    case (Inl err)
    with pk nil show ?thesis by (subst forward_loop.simps) (auto simp: g_def split: option.splits)
  next
    case (Inr sr)
    show ?thesis
    proof (cases sr)
      case (Picked b)
      obtain f1 ae where t: "try_backend env r hst loc k b g = (f1, ae)" by fastforce
      from try_backend_spec [OF t] obtain out where
        s1: "f_sent f1 = f_sent f @ [(b, out)]" "p_backends (f_pool f1) = p_backends (f_pool f)"
        and c1: "\<And>x. b_activeConns (f_heap f1 x) = b_activeConns (f_heap f x) + (if ae = Aborted \<and> x = b then 1 else 0)"
        and e1: "\<And>err. ae = UpstreamErr err \<Longrightarrow> \<not> dirty (f_rec f1) \<Longrightarrow> fe_upstream env k b out = Unreachable [] err"
        using pr conns by (fastforce simp: g_def)
      have bk: "b \<in> set (p_backends (f_pool f)) - set tried" using pr Inr Picked by auto
      have one: "loop_spec env r k tried lastFail f (f1, e)"
        if "(ae = Aborted \<and> e = AbortedOn b) \<or> (ae \<noteq> Aborted \<and> (e = Served b \<or> (\<exists>err. e = BadGateway b err)))" for e
        using that s1(1) c1 bk unfolding loop_spec_def by (auto simp: retried_clean_def end_ok_def intro!: exI [of _ "[(b, out)]"])
      show ?thesis
      proof (cases "\<exists>err. ae = UpstreamErr err \<and> \<not> dirty (f_rec f1) \<and> canReplay r \<and> k < fe_MaxRetries env")
        case True
        then obtain err where er: "ae = UpstreamErr err" "\<not> dirty (f_rec f1)" "canReplay r" "k < fe_MaxRetries env" by blast
        have eq: "forward_loop env r hst loc client k tried lastFail f =
            forward_loop env r hst loc client (Suc k) (tried @ [b]) (Some (b, err)) f1"
          using pk Inr Picked t er by (subst forward_loop.simps) (simp add: g_def)
        have "loop_spec env r (Suc k) (tried @ [b]) (Some (b, err)) f1
            (forward_loop env r hst loc client (Suc k) (tried @ [b]) (Some (b, err)) f1)"
          by (rule "1.IH" [OF pk [symmetric] refl Inr Picked t [unfolded g_def, symmetric] er(1)]) (use er s1 1(2) in auto)
        then show ?thesis unfolding eq
          by (rule loop_spec_retry [OF _ s1 bk _ e1 [OF er(1,2)] er(3,4)]) (simp add: c1 er(1))
      next
        case False
        then have "forward_loop env r hst loc client k tried lastFail f =
            (f1, case ae of Relayed \<Rightarrow> Served b | Aborted \<Rightarrow> AbortedOn b | UpstreamErr e \<Rightarrow> BadGateway b e)"
          using pk Inr Picked t by (subst forward_loop.simps) (auto simp: g_def split: attempt_end.splits)
        with one show ?thesis by (auto split: attempt_end.splits)
      qed
    next
      case NilBackend
      with pk Inr have "forward_loop env r hst loc client k tried lastFail f = (g, Crashed)"
        by (subst forward_loop.simps) (simp add: g_def)
      with nil show ?thesis by simp
    next
      case Panic
      with pk Inr have "forward_loop env r hst loc client k tried lastFail f = (g, Crashed)"
        by (subst forward_loop.simps) (simp add: g_def)
      with nil show ?thesis by simp
    qed
  qed
qed

section \<open>Properties of forwarding\<close>

text \<open>C8. Retrying is sound and bounded: one request is sent to at most one backend more than the configured
  number of retries, never to the same backend twice and only to backends of the pool; it is sent
  again only if it has no body, and only after the backend before failed without anything, not even
  an informational response, having come back; the outcome names the last backend tried, and when no
  backend could be picked at all nothing was sent and the response is untouched.\<close>

theorem forward_retries_soundly:
  assumes "forward_loop env r hst loc client 0 [] None f = (f', e)" "f_sent f = []" "length (p_backends (f_pool f)) < 2 ^ 64"
  shows "length (f_sent f') \<le> Suc (fe_MaxRetries env) \<and> distinct (map fst (f_sent f')) \<and>
    set (map fst (f_sent f')) \<subseteq> set (p_backends (f_pool f)) \<and>
    (length (f_sent f') > 1 \<longrightarrow> canReplay r) \<and>
    (\<forall>i. Suc i < length (f_sent f') \<longrightarrow>
       (\<exists>err. fe_upstream env i (fst (f_sent f' ! i)) (snd (f_sent f' ! i)) = Unreachable [] err)) \<and>
    (case e of
       Unavailable err n \<Rightarrow> f_sent f' = [] \<and> f_rec f' = f_rec f
     | Crashed \<Rightarrow> True
     | Served b \<Rightarrow> f_sent f' \<noteq> [] \<and> fst (last (f_sent f')) = b
     | AbortedOn b \<Rightarrow> f_sent f' \<noteq> [] \<and> fst (last (f_sent f')) = b
     | BadGateway b err \<Rightarrow> f_sent f' \<noteq> [] \<and> fst (last (f_sent f')) = b)"
proof -
  have "loop_spec env r 0 [] None f (f', e)"
    using forward_loop_spec [OF assms(3), of env r 0 "[]" None hst loc client] assms(1) by simp
  then obtain sent where "f_sent f' = sent" "distinct (map fst sent)" "set (map fst sent) \<subseteq> set (p_backends (f_pool f))"
    "length sent \<le> Suc (fe_MaxRetries env)" "length sent > 1 \<longrightarrow> canReplay r" "retried_clean env 0 sent"
    "end_ok sent None (f_rec f' = f_rec f) e"
    using assms(2) unfolding loop_spec_def by auto
  then show ?thesis unfolding retried_clean_def end_ok_def by (auto split: fwd_end.splits if_splits)
qed

text \<open>C36. The count of requests in flight is kept, except across an aborted response: after forwarding, every
  backend has as many requests in flight as before, whatever the number of attempts; but when a
  response breaks off, the backend serving it keeps one more for ever, because the panic that ends
  the request skips the release.\<close>

theorem forward_keeps_active_count:
  assumes "forward_loop env r hst loc client 0 [] None f = (f', e)" "length (p_backends (f_pool f)) < 2 ^ 64"
  shows "b_activeConns (f_heap f' b) = b_activeConns (f_heap f b) + (if e = AbortedOn b then 1 else 0)"
  using forward_loop_spec [OF assms(2), of env r 0 "[]" None hst loc client] assms(1) unfolding loop_spec_def by auto

definition ex_fwd :: "bid list \<Rightarrow> conn fwd" where
  "ex_fwd bs = \<lparr>f_heap = ex_heap [1, 1, 1], f_pool = ex_pool LeastConnections bs, f_rec = new_recorder (new_conn None), f_sent = [], f_ejections = []\<rparr>"

definition ex_env :: "(nat \<Rightarrow> bid \<Rightarrow> outbound \<Rightarrow> upstream_reply) \<Rightarrow> conn fwd_env" where
  "ex_env up = \<lparr>fe_ops = conn_ops, fe_hash = (\<lambda>_. 0), fe_upstream = up, fe_clock = (\<lambda>_. 100), fe_latency = (\<lambda>_. 0), fe_MaxRetries = 2\<rparr>"

lemma ex_fwd_small: "length (p_backends (f_pool (ex_fwd [0, 1, 2]))) < 2 ^ 64" "length (p_backends (f_pool (ex_fwd [0]))) < 2 ^ 64"
  by (simp_all add: ex_fwd_def ex_pool_def)

theorem forward_retries_soundly_witness:
  "length (f_sent (fst (forward_loop (ex_env (\<lambda>_ _ _. Unreachable [] ''refused'')) (ex_get ''/'' []) ex_site None ''192.0.2.1'' 0 [] None
      (ex_fwd [0, 1, 2])))) \<le> 3"
  using forward_retries_soundly [OF prod.collapse [symmetric] _ ex_fwd_small(1),
      of "ex_env (\<lambda>_ _ _. Unreachable [] ''refused'')" "ex_get ''/'' []" ex_site None "''192.0.2.1''"]
  by (simp add: ex_env_def ex_fwd_def)

lemma ex_abort:
  "snd (forward_loop (ex_env (\<lambda>_ _ _. Responded [] 200 [] [BWrite ''par''] False)) (ex_get ''/'' []) ex_site None ''192.0.2.1'' 0 [] None
      (ex_fwd [0])) = AbortedOn 0"
proof -
  have p: "snd (snd (Pick (\<lambda>_. 0) 100 (ex_heap [1, 1, 1]) (ex_pool LeastConnections [0]) ''192.0.2.1'' [])) = Inr (Picked 0)"
    by (simp add: Pick_def pick_from_def ex_pool_def newSelector_def algorithm_defs backend_defs leastConnections_Select_def
      ex_heap_def NewBackend_def ex_upstream_def Let_def)
  then obtain h q where pk: "Pick (\<lambda>_. 0) 100 (ex_heap [1, 1, 1]) (ex_pool LeastConnections [0]) ''192.0.2.1'' [] = (h, q, Inr (Picked 0))"
    by (metis prod.collapse)
  let ?env = "ex_env (\<lambda>_ _ _. Responded [] 200 [] [BWrite ''par''] False)"
  have "snd (try_backend ?env (ex_get ''/'' []) ex_site None 0 0 g) = Aborted" for g
    by (simp add: try_backend_def ex_env_def relay_def Let_def split: prod.splits)
  then obtain f1 where "try_backend ?env (ex_get ''/'' []) ex_site None 0 0 (ex_fwd [0]\<lparr>f_heap := h, f_pool := q\<rparr>) = (f1, Aborted)"
    by (metis prod.collapse)
  moreover have "fe_hash ?env = (\<lambda>_. 0)" "fe_clock ?env 0 = 100" "f_heap (ex_fwd [0]) = ex_heap [1, 1, 1]"
    "f_pool (ex_fwd [0]) = ex_pool LeastConnections [0]" by (simp_all add: ex_env_def ex_fwd_def)
  ultimately show ?thesis using pk by (subst forward_loop.simps) simp
qed

theorem forward_keeps_active_count_witness:
  "b_activeConns (f_heap (ex_fwd [0]) 0) = 0 \<and>
   b_activeConns (f_heap (fst (forward_loop (ex_env (\<lambda>_ _ _. Responded [] 200 [] [BWrite ''par''] False)) (ex_get ''/'' []) ex_site None
      ''192.0.2.1'' 0 [] None (ex_fwd [0]))) 0) = 1"
  using forward_keeps_active_count [OF prod.collapse [symmetric] ex_fwd_small(2),
      of "ex_env (\<lambda>_ _ _. Responded [] 200 [] [BWrite ''par''] False)" "ex_get ''/'' []" ex_site None "''192.0.2.1''" 0] ex_abort
  by (simp add: ex_fwd_def ex_heap_def NewBackend_def)

end
