(* ===== verification/Guardian.thy ===== *)
theory Guardian
  imports Go_Url Domain_Settings
begin

text \<open>
  \<^verbatim>\<open>internal/guardian/guardian.go\<close>: inspection of a request for attack patterns, by searching the
  decoded and lowered target for fixed texts. All of these are ASCII, so a text found after lowering
  ASCII letters only, as \<open>to_lower\<close> does, is also found after Go's lowering of every letter.

  The lemmas show that decoding a second time cannot hide a pattern the first decoding revealed, so
  that a payload is found whether it is sent as it is, encoded once or encoded twice.
\<close>

definition maxScan :: nat where "maxScan = 4096"

record guard_verdict =
  gv_Matched :: bool
  gv_Rule :: guardian_rule
  gv_Detail :: string

definition no_match :: guard_verdict where
  "no_match = \<lparr>gv_Matched = False, gv_Rule = [], gv_Detail = []\<rparr>"

section \<open>Patterns\<close>

definition traversalPatterns :: "string list" where
  "traversalPatterns = [''../'', ''..'' @ [CHR 0x5C], ''/..'', [CHR 0x5C] @ ''..'', ''....//'']"

definition sensitiveFiles :: "string list" where
  "sensitiveFiles =
     [''/.env'', ''/.git/'', ''/.gitignore'', ''/.svn/'', ''/.hg/'',
      ''/.aws/'', ''/.ssh/'', ''/id_rsa'', ''/.htpasswd'', ''/.htaccess'',
      ''/web.config'', ''/.ds_store'', ''/.npmrc'', ''/.dockerenv'',
      ''/wp-config.php'', ''/config.php.bak'', ''/database.sql'', ''/dump.sql'',
      ''/.vscode/'', ''/.idea/'', ''/composer.lock'', ''/package-lock.json.bak'']"

abbreviation sq :: string where "sq \<equiv> [CHR 0x27]"
abbreviation dq :: string where "dq \<equiv> [CHR 0x22]"
abbreviation bq :: string where "bq \<equiv> [CHR 0x60]"

definition sqlPatterns :: "string list" where
  "sqlPatterns =
     [''union select'', ''union all select'', sq @ '' or '' @ sq @ ''1'' @ sq @ ''='' @ sq @ ''1'',
      dq @ '' or '' @ dq @ ''1'' @ dq @ ''='' @ dq @ ''1'',
      '' or 1=1'', sq @ '' or 1=1'', sq @ ''; drop table'', ''; drop table'',
      ''information_schema'', ''sleep('', ''benchmark('', ''waitfor delay'',
      ''pg_sleep('', ''load_file('', ''into outfile'', ''xp_cmdshell'']"

definition shellPatterns :: "string list" where
  "shellPatterns =
     ['';cat '', ''|cat '', ''&&cat '', ''; cat /etc'', ''|| cat /etc'',
      ''/etc/passwd'', ''/etc/shadow'', ''$('', bq @ ''id'' @ bq, '';id;'', ''|id'',
      ''wget http'', ''curl http'', ''nc -e'', ''bash -i'', ''/bin/sh'']"

definition scannerAgents :: "string list" where
  "scannerAgents =
     [''sqlmap'', ''nikto'', ''nmap'', ''masscan'', ''zgrab'', ''nessus'',
      ''acunetix'', ''netsparker'', ''wpscan'', ''dirbuster'', ''gobuster'',
      ''havij'', ''arachni'', ''metasploit'']"

section \<open>Checks\<close>

fun checkPatterns :: "string \<Rightarrow> string list \<Rightarrow> guardian_rule \<Rightarrow> guard_verdict" where
  "checkPatterns haystack [] rule = no_match"
| "checkPatterns haystack (p # ps) rule =
     (if contains haystack p then \<lparr>gv_Matched = True, gv_Rule = rule, gv_Detail = ''matched '' @ p\<rparr>
      else checkPatterns haystack ps rule)"

fun sensitive_loop :: "string \<Rightarrow> string list \<Rightarrow> guard_verdict" where
  "sensitive_loop path [] = no_match"
| "sensitive_loop path (f # fs) =
     (if contains path f
      then \<lparr>gv_Matched = True, gv_Rule = RuleSensitiveFiles, gv_Detail = ''probed for '' @ f\<rparr>
      else sensitive_loop path fs)"

definition checkSensitiveFiles :: "string \<Rightarrow> guard_verdict" where
  "checkSensitiveFiles path = sensitive_loop path sensitiveFiles"

definition checkControlCharacters :: "string \<Rightarrow> guard_verdict" where
  "checkControlCharacters target =
     (if list_ex (\<lambda>c. byte c < 32 \<or> byte c = 127) target
      then \<lparr>gv_Matched = True, gv_Rule = RuleControlCharacters,
            gv_Detail = ''control character in the request target''\<rparr>
      else no_match)"

text \<open>The cut that bounds what is scanned drops an escape it would split.\<close>

definition scan_clamp :: "string \<Rightarrow> string" where
  "scan_clamp s =
     (if length s \<le> maxScan then s
      else let s = take maxScan s
           in case find (\<lambda>i. s ! i = CHR ''%'') [length s - 1, length s - 2] of
                Some i \<Rightarrow> take i s
              | None \<Rightarrow> s)"

fun agents_loop :: "string \<Rightarrow> string list \<Rightarrow> guard_verdict" where
  "agents_loop lowered [] = no_match"
| "agents_loop lowered (s # ss) =
     (if contains lowered s
      then \<lparr>gv_Matched = True, gv_Rule = RuleScannerAgents, gv_Detail = ''user agent identifies as '' @ s\<rparr>
      else agents_loop lowered ss)"

definition checkScannerAgent :: "string \<Rightarrow> guard_verdict" where
  "checkScannerAgent agent =
     (if agent = [] then no_match else agents_loop (to_lower (scan_clamp agent)) scannerAgents)"

fun decode_rounds :: "nat \<Rightarrow> (string \<Rightarrow> string option) \<Rightarrow> string \<Rightarrow> string" where
  "decode_rounds 0 f s = s"
| "decode_rounds (Suc n) f s =
     (case f s of
        None \<Rightarrow> s
      | Some decoded \<Rightarrow> if decoded = s then s else decode_rounds n f decoded)"

definition decodeTwice :: "string \<Rightarrow> (string \<Rightarrow> string option) \<Rightarrow> string" where
  "decodeTwice s f = decode_rounds 2 f s"

section \<open>Inspection\<close>

definition or_else :: "guard_verdict \<Rightarrow> guard_verdict \<Rightarrow> guard_verdict" where
  "or_else v w = (if gv_Matched v then v else w)"

definition check_if :: "bool \<Rightarrow> guard_verdict \<Rightarrow> guard_verdict" where
  "check_if b v = (if b then v else no_match)"

definition inspected_path :: "request \<Rightarrow> string" where
  "inspected_path r = to_lower (decodeTwice (scan_clamp (EscapedPath (q_Path r) (q_RawPath r))) PathUnescape)"

definition inspected_query :: "request \<Rightarrow> string" where
  "inspected_query r = to_lower (decodeTwice (scan_clamp (q_RawQuery r)) QueryUnescape)"

definition Inspect :: "guardian \<Rightarrow> request \<Rightarrow> guard_verdict" where
  "Inspect g r =
     (if \<not> Guardian_Enabled g then no_match
      else
        let targetLen = int (length (EscapedPath (q_Path r) (q_RawPath r)));
            targetLen = (if q_RawQuery r \<noteq> [] then targetLen + (1 + int (length (q_RawQuery r))) else targetLen)
        in if g_MaxURILength g > 0 \<and> targetLen > g_MaxURILength g
           then \<lparr>gv_Matched = True, gv_Rule = RulePathTraversal,
                 gv_Detail = ''request target is longer than the configured limit''\<rparr>
           else
             let path = inspected_path r; query = inspected_query r;
                 decoded = (if query \<noteq> [] then path @ ''?'' @ query else path)
             in or_else (check_if (Guardian_Has g RuleControlCharacters) (checkControlCharacters decoded))
               (or_else (check_if (Guardian_Has g RulePathTraversal) (checkPatterns path traversalPatterns RulePathTraversal))
               (or_else (check_if (Guardian_Has g RuleSensitiveFiles) (checkSensitiveFiles path))
               (or_else (check_if (Guardian_Has g RuleScannerAgents) (checkScannerAgent (Header_Get (q_Header r) ''User-Agent'')))
               (or_else (check_if (Guardian_Has g RuleSQLInjection) (checkPatterns decoded sqlPatterns RuleSQLInjection))
                        (check_if (Guardian_Has g RuleShellInjection) (checkPatterns decoded shellPatterns RuleShellInjection)))))))"


section \<open>Decoding cannot hide a pattern\<close>

lemma escapes_ok_append:
  assumes "escapes_ok (a @ m @ b)" "CHR ''%'' \<notin> set m" "m \<noteq> []" "hex_val (hd m) = None"
  shows "escapes_ok a \<and> decode_bytes False (a @ m @ b) = decode_bytes False a @ m @ decode_bytes False b"
proof -
  have plain: "decode_bytes False (m @ b) = m @ decode_bytes False b"
    using assms(2) by (induction m) auto
  show ?thesis
    using assms(1)
  proof (induction "False" a rule: decode_bytes.induct)
    case (2 c s)
    show ?case
    proof (cases "c = CHR ''%''")
      case True
      obtain x xs where m: "m = x # xs" "hex_val x = None" using assms(3,4) by (cases m) auto
      obtain u v s' where s: "s = u # v # s'"
        using 2(3) True m by (cases s; cases "tl s") (auto split: list.splits)
      with 2(1) [OF True this] 2(3) True show ?thesis by simp
    qed (use 2(2,3) in simp)
  qed (simp add: plain)
qed

lemma to_lower_append: "to_lower (a @ b) = to_lower a @ to_lower b"
  by (simp add: to_lower_def)

lemma hex_val_lower: "hex_val (lower_char c) = None \<Longrightarrow> hex_val c = None"
proof -
  have "is_digit c \<Longrightarrow> lower_char c = c" by (simp add: lower_char_def is_digit_def is_upper_def)
  then show "hex_val (lower_char c) = None \<Longrightarrow> hex_val c = None"
    by (auto simp: hex_val_def split: if_splits)
qed

definition survives :: "string \<Rightarrow> bool" where
  "survives f \<longleftrightarrow> f \<noteq> [] \<and> CHR ''%'' \<notin> set f \<and> hex_val (hd f) = None"

lemma contains_decoded:
  assumes "contains (to_lower q) f" "survives f" "PathUnescape q = Some q'"
  shows "contains (to_lower q') f"
proof -
  obtain a m b where q: "q = a @ m @ b" and m: "to_lower m = f"
    using assms(1) unfolding contains_iff to_lower_def by (metis map_eq_append_conv)
  have ne: "m \<noteq> []" using assms(2) m by (auto simp: survives_def)
  with assms(2) m have hx: "hex_val (hd m) = None"
    by (cases m) (auto simp: survives_def to_lower_def intro: hex_val_lower)
  have "lower_char (CHR ''%'') = CHR ''%''" by (simp add: lower_char_def is_upper_def byte_def)
  then have pc: "CHR ''%'' \<notin> set m" using assms(2) m by (force simp: survives_def to_lower_def)
  have ok: "escapes_ok q" "q' = decode_bytes False q"
    using assms(3) by (auto simp: PathUnescape_def unescape_def split: if_splits)
  have "to_lower q' = to_lower (decode_bytes False a) @ f @ to_lower (decode_bytes False b)"
    using escapes_ok_append [OF ok(1) [unfolded q] pc ne hx] ok(2) m q by (simp add: to_lower_append)
  then show ?thesis by (auto simp: contains_iff)
qed

lemma contains_decode_rounds:
  "contains (to_lower q) f \<Longrightarrow> survives f \<Longrightarrow> contains (to_lower (decode_rounds n PathUnescape q)) f"
proof (induction n arbitrary: q)
  case (Suc n)
  then show ?case using contains_decoded [OF Suc.prems] by (auto split: option.splits)
qed simp

text \<open>The texts a path stands for: itself, and what one and two rounds of decoding make of it.\<close>

inductive stands_for :: "string \<Rightarrow> string \<Rightarrow> bool" for p where
  plain: "stands_for p p"
| once: "PathUnescape p = Some q \<Longrightarrow> stands_for p q"
| twice: "PathUnescape p = Some q \<Longrightarrow> PathUnescape q = Some q' \<Longrightarrow> stands_for p q'"

lemma stands_for_decodeTwice:
  assumes "stands_for p q" "contains (to_lower q) f" "survives f"
  shows "contains (to_lower (decodeTwice p PathUnescape)) f"
  using assms
proof (cases rule: stands_for.cases)
  case plain
  with assms(2,3) show ?thesis unfolding decodeTwice_def by (simp only: contains_decode_rounds)
next
  case once
  then have "decodeTwice p PathUnescape = (if q = p then p else decode_rounds 1 PathUnescape q)"
    by (simp add: decodeTwice_def numeral_2_eq_2)
  with assms(2,3) contains_decode_rounds [of q f 1] show ?thesis by presburger
next
  case (twice q0)
  then have "decodeTwice p PathUnescape = q"
    by (auto simp: decodeTwice_def numeral_2_eq_2 split: option.splits)
  with assms(2) show ?thesis by simp
qed

lemma checkPatterns_iff: "gv_Matched (checkPatterns h ps rule) \<longleftrightarrow> (\<exists>p \<in> set ps. contains h p)"
  by (induction ps) (auto simp: no_match_def)

lemma sensitive_loop_iff: "gv_Matched (sensitive_loop h fs) \<longleftrightarrow> (\<exists>f \<in> set fs. contains h f)"
  by (induction fs) (auto simp: no_match_def)

lemma or_else_Matched [simp]: "gv_Matched (or_else v w) \<longleftrightarrow> gv_Matched v \<or> gv_Matched w"
  by (simp add: or_else_def)

lemma check_if_Matched [simp]: "gv_Matched (check_if b v) \<longleftrightarrow> b \<and> gv_Matched v"
  by (simp add: check_if_def no_match_def)

lemma path_patterns_survive: "f \<in> set (traversalPatterns @ sensitiveFiles) \<Longrightarrow> survives f"
proof -
  have "list_all survives (traversalPatterns @ sensitiveFiles)" by code_simp
  then show "f \<in> set (traversalPatterns @ sensitiveFiles) \<Longrightarrow> survives f" by (simp add: list_all_iff)
qed

definition path_rule :: "guardian_rule \<Rightarrow> string list" where
  "path_rule rule =
     (if rule = RulePathTraversal then traversalPatterns else if rule = RuleSensitiveFiles then sensitiveFiles else [])"

text \<open>C16. Encoding does not get a traversal or a probe for a sensitive file past the inspection: if a
  rule on paths is switched on and one of its patterns occurs, in any mixture of cases, in the path
  of a request (up to the scanned length) as sent, decoded once or decoded twice, the request is
  reported as a match.\<close>

theorem Inspect_catches_encoded:
  assumes "Guardian_Enabled g" "Guardian_Has g rule" "f \<in> set (path_rule rule)"
    and "length (EscapedPath (q_Path r) (q_RawPath r)) \<le> maxScan"
    and "stands_for (EscapedPath (q_Path r) (q_RawPath r)) q" "contains (to_lower q) f"
  shows "gv_Matched (Inspect g r)"
proof -
  have s: "survives f" using assms(3) path_patterns_survive by (auto simp: path_rule_def split: if_splits)
  have "contains (inspected_path r) f"
    using stands_for_decodeTwice [OF assms(5,6) s] assms(4) by (simp add: inspected_path_def scan_clamp_def)
  then have "Guardian_Has g RulePathTraversal \<and> gv_Matched (checkPatterns (inspected_path r) traversalPatterns RulePathTraversal) \<or>
      Guardian_Has g RuleSensitiveFiles \<and> gv_Matched (checkSensitiveFiles (inspected_path r))"
    using assms(2,3) by (auto simp: checkPatterns_iff checkSensitiveFiles_def sensitive_loop_iff path_rule_def split: if_splits)
  then show ?thesis using assms(1) unfolding Inspect_def Let_def by auto
qed

definition ex_probe :: request where
  "ex_probe =
     \<lparr>q_Method = ''GET'', q_Host = ''example.com'', q_Path = ''/a/%2E%2E%2fb'', q_RawPath = ''/a/%252E%252E%252fb'', q_RawQuery = [],
      q_Proto = ''HTTP/1.1'', q_Header = [], q_TLS = False, q_RemoteAddr = ''192.0.2.1:4711'', q_ContentLength = 0,
      q_Body = NoBody\<rparr>"

theorem Inspect_catches_encoded_witness:
  "gv_Matched (Inspect (DefaultGuardian\<lparr>g_Mode := ModeBlock\<rparr>) ex_probe)"
proof (rule Inspect_catches_encoded)
  have e: "EscapedPath (q_Path ex_probe) (q_RawPath ex_probe) = ''/a/%252E%252E%252fb''" by code_simp
  show "Guardian_Enabled (DefaultGuardian\<lparr>g_Mode := ModeBlock\<rparr>)" by (simp add: Guardian_Enabled_def)
  show "Guardian_Has (DefaultGuardian\<lparr>g_Mode := ModeBlock\<rparr>) RulePathTraversal" by code_simp
  show "''../'' \<in> set (path_rule RulePathTraversal)" by code_simp
  show "length (EscapedPath (q_Path ex_probe) (q_RawPath ex_probe)) \<le> maxScan" unfolding e maxScan_def by simp
  show "stands_for (EscapedPath (q_Path ex_probe) (q_RawPath ex_probe)) ''/a/../b''"
    unfolding e by (rule stands_for.twice [of _ "''/a/%2E%2E%2fb''"]) code_simp+
  show "contains (to_lower ''/a/../b'') ''../''" by code_simp
qed

end
