(* ===== verification/Proxy_Handler.thy ===== *)
theory Proxy_Handler
  imports Proxy_Forward Guardian Limiter
begin

text \<open>
  The request path of the engine: \<^verbatim>\<open>ServeHTTP\<close> of \<^verbatim>\<open>internal/proxy/handler.go\<close> and the stages it calls, from
  \<^verbatim>\<open>handler.go\<close>, \<^verbatim>\<open>limits.go\<close>, \<^verbatim>\<open>access.go\<close>, \<^verbatim>\<open>guardian.go\<close>, \<^verbatim>\<open>page.go\<close> and \<^verbatim>\<open>accesslog.go\<close>. A stage takes the
  engine and the connection and returns them with its verdict. Process logging is not modelled; what
  the collector and the searchable log are told is kept in lists.

  Clock readings between the arrival of a request and its forwarding are one value, \<open>wd_now\<close>. The
  functions of \<open>world\<close> stand for bcrypt, SHA-256, the two hash functions, date and URL parsing, the
  compressor, the answer to an ACME challenge (\<^const>\<open>None\<close> when it is not one, or when there is no resolver)
  and the backends.
\<close>

section \<open>The engine\<close>

record mresult =
  mr_HostID :: int
  mr_Status :: int
  mr_BytesIn :: int
  mr_BytesOut :: int
  mr_Duration :: duration
  mr_Failed :: bool

definition UnmatchedHostID :: int where "UnmatchedHostID = 0"

record options =
  op_TrustedClientIPHeader :: string
  op_MaxRetries :: nat
  op_Collector :: bool
  op_AccessLog :: bool

record engine =
  en_opts :: options
  en_store :: store
  en_table :: routing_table
  en_auth :: authCache
  en_caches :: cache_store
  en_limiter :: limiter
  en_httpsPort :: string
  en_results :: "mresult list"
  en_limited :: "(int \<times> bool) list"
  en_active :: "int \<Rightarrow> int"
  en_access :: "access_log_entry list"
  en_sent :: "(bid \<times> outbound) list"
  en_ejections :: "(string \<times> bid) list"

record 'g world =
  wd_bcrypt :: "string \<Rightarrow> string \<Rightarrow> bool"
  wd_sha256 :: "string \<Rightarrow> string"
  wd_hash :: "string \<Rightarrow> 64 word"
  wd_mh :: "Limiter.key \<Rightarrow> 64 word"
  wd_ParseTime :: "string \<Rightarrow> time option"
  wd_parse :: "string \<Rightarrow> url option"
  wd_gz :: "'g gzip"
  wd_acme :: "request \<Rightarrow> conn \<Rightarrow> conn option"
  wd_upstream :: "nat \<Rightarrow> bid \<Rightarrow> outbound \<Rightarrow> upstream_reply"
  wd_now :: time
  wd_end :: time
  wd_clock :: "nat \<Rightarrow> time"
  wd_latency :: "nat \<Rightarrow> duration"

section \<open>Recording\<close>

definition requestBytes :: "request \<Rightarrow> int" where
  "requestBytes r =
     (let url = URL_String [] [] (q_Path r) (q_RawPath r) (q_RawQuery r);
          n = int (length (q_Method r) + length url + length (q_Proto r) + 4);
          n = n + header_size (q_Header r)
      in if q_ContentLength r > 0 then n + q_ContentLength r else n)"

definition record_result :: "'g world \<Rightarrow> request \<Rightarrow> host option \<Rightarrow> int \<Rightarrow> int \<Rightarrow> bool \<Rightarrow> engine \<Rightarrow> engine" where
  "record_result wd r hst status bytesOut failed e =
     (if \<not> op_Collector (en_opts e) then e
      else e\<lparr>en_results := en_results e @
        [\<lparr>mr_HostID = (case hst of Some h \<Rightarrow> h_ID h | None \<Rightarrow> UnmatchedHostID), mr_Status = status,
          mr_BytesIn = requestBytes r, mr_BytesOut = bytesOut, mr_Duration = wd_end wd - wd_now wd, mr_Failed = failed\<rparr>]\<rparr>)"

definition recordAccess ::
  "'g world \<Rightarrow> request \<Rightarrow> host \<Rightarrow> string option \<Rightarrow> int \<Rightarrow> int \<Rightarrow> string option \<Rightarrow> engine \<Rightarrow> engine" where
  "recordAccess wd r hst backend status bytesOut cause e =
     (if \<not> op_AccessLog (en_opts e) \<or> \<not> ls_Enabled (h_AccessLog hst) then e
      else
        let path = (if ls_IncludeQuery (h_AccessLog hst) \<and> q_RawQuery r \<noteq> [] then q_Path r @ ''?'' @ q_RawQuery r else q_Path r)
        in e\<lparr>en_access := en_access e @
          [\<lparr>le_ID = 0, le_Timestamp = wd_now wd, le_HostID = h_ID hst, le_Method = q_Method r, le_Path = path, le_Status = status,
            le_DurationMS = go_quot (wd_end wd - wd_now wd) 1000000, le_BytesOut = bytesOut,
            le_ClientIP = clientIP (op_TrustedClientIPHeader (en_opts e)) r,
            le_Upstream = (case backend of Some k \<Rightarrow> k | None \<Rightarrow> []),
            le_UserAgent = Header_Get (q_Header r) ''User-Agent'',
            le_Error = (case cause of Some c \<Rightarrow> c | None \<Rightarrow> [])\<rparr>]\<rparr>)"

definition finish :: "'g world \<Rightarrow> request \<Rightarrow> host \<Rightarrow> int \<Rightarrow> string \<Rightarrow> engine \<times> conn \<Rightarrow> engine \<times> conn" where
  "finish wd r hst status msg ew =
     (case ew of (e, w) \<Rightarrow>
        (recordAccess wd r hst None status (int (length msg)) None
           (record_result wd r (Some hst) status (int (length msg)) False e),
         writeProblem conn_ops status msg w))"

definition rejectUnmatched :: "'g world \<Rightarrow> request \<Rightarrow> engine \<times> conn \<Rightarrow> engine \<times> conn" where
  "rejectUnmatched wd r ew =
     (case ew of (e, w) \<Rightarrow>
        let body = ''No host is configured for this domain.''
        in (record_result wd r None 404 (int (length body)) False e, writeProblem conn_ops 404 body w))"

section \<open>Redirects and maintenance\<close>

definition redirectHost :: "string \<Rightarrow> string \<Rightarrow> string" where
  "redirectHost hostHeader httpsPort =
     (let name = normalizeHostHeader hostHeader
      in if httpsPort = [] \<or> httpsPort = ''443'' then name else JoinHostPort name httpsPort)"

text \<open>\<^const>\<open>None\<close> when the request is not redirected.\<close>

definition redirectToHTTPS :: "string \<Rightarrow> request \<Rightarrow> host \<Rightarrow> conn \<Rightarrow> conn option" where
  "redirectToHTTPS httpsPort r hst w =
     (if q_TLS r \<or> \<not> h_ForceHTTPS hst then None
      else Some (http_Redirect conn_ops r
        (URL_String ''https'' (redirectHost (q_Host r) httpsPort) (q_Path r) (q_RawPath r) (q_RawQuery r)) 308 w))"

definition serveMaintenance :: "'g world \<Rightarrow> request \<Rightarrow> host \<Rightarrow> engine \<times> conn \<Rightarrow> (engine \<times> conn) option" where
  "serveMaintenance wd r hst ew =
     (case ew of (e, w) \<Rightarrow>
        let m = h_Maintenance hst
        in if \<not> mt_Enabled m then None
           else if Maintenance_Allows m (clientAddr (op_TrustedClientIPHeader (en_opts e)) r) then None
           else
             let status = (if mt_StatusCode m = 0 then 503 else mt_StatusCode m);
                 (w, n) = writePage conn_ops status (mt_Title m) (mt_Message m) (mt_RetryAfterSeconds m) w
             in Some (recordAccess wd r hst None status (int n) None (record_result wd r (Some hst) status (int n) False e), w))"

section \<open>Traffic limits\<close>

definition checkBody :: "request \<Rightarrow> int \<Rightarrow> verdict" where
  "checkBody r mx =
     (if mx \<le> 0 \<or> q_ContentLength r \<le> mx then no_verdict
      else \<lparr>v_Limited = True, v_Reason = ReasonBodySize, v_RetryAfter = 0\<rparr>)"

definition applyLimit :: "'g world \<Rightarrow> request \<Rightarrow> host \<Rightarrow> verdict \<Rightarrow> mode \<Rightarrow> engine \<times> conn \<Rightarrow> bool \<times> engine \<times> conn" where
  "applyLimit wd r hst v md ew =
     (case ew of (e, w) \<Rightarrow>
        let blocked = (md = ModeBlock);
            e = (if op_Collector (en_opts e) then e\<lparr>en_limited := en_limited e @ [(h_ID hst, blocked)]\<rparr> else e)
        in if \<not> blocked then (True, e, w)
           else
             let w = (if v_RetryAfter v > 0 then
                        let secs = go_quot (v_RetryAfter v) second; secs = (if secs < 1 then 1 else secs)
                        in edit_header conn_ops (Header_Set ''Retry-After'' (itoa secs)) w
                      else w)
             in if v_Reason v = ReasonBodySize
                then (False, finish wd r hst 413 ''The request body is larger than this server accepts.''
                        (e, edit_header conn_ops (Header_Del ''Retry-After'') w))
                else (False, finish wd r hst 429 ''Too many requests. Please slow down and try again.'' (e, w)))"

text \<open>A \<^verbatim>\<open>net.IP\<close> as \<^verbatim>\<open>net.ParseIP\<close> returns it has sixteen bytes.\<close>

fun ip_bytes :: "addr \<Rightarrow> 8 word list" where
  "ip_bytes (Addr4 a) = replicate 10 0 @ [0xFF, 0xFF] @ map of_nat (bytes_of_word 4 a)"
| "ip_bytes (Addr6 a z) = map of_nat (bytes_of_word 16 a)"

text \<open>The result also has the request, whose body may have been wrapped, and what the release gives
  back: the key of the slot, if one was taken.\<close>

definition enforceLimits ::
  "'g world \<Rightarrow> request \<Rightarrow> host \<Rightarrow> engine \<times> conn \<Rightarrow> bool \<times> Limiter.key option \<times> request \<times> engine \<times> conn" where
  "enforceLimits wd r hst ew =
     (case ew of (e, w) \<Rightarrow>
        let limits = h_TrafficLimits hst
        in if \<not> TrafficLimits_Enabled limits then (True, None, r, e, w)
           else
             let ip = clientAddr (op_TrustedClientIPHeader (en_opts e)) r
             in if IsExempt limits ip then (True, None, r, e, w)
                else if v_Limited (checkBody r (tl_MaxBodyBytes limits)) then
                  (case applyLimit wd r hst (checkBody r (tl_MaxBodyBytes limits)) (tl_Mode limits) (e, w) of
                     (ok, e, w) \<Rightarrow> (ok, None, r, e, w))
                else
                  let (l, verdict, slot) =
                        Limiter_Acquire (wd_mh wd) (wd_now wd) (h_ID hst) (map_option ip_bytes ip)
                          \<lparr>r_RequestsPerSecond = tl_RequestsPerSecond limits, r_Burst = tl_Burst limits,
                           r_MaxConcurrent = tl_MaxConcurrent limits\<rparr> (en_limiter e);
                      e = e\<lparr>en_limiter := l\<rparr>
                  in if \<not> v_Limited verdict then
                       (True, slot,
                        if tl_MaxBodyBytes limits > 0 \<and> q_Body r \<noteq> NilBody
                        then r\<lparr>q_Body := MaxBytesReader (q_Body r) (tl_MaxBodyBytes limits)\<rparr> else r,
                        e, w)
                     else
                       (case applyLimit wd r hst verdict (tl_Mode limits) (e, w) of (ok, e, w) \<Rightarrow> (ok, slot, r, e, w)))"

section \<open>Access control and inspection\<close>

definition enforceAccess :: "'g world \<Rightarrow> request \<Rightarrow> route \<Rightarrow> engine \<times> conn \<Rightarrow> bool \<times> engine \<times> conn" where
  "enforceAccess wd r rt ew =
     (case ew of (e, w) \<Rightarrow>
        (case rt_access rt of
           None \<Rightarrow> (True, e, w)
         | Some l \<Rightarrow>
             let client = clientIP (op_TrustedClientIPHeader (en_opts e)) r;
                 (c, decision) = access_decide (wd_bcrypt wd) (wd_sha256 wd) l client (BasicAuth r) (wd_now wd) (wd_now wd) (en_auth e);
                 e = e\<lparr>en_auth := c\<rparr>
             in if decision = AccessGranted then (True, e, w)
                else if decision = AccessNeedsCredentials then
                  (False, finish wd r (rt_host rt) 401 ''Authentication is required for this host.''
                     (e, edit_header conn_ops (Header_Set ''Www-Authenticate''
                        (quoted ''Basic realm=~Restricted~, charset=~UTF-8~'')) w))
                else (False, finish wd r (rt_host rt) 403 ''Access to this host is not allowed from your address.'' (e, w))))"

definition inspectRequest :: "'g world \<Rightarrow> request \<Rightarrow> host \<Rightarrow> engine \<times> conn \<Rightarrow> bool \<times> engine \<times> conn" where
  "inspectRequest wd r hst ew =
     (if \<not> Guardian_Enabled (h_Guardian hst) then (True, ew)
      else if \<not> gv_Matched (Inspect (h_Guardian hst) r) then (True, ew)
      else if g_Mode (h_Guardian hst) \<noteq> ModeBlock then (True, ew)
      else (False, finish wd r hst 403 ''This request was refused.'' ew))"

section \<open>Forwarding\<close>

fun find_index :: "('a \<Rightarrow> bool) \<Rightarrow> 'a list \<Rightarrow> nat option" where
  "find_index P [] = None"
| "find_index P (x # xs) = (if P x then Some 0 else map_option Suc (find_index P xs))"

definition route_set_pool :: "string \<Rightarrow> pool \<Rightarrow> route \<Rightarrow> route" where
  "route_set_pool path p rt =
     (case find_index (\<lambda>l. Location_Matches (rl_config l) path) (rt_locations rt) of
        Some j \<Rightarrow> rt\<lparr>rt_locations := (rt_locations rt)[j := (rt_locations rt ! j)\<lparr>rl_pool := p\<rparr>]\<rparr>
      | None \<Rightarrow> rt\<lparr>rt_pool := p\<rparr>)"

fun pick_error_text :: "pick_error \<Rightarrow> string" where
  "pick_error_text ErrNoBackends = ''no enabled upstreams configured''"
| "pick_error_text ErrNoHealthyBackend = ''no healthy upstream available''"

datatype serve_end = Completed | Panicked

definition serveUnavailable :: "'g world \<Rightarrow> 'w writer_ops \<Rightarrow> request \<Rightarrow> host \<Rightarrow> pick_error \<Rightarrow> engine \<times> 'w recorder \<Rightarrow> engine \<times> 'w recorder" where
  "serveUnavailable wd ops r hst cause er =
     (case er of (e, rec) \<Rightarrow>
        let msg = (if cause = ErrNoBackends then ''This host has no upstream configured.''
                   else ''No upstream is available to serve this request.'');
            (title, body) = errorPage (h_ErrorPages hst) 503 msg;
            (rec, _) = writePage (recorder_ops ops) 503 title body 0 rec
        in (recordAccess wd r hst None 503 (rc_written rec) (Some (pick_error_text cause))
              (record_result wd r (Some hst) 503 (rc_written rec) True e), rec))"

definition serveBadGateway ::
  "'g world \<Rightarrow> 'w writer_ops \<Rightarrow> request \<Rightarrow> host \<Rightarrow> string \<Rightarrow> string \<Rightarrow> engine \<times> 'w recorder \<Rightarrow> engine \<times> 'w recorder" where
  "serveBadGateway wd ops r hst backend cause er =
     (case er of (e, rec) \<Rightarrow>
        if dirty rec then
          (recordAccess wd r hst (Some backend) (rc_status rec) (rc_written rec) (Some cause)
             (record_result wd r (Some hst) (rc_status rec) (rc_written rec) True e), rec)
        else
          let (title, body) = errorPage (h_ErrorPages hst) 502 ''The upstream server could not be reached.'';
              (rec, _) = writePage (recorder_ops ops) 502 title body 0 rec
          in (recordAccess wd r hst (Some backend) 502 (rc_written rec) (Some cause)
                (record_result wd r (Some hst) 502 (rc_written rec) True e), rec))"

definition count_active :: "host \<Rightarrow> int \<Rightarrow> engine \<Rightarrow> engine" where
  "count_active hst d e =
     (if op_Collector (en_opts e) then e\<lparr>en_active := (en_active e)(h_ID hst := en_active e (h_ID hst) + d)\<rparr> else e)"

definition forward :: "'g world \<Rightarrow> 'w writer_ops \<Rightarrow> request \<Rightarrow> nat \<Rightarrow> engine \<Rightarrow> 'w \<Rightarrow> engine \<times> 'w \<times> serve_end" where
  "forward wd ops r i e w =
     (let rt = t_routes (en_table e) ! i; hst = rt_host rt;
          e = count_active hst 1 e;
          client = clientIP (op_TrustedClientIPHeader (en_opts e)) r;
          (pool, loc) = route_poolFor rt (q_Path r);
          rec = edit_header (recorder_ops ops) (set_hsts r hst) (new_recorder w);
          env = \<lparr>fe_ops = ops, fe_hash = wd_hash wd, fe_upstream = wd_upstream wd, fe_clock = wd_clock wd,
                 fe_latency = wd_latency wd, fe_MaxRetries = op_MaxRetries (en_opts e)\<rparr>;
          (f, res) = forward_loop env r hst (map_option rl_config loc) client 0 [] None
            \<lparr>f_heap = fst (en_store e), f_pool = pool, f_rec = rec, f_sent = [], f_ejections = []\<rparr>;
          t = en_table e;
          e = e\<lparr>en_store := (f_heap f, snd (en_store e)),
                en_table := t\<lparr>t_routes := (t_routes t)[i := route_set_pool (q_Path r) (f_pool f) rt]\<rparr>,
                en_sent := en_sent e @ f_sent f,
                en_ejections := en_ejections e @ map (\<lambda>b. (h_Name hst, b)) (f_ejections f)\<rparr>;
          name = (\<lambda>b. b_key (f_heap f b));
          (e, rec, ended) =
            (case res of
               Served b \<Rightarrow>
                 (recordAccess wd r hst (Some (name b)) (rc_status (f_rec f)) (rc_written (f_rec f)) None
                    (record_result wd r (Some hst) (rc_status (f_rec f)) (rc_written (f_rec f)) False e), f_rec f, Completed)
             | Unavailable err n \<Rightarrow> (case serveUnavailable wd ops r hst err (e, f_rec f) of (e, rec) \<Rightarrow> (e, rec, Completed))
             | BadGateway b err \<Rightarrow> (case serveBadGateway wd ops r hst (name b) err (e, f_rec f) of (e, rec) \<Rightarrow> (e, rec, Completed))
             | AbortedOn b \<Rightarrow> (e, f_rec f, Panicked)
             | Crashed \<Rightarrow> (e, f_rec f, Panicked))
      in (count_active hst (- 1) e, rc_inner rec, ended))"

text \<open>Forwarding through the compressing writer, if the request gets one; closing it is deferred.\<close>

definition forward_compressed :: "'g world \<Rightarrow> 'w writer_ops \<Rightarrow> request \<Rightarrow> nat \<Rightarrow> engine \<Rightarrow> 'w \<Rightarrow> engine \<times> 'w \<times> serve_end" where
  "forward_compressed wd ops r i e w =
     (case newCompressWriter w r (h_Compression (rt_host (t_routes (en_table e) ! i))) of
        None \<Rightarrow> forward wd ops r i e w
      | Some z \<Rightarrow>
          (case forward wd (compress_ops ops (wd_gz wd)) r i e z of
             (e, z, ended) \<Rightarrow> (e, zw_inner (zw_Close ops (wd_gz wd) z), ended)))"

definition commit_puts :: "int \<Rightarrow> int \<Rightarrow> (Cache_Store.key \<times> entry) list \<Rightarrow> engine \<Rightarrow> engine" where
  "commit_puts hostID budget puts e =
     (if puts = [] then e
      else e\<lparr>en_caches := fst (with_host hostID budget (\<lambda>hc. (apply_puts puts hc, ())) (en_caches e))\<rparr>)"

section \<open>The handler\<close>

text \<open>What follows once the limits let the request through; the slot is released by the caller.\<close>

definition serve_admitted :: "'g world \<Rightarrow> request \<Rightarrow> nat \<Rightarrow> engine \<times> conn \<Rightarrow> engine \<times> conn \<times> serve_end" where
  "serve_admitted wd r i ew =
     (let rt = t_routes (en_table (fst ew)) ! i; hst = rt_host rt
      in case enforceAccess wd r rt ew of
        (False, e, w) \<Rightarrow> (e, w, Completed)
      | (True, e, w) \<Rightarrow>
        (case inspectRequest wd r hst (e, w) of
           (False, e, w) \<Rightarrow> (e, w, Completed)
         | (True, e, w) \<Rightarrow>
             if isWebSocketUpgrade r \<and> \<not> h_WebSocketSupport hst then
               (case finish wd r hst 403 ''WebSocket upgrades are not enabled for this host'' (e, w) of (e, w) \<Rightarrow> (e, w, Completed))
             else
               (case interceptCache (wd_ParseTime wd) (wd_now wd) conn_ops r hst (en_caches e) w of
                  (s, Answered w status n) \<Rightarrow>
                    (recordAccess wd r hst None status (int n) None
                       (record_result wd r (Some hst) status (int n) False (e\<lparr>en_caches := s\<rparr>)), w, Completed)
                | (s, Untouched w) \<Rightarrow> forward_compressed wd conn_ops r i (e\<lparr>en_caches := s\<rparr>) w
                | (s, Capturing c) \<Rightarrow>
                    (case forward_compressed wd (capture_ops (wd_ParseTime wd) conn_ops (wd_now wd)) r i (e\<lparr>en_caches := s\<rparr>) c of
                       (e, c, ended) \<Rightarrow>
                         (commit_puts (h_ID hst) (cf_MaxBytes (h_Cache hst)) (cw_puts c) e, cw_inner c, ended)))))"

definition release_slot :: "'g world \<Rightarrow> Limiter.key option \<Rightarrow> engine \<Rightarrow> engine" where
  "release_slot wd slot e = (case slot of Some k \<Rightarrow> e\<lparr>en_limiter := release (wd_mh wd) k (en_limiter e)\<rparr> | None \<Rightarrow> e)"

definition serve_route :: "'g world \<Rightarrow> request \<Rightarrow> nat \<Rightarrow> engine \<times> conn \<Rightarrow> engine \<times> conn \<times> serve_end" where
  "serve_route wd r i ew =
     (let hst = rt_host (t_routes (en_table (fst ew)) ! i)
      in case redirectToHTTPS (en_httpsPort (fst ew)) r hst (snd ew) of
           Some w \<Rightarrow> (fst ew, w, Completed)
         | None \<Rightarrow>
             (case serveMaintenance wd r hst ew of
                Some (e, w) \<Rightarrow> (e, w, Completed)
              | None \<Rightarrow>
                  (case enforceLimits wd r hst ew of
                     (allowed, slot, r, e, w) \<Rightarrow>
                       (case (if allowed then serve_admitted wd r i (e, w) else (e, w, Completed)) of
                          (e, w, ended) \<Rightarrow> (release_slot wd slot e, w, ended)))))"

definition request_url :: "request \<Rightarrow> url" where
  "request_url r = \<lparr>url_Scheme = [], url_Host = [], url_EscapedPath = EscapedPath (q_Path r) (q_RawPath r),
     url_RawQuery = q_RawQuery r, url_Fragment = []\<rparr>"

definition ServeHTTP :: "'g world \<Rightarrow> request \<Rightarrow> engine \<times> conn \<Rightarrow> engine \<times> conn \<times> serve_end" where
  "ServeHTTP wd r ew =
     (case ew of (e, w) \<Rightarrow>
        (case (if q_TLS r then None else wd_acme wd r w) of
           Some w \<Rightarrow> (e, w, Completed)
         | None \<Rightarrow>
             (case table_lookupRedirect (en_table e) (q_Host r) of
                Some rd \<Rightarrow>
                  (record_result wd r None (rd_StatusCode rd) 0 False e,
                   http_Redirect conn_ops r (Redirect_Location (wd_parse wd) rd (request_url r)) (rd_StatusCode rd) w, Completed)
              | None \<Rightarrow>
                  (case table_lookup (en_table e) (q_Host r) of
                     None \<Rightarrow> (case rejectUnmatched wd r (e, w) of (e, w) \<Rightarrow> (e, w, Completed))
                   | Some i \<Rightarrow> serve_route wd r i (e, w)))))"

section \<open>What a stage leaves alone\<close>

definition quiet :: "engine \<Rightarrow> engine \<Rightarrow> bool" where
  "quiet e e' \<longleftrightarrow> en_sent e' = en_sent e \<and> en_caches e' = en_caches e \<and> en_table e' = en_table e \<and> en_opts e' = en_opts e \<and>
     en_auth e' = en_auth e"

lemma quiet_refl [simp, intro]: "quiet e e"
  by (simp add: quiet_def)

lemma quiet_trans: "quiet a b \<Longrightarrow> quiet b c \<Longrightarrow> quiet a c"
  by (simp add: quiet_def)

named_theorems stage "what the stages of the handler leave alone"

lemma record_result_quiet [stage]: "quiet e (record_result wd r h st n failed e)"
  by (simp add: quiet_def record_result_def)

lemma recordAccess_quiet [stage]: "quiet e (recordAccess wd r h b st n c e)"
  by (simp add: quiet_def recordAccess_def Let_def)

lemma recorded_quiet [stage]: "quiet e (recordAccess wd r h b st n c (record_result wd r h' st' n' failed e))"
  using quiet_trans [OF record_result_quiet recordAccess_quiet] .

lemma finish_quiet [stage]: "quiet e (fst (finish wd r h st msg (e, w)))"
  by (simp add: finish_def recorded_quiet)

lemma applyLimit_quiet: "applyLimit wd r h v md (e, w) = (ok, e', w') \<Longrightarrow> quiet e e' \<and> (ok \<longleftrightarrow> md \<noteq> ModeBlock)"
proof -
  have fin: "finish wd r h st msg (d, u) = (e', w') \<Longrightarrow> quiet d e'" for st msg d u
    using finish_quiet [of d wd r h st msg u] by simp
  have "quiet (e\<lparr>en_limited := x\<rparr>) e' \<Longrightarrow> quiet e e'" for x by (simp add: quiet_def)
  with fin have "finish wd r h st msg (e\<lparr>en_limited := x\<rparr>, u) = (e', w') \<Longrightarrow> quiet e e'" for st msg x u by blast
  moreover have "quiet e (e\<lparr>en_limited := x\<rparr>)" for x by (simp add: quiet_def)
  ultimately show "applyLimit wd r h v md (e, w) = (ok, e', w') \<Longrightarrow> ?thesis"
    using fin by (auto simp: applyLimit_def Let_def split: if_splits)
qed

text \<open>The limits as the limiter judges the request.\<close>

definition limit_verdict :: "'g world \<Rightarrow> request \<Rightarrow> host \<Rightarrow> engine \<Rightarrow> verdict" where
  "limit_verdict wd r hst e =
     (let limits = h_TrafficLimits hst; b = checkBody r (tl_MaxBodyBytes limits)
      in if v_Limited b then b
         else fst (snd (Limiter_Acquire (wd_mh wd) (wd_now wd) (h_ID hst)
                (map_option ip_bytes (clientAddr (op_TrustedClientIPHeader (en_opts e)) r))
                \<lparr>r_RequestsPerSecond = tl_RequestsPerSecond limits, r_Burst = tl_Burst limits,
                 r_MaxConcurrent = tl_MaxConcurrent limits\<rparr> (en_limiter e))))"

definition limits_pass :: "'g world \<Rightarrow> request \<Rightarrow> host \<Rightarrow> engine \<Rightarrow> bool" where
  "limits_pass wd r hst e \<longleftrightarrow>
     (tl_Mode (h_TrafficLimits hst) = ModeBlock \<and>
      \<not> IsExempt (h_TrafficLimits hst) (clientAddr (op_TrustedClientIPHeader (en_opts e)) r) \<longrightarrow> \<not> v_Limited (limit_verdict wd r hst e))"

lemma enforceLimits_spec:
  assumes "enforceLimits wd r hst (e, w) = (ok, slot, r', e', w')"
  shows "quiet e e' \<and> (ok \<longleftrightarrow> limits_pass wd r hst e) \<and> (r' = r \<or> r' = r\<lparr>q_Body := MaxBytesReader (q_Body r) (tl_MaxBodyBytes (h_TrafficLimits hst))\<rparr>)"
proof -
  have en: "TrafficLimits_Enabled (h_TrafficLimits hst)" if "tl_Mode (h_TrafficLimits hst) = ModeBlock"
    using that by (simp add: TrafficLimits_Enabled_def Mode_Enabled_def)
  have qs: "quiet e (e\<lparr>en_limiter := l\<rparr>)" for l by (simp add: quiet_def)
  show ?thesis
  proof (cases "\<not> TrafficLimits_Enabled (h_TrafficLimits hst) \<or> IsExempt (h_TrafficLimits hst) (clientAddr (op_TrustedClientIPHeader (en_opts e)) r)")
    case True
    with assms en show ?thesis by (auto simp: enforceLimits_def Let_def limits_pass_def split: if_splits)
  next
    case False
    show ?thesis
    proof (cases "v_Limited (checkBody r (tl_MaxBodyBytes (h_TrafficLimits hst)))")
      case True
      obtain ok1 e1 w1 where al: "applyLimit wd r hst (checkBody r (tl_MaxBodyBytes (h_TrafficLimits hst))) (tl_Mode (h_TrafficLimits hst)) (e, w)
          = (ok1, e1, w1)" by (metis prod_cases3)
      have "limit_verdict wd r hst e = checkBody r (tl_MaxBodyBytes (h_TrafficLimits hst))" using True by (simp add: limit_verdict_def Let_def)
      moreover have "ok = ok1 \<and> e' = e1 \<and> r' = r" using assms False True al by (simp add: enforceLimits_def Let_def)
      ultimately show ?thesis using applyLimit_quiet [OF al] True False by (auto simp: limits_pass_def)
    next
      case nb: False
      obtain l v sl where aq: "Limiter_Acquire (wd_mh wd) (wd_now wd) (h_ID hst)
          (map_option ip_bytes (clientAddr (op_TrustedClientIPHeader (en_opts e)) r))
          \<lparr>r_RequestsPerSecond = tl_RequestsPerSecond (h_TrafficLimits hst), r_Burst = tl_Burst (h_TrafficLimits hst),
           r_MaxConcurrent = tl_MaxConcurrent (h_TrafficLimits hst)\<rparr> (en_limiter e) = (l, v, sl)" by (metis prod_cases3)
      have lv: "limit_verdict wd r hst e = v" using nb aq by (simp add: limit_verdict_def Let_def)
      show ?thesis
      proof (cases "v_Limited v")
        case True
        obtain ok1 e1 w1 where al: "applyLimit wd r hst v (tl_Mode (h_TrafficLimits hst)) (e\<lparr>en_limiter := l\<rparr>, w) = (ok1, e1, w1)"
          by (metis prod_cases3)
        have "ok = ok1 \<and> e' = e1 \<and> r' = r" using assms False nb aq True al by (simp add: enforceLimits_def Let_def)
        with applyLimit_quiet [OF al] quiet_trans [OF qs] lv True False show ?thesis by (auto simp: limits_pass_def)
      next
        case False
        then show ?thesis using assms nb aq lv qs \<open>\<not> (\<not> TrafficLimits_Enabled _ \<or> _)\<close>
          by (auto simp: enforceLimits_def Let_def limits_pass_def split: if_splits)
      qed
    qed
  qed
qed

section \<open>The order of the stages\<close>

definition untouched :: "engine \<Rightarrow> engine \<Rightarrow> bool" where
  "untouched e e' \<longleftrightarrow> en_sent e' = en_sent e \<and> en_caches e' = en_caches e"

lemma untouched_trans: "untouched a b \<Longrightarrow> untouched b c \<Longrightarrow> untouched a c"
  by (simp add: untouched_def)

lemma quiet_untouched: "quiet e e' \<Longrightarrow> untouched e e'"
  by (simp add: quiet_def untouched_def)

lemma finish_untouched: "finish wd r h st msg (e, w) = (e', w') \<Longrightarrow> untouched e e'"
  using finish_quiet [of e wd r h st msg w] by (simp add: quiet_untouched)

text \<open>What access control, inspection and the upgrade check require.\<close>

definition access_pass :: "'g world \<Rightarrow> request \<Rightarrow> route \<Rightarrow> engine \<Rightarrow> bool" where
  "access_pass wd r rt e \<longleftrightarrow>
     (\<forall>l. rt_access rt = Some l \<longrightarrow>
        snd (access_decide (wd_bcrypt wd) (wd_sha256 wd) l (clientIP (op_TrustedClientIPHeader (en_opts e)) r) (BasicAuth r)
          (wd_now wd) (wd_now wd) (en_auth e)) = AccessGranted)"

definition inspection_pass :: "request \<Rightarrow> host \<Rightarrow> bool" where
  "inspection_pass r hst \<longleftrightarrow>
     (g_Mode (h_Guardian hst) = ModeBlock \<longrightarrow> \<not> gv_Matched (Inspect (h_Guardian hst) r)) \<and>
     (isWebSocketUpgrade r \<longrightarrow> h_WebSocketSupport hst)"

lemma enforceAccess_spec:
  assumes "enforceAccess wd r rt (e, w) = (ok, e', w')"
  shows "untouched e e' \<and> (ok \<longleftrightarrow> access_pass wd r rt e)"
proof (cases "rt_access rt")
  case None
  with assms show ?thesis by (auto simp: enforceAccess_def access_pass_def untouched_def)
next
  case (Some l)
  obtain c d where ad: "access_decide (wd_bcrypt wd) (wd_sha256 wd) l (clientIP (op_TrustedClientIPHeader (en_opts e)) r) (BasicAuth r)
      (wd_now wd) (wd_now wd) (en_auth e) = (c, d)" by fastforce
  have u: "untouched e e'" if "finish wd r h st msg (e\<lparr>en_auth := c\<rparr>, u) = (e', w')" for h st msg u
    using finish_untouched [OF that] by (simp add: untouched_def)
  have "untouched e e' \<and> (ok \<longleftrightarrow> d = AccessGranted)"
  proof (cases d)
    case AccessGranted
    with assms Some ad show ?thesis by (auto simp: enforceAccess_def untouched_def)
  qed (use assms Some ad u in \<open>auto simp: enforceAccess_def Let_def\<close>)
  with Some ad show ?thesis by (auto simp: access_pass_def)
qed

lemma inspectRequest_spec:
  assumes "inspectRequest wd r hst (e, w) = (ok, e', w')"
  shows "untouched e e' \<and> (ok \<longleftrightarrow> (g_Mode (h_Guardian hst) = ModeBlock \<longrightarrow> \<not> gv_Matched (Inspect (h_Guardian hst) r)))"
proof -
  have "untouched e e" by (simp add: untouched_def)
  with assms finish_untouched [of wd r hst 403 "''This request was refused.''" e w e' w'] show ?thesis
    by (auto simp: inspectRequest_def Guardian_Enabled_def split: if_splits)
qed

lemma serve_admitted_gate:
  assumes "serve_admitted wd r i (e, w) = (e', w', ended)" "\<not> untouched e e'"
  shows "access_pass wd r (t_routes (en_table e) ! i) e \<and> inspection_pass r (rt_host (t_routes (en_table e) ! i))"
proof -
  let ?rt = "t_routes (en_table e) ! i"
  obtain ok1 e1 w1 where a: "enforceAccess wd r ?rt (e, w) = (ok1, e1, w1)" by (metis prod_cases3)
  note as = enforceAccess_spec [OF a]
  obtain ok2 e2 w2 where b: "inspectRequest wd r (rt_host ?rt) (e1, w1) = (ok2, e2, w2)" by (metis prod_cases3)
  note bs = inspectRequest_spec [OF b]
  have ok1: ok1
  proof (rule ccontr)
    assume "\<not> ok1"
    with assms(1) a have "e' = e1" by (simp add: serve_admitted_def Let_def)
    with as assms(2) show False by simp
  qed
  have u2: "untouched e e2" using as bs untouched_trans by blast
  have ok2: ok2
  proof (rule ccontr)
    assume "\<not> ok2"
    with assms(1) a ok1 b have "e' = e2" by (simp add: serve_admitted_def Let_def)
    with u2 assms(2) show False by simp
  qed
  have "isWebSocketUpgrade r \<longrightarrow> h_WebSocketSupport (rt_host ?rt)"
  proof (rule ccontr)
    assume ws: "\<not> (isWebSocketUpgrade r \<longrightarrow> h_WebSocketSupport (rt_host ?rt))"
    obtain e3 w3 where f: "finish wd r (rt_host ?rt) 403 ''WebSocket upgrades are not enabled for this host'' (e2, w2) = (e3, w3)" by fastforce
    with assms(1) a ok1 b ok2 ws have "e' = e3" by (simp add: serve_admitted_def Let_def)
    with finish_untouched [OF f] u2 assms(2) untouched_trans show False by blast
  qed
  with ok1 ok2 as bs show ?thesis by (auto simp: inspection_pass_def)
qed

text \<open>The conditions under which a request may get past the proxy's own answers.\<close>

definition admitted :: "'g world \<Rightarrow> request \<Rightarrow> engine \<Rightarrow> nat \<Rightarrow> bool" where
  "admitted wd r e i \<longleftrightarrow>
     (let rt = t_routes (en_table e) ! i; hst = rt_host rt
      in table_lookupRedirect (en_table e) (q_Host r) = None \<and> table_lookup (en_table e) (q_Host r) = Some i \<and>
         (h_ForceHTTPS hst \<longrightarrow> q_TLS r) \<and>
         (mt_Enabled (h_Maintenance hst) \<longrightarrow>
            Maintenance_Allows (h_Maintenance hst) (clientAddr (op_TrustedClientIPHeader (en_opts e)) r)) \<and>
         limits_pass wd r hst e \<and> access_pass wd r rt e \<and> inspection_pass r hst)"

lemma body_irrelevant:
  "access_pass wd (r\<lparr>q_Body := b\<rparr>) rt e = access_pass wd r rt e" "inspection_pass (r\<lparr>q_Body := b\<rparr>) hst = inspection_pass r hst"
proof -
  have "clientIP h (r\<lparr>q_Body := b\<rparr>) = clientIP h r" for h by (simp add: clientIP_def Let_def)
  moreover have "BasicAuth (r\<lparr>q_Body := b\<rparr>) = BasicAuth r" by (simp add: BasicAuth_def Let_def)
  moreover have "Inspect g (r\<lparr>q_Body := b\<rparr>) = Inspect g r" for g
    by (simp add: Inspect_def inspected_path_def inspected_query_def Let_def)
  moreover have "isWebSocketUpgrade (r\<lparr>q_Body := b\<rparr>) = isWebSocketUpgrade r" by (simp add: isWebSocketUpgrade_def)
  ultimately show "access_pass wd (r\<lparr>q_Body := b\<rparr>) rt e = access_pass wd r rt e"
    "inspection_pass (r\<lparr>q_Body := b\<rparr>) hst = inspection_pass r hst"
    by (simp_all add: access_pass_def inspection_pass_def)
qed

lemma serve_route_gate:
  assumes "serve_route wd r i (e, w) = (e', w', ended)" "\<not> untouched e e'"
  defines "hst \<equiv> rt_host (t_routes (en_table e) ! i)"
  shows "(h_ForceHTTPS hst \<longrightarrow> q_TLS r) \<and>
    (mt_Enabled (h_Maintenance hst) \<longrightarrow> Maintenance_Allows (h_Maintenance hst) (clientAddr (op_TrustedClientIPHeader (en_opts e)) r)) \<and>
    limits_pass wd r hst e \<and> access_pass wd r (t_routes (en_table e) ! i) e \<and> inspection_pass r hst"
proof -
  have ur: "untouched e e" by (simp add: untouched_def)
  have tls: "redirectToHTTPS (en_httpsPort e) r hst w = None"
    using assms(1,2) ur unfolding hst_def by (auto simp: serve_route_def Let_def split: option.splits)
  have mt: "serveMaintenance wd r hst (e, w) = None"
  proof (rule ccontr)
    assume "serveMaintenance wd r hst (e, w) \<noteq> None"
    then obtain e1 w1 where m: "serveMaintenance wd r hst (e, w) = Some (e1, w1)" by auto
    then have "untouched e e1"
      using recorded_quiet quiet_untouched by (fastforce simp: serveMaintenance_def Let_def split: if_splits prod.splits)
    moreover have "e' = e1" using assms(1) tls m unfolding hst_def by (simp add: serve_route_def Let_def)
    ultimately show False using assms(2) by simp
  qed
  obtain ok slot r1 e1 w1 where l: "enforceLimits wd r hst (e, w) = (ok, slot, r1, e1, w1)" by (metis prod_cases5)
  note ls = enforceLimits_spec [OF l]
  have rel: "untouched x (release_slot wd slot y) = untouched x y" for x y
    by (auto simp: untouched_def release_slot_def split: option.splits)
  have q: "untouched e e1" using ls quiet_untouched by blast
  have ok: ok
  proof (rule ccontr)
    assume "\<not> ok"
    with assms(1) tls mt l have "e' = release_slot wd slot e1" unfolding hst_def by (simp add: serve_route_def Let_def)
    with rel q assms(2) show False by simp
  qed
  obtain e2 w2 en where s: "serve_admitted wd r1 i (e1, w1) = (e2, w2, en)" by (metis prod_cases3)
  have "e' = release_slot wd slot e2" using assms(1) tls mt l ok s unfolding hst_def by (simp add: serve_route_def Let_def)
  with rel assms(2) q untouched_trans have "\<not> untouched e1 e2" by blast
  from serve_admitted_gate [OF s this] ls have "access_pass wd r1 (t_routes (en_table e) ! i) e \<and> inspection_pass r1 hst"
    unfolding hst_def by (auto simp: quiet_def access_pass_def)
  with ls have "access_pass wd r (t_routes (en_table e) ! i) e \<and> inspection_pass r hst" using body_irrelevant by metis
  with tls mt ls ok show ?thesis by (auto simp: redirectToHTTPS_def serveMaintenance_def Let_def split: if_splits prod.splits)
qed

text \<open>C1. Nothing gets past the proxy without passing every check: if handling a request sends anything to an
  upstream, or so much as looks into a host's cache, then its name belongs to a host and to no
  redirect, it came over TLS if the host insists on it, its client may enter during maintenance, the
  enforced traffic limits do not refuse it, the access list grants it, an enforcing inspection finds
  nothing, and an upgrade to WebSocket is allowed.\<close>

theorem ServeHTTP_admits:
  assumes "ServeHTTP wd r (e, w) = (e', w', ended)" "en_sent e' \<noteq> en_sent e \<or> en_caches e' \<noteq> en_caches e"
  shows "\<exists>i. admitted wd r e i"
proof -
  have nu: "\<not> untouched e e'" using assms(2) by (auto simp: untouched_def)
  have ur: "untouched e e" "untouched e (record_result wd r h st n f e)" for h st n f
    using quiet_untouched [OF quiet_refl] quiet_untouched [OF record_result_quiet] by blast+
  have "(if q_TLS r then None else wd_acme wd r w) = None" "table_lookupRedirect (en_table e) (q_Host r) = None"
    using assms(1) nu ur by (auto simp: ServeHTTP_def split: option.splits if_splits)
  moreover from this obtain i where i: "table_lookup (en_table e) (q_Host r) = Some i"
    using assms(1) nu ur by (auto simp: ServeHTTP_def rejectUnmatched_def Let_def split: option.splits if_splits)
  ultimately have "serve_route wd r i (e, w) = (e', w', ended)" "table_lookupRedirect (en_table e) (q_Host r) = None"
    using assms(1) by (auto simp: ServeHTTP_def split: if_splits)
  with serve_route_gate [OF _ nu] i show ?thesis unfolding admitted_def Let_def by blast
qed

definition ex_world :: "unit world" where
  "ex_world =
     \<lparr>wd_bcrypt = ex_bcrypt, wd_sha256 = id, wd_hash = (\<lambda>_. 0), wd_mh = (\<lambda>_. 0), wd_ParseTime = (\<lambda>_. None), wd_parse = ex_parse,
      wd_gz = ex_gzip, wd_acme = (\<lambda>_ _. None), wd_upstream = (\<lambda>_ _ _. Responded [] 200 [] [BWrite ''body''] True),
      wd_now = 20, wd_end = 21, wd_clock = (\<lambda>_. 20), wd_latency = (\<lambda>_. 0)\<rparr>"

definition ex_table :: "host \<Rightarrow> routing_table" where
  "ex_table hst =
     \<lparr>t_exact = (\<lambda>n. if n = ''example.com'' then Some 0 else None), t_wildcard = Map.empty,
      t_routes = [\<lparr>rt_host = hst, rt_pool = ex_pool LeastConnections [0], rt_locations = [], rt_access = None\<rparr>],
      t_redirectExact = Map.empty, t_redirectWildcard = Map.empty\<rparr>"

definition ex_engine :: "host \<Rightarrow> engine" where
  "ex_engine hst =
     \<lparr>en_opts = \<lparr>op_TrustedClientIPHeader = [], op_MaxRetries = 2, op_Collector = False, op_AccessLog = False\<rparr>,
      en_store = (ex_heap [1], 1), en_table = ex_table hst, en_auth = newAuthCache, en_caches = [(1, ex_stored)],
      en_limiter = New, en_httpsPort = ''443'', en_results = [], en_limited = [], en_active = (\<lambda>_. 0), en_access = [], en_sent = [],
      en_ejections = []\<rparr>"

lemma ex_stages:
  "table_lookupRedirect (ex_table hst) ''example.com'' = None" "table_lookup (ex_table hst) ''example.com'' = Some 0"
  "normalizeHostHeader ''example.com'' = ''example.com''"
proof -
  show n: "normalizeHostHeader ''example.com'' = ''example.com''" by code_simp
  show "table_lookupRedirect (ex_table hst) ''example.com'' = None" "table_lookup (ex_table hst) ''example.com'' = Some 0"
    by (simp_all add: table_lookupRedirect_def table_lookup_def lookup_maps_def ex_table_def n split: option.splits)
qed

lemma ex_hit_counted:
  "\<not> isWebSocketUpgrade (ex_get ''/a.css'' [])" "map (\<lambda>(i, c). hc_hits c) [(1 :: int, ex_stored)] = [0]"
  "mt_Enabled (h_Maintenance ex_site) = False" "h_ForceHTTPS ex_site = False" "TrafficLimits_Enabled (h_TrafficLimits ex_site) = False"
  "Guardian_Enabled (h_Guardian ex_site) = False"
  by code_simp+

lemma ex_served:
  "case ServeHTTP ex_world (ex_get ''/a.css'' []) (ex_engine ex_site, new_conn None) of
     (e, w, ended) \<Rightarrow> map (\<lambda>(i, c). hc_hits c) (en_caches e) = [1] \<and> cl_body w = ''body''"
proof -
  let ?r = "ex_get ''/a.css'' []"
  obtain s' x where x: "interceptCache (\<lambda>_. None) 20 conn_ops ?r ex_site [(1, ex_stored)] (new_conn None) = (s', x)"
    by (rule prod.exhaust)
  with ex_hit obtain w status n where "x = Answered w status n" "map (\<lambda>(i, c). hc_hits c) s' = [1]" "cl_body w = ''body''"
    by (cases x) simp_all
  with x have i: "interceptCache (\<lambda>_. None) 20 conn_ops ?r ex_site [(1, ex_stored)] (new_conn None) = (s', Answered w status n)"
    "map (\<lambda>(i, c). hc_hits c) s' = [1]" "cl_body w = ''body''" by simp_all
  have "ServeHTTP ex_world ?r (ex_engine ex_site, new_conn None) = serve_route ex_world ?r 0 (ex_engine ex_site, new_conn None)"
    using ex_stages by (simp add: ServeHTTP_def ex_engine_def ex_world_def ex_get_def)
  also have "\<dots> = serve_admitted ex_world ?r 0 (ex_engine ex_site, new_conn None)"
    by (simp add: serve_route_def ex_engine_def ex_table_def redirectToHTTPS_def serveMaintenance_def enforceLimits_def
      ex_hit_counted release_slot_def Let_def split: prod.splits)
  also have "\<dots> = (ex_engine ex_site\<lparr>en_caches := s'\<rparr>, w, Completed)"
    using i by (simp add: serve_admitted_def ex_engine_def ex_table_def enforceAccess_def inspectRequest_def ex_hit_counted
      ex_world_def record_result_def recordAccess_def)
  finally show ?thesis using i by simp
qed

theorem ServeHTTP_admits_witness:
  "\<exists>i. admitted ex_world (ex_get ''/a.css'' []) (ex_engine ex_site) i"
proof -
  obtain e w en where s: "ServeHTTP ex_world (ex_get ''/a.css'' []) (ex_engine ex_site, new_conn None) = (e, w, en)"
    by (metis prod_cases3)
  with ex_served ex_hit_counted(2) have "en_caches e \<noteq> en_caches (ex_engine ex_site)" by (auto simp: ex_engine_def)
  with ServeHTTP_admits [OF s] show ?thesis by blast
qed

text \<open>Limiting the size of bodies switches retrying off: on a host whose limits are on and bound the size
  of a request body, a request the limits let through gets a wrapped body that the proxy never takes
  for replayable, even if it had no body at all.\<close>

theorem limits_disable_retry:
  assumes "enforceLimits wd r hst (e, w) = (ok, slot, r', e', w')"
    "TrafficLimits_Enabled (h_TrafficLimits hst)" "tl_MaxBodyBytes (h_TrafficLimits hst) > 0"
    "\<not> IsExempt (h_TrafficLimits hst) (clientAddr (op_TrustedClientIPHeader (en_opts e)) r)"
    "\<not> v_Limited (limit_verdict wd r hst e)" "q_Body r \<noteq> NilBody"
  shows "ok \<and> \<not> canReplay r'"
proof -
  obtain l v sl where aq: "Limiter_Acquire (wd_mh wd) (wd_now wd) (h_ID hst)
      (map_option ip_bytes (clientAddr (op_TrustedClientIPHeader (en_opts e)) r))
      \<lparr>r_RequestsPerSecond = tl_RequestsPerSecond (h_TrafficLimits hst), r_Burst = tl_Burst (h_TrafficLimits hst),
       r_MaxConcurrent = tl_MaxConcurrent (h_TrafficLimits hst)\<rparr> (en_limiter e) = (l, v, sl)" by (metis prod_cases3)
  with assms(5) have "\<not> v_Limited (checkBody r (tl_MaxBodyBytes (h_TrafficLimits hst)))" "\<not> v_Limited v"
    by (auto simp: limit_verdict_def Let_def split: if_splits)
  with assms aq show ?thesis by (auto simp: enforceLimits_def canReplay_def Let_def)
qed

end
