(* ===== verification/Domain_Alert.thy ===== *)
theory Domain_Alert
  imports Domain_Redirect
begin

text \<open>
  Alerts and the channels they go to: \<^verbatim>\<open>internal/domain/alert.go\<close> and \<^verbatim>\<open>FormatBytes\<close> of \<^verbatim>\<open>usage_alert.go\<close>.
  URL parsing is a parameter. Byte counts are formatted from rational numbers, where the code divides
  \<^verbatim>\<open>float64\<close> values.
\<close>

section \<open>Events\<close>

type_synonym alert_event = string

definition AlertUpstreamDown :: alert_event where "AlertUpstreamDown = ''upstream_down''"
definition AlertUpstreamRecovered :: alert_event where "AlertUpstreamRecovered = ''upstream_recovered''"
definition AlertUpstreamEjected :: alert_event where "AlertUpstreamEjected = ''upstream_ejected''"
definition AlertHostUnavailable :: alert_event where "AlertHostUnavailable = ''host_unavailable''"
definition AlertCertificateExpiring :: alert_event where "AlertCertificateExpiring = ''certificate_expiring''"
definition AlertCertificateFailed :: alert_event where "AlertCertificateFailed = ''certificate_failed''"
definition AlertUsageExceeded :: alert_event where "AlertUsageExceeded = ''usage_exceeded''"

lemmas alert_events = AlertUpstreamDown_def AlertUpstreamRecovered_def AlertUpstreamEjected_def AlertHostUnavailable_def
  AlertCertificateExpiring_def AlertCertificateFailed_def AlertUsageExceeded_def

definition AlertEvents :: "alert_event list" where
  "AlertEvents = [AlertUpstreamDown, AlertUpstreamRecovered, AlertUpstreamEjected, AlertHostUnavailable,
     AlertCertificateExpiring, AlertCertificateFailed, AlertUsageExceeded]"

definition AlertEvent_Valid :: "alert_event \<Rightarrow> bool" where
  "AlertEvent_Valid e = list_ex (\<lambda>known. e = known) AlertEvents"

definition AlertEvent_Severity :: "alert_event \<Rightarrow> string" where
  "AlertEvent_Severity e =
     (if e = AlertUpstreamRecovered then ''info''
      else if e = AlertCertificateExpiring \<or> e = AlertUsageExceeded then ''warning''
      else ''critical'')"

section \<open>Channels\<close>

definition AlertWebhook :: string where "AlertWebhook = ''webhook''"

definition AlertChannelType_Valid :: "string \<Rightarrow> bool" where
  "AlertChannelType_Valid t \<longleftrightarrow> t = AlertWebhook"

record alert_channel =
  ac_ID :: int
  ac_Name :: string
  ac_Type :: string
  ac_Enabled :: bool
  ac_URL :: string
  ac_Events :: "alert_event list"
  ac_MinInterval :: duration
  ac_LastAttempt :: "time option"
  ac_LastError :: string

definition Wants :: "alert_channel \<Rightarrow> alert_event \<Rightarrow> bool" where
  "Wants c e = (if \<not> ac_Enabled c then False else list_ex (\<lambda>subscribed. subscribed = e) (ac_Events c))"

definition norm_event :: "alert_event \<Rightarrow> alert_event" where
  "norm_event e = to_lower (trim_space e)"

definition AlertChannel_Normalize :: "alert_channel \<Rightarrow> alert_channel" where
  "AlertChannel_Normalize c =
     c\<lparr>ac_Name := trim_space (ac_Name c), ac_URL := trim_space (ac_URL c),
       ac_Type := (if ac_Type c = [] then AlertWebhook else ac_Type c),
       ac_MinInterval := (if ac_MinInterval c \<le> 0 then 5 * minute else ac_MinInterval c),
       ac_Events := canonical_list norm_event [] (ac_Events c)\<rparr>"

definition validateWebhookURL :: "(string \<Rightarrow> url option) \<Rightarrow> string \<Rightarrow> string option" where
  "validateWebhookURL parse raw =
     (if raw = [] then Some ''is required''
      else case parse raw of
        None \<Rightarrow> Some ''is not a valid URL''
      | Some u \<Rightarrow>
          if url_Scheme u \<noteq> ''http'' \<and> url_Scheme u \<noteq> ''https'' then Some ''must start with http:// or https://''
          else if url_Host u = [] then Some ''is missing a host'' else None)"

definition AlertChannel_Validate :: "(string \<Rightarrow> url option) \<Rightarrow> alert_channel \<Rightarrow> validation_error option" where
  "AlertChannel_Validate parse c =
     (let v = v_if (ac_Name c = []) ''name'' ''is required'' [] [];
          v = v_if (\<not> AlertChannelType_Valid (ac_Type c)) ''type'' ''%q is not a supported channel type'' [FStr (ac_Type c)] v;
          v = (case validateWebhookURL parse (ac_URL c) of Some e \<Rightarrow> v_Add ''url'' ''%s'' [FStr e] v | None \<Rightarrow> v);
          v = v_if (ac_Events c = []) ''events'' ''choose at least one event, or the channel can never fire'' [] v;
          v = foldl (\<lambda>v e. v_if (\<not> AlertEvent_Valid e) ''events'' ''%q is not a known event'' [FStr e] v) v (ac_Events c);
          v = v_if (ac_MinInterval c < minute \<or> ac_MinInterval c > 24 * hour) ''minInterval''
                ''must be between 1 minute and 24 hours'' [] v
      in v_Err v)"

text \<open>The dash and the ellipsis are the three bytes of their encodings.\<close>

definition em_dash :: string where "em_dash = [CHR 0xE2, CHR 0x80, CHR 0x94]"
definition ellipsis :: string where "ellipsis = [CHR 0xE2, CHR 0x80, CHR 0xA6]"

definition MaskedURL :: "(string \<Rightarrow> url option) \<Rightarrow> alert_channel \<Rightarrow> string" where
  "MaskedURL parse c =
     (case parse (ac_URL c) of
        None \<Rightarrow> em_dash
      | Some u \<Rightarrow> if url_Host u = [] then em_dash else url_Scheme u @ ''://'' @ url_Host u @ ''/'' @ ellipsis)"

section \<open>Alerts\<close>

record alert =
  al_Event :: alert_event
  al_Severity :: string
  al_Timestamp :: time
  al_Subject :: string
  al_Title :: string
  al_Detail :: string
  al_Host :: string
  al_Upstream :: string

definition NewAlert :: "time \<Rightarrow> alert_event \<Rightarrow> string \<Rightarrow> string \<Rightarrow> string \<Rightarrow> alert" where
  "NewAlert now event subject title detail =
     \<lparr>al_Event = event, al_Severity = AlertEvent_Severity event, al_Timestamp = now, al_Subject = subject,
      al_Title = title, al_Detail = detail, al_Host = [], al_Upstream = []\<rparr>"

section \<open>Byte counts\<close>

definition round_half_even :: "rat \<Rightarrow> int" where
  "round_half_even q =
     (let f = \<lfloor>q\<rfloor>; d = q - of_int f
      in if d < 1/2 \<or> d = 1/2 \<and> even f then f else f + 1)"

fun scale_units :: "rat \<Rightarrow> string list \<Rightarrow> rat \<times> string" where
  "scale_units v [] = (v, [])"
| "scale_units v [u] = (v, u)"
| "scale_units v (u # w # us) = (if v \<ge> 1000 then scale_units (v / 1000) (w # us) else (v, u))"

definition FormatBytes :: "int \<Rightarrow> string" where
  "FormatBytes n =
     (case scale_units (of_int n) [''B'', ''kB'', ''MB'', ''GB'', ''TB'', ''PB''] of
        (v, u) \<Rightarrow>
          if v < 10 \<and> u \<noteq> ''B''
          then let m = round_half_even (v * 10) in itoa (m div 10) @ ''.'' @ itoa (m mod 10) @ '' '' @ u
          else itoa (round_half_even v) @ '' '' @ u)"

section \<open>Accepted channels\<close>

text \<open>What a channel accepted by the validator can do: it has an endpoint and its interval lies between a
  minute and a day.\<close>

lemma AlertChannel_Validate_accepts:
  "AlertChannel_Validate parse c = None \<longleftrightarrow>
     ac_Name c \<noteq> [] \<and> ac_Type c = AlertWebhook \<and> validateWebhookURL parse (ac_URL c) = None \<and> ac_Events c \<noteq> [] \<and>
     (\<forall>e \<in> set (ac_Events c). AlertEvent_Valid e) \<and> minute \<le> ac_MinInterval c \<and> ac_MinInterval c \<le> 24 * hour"
proof -
  have "foldl (\<lambda>v e. v_if (\<not> AlertEvent_Valid e) f m (a e) v) v es = [] \<longleftrightarrow> (\<forall>e \<in> set es. AlertEvent_Valid e) \<and> v = []"
    for f m a v es by (rule foldl_checks_Nil) simp
  then show ?thesis
    by (auto simp: AlertChannel_Validate_def AlertChannelType_Valid_def Let_def split: option.splits)
qed

text \<open>A channel hears exactly the events it lists, while it is enabled.\<close>

lemma Wants_iff: "Wants c e \<longleftrightarrow> ac_Enabled c \<and> e \<in> set (ac_Events c)"
  by (auto simp: Wants_def list_ex_iff)

end
