(* ===== verification/Alerts.thy ===== *)
theory Alerts
  imports Domain_Alert Domain_Host
begin

text \<open>
  The alert dispatcher: \<^verbatim>\<open>events.go\<close> and \<^verbatim>\<open>dispatcher.go\<close> of
  \<^verbatim>\<open>internal/alerts\<close>.

  The loop \<^verbatim>\<open>Run\<close> is one goroutine that handles one event at a time, so it is a step relation whose
  labels are the cases of its \<^verbatim>\<open>select\<close>; \<^verbatim>\<open>Raise\<close> is one more label. What an endpoint answers is a
  parameter: the reply to attempt \<open>i\<close> for a channel is an error or a status code. The list of posts and
  the deliveries recorded in the repository are kept in the state. Encoding a payload cannot fail.
\<close>

section \<open>Wording\<close>

text \<open>\<^verbatim>\<open>Duration.Round(time.Second)\<close> and \<^verbatim>\<open>Duration.String\<close> of its result.\<close>

definition round_second :: "duration \<Rightarrow> int" where
  "round_second d = sgn d * ((2 * \<bar>d\<bar> + second) div (2 * second))"

definition seconds_string :: "int \<Rightarrow> string" where
  "seconds_string n =
     (let s = \<bar>n\<bar>; t = itoa (s mod 60) @ ''s'';
          t = (if s \<ge> 60 then itoa (s div 60 mod 60) @ ''m'' @ t else t);
          t = (if s \<ge> 3600 then itoa (s div 3600) @ ''h'' @ t else t)
      in if n < 0 then ''-'' @ t else t)"

definition UpstreamDown :: "time \<Rightarrow> string \<Rightarrow> string \<Rightarrow> string \<Rightarrow> alert" where
  "UpstreamDown now hst upstream reason =
     (NewAlert now AlertUpstreamDown (hst @ ''/'' @ upstream) (hst @ '': upstream '' @ upstream @ '' is down'') reason)
       \<lparr>al_Host := hst, al_Upstream := upstream\<rparr>"

definition UpstreamRecovered :: "time \<Rightarrow> string \<Rightarrow> string \<Rightarrow> alert" where
  "UpstreamRecovered now hst upstream =
     (NewAlert now AlertUpstreamRecovered (hst @ ''/'' @ upstream) (hst @ '': upstream '' @ upstream @ '' is back'')
        ''It answered a health check again and is taking traffic.'')
       \<lparr>al_Host := hst, al_Upstream := upstream\<rparr>"

definition UpstreamEjected :: "time \<Rightarrow> string \<Rightarrow> string \<Rightarrow> duration \<Rightarrow> string \<Rightarrow> alert" where
  "UpstreamEjected now hst upstream ejectedFor reason =
     (NewAlert now AlertUpstreamEjected (hst @ ''/'' @ upstream)
        (hst @ '': upstream '' @ upstream @ '' ejected for '' @ seconds_string (round_second ejectedFor))
        (''Real requests could not connect to it: '' @ reason))
       \<lparr>al_Host := hst, al_Upstream := upstream\<rparr>"

definition HostUnavailable :: "time \<Rightarrow> string \<Rightarrow> nat \<Rightarrow> alert" where
  "HostUnavailable now hst n =
     (NewAlert now AlertHostUnavailable hst (hst @ '' has no healthy upstream'')
        (''All '' @ itoa (int n) @ '' upstreams are out. Visitors are getting errors now.''))\<lparr>al_Host := hst\<rparr>"

text \<open>The verb \<^verbatim>\<open>%q\<close> is a parameter: it quotes a name by the Unicode tables.\<close>

definition CertificateExpiring :: "(string \<Rightarrow> string) \<Rightarrow> time \<Rightarrow> string \<Rightarrow> int \<Rightarrow> alert" where
  "CertificateExpiring quote now name days =
     NewAlert now AlertCertificateExpiring (''certificate/'' @ name)
       (''Certificate '' @ quote name @ '' expires in '' @ itoa days @ '' days'')
       ''Automatic renewal has not produced a new one yet.''"

definition CertificateFailed :: "(string \<Rightarrow> string) \<Rightarrow> time \<Rightarrow> string \<Rightarrow> string \<Rightarrow> alert" where
  "CertificateFailed quote now name reason =
     NewAlert now AlertCertificateFailed (''certificate/'' @ name) (''Certificate '' @ quote name @ '' failed to renew'') reason"

definition UsageExceeded :: "time \<Rightarrow> string \<Rightarrow> int \<Rightarrow> int \<Rightarrow> int \<Rightarrow> alert" where
  "UsageExceeded now hst used budget periodDays =
     (NewAlert now AlertUsageExceeded (''usage/'' @ hst)
        (hst @ '': '' @ FormatBytes used @ '' of traffic in '' @
         (if periodDays = 1 then ''24 hours'' else itoa periodDays @ '' days'') @ '', over its '' @ FormatBytes budget @ '' budget'')
        (''Counted at the proxy, in and out together. '' @
         ''Raise the budget on the host, or look at Traffic used to see what is '' @
         ''drawing it. This repeats at most once a day while it stays over.''))\<lparr>al_Host := hst\<rparr>"

definition alertText :: "alert \<Rightarrow> string" where
  "alertText a = (if al_Detail a \<noteq> [] then al_Title a @ '' '' @ em_dash @ '' '' @ al_Detail a else al_Title a)"

section \<open>The dispatcher\<close>

definition queueSize :: nat where "queueSize = 256"
definition attempts :: nat where "attempts = 2"

record throttle_key =
  tk_channelID :: int
  tk_event :: alert_event
  tk_subject :: string

record post =
  po_key :: throttle_key
  po_at :: time
  po_tries :: nat
  po_interval :: duration

record dispatcher =
  di_queue :: "alert list"
  di_dropped :: "64 word"
  di_sent :: "64 word"
  di_failed :: "64 word"
  di_channels :: "alert_channel list"
  di_throttle :: "(throttle_key \<times> time) list"
  di_posts :: "post list"
  di_recorded :: "(int \<times> string) list"

definition new_dispatcher :: dispatcher where
  "new_dispatcher = \<lparr>di_queue = [], di_dropped = 0, di_sent = 0, di_failed = 0, di_channels = [], di_throttle = [],
     di_posts = [], di_recorded = []\<rparr>"

definition Raise :: "alert \<Rightarrow> dispatcher \<Rightarrow> dispatcher" where
  "Raise a d = (if length (di_queue d) < queueSize then d\<lparr>di_queue := di_queue d @ [a]\<rparr> else d\<lparr>di_dropped := di_dropped d + 1\<rparr>)"

text \<open>The argument is what the repository lists, \<^const>\<open>None\<close> for an error.\<close>

definition Dispatcher_Reload :: "alert_channel list option \<Rightarrow> dispatcher \<Rightarrow> dispatcher" where
  "Dispatcher_Reload listed d = (case listed of None \<Rightarrow> d | Some cs \<Rightarrow> d\<lparr>di_channels := cs\<rparr>)"

definition key_of :: "alert_channel \<Rightarrow> alert \<Rightarrow> throttle_key" where
  "key_of c a = \<lparr>tk_channelID = ac_ID c, tk_event = al_Event a, tk_subject = al_Subject a\<rparr>"

definition throttled :: "alert_channel \<Rightarrow> alert \<Rightarrow> time \<Rightarrow> dispatcher \<Rightarrow> dispatcher \<times> bool" where
  "throttled c a now d =
     (case map_of (di_throttle d) (key_of c a) of
        Some prev \<Rightarrow>
          if now - prev < ac_MinInterval c then (d, True)
          else (d\<lparr>di_throttle := al_put (key_of c a) now (di_throttle d)\<rparr>, False)
      | None \<Rightarrow> (d\<lparr>di_throttle := al_put (key_of c a) now (di_throttle d)\<rparr>, False))"

definition sweepThrottle :: "time \<Rightarrow> dispatcher \<Rightarrow> dispatcher" where
  "sweepThrottle now d = d\<lparr>di_throttle := filter (\<lambda>p. \<not> snd p < now - 24 * hour) (di_throttle d)\<rparr>"

text \<open>One attempt: \<open>Inl\<close> an error of the client, \<open>Inr\<close> the status of the answer.\<close>

definition attempt_error :: "string + int \<Rightarrow> string option" where
  "attempt_error r =
     (case r of
        Inl err \<Rightarrow> Some err
      | Inr status \<Rightarrow> if status \<ge> 300 then Some (''endpoint answered '' @ itoa status) else None)"

datatype post_end = Delivered | Undelivered string | GivenUp

text \<open>The loop of \<^verbatim>\<open>post\<close>; \<open>cancelled\<close> tells whether the context ends before the retry.\<close>

fun post_loop :: "(nat \<Rightarrow> string + int) \<Rightarrow> bool \<Rightarrow> nat \<Rightarrow> nat \<Rightarrow> string \<Rightarrow> nat \<times> post_end" where
  "post_loop reply cancelled i 0 lastErr = (i, Undelivered lastErr)"
| "post_loop reply cancelled i (Suc n) lastErr =
     (if i > 0 \<and> cancelled then (i, GivenUp)
      else case attempt_error (reply i) of
        None \<Rightarrow> (Suc i, Delivered)
      | Some e \<Rightarrow> post_loop reply cancelled (Suc i) n e)"

definition record_delivery :: "alert_channel \<Rightarrow> string \<Rightarrow> dispatcher \<Rightarrow> dispatcher" where
  "record_delivery c message d = d\<lparr>di_recorded := di_recorded d @ [(ac_ID c, message)]\<rparr>"

definition post_alert :: "(nat \<Rightarrow> string + int) \<Rightarrow> bool \<Rightarrow> time \<Rightarrow> alert_channel \<Rightarrow> alert \<Rightarrow> dispatcher \<Rightarrow> dispatcher" where
  "post_alert reply cancelled now c a d =
     (case post_loop reply cancelled 0 attempts [] of
        (tries, result) \<Rightarrow>
          let d = d\<lparr>di_posts := di_posts d @ [\<lparr>po_key = key_of c a, po_at = now, po_tries = tries, po_interval = ac_MinInterval c\<rparr>]\<rparr>
          in case result of
               GivenUp \<Rightarrow> d
             | Undelivered e \<Rightarrow> (record_delivery c e d)\<lparr>di_failed := di_failed d + 1\<rparr>
             | Delivered \<Rightarrow> (record_delivery c [] d)\<lparr>di_sent := di_sent d + 1\<rparr>)"

fun deliver_to :: "(int \<Rightarrow> nat \<Rightarrow> string + int) \<Rightarrow> bool \<Rightarrow> time \<Rightarrow> alert \<Rightarrow> alert_channel list \<Rightarrow> dispatcher \<Rightarrow> dispatcher" where
  "deliver_to reply cancelled now a [] d = d"
| "deliver_to reply cancelled now a (c # cs) d =
     (if \<not> Wants c (al_Event a) then deliver_to reply cancelled now a cs d
      else case throttled c a now d of
        (d, True) \<Rightarrow> deliver_to reply cancelled now a cs d
      | (d, False) \<Rightarrow> deliver_to reply cancelled now a cs (post_alert (reply (ac_ID c)) cancelled now c a d))"

definition deliver :: "(int \<Rightarrow> nat \<Rightarrow> string + int) \<Rightarrow> bool \<Rightarrow> time \<Rightarrow> alert \<Rightarrow> dispatcher \<Rightarrow> dispatcher" where
  "deliver reply cancelled now a d = deliver_to reply cancelled now a (di_channels d) d"

text \<open>\<^verbatim>\<open>Test\<close> posts a sample to one channel, once and past the throttle.\<close>

definition test_alert :: "time \<Rightarrow> alert" where
  "test_alert now = NewAlert now AlertUpstreamRecovered ''test'' ''ponzproxy test alert''
     ''If you are reading this, the webhook works. No action is needed.''"

definition Dispatcher_Test :: "string + int \<Rightarrow> alert_channel \<Rightarrow> dispatcher \<Rightarrow> dispatcher \<times> string option" where
  "Dispatcher_Test reply c d =
     (let e = attempt_error reply in (record_delivery c (case e of Some m \<Rightarrow> m | None \<Rightarrow> []) d, e))"

section \<open>The loop\<close>

datatype dispatch_event =
    ERaise alert
  | EDeliver time "int \<Rightarrow> nat \<Rightarrow> string + int" bool
  | EReload "alert_channel list option"
  | ESweep time

inductive dispatch_step :: "dispatcher \<Rightarrow> dispatch_event \<Rightarrow> dispatcher \<Rightarrow> bool" where
  raise: "dispatch_step d (ERaise a) (Raise a d)"
| take: "di_queue d = a # q \<Longrightarrow> dispatch_step d (EDeliver now reply cancelled) (deliver reply cancelled now a (d\<lparr>di_queue := q\<rparr>))"
| reload: "dispatch_step d (EReload cs) (Dispatcher_Reload cs d)"
| sweep: "dispatch_step d (ESweep now) (sweepThrottle now d)"

inductive_cases dispatch_stepE: "dispatch_step d e d'"


section \<open>Spacing\<close>

text \<open>A step at a time the clock shows; the channels the repository lists were accepted by the validator.\<close>

definition clocked_step :: "time \<times> dispatcher \<Rightarrow> dispatch_event \<Rightarrow> time \<times> dispatcher \<Rightarrow> bool" where
  "clocked_step s e s' \<longleftrightarrow>
     dispatch_step (snd s) e (snd s') \<and> fst s \<le> fst s' \<and>
     (case e of
        EDeliver now _ _ \<Rightarrow> fst s' = now
      | ESweep now \<Rightarrow> fst s' = now
      | EReload (Some cs) \<Rightarrow> (\<forall>c \<in> set cs. ac_MinInterval c \<le> 24 * hour)
      | _ \<Rightarrow> True)"

definition spaced :: "post list \<Rightarrow> bool" where
  "spaced = sorted_wrt (\<lambda>p q. po_key p = po_key q \<longrightarrow> po_at p + po_interval q \<le> po_at q)"

text \<open>The throttle remembers, for every post of the last day, a time no earlier than it.\<close>

definition remembers :: "time \<Rightarrow> (throttle_key \<times> time) list \<Rightarrow> post \<Rightarrow> bool" where
  "remembers t m p \<longleftrightarrow>
     (case map_of m (po_key p) of Some u \<Rightarrow> po_at p \<le> u \<and> u \<le> t | None \<Rightarrow> po_at p + 24 * hour < t)"

definition throttle_ok :: "time \<times> dispatcher \<Rightarrow> bool" where
  "throttle_ok s \<longleftrightarrow>
     (case s of (t, d) \<Rightarrow>
        distinct (al_keys (di_throttle d)) \<and> (\<forall>c \<in> set (di_channels d). ac_MinInterval c \<le> 24 * hour) \<and>
        (\<forall>p \<in> set (di_posts d). remembers t (di_throttle d) p) \<and> spaced (di_posts d))"

lemma map_of_filter_value:
  "distinct (al_keys m) \<Longrightarrow>
   map_of (filter (\<lambda>p. P (snd p)) m) k = (case map_of m k of Some v \<Rightarrow> if P v then Some v else None | None \<Rightarrow> None)"
proof (induction m)
  case (Cons p m)
  have "map_of m k = None" if "fst p = k" using Cons.prems that by (auto simp: map_of_eq_None_iff)
  with Cons show ?case by (cases p) (auto split: option.splits)
qed simp

lemma remembers_swept:
  assumes "distinct (al_keys m)" "remembers now m p"
  shows "remembers now (filter (\<lambda>q. \<not> snd q < now - 24 * hour) m) p"
proof (cases "map_of m (po_key p)")
  case None
  with assms show ?thesis by (simp add: remembers_def map_of_filter_value [of m "\<lambda>u. \<not> u < now - 24 * hour", simplified])
next
  case (Some u)
  with assms show ?thesis by (simp add: remembers_def map_of_filter_value [of m "\<lambda>u. \<not> u < now - 24 * hour", simplified])
qed

lemma remembers_mono: "remembers t m p \<Longrightarrow> t \<le> t' \<Longrightarrow> remembers t' m p"
  by (auto simp: remembers_def split: option.splits)

lemma throttled_posts:
  assumes "throttled c a now d = (d', b)"
  shows "di_posts d' = di_posts d" "di_channels d' = di_channels d"
    "di_throttle d' = (if b then di_throttle d else al_put (key_of c a) now (di_throttle d))"
  using assms by (auto simp: throttled_def split: option.splits if_splits)

lemma post_alert_posts:
  "\<exists>n. di_posts (post_alert reply cancelled now c a d) =
     di_posts d @ [\<lparr>po_key = key_of c a, po_at = now, po_tries = n, po_interval = ac_MinInterval c\<rparr>]"
  "di_throttle (post_alert reply cancelled now c a d) = di_throttle d"
  "di_channels (post_alert reply cancelled now c a d) = di_channels d"
  by (auto simp: post_alert_def record_delivery_def Let_def split: prod.splits post_end.splits)

lemma post_spaced:
  assumes "throttle_ok (now, d)" "throttled c a now d = (d', False)" "ac_MinInterval c \<le> 24 * hour"
  shows "throttle_ok (now, post_alert reply cancelled now c a d')"
proof -
  let ?k = "key_of c a" and ?m = "al_put (key_of c a) now (di_throttle d)"
  obtain n where posts: "di_posts (post_alert reply cancelled now c a d') =
      di_posts d @ [\<lparr>po_key = ?k, po_at = now, po_tries = n, po_interval = ac_MinInterval c\<rparr>]"
    using post_alert_posts(1) throttled_posts [OF assms(2)] by metis
  have old: "remembers now (di_throttle d) p" if "p \<in> set (di_posts d)" for p
    using assms(1) that by (simp add: throttle_ok_def)
  have "po_at p + ac_MinInterval c \<le> now" if "p \<in> set (di_posts d)" "po_key p = ?k" for p
    using old [OF that(1)] assms(2,3) that(2)
    by (auto simp: remembers_def throttled_def split: option.splits if_splits)
  moreover have "remembers now ?m p" if "p \<in> set (di_posts d)" for p
    using old [OF that] by (auto simp: remembers_def split: option.splits)
  ultimately show ?thesis
    using assms(1) throttled_posts [OF assms(2)] posts
    by (auto simp: throttle_ok_def post_alert_posts spaced_def sorted_wrt_append remembers_def intro: go_inv)
qed

lemma deliver_to_spaced:
  assumes "\<forall>c \<in> set cs. ac_MinInterval c \<le> 24 * hour"
  shows "throttle_ok (now, d) \<Longrightarrow> throttle_ok (now, deliver_to reply cancelled now a cs d)"
  using assms
proof (induction cs arbitrary: d)
  case (Cons c cs)
  obtain d1 b where th: "throttled c a now d = (d1, b)" by fastforce
  have "throttle_ok (now, d1)" if b
    using Cons.prems(1) throttled_posts [OF th] that by (simp add: throttle_ok_def)
  moreover have "throttle_ok (now, post_alert (reply (ac_ID c)) cancelled now c a d1)" if "\<not> b"
    using post_spaced [of now d c a d1] Cons.prems th that by simp
  ultimately show ?case using Cons th by (cases b) auto
qed simp

lemma clocked_step_ok: "clocked_step s e s' \<Longrightarrow> throttle_ok s \<Longrightarrow> throttle_ok s'"
proof -
  assume st: "clocked_step s e s'" and ok: "throttle_ok s"
  obtain t d t' d' where s: "s = (t, d)" "s' = (t', d')" by fastforce
  have le: "t \<le> t'" and ds: "dispatch_step d e d'" using st s by (simp_all add: clocked_step_def)
  have mono: "throttle_ok (t', x)" if "di_throttle x = di_throttle d" "di_posts x = di_posts d" "di_channels x = di_channels d" for x
    using ok s le that by (auto simp: throttle_ok_def intro: remembers_mono)
  from ds show "throttle_ok s'"
  proof cases
    case (raise a)
    then show ?thesis using mono s by (simp add: Raise_def)
  next
    case (take a q now reply cancelled)
    then have "t' = now" using st s by (simp add: clocked_step_def)
    with take mono [of "d\<lparr>di_queue := q\<rparr>"] deliver_to_spaced [of "di_channels d" now "d\<lparr>di_queue := q\<rparr>"] s show ?thesis
      by (simp add: deliver_def throttle_ok_def)
  next
    case (reload cs)
    then have "\<forall>l. cs = Some l \<longrightarrow> (\<forall>c \<in> set l. ac_MinInterval c \<le> 24 * hour)"
      using st s by (auto simp: clocked_step_def)
    with reload mono [of d] s show ?thesis by (auto simp: Dispatcher_Reload_def throttle_ok_def split: option.splits)
  next
    case (sweep now)
    then have "t' = now" using st s by (simp add: clocked_step_def)
    moreover have "distinct (al_keys (di_throttle d))" using ok s by (simp add: throttle_ok_def)
    ultimately show ?thesis
      using sweep mono [of d] s remembers_swept by (auto simp: sweepThrottle_def throttle_ok_def intro: go_inv)
  qed
qed


definition ex_channel :: alert_channel where
  "ex_channel = \<lparr>ac_ID = 1, ac_Name = ''ops'', ac_Type = AlertWebhook, ac_Enabled = True, ac_URL = ''https://hooks.example.com/x'',
     ac_Events = [AlertHostUnavailable], ac_MinInterval = 5 * minute, ac_LastAttempt = None, ac_LastError = []\<rparr>"

definition ex_alert :: alert where "ex_alert = HostUnavailable 0 ''site'' 1"

definition ex_deliver :: "time \<Rightarrow> dispatcher \<Rightarrow> dispatcher" where
  "ex_deliver now d = deliver (\<lambda>_ _. Inr 200) False now ex_alert ((Raise ex_alert d)\<lparr>di_queue := []\<rparr>)"

definition ex_dispatched :: dispatcher where
  "ex_dispatched = ex_deliver (400 * second) (ex_deliver (200 * second) (ex_deliver (10 * second) (Dispatcher_Reload (Some [ex_channel]) new_dispatcher)))"

lemma ex_dispatched_posts: "map po_at (di_posts ex_dispatched) = [10 * second, 400 * second]"
  "map po_key (di_posts ex_dispatched) = [key_of ex_channel ex_alert, key_of ex_channel ex_alert]"
  by code_simp+

lemma ex_deliver_run:
  assumes "run clocked_step (now, ex_deliver now d) es s" "t \<le> now" "di_queue d = []"
  shows "run clocked_step (t, d) (ERaise ex_alert # EDeliver now (\<lambda>_ _. Inr 200) False # es) s"
proof (rule run_step [OF _ run_step [OF _ assms(1)]])
  show "clocked_step (t, d) (ERaise ex_alert) (t, Raise ex_alert d)"
    by (simp add: clocked_step_def dispatch_step.raise)
  have "di_queue (Raise ex_alert d) = [ex_alert]" using assms(3) by (simp add: Raise_def queueSize_def)
  then show "clocked_step (t, Raise ex_alert d) (EDeliver now (\<lambda>_ _. Inr 200) False) (now, ex_deliver now d)"
    unfolding clocked_step_def ex_deliver_def using assms(2) by (auto intro: dispatch_step.take)
qed

lemma deliver_queue: "di_queue (deliver reply cancelled now a d) = di_queue d"
proof -
  have "di_queue (deliver_to reply cancelled now a cs d) = di_queue d" for cs
    by (induction cs arbitrary: d)
      (auto simp: throttled_def post_alert_def record_delivery_def Let_def split: option.splits prod.splits post_end.splits if_splits)
  then show ?thesis by (simp add: deliver_def)
qed


end
