(* ===== verification/Alerts_Usage.thy ===== *)
theory Alerts_Usage
  imports Alerts "HOL-Library.Multiset"
begin

text \<open>
  The watcher of traffic budgets, \<^verbatim>\<open>internal/alerts/usage.go\<close>. A check takes the hosts the repository
  lists and, for each length of the window, the rows of the usage query; \<^const>\<open>None\<close> stands for an error.
  It returns the watcher and the alerts it raised. The windows are visited in the order in which hosts
  first name them; the code ranges over a map, and the result does not depend on that order.
\<close>

section \<open>The watcher\<close>

record usage_row =
  ur_HostID :: int
  ur_Requests :: "64 word"
  ur_BytesIn :: "64 word"
  ur_BytesOut :: "64 word"

definition usageRepeat :: duration where "usageRepeat = 24 * hour"

type_synonym usage_watcher = "(int \<times> time) list"

definition shouldAlert :: "int \<Rightarrow> time \<Rightarrow> usage_watcher \<Rightarrow> usage_watcher \<times> bool" where
  "shouldAlert hostID now w =
     (case map_of w hostID of
        Some prev \<Rightarrow> if now - prev < usageRepeat then (w, False) else (al_put hostID now w, True)
      | None \<Rightarrow> (al_put hostID now w, True))"

definition watcher_forget :: "int \<Rightarrow> usage_watcher \<Rightarrow> usage_watcher" where
  "watcher_forget hostID w = al_del hostID w"

definition watched :: "host \<Rightarrow> bool" where
  "watched h \<longleftrightarrow> \<not> (\<not> ua_Enabled (h_UsageAlert h) \<or> ua_Bytes (h_UsageAlert h) \<le> 0)"

fun by_window :: "(int \<times> host list) list \<Rightarrow> host list \<Rightarrow> (int \<times> host list) list" where
  "by_window m [] = m"
| "by_window m (h # hs) =
     (if \<not> watched h then by_window m hs
      else let d = ua_PeriodDays (h_UsageAlert h)
           in by_window (al_put d ((case map_of m d of Some g \<Rightarrow> g | None \<Rightarrow> []) @ [h]) m) hs)"

definition used_bytes :: "usage_row list \<Rightarrow> int \<Rightarrow> int" where
  "used_bytes rows i =
     (case map_of (rev (map (\<lambda>r. (ur_HostID r, sint (ur_BytesIn r + ur_BytesOut r))) rows)) i of Some n \<Rightarrow> n | None \<Rightarrow> 0)"

definition check_host :: "time \<Rightarrow> int \<Rightarrow> usage_row list \<Rightarrow> usage_watcher \<times> alert list \<Rightarrow> host \<Rightarrow> usage_watcher \<times> alert list" where
  "check_host now days rows s h =
     (let tot = used_bytes rows (h_ID h)
      in if tot < ua_Bytes (h_UsageAlert h) then (watcher_forget (h_ID h) (fst s), snd s)
         else case shouldAlert (h_ID h) now (fst s) of
           (w, False) \<Rightarrow> (w, snd s)
         | (w, True) \<Rightarrow> (w, snd s @ [UsageExceeded now (h_Name h) tot (ua_Bytes (h_UsageAlert h)) days]))"

definition check_window ::
  "(int \<Rightarrow> usage_row list option) \<Rightarrow> time \<Rightarrow> usage_watcher \<times> alert list \<Rightarrow> int \<times> host list \<Rightarrow> usage_watcher \<times> alert list" where
  "check_window usage now s g =
     (case usage (fst g) of None \<Rightarrow> s | Some rows \<Rightarrow> foldl (check_host now (fst g) rows) s (snd g))"

definition usage_check ::
  "host list option \<Rightarrow> (int \<Rightarrow> usage_row list option) \<Rightarrow> time \<Rightarrow> usage_watcher \<Rightarrow> usage_watcher \<times> alert list" where
  "usage_check listed usage now w =
     (case listed of
        None \<Rightarrow> (w, [])
      | Some hosts \<Rightarrow>
          let g = by_window [] hosts
          in if g = [] then (w, []) else foldl (check_window usage now) (w, []) g)"

section \<open>What a check does\<close>

text \<open>The windows as one list of hosts, each with the length of its window.\<close>

definition flat :: "(int \<times> host list) list \<Rightarrow> (int \<times> host) list" where
  "flat m = concat (map (\<lambda>(d, g). map (Pair d) g) m)"

lemma flat_simps [simp]: "flat [] = []" "flat ((d, g) # m) = map (Pair d) g @ flat m"
  by (simp_all add: flat_def)

lemma flat_al_put:
  "mset (flat (al_put d ((case map_of m d of Some g \<Rightarrow> g | None \<Rightarrow> []) @ [h]) m)) = add_mset (d, h) (mset (flat m))"
  by (induction m) auto

lemma mset_by_window:
  "mset (flat (by_window m hs)) = mset (flat m) + mset (map (\<lambda>h. (ua_PeriodDays (h_UsageAlert h), h)) (filter watched hs))"
  by (induction m hs rule: by_window.induct) (auto simp: flat_al_put Let_def)

definition check_one ::
  "(int \<Rightarrow> usage_row list option) \<Rightarrow> time \<Rightarrow> usage_watcher \<times> alert list \<Rightarrow> int \<times> host \<Rightarrow> usage_watcher \<times> alert list" where
  "check_one usage now s p = (case usage (fst p) of None \<Rightarrow> s | Some rows \<Rightarrow> check_host now (fst p) rows s (snd p))"

lemma check_window_flat: "foldl (check_window usage now) s m = foldl (check_one usage now) s (flat m)"
proof (induction m arbitrary: s)
  case (Cons p m)
  have "foldl (check_one usage now) s (map (Pair d) g) = check_window usage now s (d, g)" for d g s
  proof (induction g arbitrary: s)
    case Nil
    then show ?case by (cases "usage d") (simp_all add: check_window_def)
  next
    case (Cons h g)
    then show ?case by (cases "usage d") (simp_all add: check_window_def check_one_def)
  qed
  with Cons show ?case by (cases p) simp
qed simp

lemma usage_check_flat: "usage_check (Some hosts) usage now w = foldl (check_one usage now) (w, []) (flat (by_window [] hosts))"
  by (simp add: usage_check_def Let_def check_window_flat)

text \<open>Whether a host is over its budget, and whether it may be reported.\<close>

definition over_budget :: "(int \<Rightarrow> usage_row list option) \<Rightarrow> host \<Rightarrow> bool" where
  "over_budget usage h \<longleftrightarrow>
     (case usage (ua_PeriodDays (h_UsageAlert h)) of
        Some rows \<Rightarrow> ua_Bytes (h_UsageAlert h) \<le> used_bytes rows (h_ID h) | None \<Rightarrow> False)"

definition rested :: "time \<Rightarrow> usage_watcher \<Rightarrow> host \<Rightarrow> bool" where
  "rested now w h \<longleftrightarrow> (case map_of w (h_ID h) of Some prev \<Rightarrow> usageRepeat \<le> now - prev | None \<Rightarrow> True)"

definition report :: "(int \<Rightarrow> usage_row list option) \<Rightarrow> time \<Rightarrow> host \<Rightarrow> alert" where
  "report usage now h =
     UsageExceeded now (h_Name h) (used_bytes (the (usage (ua_PeriodDays (h_UsageAlert h)))) (h_ID h)) (ua_Bytes (h_UsageAlert h))
       (ua_PeriodDays (h_UsageAlert h))"

lemma check_one_spec:
  assumes "d = ua_PeriodDays (h_UsageAlert h)"
  shows "check_one usage now (w, out) (d, h) =
     (if usage d = None then (w, out)
      else if \<not> over_budget usage h then (al_del (h_ID h) w, out)
      else if rested now w h then (al_put (h_ID h) now w, out @ [report usage now h])
      else (w, out))"
  using assms
  by (auto simp: check_one_def check_host_def over_budget_def rested_def report_def shouldAlert_def watcher_forget_def Let_def
      split: option.splits)

lemma check_fold_spec:
  assumes "\<forall>p \<in> set ps. fst p = ua_PeriodDays (h_UsageAlert (snd p))" "distinct (map (\<lambda>p. h_ID (snd p)) ps)"
    "foldl (check_one usage now) (w, out) ps = (w', out')"
  shows "map_of w' i =
       (case find (\<lambda>p. h_ID (snd p) = i) ps of
          None \<Rightarrow> map_of w i
        | Some (d, h) \<Rightarrow>
            if usage d = None then map_of w i else if \<not> over_budget usage h then None
            else if rested now w h then Some now else map_of w i) \<and>
     mset out' = mset out + mset (map (\<lambda>p. report usage now (snd p)) (filter (\<lambda>p. over_budget usage (snd p) \<and> rested now w (snd p)) ps))"
  using assms
proof (induction ps arbitrary: w out)
  case (Cons p ps)
  obtain d h where p: "p = (d, h)" by fastforce
  obtain w1 out1 where one: "check_one usage now (w, out) p = (w1, out1)" by fastforce
  have d: "d = ua_PeriodDays (h_UsageAlert h)" using Cons.prems p by simp
  note spec = check_one_spec [OF d, of usage now w out]
  have other: "map_of w1 j = map_of w j" if "j \<noteq> h_ID h" for j
    using spec one p that by (auto split: if_splits)
  have same: "rested now w1 (snd q) = rested now w (snd q)" if "q \<in> set ps" for q
    using Cons.prems(2) other that p by (fastforce simp: rested_def image_iff)
  have fq: "filter (\<lambda>p. over_budget usage (snd p) \<and> rested now w1 (snd p)) ps =
      filter (\<lambda>p. over_budget usage (snd p) \<and> rested now w (snd p)) ps" using same by (intro filter_cong) auto
  have nf: "find (\<lambda>p. h_ID (snd p) = h_ID h) ps = None" using Cons.prems(2) p by (force simp: find_None_iff)
  have ih: "map_of w' i = (case find (\<lambda>p. h_ID (snd p) = i) ps of
          None \<Rightarrow> map_of w1 i
        | Some (d, h) \<Rightarrow>
            if usage d = None then map_of w1 i else if \<not> over_budget usage h then None
            else if rested now w1 h then Some now else map_of w1 i)"
    "mset out' = mset out1 + mset (map (\<lambda>p. report usage now (snd p)) (filter (\<lambda>p. over_budget usage (snd p) \<and> rested now w (snd p)) ps))"
    using Cons.IH [of w1 out1] Cons.prems one fq by auto
  have ob: "over_budget usage h \<Longrightarrow> usage d \<noteq> None" using d by (auto simp: over_budget_def split: option.splits)
  have "map_of w' i = (case find (\<lambda>p. h_ID (snd p) = i) (p # ps) of
          None \<Rightarrow> map_of w i
        | Some (d, h) \<Rightarrow>
            if usage d = None then map_of w i else if \<not> over_budget usage h then None
            else if rested now w h then Some now else map_of w i)"
  proof (cases "h_ID h = i")
    case True
    with ih(1) nf spec one p show ?thesis by (auto split: if_splits)
  next
    case False
    then show ?thesis
    proof (cases "find (\<lambda>p. h_ID (snd p) = i) ps")
      case None
      with ih(1) other False p show ?thesis by simp
    next
      case (Some q)
      then have "q \<in> set ps" by (auto simp: find_Some_iff)
      with Some ih(1) other same False p show ?thesis by (cases q) auto
    qed
  qed
  moreover have "mset out1 = mset out + (if over_budget usage h \<and> rested now w h then {#report usage now h#} else {#})"
    using spec one p ob by (auto split: if_splits)
  ultimately show ?case using ih(2) p by auto
qed simp

text \<open>C31. A check of the budgets reports exactly the hosts over their budget that were not reported within
  the last day, once each, and remembers when. A host back under its budget is forgotten, so that it
  is reported at once when it goes over again; but one whose budget was switched off is not, so that
  switching it on again within a day stays silent.\<close>

theorem usage_check_reports:
  assumes "distinct (map h_ID hosts)" "h \<in> set hosts" "usage_check (Some hosts) usage now w = (w', out)"
  shows "mset out = mset (map (report usage now) (filter (\<lambda>h. watched h \<and> over_budget usage h \<and> rested now w h) hosts)) \<and>
    map_of w' (h_ID h) =
      (if \<not> watched h \<or> usage (ua_PeriodDays (h_UsageAlert h)) = None then map_of w (h_ID h)
       else if \<not> over_budget usage h then None
       else if rested now w h then Some now else map_of w (h_ID h))"
proof -
  let ?ps = "flat (by_window [] hosts)" and ?f = "\<lambda>h. (ua_PeriodDays (h_UsageAlert h), h)"
  have m: "mset ?ps = mset (map ?f (filter watched hosts))" by (simp add: mset_by_window)
  have sp: "set ?ps = ?f ` {h \<in> set hosts. watched h}" using mset_eq_setD [OF m] by (simp only: set_map set_filter)
  then have per: "\<forall>p \<in> set ?ps. fst p = ua_PeriodDays (h_UsageAlert (snd p))" by auto
  have "mset (map (\<lambda>p. h_ID (snd p)) ?ps) = mset (map h_ID (filter watched hosts))"
    using arg_cong [OF m, of "image_mset (\<lambda>p. h_ID (snd p))"] by (simp add: image_mset.compositionality comp_def)
  then have dis: "distinct (map (\<lambda>p. h_ID (snd p)) ?ps)"
    using mset_eq_imp_distinct_iff distinct_map_filter [OF assms(1)] by blast
  note spec = check_fold_spec [OF per dis assms(3) [unfolded usage_check_flat]]
  have "mset out = image_mset (\<lambda>p. report usage now (snd p)) (filter_mset (\<lambda>p. over_budget usage (snd p) \<and> rested now w (snd p)) (mset ?ps))"
    using spec by simp
  also have "\<dots> = mset (map (report usage now) (filter (\<lambda>h. watched h \<and> over_budget usage h \<and> rested now w h) hosts))"
    unfolding m by (simp add: filter_mset_image_mset image_mset.compositionality comp_def filter_filter_mset conj_commute conj_left_commute)
  finally have out: "mset out = \<dots>" .
  have "find (\<lambda>p. h_ID (snd p) = h_ID h) ?ps = (if watched h then Some (?f h) else None)"
  proof (cases "watched h")
    case True
    then have "?f h \<in> set ?ps" using sp assms(2) by auto
    moreover obtain q where q: "find (\<lambda>p. h_ID (snd p) = h_ID h) ?ps = Some q"
      using calculation by (cases "find (\<lambda>p. h_ID (snd p) = h_ID h) ?ps") (auto simp: find_None_iff)
    moreover have "q \<in> set ?ps" "h_ID (snd q) = h_ID h" using q by (auto simp: find_Some_iff)
    ultimately have "q = ?f h" using dis by (auto simp: distinct_map inj_on_def)
    with q True show ?thesis by simp
  next
    case False
    have "h_ID (snd p) \<noteq> h_ID h" if "p \<in> set ?ps" for p
    proof
      assume eq: "h_ID (snd p) = h_ID h"
      from that sp have "snd p \<in> set hosts" "watched (snd p)" by auto
      with eq assms(1,2) have "snd p = h" by (auto simp: distinct_map inj_on_def)
      with \<open>watched (snd p)\<close> False show False by simp
    qed
    with False show ?thesis by (auto simp: find_None_iff)
  qed
  with spec [THEN conjunct1, of "h_ID h"] out show ?thesis by (auto split: if_splits)
qed

text \<open>A host whose budget is off, reported an hour ago, and one that goes over for the first time.\<close>

definition ex_metered :: "int \<Rightarrow> bool \<Rightarrow> host" where
  "ex_metered i on = (ex_host [''example.com''])\<lparr>h_ID := i, h_UsageAlert := \<lparr>ua_Enabled = on, ua_Bytes = 1000, ua_PeriodDays = 30\<rparr>\<rparr>"

definition ex_usage :: "int \<Rightarrow> usage_row list option" where
  "ex_usage _ = Some [\<lparr>ur_HostID = 1, ur_Requests = 1, ur_BytesIn = 600, ur_BytesOut = 600\<rparr>,
     \<lparr>ur_HostID = 2, ur_Requests = 1, ur_BytesIn = 600, ur_BytesOut = 600\<rparr>]"

theorem usage_check_reports_witness:
  "map_of (fst (usage_check (Some [ex_metered 1 False, ex_metered 2 True]) ex_usage (25 * hour) [(1, 24 * hour)])) 1 = Some (24 * hour) \<and>
   map_of (fst (usage_check (Some [ex_metered 1 False, ex_metered 2 True]) ex_usage (25 * hour) [(1, 24 * hour)])) 2 = Some (25 * hour)"
proof -
  let ?hs = "[ex_metered 1 False, ex_metered 2 True]"
  have d: "distinct (map h_ID ?hs)" by code_simp
  have f: "\<not> watched (ex_metered 1 False)" "watched (ex_metered 2 True)" "over_budget ex_usage (ex_metered 2 True)"
    "rested (25 * hour) [(1, 24 * hour)] (ex_metered 2 True)" by code_simp+
  obtain w out where u: "usage_check (Some ?hs) ex_usage (25 * hour) [(1, 24 * hour)] = (w, out)" by fastforce
  from usage_check_reports [OF d _ u, of "ex_metered 1 False"] usage_check_reports [OF d _ u, of "ex_metered 2 True"] u f
  show ?thesis by (simp add: ex_metered_def ex_usage_def)
qed

end
