(* ===== verification/Health_Checker.thy ===== *)
theory Health_Checker
  imports Balancer_Pool Alerts "HOL-Library.Multiset"
begin

text \<open>
  Active health checks: \<^verbatim>\<open>internal/health/checker.go\<close>.

  A checker supervises one probing goroutine per target. The model keeps the map of the running ones
  and a log of the goroutines started and stopped; \<^verbatim>\<open>stop\<close> waits for its goroutine, so a stopped one has
  ended. A pool is compared by its address, which a target carries beside it.

  A round of probes runs one goroutine per enabled backend. Each probe is two atomic steps, recording
  its result on the backend and reporting a change of state; the rounds are runs of a step relation in
  which these steps, and requests being served meanwhile, interleave freely. The reply to a probe is a
  parameter: \<open>Inl\<close> an error of building or sending the request, \<open>Inr\<close> the status code.
\<close>

section \<open>The supervisor\<close>

record target =
  tg_HostID :: int
  tg_Name :: string
  tg_Pool :: pool
  tg_Addr :: nat
  tg_Check :: health_check
  tg_Location :: string

record targetKey =
  gk_hostID :: int
  gk_location :: string

definition Target_key :: "target \<Rightarrow> targetKey" where
  "Target_key t = \<lparr>gk_hostID = tg_HostID t, gk_location = tg_Location t\<rparr>"

datatype probe_action = Started target | Stopped target

record checker =
  ck_running :: "(targetKey \<times> target) list"
  ck_closed :: bool
  ck_log :: "probe_action list"

definition new_checker :: checker where
  "new_checker = \<lparr>ck_running = [], ck_closed = False, ck_log = []\<rparr>"

definition target_matches :: "target \<Rightarrow> target \<Rightarrow> bool" where
  "target_matches h t \<longleftrightarrow> tg_Addr h = tg_Addr t \<and> tg_Check h = tg_Check t"

definition stop_probe :: "target \<Rightarrow> checker \<Rightarrow> checker" where
  "stop_probe h c = c\<lparr>ck_log := ck_log c @ [Stopped h]\<rparr>"

definition start_probe :: "target \<Rightarrow> checker \<Rightarrow> checker" where
  "start_probe t c = c\<lparr>ck_running := al_put (Target_key t) t (ck_running c), ck_log := ck_log c @ [Started t]\<rparr>"

definition sync_target :: "checker \<Rightarrow> target \<Rightarrow> checker" where
  "sync_target c t =
     (let k = Target_key t; existing = map_of (ck_running c) k
      in case existing of
           Some x \<Rightarrow>
             if target_matches x t then c
             else
               let c = stop_probe x c
               in if \<not> hc_Enabled (tg_Check t) \<or> p_backends (tg_Pool t) = []
                  then c\<lparr>ck_running := al_del k (ck_running c)\<rparr> else start_probe t c
         | None \<Rightarrow>
             if \<not> hc_Enabled (tg_Check t) \<or> p_backends (tg_Pool t) = []
             then c\<lparr>ck_running := al_del k (ck_running c)\<rparr> else start_probe t c)"

definition Sync :: "target list \<Rightarrow> checker \<Rightarrow> checker" where
  "Sync targets c =
     (if ck_closed c then c
      else
        let c = foldl sync_target c targets;
            gone = filter (\<lambda>p. fst p \<notin> set (map Target_key targets)) (ck_running c);
            c = foldl (\<lambda>c p. stop_probe (snd p) c) c gone
        in c\<lparr>ck_running := filter (\<lambda>p. fst p \<in> set (map Target_key targets)) (ck_running c)\<rparr>)"

definition Checker_Close :: "checker \<Rightarrow> checker" where
  "Checker_Close c =
     (let running = ck_running c; c = c\<lparr>ck_closed := True, ck_running := []\<rparr>
      in foldl (\<lambda>c p. stop_probe (snd p) c) c running)"

section \<open>One probe\<close>

definition doProbe :: "health_check \<Rightarrow> string + int \<Rightarrow> string option" where
  "doProbe check reply =
     (case reply of
        Inl err \<Rightarrow> Some err
      | Inr status \<Rightarrow>
          if hc_ExpectStatus check \<noteq> 0 then
            (if status \<noteq> hc_ExpectStatus check
             then Some (''status '' @ itoa status @ '', want '' @ itoa (hc_ExpectStatus check)) else None)
          else if status \<ge> 400 then Some (''status '' @ itoa status) else None)"

definition errString :: "string option \<Rightarrow> string" where
  "errString err = (case err of None \<Rightarrow> [] | Some e \<Rightarrow> e)"

datatype phase = Waiting | Marked bool "string option" | Finished

record round =
  ro_heap :: heap
  ro_phase :: "bid \<Rightarrow> phase"
  ro_alerts :: "alert list"
  ro_notified :: "(int \<times> bid \<times> bool) list"

text \<open>\<^verbatim>\<open>probe\<close> up to the change of state; \<open>cancelled\<close> tells whether the checker was being stopped.\<close>

definition probe_record :: "target \<Rightarrow> bid \<Rightarrow> bool \<Rightarrow> string + int \<Rightarrow> round \<Rightarrow> round" where
  "probe_record t b cancelled reply s =
     (let err = doProbe (tg_Check t) reply
      in if err \<noteq> None \<and> cancelled then s\<lparr>ro_phase := (ro_phase s)(b := Finished)\<rparr>
         else
           let x = (if err \<noteq> None then RecordError err (ro_heap s b) else ro_heap s b);
               (x, changed) = RecordProbe (err = None) (hc_HealthyThreshold (tg_Check t)) (hc_UnhealthyThreshold (tg_Check t)) x
           in s\<lparr>ro_heap := (ro_heap s)(b := x),
                ro_phase := (ro_phase s)(b := (if changed then Marked (err = None) err else Finished))\<rparr>)"

text \<open>\<^verbatim>\<open>probe\<close> from there.\<close>

definition probe_report :: "target \<Rightarrow> time \<Rightarrow> bid \<Rightarrow> bool \<Rightarrow> string option \<Rightarrow> round \<Rightarrow> round" where
  "probe_report t now b healthy err s =
     (let name = b_key (ro_heap s b);
          s = (if healthy then
                 s\<lparr>ro_heap := (ro_heap s)(b := ClearEjection (ro_heap s b)),
                   ro_alerts := ro_alerts s @ [UpstreamRecovered now (tg_Name t) name]\<rparr>
               else
                 let s = s\<lparr>ro_alerts := ro_alerts s @ [UpstreamDown now (tg_Name t) name (errString err)]\<rparr>;
                     (up, n) = HealthyCount (ro_heap s) now (tg_Pool t)
                 in if up = 0 \<and> n > 0 then s\<lparr>ro_alerts := ro_alerts s @ [HostUnavailable now (tg_Name t) n]\<rparr> else s)
      in s\<lparr>ro_phase := (ro_phase s)(b := Finished), ro_notified := ro_notified s @ [(tg_HostID t, b, healthy)]\<rparr>)"

section \<open>A round\<close>

definition start_round :: "target \<Rightarrow> heap \<Rightarrow> round" where
  "start_round t h =
     \<lparr>ro_heap = h, ro_phase = (\<lambda>b. if b \<in> set (p_backends (tg_Pool t)) \<and> u_Enabled (b_Upstream (h b)) then Waiting else Finished),
      ro_alerts = [], ro_notified = []\<rparr>"

datatype probe_label = PRecord bid bool "string + int" | PReport bid time | PTraffic heap

text \<open>Serving requests changes counters and ejections, never the configuration of a backend or what the
  probes found.\<close>

inductive probe_step :: "target \<Rightarrow> round \<Rightarrow> probe_label \<Rightarrow> round \<Rightarrow> bool" for t where
  answered: "ro_phase s b = Waiting \<Longrightarrow> probe_step t s (PRecord b cancelled reply) (probe_record t b cancelled reply s)"
| reported: "ro_phase s b = Marked healthy err \<Longrightarrow> probe_step t s (PReport b now) (probe_report t now b healthy err s)"
| traffic: "(\<And>b. b_healthy (h b) = b_healthy (ro_heap s b) \<and> b_Upstream (h b) = b_Upstream (ro_heap s b)) \<Longrightarrow>
    probe_step t s (PTraffic h) (s\<lparr>ro_heap := h\<rparr>)"

inductive_cases probe_stepE: "probe_step t s l s'"

section \<open>Goroutines\<close>

abbreviation started :: "checker \<Rightarrow> target multiset" where
  "started c \<equiv> mset (List.map_filter (\<lambda>a. case a of Started t \<Rightarrow> Some t | _ \<Rightarrow> None) (ck_log c))"

abbreviation stopped :: "checker \<Rightarrow> target multiset" where
  "stopped c \<equiv> mset (List.map_filter (\<lambda>a. case a of Stopped t \<Rightarrow> Some t | _ \<Rightarrow> None) (ck_log c))"

abbreviation live :: "checker \<Rightarrow> target multiset" where
  "live c \<equiv> mset (map snd (ck_running c))"

definition checker_ok :: "checker \<Rightarrow> bool" where
  "checker_ok c \<longleftrightarrow> distinct (al_keys (ck_running c)) \<and> started c = stopped c + live c \<and> (ck_closed c \<longrightarrow> ck_running c = [])"

lemma al_del_absent: "map_of m k = None \<Longrightarrow> al_del k m = m"
  by (force simp: al_del_def map_of_eq_None_iff filter_id_conv)

lemma map_of_filter_mem: "map_of (filter (\<lambda>p. fst p \<in> S) m) k = (if k \<in> S then map_of m k else None)"
  by (induction m) auto

lemma live_del:
  assumes "distinct (al_keys m)" "map_of m k = Some x"
  shows "image_mset snd (mset m) = add_mset x (image_mset snd (mset (al_del k m)))"
  using assms
proof (induction m)
  case (Cons p m)
  show ?case
  proof (cases "fst p = k")
    case True
    with Cons.prems have "al_del k m = m" by (intro al_del_absent) (simp add: map_of_eq_None_iff)
    with True Cons.prems show ?thesis by (cases p) (simp add: al_del_def)
  next
    case False
    with Cons show ?thesis by (cases p) (simp add: al_del_def)
  qed
qed simp

lemma live_put:
  "distinct (al_keys m) \<Longrightarrow> image_mset snd (mset (al_put k v m)) = add_mset v (image_mset snd (mset (al_del k m)))"
proof (induction m)
  case (Cons p m)
  show ?case
  proof (cases "fst p = k")
    case True
    with Cons.prems have "al_del k m = m" by (intro al_del_absent) (simp add: map_of_eq_None_iff)
    with True show ?thesis by (cases p) (simp add: al_del_def)
  next
    case False
    with Cons show ?thesis by (cases p) (simp add: al_del_def)
  qed
qed (simp add: al_del_def)

lemma log_simps [simp]:
  "started (c\<lparr>ck_log := ck_log c @ [Started t]\<rparr>) = add_mset t (started c)"
  "stopped (c\<lparr>ck_log := ck_log c @ [Started t]\<rparr>) = stopped c"
  "started (stop_probe t c) = started c" "stopped (stop_probe t c) = add_mset t (stopped c)"
  "ck_running (stop_probe t c) = ck_running c" "ck_closed (stop_probe t c) = ck_closed c"
  by (simp_all add: map_filter_def stop_probe_def)

lemma start_probe_simps [simp]:
  "ck_running (start_probe t c) = al_put (Target_key t) t (ck_running c)" "ck_closed (start_probe t c) = ck_closed c"
  "started (start_probe t c) = add_mset t (started c)" "stopped (start_probe t c) = stopped c"
  by (simp_all add: map_filter_def start_probe_def)

definition probed :: "target \<Rightarrow> bool" where
  "probed t \<longleftrightarrow> \<not> (\<not> hc_Enabled (tg_Check t) \<or> p_backends (tg_Pool t) = [])"

lemma sync_target_spec:
  assumes "checker_ok c" "\<not> ck_closed c"
  shows "checker_ok (sync_target c t) \<and> \<not> ck_closed (sync_target c t) \<and>
    map_of (ck_running (sync_target c t)) k =
      (if k \<noteq> Target_key t then map_of (ck_running c) k
       else case map_of (ck_running c) k of
         Some x \<Rightarrow> if target_matches x t then Some x else if probed t then Some t else None
       | None \<Rightarrow> if probed t then Some t else None)"
proof (cases "map_of (ck_running c) (Target_key t)")
  case None
  with assms show ?thesis
    by (auto simp: sync_target_def checker_ok_def probed_def Let_def live_put al_del_absent intro: go_inv)
next
  case (Some x)
  have "image_mset snd (mset (ck_running c)) = add_mset x (image_mset snd (mset (al_del (Target_key t) (ck_running c))))"
    using live_del [OF _ Some] assms(1) by (simp add: checker_ok_def)
  with Some assms show ?thesis
    by (auto simp: sync_target_def checker_ok_def probed_def Let_def live_put intro: go_inv)
qed

lemma sync_fold_spec:
  assumes "checker_ok c" "\<not> ck_closed c" "distinct (map Target_key ts)"
  shows "checker_ok (foldl sync_target c ts) \<and> \<not> ck_closed (foldl sync_target c ts) \<and>
    map_of (ck_running (foldl sync_target c ts)) k =
      (case find (\<lambda>t. Target_key t = k) ts of
         None \<Rightarrow> map_of (ck_running c) k
       | Some t \<Rightarrow>
           (case map_of (ck_running c) k of
              Some x \<Rightarrow> if target_matches x t then Some x else if probed t then Some t else None
            | None \<Rightarrow> if probed t then Some t else None))"
  using assms
proof (induction ts arbitrary: c)
  case (Cons t ts)
  note one = sync_target_spec [OF Cons.prems(1,2), of t]
  have "checker_ok (sync_target c t)" "\<not> ck_closed (sync_target c t)" using one by blast+
  note ih = Cons.IH [OF this] 
  have "Target_key t \<notin> Target_key ` set ts" using Cons.prems(3) by simp
  then have nf: "find (\<lambda>u. Target_key u = Target_key t) ts = None" unfolding find_None_iff by (metis imageI)
  show ?case
  proof (cases "k = Target_key t")
    case True
    with ih Cons.prems(3) nf one [of k] show ?thesis by simp
  next
    case False
    then have eq: "map_of (ck_running (sync_target c t)) k = map_of (ck_running c) k" using one [of k] by simp
    have "distinct (map Target_key ts)" using Cons.prems(3) by simp
    from ih [OF this] False show ?thesis unfolding eq by simp
  qed
qed simp

lemma stop_all:
  "ck_running (foldl (\<lambda>c p. stop_probe (snd p) c) c ps) = ck_running c"
  "ck_closed (foldl (\<lambda>c p. stop_probe (snd p) c) c ps) = ck_closed c"
  "started (foldl (\<lambda>c p. stop_probe (snd p) c) c ps) = started c"
  "stopped (foldl (\<lambda>c p. stop_probe (snd p) c) c ps) = stopped c + mset (map snd ps)"
  by (induction ps arbitrary: c) simp_all

lemma Sync_spec:
  assumes "checker_ok c" "\<not> ck_closed c" "distinct (map Target_key ts)"
  shows "checker_ok (Sync ts c) \<and> \<not> ck_closed (Sync ts c) \<and>
    map_of (ck_running (Sync ts c)) k =
      (case find (\<lambda>t. Target_key t = k) ts of
         None \<Rightarrow> None
       | Some t \<Rightarrow>
           (case map_of (ck_running c) k of
              Some x \<Rightarrow> if target_matches x t then Some x else if probed t then Some t else None
            | None \<Rightarrow> if probed t then Some t else None))"
proof -
  let ?c = "foldl sync_target c ts" and ?K = "set (map Target_key ts)"
  note f = sync_fold_spec [OF assms]
  have split: "mset (map snd (filter (\<lambda>p. fst p \<notin> ?K) m)) + mset (map snd (filter (\<lambda>p. fst p \<in> ?K) m)) = mset (map snd m)"
    for m :: "(targetKey \<times> target) list" by (induction m) auto
  have "checker_ok (Sync ts c) \<and> \<not> ck_closed (Sync ts c)"
    using f assms(2) split [of "ck_running ?c"]
    by (auto simp: Sync_def Let_def checker_ok_def stop_all add.assoc intro: go_inv)
  moreover have "map_of (ck_running (Sync ts c)) k = (if k \<in> ?K then map_of (ck_running ?c) k else None)"
    using assms(2) by (simp add: Sync_def Let_def stop_all map_of_filter_mem)
  moreover have "k \<in> ?K \<longleftrightarrow> find (\<lambda>t. Target_key t = k) ts \<noteq> None" by (force simp: find_None_iff)
  ultimately show ?thesis using f [of k] by (auto split: option.splits)
qed

datatype checker_op = OpSync "target list" | OpClose

definition checker_exec :: "checker \<Rightarrow> checker_op \<Rightarrow> checker" where
  "checker_exec c x = (case x of OpSync ts \<Rightarrow> Sync ts c | OpClose \<Rightarrow> Checker_Close c)"

definition keyed :: "checker_op \<Rightarrow> bool" where
  "keyed x \<longleftrightarrow> (case x of OpSync ts \<Rightarrow> distinct (map Target_key ts) | OpClose \<Rightarrow> True)"

lemma checker_exec_ok: "checker_ok c \<Longrightarrow> keyed x \<Longrightarrow> checker_ok (checker_exec c x)"
proof (cases x)
  case (OpSync ts)
  assume "checker_ok c" "keyed x"
  with OpSync Sync_spec [of c ts] show ?thesis by (cases "ck_closed c") (simp_all add: checker_exec_def keyed_def Sync_def)
next
  case OpClose
  assume "checker_ok c"
  with OpClose show ?thesis
    by (simp add: checker_exec_def Checker_Close_def Let_def checker_ok_def stop_all)
qed

lemma checker_run_ok: "list_all keyed ops \<Longrightarrow> checker_ok (foldl checker_exec new_checker ops)"
proof (induction ops rule: rev_induct)
  case Nil
  then show ?case by (simp add: checker_ok_def new_checker_def map_filter_def)
qed (simp add: checker_exec_ok)

text \<open>C28. The probing goroutines follow the configuration: after any sequence of synchronisations and closes,
  every goroutine ever started has been stopped or is the one registered under its key; closing leaves
  none; and a synchronisation of an open checker leaves exactly one per enabled target with backends,
  the old one where the pool and the settings are the same.\<close>

theorem checker_follows_targets:
  assumes "list_all keyed ops" "distinct (map Target_key ts)" "t \<in> set ts"
  defines "c \<equiv> foldl checker_exec new_checker ops"
  shows "started c = stopped c + live c \<and> (ck_closed c \<longrightarrow> started c = stopped c) \<and>
    (\<not> ck_closed c \<longrightarrow>
       set (al_keys (ck_running (Sync ts c))) \<subseteq> set (map Target_key ts) \<and>
       map_of (ck_running (Sync ts c)) (Target_key t) =
         (case map_of (ck_running c) (Target_key t) of
            Some x \<Rightarrow> if target_matches x t then Some x else if probed t then Some t else None
          | None \<Rightarrow> if probed t then Some t else None))"
proof -
  have ok: "checker_ok c" unfolding c_def by (rule checker_run_ok [OF assms(1)])
  have "find (\<lambda>u. Target_key u = Target_key t) ts = Some t"
  proof -
    obtain u where u: "find (\<lambda>u. Target_key u = Target_key t) ts = Some u"
      using assms(3) by (cases "find (\<lambda>u. Target_key u = Target_key t) ts") (auto simp: find_None_iff)
    then have "u \<in> set ts" "Target_key u = Target_key t" by (auto simp: find_Some_iff)
    with assms(2,3) have "u = t" by (auto simp: distinct_map inj_on_def)
    with u show ?thesis by simp
  qed
  then have "\<not> ck_closed c \<Longrightarrow> map_of (ck_running (Sync ts c)) (Target_key t) =
       (case map_of (ck_running c) (Target_key t) of
          Some x \<Rightarrow> if target_matches x t then Some x else if probed t then Some t else None
        | None \<Rightarrow> if probed t then Some t else None)" using Sync_spec [OF ok _ assms(2), of "Target_key t"] by simp
  moreover have "\<not> ck_closed c \<Longrightarrow> set (al_keys (ck_running (Sync ts c))) \<subseteq> set (map Target_key ts)"
    by (auto simp: Sync_def Let_def)
  ultimately show ?thesis using ok by (simp add: checker_ok_def)
qed

definition ex_target :: "nat \<Rightarrow> target" where
  "ex_target addr = \<lparr>tg_HostID = 1, tg_Name = ''site'', tg_Pool = ex_pool RoundRobin [0, 1], tg_Addr = addr,
     tg_Check = DefaultHealthCheck\<lparr>hc_Enabled := True, hc_UnhealthyThreshold := 1\<rparr>, tg_Location = []\<rparr>"

theorem checker_follows_targets_witness:
  "map_of (ck_running (Sync [ex_target 2] (Sync [ex_target 1] new_checker))) (Target_key (ex_target 2)) = Some (ex_target 2)"
proof -
  have "foldl checker_exec new_checker [OpSync [ex_target 1]] = Sync [ex_target 1] new_checker" by (simp add: checker_exec_def)
  moreover have "list_all keyed [OpSync [ex_target 1]]" by (simp add: keyed_def)
  moreover have "\<not> ck_closed (Sync [ex_target 1] new_checker)"
    "map_of (ck_running (Sync [ex_target 1] new_checker)) (Target_key (ex_target 2)) = Some (ex_target 1)"
    by (simp_all add: Sync_def sync_target_def new_checker_def start_probe_def Target_key_def ex_target_def ex_pool_def Let_def)
  moreover have "\<not> target_matches (ex_target 1) (ex_target 2)" "probed (ex_target 2)"
    by (simp_all add: target_matches_def probed_def ex_target_def ex_pool_def)
  ultimately show ?thesis using checker_follows_targets [of "[OpSync [ex_target 1]]" "[ex_target 2]" "ex_target 2"] by simp
qed

section \<open>Outages\<close>

abbreviation members :: "target \<Rightarrow> heap \<Rightarrow> bid set" where
  "members t h \<equiv> {b \<in> set (p_backends (tg_Pool t)). u_Enabled (b_Upstream (h b))}"

definition all_down :: "target \<Rightarrow> heap \<Rightarrow> bool" where
  "all_down t h \<longleftrightarrow> (\<forall>b \<in> members t h. \<not> b_healthy (h b))"

lemma count_healthy_down:
  assumes "\<forall>b \<in> set bs. u_Enabled (b_Upstream (h b)) \<longrightarrow> \<not> b_healthy (h b)"
  shows "fst (count_healthy h now bs) = 0"
  using assms by (induction bs) (auto simp: Available_def split: prod.splits)

lemma count_healthy_total: "b \<in> set bs \<Longrightarrow> u_Enabled (b_Upstream (h b)) \<Longrightarrow> snd (count_healthy h now bs) > 0"
  by (induction bs) (auto split: prod.splits)

definition outage_told :: "target \<Rightarrow> round \<Rightarrow> bool" where
  "outage_told t s \<longleftrightarrow> (\<exists>now n. HostUnavailable now (tg_Name t) n \<in> set (ro_alerts s))"

text \<open>While every backend is down after one was up, the outage has been told or a probe is about to tell it.\<close>

definition round_ok :: "target \<Rightarrow> heap \<Rightarrow> round \<Rightarrow> bool" where
  "round_ok t h0 s \<longleftrightarrow>
     (\<forall>b. b_Upstream (ro_heap s b) = b_Upstream (h0 b)) \<and>
     (\<forall>b. ro_phase s b \<noteq> Finished \<longrightarrow> b \<in> members t h0) \<and>
     (\<not> all_down t h0 \<and> all_down t (ro_heap s) \<longrightarrow> outage_told t s \<or> (\<exists>b err. ro_phase s b = Marked False err))"

lemma RecordProbe_facts:
  assumes "RecordProbe ok ht ut b = (b', changed)"
  shows "b_Upstream b' = b_Upstream b" "b_healthy b' = (if changed then ok else b_healthy b)"
  using assms by (auto simp: RecordProbe_def SetHealthy_def RecordError_def Let_def split: if_splits)

lemma probe_record_ok:
  assumes "round_ok t h0 s" "ro_phase s b = Waiting"
  shows "round_ok t h0 (probe_record t b cancelled reply s)"
proof (cases "doProbe (tg_Check t) reply \<noteq> None \<and> cancelled")
  case True
  define s' where "s' = s\<lparr>ro_phase := (ro_phase s)(b := Finished)\<rparr>"
  have "ro_phase s' x = Marked False err" if "ro_phase s x = Marked False err" for x err
    using that assms(2) by (auto simp: s'_def)
  moreover have "ro_heap s' = ro_heap s" "outage_told t s' = outage_told t s" "ro_phase s' x \<noteq> Finished \<Longrightarrow> ro_phase s x \<noteq> Finished" for x
    by (auto simp: s'_def outage_told_def split: if_splits)
  ultimately have "round_ok t h0 s'" using assms(1) unfolding round_ok_def by (metis (no_types))
  with True show ?thesis by (simp add: probe_record_def s'_def Let_def)
next
  case False
  let ?err = "doProbe (tg_Check t) reply"
  let ?x = "if ?err \<noteq> None then RecordError ?err (ro_heap s b) else ro_heap s b"
  obtain y changed where rp: "RecordProbe (?err = None) (hc_HealthyThreshold (tg_Check t)) (hc_UnhealthyThreshold (tg_Check t)) ?x
      = (y, changed)" by fastforce
  define s' where "s' = probe_record t b cancelled reply s"
  have s': "ro_heap s' = (ro_heap s)(b := y)" "ro_alerts s' = ro_alerts s"
    "ro_phase s' = (ro_phase s)(b := (if changed then Marked (?err = None) ?err else Finished))"
    using False rp by (auto simp: s'_def probe_record_def Let_def)
  have y: "b_Upstream y = b_Upstream (ro_heap s b)" "b_healthy y = (if changed then ?err = None else b_healthy (ro_heap s b))"
    using RecordProbe_facts [OF rp] by (auto simp: RecordError_def split: if_splits)
  have mem: "b \<in> members t h0" using assms by (auto simp: round_ok_def)
  have up: "\<forall>x. b_Upstream (ro_heap s' x) = b_Upstream (h0 x)" using assms(1) y s' by (simp add: round_ok_def)
  have tell: "outage_told t s' \<or> (\<exists>b err. ro_phase s' b = Marked False err)" if a: "\<not> all_down t h0" "all_down t (ro_heap s')"
  proof (cases changed)
    case True
    have "\<not> b_healthy (ro_heap s' b)" using a(2) mem up by (auto simp: all_down_def)
    with True y s' show ?thesis by auto
  next
    case False
    have "all_down t (ro_heap s)" using a(2) False y s'(1) by (auto simp: all_down_def split: if_splits)
    then consider "outage_told t s" | b' err where "ro_phase s b' = Marked False err" using assms(1) a(1) by (auto simp: round_ok_def)
    then show ?thesis
    proof cases
      case 1
      with s' show ?thesis by (simp add: outage_told_def)
    next
      case 2
      with assms(2) s' show ?thesis by (metis fun_upd_other phase.distinct(1))
    qed
  qed
  have "\<forall>x. ro_phase s' x \<noteq> Finished \<longrightarrow> x \<in> members t h0" using assms(1) mem s' by (auto simp: round_ok_def)
  with up tell show ?thesis unfolding s'_def [symmetric] round_ok_def by blast
qed

lemma probe_report_ok:
  assumes "round_ok t h0 s" "ro_phase s b = Marked healthy err"
  shows "round_ok t h0 (probe_report t now b healthy err s)"
proof -
  define s' where "s' = probe_report t now b healthy err s"
  have ph: "ro_phase s' = (ro_phase s)(b := Finished)"
    by (auto simp: s'_def probe_report_def Let_def split: prod.splits)
  have hp: "b_Upstream (ro_heap s' x) = b_Upstream (ro_heap s x) \<and> b_healthy (ro_heap s' x) = b_healthy (ro_heap s x)" for x
    by (auto simp: s'_def probe_report_def ClearEjection_def Let_def split: prod.splits)
  have al: "set (ro_alerts s) \<subseteq> set (ro_alerts s')"
    by (auto simp: s'_def probe_report_def Let_def split: prod.splits)
  have mem: "b \<in> members t h0" using assms by (auto simp: round_ok_def)
  have ad: "all_down t (ro_heap s') = all_down t (ro_heap s)" using hp by (auto simp: all_down_def)
  have "outage_told t s' \<or> (\<exists>b err. ro_phase s' b = Marked False err)" if a: "\<not> all_down t h0" "all_down t (ro_heap s')"
  proof (cases healthy)
    case True
    consider "outage_told t s" | b' err' where "ro_phase s b' = Marked False err'" using assms(1) a ad by (auto simp: round_ok_def)
    then show ?thesis
    proof cases
      case 1
      with al show ?thesis by (auto simp: outage_told_def)
    next
      case 2
      with assms(2) True ph have "ro_phase s' b' = Marked False err'" by auto
      then show ?thesis by blast
    qed
  next
    case False
    have en: "u_Enabled (b_Upstream (ro_heap s b))" "b \<in> set (p_backends (tg_Pool t))" using mem assms(1) by (auto simp: round_ok_def)
    have "fst (HealthyCount (ro_heap s) now (tg_Pool t)) = 0"
      using a(2) ad unfolding HealthyCount_def by (intro count_healthy_down) (auto simp: all_down_def)
    moreover have "snd (HealthyCount (ro_heap s) now (tg_Pool t)) > 0"
      using en unfolding HealthyCount_def by (intro count_healthy_total)
    ultimately have "HostUnavailable now (tg_Name t) (snd (HealthyCount (ro_heap s) now (tg_Pool t))) \<in> set (ro_alerts s')"
      using False by (auto simp: s'_def probe_report_def Let_def split: prod.splits)
    then show ?thesis by (auto simp: outage_told_def)
  qed
  moreover have "\<forall>x. ro_phase s' x \<noteq> Finished \<longrightarrow> x \<in> members t h0" using assms(1) ph by (auto simp: round_ok_def)
  ultimately show ?thesis using assms(1) hp unfolding s'_def [symmetric] round_ok_def by simp
qed

lemma probe_step_ok: "probe_step t s l s' \<Longrightarrow> round_ok t h0 s \<Longrightarrow> round_ok t h0 s'"
proof (erule probe_stepE)
  fix h
  assume "\<And>b. b_healthy (h b) = b_healthy (ro_heap s b) \<and> b_Upstream (h b) = b_Upstream (ro_heap s b)"
    "s' = s\<lparr>ro_heap := h\<rparr>" "round_ok t h0 s"
  moreover from this have "all_down t h = all_down t (ro_heap s)" by (auto simp: all_down_def)
  ultimately show ?thesis by (simp add: round_ok_def outage_told_def)
qed (auto intro: probe_record_ok probe_report_ok)

text \<open>C27. An outage is told: if a host had a backend that its probes found up and a round of probes leaves it
  with none, an alert that the host is unavailable has been raised by the time every probe of the
  round has finished, in whatever order the probes answer and report and whatever requests are
  served meanwhile.\<close>

theorem outage_is_told:
  assumes "run (probe_step t) (start_round t h) ls s" "\<forall>b. ro_phase s b = Finished" "\<not> all_down t h" "all_down t (ro_heap s)"
  shows "\<exists>now n. HostUnavailable now (tg_Name t) n \<in> set (ro_alerts s)"
proof -
  have "round_ok t h (start_round t h)" by (auto simp: round_ok_def start_round_def)
  with assms(1) have "round_ok t h s" by (rule run_invariant) (rule probe_step_ok)
  with assms(2-4) show ?thesis by (auto simp: round_ok_def outage_told_def)
qed

text \<open>Two backends that fail one after the other; the second report finds nothing left.\<close>

definition ex_round :: round where
  "ex_round =
     (let t = ex_target 1;
          s = probe_record t 0 False (Inl ''refused'') (start_round t (ex_heap [1, 1]));
          s = probe_record t 1 False (Inr 503) s
      in probe_report t 6 1 False (Some ''status 503'') (probe_report t 5 0 False (Some ''refused'') s))"

lemma ex_round_run: "run (probe_step (ex_target 1)) (start_round (ex_target 1) (ex_heap [1, 1]))
   [PRecord 0 False (Inl ''refused''), PRecord 1 False (Inr 503), PReport 0 5, PReport 1 6] ex_round"
proof -
  let ?t = "ex_target 1" and ?h = "ex_heap [1, 1]"
  let ?s1 = "probe_record ?t 0 False (Inl ''refused'') (start_round ?t ?h)"
  let ?s2 = "probe_record ?t 1 False (Inr 503) ?s1"
  let ?s3 = "probe_report ?t 5 0 False (Some ''refused'') ?s2"
  have p: "ro_phase (start_round ?t ?h) 0 = Waiting" "ro_phase ?s1 1 = Waiting" "ro_phase ?s2 0 = Marked False (Some ''refused'')"
    "ro_phase ?s3 1 = Marked False (Some ''status 503'')"
    by code_simp+
  show ?thesis
    unfolding ex_round_def Let_def
    by (rule run_step, rule probe_step.answered, rule p(1), rule run_step, rule probe_step.answered, rule p(2),
      rule run_step, rule probe_step.reported, rule p(3), rule run_step, rule probe_step.reported, rule p(4), rule run_refl)
qed

lemma ex_round_end: "ro_phase ex_round b = Finished" "all_down (ex_target 1) (ro_heap ex_round)"
  "\<not> all_down (ex_target 1) (ex_heap [1, 1])"
proof -
  have "ro_phase (probe_record t x c r s) b = ro_phase s b" if "b \<noteq> x" for t x c r s
    using that by (auto simp: probe_record_def Let_def split: prod.splits)
  moreover have "ro_phase (probe_report t n x c r s) b = (if b = x then Finished else ro_phase s b)" for t n x c r s
    by (auto simp: probe_report_def Let_def split: prod.splits)
  moreover have "ro_phase (start_round (ex_target 1) (ex_heap [1, 1])) b = Finished" if "b \<noteq> 0" "b \<noteq> 1"
    using that by (simp add: start_round_def ex_target_def ex_pool_def)
  ultimately show "ro_phase ex_round b = Finished" by (cases "b = 0"; cases "b = 1") (simp_all add: ex_round_def Let_def)
  have h: "\<not> b_healthy (ro_heap ex_round 0)" "\<not> b_healthy (ro_heap ex_round 1)" "b_healthy (ex_heap [1, 1] 0)"
    "u_Enabled (b_Upstream (ex_heap [1, 1] 0))" by code_simp+
  have m: "set (p_backends (tg_Pool (ex_target 1))) = {0, 1}" by (simp add: ex_target_def ex_pool_def)
  show "all_down (ex_target 1) (ro_heap ex_round)" "\<not> all_down (ex_target 1) (ex_heap [1, 1])"
    using h unfolding all_down_def m by auto
qed

theorem outage_is_told_witness:
  "\<exists>now n. HostUnavailable now ''site'' n \<in> set (ro_alerts ex_round)"
proof -
  have "tg_Name (ex_target 1) = ''site''" by (simp add: ex_target_def)
  with outage_is_told [OF ex_round_run _ ex_round_end(3,2)] ex_round_end(1) show ?thesis by simp
qed

end
