(* ===== verification/Metrics.thy ===== *)
theory Metrics
  imports Proxy_Handler
begin

text \<open>
  The metrics collector: \<^verbatim>\<open>internal/domain/metrics.go\<close> and, of \<^verbatim>\<open>internal/metrics\<close>, \<^verbatim>\<open>collector.go\<close>,
  \<^verbatim>\<open>share.go\<close>, \<^verbatim>\<open>snapshot.go\<close>, \<^verbatim>\<open>flush.go\<close> and the averaging of \<^verbatim>\<open>cpu.go\<close>.

  Counters are 64-bit words that wrap. The atomics are plain fields: every method is one step, and the
  updates of a request commute. Rates are rational numbers, where the code divides \<^verbatim>\<open>float64\<close> values.
  What the runtime and \<^verbatim>\<open>/proc\<close> report is a parameter. A flush returns the samples it hands to the
  repository.
\<close>

section \<open>Samples and snapshots\<close>

text \<open>The classes are indices into the five counters.\<close>

definition Status2xx :: nat where "Status2xx = 0"
definition Status3xx :: nat where "Status3xx = 1"
definition Status4xx :: nat where "Status4xx = 2"
definition Status5xx :: nat where "Status5xx = 3"
definition StatusError :: nat where "StatusError = 4"

lemmas status_classes = Status2xx_def Status3xx_def Status4xx_def Status5xx_def StatusError_def

definition ClassifyStatus :: "int \<Rightarrow> nat" where
  "ClassifyStatus code =
     (if 200 \<le> code \<and> code < 300 then Status2xx
      else if 300 \<le> code \<and> code < 400 then Status3xx
      else if 400 \<le> code \<and> code < 500 then Status4xx
      else if 500 \<le> code then Status5xx else StatusError)"

record sample =
  sa_HostID :: int
  sa_Timestamp :: time
  sa_Requests :: "64 word"
  sa_Status :: "64 word list"
  sa_BytesIn :: "64 word"
  sa_BytesOut :: "64 word"
  sa_LatencySumMS :: "64 word"
  sa_LatencyMaxMS :: "64 word"

definition ratio :: "64 word \<Rightarrow> 64 word \<Rightarrow> rat" where
  "ratio a b = of_nat (unat a) / of_nat (unat b)"

definition Sample_MeanLatencyMS :: "sample \<Rightarrow> rat" where
  "Sample_MeanLatencyMS s = (if sa_Requests s = 0 then 0 else ratio (sa_LatencySumMS s) (sa_Requests s))"

record traffic_snapshot =
  ts_RequestsPerSec :: rat
  ts_BytesInPerSec :: rat
  ts_BytesOutPerSec :: rat
  ts_MeanLatencyMS :: rat
  ts_ErrorRate :: rat
  ts_ActiveConns :: int

definition no_traffic :: traffic_snapshot where
  "no_traffic = \<lparr>ts_RequestsPerSec = 0, ts_BytesInPerSec = 0, ts_BytesOutPerSec = 0, ts_MeanLatencyMS = 0, ts_ErrorRate = 0,
     ts_ActiveConns = 0\<rparr>"

record host_snapshot =
  hn_HostID :: int
  hn_Name :: string
  hn_Traffic :: traffic_snapshot
  hn_Upstreams :: "upstream_snapshot list"
  hn_LimitedRequests :: "64 word"
  hn_BlockedRequests :: "64 word"

record system_snapshot =
  sy_UptimeSeconds :: int
  sy_Goroutines :: int
  sy_HeapBytes :: "64 word"
  sy_CPUPercent :: rat
  sy_HostsEnabled :: nat
  sy_UpstreamsUp :: nat
  sy_UpstreamsTotal :: nat

record snapshot =
  sn_Timestamp :: time
  sn_Hosts :: "host_snapshot list"
  sn_Totals :: traffic_snapshot
  sn_System :: system_snapshot
  sn_ShareWindowSeconds :: int

section \<open>Counters\<close>

record totals =
  to_requests :: "64 word"
  to_status :: "64 word list"
  to_bytesIn :: "64 word"
  to_bytesOut :: "64 word"
  to_latSum :: "64 word"
  to_latMax :: "64 word"

definition zero_totals :: totals where
  "zero_totals = \<lparr>to_requests = 0, to_status = replicate 5 0, to_bytesIn = 0, to_bytesOut = 0, to_latSum = 0, to_latMax = 0\<rparr>"

record counters = totals +
  cn_active :: int
  cn_limited :: "64 word"
  cn_blocked :: "64 word"

definition counters_read :: "counters \<Rightarrow> totals" where
  "counters_read c = totals.truncate c"

definition totals_sub :: "totals \<Rightarrow> totals \<Rightarrow> totals" where
  "totals_sub t base =
     \<lparr>to_requests = to_requests t - to_requests base, to_status = map2 (-) (to_status t) (to_status base),
      to_bytesIn = to_bytesIn t - to_bytesIn base, to_bytesOut = to_bytesOut t - to_bytesOut base,
      to_latSum = to_latSum t - to_latSum base, to_latMax = to_latMax t\<rparr>"

record host_state =
  ms_counters :: counters
  ms_flushAt :: totals
  ms_liveAt :: totals
  ms_liveTime :: time
  ms_live :: traffic_snapshot

definition new_host_state :: "time \<Rightarrow> host_state" where
  "new_host_state now =
     \<lparr>ms_counters = totals.extend zero_totals \<lparr>cn_active = 0, cn_limited = 0, cn_blocked = 0\<rparr>,
      ms_flushAt = zero_totals, ms_liveAt = zero_totals, ms_liveTime = now, ms_live = no_traffic\<rparr>"

record shareKey =
  sk_hostID :: int
  sk_address :: string

record shareWindowState =
  wi_last :: "64 word"
  wi_primed :: bool
  wi_buckets :: "64 word list"
  wi_next :: nat
  wi_sum :: "64 word"
  wi_missed :: nat

record collector =
  co_startedAt :: time
  co_lastFlush :: time
  co_hosts :: "(int \<times> host_state) list"
  co_shares :: "(shareKey \<times> shareWindowState) list"
  co_totals :: traffic_snapshot

definition new_collector :: "time \<Rightarrow> collector" where
  "new_collector now = \<lparr>co_startedAt = now, co_lastFlush = 0, co_hosts = [], co_shares = [], co_totals = no_traffic\<rparr>"

definition LastFlush :: "collector \<Rightarrow> time option" where
  "LastFlush c = (if co_lastFlush c = 0 then None else Some (co_lastFlush c))"

text \<open>The state of a host, created on first sight, and an update of its counters.\<close>

definition collector_state :: "time \<Rightarrow> int \<Rightarrow> collector \<Rightarrow> host_state" where
  "collector_state now i c = (case map_of (co_hosts c) i of Some st \<Rightarrow> st | None \<Rightarrow> new_host_state now)"

definition with_counters :: "time \<Rightarrow> int \<Rightarrow> (counters \<Rightarrow> counters) \<Rightarrow> collector \<Rightarrow> collector" where
  "with_counters now i f c =
     c\<lparr>co_hosts := al_put i (ms_counters_update f (collector_state now i c)) (co_hosts c)\<rparr>"

definition storeMax :: "64 word \<Rightarrow> 64 word \<Rightarrow> 64 word" where
  "storeMax cur v = (if v \<le> cur then cur else v)"

definition result_class :: "mresult \<Rightarrow> nat" where
  "result_class r = (if mr_Failed r then StatusError else ClassifyStatus (mr_Status r))"

definition result_ms :: "mresult \<Rightarrow> 64 word" where
  "result_ms r = word_of_int (go_quot (mr_Duration r) 1000000)"

definition count_result :: "mresult \<Rightarrow> counters \<Rightarrow> counters" where
  "count_result r c =
     c\<lparr>to_requests := to_requests c + 1,
       to_status := (to_status c)[result_class r := to_status c ! result_class r + 1],
       to_bytesIn := (if mr_BytesIn r > 0 then to_bytesIn c + word_of_int (mr_BytesIn r) else to_bytesIn c),
       to_bytesOut := (if mr_BytesOut r > 0 then to_bytesOut c + word_of_int (mr_BytesOut r) else to_bytesOut c),
       to_latSum := to_latSum c + result_ms r,
       to_latMax := storeMax (to_latMax c) (result_ms r)\<rparr>"

definition Record :: "time \<Rightarrow> mresult \<Rightarrow> collector \<Rightarrow> collector" where
  "Record now r c = with_counters now (mr_HostID r) (count_result r) c"

definition RecordLimited :: "time \<Rightarrow> int \<Rightarrow> bool \<Rightarrow> collector \<Rightarrow> collector" where
  "RecordLimited now i blocked c =
     with_counters now i (\<lambda>k. k\<lparr>cn_limited := cn_limited k + 1, cn_blocked := (if blocked then cn_blocked k + 1 else cn_blocked k)\<rparr>) c"

definition RequestStarted :: "time \<Rightarrow> int \<Rightarrow> collector \<Rightarrow> collector" where
  "RequestStarted now i c = with_counters now i (\<lambda>k. k\<lparr>cn_active := cn_active k + 1\<rparr>) c"

definition RequestFinished :: "time \<Rightarrow> int \<Rightarrow> collector \<Rightarrow> collector" where
  "RequestFinished now i c = with_counters now i (\<lambda>k. k\<lparr>cn_active := cn_active k - 1\<rparr>) c"

definition Collector_Forget :: "int set \<Rightarrow> collector \<Rightarrow> collector" where
  "Collector_Forget keep c = c\<lparr>co_hosts := filter (\<lambda>p. fst p = UnmatchedHostID \<or> fst p \<in> keep) (co_hosts c)\<rparr>"

section \<open>Flushing\<close>

definition sample_of :: "int \<Rightarrow> time \<Rightarrow> totals \<Rightarrow> sample" where
  "sample_of i now delta =
     \<lparr>sa_HostID = i, sa_Timestamp = now, sa_Requests = to_requests delta, sa_Status = to_status delta,
      sa_BytesIn = to_bytesIn delta, sa_BytesOut = to_bytesOut delta, sa_LatencySumMS = to_latSum delta,
      sa_LatencyMaxMS = to_latMax delta\<rparr>"

fun flush_hosts :: "time \<Rightarrow> (int \<times> host_state) list \<Rightarrow> (int \<times> host_state) list \<times> sample list" where
  "flush_hosts now [] = ([], [])"
| "flush_hosts now ((i, st) # hs) =
     (let current = counters_read (ms_counters st);
          delta = totals_sub current (ms_flushAt st);
          (hs', samples) = flush_hosts now hs
      in ((i, st\<lparr>ms_flushAt := current\<rparr>) # hs',
          if to_requests delta = 0 then samples
          else sample_of i now delta # samples))"

text \<open>The time is truncated to the second; an empty list of samples is not written.\<close>

definition flush :: "time \<Rightarrow> collector \<Rightarrow> collector \<times> sample list" where
  "flush time c =
     (let now = time - time mod second; (hs, samples) = flush_hosts now (co_hosts c)
      in (c\<lparr>co_hosts := hs, co_lastFlush := now\<rparr>, samples))"

text \<open>The cutoff handed to the repository, \<^const>\<open>None\<close> when history is kept for ever.\<close>

definition prune_cutoff :: "time \<Rightarrow> duration \<Rightarrow> time option" where
  "prune_cutoff now retention = (if retention \<le> 0 then None else Some (now - retention))"

section \<open>Rates\<close>

definition per_second :: "64 word \<Rightarrow> rat \<Rightarrow> rat" where
  "per_second n elapsed = of_nat (unat n) / elapsed"

definition totals_errors :: "totals \<Rightarrow> 64 word" where
  "totals_errors d = to_status d ! Status5xx + to_status d ! StatusError"

definition rates :: "totals \<Rightarrow> rat \<Rightarrow> traffic_snapshot" where
  "rates d elapsed =
     (if elapsed \<le> 0 then no_traffic
      else
        let t = no_traffic\<lparr>ts_RequestsPerSec := per_second (to_requests d) elapsed,
              ts_BytesInPerSec := per_second (to_bytesIn d) elapsed, ts_BytesOutPerSec := per_second (to_bytesOut d) elapsed\<rparr>
        in if to_requests d > 0
           then t\<lparr>ts_MeanLatencyMS := ratio (to_latSum d) (to_requests d), ts_ErrorRate := ratio (totals_errors d) (to_requests d)\<rparr>
           else t)"

definition elapsed_seconds :: "duration \<Rightarrow> rat" where
  "elapsed_seconds d = of_int d / of_int second"

text \<open>One host of the sampler: its new state and what it adds to the combined figures.\<close>

definition sample_host :: "time \<Rightarrow> host_state \<Rightarrow> host_state \<times> totals" where
  "sample_host now st =
     (let current = counters_read (ms_counters st);
          delta = totals_sub current (ms_liveAt st);
          elapsed = elapsed_seconds (now - ms_liveTime st)
      in (st\<lparr>ms_liveAt := current, ms_liveTime := now, ms_live := (rates delta elapsed)\<lparr>ts_ActiveConns := cn_active (ms_counters st)\<rparr>\<rparr>,
          delta))"

fun combine_rates :: "traffic_snapshot \<Rightarrow> host_state list \<Rightarrow> traffic_snapshot" where
  "combine_rates t [] = t"
| "combine_rates t (st # sts) =
     combine_rates (t\<lparr>ts_RequestsPerSec := ts_RequestsPerSec t + ts_RequestsPerSec (ms_live st),
       ts_BytesInPerSec := ts_BytesInPerSec t + ts_BytesInPerSec (ms_live st),
       ts_BytesOutPerSec := ts_BytesOutPerSec t + ts_BytesOutPerSec (ms_live st),
       ts_ActiveConns := ts_ActiveConns t + ts_ActiveConns (ms_live st)\<rparr>) sts"

definition sampleRates :: "time \<Rightarrow> collector \<Rightarrow> collector" where
  "sampleRates now c =
     (let sampled = map (\<lambda>(i, st). (i, sample_host now st)) (co_hosts c);
          deltas = map (\<lambda>(i, st, d). d) sampled;
          requests = sum_list (map to_requests deltas);
          errors = sum_list (map totals_errors deltas);
          latency = sum_list (map (\<lambda>d. of_nat (unat (to_latSum d))) deltas);
          t = combine_rates no_traffic (map (\<lambda>(i, st, d). st) sampled);
          t = (if requests > 0
               then t\<lparr>ts_MeanLatencyMS := latency / of_nat (unat requests), ts_ErrorRate := ratio errors requests\<rparr> else t)
      in c\<lparr>co_hosts := map (\<lambda>(i, st, d). (i, st)) sampled, co_totals := t\<rparr>)"

section \<open>The share window\<close>

definition shareBuckets :: nat where "shareBuckets = 30"
definition shareWindow :: duration where "shareWindow = 30 * second"
definition staleTicks :: nat where "staleTicks = 3"

definition new_window :: shareWindowState where
  "new_window = \<lparr>wi_last = 0, wi_primed = False, wi_buckets = replicate shareBuckets 0, wi_next = 0, wi_sum = 0, wi_missed = 0\<rparr>"

definition put_bucket :: "64 word \<Rightarrow> shareWindowState \<Rightarrow> shareWindowState" where
  "put_bucket d w =
     w\<lparr>wi_sum := wi_sum w - wi_buckets w ! wi_next w + d, wi_buckets := (wi_buckets w)[wi_next w := d],
       wi_next := (wi_next w + 1) mod shareBuckets\<rparr>"

definition push :: "shareWindowState \<Rightarrow> 64 word \<Rightarrow> shareWindowState" where
  "push w tot =
     (let w = w\<lparr>wi_missed := 0\<rparr>
      in if \<not> wi_primed w then w\<lparr>wi_last := tot, wi_primed := True\<rparr>
         else
           let delta = (if tot \<ge> wi_last w then tot - wi_last w else tot)
           in put_bucket delta (w\<lparr>wi_last := tot\<rparr>))"

definition idle :: "shareWindowState \<Rightarrow> shareWindowState" where
  "idle w = put_bucket 0 (w\<lparr>wi_missed := wi_missed w + 1\<rparr>)"

record pool_info =
  pi_HostID :: int
  pi_Name :: string
  pi_Enabled :: bool
  pi_Upstreams :: "upstream_snapshot list"
  pi_Up :: nat
  pi_Total :: nat

definition readings :: "pool_info list \<Rightarrow> (shareKey \<times> 64 word) list" where
  "readings pools =
     concat (map (\<lambda>p. map (\<lambda>u. (\<lparr>sk_hostID = pi_HostID p, sk_address = us_Address u\<rparr>, us_TotalRequests u)) (pi_Upstreams p)) pools)"

definition push_reading :: "(shareKey \<times> shareWindowState) list \<Rightarrow> shareKey \<times> 64 word \<Rightarrow> (shareKey \<times> shareWindowState) list" where
  "push_reading m r =
     al_put (fst r) (push (case map_of m (fst r) of Some w \<Rightarrow> w | None \<Rightarrow> new_window) (snd r)) m"

definition sampleShares :: "pool_info list \<Rightarrow> collector \<Rightarrow> collector" where
  "sampleShares pools c =
     (let m = foldl push_reading (co_shares c) (readings pools);
          seen = map fst (readings pools);
          m = map (\<lambda>(k, w). (k, if k \<in> set seen then w else idle w)) m
      in c\<lparr>co_shares := filter (\<lambda>(k, w). k \<in> set seen \<or> \<not> (wi_missed w \<ge> staleTicks \<and> wi_sum w = 0)) m\<rparr>)"

definition applyShares :: "collector \<Rightarrow> int \<Rightarrow> upstream_snapshot list \<Rightarrow> upstream_snapshot list" where
  "applyShares c hostID ups =
     map (\<lambda>u. case map_of (co_shares c) \<lparr>sk_hostID = hostID, sk_address = us_Address u\<rparr> of
                Some w \<Rightarrow> u\<lparr>us_WindowRequests := wi_sum w\<rparr> | None \<Rightarrow> u) ups"

section \<open>Snapshots\<close>

definition synthetic :: "int \<Rightarrow> bool" where "synthetic i \<longleftrightarrow> i = UnmatchedHostID"

definition unmatchedName :: "int \<Rightarrow> string" where
  "unmatchedName i = (if i = UnmatchedHostID then ''(unmatched)'' else ''(deleted host)'')"

definition host_less :: "host_snapshot \<Rightarrow> host_snapshot \<Rightarrow> bool" where
  "host_less a b =
     (if synthetic (hn_HostID a) \<noteq> synthetic (hn_HostID b) then \<not> synthetic (hn_HostID a)
      else if hn_Name a \<noteq> hn_Name b then bytes_less (hn_Name a) (hn_Name b)
      else hn_HostID a < hn_HostID b)"

fun insert_host :: "host_snapshot \<Rightarrow> host_snapshot list \<Rightarrow> host_snapshot list" where
  "insert_host x [] = [x]"
| "insert_host x (y # ys) = (if host_less y x then y # insert_host x ys else x # y # ys)"

definition sort_hosts :: "host_snapshot list \<Rightarrow> host_snapshot list" where
  "sort_hosts xs = foldr insert_host xs []"

text \<open>What the runtime reports.\<close>

record runtime =
  rn_goroutines :: int
  rn_heap :: "64 word"
  rn_cpu :: rat

definition collector_system :: "runtime \<Rightarrow> time \<Rightarrow> pool_info list \<Rightarrow> collector \<Rightarrow> system_snapshot" where
  "collector_system rt now pools c =
     \<lparr>sy_UptimeSeconds = go_quot (now - co_startedAt c) second, sy_Goroutines = rn_goroutines rt, sy_HeapBytes = rn_heap rt,
      sy_CPUPercent = rn_cpu rt, sy_HostsEnabled = length (filter pi_Enabled pools),
      sy_UpstreamsUp = sum_list (map pi_Up pools), sy_UpstreamsTotal = sum_list (map pi_Total pools)\<rparr>"

text \<open>The last pool of a host wins in the map of pools by identifier.\<close>

definition Collector_Snapshot :: "runtime \<Rightarrow> time \<Rightarrow> pool_info list \<Rightarrow> collector \<Rightarrow> snapshot" where
  "Collector_Snapshot rt now pools c =
     (let pools' = map (\<lambda>p. p\<lparr>pi_Upstreams := applyShares c (pi_HostID p) (pi_Upstreams p)\<rparr>) pools;
          byID = map_of (rev (map (\<lambda>p. (pi_HostID p, p)) pools'));
          hosts = map (\<lambda>(i, st).
            \<lparr>hn_HostID = i,
             hn_Name = (case byID i of Some p \<Rightarrow> if pi_Name p = [] then unmatchedName i else pi_Name p | None \<Rightarrow> unmatchedName i),
             hn_Traffic = ms_live st, hn_Upstreams = (case byID i of Some p \<Rightarrow> pi_Upstreams p | None \<Rightarrow> []),
             hn_LimitedRequests = cn_limited (ms_counters st), hn_BlockedRequests = cn_blocked (ms_counters st)\<rparr>) (co_hosts c);
          quiet = filter (\<lambda>p. pi_HostID p \<notin> set (al_keys (co_hosts c))) pools'
      in \<lparr>sn_Timestamp = now,
          sn_Hosts = sort_hosts hosts @ map (\<lambda>p. \<lparr>hn_HostID = pi_HostID p, hn_Name = pi_Name p, hn_Traffic = no_traffic,
            hn_Upstreams = pi_Upstreams p, hn_LimitedRequests = 0, hn_BlockedRequests = 0\<rparr>) quiet,
          sn_Totals = co_totals c, sn_System = collector_system rt now pools c,
          sn_ShareWindowSeconds = go_quot shareWindow second\<rparr>)"

section \<open>The processor sampler\<close>

record cpuSampler =
  cs_lastTick :: rat
  cs_lastTime :: "time option"
  cs_lastVal :: rat

definition cpu_sample :: "rat option \<Rightarrow> time \<Rightarrow> cpuSampler \<Rightarrow> cpuSampler \<times> rat" where
  "cpu_sample ticks now s =
     (case ticks of
        None \<Rightarrow> (s, 0)
      | Some t \<Rightarrow>
          (case cs_lastTime s of
             None \<Rightarrow> (s\<lparr>cs_lastTick := t, cs_lastTime := Some now\<rparr>, 0)
           | Some l \<Rightarrow>
               let elapsed = elapsed_seconds (now - l)
               in if elapsed < 1/5 then (s, cs_lastVal s)
                  else let used = (t - cs_lastTick s) / 100; v = used / elapsed * 100
                       in (\<lparr>cs_lastTick = t, cs_lastTime = Some now, cs_lastVal = v\<rparr>, v)))"

section \<open>Conservation\<close>

datatype metric_event =
    MRecord time mresult
  | MLimited time int bool
  | MStarted time int
  | MFinished time int
  | MFlush time
  | MRates time
  | MShares "pool_info list"

text \<open>The collector with the samples written so far.\<close>

fun mexec :: "collector \<times> sample list \<Rightarrow> metric_event \<Rightarrow> collector \<times> sample list" where
  "mexec (c, out) (MRecord now r) = (Record now r c, out)"
| "mexec (c, out) (MLimited now i b) = (RecordLimited now i b c, out)"
| "mexec (c, out) (MStarted now i) = (RequestStarted now i c, out)"
| "mexec (c, out) (MFinished now i) = (RequestFinished now i c, out)"
| "mexec (c, out) (MFlush now) = (case flush now c of (c, samples) \<Rightarrow> (c, out @ samples))"
| "mexec (c, out) (MRates now) = (sampleRates now c, out)"
| "mexec (c, out) (MShares pools) = (sampleShares pools c, out)"

definition recorded :: "int \<Rightarrow> metric_event list \<Rightarrow> mresult list" where
  "recorded i es = [r. MRecord t r \<leftarrow> es, mr_HostID r = i]"

definition samples_of :: "int \<Rightarrow> sample list \<Rightarrow> sample list" where
  "samples_of i out = filter (\<lambda>s. sa_HostID s = i) out"

lemma recorded_simps [simp]:
  "recorded i [] = []"
  "recorded i (es @ [e]) = recorded i es @ (case e of MRecord t r \<Rightarrow> if mr_HostID r = i then [r] else [] | _ \<Rightarrow> [])"
  by (auto simp: recorded_def split: metric_event.splits)

lemma length_recorded: "length (recorded i es) \<le> length es"
  by (induction es rule: rev_induct) (auto split: metric_event.splits)

lemma samples_of_simps [simp]: "samples_of i [] = []" "samples_of i (xs @ ys) = samples_of i xs @ samples_of i ys"
  by (simp_all add: samples_of_def)

abbreviation five :: "totals \<Rightarrow> bool" where
  "five t \<equiv> length (to_status t) = 5"

definition state_ok :: "host_state \<Rightarrow> bool" where
  "state_ok st \<longleftrightarrow> five (counters_read (ms_counters st)) \<and> five (ms_flushAt st)"

lemma result_class_less [simp]: "result_class r < 5"
  by (simp add: result_class_def ClassifyStatus_def status_classes)

lemma read_simps [simp]:
  "to_requests (counters_read c) = to_requests c" "to_status (counters_read c) = to_status c"
  "to_bytesIn (counters_read c) = to_bytesIn c" "to_bytesOut (counters_read c) = to_bytesOut c"
  "to_latSum (counters_read c) = to_latSum c" "to_latMax (counters_read c) = to_latMax c"
  by (simp_all add: counters_read_def totals.defs)

lemma read_extended [simp]:
  "counters_read (c\<lparr>cn_active := a\<rparr>) = counters_read c" "counters_read (c\<lparr>cn_limited := l, cn_blocked := b\<rparr>) = counters_read c"
  by (simp_all add: counters_read_def totals.defs)

lemma new_host_state_simps [simp]:
  "counters_read (ms_counters (new_host_state now)) = zero_totals" "ms_flushAt (new_host_state now) = zero_totals"
  by (simp_all add: new_host_state_def counters_read_def totals.defs zero_totals_def)

lemma totals_sub_simps [simp]:
  "to_requests (totals_sub a b) = to_requests a - to_requests b"
  "length (to_status (totals_sub a b)) = min (length (to_status a)) (length (to_status b))"
  by (simp_all add: totals_sub_def)

lemma flush_hosts_spec:
  assumes "flush_hosts now hs = (hs', samples)" "distinct (al_keys hs)"
  shows "al_keys hs' = al_keys hs \<and>
    map_of hs' i = map_option (\<lambda>st. st\<lparr>ms_flushAt := counters_read (ms_counters st)\<rparr>) (map_of hs i) \<and>
    samples_of i samples =
      (case map_of hs i of
         None \<Rightarrow> []
       | Some st \<Rightarrow>
           let delta = totals_sub (counters_read (ms_counters st)) (ms_flushAt st)
           in if to_requests delta = 0 then [] else [sample_of i now delta])"
  using assms
proof (induction now hs arbitrary: hs' samples rule: flush_hosts.induct)
  case (2 now j st hs)
  obtain hs1 s1 where f: "flush_hosts now hs = (hs1, s1)" by fastforce
  have ih: "al_keys hs1 = al_keys hs \<and>
    map_of hs1 i = map_option (\<lambda>st. st\<lparr>ms_flushAt := counters_read (ms_counters st)\<rparr>) (map_of hs i) \<and>
    samples_of i s1 =
      (case map_of hs i of
         None \<Rightarrow> []
       | Some st \<Rightarrow>
           let delta = totals_sub (counters_read (ms_counters st)) (ms_flushAt st)
           in if to_requests delta = 0 then [] else [sample_of i now delta])"
    using "2.IH" [OF refl refl f] "2.prems"(2) by simp
  have n: "map_of hs j = None" using "2.prems"(2) by (simp add: map_of_eq_None_iff)
  show ?case
  proof (cases "j = i")
    case True
    with ih n "2.prems"(1) f show ?thesis by (auto simp: Let_def samples_of_def sample_of_def split: if_splits)
  next
    case False
    with ih "2.prems"(1) f show ?thesis by (auto simp: Let_def samples_of_def sample_of_def split: if_splits)
  qed
qed simp

text \<open>A figure of the counters that each request adds to.\<close>

locale additive_figure =
  fixes g :: "totals \<Rightarrow> 64 word" and sg :: "sample \<Rightarrow> 64 word" and f :: "mresult \<Rightarrow> 64 word"
  assumes zero: "g zero_totals = 0"
    and sub: "five a \<Longrightarrow> five b \<Longrightarrow> g (totals_sub a b) = g a - g b"
    and sampled: "sg (sample_of i now d) = g d"
    and counted: "five (counters_read c) \<Longrightarrow> g (counters_read (count_result r c)) = g (counters_read c) + f r"
begin

definition pending :: "host_state \<Rightarrow> mresult list \<Rightarrow> bool" where
  "pending st rs \<longleftrightarrow>
     g (counters_read (ms_counters st)) - g (ms_flushAt st) = sum_list (map f rs) \<and>
     to_requests (ms_counters st) - to_requests (ms_flushAt st) = of_nat (length rs)"

definition conserved :: "int \<Rightarrow> collector \<times> sample list \<Rightarrow> mresult list \<Rightarrow> bool" where
  "conserved i s rs \<longleftrightarrow>
     (case s of (c, out) \<Rightarrow>
        distinct (al_keys (co_hosts c)) \<and> (\<forall>st \<in> snd ` set (co_hosts c). state_ok st) \<and>
        (\<exists>fin pend. rs = fin @ pend \<and> sum_list (map sg (samples_of i out)) = sum_list (map f fin) \<and>
           (case map_of (co_hosts c) i of Some st \<Rightarrow> pending st pend | None \<Rightarrow> pend = [])))"

lemma conservedI:
  "distinct (al_keys (co_hosts c)) \<Longrightarrow> \<forall>st \<in> snd ` set (co_hosts c). state_ok st \<Longrightarrow> rs = fin @ pend \<Longrightarrow>
   sum_list (map sg (samples_of i out)) = sum_list (map f fin) \<Longrightarrow>
   case map_of (co_hosts c) i of Some st \<Rightarrow> pending st pend | None \<Rightarrow> pend = [] \<Longrightarrow> conserved i (c, out) rs"
  unfolding conserved_def by auto

lemma pending_new: "pending (new_host_state now) []" "state_ok (new_host_state now)"
  by (simp_all add: pending_def state_ok_def) (simp_all add: new_host_state_def totals.defs zero_totals_def)

lemma conserved_update:
  assumes "conserved i (c, out) rs" "state_ok (collector_state now j c) \<Longrightarrow> state_ok st'"
    "\<And>pend. j = i \<Longrightarrow> state_ok (collector_state now j c) \<Longrightarrow> pending (collector_state now j c) pend \<Longrightarrow> pending st' (pend @ extra)"
    "j \<noteq> i \<Longrightarrow> extra = []"
  shows "conserved i (c\<lparr>co_hosts := al_put j st' (co_hosts c)\<rparr>, out) (rs @ extra)"
proof -
  obtain fin pend where c: "distinct (al_keys (co_hosts c))" "\<forall>st \<in> snd ` set (co_hosts c). state_ok st" "rs = fin @ pend"
    "sum_list (map sg (samples_of i out)) = sum_list (map f fin)"
    "case map_of (co_hosts c) i of Some st \<Rightarrow> pending st pend | None \<Rightarrow> pend = []"
    using assms(1) by (auto simp: conserved_def)
  have ok: "state_ok (collector_state now j c)"
    using c(2) pending_new(2) by (force simp: collector_state_def split: option.splits dest: map_of_SomeD)
  have "snd ` set (al_put j st' m) \<subseteq> insert st' (snd ` set m)" for m by (induction j st' m rule: al_put.induct) auto
  then have "\<forall>st \<in> snd ` set (al_put j st' (co_hosts c)). state_ok st" using c(2) assms(2) [OF ok] by blast
  moreover have "case map_of (al_put j st' (co_hosts c)) i of Some st \<Rightarrow> pending st (pend @ extra) | None \<Rightarrow> pend @ extra = []"
  proof (cases "j = i")
    case True
    then have "pending (collector_state now j c) pend"
      using c(5) pending_new(1) by (auto simp: collector_state_def split: option.splits)
    with assms(3) [OF True ok] True show ?thesis by simp
  next
    case False
    with c(5) show ?thesis by (cases "map_of (co_hosts c) i") (simp_all add: assms(4) [OF False])
  qed
  ultimately show ?thesis using c(1,3,4) by (intro conservedI [of _ _ fin "pend @ extra"]) (auto intro: go_inv)
qed

lemma conserved_counters:
  assumes "conserved i (c, out) rs" "\<And>k. counters_read (h k) = counters_read k"
  shows "conserved i (with_counters now j h c, out) rs"
proof -
  have t: "to_requests (h k) = to_requests k" for k using arg_cong [OF assms(2), of to_requests k] by simp
  show ?thesis
    using conserved_update [OF assms(1), of now j "ms_counters_update h (collector_state now j c)" "[]"] assms(2) t
    by (simp add: with_counters_def state_ok_def pending_def)
qed

lemma conserved_Record:
  assumes "conserved i (c, out) rs"
  shows "conserved i (Record now r c, out) (rs @ (if mr_HostID r = i then [r] else []))"
  unfolding Record_def with_counters_def
proof (rule conserved_update [OF assms])
  let ?st = "collector_state now (mr_HostID r) c"
  assume "state_ok ?st"
  then show "state_ok (ms_counters_update (count_result r) ?st)" by (simp add: state_ok_def count_result_def)
next
  let ?st = "collector_state now (mr_HostID r) c"
  fix pend
  assume a: "mr_HostID r = i" "state_ok ?st" "pending ?st pend"
  then have "five (counters_read (ms_counters ?st))" by (simp add: state_ok_def)
  from counted [OF this, of r] a show "pending (ms_counters_update (count_result r) ?st) (pend @ (if mr_HostID r = i then [r] else []))"
    by (simp add: pending_def count_result_def algebra_simps)
qed simp

lemma conserved_flush:
  assumes "conserved i (c, out) rs" "flush now c = (c', samples)" "length rs < 2 ^ 64"
  shows "conserved i (c', out @ samples) rs \<and> sum_list (map sg (samples_of i (out @ samples))) = sum_list (map f rs)"
proof -
  obtain fin pend where c: "distinct (al_keys (co_hosts c))" "\<forall>st \<in> snd ` set (co_hosts c). state_ok st" "rs = fin @ pend"
    "sum_list (map sg (samples_of i out)) = sum_list (map f fin)"
    "case map_of (co_hosts c) i of Some st \<Rightarrow> pending st pend | None \<Rightarrow> pend = []"
    using assms(1) by (auto simp: conserved_def)
  obtain hs t where fl: "flush_hosts t (co_hosts c) = (hs, samples)" "co_hosts c' = hs"
    using assms(2) by (auto simp: flush_def Let_def split: prod.splits)
  note spec = flush_hosts_spec [OF fl(1) c(1)]
  have sums: "sum_list (map sg (samples_of i samples)) = sum_list (map f pend)"
  proof (cases "map_of (co_hosts c) i")
    case None
    with c(5) spec [of i] show ?thesis by simp
  next
    case (Some st)
    then have ok: "state_ok st" using c(2) by (force dest: map_of_SomeD)
    have pe: "pending st pend" using c(5) Some by simp
    let ?d = "totals_sub (counters_read (ms_counters st)) (ms_flushAt st)"
    have g: "g ?d = sum_list (map f pend)" using sub ok pe by (simp add: state_ok_def pending_def)
    have rq: "to_requests ?d = of_nat (length pend)" using pe by (simp add: pending_def)
    show ?thesis
    proof (cases "to_requests ?d = 0")
      case True
      have "length pend < 2 ^ 64" using assms(3) c(3) by simp
      then have "unat (of_nat (length pend) :: 64 word) = length pend" by (simp add: unat_of_nat)
      with True rq have "pend = []" by (metis length_0_conv unat_0)
      with True Some spec [of i] show ?thesis by (simp add: Let_def)
    next
      case False
      with g Some spec [of i] sampled show ?thesis by (simp add: Let_def)
    qed
  qed
  have ok: "state_ok st" if m: "(j, st) \<in> set hs" for j st
  proof -
    have "distinct (al_keys hs)" using spec c(1) by metis
    with m have "map_of hs j = Some st" by simp
    then obtain st0 where "map_of (co_hosts c) j = Some st0" "st = st0\<lparr>ms_flushAt := counters_read (ms_counters st0)\<rparr>"
      using spec [of j] by (cases "map_of (co_hosts c) j") auto
    with c(2) show ?thesis by (force simp: state_ok_def dest: map_of_SomeD)
  qed
  have pn: "case map_of (co_hosts c') i of Some st \<Rightarrow> pending st [] | None \<Rightarrow> [] = ([] :: mresult list)"
    using spec [of i] fl(2) by (cases "map_of (co_hosts c) i") (auto simp: pending_def)
  have "distinct (al_keys (co_hosts c'))" using spec c(1) fl(2) by metis
  moreover have sm: "sum_list (map sg (samples_of i (out @ samples))) = sum_list (map f rs)" using sums c(3,4) by simp
  ultimately have "conserved i (c', out @ samples) rs" using ok pn fl(2) by (intro conservedI [of _ rs rs "[]"]) auto
  then show ?thesis using sm by simp
qed

lemma conserved_same_reads:
  assumes "conserved i (c, out) rs" "co_hosts c' = map (\<lambda>(j, st). (j, h st)) (co_hosts c)"
    "\<And>st. ms_counters (h st) = ms_counters st" "\<And>st. ms_flushAt (h st) = ms_flushAt st"
  shows "conserved i (c', out) rs"
proof -
  obtain fin pend where c: "distinct (al_keys (co_hosts c))" "\<forall>st \<in> snd ` set (co_hosts c). state_ok st" "rs = fin @ pend"
    "sum_list (map sg (samples_of i out)) = sum_list (map f fin)"
    "case map_of (co_hosts c) i of Some st \<Rightarrow> pending st pend | None \<Rightarrow> pend = []"
    using assms(1) by (auto simp: conserved_def)
  have k: "al_keys (co_hosts c') = al_keys (co_hosts c)" using assms(2) by (simp add: comp_def case_prod_unfold)
  have m: "map_of (co_hosts c') i = map_option h (map_of (co_hosts c) i)" by (simp add: assms(2) map_of_map)
  have "\<forall>st \<in> snd ` set (co_hosts c'). state_ok st" using c(2) assms(2-4) by (force simp: state_ok_def)
  moreover have "case map_of (co_hosts c') i of Some st \<Rightarrow> pending st pend | None \<Rightarrow> pend = []"
    using c(5) assms(3,4) m by (cases "map_of (co_hosts c) i") (simp_all add: pending_def)
  ultimately show ?thesis using c(1,3,4) k by (intro conservedI [of c' rs fin pend]) simp_all
qed

lemma conserved_exec:
  assumes "length es < 2 ^ 64"
  shows "conserved i (foldl mexec (new_collector t0, []) es) (recorded i es)"
  using assms
proof (induction es rule: rev_induct)
  case Nil
  then show ?case by (simp add: conserved_def new_collector_def)
next
  case (snoc e es)
  obtain c out where c: "foldl mexec (new_collector t0, []) es = (c, out)" by fastforce
  with snoc have ih: "conserved i (c, out) (recorded i es)" by simp
  have "length (recorded i es) < 2 ^ 64" using length_recorded [of i es] snoc.prems by simp
  note fl = conserved_flush [OF ih _ this]
  show ?case
  proof (cases e)
    case (MRecord now r)
    with c conserved_Record [OF ih, of now r] show ?thesis by simp
  next
    case (MFlush now)
    obtain c1 s where "flush now c = (c1, s)" by fastforce
    with fl [OF this] c MFlush show ?thesis by simp
  next
    case (MRates now)
    have "conserved i (sampleRates now c, out) (recorded i es)"
      by (rule conserved_same_reads [OF ih, of _ "\<lambda>st. fst (sample_host now st)"])
        (simp_all add: sampleRates_def sample_host_def Let_def case_prod_unfold comp_def)
    with c MRates show ?thesis by simp
  next
    case (MShares pools)
    have "conserved i (sampleShares pools c, out) (recorded i es)"
      by (rule conserved_same_reads [OF ih, of _ "\<lambda>st. st"]) (simp_all add: sampleShares_def Let_def)
    with c MShares show ?thesis by simp
  qed (use c conserved_counters [OF ih] in \<open>simp_all add: RecordLimited_def RequestStarted_def RequestFinished_def\<close>)
qed

lemma flushed_total:
  assumes "length es < 2 ^ 64" "foldl mexec (new_collector t0, []) (es @ [MFlush t]) = (c, out)"
  shows "sum_list (map sg (samples_of i out)) = sum_list (map f (recorded i es))"
proof -
  obtain c0 out0 where c0: "foldl mexec (new_collector t0, []) es = (c0, out0)" by fastforce
  obtain c1 s where "flush t c0 = (c1, s)" by fastforce
  moreover have "length (recorded i es) < 2 ^ 64" using length_recorded [of i es] assms(1) by simp
  ultimately show ?thesis using conserved_flush conserved_exec [OF assms(1), of i t0] c0 assms(2) by auto
qed

end

interpretation fig_requests: additive_figure to_requests sa_Requests "\<lambda>_. 1"
  by unfold_locales (simp_all add: zero_totals_def sample_of_def count_result_def)

interpretation fig_bytesIn: additive_figure to_bytesIn sa_BytesIn "\<lambda>r. if mr_BytesIn r > 0 then word_of_int (mr_BytesIn r) else 0"
  by unfold_locales (simp_all add: zero_totals_def sample_of_def count_result_def totals_sub_def)

interpretation fig_bytesOut: additive_figure to_bytesOut sa_BytesOut "\<lambda>r. if mr_BytesOut r > 0 then word_of_int (mr_BytesOut r) else 0"
  by unfold_locales (simp_all add: zero_totals_def sample_of_def count_result_def totals_sub_def)

interpretation fig_latency: additive_figure to_latSum sa_LatencySumMS result_ms
  by unfold_locales (simp_all add: zero_totals_def sample_of_def count_result_def totals_sub_def)

lemma fig_class: "k < 5 \<Longrightarrow> additive_figure (\<lambda>t. to_status t ! k) (\<lambda>s. sa_Status s ! k) (\<lambda>r. if result_class r = k then 1 else 0)"
  by unfold_locales (auto simp: zero_totals_def sample_of_def count_result_def totals_sub_def nth_list_update)


definition ex_result :: "int \<Rightarrow> int \<Rightarrow> mresult" where
  "ex_result i st = \<lparr>mr_HostID = i, mr_Status = st, mr_BytesIn = 100, mr_BytesOut = 2000, mr_Duration = 5000000, mr_Failed = False\<rparr>"


section \<open>The window slides\<close>

text \<open>What each reading after the first contributes.\<close>

fun deltas :: "64 word \<Rightarrow> 64 word list \<Rightarrow> 64 word list" where
  "deltas prev [] = []"
| "deltas prev (t # ts) = (if t \<ge> prev then t - prev else t) # deltas t ts"

definition last_n :: "nat \<Rightarrow> 'a list \<Rightarrow> 'a list" where
  "last_n n xs = drop (length xs - n) xs"

text \<open>The buckets, read from the next one on, are the most recent contributions, oldest first.\<close>

definition window_holds :: "shareWindowState \<Rightarrow> 64 word list \<Rightarrow> bool" where
  "window_holds w ds \<longleftrightarrow>
     wi_primed w \<and> length (wi_buckets w) = shareBuckets \<and> wi_next w < shareBuckets \<and>
     rotate (wi_next w) (wi_buckets w) = last_n shareBuckets (replicate shareBuckets 0 @ ds) \<and>
     wi_sum w = sum_list (last_n shareBuckets ds)"

lemma rotate_update:
  assumes "n < length xs"
  shows "rotate (Suc n) (xs[n := d]) = tl (rotate n xs) @ [d]"
proof -
  have "xs = take n xs @ xs ! n # drop (Suc n) xs" using assms by (rule id_take_nth_drop)
  then obtain as x bs where xs: "xs = as @ x # bs" "n = length as" using assms by (metis length_take min.absorb4)
  then show ?thesis by (simp add: rotate_append flip: append_Cons) (simp add: rotate_drop_take)
qed

lemma tl_last_n: "length xs \<ge> n \<Longrightarrow> n > 0 \<Longrightarrow> last_n n (xs @ [d]) = tl (last_n n xs) @ [d]"
  by (cases "length xs = n") (simp_all add: last_n_def Suc_diff_le drop_Suc tl_drop)

lemma put_bucket_holds:
  assumes "window_holds w ds"
  shows "window_holds (put_bucket d w) (ds @ [d])"
proof -
  let ?B = "shareBuckets" and ?z = "replicate shareBuckets 0 :: 64 word list"
  have w: "wi_primed w" "length (wi_buckets w) = ?B" "wi_next w < ?B" "wi_sum w = sum_list (last_n ?B ds)"
    "rotate (wi_next w) (wi_buckets w) = last_n ?B (?z @ ds)"
    using assms by (simp_all add: window_holds_def)
  have "rotate ((wi_next w + 1) mod ?B) ((wi_buckets w)[wi_next w := d]) = rotate (Suc (wi_next w)) ((wi_buckets w)[wi_next w := d])"
    using w(2) rotate_conv_mod [of "Suc (wi_next w)" "(wi_buckets w)[wi_next w := d]"] by simp
  also have "\<dots> = tl (last_n ?B (?z @ ds)) @ [d]" using rotate_update w(2,3,5) by metis
  also have "\<dots> = last_n ?B (?z @ ds @ [d])" using tl_last_n [of ?B "?z @ ds" d] by (simp add: shareBuckets_def)
  finally have r: "rotate ((wi_next w + 1) mod ?B) ((wi_buckets w)[wi_next w := d]) = last_n ?B (?z @ ds @ [d])" .
  have nz: "last_n ?B (?z @ ds) \<noteq> []" using w(2,3,5) by (metis length_rotate length_0_conv less_nat_zero_code)
  have hd: "wi_buckets w ! wi_next w = hd (last_n ?B (?z @ ds))"
    using w(2,3,5) by (metis hd_rotate_conv_nth length_0_conv less_nat_zero_code mod_less)
  have pad: "sum_list (last_n ?B xs) = sum_list (last_n ?B (?z @ xs))" for xs :: "64 word list"
    by (cases "length xs \<le> ?B") (simp_all add: last_n_def sum_list_replicate)
  have "sum_list (last_n ?B (?z @ ds)) - hd (last_n ?B (?z @ ds)) + d = sum_list (tl (last_n ?B (?z @ ds)) @ [d])"
    using nz by (cases "last_n ?B (?z @ ds)") simp_all
  also have "\<dots> = sum_list (last_n ?B (?z @ ds @ [d]))" using tl_last_n [of ?B "?z @ ds" d] by (simp add: shareBuckets_def)
  finally have "wi_sum w - wi_buckets w ! wi_next w + d = sum_list (last_n ?B (ds @ [d]))"
    using w(4) hd pad [of ds] pad [of "ds @ [d]"] by simp
  with w(1,2) r show ?thesis by (simp add: window_holds_def put_bucket_def shareBuckets_def)
qed

lemma pushes_hold:
  assumes "window_holds w ds"
  shows "window_holds (foldl push w ts) (ds @ deltas (wi_last w) ts)"
  using assms
proof (induction ts arbitrary: w ds)
  case (Cons t ts)
  let ?d = "if t \<ge> wi_last w then t - wi_last w else t"
  have "window_holds (w\<lparr>wi_missed := 0, wi_last := t\<rparr>) ds" using Cons.prems by (simp add: window_holds_def)
  moreover have "push w t = put_bucket ?d (w\<lparr>wi_missed := 0, wi_last := t\<rparr>)"
    using Cons.prems by (simp add: push_def window_holds_def Let_def)
  ultimately have "window_holds (push w t) (ds @ [?d])" using put_bucket_holds by metis
  moreover have "wi_last (push w t) = t" by (simp add: push_def put_bucket_def Let_def)
  ultimately show ?case using Cons.IH [of "push w t" "ds @ [?d]"] by simp
qed simp

lemma window_sum: "wi_sum (foldl push new_window (t # ts)) = sum_list (last_n shareBuckets (deltas t ts))"
proof -
  have "window_holds (push new_window t) []"
    by (simp add: window_holds_def push_def new_window_def last_n_def shareBuckets_def Let_def)
  moreover have "wi_last (push new_window t) = t" by (simp add: push_def new_window_def Let_def)
  ultimately show ?thesis using pushes_hold [of "push new_window t" "[]" ts] by (simp add: window_holds_def)
qed

lemma drop_deltas: "j \<le> length ts \<Longrightarrow> drop j (deltas t ts) = deltas ((t # ts) ! j) (drop j ts)"
proof (induction ts arbitrary: t j)
  case (Cons u us)
  then show ?case by (cases j) simp_all
qed simp

lemma sum_deltas: "sorted (t # ts) \<Longrightarrow> sum_list (deltas t ts) = last (t # ts) - t"
  by (induction ts arbitrary: t) auto

lemma length_deltas [simp]: "length (deltas t ts) = length ts"
  by (induction ts arbitrary: t) simp_all

text \<open>The readings of one backend in a tick, and what a series of ticks leaves of it.\<close>

definition readings_of :: "shareKey \<Rightarrow> pool_info list \<Rightarrow> 64 word list" where
  "readings_of k pools = map snd (filter (\<lambda>r. fst r = k) (readings pools))"

lemma push_readings:
  "map_of (foldl push_reading m rs) k =
     (case map snd (filter (\<lambda>r. fst r = k) rs) of
        [] \<Rightarrow> map_of m k
      | v # vs \<Rightarrow> Some (foldl push (case map_of m k of Some w \<Rightarrow> w | None \<Rightarrow> new_window) (v # vs)))"
proof (induction rs arbitrary: m)
  case (Cons r rs)
  show ?case
  proof (cases "fst r = k")
    case True
    with Cons [of "push_reading m r"] show ?thesis
      by (cases "map snd (filter (\<lambda>r. fst r = k) rs)") (auto simp: push_reading_def)
  next
    case False
    then have eq: "map_of (push_reading m r) k = map_of m k" by (simp add: push_reading_def)
    show ?thesis using Cons [of "push_reading m r"] False unfolding eq by simp
  qed
qed simp

lemma map_of_map_keyed: "map_of (map (\<lambda>(k, v). (k, h k v)) m) k = map_option (h k) (map_of m k)"
  by (induction m) auto

lemma map_of_filter_keep:
  "\<forall>v. P (k, v) \<Longrightarrow> map_of (filter P m) k = map_of m k"
  by (induction m) auto

lemma sampleShares_spec:
  assumes "readings_of k pools = v # vs"
  shows "map_of (co_shares (sampleShares pools c)) k =
    Some (foldl push (case map_of (co_shares c) k of Some w \<Rightarrow> w | None \<Rightarrow> new_window) (v # vs))"
proof -
  let ?m = "foldl push_reading (co_shares c) (readings pools)" and ?K = "set (map fst (readings pools))"
  have k: "k \<in> ?K"
  proof -
    have "filter (\<lambda>r. fst r = k) (readings pools) \<noteq> []" using assms by (auto simp: readings_of_def)
    then show ?thesis by (metis (mono_tags, lifting) filter_False image_eqI list.set_map)
  qed
  have "map_of (co_shares (sampleShares pools c)) k = map_of (map (\<lambda>(k, w). (k, if k \<in> ?K then w else idle w)) ?m) k"
    unfolding sampleShares_def Let_def using k by (simp add: map_of_filter_keep)
  also have "\<dots> = map_of ?m k" using k by (simp add: map_of_map_keyed option.map_ident)
  finally show ?thesis using push_readings [of "co_shares c" "readings pools" k] assms by (simp add: readings_of_def)
qed

lemma ticks_spec:
  assumes "ticks \<noteq> []" "\<forall>p \<in> set ticks. readings_of k p \<noteq> []"
  shows "map_of (co_shares (foldl (\<lambda>c p. sampleShares p c) (new_collector t0) ticks)) k =
    Some (foldl push new_window (concat (map (readings_of k) ticks)))"
  using assms
proof (induction ticks rule: rev_induct)
  case (snoc p ticks)
  obtain v vs where p: "readings_of k p = v # vs" using snoc.prems(2) by (cases "readings_of k p") auto
  show ?case
  proof (cases "ticks = []")
    case True
    then show ?thesis using sampleShares_spec [OF p] p by (simp add: new_collector_def)
  next
    case False
    with snoc show ?thesis using sampleShares_spec [OF p] p by simp
  qed
qed simp

text \<open>The share window slides: sampled once a tick, a backend whose address is its own within the host
  shows exactly the requests it served in the last thirty ticks, or since it was first seen.\<close>

theorem share_window_slides:
  assumes "map (readings_of k) ticks = map (\<lambda>t. [t]) ts" "ts \<noteq> []" "sorted ts"
  shows "map_option wi_sum (map_of (co_shares (foldl (\<lambda>c p. sampleShares p c) (new_collector t0) ticks)) k) =
    Some (last ts - ts ! (length ts - Suc shareBuckets))"
proof -
  obtain t us where ts: "ts = t # us" using assms(2) by (cases ts) auto
  have "ticks \<noteq> []" using assms(1,2) by auto
  moreover have "\<forall>p \<in> set ticks. readings_of k p \<noteq> []"
  proof
    fix p assume "p \<in> set ticks"
    then have "readings_of k p \<in> set (map (\<lambda>t. [t]) ts)" unfolding assms(1) [symmetric] by simp
    then show "readings_of k p \<noteq> []" by auto
  qed
  moreover have "concat (map (readings_of k) ticks) = ts" unfolding assms(1) by (induction ts) simp_all
  ultimately have "map_of (co_shares (foldl (\<lambda>c p. sampleShares p c) (new_collector t0) ticks)) k = Some (foldl push new_window ts)"
    using ticks_spec by simp
  moreover have "sum_list (last_n shareBuckets (deltas t us)) = last ts - ts ! (length ts - Suc shareBuckets)"
  proof -
    let ?j = "length us - shareBuckets"
    have so: "sorted (drop ?j ts)" using assms(3) by (rule sorted_wrt_drop)
    have d: "drop ?j ts = ts ! ?j # drop ?j us"
      unfolding ts by (metis Cons_nth_drop_Suc diff_less_Suc drop_Suc_Cons length_Cons)
    have l: "last (ts ! ?j # drop ?j us) = last ts" using d ts by (metis diff_less_Suc last_drop length_Cons)
    have "last_n shareBuckets (deltas t us) = deltas (ts ! ?j) (drop ?j us)"
      using drop_deltas [of ?j us t] by (simp add: last_n_def ts)
    then show ?thesis using sum_deltas [of "ts ! ?j" "drop ?j us"] so d l by (simp add: ts)
  qed
  ultimately show ?thesis using window_sum [of t us] ts by simp
qed

text \<open>An address shared by a host and one of its locations shows traffic that never was: the two backends
  have one window, which takes their totals for one that keeps jumping. Without a single request, it
  shows fifteen times the larger total, for ever.\<close>

theorem shared_address_phantom:
  assumes "\<forall>p \<in> set ticks. readings_of k p = [a, b]" "b < a" "length ticks \<ge> 16"
  shows "map_option wi_sum (map_of (co_shares (foldl (\<lambda>c p. sampleShares p c) (new_collector t0) ticks)) k) = Some (15 * a)"
proof -
  define m where "m = length ticks - 16"
  have n: "length ticks = Suc (m + 15)" using assms(3) by (simp add: m_def)
  have "ticks \<noteq> []" "\<forall>p \<in> set ticks. readings_of k p \<noteq> []" using assms(1,3) by auto
  moreover have "concat (map (readings_of k) ticks) = concat (replicate (length ticks) [a, b])"
    using assms(1) by (induction ticks) simp_all
  moreover have "concat (replicate (length ticks) [a, b]) = a # b # concat (replicate (m + 15) [a, b])"
    unfolding n replicate_Suc by simp
  ultimately have w: "map_of (co_shares (foldl (\<lambda>c p. sampleShares p c) (new_collector t0) ticks)) k =
      Some (foldl push new_window (a # b # concat (replicate (m + 15) [a, b])))"
    using ticks_spec [of ticks k t0] by simp
  have d: "deltas b (concat (replicate j [a, b])) = concat (replicate j [a - b, b])" for j
    using assms(2) by (induction j) auto
  have len: "length (concat (replicate j [x, y])) = 2 * j" for j and x y :: "64 word" by (induction j) simp_all
  have sum: "sum_list (concat (replicate j [a - b, b])) = of_nat j * a" for j by (induction j) (simp_all add: algebra_simps)
  have "last_n shareBuckets (deltas a (b # concat (replicate (m + 15) [a, b]))) = concat (replicate 15 [a - b, b])"
    using assms(2) d [of "m + 15"] len [of m "a - b" b] len [of 15 "a - b" b]
    by (simp add: last_n_def shareBuckets_def replicate_add)
  then show ?thesis using w window_sum [of a "b # concat (replicate (m + 15) [a, b])"] sum [of 15] by simp
qed

definition ex_pools :: "64 word list \<Rightarrow> pool_info list" where
  "ex_pools totals =
     [\<lparr>pi_HostID = 1, pi_Name = ''site'', pi_Enabled = True,
       pi_Upstreams = map (\<lambda>t. (Backend_Snapshot (NewBackend (\<lambda>_. 0) (ex_upstream ''10.0.0.5:80'' 1)) 0)\<lparr>us_TotalRequests := t\<rparr>) totals,
       pi_Up = 1, pi_Total = 1\<rparr>]"

definition ex_share :: shareKey where
  "ex_share = \<lparr>sk_hostID = 1, sk_address = us_Address (Backend_Snapshot (NewBackend (\<lambda>_. 0) (ex_upstream ''10.0.0.5:80'' 1)) 0)\<rparr>"

lemma ex_readings: "readings_of ex_share (ex_pools ts) = ts"
  by (simp add: readings_of_def readings_def ex_pools_def ex_share_def Backend_Snapshot_def Let_def comp_def filter_map split: prod.splits)

theorem share_window_slides_witness:
  "map_option wi_sum (map_of (co_shares (foldl (\<lambda>c p. sampleShares p c) (new_collector 0) (map (\<lambda>t. ex_pools [t]) [7, 9, 12]))) ex_share) = Some 5"
proof -
  have "map (readings_of ex_share) (map (\<lambda>t. ex_pools [t]) [7, 9, 12]) = map (\<lambda>t. [t]) [7, 9, 12]" by (simp add: ex_readings)
  from share_window_slides [OF this, of 0] show ?thesis by (simp add: shareBuckets_def)
qed

theorem shared_address_phantom_witness:
  "map_option wi_sum (map_of (co_shares (foldl (\<lambda>c p. sampleShares p c) (new_collector 0) (replicate 20 (ex_pools [100, 40])))) ex_share)
     = Some 1500"
  using shared_address_phantom [of "replicate 20 (ex_pools [100, 40])" ex_share 100 40 0] by (simp add: ex_readings)

end
