(* ===== verification/Proxy_Engine.thy ===== *)
theory Proxy_Engine
  imports Metrics Health_Checker
begin

text \<open>
  The life of the data plane: \<^verbatim>\<open>NewEngine\<close>, \<^verbatim>\<open>Reload\<close>, \<^verbatim>\<open>MetricsPools\<close> and the small accessors of
  \<^verbatim>\<open>internal/proxy/engine.go\<close>, with the health checker and the collector the engine was given. A pool is
  allocated by every call of \<^verbatim>\<open>NewPool\<close>; the counter \<open>dp_pools\<close> is the next address. The transports, TLS
  configuration and the certificate resolver are the standard library's.
\<close>

record data_plane =
  dp_engine :: engine
  dp_health :: "checker option"
  dp_collector :: "collector option"
  dp_pools :: nat

definition NewEngine :: "options \<Rightarrow> checker option \<Rightarrow> collector option \<Rightarrow> data_plane" where
  "NewEngine opts health collector =
     \<lparr>dp_engine =
        \<lparr>en_opts = (if op_MaxRetries opts \<le> 0 then opts\<lparr>op_MaxRetries := 2\<rparr> else opts), en_store = (\<lambda>_. undefined, 0),
         en_table = empty_table, en_auth = newAuthCache, en_caches = NewStore, en_limiter = New, en_httpsPort = [], en_results = [],
         en_limited = [], en_active = (\<lambda>_. 0), en_access = [], en_sent = [], en_ejections = []\<rparr>,
      dp_health = health, dp_collector = collector, dp_pools = 0\<rparr>"

definition SetHTTPSPort :: "string \<Rightarrow> data_plane \<Rightarrow> data_plane" where
  "SetHTTPSPort port dp = dp\<lparr>dp_engine := (dp_engine dp)\<lparr>en_httpsPort := port\<rparr>\<rparr>"

section \<open>Reloading\<close>

fun location_targets :: "nat \<Rightarrow> host \<Rightarrow> route_location list \<Rightarrow> target list" where
  "location_targets n hst [] = []"
| "location_targets n hst (l # ls) =
     \<lparr>tg_HostID = h_ID hst, tg_Name = h_Name hst @ '' '' @ lc_Path (rl_config l), tg_Pool = rl_pool l, tg_Addr = n,
      tg_Check = h_HealthCheck hst, tg_Location = lc_Path (rl_config l)\<rparr> # location_targets (Suc n) hst ls"

fun health_targets :: "nat \<Rightarrow> route list \<Rightarrow> target list" where
  "health_targets n [] = []"
| "health_targets n (r # rs) =
     (if \<not> h_Enabled (rt_host r) then []
      else \<lparr>tg_HostID = h_ID (rt_host r), tg_Name = h_Name (rt_host r), tg_Pool = rt_pool r, tg_Addr = n,
            tg_Check = h_HealthCheck (rt_host r), tg_Location = []\<rparr> # location_targets (Suc n) (rt_host r) (rt_locations r)) @
     health_targets (Suc n + length (rt_locations r)) rs"

definition pools_built :: "route list \<Rightarrow> nat" where
  "pools_built rs = sum_list (map (\<lambda>r. Suc (length (rt_locations r))) rs)"

definition route_ids :: "(host \<Rightarrow> bool) \<Rightarrow> route list \<Rightarrow> int list" where
  "route_ids P rs = map (\<lambda>r. h_ID (rt_host r)) (filter (\<lambda>r. P (rt_host r)) rs)"

definition Reload :: "(string \<Rightarrow> 64 word) \<Rightarrow> config \<Rightarrow> data_plane \<Rightarrow> data_plane" where
  "Reload hash cfg dp =
     (let e = dp_engine dp;
          (st, table) = buildRoutingTable hash cfg (Some (en_table e)) (en_store e);
          routes = t_routes table;
          e = e\<lparr>en_store := st, en_table := table,
                en_caches := forgetCaches (set (route_ids (\<lambda>h. Cache_Active (h_Cache h)) routes)) (en_caches e),
                en_limiter := foldl (\<lambda>l i. Forget i l) (en_limiter e) (route_ids (\<lambda>h. \<not> TrafficLimits_Enabled (h_TrafficLimits h)) routes)\<rparr>
      in dp\<lparr>dp_engine := e,
            dp_health := map_option (Sync (health_targets (dp_pools dp) routes)) (dp_health dp),
            dp_collector := map_option (Collector_Forget (set (route_ids (\<lambda>_. True) routes))) (dp_collector dp),
            dp_pools := dp_pools dp + pools_built routes\<rparr>)"

section \<open>Reporting\<close>

definition route_info :: "heap \<Rightarrow> time \<Rightarrow> route \<Rightarrow> pool_info" where
  "route_info h now r =
     (let (up, n) = HealthyCount h now (rt_pool r);
          ls = rt_locations r;
          ups = Pool_Snapshot h now (rt_pool r) @
            concat (map (\<lambda>l. map (\<lambda>s. s\<lparr>us_Location := lc_Path (rl_config l)\<rparr>) (Pool_Snapshot h now (rl_pool l))) ls)
      in \<lparr>pi_HostID = h_ID (rt_host r), pi_Name = h_Name (rt_host r), pi_Enabled = h_Enabled (rt_host r), pi_Upstreams = ups,
          pi_Up = up + sum_list (map (\<lambda>l. fst (HealthyCount h now (rl_pool l))) ls),
          pi_Total = n + sum_list (map (\<lambda>l. snd (HealthyCount h now (rl_pool l))) ls)\<rparr>)"

definition MetricsPools :: "time \<Rightarrow> data_plane \<Rightarrow> pool_info list" where
  "MetricsPools now dp = map (route_info (fst (en_store (dp_engine dp))) now) (t_routes (en_table (dp_engine dp)))"

definition CacheStats :: "int \<Rightarrow> data_plane \<Rightarrow> stats option" where
  "CacheStats hostID dp = Store_Stats hostID (en_caches (dp_engine dp))"

section \<open>What a reload keeps\<close>

lemma build_hosts_routes:
  "map rt_host (t_routes (snd (build_hosts hash acls prev st t hs))) = map rt_host (t_routes t) @ hs"
proof (induction hs arbitrary: st t)
  case (Cons h hs)
  obtain st1 r where r: "build_route hash acls prev st h = (st1, r)" by fastforce
  have "rt_host r = h" using r by (auto simp: build_route_def Let_def split: prod.splits)
  moreover obtain ex wi where "foldl (add_domain (length (t_routes t))) (t_exact t, t_wildcard t) (h_Domains h) = (ex, wi)" by fastforce
  ultimately show ?case using Cons r by (simp add: Let_def)
qed simp

lemma built_hosts: "map rt_host (t_routes (snd (buildRoutingTable hash cfg prev st))) = cfg_Hosts cfg"
proof -
  obtain st1 t where b: "build_hosts hash (cfg_AccessLists cfg) prev st empty_table (cfg_Hosts cfg) = (st1, t)" by fastforce
  obtain ex wi where rd: "build_redirects (cfg_Redirects cfg) = (ex, wi)" by fastforce
  show ?thesis
    using build_hosts_routes [of hash "cfg_AccessLists cfg" prev st empty_table "cfg_Hosts cfg"] b rd
    by (simp add: buildRoutingTable_def empty_table_def)
qed

lemma route_ids_hosts: "map rt_host rs = hs \<Longrightarrow> set (route_ids P rs) = h_ID ` {h \<in> set hs. P h}"
  by (auto simp: route_ids_def)

lemma Forget_all:
  "foldl (\<lambda>l i. Forget i l) l is = map (filter (\<lambda>(k, c). fst k \<notin> set is)) l"
proof (induction "is" arbitrary: l)
  case Nil
  have "filter (\<lambda>(k, c). True) sh = sh" for sh :: shard by (simp add: case_prod_unfold)
  then show ?case by (simp add: case_prod_unfold)
next
  case (Cons i "is")
  have "filter (\<lambda>(k, c). fst k \<notin> set is) (filter (\<lambda>(k, c). fst k \<noteq> i) sh) = filter (\<lambda>(k, c). fst k \<notin> set (i # is)) sh" for sh :: shard
    unfolding filter_filter by (intro filter_cong) auto
  with Cons show ?case by (simp add: Forget_def comp_def)
qed


definition ex_config :: "host list \<Rightarrow> config" where
  "ex_config hs = \<lparr>cfg_Hosts = hs, cfg_Redirects = [], cfg_AccessLists = Map.empty\<rparr>"

definition ex_plane :: data_plane where
  "ex_plane =
     (NewEngine \<lparr>op_TrustedClientIPHeader = [], op_MaxRetries = 0, op_Collector = True, op_AccessLog = False\<rparr>
        (Some new_checker) (Some (Record 1 (ex_result 9 200) (Record 1 (ex_result 1 200) (new_collector 0)))))"


section \<open>Probes across reloads\<close>

text \<open>A plane with an open checker whose goroutines probe pools built before.\<close>

definition plane_ok :: "data_plane \<Rightarrow> bool" where
  "plane_ok dp \<longleftrightarrow>
     (\<forall>c. dp_health dp = Some c \<longrightarrow>
        checker_ok c \<and> \<not> ck_closed c \<and> (\<forall>x \<in> snd ` set (ck_running c). tg_Addr x < dp_pools dp))"

lemma location_targets_addr:
  "t \<in> set (location_targets n h ls) \<Longrightarrow> n \<le> tg_Addr t \<and> tg_Addr t < n + length ls"
  by (induction n h ls rule: location_targets.induct) fastforce+

lemma health_targets_addr:
  "t \<in> set (health_targets n rs) \<Longrightarrow> n \<le> tg_Addr t \<and> tg_Addr t < n + pools_built rs"
proof (induction n rs rule: health_targets.induct)
  case (2 n r rs)
  then show ?case
    by (auto simp: pools_built_def split: if_splits dest!: location_targets_addr)
qed (simp add: pools_built_def)

lemma sync_fold_fresh:
  assumes "checker_ok c" "\<not> ck_closed c" "\<forall>x \<in> snd ` set (ck_running c). tg_Addr x < n" "\<forall>t \<in> set ts. n \<le> tg_Addr t"
  shows "checker_ok (foldl sync_target c ts) \<and> \<not> ck_closed (foldl sync_target c ts) \<and>
    (\<forall>k x. map_of (ck_running (foldl sync_target c ts)) k = Some x \<longrightarrow> x \<in> set ts \<or> k \<notin> set (map Target_key ts) \<and> map_of (ck_running c) k = Some x)"
  using assms(4)
proof (induction ts rule: rev_induct)
  case Nil
  with assms show ?case by simp
next
  case (snoc t ts)
  let ?c = "foldl sync_target c ts"
  have ok: "checker_ok ?c" "\<not> ck_closed ?c" using snoc by simp_all
  note one = sync_target_spec [OF this, of t]
  have "x \<in> set (ts @ [t]) \<or> k \<notin> set (map Target_key (ts @ [t])) \<and> map_of (ck_running c) k = Some x"
    if m: "map_of (ck_running (sync_target ?c t)) k = Some x" for k x
  proof (cases "k = Target_key t")
    case False
    with m one [of k] snoc show ?thesis by auto
  next
    case True
    show ?thesis
    proof (cases "x = t")
      case False
      with True m one [of k] have x: "map_of (ck_running ?c) k = Some x" "target_matches x t"
        by (auto split: option.splits if_splits)
      have "\<not> (k \<notin> set (map Target_key ts) \<and> map_of (ck_running c) k = Some x)"
      proof
        assume "k \<notin> set (map Target_key ts) \<and> map_of (ck_running c) k = Some x"
        then have "x \<in> snd ` set (ck_running c)" by (force dest: map_of_SomeD)
        then have "tg_Addr x < n" using assms(3) by blast
        moreover have "n \<le> tg_Addr t" "tg_Addr x = tg_Addr t" using snoc.prems x(2) by (simp_all add: target_matches_def)
        ultimately show False by simp
      qed
      with x(1) snoc show ?thesis by auto
    qed simp
  qed
  with one show ?case by auto
qed

lemma Sync_fresh:
  assumes "checker_ok c" "\<not> ck_closed c" "\<forall>x \<in> snd ` set (ck_running c). tg_Addr x < n" "\<forall>t \<in> set ts. n \<le> tg_Addr t"
  shows "checker_ok (Sync ts c) \<and> \<not> ck_closed (Sync ts c) \<and> snd ` set (ck_running (Sync ts c)) \<subseteq> set ts"
proof -
  let ?c = "foldl sync_target c ts" and ?K = "set (map Target_key ts)"
  note f = sync_fold_fresh [OF assms]
  have split: "mset (map snd (filter (\<lambda>p. fst p \<notin> ?K) m)) + mset (map snd (filter (\<lambda>p. fst p \<in> ?K) m)) = mset (map snd m)"
    for m :: "(targetKey \<times> target) list" by (induction m) auto
  have dis: "distinct (al_keys (ck_running ?c))" using f by (simp add: checker_ok_def)
  have "x \<in> set ts" if "(k, x) \<in> set (ck_running ?c)" "k \<in> ?K" for k x
    using f that dis by (metis map_of_is_SomeI)
  then have "snd ` set (ck_running (Sync ts c)) \<subseteq> set ts" using assms(2) by (auto simp: Sync_def Let_def stop_all)
  moreover have "checker_ok (Sync ts c) \<and> \<not> ck_closed (Sync ts c)"
    using f assms(2) split [of "ck_running ?c"] by (auto simp: Sync_def Let_def checker_ok_def stop_all add.assoc intro: go_inv)
  ultimately show ?thesis by blast
qed

lemma started_Sync: "started c \<subseteq># started (Sync ts c)"
proof (cases "ck_closed c")
  case False
  have one: "started c \<subseteq># started (sync_target c t)" for c t
    by (auto simp: sync_target_def Let_def mset_subset_eq_add_right intro: subset_mset.order_trans split: option.splits)
  have "started c \<subseteq># started (foldl sync_target c ts)" for ts
  proof (induction ts arbitrary: c)
    case (Cons t ts)
    from subset_mset.order_trans [OF one Cons] show ?case by simp
  qed simp
  with False show ?thesis by (simp add: Sync_def Let_def stop_all)
qed (simp add: Sync_def)

text \<open>Every reload restarts every probe: a reload keeps the plane in order, and none of the probing
  goroutines running before it is running after it, even when the configuration is the same, because
  the pools it compares are always new ones.\<close>

theorem Reload_restarts_probes:
  assumes "plane_ok dp" "dp_health dp = Some c" "dp' = Reload hash cfg dp"
  shows "plane_ok dp' \<and> (\<exists>c'. dp_health dp' = Some c' \<and> snd ` set (ck_running c') \<inter> snd ` set (ck_running c) = {} \<and>
     live c \<subseteq># stopped c')"
proof -
  obtain st t where b: "buildRoutingTable hash cfg (Some (en_table (dp_engine dp))) (en_store (dp_engine dp)) = (st, t)" by fastforce
  let ?ts = "health_targets (dp_pools dp) (t_routes t)"
  have h: "dp_health dp' = Some (Sync ?ts c)" "dp_pools dp' = dp_pools dp + pools_built (t_routes t)"
    using assms(2,3) b by (simp_all add: Reload_def Let_def)
  have ok: "checker_ok c" "\<not> ck_closed c" "\<forall>x \<in> snd ` set (ck_running c). tg_Addr x < dp_pools dp"
    using assms(1,2) by (simp_all add: plane_ok_def)
  have new: "\<forall>t \<in> set ?ts. dp_pools dp \<le> tg_Addr t" using health_targets_addr by blast
  note f = Sync_fresh [OF ok new]
  have "\<forall>x \<in> snd ` set (ck_running (Sync ?ts c)). tg_Addr x < dp_pools dp'"
    using f health_targets_addr h(2) by (metis subsetD)
  with f h(1) have "plane_ok dp'" by (simp add: plane_ok_def)
  moreover have dj: "snd ` set (ck_running (Sync ?ts c)) \<inter> snd ` set (ck_running c) = {}"
    using f ok(3) new by (metis (no_types, lifting) disjoint_iff leD subsetD)
  moreover have "live c \<subseteq># stopped (Sync ?ts c)"
  proof (rule mset_subset_eqI)
    fix x
    show "count (live c) x \<le> count (stopped (Sync ?ts c)) x"
    proof (cases "x \<in> snd ` set (ck_running c)")
      case True
      then have "count (live (Sync ?ts c)) x = 0" using dj by (auto simp: count_eq_zero_iff)
      moreover have "started (Sync ?ts c) = stopped (Sync ?ts c) + live (Sync ?ts c)" "started c = stopped c + live c"
        using f ok(1) by (simp_all add: checker_ok_def)
      moreover have "count (started c) x \<le> count (started (Sync ?ts c)) x" by (rule mset_subset_eq_count [OF started_Sync])
      ultimately show ?thesis by simp
    next
      case False
      then have "count (live c) x = 0" by (auto simp: count_eq_zero_iff)
      then show ?thesis by simp
    qed
  qed
  ultimately show ?thesis using h(1) by blast
qed

definition ex_probed :: host where
  "ex_probed = ex_site\<lparr>h_HealthCheck := DefaultHealthCheck\<lparr>hc_Enabled := True\<rparr>\<rparr>"

theorem Reload_restarts_probes_witness:
  "\<exists>c c'. dp_health (Reload (\<lambda>_. 0) (ex_config [ex_probed]) ex_plane) = Some c \<and>
     dp_health (Reload (\<lambda>_. 0) (ex_config [ex_probed]) (Reload (\<lambda>_. 0) (ex_config [ex_probed]) ex_plane)) = Some c' \<and>
     snd ` set (ck_running c') \<inter> snd ` set (ck_running c) = {}"
proof -
  have h: "dp_health ex_plane = Some new_checker" by (simp add: ex_plane_def NewEngine_def)
  then have "plane_ok ex_plane" by (auto simp: plane_ok_def new_checker_def checker_ok_def map_filter_def)
  from Reload_restarts_probes [OF this h refl, of "\<lambda>_. 0" "ex_config [ex_probed]"] obtain c where
    c: "plane_ok (Reload (\<lambda>_. 0) (ex_config [ex_probed]) ex_plane)" "dp_health (Reload (\<lambda>_. 0) (ex_config [ex_probed]) ex_plane) = Some c"
    by blast
  from Reload_restarts_probes [OF c refl, of "\<lambda>_. 0" "ex_config [ex_probed]"] c(2) show ?thesis by blast
qed

end
