(* ===== verification/Store_Base.thy ===== *)
theory Store_Base
  imports Go_Base
begin

text \<open>The base of the SQLite store (\<^verbatim>\<open>store/store.go\<close>): how driver errors become the errors the rest of
  the program matches on, and how the schema is brought up to date. The SQL engine is not part of the
  program: \<open>exec\<close> is what running a script does to the data, \<^const>\<open>None\<close> when it fails, and \<open>commit\<close>
  tells whether the transaction of a version commits.\<close>

section \<open>Errors\<close>

datatype driver_error = NoRows | Driver string

text \<open>\<^verbatim>\<open>domain.ErrNotFound\<close>, \<^verbatim>\<open>ErrConflict\<close> and \<^verbatim>\<open>ErrInUse\<close>, with the text they are wrapped in.\<close>

datatype db_error = ErrNotFound | ErrConflict string | ErrInUse string | DbError string

definition translateErr :: "driver_error \<Rightarrow> db_error" where
  "translateErr err =
     (case err of
        NoRows \<Rightarrow> ErrNotFound
      | Driver msg \<Rightarrow>
          if contains msg ''UNIQUE constraint failed'' then ErrConflict (''conflict: '' @ msg)
          else if contains msg ''FOREIGN KEY constraint failed''
            then ErrInUse ''in use: referenced record is missing or still in use''
          else DbError msg)"

definition errorIsConflict :: "db_error \<Rightarrow> bool" where
  "errorIsConflict e = (case e of ErrConflict _ \<Rightarrow> True | _ \<Rightarrow> False)"

text \<open>Times are stored as whole seconds.\<close>

definition unix :: "time \<Rightarrow> int" where "unix t = t div second"

definition from_unix :: "int \<Rightarrow> time" where "from_unix n = n * second"

definition nullTime :: "int option \<Rightarrow> time option" where
  "nullTime v = map_option from_unix v"

definition timePtrToNull :: "time option \<Rightarrow> int option" where
  "timePtrToNull t = map_option unix t"

lemma unix_from_unix [simp]: "unix (from_unix n) = n"
  by (simp add: unix_def from_unix_def)

lemma from_unix_truncates: "from_unix (unix t) \<le> t" "t < from_unix (unix t) + second"
  using div_mult_mod_eq [of t second] pos_mod_sign [of second t] pos_mod_bound [of second t]
  by (simp_all add: from_unix_def unix_def)

section \<open>Migrations\<close>

record migration =
  mg_version :: int
  mg_name :: string
  mg_sql :: string

record dir_entry =
  de_Name :: string
  de_IsDir :: bool
  de_content :: string

datatype migrate_error =
    BadName string
  | DuplicateVersion int
  | OutOfOrder int string int
  | Failed int string

text \<open>A version is a Go \<^verbatim>\<open>int\<close>: its digits are folded into 64 bits.\<close>

definition wrap64 :: "int \<Rightarrow> int" where
  "wrap64 n = (n + 2 ^ 63) mod 2 ^ 64 - 2 ^ 63"

fun version_digits :: "int \<Rightarrow> string \<Rightarrow> int option" where
  "version_digits v [] = Some v"
| "version_digits v (c # cs) =
     (if byte c < 48 \<or> byte c > 57 then None else version_digits (wrap64 (v * 10 + (int (byte c) - 48))) cs)"

definition parseMigrationName :: "string \<Rightarrow> (int \<times> string) option" where
  "parseMigrationName filename =
     (case cut (trim_suffix filename ''.sql'') (CHR ''_'') of
        (prefix, rest, found) \<Rightarrow>
          if \<not> found \<or> prefix = [] then None
          else case version_digits 0 prefix of None \<Rightarrow> None | Some v \<Rightarrow> Some (v, rest))"

fun read_entries :: "dir_entry list \<Rightarrow> migrate_error + migration list" where
  "read_entries [] = Inr []"
| "read_entries (e # es) =
     (if de_IsDir e \<or> \<not> has_suffix (de_Name e) ''.sql'' then read_entries es
      else case parseMigrationName (de_Name e) of
        None \<Rightarrow> Inl (BadName (de_Name e))
      | Some (v, n) \<Rightarrow>
          (case read_entries es of
             Inl err \<Rightarrow> Inl err
           | Inr ms \<Rightarrow> Inr (\<lparr>mg_version = v, mg_name = n, mg_sql = de_content e\<rparr> # ms)))"

fun duplicate_version :: "migration list \<Rightarrow> int option" where
  "duplicate_version (a # b # ms) =
     (if mg_version b = mg_version a then Some (mg_version b) else duplicate_version (b # ms))"
| "duplicate_version _ = None"

definition loadMigrations :: "dir_entry list \<Rightarrow> migrate_error + migration list" where
  "loadMigrations entries =
     (case read_entries entries of
        Inl err \<Rightarrow> Inl err
      | Inr out \<Rightarrow>
          let out = sort_key mg_version out
          in case duplicate_version out of Some v \<Rightarrow> Inl (DuplicateVersion v) | None \<Rightarrow> Inr out)"

record 'd database =
  db_data :: 'd
  db_applied :: "(int \<times> int) list"

abbreviation versions :: "'d database \<Rightarrow> int set" where
  "versions db \<equiv> fst ` set (db_applied db)"

definition applyMigration ::
  "(string \<Rightarrow> 'd \<Rightarrow> 'd option) \<Rightarrow> (int \<Rightarrow> bool) \<Rightarrow> time \<Rightarrow> migration \<Rightarrow> 'd database \<Rightarrow> 'd database option" where
  "applyMigration exec commit now m db =
     (case exec (mg_sql m) (db_data db) of
        None \<Rightarrow> None
      | Some d \<Rightarrow>
          if mg_version m \<in> versions db \<or> \<not> commit (mg_version m) then None
          else Some (db\<lparr>db_data := d, db_applied := db_applied db @ [(mg_version m, unix now)]\<rparr>))"

definition highest :: "int set \<Rightarrow> int" where
  "highest applied = Max (insert 0 applied)"

fun apply_pending ::
  "(string \<Rightarrow> 'd \<Rightarrow> 'd option) \<Rightarrow> (int \<Rightarrow> bool) \<Rightarrow> time \<Rightarrow> int set \<Rightarrow> migration list \<Rightarrow> 'd database \<Rightarrow> 'd database \<times> migrate_error option" where
  "apply_pending exec commit now applied [] db = (db, None)"
| "apply_pending exec commit now applied (m # ms) db =
     (if mg_version m \<in> applied then apply_pending exec commit now applied ms db
      else if mg_version m < highest applied
        then (db, Some (OutOfOrder (mg_version m) (mg_name m) (highest applied)))
      else case applyMigration exec commit now m db of
        None \<Rightarrow> (db, Some (Failed (mg_version m) (mg_name m)))
      | Some db \<Rightarrow> apply_pending exec commit now applied ms db)"

definition migrate ::
  "(string \<Rightarrow> 'd \<Rightarrow> 'd option) \<Rightarrow> (int \<Rightarrow> bool) \<Rightarrow> time \<Rightarrow> dir_entry list \<Rightarrow> 'd database \<Rightarrow> 'd database \<times> migrate_error option" where
  "migrate exec commit now files db =
     (case loadMigrations files of
        Inl err \<Rightarrow> (db, Some err)
      | Inr ms \<Rightarrow> apply_pending exec commit now (versions db) ms db)"

section \<open>What migrating does\<close>

text \<open>The scripts of a list of migrations, run one after the other.\<close>

fun run_scripts :: "(string \<Rightarrow> 'd \<Rightarrow> 'd option) \<Rightarrow> migration list \<Rightarrow> 'd \<Rightarrow> 'd option" where
  "run_scripts exec [] d = Some d"
| "run_scripts exec (m # ms) d = (case exec (mg_sql m) d of None \<Rightarrow> None | Some d \<Rightarrow> run_scripts exec ms d)"

definition pending :: "int set \<Rightarrow> migration list \<Rightarrow> migration list" where
  "pending applied ms = filter (\<lambda>m. mg_version m \<notin> applied) ms"

text \<open>A database reached from another by a list of migrations, each with its row.\<close>

definition reached ::
  "(string \<Rightarrow> 'd \<Rightarrow> 'd option) \<Rightarrow> time \<Rightarrow> migration list \<Rightarrow> 'd database \<Rightarrow> 'd database \<Rightarrow> bool" where
  "reached exec now ms db db' \<longleftrightarrow>
     run_scripts exec ms (db_data db) = Some (db_data db')
     \<and> db_applied db' = db_applied db @ map (\<lambda>m. (mg_version m, unix now)) ms"

lemma reached_Nil [simp]: "reached exec now [] db db' \<longleftrightarrow> db' = db"
  by (auto simp: reached_def intro: database.equality)

lemma reached_Cons:
  "reached exec now (m # ms) db db' \<longleftrightarrow>
     (\<exists>d. exec (mg_sql m) (db_data db) = Some d
        \<and> reached exec now ms (db\<lparr>db_data := d, db_applied := db_applied db @ [(mg_version m, unix now)]\<rparr>) db')"
  by (auto simp: reached_def split: option.splits)

lemma duplicate_version_None:
  "sorted (map mg_version ms) \<Longrightarrow> duplicate_version ms = None \<Longrightarrow> distinct (map mg_version ms)"
proof (induction ms rule: duplicate_version.induct)
  case (1 a b ms)
  from 1 have "distinct (map mg_version (b # ms))" "mg_version a < mg_version b"
    by (auto split: if_splits)
  moreover from 1 have "\<forall>m\<in>set ms. mg_version b \<le> mg_version m" by simp
  ultimately show ?case by auto
qed auto

lemma loadMigrations_ordered:
  assumes "loadMigrations files = Inr ms"
  shows "sorted (map mg_version ms) \<and> distinct (map mg_version ms)"
  using assms duplicate_version_None
  by (auto simp: loadMigrations_def Let_def split: sum.splits option.splits)

lemma apply_pending_reaches:
  assumes "distinct (map mg_version ms)" "applied \<subseteq> versions db"
    "versions db \<inter> mg_version ` set ms \<subseteq> applied"
    "apply_pending exec commit now applied ms db = (db', r)"
  shows "\<exists>done rest. pending applied ms = done @ rest \<and> reached exec now done db db'
    \<and> (r = None \<longleftrightarrow> rest = [])
    \<and> (\<forall>m \<in> set done. highest applied \<le> mg_version m)"
  using assms
proof (induction ms arbitrary: db)
  case Nil
  then show ?case by (simp add: pending_def)
next
  case (Cons m ms)
  show ?case
  proof (cases "mg_version m \<in> applied")
    case True
    moreover have "versions db \<inter> mg_version ` set ms \<subseteq> applied" using Cons.prems(3) by auto
    ultimately show ?thesis using Cons.IH [of db] Cons.prems(1,2,4) by (simp add: pending_def)
  next
    case out: False
    then have new: "mg_version m \<notin> versions db" using Cons.prems(3) by auto
    show ?thesis
    proof (cases "mg_version m < highest applied \<or> applyMigration exec commit now m db = None")
      case True
      with out Cons.prems(4) have "db' = db" "r \<noteq> None" by (auto split: if_splits)
      then show ?thesis using out by (intro exI [of _ "[]"] exI [of _ "pending applied (m # ms)"]) (simp add: pending_def)
    next
      case False
      then obtain d where d: "applyMigration exec commit now m db = Some d" by auto
      then obtain x where x: "exec (mg_sql m) (db_data db) = Some x"
        "d = db\<lparr>db_data := x, db_applied := db_applied db @ [(mg_version m, unix now)]\<rparr>"
        by (auto simp: applyMigration_def split: option.splits if_splits)
      have v: "versions d = insert (mg_version m) (versions db)" using x by auto
      have "versions d \<inter> mg_version ` set ms \<subseteq> applied"
        using v Cons.prems(1,3) by auto
      moreover have "applied \<subseteq> versions d" using v Cons.prems(2) by auto
      ultimately obtain "done" rest where ih: "pending applied ms = done @ rest" "reached exec now done d db'"
        "r = None \<longleftrightarrow> rest = []" "\<forall>m \<in> set done. highest applied \<le> mg_version m"
        using Cons.IH [of d] Cons.prems(1,4) out False d by auto
      have "reached exec now (m # done) db db'" using ih(2) x by (auto simp: reached_Cons)
      moreover have "pending applied (m # ms) = (m # done) @ rest" using ih(1) out by (simp add: pending_def)
      ultimately show ?thesis using ih(3,4) False by (intro exI [of _ "m # done"] exI [of _ rest]) auto
    qed
  qed
qed

lemma apply_pending_done:
  "mg_version ` set ms \<subseteq> applied \<Longrightarrow> apply_pending exec commit now applied ms db = (db, None)"
  by (induction ms) auto

lemma reached_versions: "reached exec now ms db db' \<Longrightarrow> versions db' = versions db \<union> mg_version ` set ms"
  by (simp add: reached_def image_Un image_image)

text \<open>C14. Migrating runs a prefix of the pending scripts in ascending order of their versions and records
  exactly those, all of them if it succeeds. Nothing below a version that was already there is ever run,
  a failure leaves the database at a complete version, and after a success the next start changes
  nothing.\<close>

theorem migrate_applies_in_order:
  assumes "loadMigrations files = Inr ms"
    and "migrate exec commit now files db = (db', r)"
  shows "\<exists>done rest. pending (versions db) ms = done @ rest
    \<and> sorted (map mg_version done) \<and> distinct (map mg_version done)
    \<and> (\<forall>m \<in> set done. \<forall>v \<in> versions db. v < mg_version m)
    \<and> reached exec now done db db'
    \<and> (r = None \<longleftrightarrow> rest = [])
    \<and> (r = None \<longrightarrow> mg_version ` set ms \<subseteq> versions db' \<and> migrate exec commit now' files db' = (db', None))"
proof -
  note load = loadMigrations_ordered [OF assms(1)]
  have "apply_pending exec commit now (versions db) ms db = (db', r)"
    using assms by (simp add: migrate_def)
  from apply_pending_reaches [OF _ _ _ this] load obtain "done" rest where
    d: "pending (versions db) ms = done @ rest" "reached exec now done db db'" "r = None \<longleftrightarrow> rest = []"
      "\<forall>m \<in> set done. highest (versions db) \<le> mg_version m"
    by auto
  have p: "sorted (map mg_version (pending (versions db) ms))" "distinct (map mg_version (pending (versions db) ms))"
    using load by (simp_all add: pending_def sorted_filter distinct_map_filter)
  have new: "m \<in> set done \<Longrightarrow> mg_version m \<notin> versions db" for m
    using arg_cong [OF d(1), of set] by (auto simp: pending_def)
  have above: "\<forall>m \<in> set done. \<forall>v \<in> versions db. v < mg_version m"
  proof (intro ballI)
    fix m v assume m: "m \<in> set done" "v \<in> versions db"
    then have "v \<le> highest (versions db)" by (simp add: highest_def)
    with d(4) m(1) have "v \<le> mg_version m" by auto
    moreover have "v \<noteq> mg_version m" using new [OF m(1)] m(2) by metis
    ultimately show "v < mg_version m" by simp
  qed
  have all: "r = None \<Longrightarrow> mg_version ` set ms \<subseteq> versions db'"
    using d(1,3) reached_versions [OF d(2)] by (auto simp: pending_def filter_eq_Cons_iff dest: arg_cong [of _ _ set])
  have "r = None \<Longrightarrow> migrate exec commit now' files db' = (db', None)"
    using assms(1) all apply_pending_done by (simp add: migrate_def)
  then show ?thesis using d p above all by (intro exI [of _ "done"] exI [of _ rest]) (simp add: sorted_append)
qed

definition ex_files :: "dir_entry list" where
  "ex_files = [\<lparr>de_Name = ''0002_b.sql'', de_IsDir = False, de_content = ''two''\<rparr>,
               \<lparr>de_Name = ''0001_a.sql'', de_IsDir = False, de_content = ''one''\<rparr>]"

theorem migrate_applies_in_order_witness:
  "\<exists>db'. migrate (\<lambda>s d. Some (d @ s)) (\<lambda>_. True) 0 ex_files \<lparr>db_data = [], db_applied = []\<rparr> = (db', None)
     \<and> db_data db' = ''onetwo'' \<and> migrate (\<lambda>s d. Some (d @ s)) (\<lambda>_. True) second ex_files db' = (db', None)"
proof -
  have load: "loadMigrations ex_files = Inr [\<lparr>mg_version = 1, mg_name = ''a'', mg_sql = ''one''\<rparr>,
    \<lparr>mg_version = 2, mg_name = ''b'', mg_sql = ''two''\<rparr>]"
    by code_simp
  have run: "migrate (\<lambda>s d. Some (d @ s)) (\<lambda>_. True) 0 ex_files \<lparr>db_data = [], db_applied = []\<rparr>
    = (\<lparr>db_data = ''onetwo'', db_applied = [(1, 0), (2, 0)]\<rparr>, None)"
    by (simp add: migrate_def load applyMigration_def highest_def unix_def)
  from migrate_applies_in_order [OF load run, of second] run show ?thesis by auto
qed

end
