(* ===== verification/Store_Users.thy ===== *)
theory Store_Users
  imports Store_Base Domain_Errors "HOL-Library.List_Lexorder" "HOL-Library.Char_ord"
begin

text \<open>Operator accounts: the domain type and its rules (\<^verbatim>\<open>domain/user.go\<close>) and the repository
  (\<^verbatim>\<open>store/users.go\<close>) over the table of the first migration, whose names are unique and whose roles are
  checked. Every call may also fail in the driver; \<open>fault\<close> is that failure. The table keeps its invariant
  under every operation, and an accepted write is read back.\<close>

section \<open>Accounts\<close>

definition RoleAdmin :: string where "RoleAdmin = ''admin''"
definition RoleViewer :: string where "RoleViewer = ''viewer''"

definition Role_Valid :: "string \<Rightarrow> bool" where
  "Role_Valid r \<longleftrightarrow> r = RoleAdmin \<or> r = RoleViewer"

definition CanWrite :: "string \<Rightarrow> bool" where
  "CanWrite r \<longleftrightarrow> r = RoleAdmin"

record user =
  us_ID :: int
  us_Username :: string
  us_PasswordHash :: string
  us_Role :: string
  us_CreatedAt :: time
  us_LastLoginAt :: "time option"

definition NormalizeUsername :: "string \<Rightarrow> string" where
  "NormalizeUsername name = to_lower (trim_space name)"

definition MinPasswordLength :: nat where "MinPasswordLength = 8"
definition MaxPasswordLength :: nat where "MaxPasswordLength = 72"

definition username_char :: "char \<Rightarrow> bool" where
  "username_char r \<longleftrightarrow> is_lower r \<or> is_digit r \<or> r = CHR ''-'' \<or> r = CHR ''_'' \<or> r = CHR ''.''"

text \<open>A range loop over a string visits runes: the first byte of each valid UTF-8 sequence, and every
  other byte by itself.\<close>

definition cont :: "nat \<Rightarrow> nat \<Rightarrow> char list \<Rightarrow> nat \<Rightarrow> bool" where
  "cont lo hi s i \<longleftrightarrow> i < length s \<and> lo \<le> byte (s ! i) \<and> byte (s ! i) \<le> hi"

definition rune_width :: "string \<Rightarrow> nat" where
  "rune_width s =
     (let b = byte (hd s); tail = cont 0x80 0xBF s
      in if 0xC2 \<le> b \<and> b \<le> 0xDF \<and> tail 1 then 2
         else if b = 0xE0 \<and> cont 0xA0 0xBF s 1 \<and> tail 2 then 3
         else if b = 0xED \<and> cont 0x80 0x9F s 1 \<and> tail 2 then 3
         else if 0xE1 \<le> b \<and> b \<le> 0xEF \<and> b \<noteq> 0xED \<and> tail 1 \<and> tail 2 then 3
         else if b = 0xF0 \<and> cont 0x90 0xBF s 1 \<and> tail 2 \<and> tail 3 then 4
         else if 0xF1 \<le> b \<and> b \<le> 0xF3 \<and> tail 1 \<and> tail 2 \<and> tail 3 then 4
         else if b = 0xF4 \<and> cont 0x80 0x8F s 1 \<and> tail 2 \<and> tail 3 then 4
         else 1)"

fun rune_heads :: "string \<Rightarrow> string" where
  "rune_heads [] = []"
| "rune_heads (c # cs) = c # rune_heads (drop (rune_width (c # cs) - 1) cs)"

fun check_runes :: "string \<Rightarrow> validation_error \<Rightarrow> validation_error" where
  "check_runes [] v = v"
| "check_runes (r # rs) v =
     check_runes rs (v_if (\<not> username_char r) ''username'' ''may only contain a-z, 0-9, dot, hyphen and underscore'' [] v)"

definition ValidateCredentials :: "string \<Rightarrow> string \<Rightarrow> validation_error option" where
  "ValidateCredentials username password =
     (let v = v_if (length username < 3 \<or> length username > 32) ''username'' ''must be between 3 and 32 characters'' [] [];
          v = check_runes (rune_heads username) v;
          v = v_if (length password < MinPasswordLength) ''password'' ''must be at least %d characters'' [FInt (int MinPasswordLength)] v;
          v = v_if (length password > MaxPasswordLength) ''password'' ''must be at most %d bytes'' [FInt (int MaxPasswordLength)] v
      in v_Err v)"

section \<open>The repository\<close>

record user_row =
  ru_id :: int
  ru_username :: string
  ru_password_hash :: string
  ru_role :: string
  ru_created_at :: int
  ru_last_login_at :: "int option"

text \<open>The rows in the order of their ids, and the largest id ever given, which \<^verbatim>\<open>AUTOINCREMENT\<close> keeps.\<close>

record users_table =
  ut_rows :: "user_row list"
  ut_seq :: int

definition scanUser :: "user_row \<Rightarrow> user" where
  "scanUser r = \<lparr>us_ID = ru_id r, us_Username = ru_username r, us_PasswordHash = ru_password_hash r, us_Role = ru_role r,
     us_CreatedAt = from_unix (ru_created_at r), us_LastLoginAt = nullTime (ru_last_login_at r)\<rparr>"

definition queried :: "string option \<Rightarrow> 'a \<Rightarrow> db_error + 'a" where
  "queried fault x = (case fault of Some m \<Rightarrow> Inl (translateErr (Driver m)) | None \<Rightarrow> Inr x)"

definition one_row :: "string option \<Rightarrow> user_row option \<Rightarrow> db_error + user" where
  "one_row fault r =
     (case fault of
        Some m \<Rightarrow> Inl (translateErr (Driver m))
      | None \<Rightarrow> (case r of None \<Rightarrow> Inl (translateErr NoRows) | Some x \<Rightarrow> Inr (scanUser x)))"

definition Users_List :: "string option \<Rightarrow> users_table \<Rightarrow> db_error + user list" where
  "Users_List fault t = queried fault (map scanUser (sort_key ru_username (ut_rows t)))"

definition GetByUsername :: "string option \<Rightarrow> string \<Rightarrow> users_table \<Rightarrow> db_error + user" where
  "GetByUsername fault username t = one_row fault (find (\<lambda>r. ru_username r = NormalizeUsername username) (ut_rows t))"

definition GetByID :: "string option \<Rightarrow> int \<Rightarrow> users_table \<Rightarrow> db_error + user" where
  "GetByID fault i t = one_row fault (find (\<lambda>r. ru_id r = i) (ut_rows t))"

text \<open>The two constraints an insert can violate.\<close>

definition insert_refused :: "string \<Rightarrow> string \<Rightarrow> users_table \<Rightarrow> string option" where
  "insert_refused username role t =
     (if \<not> Role_Valid role then Some ''constraint failed: CHECK constraint failed: role IN ('admin', 'viewer') (275)''
      else if username \<in> ru_username ` set (ut_rows t) then Some ''constraint failed: UNIQUE constraint failed: users.username (2067)''
      else None)"

definition Users_Create :: "string option \<Rightarrow> time \<Rightarrow> user \<Rightarrow> users_table \<Rightarrow> users_table \<times> (db_error + user)" where
  "Users_Create fault now u t =
     (let name = NormalizeUsername (us_Username u)
      in case (case fault of Some m \<Rightarrow> Some m | None \<Rightarrow> insert_refused name (us_Role u) t) of
           Some m \<Rightarrow> (t, Inl (translateErr (Driver m)))
         | None \<Rightarrow>
             (t\<lparr>ut_rows := ut_rows t @ [\<lparr>ru_id = ut_seq t + 1, ru_username = name, ru_password_hash = us_PasswordHash u,
                  ru_role = us_Role u, ru_created_at = unix now, ru_last_login_at = None\<rparr>],
                ut_seq := ut_seq t + 1\<rparr>,
              Inr (u\<lparr>us_ID := ut_seq t + 1, us_Username := name, us_CreatedAt := now\<rparr>)))"

text \<open>An update of the row with an id, followed by \<^verbatim>\<open>requireOneRow\<close>.\<close>

definition requireOneRow :: "nat \<Rightarrow> db_error option" where
  "requireOneRow n = (if n = 0 then Some ErrNotFound else None)"

definition update_row :: "int \<Rightarrow> (user_row \<Rightarrow> user_row) \<Rightarrow> users_table \<Rightarrow> users_table" where
  "update_row i f t = t\<lparr>ut_rows := map (\<lambda>r. if ru_id r = i then f r else r) (ut_rows t)\<rparr>"

definition affected :: "int \<Rightarrow> users_table \<Rightarrow> nat" where
  "affected i t = length (filter (\<lambda>r. ru_id r = i) (ut_rows t))"

definition UpdatePassword :: "string option \<Rightarrow> int \<Rightarrow> string \<Rightarrow> users_table \<Rightarrow> users_table \<times> db_error option" where
  "UpdatePassword fault i passwordHash t =
     (case fault of
        Some m \<Rightarrow> (t, Some (translateErr (Driver m)))
      | None \<Rightarrow> (update_row i (ru_password_hash_update (\<lambda>_. passwordHash)) t, requireOneRow (affected i t)))"

definition TouchLogin :: "string option \<Rightarrow> int \<Rightarrow> time \<Rightarrow> users_table \<Rightarrow> users_table \<times> db_error option" where
  "TouchLogin fault i when t =
     (case fault of
        Some m \<Rightarrow> (t, Some (translateErr (Driver m)))
      | None \<Rightarrow> (update_row i (ru_last_login_at_update (\<lambda>_. Some (unix when))) t, None))"

definition UpdateRole :: "string option \<Rightarrow> int \<Rightarrow> string \<Rightarrow> users_table \<Rightarrow> users_table \<times> db_error option" where
  "UpdateRole fault i role t =
     (case fault of
        Some m \<Rightarrow> (t, Some (translateErr (Driver m)))
      | None \<Rightarrow>
          if affected i t > 0 \<and> \<not> Role_Valid role
          then (t, Some (translateErr (Driver ''constraint failed: CHECK constraint failed: role IN ('admin', 'viewer') (275)'')))
          else (update_row i (ru_role_update (\<lambda>_. role)) t, requireOneRow (affected i t)))"

definition admins :: "users_table \<Rightarrow> nat" where
  "admins t = length (filter (\<lambda>r. ru_role r = RoleAdmin) (ut_rows t))"

definition CountAdmins :: "string option \<Rightarrow> users_table \<Rightarrow> db_error + nat" where
  "CountAdmins fault t = queried fault (admins t)"

definition Users_Delete :: "string option \<Rightarrow> int \<Rightarrow> users_table \<Rightarrow> users_table \<times> db_error option" where
  "Users_Delete fault i t =
     (case fault of
        Some m \<Rightarrow> (t, Some (translateErr (Driver m)))
      | None \<Rightarrow> (t\<lparr>ut_rows := filter (\<lambda>r. ru_id r \<noteq> i) (ut_rows t)\<rparr>, requireOneRow (affected i t)))"

definition Users_Count :: "string option \<Rightarrow> users_table \<Rightarrow> db_error + nat" where
  "Users_Count fault t = queried fault (length (ut_rows t))"

section \<open>The table\<close>

text \<open>Ids and names are unique, ids are positive and were given out, and roles are roles.\<close>

definition users_ok :: "users_table \<Rightarrow> bool" where
  "users_ok t \<longleftrightarrow> distinct (map ru_id (ut_rows t)) \<and> distinct (map ru_username (ut_rows t))
     \<and> 0 \<le> ut_seq t
     \<and> (\<forall>r \<in> set (ut_rows t). 0 < ru_id r \<and> ru_id r \<le> ut_seq t \<and> Role_Valid (ru_role r)
          \<and> NormalizeUsername (ru_username r) = ru_username r)"

lemma NormalizeUsername_idem [simp]: "NormalizeUsername (NormalizeUsername n) = NormalizeUsername n"
  by (simp add: NormalizeUsername_def trim_space_to_lower)

lemma users_ok_update_row:
  assumes "users_ok t" "\<And>r. ru_id (f r) = ru_id r \<and> ru_username (f r) = ru_username r"
    "\<And>r. Role_Valid (ru_role r) \<Longrightarrow> Role_Valid (ru_role (f r))"
  shows "users_ok (update_row i f t)"
proof -
  have "map ru_id (ut_rows (update_row i f t)) = map ru_id (ut_rows t)"
    "map ru_username (ut_rows (update_row i f t)) = map ru_username (ut_rows t)"
    using assms(2) by (simp_all add: update_row_def)
  moreover have "\<forall>r \<in> set (ut_rows (update_row i f t)). 0 < ru_id r \<and> ru_id r \<le> ut_seq t \<and> Role_Valid (ru_role r)
      \<and> NormalizeUsername (ru_username r) = ru_username r"
    using assms by (auto simp: users_ok_def update_row_def)
  moreover have "ut_seq (update_row i f t) = ut_seq t" by (simp add: update_row_def)
  ultimately show ?thesis using assms(1) by (simp only: users_ok_def)
qed

lemma users_ok_Create [go_inv]: "users_ok t \<Longrightarrow> users_ok (fst (Users_Create fault now u t))"
  by (fastforce simp: users_ok_def Users_Create_def Let_def insert_refused_def split: option.splits if_splits)

lemma users_ok_updates [go_inv]:
  "users_ok t \<Longrightarrow> users_ok (fst (UpdatePassword fault i h t))"
  "users_ok t \<Longrightarrow> users_ok (fst (TouchLogin fault i now t))"
  "users_ok t \<Longrightarrow> users_ok (fst (Users_Delete fault i t))"
  by (auto simp: UpdatePassword_def TouchLogin_def split: option.splits intro!: users_ok_update_row)
    (auto simp: Users_Delete_def users_ok_def distinct_map_filter split: option.splits)

lemma affected_0: "affected i t = 0 \<longleftrightarrow> (\<forall>r \<in> set (ut_rows t). ru_id r \<noteq> i)"
  by (simp add: affected_def filter_empty_conv)

lemma update_row_absent: "affected i t = 0 \<Longrightarrow> update_row i f t = t"
  by (cases t) (auto simp: affected_0 update_row_def map_idI)

lemma users_ok_UpdateRole [go_inv]: "users_ok t \<Longrightarrow> users_ok (fst (UpdateRole fault i role t))"
proof (cases "affected i t = 0")
  case True
  assume "users_ok t"
  with True show ?thesis by (auto simp: UpdateRole_def update_row_absent split: option.splits)
qed (auto simp: UpdateRole_def split: option.splits intro: users_ok_update_row)

lemma users_ok_unique:
  "users_ok t \<Longrightarrow> r \<in> set (ut_rows t) \<Longrightarrow> r' \<in> set (ut_rows t) \<Longrightarrow> ru_id r = ru_id r' \<Longrightarrow> r = r'"
  by (auto simp: users_ok_def distinct_map inj_on_def)

lemma GetByID_Inr:
  "GetByID fault i t = Inr u \<longleftrightarrow> fault = None \<and> (\<exists>r. find (\<lambda>r. ru_id r = i) (ut_rows t) = Some r \<and> u = scanUser r)"
  by (auto simp: GetByID_def one_row_def split: option.splits)

lemma find_by_id:
  "users_ok t \<Longrightarrow> find (\<lambda>r. ru_id r = i) (ut_rows t) = Some r \<longleftrightarrow> r \<in> set (ut_rows t) \<and> ru_id r = i"
proof
  assume ok: "users_ok t" and r: "r \<in> set (ut_rows t) \<and> ru_id r = i"
  then obtain r' where r': "find (\<lambda>r. ru_id r = i) (ut_rows t) = Some r'"
    by (cases "find (\<lambda>r. ru_id r = i) (ut_rows t)") (auto simp: find_None_iff)
  then have "r' \<in> set (ut_rows t)" "ru_id r' = i" by (auto simp: find_Some_iff)
  with users_ok_unique [OF ok, of r r'] r r' show "find (\<lambda>r. ru_id r = i) (ut_rows t) = Some r" by simp
qed (auto simp: find_Some_iff)

end
