(* ===== verification/Api_Login.thy ===== *)
theory Api_Login
  imports Netip
begin

text \<open>The throttle of failed sign-ins (\<^verbatim>\<open>api/ratelimit.go\<close>): for every source address the failures of its
  current window and, after a burst of them, until when it is refused. A zero \<^verbatim>\<open>time.Time\<close> is \<^const>\<open>None\<close>.
  The main result bounds how many passwords one source can have compared in any quarter of an hour as long
  as its attempts do not overlap; overlapping attempts are not bounded at all.\<close>

definition loginBurst :: nat where "loginBurst = 5"
definition loginWindow :: duration where "loginWindow = 15 * minute"
definition loginBlock :: duration where "loginBlock = 15 * minute"

record loginAttempts =
  la_failures :: nat
  la_first :: time
  la_blockedUntil :: "time option"

type_synonym login_limiter = "(string \<times> loginAttempts) list"

definition newLoginLimiter :: login_limiter where "newLoginLimiter = []"

definition before :: "time \<Rightarrow> time option \<Rightarrow> bool" where
  "before now t = (case t of None \<Rightarrow> False | Some x \<Rightarrow> now < x)"

definition after :: "time \<Rightarrow> time option \<Rightarrow> bool" where
  "after now t = (case t of None \<Rightarrow> True | Some x \<Rightarrow> x < now)"

definition login_allow :: "time \<Rightarrow> string \<Rightarrow> login_limiter \<Rightarrow> login_limiter \<times> bool \<times> duration" where
  "login_allow now key l =
     (case map_of l key of
        None \<Rightarrow> (l, True, 0)
      | Some entry \<Rightarrow>
          if before now (la_blockedUntil entry) then (l, False, the (la_blockedUntil entry) - now)
          else if la_blockedUntil entry \<noteq> None then (al_del key l, True, 0)
          else (l, True, 0))"

definition recordFailure :: "time \<Rightarrow> string \<Rightarrow> login_limiter \<Rightarrow> login_limiter" where
  "recordFailure now key l =
     (let fresh = al_put key \<lparr>la_failures = 1, la_first = now, la_blockedUntil = None\<rparr> l
      in case map_of l key of
           None \<Rightarrow> fresh
         | Some entry \<Rightarrow>
             if now - la_first entry > loginWindow then fresh
             else let n = Suc (la_failures entry)
                  in al_put key (entry\<lparr>la_failures := n,
                       la_blockedUntil := (if n \<ge> loginBurst then Some (now + loginBlock) else la_blockedUntil entry)\<rparr>) l)"

definition recordSuccess :: "string \<Rightarrow> login_limiter \<Rightarrow> login_limiter" where
  "recordSuccess key l = al_del key l"

definition login_sweep :: "time \<Rightarrow> login_limiter \<Rightarrow> login_limiter" where
  "login_sweep now l =
     filter (\<lambda>(k, entry). \<not> (after now (la_blockedUntil entry) \<and> now - la_first entry > loginWindow)) l"

definition limiterKey :: "string \<Rightarrow> string" where
  "limiterKey remote = (case SplitHostPort remote of None \<Rightarrow> remote | Some (host, _) \<Rightarrow> host)"

section \<open>Sign-ins one after the other\<close>

text \<open>An attempt asks the throttle, compares the password if it may, and records the outcome.\<close>

datatype login_event =
    Attempt time string bool
  | Sweep time

fun event_time :: "login_event \<Rightarrow> time" where
  "event_time (Attempt t _ _) = t"
| "event_time (Sweep t) = t"

text \<open>The state of a run: the clock, the throttle, and for each source the times of the wrong passwords
  compared since its last success, newest first.\<close>

record login_run =
  lr_clock :: time
  lr_limiter :: login_limiter
  lr_guesses :: "string \<Rightarrow> time list"

definition login_step :: "login_run \<Rightarrow> login_event \<Rightarrow> login_run" where
  "login_step s e =
     (case e of
        Sweep t \<Rightarrow> s\<lparr>lr_clock := t, lr_limiter := login_sweep t (lr_limiter s)\<rparr>
      | Attempt t key correct \<Rightarrow>
          (case login_allow t key (lr_limiter s) of
             (l, False, _) \<Rightarrow> s\<lparr>lr_clock := t, lr_limiter := l\<rparr>
           | (l, True, _) \<Rightarrow>
               if correct
               then s\<lparr>lr_clock := t, lr_limiter := recordSuccess key l, lr_guesses := (lr_guesses s)(key := [])\<rparr>
               else s\<lparr>lr_clock := t, lr_limiter := recordFailure t key l,
                      lr_guesses := (lr_guesses s)(key := t # lr_guesses s key)\<rparr>))"

fun in_order :: "time \<Rightarrow> login_event list \<Rightarrow> bool" where
  "in_order t [] = True"
| "in_order t (e # es) = (t \<le> event_time e \<and> in_order (event_time e) es)"

definition recent :: "time \<Rightarrow> time list \<Rightarrow> nat" where
  "recent t gs = length (filter (\<lambda>x. x > t - loginWindow) gs)"

text \<open>Where the guesses of a source stand: those of the current window are in its record, and of the
  earlier ones at most four are recent when the window opens.\<close>

definition placed :: "time \<Rightarrow> time list \<Rightarrow> loginAttempts option \<Rightarrow> bool" where
  "placed clock gs entry =
     (case entry of
        None \<Rightarrow> recent clock gs \<le> 4 \<and> (\<forall>x \<in> set gs. x \<le> clock)
      | Some e \<Rightarrow>
          (\<exists>cur old. gs = cur @ old \<and> cur \<noteq> [] \<and> length cur = la_failures e
             \<and> (\<forall>x \<in> set cur. la_first e \<le> x \<and> x \<le> clock) \<and> (\<forall>x \<in> set old. x \<le> la_first e)
             \<and> recent (la_first e) old \<le> 4
             \<and> (case la_blockedUntil e of
                  None \<Rightarrow> la_failures e \<le> 4
                | Some b \<Rightarrow> la_failures e = 5 \<and> (\<forall>x \<in> set cur. x + loginBlock \<le> b))))"

definition login_ok :: "login_run \<Rightarrow> bool" where
  "login_ok s \<longleftrightarrow> distinct (al_keys (lr_limiter s))
     \<and> (\<forall>key. placed (lr_clock s) (lr_guesses s key) (map_of (lr_limiter s) key))"

lemma recent_Nil [simp]: "recent t [] = 0"
  by (simp add: recent_def)

lemma recent_append [simp]: "recent t (xs @ ys) = recent t xs + recent t ys"
  by (simp add: recent_def)

lemma recent_le_length: "recent t xs \<le> length xs"
  by (simp add: recent_def)

lemma recent_mono: "t \<le> t' \<Longrightarrow> recent t' xs \<le> recent t xs"
  by (induction xs) (auto simp: recent_def)

lemma recent_none: "\<forall>x \<in> set xs. x \<le> t - loginWindow \<Longrightarrow> recent t xs = 0"
  by (auto simp: recent_def filter_empty_conv)

text \<open>A window that has run out, by its block or by its age, leaves at most four recent guesses.\<close>

lemma window_over:
  assumes "placed t0 gs (Some e)" "t0 \<le> t"
    and "(case la_blockedUntil e of None \<Rightarrow> t - la_first e > loginWindow | Some b \<Rightarrow> b \<le> t)"
  shows "placed t gs None"
proof -
  from assms(1) obtain cur old where w: "gs = cur @ old" "cur \<noteq> []" "length cur = la_failures e"
    "\<forall>x \<in> set cur. la_first e \<le> x \<and> x \<le> t0" "\<forall>x \<in> set old. x \<le> la_first e"
    "case la_blockedUntil e of None \<Rightarrow> la_failures e \<le> 4 | Some b \<Rightarrow> la_failures e = 5 \<and> (\<forall>x \<in> set cur. x + loginBlock \<le> b)"
    by (auto simp: placed_def)
  obtain x where x: "x \<in> set cur" using w(2) by (meson list.set_sel(1))
  have past: "la_first e \<le> t0" using w(4) x by fastforce
  have "recent t cur \<le> 4"
  proof (cases "la_blockedUntil e")
    case None
    with w(3,6) recent_le_length [of t cur] show ?thesis by simp
  next
    case (Some b)
    with w(6) assms(3) have "\<forall>x \<in> set cur. x \<le> t - loginWindow" by (auto simp: loginWindow_def loginBlock_def)
    then show ?thesis by (simp add: recent_none)
  qed
  moreover have "la_first e \<le> t - loginWindow"
  proof (cases "la_blockedUntil e")
    case (Some b)
    have "la_first e \<le> x" using w(4) x by blast
    moreover have "x + loginBlock \<le> t" using w(6) x assms(3) Some by force
    ultimately show ?thesis by (simp add: loginWindow_def loginBlock_def)
  qed (use assms(3) in simp)
  then have "recent t old = 0" using w(5) by (intro recent_none) auto
  ultimately show ?thesis using w(1,4,5) past assms(2) by (auto simp: placed_def)
qed

lemma placed_later: "placed t0 gs entry \<Longrightarrow> t0 \<le> t \<Longrightarrow> placed t gs entry"
  unfolding placed_def
  using recent_mono [of t0 t gs] by (fastforce split: option.splits)

lemma placed_SomeI:
  assumes "gs = cur @ old" "cur \<noteq> []" "length cur = la_failures e"
    "\<forall>x \<in> set cur. la_first e \<le> x \<and> x \<le> clock" "\<forall>x \<in> set old. x \<le> la_first e"
    "recent (la_first e) old \<le> 4"
    "case la_blockedUntil e of None \<Rightarrow> la_failures e \<le> 4
     | Some b \<Rightarrow> la_failures e = 5 \<and> (\<forall>x \<in> set cur. x + loginBlock \<le> b)"
  shows "placed clock gs (Some e)"
  using assms unfolding placed_def by (simp only: option.case) blast

lemma placed_first_guess:
  assumes "placed t gs None"
  shows "placed t (t # gs) (Some \<lparr>la_failures = 1, la_first = t, la_blockedUntil = None\<rparr>)"
  by (rule placed_SomeI [of _ "[t]" gs]) (use assms in \<open>auto simp: placed_def\<close>)

lemma placed_next_guess:
  assumes "placed t gs (Some e)" "la_blockedUntil e = None" "\<not> t - la_first e > loginWindow"
  shows "placed t (t # gs) (Some (e\<lparr>la_failures := Suc (la_failures e),
           la_blockedUntil := (if Suc (la_failures e) \<ge> loginBurst then Some (t + loginBlock) else la_blockedUntil e)\<rparr>))"
proof -
  from assms(1,2) obtain cur old where w: "gs = cur @ old" "cur \<noteq> []" "length cur = la_failures e" "la_failures e \<le> 4"
    "\<forall>x \<in> set cur. la_first e \<le> x \<and> x \<le> t" "\<forall>x \<in> set old. x \<le> la_first e" "recent (la_first e) old \<le> 4"
    by (auto simp: placed_def)
  have "la_first e \<le> t" using w(2,5) by (meson list.set_sel(1) order_trans)
  then show ?thesis using w assms(2)
    by (intro placed_SomeI [of _ "t # cur" old]) (auto simp: loginBurst_def)
qed

lemma login_allow_within:
  assumes "placed t gs (map_of l key)" "login_allow t key l = (l', True, d)"
  shows "placed t gs (map_of l' key) \<and> (\<forall>e. map_of l' key = Some e \<longrightarrow> la_blockedUntil e = None)
    \<and> (\<forall>k. k \<noteq> key \<longrightarrow> map_of l' k = map_of l k)"
proof (cases "map_of l key")
  case None
  with assms show ?thesis by (auto simp: login_allow_def)
next
  case (Some e)
  show ?thesis
  proof (cases "la_blockedUntil e")
    case None
    with Some assms show ?thesis by (auto simp: login_allow_def before_def)
  next
    case (Some b)
    with \<open>map_of l key = Some e\<close> assms(2) have "l' = al_del key l" "b \<le> t"
      by (auto simp: login_allow_def before_def split: if_splits)
    with Some \<open>map_of l key = Some e\<close> assms(1) window_over [of t gs e t] show ?thesis by simp
  qed
qed

lemma recordFailure_within:
  assumes "placed t gs (map_of l key)" "\<forall>e. map_of l key = Some e \<longrightarrow> la_blockedUntil e = None"
  shows "placed t (t # gs) (map_of (recordFailure t key l) key)"
proof (cases "map_of l key")
  case None
  with assms placed_first_guess show ?thesis by (simp add: recordFailure_def)
next
  case (Some e)
  then have e: "la_blockedUntil e = None" "placed t gs (Some e)" using assms by auto
  show ?thesis
  proof (cases "t - la_first e > loginWindow")
    case True
    with e have "placed t gs None" by (intro window_over [OF e(2)]) auto
    with True Some placed_first_guess show ?thesis by (simp add: recordFailure_def)
  next
    case False
    with placed_next_guess [OF e(2,1)] Some show ?thesis by (simp add: recordFailure_def Let_def)
  qed
qed

lemma recordFailure_other: "k \<noteq> key \<Longrightarrow> map_of (recordFailure t key l) k = map_of l k"
  by (simp add: recordFailure_def Let_def split: option.splits)

lemma limiter_distinct [go_inv]:
  "distinct (al_keys l) \<Longrightarrow> distinct (al_keys (recordFailure t key l))"
  "distinct (al_keys l) \<Longrightarrow> distinct (al_keys (recordSuccess key l))"
  "distinct (al_keys l) \<Longrightarrow> distinct (al_keys (login_sweep t l))"
  "distinct (al_keys l) \<Longrightarrow> distinct (al_keys (fst (login_allow t key l)))"
  by (auto simp: recordFailure_def recordSuccess_def login_sweep_def login_allow_def Let_def
      distinct_al_put distinct_al_del distinct_filter_keys split: option.splits)

lemma login_sweep_within:
  assumes "distinct (al_keys l)" "placed t gs (map_of l key)"
  shows "placed t gs (map_of (login_sweep t l) key)"
proof (cases "map_of l key")
  case None
  then have "map_of (login_sweep t l) key = None"
    by (auto simp: login_sweep_def map_of_eq_None_iff image_iff)
  with None assms show ?thesis by simp
next
  case (Some e)
  show ?thesis
  proof (cases "after t (la_blockedUntil e) \<and> t - la_first e > loginWindow")
    case True
    have "map_of (login_sweep t l) key = None"
      using Some True assms(1)
      by (auto simp: login_sweep_def map_of_eq_None_iff image_iff dest!: map_of_is_SomeI [OF assms(1)])
    moreover have "placed t gs None"
      using assms(2) Some True
      by (intro window_over [of t gs e]) (auto simp: after_def split: option.splits)
    ultimately show ?thesis by simp
  next
    case False
    have "(key, e) \<in> set (login_sweep t l)" using False map_of_SomeD [OF Some] by (auto simp: login_sweep_def)
    then have "map_of (login_sweep t l) key = Some e"
      using limiter_distinct(3) [OF assms(1)] by (simp add: map_of_is_SomeI)
    with assms(2) Some show ?thesis by simp
  qed
qed

lemma login_step_ok:
  assumes "login_ok s" "lr_clock s \<le> event_time e"
  shows "login_ok (login_step s e) \<and> lr_clock (login_step s e) = event_time e"
proof -
  let ?l = "lr_limiter s"
  have w: "placed (event_time e) (lr_guesses s key) (map_of ?l key)" for key
    using assms by (auto simp: login_ok_def intro: placed_later)
  have dist: "distinct (al_keys ?l)" using assms(1) by (simp add: login_ok_def)
  show ?thesis
  proof (cases e)
    case (Sweep t)
    with w dist login_sweep_within limiter_distinct(3) show ?thesis
      by (simp add: login_step_def login_ok_def)
  next
    case (Attempt t key correct)
    obtain l' ok d where a: "login_allow t key ?l = (l', ok, d)" by (cases "login_allow t key ?l")
    have dist': "distinct (al_keys l')" using limiter_distinct(4) [OF dist, of t key] a by simp
    show ?thesis
    proof (cases ok)
      case False
      with a have "l' = ?l" by (auto simp: login_allow_def split: option.splits if_splits)
      with False a w dist Attempt show ?thesis by (simp add: login_step_def login_ok_def)
    next
      case True
      from w [of key] Attempt have "placed t (lr_guesses s key) (map_of ?l key)" by simp
      from login_allow_within [OF this] a True have
        l': "placed t (lr_guesses s key) (map_of l' key)" "\<forall>e. map_of l' key = Some e \<longrightarrow> la_blockedUntil e = None"
          "\<forall>k. k \<noteq> key \<longrightarrow> map_of l' k = map_of ?l k" by auto
      have none: "placed t [] None" by (simp add: placed_def)
      show ?thesis
        using True a w dist' Attempt l' none recordFailure_within [OF l'(1,2)] recordFailure_other limiter_distinct(1,2) [OF dist']
        by (cases correct) (auto simp: login_step_def login_ok_def recordSuccess_def)
    qed
  qed
qed

lemma login_run_ok:
  "login_ok s \<Longrightarrow> in_order (lr_clock s) es \<Longrightarrow> login_ok (foldl login_step s es)"
proof (induction es arbitrary: s)
  case (Cons e es)
  with login_step_ok [of s e] show ?case by simp
qed simp

lemma placed_recent: "placed t gs entry \<Longrightarrow> recent t gs \<le> 9"
proof (cases entry)
  case (Some e)
  assume "placed t gs entry"
  with Some obtain cur old where w: "gs = cur @ old" "cur \<noteq> []" "length cur = la_failures e"
    "\<forall>x \<in> set cur. la_first e \<le> x \<and> x \<le> t" "recent (la_first e) old \<le> 4" "la_failures e \<le> 5"
    by (auto simp: placed_def split: option.splits)
  have "la_first e \<le> t" using w(2,4) by (meson list.set_sel(1) order_trans)
  then show ?thesis
    using w recent_mono [of "la_first e" t old] recent_le_length [of t cur] by simp
qed (simp add: placed_def)

definition fresh_login :: "time \<Rightarrow> login_run" where
  "fresh_login t = \<lparr>lr_clock = t, lr_limiter = newLoginLimiter, lr_guesses = \<lambda>_. []\<rparr>"

lemma fresh_login_ok: "login_ok (fresh_login t)"
  by (simp add: fresh_login_def login_ok_def newLoginLimiter_def placed_def)

text \<open>C10. However the sign-ins of all sources follow one another, at no moment has one source had more than
  nine wrong passwords compared within the last fifteen minutes since it last signed in: four of a window
  that ran out and five of the next, which then closes for fifteen minutes.\<close>

theorem guesses_bounded:
  assumes "in_order t es"
  shows "recent (lr_clock (foldl login_step (fresh_login t) es))
           (lr_guesses (foldl login_step (fresh_login t) es) key) \<le> 9"
proof -
  have "login_ok (foldl login_step (fresh_login t) es)"
    using login_run_ok [OF fresh_login_ok, of t es] assms by (simp add: fresh_login_def)
  then show ?thesis by (auto simp: login_ok_def intro: placed_recent)
qed

definition ex_logins :: "login_event list" where
  "ex_logins = map (\<lambda>i. Attempt (14 * minute + i * second) ''10.0.0.1'' False) [0, 60, 61, 62, 63, 64]"

theorem guesses_bounded_witness:
  "recent (lr_clock (foldl login_step (fresh_login 0) (Attempt 0 ''10.0.0.1'' False # ex_logins)))
     (lr_guesses (foldl login_step (fresh_login 0) (Attempt 0 ''10.0.0.1'' False # ex_logins)) ''10.0.0.1'') \<le> 9
   \<and> lr_guesses (foldl login_step (fresh_login 0) (Attempt 0 ''10.0.0.1'' False # ex_logins)) ''10.0.0.1'' \<noteq> []"
proof (rule conjI)
  show "recent (lr_clock (foldl login_step (fresh_login 0) (Attempt 0 ''10.0.0.1'' False # ex_logins)))
     (lr_guesses (foldl login_step (fresh_login 0) (Attempt 0 ''10.0.0.1'' False # ex_logins)) ''10.0.0.1'') \<le> 9"
    by (rule guesses_bounded) (simp add: ex_logins_def)
qed code_simp

section \<open>Overlapping sign-ins\<close>

text \<open>The throttle is asked before the password is compared and told after it: sign-ins that start
  together are all admitted, however many they are.\<close>

theorem overlapping_guesses_unbounded:
  "foldl (\<lambda>(l, oks) _. case login_allow t key l of (l, ok, _) \<Rightarrow> (l, oks @ [ok])) (newLoginLimiter, []) [0..<n]
     = (newLoginLimiter, replicate n True)"
  by (induction n) (simp_all add: login_allow_def newLoginLimiter_def replicate_append_same)

end
