(* ===== verification/Api_Users.thy ===== *)
theory Api_Users
  imports Store_Users Api_Login
begin

text \<open>Operator accounts over the control plane: the errors every endpoint answers with
  (\<^verbatim>\<open>api/respond.go\<close>), sessions and sign-in (\<^verbatim>\<open>api/auth.go\<close>) and the management of accounts
  (\<^verbatim>\<open>api/users.go\<close>). Password hashing and signed tokens belong to bcrypt and to the JWT library: they are
  the fields of \<open>crypto\<close>. A body reaches a handler decoded, or as the error of decoding it, and \<open>io\<close>
  gives the failure of each database call.\<close>

section \<open>Replies\<close>

datatype api_error =
    Invalid validation_error
  | Db db_error
  | errUnauthorized
  | errForbidden
  | errBadRequest string
  | Internal string

datatype reply_body =
    NoReply
  | ErrorBody string validation_error
  | UserBody user
  | UsersBody "user list"
  | LoginBody string time user

record reply =
  rp_status :: int
  rp_retryAfter :: "int option"
  rp_body :: reply_body

definition writeJSON :: "int \<Rightarrow> reply_body \<Rightarrow> reply" where
  "writeJSON status b = \<lparr>rp_status = status, rp_retryAfter = None, rp_body = (if status = 204 then NoReply else b)\<rparr>"

definition writeError :: "api_error \<Rightarrow> reply" where
  "writeError err =
     (case err of
        Invalid v \<Rightarrow> writeJSON 422 (ErrorBody ''the submitted values are not valid'' v)
      | Db e \<Rightarrow>
          (case e of
             ErrNotFound \<Rightarrow> writeJSON 404 (ErrorBody ''not found'' [])
           | ErrConflict m \<Rightarrow> writeJSON 409 (ErrorBody m [])
           | ErrInUse m \<Rightarrow> writeJSON 409 (ErrorBody m [])
           | DbError _ \<Rightarrow> writeJSON 500 (ErrorBody ''the request could not be completed'' []))
      | errUnauthorized \<Rightarrow> writeJSON 401 (ErrorBody ''authentication required'' [])
      | errForbidden \<Rightarrow> writeJSON 403 (ErrorBody ''this account may not change configuration'' [])
      | errBadRequest m \<Rightarrow> writeJSON 400 (ErrorBody m [])
      | Internal _ \<Rightarrow> writeJSON 500 (ErrorBody ''the request could not be completed'' []))"

text \<open>\<^verbatim>\<open>errors.Join(errBadRequest, err)\<close>.\<close>

definition bad_request :: "string \<Rightarrow> api_error" where
  "bad_request m = errBadRequest (''bad request'' @ [CHR 0x0A] @ m)"

section \<open>Sessions\<close>

record claims =
  cl_Subject :: string
  cl_IssuedAt :: time
  cl_ExpiresAt :: time
  cl_Issuer :: string
  cl_Role :: string

text \<open>\<open>cr_parse now raw\<close> is the outcome of verifying a token: signature, algorithm, issuer and expiry.\<close>

record crypto =
  cr_compare :: "string \<Rightarrow> string \<Rightarrow> bool"
  cr_hash :: "string \<Rightarrow> string option"
  cr_sign :: "claims \<Rightarrow> string option"
  cr_parse :: "time \<Rightarrow> string \<Rightarrow> claims option"

record principal =
  pr_UserID :: int
  pr_Role :: string

record api_server =
  sv_users :: users_table
  sv_logins :: login_limiter
  sv_decoyHash :: string
  sv_SessionTTL :: duration

record session_request =
  aq_RemoteAddr :: string
  aq_Authorization :: string
  aq_tokenParam :: string

definition hashPasswordAt :: "crypto \<Rightarrow> string \<Rightarrow> api_error + string" where
  "hashPasswordAt cr plain = (case cr_hash cr plain of None \<Rightarrow> Inl (Internal ''hash password'') | Some h \<Rightarrow> Inr h)"

text \<open>The dates of a token are whole seconds.\<close>

definition issueToken :: "crypto \<Rightarrow> time \<Rightarrow> duration \<Rightarrow> user \<Rightarrow> api_error + string \<times> time" where
  "issueToken cr now ttl u =
     (case cr_sign cr \<lparr>cl_Subject = itoa (us_ID u), cl_IssuedAt = from_unix (unix now),
        cl_ExpiresAt = from_unix (unix (now + ttl)), cl_Issuer = ''ponzproxy'', cl_Role = us_Role u\<rparr> of
        None \<Rightarrow> Inl (Internal ''sign session token'')
      | Some tok \<Rightarrow> Inr (tok, now + ttl))"

definition parseToken :: "crypto \<Rightarrow> time \<Rightarrow> string \<Rightarrow> api_error + claims" where
  "parseToken cr now raw = (case cr_parse cr now raw of None \<Rightarrow> Inl errUnauthorized | Some c \<Rightarrow> Inr c)"

definition bearerToken :: "session_request \<Rightarrow> string" where
  "bearerToken r =
     (case (if aq_Authorization r \<noteq> [] then cut_prefix (aq_Authorization r) ''Bearer '' else None) of
        Some tok \<Rightarrow> trim_space tok
      | None \<Rightarrow> trim_space (aq_tokenParam r))"

definition authenticate :: "crypto \<Rightarrow> time \<Rightarrow> session_request \<Rightarrow> api_error + principal" where
  "authenticate cr now r =
     (let raw = bearerToken r
      in if raw = [] then Inl errUnauthorized
         else case parseToken cr now raw of
           Inl e \<Rightarrow> Inl e
         | Inr c \<Rightarrow>
             (case parse_int (cl_Subject c) of
                None \<Rightarrow> Inl errUnauthorized
              | Some userID \<Rightarrow> Inr \<lparr>pr_UserID = userID, pr_Role = cl_Role c\<rparr>))"

definition requireWrite :: "principal option \<Rightarrow> api_error option" where
  "requireWrite p = (case p of None \<Rightarrow> Some errForbidden | Some p \<Rightarrow> if CanWrite (pr_Role p) then None else Some errForbidden)"

section \<open>Signing in\<close>

datatype db_call =
    QList | QGetByUsername | QGetByID | QCreate | QUpdatePassword | QTouchLogin | QUpdateRole
  | QCountAdmins | QDelete | QCount

type_synonym faults = "db_call \<Rightarrow> string option"

record loginRequest =
  lq_Username :: string
  lq_Password :: string

definition bad_login :: reply where
  "bad_login = writeJSON 401 (ErrorBody ''the username or password is incorrect'' [])"

definition handleLogin :: "crypto \<Rightarrow> faults \<Rightarrow> time \<Rightarrow> session_request \<Rightarrow> string + loginRequest \<Rightarrow> api_server \<Rightarrow> api_server \<times> reply" where
  "handleLogin cr io now r body s =
     (let source = limiterKey (aq_RemoteAddr r)
      in case login_allow now source (sv_logins s) of
        (l, False, retryAfter) \<Rightarrow>
          (s\<lparr>sv_logins := l\<rparr>,
           (writeJSON 429 (ErrorBody ''too many failed sign-in attempts; try again later'' []))
             \<lparr>rp_retryAfter := Some (go_quot retryAfter second + 1)\<rparr>)
      | (l, True, _) \<Rightarrow>
          let s = s\<lparr>sv_logins := l\<rparr>
          in case body of
            Inl e \<Rightarrow> (s, writeError (bad_request e))
          | Inr req \<Rightarrow>
              (case GetByUsername (io QGetByUsername) (lq_Username req) (sv_users s) of
                 Inl ErrNotFound \<Rightarrow>
                   let _ = cr_compare cr (sv_decoyHash s) (lq_Password req)
                   in (s\<lparr>sv_logins := recordFailure now source (sv_logins s)\<rparr>, bad_login)
               | Inl e \<Rightarrow> (s, writeError (Db e))
               | Inr user \<Rightarrow>
                   if \<not> cr_compare cr (us_PasswordHash user) (lq_Password req)
                   then (s\<lparr>sv_logins := recordFailure now source (sv_logins s)\<rparr>, bad_login)
                   else
                     let s = s\<lparr>sv_logins := recordSuccess source (sv_logins s)\<rparr>
                     in case issueToken cr now (sv_SessionTTL s) user of
                          Inl e \<Rightarrow> (s, writeError e)
                        | Inr (tok, expires) \<Rightarrow>
                            (s\<lparr>sv_users := fst (TouchLogin (io QTouchLogin) (us_ID user) now (sv_users s))\<rparr>,
                             writeJSON 200 (LoginBody tok expires user))))"

definition handleCurrentUser :: "faults \<Rightarrow> principal option \<Rightarrow> api_server \<Rightarrow> api_server \<times> reply" where
  "handleCurrentUser io p s =
     (case p of
        None \<Rightarrow> (s, writeError errUnauthorized)
      | Some p \<Rightarrow>
          (case GetByID (io QGetByID) (pr_UserID p) (sv_users s) of
             Inl e \<Rightarrow> (s, writeError (Db e))
           | Inr u \<Rightarrow> (s, writeJSON 200 (UserBody u))))"

record changePasswordRequest =
  cp_CurrentPassword :: string
  cp_NewPassword :: string

text \<open>The end every change of a password shares: validate, hash, store.\<close>

definition store_password :: "crypto \<Rightarrow> faults \<Rightarrow> int \<Rightarrow> string \<Rightarrow> string \<Rightarrow> api_server \<Rightarrow> api_server \<times> reply" where
  "store_password cr io i username password s =
     (case ValidateCredentials username password of
        Some v \<Rightarrow> (s, writeError (Invalid v))
      | None \<Rightarrow>
          (case hashPasswordAt cr password of
             Inl e \<Rightarrow> (s, writeError e)
           | Inr h \<Rightarrow>
               (case UpdatePassword (io QUpdatePassword) i h (sv_users s) of
                  (t, Some e) \<Rightarrow> (s\<lparr>sv_users := t\<rparr>, writeError (Db e))
                | (t, None) \<Rightarrow> (s\<lparr>sv_users := t\<rparr>, writeJSON 204 NoReply))))"

definition handleChangePassword :: "crypto \<Rightarrow> faults \<Rightarrow> principal option \<Rightarrow> string + changePasswordRequest \<Rightarrow> api_server \<Rightarrow> api_server \<times> reply" where
  "handleChangePassword cr io p body s =
     (case p of
        None \<Rightarrow> (s, writeError errUnauthorized)
      | Some p \<Rightarrow>
          (case body of
             Inl e \<Rightarrow> (s, writeError (bad_request e))
           | Inr req \<Rightarrow>
               (case GetByID (io QGetByID) (pr_UserID p) (sv_users s) of
                  Inl e \<Rightarrow> (s, writeError (Db e))
                | Inr user \<Rightarrow>
                    if \<not> cr_compare cr (us_PasswordHash user) (cp_CurrentPassword req)
                    then (s, writeJSON 401 (ErrorBody ''the current password is incorrect'' []))
                    else store_password cr io (us_ID user) (us_Username user) (cp_NewPassword req) s)))"

definition EnsureBootstrapUser :: "crypto \<Rightarrow> faults \<Rightarrow> time \<Rightarrow> string \<Rightarrow> users_table \<Rightarrow> users_table \<times> (api_error + bool)" where
  "EnsureBootstrapUser cr io now password t =
     (case Users_Count (io QCount) t of
        Inl e \<Rightarrow> (t, Inl (Db e))
      | Inr n \<Rightarrow>
          if n > 0 then (t, Inr False)
          else case hashPasswordAt cr password of
            Inl e \<Rightarrow> (t, Inl e)
          | Inr h \<Rightarrow>
              (case Users_Create (io QCreate) now \<lparr>us_ID = 0, us_Username = ''admin'', us_PasswordHash = h,
                      us_Role = RoleAdmin, us_CreatedAt = 0, us_LastLoginAt = None\<rparr> t of
                 (t, Inl e) \<Rightarrow> (t, Inl (Db e))
               | (t, Inr _) \<Rightarrow> (t, Inr True)))"

section \<open>Managing accounts\<close>

record userPayload =
  up_Username :: string
  up_Password :: string
  up_Role :: string

definition role_invalid :: api_error where
  "role_invalid = Invalid (v_Add ''role'' ''must be admin or viewer'' [] [])"

definition pathID :: "string \<Rightarrow> api_error + int" where
  "pathID raw =
     (case parse_int raw of
        None \<Rightarrow> Inl (bad_request ''the id in the path is not valid'')
      | Some i \<Rightarrow> if i \<le> 0 then Inl (bad_request ''the id in the path is not valid'') else Inr i)"

definition userTarget :: "string \<Rightarrow> principal option \<Rightarrow> api_error + int \<times> principal" where
  "userTarget raw p =
     (case pathID raw of
        Inl e \<Rightarrow> Inl e
      | Inr i \<Rightarrow> (case p of None \<Rightarrow> Inl errUnauthorized | Some caller \<Rightarrow> Inr (i, caller)))"

definition refuseIfLastAdmin :: "faults \<Rightarrow> users_table \<Rightarrow> api_error option" where
  "refuseIfLastAdmin io t =
     (case CountAdmins (io QCountAdmins) t of
        Inl e \<Rightarrow> Some (Db e)
      | Inr n \<Rightarrow> if n \<le> 1 then Some (bad_request ''this is the only administrator; promote another account first'') else None)"

definition handleListUsers :: "faults \<Rightarrow> api_server \<Rightarrow> api_server \<times> reply" where
  "handleListUsers io s =
     (case Users_List (io QList) (sv_users s) of
        Inl e \<Rightarrow> (s, writeError (Db e))
      | Inr us \<Rightarrow> (s, writeJSON 200 (UsersBody us)))"

definition handleCreateUser :: "crypto \<Rightarrow> faults \<Rightarrow> time \<Rightarrow> string + userPayload \<Rightarrow> api_server \<Rightarrow> api_server \<times> reply" where
  "handleCreateUser cr io now body s =
     (case body of
        Inl e \<Rightarrow> (s, writeError (bad_request e))
      | Inr payload \<Rightarrow>
          let username = NormalizeUsername (up_Username payload)
          in case ValidateCredentials username (up_Password payload) of
               Some v \<Rightarrow> (s, writeError (Invalid v))
             | None \<Rightarrow>
                 if \<not> Role_Valid (up_Role payload) then (s, writeError role_invalid)
                 else case hashPasswordAt cr (up_Password payload) of
                   Inl e \<Rightarrow> (s, writeError e)
                 | Inr h \<Rightarrow>
                     (case Users_Create (io QCreate) now \<lparr>us_ID = 0, us_Username = username, us_PasswordHash = h,
                             us_Role = up_Role payload, us_CreatedAt = 0, us_LastLoginAt = None\<rparr> (sv_users s) of
                        (t, Inl e) \<Rightarrow>
                          (s\<lparr>sv_users := t\<rparr>,
                           if errorIsConflict e then writeError (Invalid (v_Add ''username'' ''is already taken'' [] []))
                           else writeError (Db e))
                      | (t, Inr u) \<Rightarrow> (s\<lparr>sv_users := t\<rparr>, writeJSON 201 (UserBody u))))"

text \<open>\<^verbatim>\<open>handleUpdateUserRole\<close> and \<^verbatim>\<open>handleDeleteUser\<close> in two parts, the guards and the write: other requests
  run between them.\<close>

definition update_role_check :: "faults \<Rightarrow> string \<Rightarrow> principal option \<Rightarrow> string + string \<Rightarrow> users_table \<Rightarrow> api_error + int \<times> string" where
  "update_role_check io raw p body t =
     (case userTarget raw p of
        Inl e \<Rightarrow> Inl e
      | Inr (i, caller) \<Rightarrow>
          (case body of
             Inl e \<Rightarrow> Inl (bad_request e)
           | Inr role \<Rightarrow>
               if \<not> Role_Valid role then Inl role_invalid
               else case GetByID (io QGetByID) i t of
                 Inl e \<Rightarrow> Inl (Db e)
               | Inr target \<Rightarrow>
                   if us_Role target = RoleAdmin \<and> role \<noteq> RoleAdmin then
                     if i = pr_UserID caller then Inl (bad_request ''you cannot remove your own administrator access'')
                     else case refuseIfLastAdmin io t of Some e \<Rightarrow> Inl e | None \<Rightarrow> Inr (i, role)
                   else Inr (i, role)))"

definition update_role_commit :: "faults \<Rightarrow> int \<times> string \<Rightarrow> api_server \<Rightarrow> api_server \<times> reply" where
  "update_role_commit io ir s =
     (case UpdateRole (io QUpdateRole) (fst ir) (snd ir) (sv_users s) of
        (t, Some e) \<Rightarrow> (s\<lparr>sv_users := t\<rparr>, writeError (Db e))
      | (t, None) \<Rightarrow> (s\<lparr>sv_users := t\<rparr>, writeJSON 204 NoReply))"

definition handleUpdateUserRole :: "faults \<Rightarrow> string \<Rightarrow> principal option \<Rightarrow> string + string \<Rightarrow> api_server \<Rightarrow> api_server \<times> reply" where
  "handleUpdateUserRole io raw p body s =
     (case update_role_check io raw p body (sv_users s) of
        Inl e \<Rightarrow> (s, writeError e)
      | Inr ir \<Rightarrow> update_role_commit io ir s)"

definition handleResetUserPassword :: "crypto \<Rightarrow> faults \<Rightarrow> string \<Rightarrow> principal option \<Rightarrow> string + string \<Rightarrow> api_server \<Rightarrow> api_server \<times> reply" where
  "handleResetUserPassword cr io raw p body s =
     (case userTarget raw p of
        Inl e \<Rightarrow> (s, writeError e)
      | Inr (i, _) \<Rightarrow>
          (case body of
             Inl e \<Rightarrow> (s, writeError (bad_request e))
           | Inr password \<Rightarrow>
               (case GetByID (io QGetByID) i (sv_users s) of
                  Inl e \<Rightarrow> (s, writeError (Db e))
                | Inr target \<Rightarrow> store_password cr io i (us_Username target) password s)))"

definition delete_check :: "faults \<Rightarrow> string \<Rightarrow> principal option \<Rightarrow> users_table \<Rightarrow> api_error + int" where
  "delete_check io raw p t =
     (case userTarget raw p of
        Inl e \<Rightarrow> Inl e
      | Inr (i, caller) \<Rightarrow>
          if i = pr_UserID caller then Inl (bad_request ''you cannot delete the account you are signed in as'')
          else case GetByID (io QGetByID) i t of
            Inl e \<Rightarrow> Inl (Db e)
          | Inr target \<Rightarrow>
              if us_Role target = RoleAdmin
              then (case refuseIfLastAdmin io t of Some e \<Rightarrow> Inl e | None \<Rightarrow> Inr i)
              else Inr i)"

definition delete_commit :: "faults \<Rightarrow> int \<Rightarrow> api_server \<Rightarrow> api_server \<times> reply" where
  "delete_commit io i s =
     (case Users_Delete (io QDelete) i (sv_users s) of
        (t, Some e) \<Rightarrow> (s\<lparr>sv_users := t\<rparr>, writeError (Db e))
      | (t, None) \<Rightarrow> (s\<lparr>sv_users := t\<rparr>, writeJSON 204 NoReply))"

definition handleDeleteUser :: "faults \<Rightarrow> string \<Rightarrow> principal option \<Rightarrow> api_server \<Rightarrow> api_server \<times> reply" where
  "handleDeleteUser io raw p s =
     (case delete_check io raw p (sv_users s) of
        Inl e \<Rightarrow> (s, writeError e)
      | Inr i \<Rightarrow> delete_commit io i s)"

section \<open>Requests one after the other\<close>

datatype account_request =
    Login session_request "string + loginRequest"
  | ChangePassword "principal option" "string + changePasswordRequest"
  | CreateUser "string + userPayload"
  | UpdateUserRole string "principal option" "string + string"
  | ResetUserPassword string "principal option" "string + string"
  | DeleteUser string "principal option"

fun serve_account :: "crypto \<Rightarrow> api_server \<Rightarrow> faults \<times> time \<times> account_request \<Rightarrow> api_server" where
  "serve_account cr s (io, now, Login r body) = fst (handleLogin cr io now r body s)"
| "serve_account cr s (io, now, ChangePassword p body) = fst (handleChangePassword cr io p body s)"
| "serve_account cr s (io, now, CreateUser body) = fst (handleCreateUser cr io now body s)"
| "serve_account cr s (io, now, UpdateUserRole raw p body) = fst (handleUpdateUserRole io raw p body s)"
| "serve_account cr s (io, now, ResetUserPassword raw p body) = fst (handleResetUserPassword cr io raw p body s)"
| "serve_account cr s (io, now, DeleteUser raw p) = fst (handleDeleteUser io raw p s)"

text \<open>What a request can do to the table of accounts.\<close>

inductive table_step :: "users_table \<Rightarrow> users_table \<Rightarrow> bool" where
  same: "table_step t t"
| touched: "table_step t (fst (TouchLogin fault i now t))"
| password: "table_step t (fst (UpdatePassword fault i h t))"
| created: "table_step t (fst (Users_Create fault now u t))"
| promoted: "table_step t (fst (UpdateRole fault i RoleAdmin t))"
| demoted: "admins t > 1 \<or> (\<forall>r \<in> set (ut_rows t). ru_id r = i \<longrightarrow> ru_role r \<noteq> RoleAdmin) \<Longrightarrow>
    table_step t (fst (UpdateRole fault i role t))"
| deleted: "admins t > 1 \<or> (\<forall>r \<in> set (ut_rows t). ru_id r = i \<longrightarrow> ru_role r \<noteq> RoleAdmin) \<Longrightarrow>
    table_step t (fst (Users_Delete fault i t))"

lemma handleLogin_step: "table_step (sv_users s) (sv_users (fst (handleLogin cr io now r body s)))"
  unfolding handleLogin_def
  by (auto simp: Let_def split: prod.splits bool.splits sum.splits db_error.splits intro: table_step.intros)

lemma store_password_step: "table_step (sv_users s) (sv_users (fst (store_password cr io i n w s)))"
  using password [of "sv_users s" "io QUpdatePassword" i]
  by (auto simp: store_password_def split: option.splits sum.splits prod.splits intro: same)
    (metis fst_conv)+

lemma handleCreateUser_step: "table_step (sv_users s) (sv_users (fst (handleCreateUser cr io now body s)))"
  using created [of "sv_users s" "io QCreate" now]
  by (auto simp: handleCreateUser_def Let_def split: option.splits sum.splits prod.splits intro: same)
    (metis fst_conv)+

lemma refuseIfLastAdmin_None: "refuseIfLastAdmin io t = None \<Longrightarrow> admins t > 1"
  by (auto simp: refuseIfLastAdmin_def CountAdmins_def queried_def split: sum.splits option.splits if_splits)

lemma update_role_check_Inr:
  assumes "users_ok t" "update_role_check io raw p body t = Inr (i, role)"
  shows "role = RoleAdmin \<or> admins t > 1 \<or> (\<forall>r \<in> set (ut_rows t). ru_id r = i \<longrightarrow> ru_role r \<noteq> RoleAdmin)"
proof (rule ccontr)
  assume c: "\<not> ?thesis"
  then obtain r where r: "r \<in> set (ut_rows t)" "ru_id r = i" "ru_role r = RoleAdmin" by auto
  obtain target where "GetByID (io QGetByID) i t = Inr target"
    using assms(2) by (auto simp: update_role_check_def split: sum.splits if_splits option.splits)
  with r find_by_id [OF assms(1), of i r] have "us_Role target = RoleAdmin"
    by (auto simp: GetByID_Inr scanUser_def)
  with c assms(2) \<open>GetByID (io QGetByID) i t = Inr target\<close> have "refuseIfLastAdmin io t = None"
    by (auto simp: update_role_check_def split: sum.splits if_splits option.splits)
  with c refuseIfLastAdmin_None show False by blast
qed

lemma delete_check_Inr:
  assumes "users_ok t" "delete_check io raw p t = Inr i"
  shows "admins t > 1 \<or> (\<forall>r \<in> set (ut_rows t). ru_id r = i \<longrightarrow> ru_role r \<noteq> RoleAdmin)"
proof (rule ccontr)
  assume c: "\<not> ?thesis"
  then obtain r where r: "r \<in> set (ut_rows t)" "ru_id r = i" "ru_role r = RoleAdmin" by auto
  obtain target where g: "GetByID (io QGetByID) i t = Inr target"
    using assms(2) by (auto simp: delete_check_def split: sum.splits if_splits option.splits)
  with r find_by_id [OF assms(1), of i r] have "us_Role target = RoleAdmin"
    by (auto simp: GetByID_Inr scanUser_def)
  with g assms(2) have "refuseIfLastAdmin io t = None"
    by (auto simp: delete_check_def split: sum.splits if_splits option.splits)
  with c refuseIfLastAdmin_None show False by blast
qed

lemma commit_table:
  "sv_users (fst (update_role_commit io ir s)) = fst (UpdateRole (io QUpdateRole) (fst ir) (snd ir) (sv_users s))"
  "sv_users (fst (delete_commit io i s)) = fst (Users_Delete (io QDelete) i (sv_users s))"
  by (auto simp: update_role_commit_def delete_commit_def split: prod.splits option.splits)

lemma serve_account_step:
  assumes "users_ok (sv_users s)"
  shows "table_step (sv_users s) (sv_users (serve_account cr s x))"
proof (cases x)
  case (fields io now req)
  show ?thesis
  proof (cases req)
    case (UpdateUserRole raw p body)
    show ?thesis
    proof (cases "update_role_check io raw p body (sv_users s)")
      case (Inr ir)
      obtain i role where ir: "ir = (i, role)" by (cases ir)
      have "table_step (sv_users s) (fst (UpdateRole (io QUpdateRole) i role (sv_users s)))"
        using update_role_check_Inr [OF assms Inr [unfolded ir]] table_step.promoted table_step.demoted by blast
      with Inr ir UpdateUserRole fields show ?thesis by (simp add: handleUpdateUserRole_def commit_table)
    qed (use UpdateUserRole fields in \<open>simp add: handleUpdateUserRole_def same\<close>)
  next
    case (DeleteUser raw p)
    then show ?thesis
      using fields delete_check_Inr [OF assms, of io raw p]
      by (auto simp: handleDeleteUser_def commit_table split: sum.splits intro: table_step.intros)
  qed (use fields in \<open>auto simp: handleLogin_step handleCreateUser_step handleChangePassword_def handleResetUserPassword_def
         store_password_step split: option.splits sum.splits intro: same\<close>)
qed

lemma admins_map:
  assumes "distinct (map ru_id rs)" "\<And>r. r \<in> set rs \<Longrightarrow> ru_id r = i \<Longrightarrow> P r \<Longrightarrow> k = 1"
  shows "length (filter P rs) \<le> length (filter P (map (\<lambda>r. if ru_id r = i then f r else r) rs)) + k"
  using assms
proof (induction rs)
  case (Cons r rs)
  show ?case
  proof (cases "ru_id r = i")
    case True
    with Cons.prems(1) have "\<forall>x \<in> set rs. ru_id x \<noteq> i" by (auto simp: image_iff)
    then have "map (\<lambda>r. if ru_id r = i then f r else r) rs = rs" by (intro map_idI) auto
    with True Cons.prems(2) [of r] show ?thesis by auto
  next
    case False
    with Cons show ?thesis by auto
  qed
qed simp

lemma admins_filter:
  assumes "distinct (map ru_id rs)" "\<And>r. r \<in> set rs \<Longrightarrow> ru_id r = i \<Longrightarrow> P r \<Longrightarrow> k = 1"
  shows "length (filter P rs) \<le> length (filter P (filter (\<lambda>r. ru_id r \<noteq> i) rs)) + k"
  using assms
proof (induction rs)
  case (Cons r rs)
  show ?case
  proof (cases "ru_id r = i")
    case True
    with Cons.prems(1) have "\<forall>x \<in> set rs. ru_id x \<noteq> i" by (auto simp: image_iff)
    then have "filter (\<lambda>r. ru_id r \<noteq> i) rs = rs" by (simp add: filter_id_conv)
    with True Cons.prems(2) [of r] show ?thesis by auto
  next
    case False
    with Cons show ?thesis by auto
  qed
qed simp

lemma admins_update_same: "(\<And>r. ru_role (f r) = ru_role r) \<Longrightarrow> admins (update_row i f t) = admins t"
  by (simp add: admins_def update_row_def filter_map comp_def if_distrib cong: if_cong)

lemma admins_promote: "admins t \<le> admins (update_row i (ru_role_update (\<lambda>_. RoleAdmin)) t)"
proof -
  have "length (filter (\<lambda>r. ru_role r = RoleAdmin) rs)
    \<le> length (filter (\<lambda>r. ru_role r = RoleAdmin) (map (\<lambda>r. if ru_id r = i then r\<lparr>ru_role := RoleAdmin\<rparr> else r) rs))" for rs
    by (induction rs) auto
  then show ?thesis by (simp add: admins_def update_row_def)
qed

lemma table_step_ok:
  assumes "table_step t t'" "users_ok t" "admins t \<ge> 1"
  shows "users_ok t' \<and> admins t' \<ge> 1"
  using assms
proof cases
  case (created fault now u)
  then show ?thesis using assms users_ok_Create
    by (auto simp: admins_def Users_Create_def Let_def split: option.splits)
next
  case (promoted fault i)
  then have "admins t \<le> admins t'"
    using admins_promote by (auto simp: UpdateRole_def Role_Valid_def split: option.splits)
  then show ?thesis using assms promoted users_ok_UpdateRole by auto
next
  case (demoted i fault role)
  have "admins t \<le> length (filter (\<lambda>r. ru_role r = RoleAdmin)
      (map (\<lambda>r. if ru_id r = i then r\<lparr>ru_role := role\<rparr> else r) (ut_rows t))) + (if admins t > 1 then 1 else 0)"
    unfolding admins_def [of t] using assms(2) demoted(2)
    by (intro admins_map) (auto simp: users_ok_def admins_def)
  then have "admins t \<le> admins (update_row i (ru_role_update (\<lambda>_. role)) t) + (if admins t > 1 then 1 else 0)"
    by (simp add: admins_def update_row_def)
  then have "admins t' \<ge> 1"
    using demoted(1) assms(3) by (auto simp: UpdateRole_def split: option.splits if_splits)
  then show ?thesis using assms demoted users_ok_UpdateRole by auto
next
  case (deleted i fault)
  have "admins t \<le> length (filter (\<lambda>r. ru_role r = RoleAdmin) (filter (\<lambda>r. ru_id r \<noteq> i) (ut_rows t))) + (if admins t > 1 then 1 else 0)"
    unfolding admins_def [of t] using assms(2) deleted(2)
    by (intro admins_filter) (auto simp: users_ok_def admins_def)
  then have "admins t' \<ge> 1"
    using deleted(1) assms(3) by (auto simp: Users_Delete_def admins_def split: option.splits if_splits)
  then show ?thesis using assms deleted users_ok_updates(3) by auto
qed (use users_ok_updates in \<open>auto simp: UpdatePassword_def TouchLogin_def admins_update_same split: option.splits\<close>)

text \<open>C4. Whatever sequence of sign-ins, password changes, creations, role changes and deletions is served, by
  whatever callers and with whatever database failures, the accounts keep unique ids and names and valid
  roles, and there is always an administrator.\<close>

theorem accounts_keep_admin:
  assumes "users_ok (sv_users s)" "admins (sv_users s) \<ge> 1"
  shows "users_ok (sv_users (foldl (serve_account cr) s reqs)) \<and> admins (sv_users (foldl (serve_account cr) s reqs)) \<ge> 1"
  using assms
proof (induction reqs arbitrary: s)
  case (Cons x reqs)
  from table_step_ok [OF serve_account_step [OF Cons.prems(1), of cr x] Cons.prems] Cons.IH show ?case by simp
qed simp

definition ex_row :: "int \<Rightarrow> string \<Rightarrow> user_row" where
  "ex_row i name = \<lparr>ru_id = i, ru_username = name, ru_password_hash = ''h'', ru_role = RoleAdmin, ru_created_at = 0, ru_last_login_at = None\<rparr>"

definition ex_table :: users_table where
  "ex_table = \<lparr>ut_rows = [ex_row 1 ''ada'', ex_row 2 ''bob''], ut_seq = 2\<rparr>"

definition ex_server :: api_server where
  "ex_server = \<lparr>sv_users = ex_table, sv_logins = [], sv_decoyHash = ''d'', sv_SessionTTL = hour\<rparr>"

definition ex_crypto :: crypto where
  "ex_crypto = \<lparr>cr_compare = (=), cr_hash = Some, cr_sign = (\<lambda>c. Some (cl_Role c @ cl_Subject c)), cr_parse = (\<lambda>_ _. None)\<rparr>"

lemma ex_table_ok: "users_ok ex_table" "admins ex_table = 2"
  by (code_simp, code_simp)

theorem accounts_keep_admin_witness:
  "let s = foldl (serve_account ex_crypto) ex_server
     [(\<lambda>_. None, 0, DeleteUser ''2'' (Some \<lparr>pr_UserID = 1, pr_Role = RoleAdmin\<rparr>)),
      (\<lambda>_. None, 1, UpdateUserRole ''1'' (Some \<lparr>pr_UserID = 2, pr_Role = RoleAdmin\<rparr>) (Inr RoleViewer))]
   in length (ut_rows (sv_users s)) = 1 \<and> admins (sv_users s) \<ge> 1"
  using accounts_keep_admin [of ex_server ex_crypto
     "[(\<lambda>_. None, 0, DeleteUser ''2'' (Some \<lparr>pr_UserID = 1, pr_Role = RoleAdmin\<rparr>)),
       (\<lambda>_. None, 1, UpdateUserRole ''1'' (Some \<lparr>pr_UserID = 2, pr_Role = RoleAdmin\<rparr>) (Inr RoleViewer))]"] ex_table_ok
  by (simp only: Let_def) (simp add: ex_server_def, code_simp)

section \<open>Requests that overlap\<close>

lemma two_admins:
  assumes "users_ok t" "admins t = 2" "a \<in> set (ut_rows t)" "b \<in> set (ut_rows t)" "ru_id a \<noteq> ru_id b"
    "ru_role a = RoleAdmin" "ru_role b = RoleAdmin"
    "r \<in> set (ut_rows t)" "ru_role r = RoleAdmin"
  shows "r = a \<or> r = b"
proof -
  let ?A = "set (filter (\<lambda>r. ru_role r = RoleAdmin) (ut_rows t))"
  have "distinct (ut_rows t)" using assms(1) by (simp add: users_ok_def distinct_map)
  then have "card ?A = 2" using assms(2) distinct_card [OF distinct_filter] by (metis admins_def)
  moreover have "a \<noteq> b" using assms(5) by auto
  then have "{a, b} \<subseteq> ?A" "card {a, b} = 2" using assms(3,4,6,7) by auto
  ultimately have "{a, b} = ?A" by (intro card_subset_eq) auto
  with assms(8,9) show ?thesis by auto
qed

lemma demotion_passes:
  assumes "users_ok t" "admins t = 2" "b \<in> set (ut_rows t)" "ru_id b \<noteq> c" "ru_role b = RoleAdmin"
    "parse_int raw = Some (ru_id b)"
  shows "update_role_check (\<lambda>_. None) raw (Some \<lparr>pr_UserID = c, pr_Role = RoleAdmin\<rparr>) (Inr RoleViewer) t
    = Inr (ru_id b, RoleViewer)"
proof -
  have "GetByID None (ru_id b) t = Inr (scanUser b)" using assms by (auto simp: GetByID_Inr find_by_id)
  moreover have "0 < ru_id b" using assms by (auto simp: users_ok_def)
  ultimately show ?thesis using assms
    by (simp add: update_role_check_def userTarget_def pathID_def Role_Valid_def refuseIfLastAdmin_def CountAdmins_def
        queried_def scanUser_def)
qed

text \<open>C39. Requests overlap, and the guards of a role change are checked against a table that may have changed
  when the role is written: with two administrators, each may demote the other and nobody is left.\<close>

theorem overlapping_demotions_lock_out:
  assumes "users_ok t" "admins t = 2"
    and "a \<in> set (ut_rows t)" "b \<in> set (ut_rows t)" "ru_id a \<noteq> ru_id b" "ru_role a = RoleAdmin" "ru_role b = RoleAdmin"
    and "parse_int rawA = Some (ru_id a)" "parse_int rawB = Some (ru_id b)"
    and "sv_users s = t"
  shows "update_role_check (\<lambda>_. None) rawB (Some \<lparr>pr_UserID = ru_id a, pr_Role = RoleAdmin\<rparr>) (Inr RoleViewer) t = Inr (ru_id b, RoleViewer)
    \<and> update_role_check (\<lambda>_. None) rawA (Some \<lparr>pr_UserID = ru_id b, pr_Role = RoleAdmin\<rparr>) (Inr RoleViewer) t = Inr (ru_id a, RoleViewer)
    \<and> admins (sv_users (fst (update_role_commit (\<lambda>_. None) (ru_id a, RoleViewer)
        (fst (update_role_commit (\<lambda>_. None) (ru_id b, RoleViewer) s))))) = 0"
proof -
  have "admins (update_row (ru_id a) (ru_role_update (\<lambda>_. RoleViewer))
      (update_row (ru_id b) (ru_role_update (\<lambda>_. RoleViewer)) t)) = 0"
    using two_admins [OF assms(1-7)]
    by (auto simp: admins_def update_row_def filter_empty_conv RoleAdmin_def RoleViewer_def split: if_splits)
  then show ?thesis
    using demotion_passes [OF assms(1,2,4) _ assms(7,9), of "ru_id a"] demotion_passes [OF assms(1,2,3) _ assms(6,8), of "ru_id b"]
      assms(5,10)
    by (simp add: commit_table UpdateRole_def Role_Valid_def)
qed

theorem overlapping_demotions_lock_out_witness:
  "admins (sv_users (fst (update_role_commit (\<lambda>_. None) (1, RoleViewer)
     (fst (update_role_commit (\<lambda>_. None) (2, RoleViewer) ex_server))))) = 0"
proof -
  have "parse_int ''1'' = Some 1" "parse_int ''2'' = Some 2" by (code_simp, code_simp)
  from overlapping_demotions_lock_out [of ex_table "ex_row 1 ''ada''" "ex_row 2 ''bob''" "''1''" "''2''" ex_server]
    ex_table_ok this show ?thesis
    by (simp add: ex_table_def ex_row_def ex_server_def)
qed

end
