(* ===== verification/Api_Server.thy ===== *)
theory Api_Server
  imports Api_Users "HOL-Library.Product_Lexorder"
begin

text \<open>The routes of the control plane (\<^verbatim>\<open>api/server.go\<close>): the pattern language of \<^verbatim>\<open>http.ServeMux\<close> as far as
  the table uses it, the three muxes, and the checks in front of them. Paths are clean: the redirects by
  which \<^verbatim>\<open>ServeMux\<close> tidies a path come before any of this. A handler is named by its pattern.\<close>

section \<open>Patterns\<close>

datatype segment = Lit string | Wild

record pattern =
  pt_method :: string
  pt_segments :: "segment list"
  pt_subtree :: bool

definition parse_segment :: "string \<Rightarrow> segment" where
  "parse_segment s = (if has_prefix s ''{'' then Wild else Lit s)"

definition path_segments :: "string \<Rightarrow> string list" where
  "path_segments path = split (trim_prefix path ''/'') (CHR ''/'')"

definition parse_pattern :: "string \<Rightarrow> pattern" where
  "parse_pattern s =
     (case cut s (CHR '' '') of
        (a, b, spaced) \<Rightarrow>
          let method = (if spaced then a else []); segs = path_segments (if spaced then b else a)
          in if List.last segs = [] then \<lparr>pt_method = method, pt_segments = map parse_segment (butlast segs), pt_subtree = True\<rparr>
             else \<lparr>pt_method = method, pt_segments = map parse_segment segs, pt_subtree = False\<rparr>)"

fun segments_match :: "bool \<Rightarrow> segment list \<Rightarrow> string list \<Rightarrow> bool" where
  "segments_match subtree [] [] = False"
| "segments_match subtree [] (x # xs) = subtree"
| "segments_match subtree (Lit l # ps) (x # xs) = (l = x \<and> (ps = [] \<and> xs = [] \<and> \<not> subtree \<or> segments_match subtree ps xs))"
| "segments_match subtree (Wild # ps) (x # xs) = (x \<noteq> [] \<and> (ps = [] \<and> xs = [] \<and> \<not> subtree \<or> segments_match subtree ps xs))"
| "segments_match subtree (p # ps) [] = False"

definition pattern_matches :: "string \<Rightarrow> string \<Rightarrow> string \<Rightarrow> bool" where
  "pattern_matches method path s =
     (let p = parse_pattern s
      in (pt_method p = [] \<or> pt_method p = method \<or> pt_method p = ''GET'' \<and> method = ''HEAD'')
         \<and> segments_match (pt_subtree p) (pt_segments p) (path_segments path))"

text \<open>A pattern with a method comes before one without, then a literal segment before a wildcard and a
  wildcard before the rest of a subtree; patterns that still tie never match the same request.\<close>

definition pattern_rank :: "string \<Rightarrow> nat list \<times> string" where
  "pattern_rank s =
     (let p = parse_pattern s
      in ((if pt_method p = [] then 1 else 0) # map (\<lambda>x. case x of Lit _ \<Rightarrow> 0 | Wild \<Rightarrow> 1) (pt_segments p)
            @ (if pt_subtree p then [2] else []), s))"

definition mux_find :: "string list \<Rightarrow> string \<Rightarrow> string \<Rightarrow> string option" where
  "mux_find routes method path = find (pattern_matches method path) (sort_key pattern_rank routes)"

section \<open>The table\<close>

definition public_routes :: "string list" where
  "public_routes = [''POST /api/auth/login'', ''GET /api/health'']"

definition redirect_read :: "string list" where
  "redirect_read = [''GET /api/redirects'', ''GET /api/redirects/{id}'', ''GET /api/redirect-statuses'']"

definition redirect_write :: "string list" where
  "redirect_write = [''POST /api/redirects'', ''PUT /api/redirects/{id}'', ''DELETE /api/redirects/{id}'']"

definition read_routes :: "string list" where
  "read_routes =
     [''GET /api/auth/me'', ''POST /api/auth/password'', ''GET /api/hosts'', ''GET /api/hosts/{id}'',
      ''GET /api/algorithms'', ''GET /api/guardian-rules'', ''GET /api/certificates'', ''GET /api/dns-providers'',
      ''GET /api/metrics/live'', ''GET /api/metrics/history'', ''GET /api/metrics/usage'',
      ''GET /api/metrics/usage.xlsx'', ''GET /api/metrics/usage.pdf'', ''GET /api/ws'', ''GET /api/access-lists'',
      ''GET /api/access-lists/{id}'', ''GET /api/access-log'', ''GET /api/users'', ''GET /api/alert-channels'',
      ''GET /api/alert-events'', ''GET /api/alert-stats''] @ redirect_read"

definition write_routes :: "string list" where
  "write_routes =
     [''POST /api/hosts'', ''PUT /api/hosts/{id}'', ''DELETE /api/hosts/{id}'', ''POST /api/certificates'',
      ''POST /api/certificates/{id}/issue'', ''DELETE /api/certificates/{id}'', ''POST /api/access-lists'',
      ''PUT /api/access-lists/{id}'', ''DELETE /api/access-lists/{id}''] @ redirect_write @
     [''POST /api/users'', ''PUT /api/users/{id}/role'', ''POST /api/users/{id}/password'', ''DELETE /api/users/{id}'',
      ''POST /api/alert-channels'', ''PUT /api/alert-channels/{id}'', ''DELETE /api/alert-channels/{id}'',
      ''POST /api/alert-channels/{id}/test'', ''GET /api/backups'', ''GET /api/backups/download'', ''POST /api/backups'',
      ''GET /api/backups/{name}'', ''DELETE /api/backups/{name}'']"

definition guarded_routes :: "string list" where
  "guarded_routes =
     [''POST /api/hosts'', ''PUT /api/hosts/{id}'', ''DELETE /api/hosts/{id}'', ''POST /api/certificates'',
      ''POST /api/certificates/{id}/issue'', ''DELETE /api/certificates/{id}'', ''POST /api/access-lists'',
      ''PUT /api/access-lists/{id}'', ''DELETE /api/access-lists/{id}'',
      ''POST /api/users'', ''PUT /api/users/{id}/role'', ''POST /api/users/{id}/password'', ''DELETE /api/users/{id}'',
      ''POST /api/alert-channels'', ''PUT /api/alert-channels/{id}'', ''DELETE /api/alert-channels/{id}'',
      ''POST /api/alert-channels/{id}/test'', ''POST /api/redirects'', ''PUT /api/redirects/{id}'',
      ''DELETE /api/redirects/{id}'', ''GET /api/backups'', ''GET /api/backups/download'', ''POST /api/backups'',
      ''GET /api/backups/{name}'', ''DELETE /api/backups/{name}'']"

definition outer_routes :: "bool \<Rightarrow> string list" where
  "outer_routes ui = public_routes @ [''/api/''] @ guarded_routes @ (if ui then [''/''] else [])"

text \<open>Where a request ends: at a public handler, at the mux behind the session check, at the mux behind
  the role check, at the dashboard or nowhere. The second component is what that mux finds.\<close>

datatype endpoint =
    Public string
  | Reads principal "string option"
  | Writes principal "string option"
  | Dashboard
  | NoRoute

definition dispatch :: "crypto \<Rightarrow> bool \<Rightarrow> time \<Rightarrow> session_request \<Rightarrow> string \<Rightarrow> string \<Rightarrow> api_error + endpoint" where
  "dispatch cr ui now r method path =
     (case mux_find (outer_routes ui) method path of
        None \<Rightarrow> Inr NoRoute
      | Some p \<Rightarrow>
          if p \<in> set public_routes then Inr (Public p)
          else if p = ''/api/'' then
            (case authenticate cr now r of
               Inl e \<Rightarrow> Inl e
             | Inr c \<Rightarrow> Inr (Reads c (mux_find read_routes method path)))
          else if p \<in> set guarded_routes then
            (case authenticate cr now r of
               Inl e \<Rightarrow> Inl e
             | Inr c \<Rightarrow>
                 (case requireWrite (Some c) of
                    Some e \<Rightarrow> Inl e
                  | None \<Rightarrow> Inr (Writes c (mux_find write_routes method path))))
          else Inr Dashboard)"

section \<open>Nothing is lost between the muxes\<close>

lemma outer_guarded_cases:
  "filter (\<lambda>p. p \<in> set guarded_routes) (outer_routes True) = guarded_routes"
  "filter (\<lambda>p. p \<in> set guarded_routes) (outer_routes False) = guarded_routes"
  by code_simp+

lemma outer_guarded: "filter (\<lambda>p. p \<in> set guarded_routes) (outer_routes ui) = guarded_routes"
  using outer_guarded_cases by (cases ui) simp_all

lemma guarded_write: "sort_key pattern_rank guarded_routes = sort_key pattern_rank write_routes"
  by code_simp

lemma mux_find_guarded:
  assumes "mux_find (outer_routes ui) method path = Some p" "p \<in> set guarded_routes"
  shows "mux_find write_routes method path = Some p"
proof -
  have "find (pattern_matches method path)
      (filter (\<lambda>p. p \<in> set guarded_routes) (sort_key pattern_rank (outer_routes ui))) = Some p"
    using assms unfolding mux_find_def by (intro find_in_filter) auto
  then show ?thesis
    by (simp add: filter_sort outer_guarded guarded_write mux_find_def)
qed

text \<open>Behind the session check alone, changing requests reach nothing but the change of one's own
  password.\<close>

lemma read_routes_methods:
  "\<forall>p \<in> set read_routes. pt_method (parse_pattern p) = ''GET'' \<or> p = ''POST /api/auth/password''"
  by code_simp

lemma dispatch_Reads:
  assumes "dispatch cr ui now r method path = Inr (Reads c (Some p))" "method \<noteq> ''GET''" "method \<noteq> ''HEAD''"
  shows "p = ''POST /api/auth/password''"
proof -
  have "mux_find read_routes method path = Some p"
    using assms(1) by (auto simp: dispatch_def split: option.splits if_splits sum.splits)
  then have p: "p \<in> set read_routes" "pattern_matches method path p"
    by (auto simp: mux_find_def dest!: find_SomeD)
  with assms(2,3) have "pt_method (parse_pattern p) \<noteq> ''GET''"
    by (auto simp: pattern_matches_def Let_def)
  with p(1) read_routes_methods show ?thesis by blast
qed

section \<open>Sessions\<close>

text \<open>What the JWT library promises: a token it signed verifies to the claims it was signed with, and
  only before they expire.\<close>

definition verifies_signed :: "crypto \<Rightarrow> bool" where
  "verifies_signed cr \<longleftrightarrow>
     (\<forall>c tok now c'. cr_sign cr c = Some tok \<longrightarrow> cr_parse cr now tok = Some c' \<longrightarrow> c' = c \<and> now < cl_ExpiresAt c)"

text \<open>A session that was opened: its token, when, for whom as the table had them, and the password.\<close>

record session =
  se_token :: string
  se_at :: time
  se_user :: user
  se_password :: string

text \<open>Sign-ins open sessions; every other request of the control plane only changes the accounts.\<close>

inductive api_step :: "crypto \<Rightarrow> api_server \<times> session list \<Rightarrow> faults \<times> time \<times> account_request \<Rightarrow> api_server \<times> session list \<Rightarrow> bool"
  for cr where
  opened: "handleLogin cr io now r (Inr req) s = (s', rep) \<Longrightarrow> rp_body rep = LoginBody tok expires u \<Longrightarrow>
    api_step cr (s, ss) (io, now, Login r (Inr req))
      (s', \<lparr>se_token = tok, se_at = now, se_user = u, se_password = lq_Password req\<rparr> # ss)"
| other: "(\<And>tok expires u r body. req = Login r body \<Longrightarrow> rp_body (snd (handleLogin cr io now r body s)) \<noteq> LoginBody tok expires u) \<Longrightarrow>
    api_step cr (s, ss) (io, now, req) (serve_account cr s (io, now, req), ss)"

definition session_claims :: "duration \<Rightarrow> session \<Rightarrow> claims" where
  "session_claims ttl se = \<lparr>cl_Subject = itoa (us_ID (se_user se)), cl_IssuedAt = from_unix (unix (se_at se)),
     cl_ExpiresAt = from_unix (unix (se_at se + ttl)), cl_Issuer = ''ponzproxy'', cl_Role = us_Role (se_user se)\<rparr>"

definition sessions_ok :: "crypto \<Rightarrow> duration \<Rightarrow> api_server \<times> session list \<Rightarrow> bool" where
  "sessions_ok cr ttl st \<longleftrightarrow> sv_SessionTTL (fst st) = ttl
     \<and> (\<forall>se \<in> set (snd st). cr_sign cr (session_claims ttl se) = Some (se_token se)
          \<and> cr_compare cr (us_PasswordHash (se_user se)) (se_password se))"

lemma handleLogin_opens:
  assumes "handleLogin cr io now r (Inr req) s = (s', rep)" "rp_body rep = LoginBody tok expires u"
  shows "cr_compare cr (us_PasswordHash u) (lq_Password req) \<and> issueToken cr now (sv_SessionTTL s) u = Inr (tok, expires)"
  using assms
  by (auto simp: handleLogin_def Let_def writeError_def writeJSON_def bad_login_def
      split: prod.splits bool.splits sum.splits db_error.splits if_splits api_error.splits)

lemma serve_account_ttl: "sv_SessionTTL (serve_account cr s x) = sv_SessionTTL s"
proof (cases x)
  case (fields io now req)
  have p: "sv_SessionTTL (fst (store_password cr io i n w s)) = sv_SessionTTL s" for i n w
    by (auto simp: store_password_def split: option.splits sum.splits prod.splits)
  show ?thesis
  proof (cases req)
    case (Login r body)
    with fields show ?thesis
      by (auto simp: handleLogin_def Let_def split: prod.splits bool.splits sum.splits db_error.splits)
  next
    case (CreateUser body)
    with fields show ?thesis
      by (auto simp: handleCreateUser_def Let_def split: option.splits sum.splits prod.splits)
  qed (use fields p in \<open>auto simp: handleChangePassword_def handleResetUserPassword_def handleUpdateUserRole_def
      handleDeleteUser_def update_role_commit_def delete_commit_def split: option.splits sum.splits prod.splits\<close>)
qed

lemma api_step_ok:
  assumes "api_step cr st e st'" "sessions_ok cr ttl st"
  shows "sessions_ok cr ttl st'"
  using assms
proof cases
  case (opened io now r req s s' rep tok expires u ss)
  from handleLogin_opens [OF opened(4,5)] assms(2) opened(1)
  have "cr_compare cr (us_PasswordHash u) (lq_Password req)"
    "cr_sign cr (session_claims ttl \<lparr>se_token = tok, se_at = now, se_user = u, se_password = lq_Password req\<rparr>) = Some tok"
    by (auto simp: issueToken_def sessions_ok_def session_claims_def split: option.splits)
  moreover have "sv_SessionTTL s' = sv_SessionTTL s"
    using serve_account_ttl [of cr s "(io, now, Login r (Inr req))"] opened(4) by simp
  ultimately show ?thesis using assms(2) opened(1,3) by (auto simp: sessions_ok_def)
next
  case (other req io now s ss)
  with assms(2) show ?thesis by (simp add: sessions_ok_def serve_account_ttl)
qed

lemma from_unix_unix_le: "from_unix (unix t) \<le> t"
  by (rule from_unix_truncates)

text \<open>C2. After any history of sign-ins and account changes, a request that reaches an administrative handler
  reaches the handler of its route, and carries the token of a session that was opened less than the
  session lifetime before by someone who gave the password of an account that was then an administrator.
  The token is assumed to be one of those handed out, unless it does not verify.\<close>

theorem writes_need_admin_session:
  assumes "verifies_signed cr"
    and "run (api_step cr) (s0, []) es (s, ss)"
    and "bearerToken r \<in> se_token ` set ss \<or> cr_parse cr now (bearerToken r) = None"
    and "dispatch cr ui now r method path = Inr (Writes c found)"
  shows "(\<exists>se \<in> set ss. se_token se = bearerToken r
      \<and> us_Role (se_user se) = RoleAdmin
      \<and> cr_compare cr (us_PasswordHash (se_user se)) (se_password se)
      \<and> now < se_at se + sv_SessionTTL s0
      \<and> parse_int (itoa (us_ID (se_user se))) = Some (pr_UserID c))
    \<and> (\<exists>p \<in> set write_routes. found = Some p \<and> pattern_matches method path p)"
proof
  let ?ttl = "sv_SessionTTL s0"
  have "sessions_ok cr ?ttl (s, ss)"
  proof (rule run_invariant [OF assms(2)])
    show "sessions_ok cr ?ttl (s0, [])" by (simp add: sessions_ok_def)
  qed (rule api_step_ok)
  note ok = this [unfolded sessions_ok_def]
  from assms(4) have a: "authenticate cr now r = Inr c" "pr_Role c = RoleAdmin"
    by (auto simp: dispatch_def requireWrite_def CanWrite_def split: option.splits if_splits sum.splits)
  then obtain k where k: "cr_parse cr now (bearerToken r) = Some k" "parse_int (cl_Subject k) = Some (pr_UserID c)"
    "cl_Role k = RoleAdmin"
    by (auto simp: authenticate_def parseToken_def Let_def split: if_splits sum.splits option.splits)
  with assms(3) obtain se where se: "se \<in> set ss" "se_token se = bearerToken r" by force
  with ok have "cr_sign cr (session_claims ?ttl se) = Some (bearerToken r)"
    "cr_compare cr (us_PasswordHash (se_user se)) (se_password se)" by auto
  with assms(1) k(1) have "k = session_claims ?ttl se" "now < cl_ExpiresAt (session_claims ?ttl se)"
    unfolding verifies_signed_def by blast+
  with k se ok from_unix_unix_le [of "se_at se + ?ttl"]
  show "\<exists>se \<in> set ss. se_token se = bearerToken r \<and> us_Role (se_user se) = RoleAdmin
      \<and> cr_compare cr (us_PasswordHash (se_user se)) (se_password se) \<and> now < se_at se + ?ttl
      \<and> parse_int (itoa (us_ID (se_user se))) = Some (pr_UserID c)"
    by (intro bexI [of _ se]) (auto simp: session_claims_def)
next
  from assms(4) obtain p where "mux_find (outer_routes ui) method path = Some p" "p \<in> set guarded_routes"
    "found = mux_find write_routes method path"
    by (auto simp: dispatch_def split: option.splits if_splits sum.splits)
  with mux_find_guarded have "found = Some p" "mux_find write_routes method path = Some p" by auto
  then show "\<exists>p \<in> set write_routes. found = Some p \<and> pattern_matches method path p"
    by (auto simp: mux_find_def dest!: find_SomeD)
qed

text \<open>A library that keeps the claims in the token.\<close>

definition ex_claims :: claims where
  "ex_claims = \<lparr>cl_Subject = ''1'', cl_IssuedAt = 0, cl_ExpiresAt = hour, cl_Issuer = ''ponzproxy'', cl_Role = RoleAdmin\<rparr>"

definition ex_jwt :: crypto where
  "ex_jwt = \<lparr>cr_compare = (=), cr_hash = Some, cr_sign = (\<lambda>c. if c = ex_claims then Some ''tok'' else None),
     cr_parse = (\<lambda>now tok. if tok = ''tok'' \<and> now < hour then Some ex_claims else None)\<rparr>"

definition ex_signin :: session_request where
  "ex_signin = \<lparr>aq_RemoteAddr = ''10.0.0.1:5000'', aq_Authorization = [], aq_tokenParam = []\<rparr>"

definition ex_write :: session_request where
  "ex_write = \<lparr>aq_RemoteAddr = ''10.0.0.1:5001'', aq_Authorization = ''Bearer tok'', aq_tokenParam = []\<rparr>"

theorem writes_need_admin_session_witness:
  "\<exists>s ss c. run (api_step ex_jwt) (ex_server, []) [(\<lambda>_. None, 0, Login ex_signin (Inr \<lparr>lq_Username = ''Ada'', lq_Password = ''h''\<rparr>))] (s, ss)
     \<and> dispatch ex_jwt True minute ex_write ''DELETE'' ''/api/backups/b.zip'' = Inr (Writes c (Some ''DELETE /api/backups/{name}''))
     \<and> (\<exists>se \<in> set ss. se_token se = bearerToken ex_write \<and> us_Role (se_user se) = RoleAdmin)"
proof -
  let ?e = "(\<lambda>_. None, 0, Login ex_signin (Inr \<lparr>lq_Username = ''Ada'', lq_Password = ''h''\<rparr>)) :: faults \<times> time \<times> account_request"
  obtain s rep where h: "handleLogin ex_jwt (\<lambda>_. None) 0 ex_signin (Inr \<lparr>lq_Username = ''Ada'', lq_Password = ''h''\<rparr>) ex_server = (s, rep)"
    by (cases "handleLogin ex_jwt (\<lambda>_. None) 0 ex_signin (Inr \<lparr>lq_Username = ''Ada'', lq_Password = ''h''\<rparr>) ex_server")
  have "rp_body (snd (handleLogin ex_jwt (\<lambda>_. None) 0 ex_signin (Inr \<lparr>lq_Username = ''Ada'', lq_Password = ''h''\<rparr>) ex_server))
    = LoginBody ''tok'' hour (scanUser (ex_row 1 ''ada''))" by code_simp
  with h have "rp_body rep = LoginBody ''tok'' hour (scanUser (ex_row 1 ''ada''))" by simp
  from api_step.opened [OF h this, of "[]"]
  have r: "run (api_step ex_jwt) (ex_server, []) [?e]
    (s, [\<lparr>se_token = ''tok'', se_at = 0, se_user = scanUser (ex_row 1 ''ada''), se_password = ''h''\<rparr>])"
    by (auto intro: run.intros)
  have d: "dispatch ex_jwt True minute ex_write ''DELETE'' ''/api/backups/b.zip''
    = Inr (Writes \<lparr>pr_UserID = 1, pr_Role = RoleAdmin\<rparr> (Some ''DELETE /api/backups/{name}''))" by code_simp
  have t: "bearerToken ex_write = ''tok''" by code_simp
  have "verifies_signed ex_jwt" by (auto simp: verifies_signed_def ex_jwt_def ex_claims_def split: if_splits)
  from writes_need_admin_session [OF this r _ d] r d t show ?thesis by (intro exI conjI) auto
qed

end
