(* ===== verification/Domain_Certificate.thy ===== *)
theory Domain_Certificate
  imports Domain_Host
begin

text \<open>Certificates (\<^verbatim>\<open>domain/certificate.go\<close>): sources and challenges, when a certificate is due for renewal,
  normalisation, validation and which names a certificate covers. Parsing PEM and X.509 is the business of
  \<^verbatim>\<open>crypto/tls\<close> and \<^verbatim>\<open>crypto/x509\<close>: their answers are the fields of \<open>x509\<close>. A duration saturates at 64 bits,
  and the zero time is the first second of the year one.\<close>

definition CertSourceACME :: string where "CertSourceACME = ''acme''"
definition CertSourceManual :: string where "CertSourceManual = ''manual''"
definition CertSourceSelfSigned :: string where "CertSourceSelfSigned = ''self_signed''"

definition CertSource_Valid :: "string \<Rightarrow> bool" where
  "CertSource_Valid s \<longleftrightarrow> s = CertSourceACME \<or> s = CertSourceManual \<or> s = CertSourceSelfSigned"

definition ChallengeHTTP01 :: string where "ChallengeHTTP01 = ''http-01''"
definition ChallengeTLSALPN01 :: string where "ChallengeTLSALPN01 = ''tls-alpn-01''"
definition ChallengeDNS01 :: string where "ChallengeDNS01 = ''dns-01''"

definition ChallengeType_Valid :: "string \<Rightarrow> bool" where
  "ChallengeType_Valid c \<longleftrightarrow> c = ChallengeHTTP01 \<or> c = ChallengeTLSALPN01 \<or> c = ChallengeDNS01"

definition zero_time :: time where "zero_time = - 62135596800 * second"

definition saturate :: "int \<Rightarrow> duration" where
  "saturate n = max (- (2 ^ 63)) (min (2 ^ 63 - 1) n)"

record certificate =
  ce_ID :: int
  ce_Name :: string
  ce_Domains :: "string list"
  ce_Source :: string
  ce_CertificatePEM :: string
  ce_PrivateKeyPEM :: string
  ce_Issuer :: string
  ce_NotBefore :: time
  ce_NotAfter :: time
  ce_Challenge :: string
  ce_DNSProvider :: string
  ce_DNSCredentials :: string
  ce_LastError :: string
  ce_LastIssued :: "time option"
  ce_CreatedAt :: time
  ce_UpdatedAt :: time

definition ExpiresIn :: "time \<Rightarrow> certificate \<Rightarrow> duration" where
  "ExpiresIn now c = saturate (ce_NotAfter c - now)"

definition NeedsRenewal :: "time \<Rightarrow> certificate \<Rightarrow> bool" where
  "NeedsRenewal now c =
     (if ce_Source c \<noteq> CertSourceACME then False
      else if ce_CertificatePEM c = [] then True
      else let lifetime = saturate (ce_NotAfter c - ce_NotBefore c)
           in if lifetime \<le> 0 then True else now > ce_NotAfter c + go_quot (- lifetime) 3)"

definition norm_cert_domain :: "string \<Rightarrow> string" where
  "norm_cert_domain d = to_lower (trim_space (trim_suffix (trim_space d) ''.''))"

definition Certificate_Normalize :: "certificate \<Rightarrow> certificate" where
  "Certificate_Normalize c =
     c\<lparr>ce_Name := trim_space (ce_Name c),
       ce_Domains := canonical_list norm_cert_domain [] (ce_Domains c),
       ce_Challenge := (if ce_Source c = CertSourceACME \<and> ce_Challenge c = [] then ChallengeHTTP01 else ce_Challenge c)\<rparr>"

record leaf =
  lf_CommonName :: string
  lf_Organization :: "string list"
  lf_NotBefore :: time
  lf_NotAfter :: time

text \<open>The outcome of \<^verbatim>\<open>tls.X509KeyPair\<close>, of parsing the leaf, of \<^verbatim>\<open>VerifyHostname\<close> and of
  \<^verbatim>\<open>pem.Decode\<close> with \<^verbatim>\<open>x509.ParseCertificate\<close>.\<close>

record x509 =
  x_pair :: "string \<Rightarrow> string \<Rightarrow> string option"
  x_parse :: "string \<Rightarrow> string option"
  x_covers :: "string \<Rightarrow> string \<Rightarrow> bool"
  x_block :: "string \<Rightarrow> (string + leaf) option"

definition validateKeyPair :: "x509 \<Rightarrow> certificate \<Rightarrow> string option" where
  "validateKeyPair x c =
     (if trim_space (ce_CertificatePEM c) = [] then Some ''is required''
      else if trim_space (ce_PrivateKeyPEM c) = [] then Some ''a private key is required''
      else case x_pair x (ce_CertificatePEM c) (ce_PrivateKeyPEM c) of
        Some e \<Rightarrow> Some (''certificate and private key do not match: '' @ e)
      | None \<Rightarrow>
          (case x_parse x (ce_CertificatePEM c) of
             Some e \<Rightarrow> Some (''certificate could not be parsed: '' @ e)
           | None \<Rightarrow>
               (case find (\<lambda>d. \<not> x_covers x (ce_CertificatePEM c) d) (ce_Domains c) of
                  Some d \<Rightarrow> Some (''certificate does not cover '' @ d)
                | None \<Rightarrow> None)))"

definition Certificate_Validate :: "x509 \<Rightarrow> certificate \<Rightarrow> validation_error option" where
  "Certificate_Validate x c =
     (let v = v_if (ce_Name c = []) ''name'' ''is required'' [] [];
          v = v_if (\<not> CertSource_Valid (ce_Source c)) ''source'' ''%q is not a supported source'' [FStr (ce_Source c)] v;
          v = v_if (ce_Domains c = []) ''domains'' ''at least one domain is required'' [] v;
          v = validate_domains 0 v (ce_Domains c);
          hasWildcard = (\<exists>d \<in> set (ce_Domains c). has_prefix d ''*.'');
          v = (if ce_Source c = CertSourceACME then
                 let v = v_if (\<not> ChallengeType_Valid (ce_Challenge c)) ''challenge'' ''%q is not a supported challenge''
                           [FStr (ce_Challenge c)] v;
                     v = v_if (hasWildcard \<and> ce_Challenge c \<noteq> ChallengeDNS01) ''challenge''
                           ''wildcard domains can only be issued with dns-01'' [] v
                 in v_if (ce_Challenge c = ChallengeDNS01 \<and> ce_DNSProvider c = []) ''dnsProvider''
                      ''is required for the dns-01 challenge'' [] v
               else if ce_Source c = CertSourceManual then
                 (case validateKeyPair x c of Some e \<Rightarrow> v_Add ''certificate'' ''%s'' [FStr e] v | None \<Rightarrow> v)
               else v)
      in v_Err v)"

fun join_with :: "string \<Rightarrow> string list \<Rightarrow> string" where
  "join_with sep [] = []"
| "join_with sep [x] = x"
| "join_with sep (x # y # ys) = x @ sep @ join_with sep (y # ys)"

definition ApplyLeafMetadata :: "x509 \<Rightarrow> certificate \<Rightarrow> certificate \<times> string option" where
  "ApplyLeafMetadata x c =
     (case x_block x (ce_CertificatePEM c) of
        None \<Rightarrow> (c, Some ''no PEM block found in certificate'')
      | Some (Inl e) \<Rightarrow> (c, Some e)
      | Some (Inr l) \<Rightarrow>
          (c\<lparr>ce_Issuer := (if lf_CommonName l = [] then join_with '', '' (lf_Organization l) else lf_CommonName l),
             ce_NotBefore := lf_NotBefore l, ce_NotAfter := lf_NotAfter l\<rparr>, None))"

definition wildcard_covers :: "string \<Rightarrow> string \<Rightarrow> bool" where
  "wildcard_covers suffix name = (case index_byte name (CHR ''.'') of None \<Rightarrow> False | Some idx \<Rightarrow> drop (idx + 1) name = suffix)"

definition Certificate_MatchesDomain :: "certificate \<Rightarrow> string \<Rightarrow> bool" where
  "Certificate_MatchesDomain c name =
     (let name = to_lower (trim_suffix name ''.'')
      in \<exists>d \<in> set (ce_Domains c). d = name
           \<or> (case cut_prefix d ''*.'' of Some suffix \<Rightarrow> wildcard_covers suffix name | None \<Rightarrow> False))"

text \<open>A wildcard covers the names with exactly one more label.\<close>

lemma wildcard_covers_iff:
  "wildcard_covers suffix name \<longleftrightarrow> (\<exists>label. name = label @ CHR ''.'' # suffix \<and> CHR ''.'' \<notin> set label)"
proof
  assume "wildcard_covers suffix name"
  then obtain idx where i: "index_byte name (CHR ''.'') = Some idx" "drop (Suc idx) name = suffix"
    by (auto simp: wildcard_covers_def split: option.splits)
  then have "idx < length name" "name ! idx = CHR ''.''" "CHR ''.'' \<notin> set (take idx name)"
    by (auto simp: index_byte_Some in_set_conv_nth)
  then have "name = take idx name @ CHR ''.'' # suffix" using i(2) id_take_nth_drop [of idx name] by simp
  with \<open>CHR ''.'' \<notin> set (take idx name)\<close> show "\<exists>label. name = label @ CHR ''.'' # suffix \<and> CHR ''.'' \<notin> set label" by blast
next
  assume "\<exists>label. name = label @ CHR ''.'' # suffix \<and> CHR ''.'' \<notin> set label"
  then show "wildcard_covers suffix name" by (auto simp: wildcard_covers_def index_byte_append)
qed

lemma cut_wildcard: "(\<exists>label. cut name (CHR ''.'') = (label, suffix, True)) \<longleftrightarrow> wildcard_covers suffix name"
  by (auto simp: cut_True_iff wildcard_covers_iff)

end
