(* ===== verification/Store_Children.thy ===== *)
theory Store_Children
  imports Store_Base "HOL-Library.List_Lexorder" "HOL-Library.Char_ord" "HOL-Library.Product_Lexorder"
begin

text \<open>Child tables of the store: the rows of a list, each with the id of its owner and its position. Every
  repository writes such a list with a loop of inserts and reads it back with a query ordered by owner
  and position. A value listed twice under one owner violates the primary key where there is one.\<close>

definition child_rows :: "'k \<Rightarrow> 'v list \<Rightarrow> ('k \<times> 'v \<times> nat) list" where
  "child_rows k vs = map (\<lambda>(p, v). (k, v, p)) (enumerate 0 vs)"

definition children_of :: "'k::linorder \<Rightarrow> ('k \<times> 'v \<times> nat) list \<Rightarrow> 'v list" where
  "children_of k rows =
     map (\<lambda>(k, v, p). v) (filter (\<lambda>(k', v, p). k' = k) (sort_key (\<lambda>(k, v, p). (k, p)) rows))"

definition drop_children :: "'k \<Rightarrow> ('k \<times> 'v \<times> nat) list \<Rightarrow> ('k \<times> 'v \<times> nat) list" where
  "drop_children k rows = filter (\<lambda>(k', v, p). k' \<noteq> k) rows"

definition no_children :: "'k \<Rightarrow> ('k \<times> 'v \<times> nat) list \<Rightarrow> bool" where
  "no_children k rows \<longleftrightarrow> (\<forall>(k', v, p) \<in> set rows. k' \<noteq> k)"

lemma map_child_rows [simp]: "map (\<lambda>(k, v, p). v) (child_rows k vs) = vs"
  by (simp add: child_rows_def split_def comp_def enumerate_eq_zip)

lemma sort_child_rows: "sort_key (\<lambda>(k, v, p). (k, p)) (child_rows (k::'k::linorder) vs) = child_rows k vs"
proof -
  have "map (\<lambda>(k, v, p). (k, p)) (child_rows k vs) = map (Pair k) [0..<length vs]"
    by (simp add: child_rows_def enumerate_eq_zip zip_map_fst_snd split_def comp_def)
      (rule nth_equalityI, auto)
  moreover have "sorted (map (Pair k) [0..<length vs])"
    by (auto simp: sorted_iff_nth_mono less_eq_prod_def)
  ultimately show ?thesis by (intro sort_key_id_if_sorted) simp
qed

lemma filter_child_rows:
  "filter (\<lambda>(k', v, p). k' = k) (child_rows k' vs) = (if k' = k then child_rows k vs else [])"
  by (auto simp: child_rows_def filter_empty_conv intro!: filter_True)

lemma children_own [simp]: "no_children k rows \<Longrightarrow> children_of k (rows @ child_rows k vs) = vs"
proof -
  assume "no_children k rows"
  then have "filter (\<lambda>(k', v, p). k' = k) rows = []" by (auto simp: no_children_def filter_empty_conv)
  then show ?thesis by (simp add: children_of_def filter_sort filter_child_rows sort_child_rows)
qed

lemma children_other [simp]: "k' \<noteq> k \<Longrightarrow> children_of k' (rows @ child_rows k vs) = children_of k' rows"
  by (simp add: children_of_def filter_sort filter_child_rows)

lemma children_dropped [simp]: "k' \<noteq> k \<Longrightarrow> children_of k' (drop_children k rows) = children_of k' rows"
  by (simp add: children_of_def drop_children_def filter_sort conj_commute)
    (rule arg_cong [where f = "\<lambda>r. map _ (sort_key _ r)"], rule filter_cong, auto)

lemma no_children_dropped [simp]: "no_children k (drop_children k rows)"
  by (auto simp: no_children_def drop_children_def)

lemma set_children_of: "set (children_of k rows) = {v. \<exists>p. (k, v, p) \<in> set rows}"
  by (force simp: children_of_def)

section \<open>Values that have one owner\<close>

text \<open>The values in a child table, and that none is in it twice, as a column with a uniqueness constraint.\<close>

abbreviation claimed :: "('k \<times> 'v \<times> nat) list \<Rightarrow> 'v set" where
  "claimed rows \<equiv> (\<lambda>(k, v, p). v) ` set rows"

abbreviation unique_claims :: "('k \<times> 'v \<times> nat) list \<Rightarrow> bool" where
  "unique_claims rows \<equiv> distinct (map (\<lambda>(k, v, p). v) rows)"

lemma children_claimed: "set (children_of k rows) \<subseteq> claimed rows"
  by (force simp: set_children_of)

lemma unique_claims_apart:
  assumes "unique_claims rows" "j \<noteq> k"
  shows "set (children_of j rows) \<inter> set (children_of k rows) = {}"
proof -
  have "inj_on (\<lambda>(k, v, p). v) (set rows)" using assms(1) by (simp add: distinct_map)
  with assms(2) show ?thesis by (fastforce simp: set_children_of inj_on_def)
qed

lemma unique_claims_dropped: "unique_claims rows \<Longrightarrow> unique_claims (drop_children k rows)"
  by (simp add: drop_children_def distinct_map_filter)

lemma claimed_dropped: "claimed (drop_children k rows) \<subseteq> claimed rows"
  by (force simp: drop_children_def)

section \<open>Rows that are rewritten in place\<close>

lemma map_sort_key:
  assumes "\<And>x. x \<in> set xs \<Longrightarrow> key (g x) = key x"
  shows "map g (sort_key key xs) = sort_key key (map g xs)"
proof -
  have "map g (insort_key key x ys) = insort_key key (g x) (map g ys)" if "key (g x) = key x" "\<forall>y \<in> set ys. key (g y) = key y" for x ys
    using that by (induction ys) auto
  with assms show ?thesis by (induction xs) simp_all
qed

lemma al_put_present:
  "distinct (al_keys m) \<Longrightarrow> map_of m k = Some w \<Longrightarrow> al_put k v m = map (\<lambda>p. if fst p = k then (k, v) else p) m"
proof (induction k v m rule: al_put.induct)
  case (2 k v k' v' m)
  have "map (\<lambda>p. if fst p = k then (k, v) else p) m = m" if "k \<notin> fst ` set m" using that by (intro map_idI) auto
  with 2 show ?case by (auto split: if_splits)
qed simp

end
