(* ===== verification/Store_Certificates.thy ===== *)
theory Store_Certificates
  imports Store_Children Domain_Certificate
begin

text \<open>The repository of certificates (\<^verbatim>\<open>store/certificates.go\<close>): a table of rows whose times are whole seconds
  and a table of their domains with positions. A write is one transaction: it happens entirely or not at
  all. \<open>fault\<close> is a failure of the driver, \<open>referenced\<close> tells which certificates a host or a redirect
  still uses. What is written is read back, except for the fractions of its times.\<close>

record cert_row =
  kr_name :: string
  kr_source :: string
  kr_certificate_pem :: string
  kr_private_key_pem :: string
  kr_issuer :: string
  kr_not_before :: int
  kr_not_after :: int
  kr_challenge :: string
  kr_dns_provider :: string
  kr_dns_credentials :: string
  kr_last_error :: string
  kr_last_issued_at :: "int option"
  kr_created_at :: int
  kr_updated_at :: int

record certs_table =
  ct_rows :: "(int \<times> cert_row) list"
  ct_domains :: "(int \<times> string \<times> nat) list"
  ct_seq :: int

definition unixOrZero :: "time \<Rightarrow> int" where
  "unixOrZero t = (if t = zero_time then 0 else unix t)"

definition timeOrZero :: "int \<Rightarrow> time" where
  "timeOrZero n = (if n = 0 then zero_time else from_unix n)"

definition cert_args :: "certificate \<Rightarrow> cert_row" where
  "cert_args c = \<lparr>kr_name = ce_Name c, kr_source = ce_Source c, kr_certificate_pem = ce_CertificatePEM c,
     kr_private_key_pem = ce_PrivateKeyPEM c, kr_issuer = ce_Issuer c, kr_not_before = unixOrZero (ce_NotBefore c),
     kr_not_after = unixOrZero (ce_NotAfter c), kr_challenge = ce_Challenge c, kr_dns_provider = ce_DNSProvider c,
     kr_dns_credentials = ce_DNSCredentials c, kr_last_error = ce_LastError c,
     kr_last_issued_at = timePtrToNull (ce_LastIssued c), kr_created_at = unix (ce_CreatedAt c),
     kr_updated_at = unix (ce_UpdatedAt c)\<rparr>"

definition scanCertificate :: "int \<times> cert_row \<Rightarrow> certificate" where
  "scanCertificate p = (let r = snd p in
     \<lparr>ce_ID = fst p, ce_Name = kr_name r, ce_Domains = [], ce_Source = kr_source r,
      ce_CertificatePEM = kr_certificate_pem r, ce_PrivateKeyPEM = kr_private_key_pem r, ce_Issuer = kr_issuer r,
      ce_NotBefore = timeOrZero (kr_not_before r), ce_NotAfter = timeOrZero (kr_not_after r),
      ce_Challenge = kr_challenge r, ce_DNSProvider = kr_dns_provider r, ce_DNSCredentials = kr_dns_credentials r,
      ce_LastError = kr_last_error r, ce_LastIssued = nullTime (kr_last_issued_at r),
      ce_CreatedAt = from_unix (kr_created_at r), ce_UpdatedAt = from_unix (kr_updated_at r)\<rparr>)"

definition attachDomains :: "certs_table \<Rightarrow> certificate \<Rightarrow> certificate" where
  "attachDomains t c =
     c\<lparr>ce_Domains := ce_Domains c @ children_of (ce_ID c) (ct_domains t)\<rparr>"

definition Certs_List :: "string option \<Rightarrow> certs_table \<Rightarrow> db_error + certificate list" where
  "Certs_List fault t =
     (case fault of
        Some m \<Rightarrow> Inl (translateErr (Driver m))
      | None \<Rightarrow> Inr (map (\<lambda>p. attachDomains t (scanCertificate p)) (sort_key (\<lambda>p. (kr_name (snd p), fst p)) (ct_rows t))))"

definition Certs_Get :: "string option \<Rightarrow> int \<Rightarrow> certs_table \<Rightarrow> db_error + certificate" where
  "Certs_Get fault i t =
     (case fault of
        Some m \<Rightarrow> Inl (translateErr (Driver m))
      | None \<Rightarrow>
          (case map_of (ct_rows t) i of
             None \<Rightarrow> Inl (translateErr NoRows)
           | Some r \<Rightarrow> Inr (attachDomains t (scanCertificate (i, r)))))"

text \<open>\<^verbatim>\<open>writeCertDomains\<close>: a domain listed twice violates the primary key.\<close>

definition writeCertDomains :: "int \<Rightarrow> string list \<Rightarrow> certs_table \<Rightarrow> db_error + certs_table" where
  "writeCertDomains i ds t =
     (if distinct ds then Inr (t\<lparr>ct_domains := ct_domains t @ child_rows i ds\<rparr>)
      else Inl (translateErr (Driver ''constraint failed: UNIQUE constraint failed: certificate_domains.certificate_id, certificate_domains.domain (1555)'')))"

definition source_refused :: db_error where
  "source_refused = translateErr (Driver ''constraint failed: CHECK constraint failed: source IN ('acme', 'manual', 'self_signed') (275)'')"

definition Certs_Create :: "string option \<Rightarrow> time \<Rightarrow> certificate \<Rightarrow> certs_table \<Rightarrow> certs_table \<times> (db_error + certificate)" where
  "Certs_Create fault now c t =
     (let c = c\<lparr>ce_CreatedAt := now, ce_UpdatedAt := now\<rparr>
      in case fault of
           Some m \<Rightarrow> (t, Inl (translateErr (Driver m)))
         | None \<Rightarrow>
             if \<not> CertSource_Valid (ce_Source c) then (t, Inl source_refused)
             else let i = ct_seq t + 1;
                      t' = t\<lparr>ct_rows := ct_rows t @ [(i, cert_args c)], ct_seq := i\<rparr>
                  in case writeCertDomains i (ce_Domains c) t' of
                       Inl e \<Rightarrow> (t, Inl e)
                     | Inr t'' \<Rightarrow> (t'', Inr (c\<lparr>ce_ID := i\<rparr>)))"

text \<open>The update leaves the creation time of the row alone.\<close>

definition Certs_Update :: "string option \<Rightarrow> time \<Rightarrow> certificate \<Rightarrow> certs_table \<Rightarrow> certs_table \<times> db_error option" where
  "Certs_Update fault now c t =
     (let c = c\<lparr>ce_UpdatedAt := now\<rparr>
      in case fault of
           Some m \<Rightarrow> (t, Some (translateErr (Driver m)))
         | None \<Rightarrow>
             (case map_of (ct_rows t) (ce_ID c) of
                None \<Rightarrow> (t, Some ErrNotFound)
              | Some r \<Rightarrow>
                  if \<not> CertSource_Valid (ce_Source c) then (t, Some source_refused)
                  else let t' = t\<lparr>ct_rows := al_put (ce_ID c) ((cert_args c)\<lparr>kr_created_at := kr_created_at r\<rparr>) (ct_rows t),
                                  ct_domains := drop_children (ce_ID c) (ct_domains t)\<rparr>
                       in case writeCertDomains (ce_ID c) (ce_Domains c) t' of
                            Inl e \<Rightarrow> (t, Some e)
                          | Inr t'' \<Rightarrow> (t'', None)))"

definition Certs_Delete :: "(int \<Rightarrow> bool) \<Rightarrow> string option \<Rightarrow> int \<Rightarrow> certs_table \<Rightarrow> certs_table \<times> db_error option" where
  "Certs_Delete referenced fault i t =
     (case fault of
        Some m \<Rightarrow> (t, Some (translateErr (Driver m)))
      | None \<Rightarrow>
          (case map_of (ct_rows t) i of
             None \<Rightarrow> (t, Some ErrNotFound)
           | Some _ \<Rightarrow>
               if referenced i then (t, Some (translateErr (Driver ''constraint failed: FOREIGN KEY constraint failed (787)'')))
               else (t\<lparr>ct_rows := al_del i (ct_rows t), ct_domains := drop_children i (ct_domains t)\<rparr>, None)))"

definition DueForRenewal :: "string option \<Rightarrow> time \<Rightarrow> certs_table \<Rightarrow> db_error + certificate list" where
  "DueForRenewal fault now t =
     (case Certs_List fault t of
        Inl e \<Rightarrow> Inl e
      | Inr cs \<Rightarrow> Inr (filter (\<lambda>c. ce_Source c = CertSourceACME \<and> NeedsRenewal now c) cs))"

section \<open>Reading back\<close>

definition certs_ok :: "certs_table \<Rightarrow> bool" where
  "certs_ok t \<longleftrightarrow> distinct (al_keys (ct_rows t))
     \<and> (\<forall>i \<in> set (al_keys (ct_rows t)). i \<le> ct_seq t)
     \<and> (\<forall>(i, d, p) \<in> set (ct_domains t). i \<in> set (al_keys (ct_rows t)))"

text \<open>A certificate as the table keeps it.\<close>

definition to_seconds :: "certificate \<Rightarrow> certificate" where
  "to_seconds c =
     c\<lparr>ce_NotBefore := timeOrZero (unixOrZero (ce_NotBefore c)), ce_NotAfter := timeOrZero (unixOrZero (ce_NotAfter c)),
       ce_LastIssued := map_option (\<lambda>t. from_unix (unix t)) (ce_LastIssued c),
       ce_CreatedAt := from_unix (unix (ce_CreatedAt c)), ce_UpdatedAt := from_unix (unix (ce_UpdatedAt c))\<rparr>"

lemma scan_args: "scanCertificate (ce_ID c, cert_args c) = (to_seconds c)\<lparr>ce_Domains := []\<rparr>"
  by (simp add: scanCertificate_def cert_args_def to_seconds_def nullTime_def timePtrToNull_def Let_def
      option.map_comp comp_def)

lemma Create_props:
  assumes "certs_ok t" "Certs_Create fault now c t = (t', Inr c')"
  shows "certs_ok t' \<and> ce_ID c' = ct_seq t + 1 \<and> c' = c\<lparr>ce_ID := ct_seq t + 1, ce_CreatedAt := now, ce_UpdatedAt := now\<rparr>
    \<and> ct_rows t' = ct_rows t @ [(ce_ID c', cert_args c')] \<and> ct_domains t' = ct_domains t @ child_rows (ce_ID c') (ce_Domains c')
    \<and> map_of (ct_rows t) (ce_ID c') = None \<and> no_children (ce_ID c') (ct_domains t)"
proof -
  have new: "ct_seq t + 1 \<notin> set (al_keys (ct_rows t))" using assms(1) by (auto simp: certs_ok_def)
  then have dom: "no_children (ct_seq t + 1) (ct_domains t)" using assms(1) by (fastforce simp: certs_ok_def no_children_def)
  have args: "cert_args (c\<lparr>ce_ID := i, ce_CreatedAt := now, ce_UpdatedAt := now\<rparr>) = cert_args (c\<lparr>ce_CreatedAt := now, ce_UpdatedAt := now\<rparr>)" for i
    by (simp add: cert_args_def)
  have w: "fault = None" "CertSource_Valid (ce_Source c)" "distinct (ce_Domains c)"
    "c' = c\<lparr>ce_ID := ct_seq t + 1, ce_CreatedAt := now, ce_UpdatedAt := now\<rparr>"
    "t' = t\<lparr>ct_rows := ct_rows t @ [(ct_seq t + 1, cert_args (c\<lparr>ce_CreatedAt := now, ce_UpdatedAt := now\<rparr>))], ct_seq := ct_seq t + 1,
       ct_domains := ct_domains t @ child_rows (ct_seq t + 1) (ce_Domains c)\<rparr>"
    using assms(2) by (auto simp: Certs_Create_def Let_def writeCertDomains_def split: option.splits if_splits)
  have "certs_ok t'"
    using assms(1) new unfolding certs_ok_def w(5) by (auto simp: child_rows_def)
  with w new dom args show ?thesis by (auto simp: map_of_eq_None_iff)
qed

text \<open>A stored certificate is read back with the id it was given and with its times cut to seconds, and
  every other certificate reads as before.\<close>

theorem certificate_reads_back:
  assumes "certs_ok t" "Certs_Create fault now c t = (t', Inr c')"
  shows "Certs_Get None (ce_ID c') t' = Inr (to_seconds c')
    \<and> (\<forall>j. j \<noteq> ce_ID c' \<longrightarrow> Certs_Get None j t' = Certs_Get None j t)
    \<and> Certs_Get None (ce_ID c') t = Inl ErrNotFound \<and> certs_ok t'"
proof -
  note p = Create_props [OF assms]
  then have rows: "ct_rows t' = ct_rows t @ [(ce_ID c', cert_args c')]" "map_of (ct_rows t) (ce_ID c') = None" by blast+
  have "map_of (ct_rows t') (ce_ID c') = Some (cert_args c')"
    by (simp add: rows map_add_def)
  moreover have "attachDomains t' (scanCertificate (ce_ID c', cert_args c')) = to_seconds c'"
  proof -
    have d: "ct_domains t' = ct_domains t @ child_rows (ce_ID c') (ce_Domains c')" using p by blast
    have "no_children (ce_ID c') (ct_domains t)" using p by blast
    then show ?thesis
      unfolding attachDomains_def scan_args d by (simp add: to_seconds_def)
  qed
  moreover have "map_of (ct_rows t') j = map_of (ct_rows t) j" if "j \<noteq> ce_ID c'" for j
    using that by (simp add: rows map_add_def split: option.splits)
  moreover have "attachDomains t' x = attachDomains t x" if "ce_ID x \<noteq> ce_ID c'" for x
    using p that by (simp add: attachDomains_def)
  moreover have "ce_ID (scanCertificate (j, r)) = j" for j r by (simp add: scanCertificate_def Let_def)
  ultimately show ?thesis using p rows(2) by (auto simp: Certs_Get_def translateErr_def split: option.splits)
qed

definition ex_cert :: certificate where
  "ex_cert = \<lparr>ce_ID = 0, ce_Name = ''site'', ce_Domains = [''b.example'', ''a.example''], ce_Source = CertSourceACME,
     ce_CertificatePEM = [], ce_PrivateKeyPEM = [], ce_Issuer = [], ce_NotBefore = zero_time, ce_NotAfter = zero_time,
     ce_Challenge = ChallengeHTTP01, ce_DNSProvider = [], ce_DNSCredentials = [], ce_LastError = [], ce_LastIssued = None,
     ce_CreatedAt = zero_time, ce_UpdatedAt = zero_time\<rparr>"

definition ex_certs :: certs_table where
  "ex_certs = \<lparr>ct_rows = [], ct_domains = [], ct_seq = 6\<rparr>"

theorem certificate_reads_back_witness:
  "\<exists>t' c'. Certs_Create None (90 * second + 5) ex_cert ex_certs = (t', Inr c')
     \<and> Certs_Get None 7 t' = Inr (to_seconds c') \<and> ce_Domains c' = [''b.example'', ''a.example''] \<and> ce_UpdatedAt (to_seconds c') = 90 * second"
proof -
  obtain t' c' where c: "Certs_Create None (90 * second + 5) ex_cert ex_certs = (t', Inr c')"
    "c' = ex_cert\<lparr>ce_ID := 7, ce_CreatedAt := 90 * second + 5, ce_UpdatedAt := 90 * second + 5\<rparr>"
    by (simp add: Certs_Create_def Let_def writeCertDomains_def ex_cert_def ex_certs_def CertSource_Valid_def)
  have ok: "certs_ok ex_certs" by (simp add: certs_ok_def ex_certs_def)
  from certificate_reads_back [OF ok c(1)] c show ?thesis
    by (auto simp: to_seconds_def ex_cert_def from_unix_def unix_def)
qed

end
