(* ===== verification/Certmgr.thy ===== *)
theory Certmgr
  imports Store_Certificates Alerts
begin

text \<open>The certificate manager (\<^verbatim>\<open>certmgr\<close>): answering challenges (\<^verbatim>\<open>challenge.go\<close>), running an ACME order
  (\<^verbatim>\<open>acme.go\<close>), resolving a server name, issuing and renewing (\<^verbatim>\<open>manager.go\<close>), and certificates made or
  checked locally (\<^verbatim>\<open>selfsigned.go\<close>). The certificate authority, the DNS provider and the key generator
  are the fields of \<open>acme\<close>. A parsed certificate is identified by the two PEM texts it was parsed from.\<close>

type_synonym tls_cert = "string \<times> string"

text \<open>An error and whether \<^verbatim>\<open>errors.Is\<close> finds a cancelled or expired context in it.\<close>

record go_error =
  er_text :: string
  er_shutdown :: bool

definition wrap :: "string \<Rightarrow> go_error \<Rightarrow> go_error" where
  "wrap prefix e = e\<lparr>er_text := prefix @ '': '' @ er_text e\<rparr>"

definition plain :: "string \<Rightarrow> go_error" where
  "plain m = \<lparr>er_text = m, er_shutdown = False\<rparr>"

definition IsShutdown :: "go_error \<Rightarrow> bool" where
  "IsShutdown e = er_shutdown e"

section \<open>Challenges\<close>

text \<open>What is published at the moment: http-01 answers by path, tls-alpn-01 certificates by name and the
  TXT records at the provider.\<close>

record solvers =
  so_tokens :: "(string \<times> string) list"
  so_certs :: "(string \<times> tls_cert) list"
  so_txt :: "(string \<times> string) list"

definition no_challenges :: solvers where
  "no_challenges = \<lparr>so_tokens = [], so_certs = [], so_txt = []\<rparr>"

definition acmeHTTP01Prefix :: string where "acmeHTTP01Prefix = ''/.well-known/acme-challenge/''"
definition acmeALPNProto :: string where "acmeALPNProto = ''acme-tls/1''"

definition http_put :: "string \<Rightarrow> string \<Rightarrow> solvers \<Rightarrow> solvers" where
  "http_put path response s = s\<lparr>so_tokens := al_put path response (so_tokens s)\<rparr>"

definition http_remove :: "string \<Rightarrow> solvers \<Rightarrow> solvers" where
  "http_remove path s = s\<lparr>so_tokens := al_del path (so_tokens s)\<rparr>"

text \<open>\<^const>\<open>None\<close> when the request is not a challenge, otherwise the status and the body.\<close>

definition http_serve :: "solvers \<Rightarrow> string \<Rightarrow> (int \<times> string) option" where
  "http_serve s path =
     (if \<not> has_prefix path acmeHTTP01Prefix then None
      else case map_of (so_tokens s) path of
        None \<Rightarrow> Some (404, ''404 page not found'' @ [CHR 0x0A])
      | Some response \<Rightarrow> Some (200, response))"

definition alpn_put :: "string \<Rightarrow> tls_cert \<Rightarrow> solvers \<Rightarrow> solvers" where
  "alpn_put name cert s = s\<lparr>so_certs := al_put (to_lower name) cert (so_certs s)\<rparr>"

definition alpn_remove :: "string \<Rightarrow> solvers \<Rightarrow> solvers" where
  "alpn_remove name s = s\<lparr>so_certs := al_del (to_lower name) (so_certs s)\<rparr>"

record client_hello =
  ch_ServerName :: string
  ch_SupportedProtos :: "string list"

definition isALPNChallenge :: "client_hello \<Rightarrow> bool" where
  "isALPNChallenge hello \<longleftrightarrow> length (ch_SupportedProtos hello) = 1 \<and> ch_SupportedProtos hello ! 0 = acmeALPNProto"

definition alpn_certificateFor :: "solvers \<Rightarrow> client_hello \<Rightarrow> tls_cert option" where
  "alpn_certificateFor s hello =
     (if \<not> isALPNChallenge hello then None else map_of (so_certs s) (to_lower (ch_ServerName hello)))"

section \<open>An order\<close>

record challenge =
  cg_Type :: string
  cg_Token :: string

record authorization =
  az_valid :: bool
  az_name :: string
  az_challenges :: "challenge list"

record acme =
  am_register :: "go_error option"
  am_authorize :: "string list \<Rightarrow> go_error + string \<times> string list"
  am_authorization :: "string \<Rightarrow> go_error + authorization"
  am_httpResponse :: "string \<Rightarrow> go_error + string"
  am_httpPath :: "string \<Rightarrow> string"
  am_alpnCert :: "string \<Rightarrow> string \<Rightarrow> go_error + tls_cert"
  am_dnsRecord :: "string \<Rightarrow> go_error + string"
  am_provider :: "string \<Rightarrow> string \<Rightarrow> go_error option"
  am_present :: "string \<Rightarrow> string \<Rightarrow> go_error option"
  am_cleanUp :: "string \<Rightarrow> string \<Rightarrow> bool"
  am_lookupTXT :: "string \<Rightarrow> nat \<Rightarrow> go_error + string list"
  am_accept :: "string \<Rightarrow> go_error option"
  am_waitAuthorization :: "string \<Rightarrow> go_error option"
  am_waitOrder :: "string \<Rightarrow> go_error + string"
  am_finalize :: "string \<Rightarrow> string list \<Rightarrow> go_error + tls_cert"

definition findChallenge :: "challenge list \<Rightarrow> string \<Rightarrow> challenge option" where
  "findChallenge cs want = find (\<lambda>c. cg_Type c = want) cs"

text \<open>The lookups before the deadline of three minutes, one every five seconds.\<close>

definition txtLookups :: nat where "txtLookups = 36"

fun wait_txt :: "(nat \<Rightarrow> go_error + string list) \<Rightarrow> string \<Rightarrow> string \<Rightarrow> nat \<Rightarrow> nat \<Rightarrow> go_error option" where
  "wait_txt look name value i 0 =
     (case look i of
        Inr vs \<Rightarrow> if value \<in> set vs then None
                  else Some (plain (''timed out waiting for '' @ name @ '' to propagate: record present but holds ['' @ join_with '' '' vs @ '']''))
      | Inl e \<Rightarrow> Some (wrap (''timed out waiting for '' @ name @ '' to propagate'') e))"
| "wait_txt look name value i (Suc n) =
     (case look i of
        Inr vs \<Rightarrow> if value \<in> set vs then None else wait_txt look name value (Suc i) n
      | Inl e \<Rightarrow> wait_txt look name value (Suc i) n)"

definition waitForTXT :: "acme \<Rightarrow> string \<Rightarrow> string \<Rightarrow> go_error option" where
  "waitForTXT a name value = wait_txt (am_lookupTXT a name) name value 0 txtLookups"

text \<open>How to withdraw what was published.\<close>

datatype withdraw = WHttp string | WAlpn string | WTxt string string

definition withdrawn :: "acme \<Rightarrow> withdraw \<Rightarrow> solvers \<Rightarrow> solvers" where
  "withdrawn a w s =
     (case w of
        WHttp path \<Rightarrow> http_remove path s
      | WAlpn name \<Rightarrow> alpn_remove name s
      | WTxt name value \<Rightarrow>
          if am_cleanUp a name value then s\<lparr>so_txt := filter (\<lambda>x. x \<noteq> (name, value)) (so_txt s)\<rparr> else s)"

definition dnsProviderFor :: "acme \<Rightarrow> certificate \<Rightarrow> go_error option" where
  "dnsProviderFor a c = am_provider a (ce_DNSProvider c) (if ce_DNSCredentials c = [] then ''{}'' else ce_DNSCredentials c)"

definition prepare :: "acme \<Rightarrow> challenge \<Rightarrow> string \<Rightarrow> certificate \<Rightarrow> solvers \<Rightarrow> solvers \<times> (go_error + withdraw)" where
  "prepare a chal name c s =
     (if cg_Type chal = ChallengeHTTP01 then
        (case am_httpResponse a (cg_Token chal) of
           Inl e \<Rightarrow> (s, Inl e)
         | Inr response \<Rightarrow>
             let path = am_httpPath a (cg_Token chal) in (http_put path response s, Inr (WHttp path)))
      else if cg_Type chal = ChallengeTLSALPN01 then
        (case am_alpnCert a (cg_Token chal) name of
           Inl e \<Rightarrow> (s, Inl e)
         | Inr cert \<Rightarrow> (alpn_put name cert s, Inr (WAlpn name)))
      else if cg_Type chal = ChallengeDNS01 then
        (case dnsProviderFor a c of
           Some e \<Rightarrow> (s, Inl e)
         | None \<Rightarrow>
             (case am_dnsRecord a (cg_Token chal) of
                Inl e \<Rightarrow> (s, Inl e)
              | Inr value \<Rightarrow>
                  let rec = ''_acme-challenge.'' @ name
                  in case am_present a rec value of
                       Some e \<Rightarrow> (s, Inl (wrap (''publish '' @ rec) e))
                     | None \<Rightarrow>
                         let s = s\<lparr>so_txt := so_txt s @ [(rec, value)]\<rparr>
                         in case waitForTXT a rec value of
                              Some e \<Rightarrow> (withdrawn a (WTxt rec value) s, Inl e)
                            | None \<Rightarrow> (s, Inr (WTxt rec value))))
      else (s, Inl (plain (''unsupported challenge type '' @ cg_Type chal))))"

text \<open>The state of an order: what is published, whether the account is registered, and for every
  challenge the authority was told to check what was published at that moment.\<close>

record order_state =
  os_solvers :: solvers
  os_registered :: bool
  os_accepted :: "(challenge \<times> string \<times> solvers) list"

definition ensureAccount :: "acme \<Rightarrow> order_state \<Rightarrow> order_state \<times> go_error option" where
  "ensureAccount a st =
     (if os_registered st then (st, None)
      else case am_register a of
        Some e \<Rightarrow> (st, Some (wrap ''register acme account'' e))
      | None \<Rightarrow> (st\<lparr>os_registered := True\<rparr>, None))"

definition solveAuthorization :: "acme \<Rightarrow> certificate \<Rightarrow> string \<Rightarrow> order_state \<Rightarrow> order_state \<times> go_error option" where
  "solveAuthorization a c url st =
     (case am_authorization a url of
        Inl e \<Rightarrow> (st, Some (wrap ''get authorization'' e))
      | Inr authz \<Rightarrow>
          if az_valid authz then (st, None)
          else case findChallenge (az_challenges authz) (ce_Challenge c) of
            None \<Rightarrow> (st, Some (plain (''the certificate authority does not offer '' @ ce_Challenge c @ '' for '' @ az_name authz)))
          | Some chal \<Rightarrow>
              (case prepare a chal (az_name authz) c (os_solvers st) of
                 (s, Inl e) \<Rightarrow> (st\<lparr>os_solvers := s\<rparr>, Some e)
               | (s, Inr w) \<Rightarrow>
                   let r = (case am_accept a (cg_Token chal) of
                              Some e \<Rightarrow> Some (wrap (''accept challenge for '' @ az_name authz) e)
                            | None \<Rightarrow>
                                (case am_waitAuthorization a url of
                                   Some e \<Rightarrow> Some (wrap (''validate '' @ az_name authz) e)
                                 | None \<Rightarrow> None))
                   in (st\<lparr>os_solvers := withdrawn a w s, os_accepted := os_accepted st @ [(chal, az_name authz, s)]\<rparr>, r)))"

fun solve_all :: "acme \<Rightarrow> certificate \<Rightarrow> string list \<Rightarrow> order_state \<Rightarrow> order_state \<times> go_error option" where
  "solve_all a c [] st = (st, None)"
| "solve_all a c (url # urls) st =
     (case solveAuthorization a c url st of
        (st, Some e) \<Rightarrow> (st, Some e)
      | (st, None) \<Rightarrow> solve_all a c urls st)"

text \<open>The end of \<^verbatim>\<open>Obtain\<close>, once a chain and its key exist.\<close>

definition install_chain :: "x509 \<Rightarrow> time \<Rightarrow> string \<Rightarrow> tls_cert \<Rightarrow> certificate \<Rightarrow> certificate \<times> go_error option" where
  "install_chain x now source pems c =
     (case ApplyLeafMetadata x (c\<lparr>ce_CertificatePEM := fst pems, ce_PrivateKeyPEM := snd pems, ce_Source := source,
             ce_LastError := [], ce_LastIssued := Some now\<rparr>) of
        (c, e) \<Rightarrow> (c, map_option plain e))"

definition Obtain :: "x509 \<Rightarrow> acme \<Rightarrow> time \<Rightarrow> certificate \<Rightarrow> order_state \<Rightarrow> order_state \<times> certificate \<times> go_error option" where
  "Obtain x a now c st =
     (case ensureAccount a st of
        (st, Some e) \<Rightarrow> (st, c, Some e)
      | (st, None) \<Rightarrow>
          (case am_authorize a (ce_Domains c) of
             Inl e \<Rightarrow> (st, c, Some (wrap ''authorize order'' e))
           | Inr (uri, urls) \<Rightarrow>
               (case solve_all a c urls st of
                  (st, Some e) \<Rightarrow> (st, c, Some e)
                | (st, None) \<Rightarrow>
                    (case am_waitOrder a uri of
                       Inl e \<Rightarrow> (st, c, Some (wrap ''wait for order'' e))
                     | Inr finalizeURL \<Rightarrow>
                         (case am_finalize a finalizeURL (ce_Domains c) of
                            Inl e \<Rightarrow> (st, c, Some (wrap ''finalize order'' e))
                          | Inr pems \<Rightarrow> (st, install_chain x now CertSourceACME pems c))))))"

section \<open>The index\<close>

record certIndex =
  ix_exact :: "(string \<times> tls_cert) list"
  ix_wildcard :: "(string \<times> tls_cert) list"
  ix_count :: nat

definition index_domain :: "tls_cert \<Rightarrow> certIndex \<Rightarrow> string \<Rightarrow> certIndex" where
  "index_domain parsed idx d =
     (case cut_prefix d ''*.'' of
        Some parent \<Rightarrow> idx\<lparr>ix_wildcard := al_put parent parsed (ix_wildcard idx)\<rparr>
      | None \<Rightarrow> idx\<lparr>ix_exact := al_put d parsed (ix_exact idx)\<rparr>)"

definition index_cert :: "x509 \<Rightarrow> certIndex \<Rightarrow> certificate \<Rightarrow> certIndex" where
  "index_cert x idx c =
     (if ce_CertificatePEM c = [] \<or> ce_PrivateKeyPEM c = [] then idx
      else case x_pair x (ce_CertificatePEM c) (ce_PrivateKeyPEM c) of
        Some _ \<Rightarrow> idx
      | None \<Rightarrow>
          foldl (index_domain (ce_CertificatePEM c, ce_PrivateKeyPEM c)) (idx\<lparr>ix_count := Suc (ix_count idx)\<rparr>) (ce_Domains c))"

definition newCertIndex :: "x509 \<Rightarrow> certificate list \<Rightarrow> certIndex" where
  "newCertIndex x certs = foldl (index_cert x) \<lparr>ix_exact = [], ix_wildcard = [], ix_count = 0\<rparr> certs"

definition server_name :: "string \<Rightarrow> string" where
  "server_name serverName = to_lower (trim_suffix (trim_space serverName) ''.'')"

definition index_lookup :: "certIndex \<Rightarrow> string \<Rightarrow> tls_cert option" where
  "index_lookup i serverName =
     (let name = server_name serverName
      in if name = [] then None
         else case map_of (ix_exact i) name of
           Some cert \<Rightarrow> Some cert
         | None \<Rightarrow>
             (case cut name (CHR ''.'') of
                (_, parent, True) \<Rightarrow> map_of (ix_wildcard i) parent
              | (_, _, False) \<Rightarrow> None))"

section \<open>The manager\<close>

record manager =
  ma_table :: certs_table
  ma_index :: certIndex
  ma_order :: order_state
  ma_alerts :: "alert list"

datatype cert_call = KGet | KUpdate | KList

datatype issue_error =
    StoreFailed db_error
  | NotACME string
  | OrderFailed go_error
  | SaveFailed db_error
  | ReloadFailed db_error

definition Manager_Reload :: "x509 \<Rightarrow> string option \<Rightarrow> manager \<Rightarrow> manager \<times> db_error option" where
  "Manager_Reload x fault m =
     (case Certs_List fault (ma_table m) of
        Inl e \<Rightarrow> (m, Some e)
      | Inr certs \<Rightarrow> (m\<lparr>ma_index := newCertIndex x certs\<rparr>, None))"

definition CertificateFor :: "manager \<Rightarrow> client_hello \<Rightarrow> tls_cert option" where
  "CertificateFor m hello =
     (case alpn_certificateFor (os_solvers (ma_order m)) hello of
        Some cert \<Rightarrow> Some cert
      | None \<Rightarrow> if isALPNChallenge hello then None else index_lookup (ma_index m) (ch_ServerName hello))"

definition HandleACMEChallenge :: "manager \<Rightarrow> string \<Rightarrow> (int \<times> string) option" where
  "HandleACMEChallenge m path = http_serve (os_solvers (ma_order m)) path"

definition Issue ::
  "x509 \<Rightarrow> acme \<Rightarrow> (string \<Rightarrow> string) \<Rightarrow> (cert_call \<Rightarrow> string option) \<Rightarrow> time \<Rightarrow> int \<Rightarrow> manager \<Rightarrow> manager \<times> issue_error option" where
  "Issue x a quote io now i m =
     (case Certs_Get (io KGet) i (ma_table m) of
        Inl e \<Rightarrow> (m, Some (StoreFailed e))
      | Inr cert \<Rightarrow>
          if ce_Source cert \<noteq> CertSourceACME then (m, Some (NotACME (ce_Name cert)))
          else case Obtain x a now cert (ma_order m) of
            (st, cert, Some err) \<Rightarrow>
              let m = m\<lparr>ma_order := st,
                        ma_table := fst (Certs_Update (io KUpdate) now (cert\<lparr>ce_LastError := er_text err\<rparr>) (ma_table m))\<rparr>;
                  m = (if IsShutdown err then m
                       else m\<lparr>ma_alerts := ma_alerts m @ [CertificateFailed quote now (ce_Name cert) (er_text err)]\<rparr>)
              in (m, Some (OrderFailed err))
          | (st, cert, None) \<Rightarrow>
              (case Certs_Update (io KUpdate) now cert (ma_table m) of
                 (t, Some e) \<Rightarrow> (m\<lparr>ma_order := st, ma_table := t\<rparr>, Some (SaveFailed e))
               | (t, None) \<Rightarrow>
                   (case Manager_Reload x (io KList) (m\<lparr>ma_order := st, ma_table := t\<rparr>) of
                      (m, Some e) \<Rightarrow> (m, Some (ReloadFailed e))
                    | (m, None) \<Rightarrow> (m, None))))"

definition expiry_days :: "time \<Rightarrow> certificate \<Rightarrow> int" where
  "expiry_days now c = go_quot (ExpiresIn now c) (24 * hour)"

text \<open>One certificate of \<^verbatim>\<open>renewDue\<close>; what the outside does differs from one to the next.\<close>

record renewal_env =
  rv_acme :: acme
  rv_io :: "cert_call \<Rightarrow> string option"
  rv_cancelled :: bool

fun renew_each ::
  "x509 \<Rightarrow> (string \<Rightarrow> string) \<Rightarrow> (int \<Rightarrow> renewal_env) \<Rightarrow> time \<Rightarrow> certificate list \<Rightarrow> manager \<Rightarrow> manager" where
  "renew_each x quote env now [] m = m"
| "renew_each x quote env now (c # cs) m =
     (if rv_cancelled (env (ce_ID c)) then m
      else
        let days = expiry_days now c;
            m = (if days \<le> 14 then m\<lparr>ma_alerts := ma_alerts m @ [CertificateExpiring quote now (ce_Name c) days]\<rparr> else m)
        in renew_each x quote env now cs
             (fst (Issue x (rv_acme (env (ce_ID c))) quote (rv_io (env (ce_ID c))) now (ce_ID c) m)))"

definition renewDue ::
  "x509 \<Rightarrow> (string \<Rightarrow> string) \<Rightarrow> (int \<Rightarrow> renewal_env) \<Rightarrow> string option \<Rightarrow> time \<Rightarrow> manager \<Rightarrow> manager" where
  "renewDue x quote env fault now m =
     (case DueForRenewal fault now (ma_table m) of
        Inl _ \<Rightarrow> m
      | Inr due \<Rightarrow> renew_each x quote env now due m)"

section \<open>Certificates made here\<close>

definition selfSignedLifetime :: duration where "selfSignedLifetime = 365 * 24 * hour"

text \<open>\<open>generate\<close> makes a key and signs a certificate for the names, valid between two times.\<close>

definition GenerateSelfSigned ::
  "x509 \<Rightarrow> (string list \<Rightarrow> time \<Rightarrow> time \<Rightarrow> go_error + tls_cert) \<Rightarrow> time \<Rightarrow> certificate \<Rightarrow> certificate \<times> go_error option" where
  "GenerateSelfSigned x generate now c =
     (if ce_Domains c = [] then (c, Some (plain ''at least one domain is required''))
      else case generate (ce_Domains c) (now - hour) (now + selfSignedLifetime) of
        Inl e \<Rightarrow> (c, Some e)
      | Inr pems \<Rightarrow> install_chain x now CertSourceSelfSigned pems c)"

fun replace_crlf :: "string \<Rightarrow> string" where
  "replace_crlf (a # b # s) = (if a = CHR 0x0D \<and> b = CHR 0x0A then CHR 0x0A # replace_crlf s else a # replace_crlf (b # s))"
| "replace_crlf s = s"

definition normalizePEM :: "string \<Rightarrow> string" where
  "normalizePEM s = (let s = trim_space (replace_crlf s) in if s = [] then [] else s @ [CHR 0x0A])"

definition ImportManual :: "x509 \<Rightarrow> time \<Rightarrow> certificate \<Rightarrow> certificate \<times> (validation_error + string) option" where
  "ImportManual x now c =
     (let c = Certificate_Normalize (c\<lparr>ce_Source := CertSourceManual\<rparr>);
          c = c\<lparr>ce_CertificatePEM := normalizePEM (ce_CertificatePEM c), ce_PrivateKeyPEM := normalizePEM (ce_PrivateKeyPEM c)\<rparr>
      in case Certificate_Validate x c of
           Some v \<Rightarrow> (c, Some (Inl v))
         | None \<Rightarrow>
             (case ApplyLeafMetadata x c of
                (c, Some e) \<Rightarrow> (c, Some (Inr e))
              | (c, None) \<Rightarrow> (c\<lparr>ce_LastError := [], ce_LastIssued := Some now\<rparr>, None)))"

section \<open>Which certificate answers\<close>

definition usable :: "x509 \<Rightarrow> certificate \<Rightarrow> bool" where
  "usable x c \<longleftrightarrow> ce_CertificatePEM c \<noteq> [] \<and> ce_PrivateKeyPEM c \<noteq> [] \<and> x_pair x (ce_CertificatePEM c) (ce_PrivateKeyPEM c) = None"

abbreviation pems :: "certificate \<Rightarrow> tls_cert" where
  "pems c \<equiv> (ce_CertificatePEM c, ce_PrivateKeyPEM c)"

lemma index_domains:
  "map_of (ix_exact (foldl (index_domain pr) idx ds)) k =
     (if k \<in> set ds \<and> cut_prefix k ''*.'' = None then Some pr else map_of (ix_exact idx) k)"
  "map_of (ix_wildcard (foldl (index_domain pr) idx ds)) k =
     (if ''*.'' @ k \<in> set ds then Some pr else map_of (ix_wildcard idx) k)"
proof -
  have step: "map_of (ix_exact (index_domain pr idx d)) k = (if k = d \<and> cut_prefix d ''*.'' = None then Some pr else map_of (ix_exact idx) k)"
    "map_of (ix_wildcard (index_domain pr idx d)) k = (if d = ''*.'' @ k then Some pr else map_of (ix_wildcard idx) k)" for idx d
    using cut_prefix_Some [of d "''*.''" k] cut_prefix_None [of d "''*.''"]
    by (auto simp: index_domain_def has_prefix_iff split: option.splits)
  show "map_of (ix_exact (foldl (index_domain pr) idx ds)) k =
      (if k \<in> set ds \<and> cut_prefix k ''*.'' = None then Some pr else map_of (ix_exact idx) k)"
    by (induction ds arbitrary: idx) (auto simp: step)
  show "map_of (ix_wildcard (foldl (index_domain pr) idx ds)) k =
      (if ''*.'' @ k \<in> set ds then Some pr else map_of (ix_wildcard idx) k)"
    by (induction ds arbitrary: idx) (auto simp: step)
qed

text \<open>The last usable certificate that lists a name wins.\<close>

lemma newCertIndex_maps:
  "map_of (ix_exact (newCertIndex x certs)) k =
     map_option pems (find (\<lambda>c. usable x c \<and> k \<in> set (ce_Domains c) \<and> cut_prefix k ''*.'' = None) (rev certs))"
  "map_of (ix_wildcard (newCertIndex x certs)) k =
     map_option pems (find (\<lambda>c. usable x c \<and> ''*.'' @ k \<in> set (ce_Domains c)) (rev certs))"
proof -
  have "map_of (ix_exact (index_cert x idx c)) k =
      (if usable x c \<and> k \<in> set (ce_Domains c) \<and> cut_prefix k ''*.'' = None then Some (pems c) else map_of (ix_exact idx) k)"
    "map_of (ix_wildcard (index_cert x idx c)) k =
      (if usable x c \<and> ''*.'' @ k \<in> set (ce_Domains c) then Some (pems c) else map_of (ix_wildcard idx) k)" for idx c
    by (auto simp: index_cert_def usable_def index_domains split: option.splits)
  then show "map_of (ix_exact (newCertIndex x certs)) k =
     map_option pems (find (\<lambda>c. usable x c \<and> k \<in> set (ce_Domains c) \<and> cut_prefix k ''*.'' = None) (rev certs))"
    "map_of (ix_wildcard (newCertIndex x certs)) k =
     map_option pems (find (\<lambda>c. usable x c \<and> ''*.'' @ k \<in> set (ce_Domains c)) (rev certs))"
    by (induction certs rule: rev_induct) (auto simp: newCertIndex_def)
qed

lemma cut_prefix_case: "(case cut_prefix d p of Some t \<Rightarrow> P t | None \<Rightarrow> False) \<longleftrightarrow> (\<exists>t. d = p @ t \<and> P t)"
proof (cases "cut_prefix d p")
  case None
  with cut_prefix_None [of d p] show ?thesis by (simp add: has_prefix_iff)
next
  case (Some t)
  with cut_prefix_Some [of d p t] show ?thesis by simp
qed

lemma Certificate_MatchesDomain_iff:
  "Certificate_MatchesDomain c (trim_space sn) \<longleftrightarrow> server_name sn \<in> set (ce_Domains c)
     \<or> (\<exists>parent. ''*.'' @ parent \<in> set (ce_Domains c) \<and> wildcard_covers parent (server_name sn))"
  unfolding Certificate_MatchesDomain_def Let_def server_name_def cut_prefix_case by blast

lemma wildcard_self: "cut_prefix n ''*.'' = Some parent \<Longrightarrow> wildcard_covers parent n"
  by (auto simp: cut_prefix_Some wildcard_covers_iff intro!: exI [of _ "''*''"])

text \<open>What the index finds for a name: the last usable certificate that lists it, or else the last one
  with the wildcard of its parent.\<close>

lemma index_lookup_cases:
  assumes "index_lookup (newCertIndex x certs) sn = Some pr"
  obtains c where "c \<in> set certs" "usable x c" "pr = pems c" "server_name sn \<in> set (ce_Domains c)"
  | c parent where "c \<in> set certs" "usable x c" "pr = pems c" "''*.'' @ parent \<in> set (ce_Domains c)"
      "wildcard_covers parent (server_name sn)"
      "cut_prefix (server_name sn) ''*.'' = None \<Longrightarrow> \<forall>c' \<in> set certs. usable x c' \<longrightarrow> server_name sn \<notin> set (ce_Domains c')"
proof -
  let ?n = "server_name sn"
  obtain a parent dotted where cut: "cut ?n (CHR ''.'') = (a, parent, dotted)" by (cases "cut ?n (CHR ''.'')")
  show thesis
  proof (cases "map_of (ix_exact (newCertIndex x certs)) ?n")
    case (Some q)
    with assms have "pr = q" by (auto simp: index_lookup_def Let_def split: if_splits)
    with Some obtain c where "find (\<lambda>c. usable x c \<and> ?n \<in> set (ce_Domains c) \<and> cut_prefix ?n ''*.'' = None) (rev certs) = Some c"
      "pr = pems c" by (auto simp: newCertIndex_maps)
    then show thesis using find_SomeD that(1) by force
  next
    case None
    with assms cut have d: dotted "map_of (ix_wildcard (newCertIndex x certs)) parent = Some pr"
      unfolding index_lookup_def Let_def by (cases "?n = []"; cases dotted; simp)+
    then have "wildcard_covers parent ?n" using cut cut_wildcard [of ?n parent] by auto
    moreover obtain c where "c \<in> set certs" "usable x c" "pr = pems c" "''*.'' @ parent \<in> set (ce_Domains c)"
      using d(2) by (auto simp: newCertIndex_maps dest!: find_SomeD)
    moreover have "\<forall>c' \<in> set certs. usable x c' \<longrightarrow> ?n \<notin> set (ce_Domains c')" if "cut_prefix ?n ''*.'' = None"
      using None that by (auto simp: newCertIndex_maps find_None_iff)
    ultimately show thesis by (intro that(2))
  qed
qed

lemma index_lookup_covers:
  assumes "\<forall>c \<in> set certs. [] \<notin> set (ce_Domains c)"
  shows "(index_lookup (newCertIndex x certs) sn = None \<longleftrightarrow>
        \<not> (\<exists>c \<in> set certs. usable x c \<and> Certificate_MatchesDomain c (trim_space sn)))
    \<and> (\<forall>pr. index_lookup (newCertIndex x certs) sn = Some pr \<longrightarrow>
        (\<exists>c \<in> set certs. usable x c \<and> pr = pems c \<and> Certificate_MatchesDomain c (trim_space sn)
           \<and> (server_name sn \<in> set (ce_Domains c)
              \<or> cut_prefix (server_name sn) ''*.'' \<noteq> None
              \<or> (\<forall>c' \<in> set certs. usable x c' \<longrightarrow> server_name sn \<notin> set (ce_Domains c')))))"
proof -
  let ?n = "server_name sn"
  have some: "index_lookup (newCertIndex x certs) sn \<noteq> None"
    if c: "c \<in> set certs" "usable x c" and m: "Certificate_MatchesDomain c (trim_space sn)" for c
  proof -
    from m consider "?n \<in> set (ce_Domains c)" "cut_prefix ?n ''*.'' = None"
      | parent where "''*.'' @ parent \<in> set (ce_Domains c)" "wildcard_covers parent ?n"
      using wildcard_self [of ?n] by (cases "cut_prefix ?n ''*.''") (auto simp: Certificate_MatchesDomain_iff cut_prefix_Some)
    then show ?thesis
    proof cases
      case 1
      then have "map_of (ix_exact (newCertIndex x certs)) ?n \<noteq> None" using c by (auto simp: newCertIndex_maps find_None_iff)
      moreover have "?n \<noteq> []" using 1 c assms by auto
      ultimately show ?thesis by (auto simp: index_lookup_def Let_def)
    next
      case 2
      then have "map_of (ix_wildcard (newCertIndex x certs)) parent \<noteq> None" using c by (auto simp: newCertIndex_maps find_None_iff)
      moreover obtain label where "cut ?n (CHR ''.'') = (label, parent, True)" using 2(2) cut_wildcard by blast
      moreover have "?n \<noteq> []" using 2(2) by (auto simp: wildcard_covers_iff)
      ultimately show ?thesis by (auto simp: index_lookup_def Let_def split: option.splits)
    qed
  qed
  have sound: "\<exists>c \<in> set certs. usable x c \<and> pr = pems c \<and> Certificate_MatchesDomain c (trim_space sn)
      \<and> (?n \<in> set (ce_Domains c) \<or> cut_prefix ?n ''*.'' \<noteq> None
         \<or> (\<forall>c' \<in> set certs. usable x c' \<longrightarrow> ?n \<notin> set (ce_Domains c')))"
    if "index_lookup (newCertIndex x certs) sn = Some pr" for pr
    using that by (cases rule: index_lookup_cases) (use Certificate_MatchesDomain_iff in \<open>blast+\<close>)
  show ?thesis using some sound by (cases "index_lookup (newCertIndex x certs) sn") auto
qed

text \<open>C13. An ordinary handshake is answered exactly if some usable certificate covers its name, by one that
  does, and by one that lists the very name if there is such a certificate.\<close>

theorem CertificateFor_covers:
  assumes "\<forall>c \<in> set certs. [] \<notin> set (ce_Domains c)"
    and "ma_index m = newCertIndex x certs" "\<not> isALPNChallenge hello"
  shows "(CertificateFor m hello = None \<longleftrightarrow>
        \<not> (\<exists>c \<in> set certs. usable x c \<and> Certificate_MatchesDomain c (trim_space (ch_ServerName hello))))
    \<and> (\<forall>pr. CertificateFor m hello = Some pr \<longrightarrow>
        (\<exists>c \<in> set certs. usable x c \<and> pr = pems c \<and> Certificate_MatchesDomain c (trim_space (ch_ServerName hello))
           \<and> (server_name (ch_ServerName hello) \<in> set (ce_Domains c)
              \<or> cut_prefix (server_name (ch_ServerName hello)) ''*.'' \<noteq> None
              \<or> (\<forall>c' \<in> set certs. usable x c' \<longrightarrow> server_name (ch_ServerName hello) \<notin> set (ce_Domains c')))))"
  using index_lookup_covers [OF assms(1)] assms(2,3) by (simp add: CertificateFor_def alpn_certificateFor_def)

definition ex_x509 :: x509 where
  "ex_x509 = \<lparr>x_pair = (\<lambda>_ _. None), x_parse = (\<lambda>_. None), x_covers = (\<lambda>_ _. True),
     x_block = (\<lambda>_. Some (Inr \<lparr>lf_CommonName = ''R3'', lf_Organization = [], lf_NotBefore = 0, lf_NotAfter = 90 * 24 * hour\<rparr>))\<rparr>"

definition ex_issued :: "string \<Rightarrow> string list \<Rightarrow> certificate" where
  "ex_issued pem ds = ex_cert\<lparr>ce_Domains := ds, ce_CertificatePEM := pem, ce_PrivateKeyPEM := ''key''\<rparr>"

definition ex_manager :: manager where
  "ex_manager = \<lparr>ma_table = ex_certs,
     ma_index = newCertIndex ex_x509 [ex_issued ''one'' [''*.example.com''], ex_issued ''two'' [''www.example.com'']],
     ma_order = \<lparr>os_solvers = no_challenges, os_registered = False, os_accepted = []\<rparr>, ma_alerts = []\<rparr>"

definition ex_hello :: "string \<Rightarrow> client_hello" where
  "ex_hello n = \<lparr>ch_ServerName = n, ch_SupportedProtos = [''h2'', ''http/1.1'']\<rparr>"

theorem CertificateFor_covers_witness:
  "CertificateFor ex_manager (ex_hello ''WWW.example.com'') = Some (''two'', ''key'')
     \<and> CertificateFor ex_manager (ex_hello ''api.example.com'') = Some (''one'', ''key'')
     \<and> CertificateFor ex_manager (ex_hello ''a.b.example.com'') = None"
proof -
  let ?cs = "[ex_issued ''one'' [''*.example.com''], ex_issued ''two'' [''www.example.com'']]"
  have "\<forall>c \<in> set ?cs. [] \<notin> set (ce_Domains c)" by (simp add: ex_issued_def)
  moreover have "ma_index ex_manager = newCertIndex ex_x509 ?cs" by (simp add: ex_manager_def)
  moreover have "\<not> isALPNChallenge (ex_hello ''a.b.example.com'')" by (simp add: isALPNChallenge_def ex_hello_def)
  moreover have "\<not> (\<exists>c \<in> set ?cs. usable ex_x509 c \<and> Certificate_MatchesDomain c (trim_space (ch_ServerName (ex_hello ''a.b.example.com''))))"
    by code_simp
  ultimately have "CertificateFor ex_manager (ex_hello ''a.b.example.com'') = None"
    using CertificateFor_covers [of ?cs ex_manager ex_x509 "ex_hello ''a.b.example.com''"] by blast
  moreover have "CertificateFor ex_manager (ex_hello ''WWW.example.com'') = Some (''two'', ''key'')"
    "CertificateFor ex_manager (ex_hello ''api.example.com'') = Some (''one'', ''key'')" by code_simp+
  ultimately show ?thesis by blast
qed

section \<open>Challenges are withdrawn\<close>

text \<open>Nothing is left but TXT records whose removal the provider refused.\<close>

definition leftover :: "acme \<Rightarrow> solvers \<Rightarrow> bool" where
  "leftover a s \<longleftrightarrow> so_tokens s = [] \<and> so_certs s = [] \<and> (\<forall>(n, v) \<in> set (so_txt s). \<not> am_cleanUp a n v)"

text \<open>What has to be visible when the authority is told to check a challenge.\<close>

definition published :: "acme \<Rightarrow> challenge \<Rightarrow> string \<Rightarrow> solvers \<Rightarrow> bool" where
  "published a chal name s =
     (if cg_Type chal = ChallengeHTTP01 then
        (\<exists>response. am_httpResponse a (cg_Token chal) = Inr response
           \<and> map_of (so_tokens s) (am_httpPath a (cg_Token chal)) = Some response)
      else if cg_Type chal = ChallengeTLSALPN01 then
        (\<exists>cert. am_alpnCert a (cg_Token chal) name = Inr cert \<and> map_of (so_certs s) (to_lower name) = Some cert)
      else if cg_Type chal = ChallengeDNS01 then
        (\<exists>value i vs. am_dnsRecord a (cg_Token chal) = Inr value
           \<and> (''_acme-challenge.'' @ name, value) \<in> set (so_txt s)
           \<and> am_lookupTXT a (''_acme-challenge.'' @ name) i = Inr vs \<and> value \<in> set vs)
      else False)"

lemma wait_txt_None: "wait_txt look name value i n = None \<Longrightarrow> \<exists>j vs. look j = Inr vs \<and> value \<in> set vs"
  by (induction n arbitrary: i) (auto split: sum.splits if_splits)

lemma leftover_txt:
  "leftover a s \<Longrightarrow> leftover a (withdrawn a (WTxt n v) (s\<lparr>so_txt := so_txt s @ [(n, v)]\<rparr>))"
  by (auto simp: leftover_def withdrawn_def)

lemma prepare_leftover:
  assumes "leftover a s"
  shows "prepare a chal name c s = (s', Inl e) \<Longrightarrow> leftover a s'"
    and "prepare a chal name c s = (s', Inr w) \<Longrightarrow> leftover a (withdrawn a w s') \<and> published a chal name s'"
proof -
  note defs = prepare_def Let_def http_put_def alpn_put_def waitForTXT_def
  show "prepare a chal name c s = (s', Inl e) \<Longrightarrow> leftover a s'"
    using assms leftover_txt [OF assms]
    by (auto simp: defs split: if_splits sum.splits option.splits)
  assume p: "prepare a chal name c s = (s', Inr w)"
  consider "cg_Type chal = ChallengeHTTP01" | "cg_Type chal = ChallengeTLSALPN01" "cg_Type chal \<noteq> ChallengeHTTP01"
    | "cg_Type chal = ChallengeDNS01" "cg_Type chal \<noteq> ChallengeHTTP01" "cg_Type chal \<noteq> ChallengeTLSALPN01"
    using p by (auto simp: prepare_def split: if_splits)
  then show "leftover a (withdrawn a w s') \<and> published a chal name s'"
  proof cases
    case 1
    with p assms show ?thesis
      by (auto simp: defs published_def leftover_def withdrawn_def http_remove_def al_del_def split: sum.splits)
  next
    case 2
    with p assms show ?thesis
      by (auto simp: defs published_def leftover_def withdrawn_def alpn_remove_def al_del_def split: sum.splits)
  next
    case 3
    with p obtain val where v: "am_dnsRecord a (cg_Token chal) = Inr val" "w = WTxt (''_acme-challenge.'' @ name) val"
      "s' = s\<lparr>so_txt := so_txt s @ [(''_acme-challenge.'' @ name, val)]\<rparr>"
      "wait_txt (am_lookupTXT a (''_acme-challenge.'' @ name)) (''_acme-challenge.'' @ name) val 0 txtLookups = None"
      by (auto simp: defs split: sum.splits option.splits)
    with 3 leftover_txt [OF assms] wait_txt_None [OF v(4)] show ?thesis by (auto simp: published_def)
  qed
qed

definition order_ok :: "acme \<Rightarrow> order_state \<Rightarrow> bool" where
  "order_ok a st \<longleftrightarrow> leftover a (os_solvers st) \<and> (\<forall>(chal, name, s) \<in> set (os_accepted st). published a chal name s)"

lemma solveAuthorization_ok:
  assumes "order_ok a st"
  shows "order_ok a (fst (solveAuthorization a c url st))"
proof (cases "am_authorization a url")
  case (Inr authz)
  show ?thesis
  proof (cases "az_valid authz \<or> findChallenge (az_challenges authz) (ce_Challenge c) = None")
    case False
    then obtain chal where ch: "findChallenge (az_challenges authz) (ce_Challenge c) = Some chal" by auto
    obtain s r where p: "prepare a chal (az_name authz) c (os_solvers st) = (s, r)" by (cases "prepare a chal (az_name authz) c (os_solvers st)")
    note l = prepare_leftover [of a "os_solvers st" chal "az_name authz" c s]
    show ?thesis
      using assms Inr False ch p l by (cases r) (auto simp: solveAuthorization_def order_ok_def Let_def)
  qed (use assms Inr in \<open>auto simp: solveAuthorization_def split: option.splits\<close>)
qed (use assms in \<open>simp add: solveAuthorization_def\<close>)

lemma solve_all_ok: "order_ok a st \<Longrightarrow> order_ok a (fst (solve_all a c urls st))"
proof (induction urls arbitrary: st)
  case (Cons url urls)
  from solveAuthorization_ok [OF Cons.prems, of c url] Cons.IH show ?case
    by (auto split: prod.splits option.splits)
qed simp

text \<open>C17. Whenever the authority is told to check a challenge, what it will look for is published, and for
  dns-01 has been seen in DNS. When an order ends, however it ends, no answer to a challenge is left:
  no token, no challenge certificate, and no TXT record but those the provider failed to remove.\<close>

theorem Obtain_withdraws_challenges:
  assumes "os_solvers st = no_challenges" "os_accepted st = []"
    and "Obtain x a now c st = (st', c', r)"
  shows "leftover a (os_solvers st') \<and> (\<forall>(chal, name, s) \<in> set (os_accepted st'). published a chal name s)"
proof -
  have "order_ok a st" using assms by (simp add: order_ok_def leftover_def no_challenges_def)
  then have "order_ok a (fst (ensureAccount a st))"
    by (auto simp: ensureAccount_def order_ok_def split: option.splits)
  then have "order_ok a st'"
    using assms(3) solve_all_ok [of a "fst (ensureAccount a st)" c]
    by (auto simp: Obtain_def split: prod.splits option.splits sum.splits) (metis fst_conv)+
  then show ?thesis by (simp add: order_ok_def)
qed

text \<open>An authority that asks for one http-01 challenge and then refuses it.\<close>

definition ex_acme :: acme where
  "ex_acme = \<lparr>am_register = None, am_authorize = (\<lambda>_. Inr (''order'', [''authz''])),
     am_authorization = (\<lambda>_. Inr \<lparr>az_valid = False, az_name = ''a.example'', az_challenges = [\<lparr>cg_Type = ChallengeHTTP01, cg_Token = ''tok''\<rparr>]\<rparr>),
     am_httpResponse = (\<lambda>t. Inr (t @ ''.key'')), am_httpPath = (\<lambda>t. acmeHTTP01Prefix @ t), am_alpnCert = (\<lambda>_ _. Inr ([], [])),
     am_dnsRecord = Inr, am_provider = (\<lambda>_ _. None), am_present = (\<lambda>_ _. None), am_cleanUp = (\<lambda>_ _. True),
     am_lookupTXT = (\<lambda>_ _. Inr []), am_accept = (\<lambda>_. None),
     am_waitAuthorization = (\<lambda>_. Some (plain ''invalid'')), am_waitOrder = Inr, am_finalize = (\<lambda>_ _. Inr (''chain'', ''key''))\<rparr>"

theorem Obtain_withdraws_challenges_witness:
  "\<exists>st' c' r chal s. Obtain ex_x509 ex_acme 0 ex_cert (ma_order ex_manager) = (st', c', Some r)
     \<and> os_accepted st' = [(chal, ''a.example'', s)] \<and> published ex_acme chal ''a.example'' s \<and> so_tokens (os_solvers st') = []"
proof -
  have ob: "Obtain ex_x509 ex_acme 0 ex_cert (ma_order ex_manager) =
     (\<lparr>os_solvers = no_challenges, os_registered = True,
        os_accepted = [(\<lparr>cg_Type = ChallengeHTTP01, cg_Token = ''tok''\<rparr>, ''a.example'',
          http_put (acmeHTTP01Prefix @ ''tok'') ''tok.key'' no_challenges)]\<rparr>,
      ex_cert, Some (wrap ''validate a.example'' (plain ''invalid'')))"
    by code_simp
  have s: "os_solvers (ma_order ex_manager) = no_challenges" "os_accepted (ma_order ex_manager) = []" by (simp_all add: ex_manager_def)
  from Obtain_withdraws_challenges [OF s ob] ob show ?thesis by (auto simp: leftover_def)
qed

section \<open>What goes unnoticed\<close>

text \<open>An order that runs out of time fails with an expired context. \<^verbatim>\<open>IsShutdown\<close> takes that for the
  process stopping, so no alert is raised, and the same context is used to record the failure on the
  certificate, so that fails too: the table and the alerts are what they were.\<close>

theorem timed_out_order_leaves_no_trace:
  assumes "Certs_Get (io KGet) i (ma_table m) = Inr c" "ce_Source c = CertSourceACME"
    and "Obtain x a now c (ma_order m) = (st', c', Some err)" "IsShutdown err" "io KUpdate = Some reason"
  shows "\<exists>m'. Issue x a quote io now i m = (m', Some (OrderFailed err))
    \<and> ma_table m' = ma_table m \<and> ma_alerts m' = ma_alerts m \<and> ma_index m' = ma_index m"
  using assms by (simp add: Issue_def Certs_Update_def)

text \<open>A certificate that was never issued has no expiry, and the zero time reads as long past: every
  renewal round announces that it expires in minus 106751 days.\<close>

lemma never_issued_days: "now \<ge> 0 \<Longrightarrow> ce_NotAfter c = zero_time \<Longrightarrow> expiry_days now c = - 106751"
  by (simp add: expiry_days_def ExpiresIn_def saturate_def zero_time_def go_quot_def)

theorem never_issued_reported_expiring:
  assumes "DueForRenewal fault now (ma_table m) = Inr (c # cs)" "now \<ge> 0" "ce_NotAfter c = zero_time"
    and "\<not> rv_cancelled (env (ce_ID c))"
  shows "CertificateExpiring quote now (ce_Name c) (- 106751) \<in> set (ma_alerts (renewDue x quote env fault now m))"
proof -
  have keep: "set (ma_alerts m) \<subseteq> set (ma_alerts (fst (Issue x a quote io now i m)))" for a io i m
    by (auto simp: Issue_def Let_def Manager_Reload_def split: sum.splits prod.splits option.splits)
  have each: "set (ma_alerts m) \<subseteq> set (ma_alerts (renew_each x quote env now cs m))" for cs m
  proof (induction cs arbitrary: m)
    case (Cons c cs)
    let ?m = "if expiry_days now c \<le> 14 then m\<lparr>ma_alerts := ma_alerts m @ [CertificateExpiring quote now (ce_Name c) (expiry_days now c)]\<rparr> else m"
    have "set (ma_alerts m) \<subseteq> set (ma_alerts ?m)" by auto
    with keep [of ?m] Cons.IH show ?case by (auto simp: Let_def) (meson in_mono)+
  qed simp
  show ?thesis
    using assms each keep unfolding renewDue_def
    by (auto simp: never_issued_days Let_def intro!: each [THEN subsetD] keep [THEN subsetD])
qed

definition ex_slow :: acme where
  "ex_slow = ex_acme\<lparr>am_authorize := (\<lambda>_. Inl \<lparr>er_text = ''context deadline exceeded'', er_shutdown = True\<rparr>)\<rparr>"

definition ex_stored :: manager where
  "ex_stored = ex_manager\<lparr>ma_table := fst (Certs_Create None 0 ex_cert ex_certs)\<rparr>"

definition ex_expired :: "cert_call \<Rightarrow> string option" where
  "ex_expired k = (if k = KUpdate then Some ''context deadline exceeded'' else None)"

lemma ex_stored_get: "Certs_Get None 7 (ma_table ex_stored) = Inr (to_seconds (ex_cert\<lparr>ce_ID := 7, ce_CreatedAt := 0, ce_UpdatedAt := 0\<rparr>))"
  by code_simp

theorem timed_out_order_leaves_no_trace_witness:
  "\<exists>m' err. Issue ex_x509 ex_slow id ex_expired 0 7 ex_stored = (m', Some (OrderFailed err))
     \<and> ma_table m' = ma_table ex_stored \<and> ma_alerts m' = ma_alerts ex_stored"
proof -
  let ?c = "to_seconds (ex_cert\<lparr>ce_ID := 7, ce_CreatedAt := 0, ce_UpdatedAt := 0\<rparr>)"
  let ?e = "\<lparr>er_text = ''authorize order: context deadline exceeded'', er_shutdown = True\<rparr>"
  have g: "Certs_Get (ex_expired KGet) 7 (ma_table ex_stored) = Inr ?c" by (simp add: ex_expired_def ex_stored_get)
  have s: "ce_Source ?c = CertSourceACME" by (simp add: to_seconds_def ex_cert_def)
  have ob: "Obtain ex_x509 ex_slow 0 ?c (ma_order ex_stored)
      = ((ma_order ex_stored)\<lparr>os_registered := True\<rparr>, ?c, Some ?e)"
    by (simp add: Obtain_def ensureAccount_def ex_slow_def ex_acme_def ex_stored_def ex_manager_def wrap_def)
  have "IsShutdown ?e" "ex_expired KUpdate = Some ''context deadline exceeded''" by (simp_all add: IsShutdown_def ex_expired_def)
  from timed_out_order_leaves_no_trace [OF g s ob this, of id] show ?thesis by blast
qed

theorem never_issued_reported_expiring_witness:
  "CertificateExpiring id 0 ''site'' (- 106751)
     \<in> set (ma_alerts (renewDue ex_x509 id (\<lambda>_. \<lparr>rv_acme = ex_acme, rv_io = (\<lambda>_. None), rv_cancelled = False\<rparr>) None 0 ex_stored))"
proof -
  let ?c = "to_seconds (ex_cert\<lparr>ce_ID := 7, ce_CreatedAt := 0, ce_UpdatedAt := 0\<rparr>)"
  have due: "DueForRenewal None 0 (ma_table ex_stored) = Inr [?c]" by code_simp
  have z: "ce_NotAfter ?c = zero_time" "ce_Name ?c = ''site''" by (code_simp, code_simp)
  from never_issued_reported_expiring [OF due _ z(1),
      where quote = id and x = ex_x509 and env = "\<lambda>_. \<lparr>rv_acme = ex_acme, rv_io = (\<lambda>_. None), rv_cancelled = False\<rparr>"] z(2)
  show ?thesis by simp
qed

end
