(* ===== verification/Store_Hosts.thy ===== *)
theory Store_Hosts
  imports Store_Children Domain_Host
begin

text \<open>The repository of hosts (\<^verbatim>\<open>store/hosts.go\<close>): one row per host with its durations in milliseconds, and
  child tables for everything a host has several of. A write is one transaction. The columns
  \<^verbatim>\<open>created_at\<close> and \<^verbatim>\<open>updated_at\<close>, which only the console shows, are left out.

  Reading the locations keeps Go's slices and pointers: \<^verbatim>\<open>attachLocations\<close> appends each location to its
  host and remembers a pointer to the element, through which the backends and header rules are filled in
  later. An append that outgrows the array moves the elements to a new one, and the pointers taken before
  keep pointing at the old.\<close>

section \<open>Rows\<close>

definition milliseconds :: "duration \<Rightarrow> int" where "milliseconds d = go_quot d 1000000"

definition from_milliseconds :: "int \<Rightarrow> duration" where "from_milliseconds n = n * 1000000"

record host_row =
  hw_name :: string
  hw_enabled :: bool
  hw_algorithm :: string
  hw_certificate_id :: "int option"
  hw_access_list_id :: "int option"
  hw_force_https :: bool
  hw_hsts_max_age :: int
  hw_websocket_support :: bool
  hw_preserve_host :: bool
  hw_hc :: "bool \<times> string \<times> int \<times> int \<times> int \<times> int \<times> int"
  hw_ph :: "bool \<times> int \<times> int"
  hw_log :: "bool \<times> bool"
  hw_guardian :: "string \<times> int"
  hw_cache :: "bool \<times> int \<times> int \<times> int \<times> int"
  hw_limit :: "string \<times> int \<times> int \<times> int \<times> int"
  hw_maint :: "bool \<times> int \<times> string \<times> string \<times> int"
  hw_error_page :: "bool \<times> string \<times> string"
  hw_usage_alert :: "bool \<times> int \<times> int"
  hw_compress :: "bool \<times> int \<times> int"

definition hostInsertArgs :: "host \<Rightarrow> host_row" where
  "hostInsertArgs h =
     \<lparr>hw_name = h_Name h, hw_enabled = h_Enabled h, hw_algorithm = h_Algorithm h, hw_certificate_id = h_CertificateID h,
      hw_access_list_id = h_AccessListID h, hw_force_https = h_ForceHTTPS h, hw_hsts_max_age = h_HSTSMaxAge h,
      hw_websocket_support = h_WebSocketSupport h, hw_preserve_host = h_PreserveHost h,
      hw_hc = (let c = h_HealthCheck h in
        (hc_Enabled c, hc_Path c, milliseconds (hc_Interval c), milliseconds (hc_Timeout c), hc_HealthyThreshold c,
         hc_UnhealthyThreshold c, hc_ExpectStatus c)),
      hw_ph = (let p = h_PassiveHealth h in (ph_Enabled p, ph_MaxFails p, milliseconds (ph_EjectFor p))),
      hw_log = (ls_Enabled (h_AccessLog h), ls_IncludeQuery (h_AccessLog h)),
      hw_guardian = (g_Mode (h_Guardian h), g_MaxURILength (h_Guardian h)),
      hw_cache = (let c = h_Cache h in
        (cf_Enabled c, milliseconds (cf_TTL c), milliseconds (cf_MaxTTL c), cf_MaxObjectBytes c, cf_MaxBytes c)),
      hw_limit = (let t = h_TrafficLimits h in
        (tl_Mode t, tl_RequestsPerSecond t, tl_Burst t, tl_MaxConcurrent t, tl_MaxBodyBytes t)),
      hw_maint = (let m = h_Maintenance h in
        (mt_Enabled m, mt_StatusCode m, mt_Title m, mt_Message m, mt_RetryAfterSeconds m)),
      hw_error_page = (let e = h_ErrorPages h in (ep_Enabled e, ep_Title e, ep_Message e)),
      hw_usage_alert = (let u = h_UsageAlert h in (ua_Enabled u, ua_Bytes u, ua_PeriodDays u)),
      hw_compress = (let c = h_Compression h in (cp_Enabled c, cp_MinBytes c, cp_Level c))\<rparr>"

text \<open>\<^verbatim>\<open>scanHost\<close>, the children still missing.\<close>

definition scanHost :: "int \<Rightarrow> host_row \<Rightarrow> host" where
  "scanHost i r =
     \<lparr>h_ID = i, h_Name = hw_name r, h_Enabled = hw_enabled r, h_Domains = [], h_Algorithm = hw_algorithm r, h_Upstreams = [],
      h_CertificateID = hw_certificate_id r, h_AccessListID = hw_access_list_id r, h_ForceHTTPS = hw_force_https r,
      h_HSTSMaxAge = hw_hsts_max_age r, h_WebSocketSupport = hw_websocket_support r, h_PreserveHost = hw_preserve_host r,
      h_HealthCheck = (case hw_hc r of (e, p, iv, tm, ht, ut, ex) \<Rightarrow>
        \<lparr>hc_Enabled = e, hc_Path = p, hc_Interval = from_milliseconds iv, hc_Timeout = from_milliseconds tm,
         hc_HealthyThreshold = ht, hc_UnhealthyThreshold = ut, hc_ExpectStatus = ex\<rparr>),
      h_PassiveHealth = (case hw_ph r of (e, m, f) \<Rightarrow> \<lparr>ph_Enabled = e, ph_MaxFails = m, ph_EjectFor = from_milliseconds f\<rparr>),
      h_AccessLog = \<lparr>ls_Enabled = fst (hw_log r), ls_IncludeQuery = snd (hw_log r)\<rparr>,
      h_Guardian = \<lparr>g_Mode = fst (hw_guardian r), g_Rules = [], g_MaxURILength = snd (hw_guardian r)\<rparr>,
      h_Cache = (case hw_cache r of (e, t, mt, mo, mb) \<Rightarrow>
        \<lparr>cf_Enabled = e, cf_Paths = [], cf_TTL = from_milliseconds t, cf_MaxTTL = from_milliseconds mt, cf_MaxObjectBytes = mo,
         cf_MaxBytes = mb\<rparr>),
      h_TrafficLimits = (case hw_limit r of (m, rps, b, c, mb) \<Rightarrow>
        \<lparr>tl_Mode = m, tl_RequestsPerSecond = rps, tl_Burst = b, tl_MaxConcurrent = c, tl_MaxBodyBytes = mb, tl_Exempt = [], tl_exempt = []\<rparr>),
      h_Maintenance = (case hw_maint r of (e, sc, t, m, ra) \<Rightarrow>
        \<lparr>mt_Enabled = e, mt_StatusCode = sc, mt_Title = t, mt_Message = m, mt_RetryAfterSeconds = ra, mt_AllowFrom = [], mt_allowFrom = []\<rparr>),
      h_ErrorPages = (case hw_error_page r of (e, t, m) \<Rightarrow> \<lparr>ep_Enabled = e, ep_Title = t, ep_Message = m\<rparr>),
      h_UsageAlert = (case hw_usage_alert r of (e, b, d) \<Rightarrow> \<lparr>ua_Enabled = e, ua_Bytes = b, ua_PeriodDays = d\<rparr>),
      h_Locations = [], h_Headers = \<lparr>hs_Request = [], hs_Response = []\<rparr>,
      h_Compression = (case hw_compress r of (e, m, l) \<Rightarrow> \<lparr>cp_Enabled = e, cp_MinBytes = m, cp_Types = [], cp_Level = l\<rparr>)\<rparr>"

section \<open>The tables\<close>

datatype rule_owner = HostOwner int | LocationOwner int

record hosts_db =
  hd_rows :: "(int \<times> host_row) list"
  hd_seq :: int
  hd_domains :: "(int \<times> string \<times> nat) list"
  hd_guardianRules :: "(int \<times> string) list"
  hd_cachePaths :: "(int \<times> string \<times> nat) list"
  hd_limitExempt :: "(int \<times> string \<times> nat) list"
  hd_locations :: "(int \<times> (int \<times> string \<times> bool) \<times> nat) list"
  hd_locationSeq :: int
  hd_locationUpstreams :: "(int \<times> upstream \<times> nat) list"
  hd_locationUpstreamSeq :: int
  hd_headerRules :: "((rule_owner \<times> string) \<times> header_rule \<times> nat) list"
  hd_compressTypes :: "(int \<times> string \<times> nat) list"
  hd_maintAllow :: "(int \<times> string \<times> nat) list"
  hd_upstreams :: "(int \<times> upstream \<times> nat) list"
  hd_upstreamSeq :: int

definition then_do :: "'e + 'a \<Rightarrow> ('a \<Rightarrow> 'e + 'b) \<Rightarrow> 'e + 'b" where
  "then_do r f = (case r of Inl e \<Rightarrow> Inl e | Inr x \<Rightarrow> f x)"

lemma then_do_Inr [simp]: "then_do r f = Inr y \<longleftrightarrow> (\<exists>x. r = Inr x \<and> f x = Inr y)"
  by (auto simp: then_do_def split: sum.splits)

text \<open>\<^verbatim>\<open>domainConflict\<close>: the domain is taken by a host, or by a redirect, whose trigger aborts the insert.\<close>

definition domain_conflict :: "string \<Rightarrow> db_error" where
  "domain_conflict d =
     ErrConflict (''conflict: domain '' @ [CHR 0x22] @ d @ [CHR 0x22] @ '' is already routed by another host or redirect'')"

definition location_conflict :: "string \<Rightarrow> db_error" where
  "location_conflict path = ErrConflict (''conflict: two locations claim the path '' @ [CHR 0x22] @ path @ [CHR 0x22])"

fun write_domains :: "(string \<Rightarrow> bool) \<Rightarrow> int \<Rightarrow> nat \<Rightarrow> string list \<Rightarrow> hosts_db \<Rightarrow> db_error + hosts_db" where
  "write_domains redirected i p [] db = Inr db"
| "write_domains redirected i p (d # ds) db =
     (if redirected d \<or> d \<in> (\<lambda>(k, v, p). v) ` set (hd_domains db) then Inl (domain_conflict d)
      else write_domains redirected i (Suc p) ds (db\<lparr>hd_domains := hd_domains db @ [(i, d, p)]\<rparr>))"

definition unique :: "string \<Rightarrow> 'a list \<Rightarrow> db_error + unit" where
  "unique columns vs =
     (if distinct vs then Inr () else Inl (translateErr (Driver (''constraint failed: UNIQUE constraint failed: '' @ columns))))"

definition upstream_refused :: "upstream \<Rightarrow> bool" where
  "upstream_refused u \<longleftrightarrow> \<not> (u_Scheme u = ''http'' \<or> u_Scheme u = ''https'') \<or> u_Weight u < 1 \<or> u_MaxConns u < 0"

text \<open>The first insert of an upstream that is refused: a row that breaks a check, or an address the host
  already has.\<close>

fun upstream_fault :: "(string \<times> string) list \<Rightarrow> upstream list \<Rightarrow> string option" where
  "upstream_fault seen [] = None"
| "upstream_fault seen (u # us) =
     (if upstream_refused u then Some ''constraint failed: CHECK constraint failed: upstreams (275)''
      else if (u_Scheme u, u_Address u) \<in> set seen
      then Some ''constraint failed: UNIQUE constraint failed: upstreams.host_id, upstreams.scheme, upstreams.address (2067)''
      else upstream_fault ((u_Scheme u, u_Address u) # seen) us)"

text \<open>The upstreams as they are after the loop that inserts them: with their host and a new id.\<close>

definition numbered :: "int \<Rightarrow> int \<Rightarrow> upstream list \<Rightarrow> upstream list" where
  "numbered i n us = map (\<lambda>(k, u). u\<lparr>u_ID := n + 1 + int k, u_HostID := i\<rparr>) (enumerate 0 us)"

text \<open>\<^verbatim>\<open>writeHeaderRules\<close>.\<close>

definition write_headers :: "rule_owner \<Rightarrow> headers \<Rightarrow> hosts_db \<Rightarrow> hosts_db" where
  "write_headers own h db =
     db\<lparr>hd_headerRules := hd_headerRules db @ child_rows (own, ''request'') (hs_Request h) @ child_rows (own, ''response'') (hs_Response h)\<rparr>"

fun write_locations :: "int \<Rightarrow> nat \<Rightarrow> string list \<Rightarrow> location list \<Rightarrow> hosts_db \<Rightarrow> db_error + hosts_db \<times> location list" where
  "write_locations i p seen [] db = Inr (db, [])"
| "write_locations i p seen (l # ls) db =
     (if lc_Path l \<in> set seen then Inl (location_conflict (lc_Path l))
      else
        let lid = hd_locationSeq db + 1;
            us = numbered i (hd_locationUpstreamSeq db) (lc_Upstreams l);
            db = db\<lparr>hd_locations := hd_locations db @ [(i, (lid, lc_Path l, lc_StripPrefix l), p)], hd_locationSeq := lid\<rparr>;
            db = write_headers (LocationOwner lid) (lc_Headers l) db;
            db = db\<lparr>hd_locationUpstreams := hd_locationUpstreams db @ child_rows lid us,
                    hd_locationUpstreamSeq := hd_locationUpstreamSeq db + int (length us)\<rparr>
        in then_do (write_locations i (Suc p) (lc_Path l # seen) ls db)
             (\<lambda>(db, ls). Inr (db, l\<lparr>lc_ID := lid, lc_HostID := i, lc_Upstreams := us\<rparr> # ls)))"

definition writeHostChildren :: "(string \<Rightarrow> bool) \<Rightarrow> host \<Rightarrow> hosts_db \<Rightarrow> db_error + hosts_db \<times> host" where
  "writeHostChildren redirected h db =
     (let i = h_ID h
      in then_do (write_domains redirected i 0 (h_Domains h) db) (\<lambda>db.
         then_do (unique ''host_guardian_rules'' (g_Rules (h_Guardian h))) (\<lambda>_.
         then_do (unique ''host_cache_paths'' (cf_Paths (h_Cache h))) (\<lambda>_.
         then_do (unique ''host_limit_exempt'' (tl_Exempt (h_TrafficLimits h))) (\<lambda>_.
         let db = db\<lparr>hd_guardianRules := hd_guardianRules db @ map (Pair i) (g_Rules (h_Guardian h)),
                     hd_cachePaths := hd_cachePaths db @ child_rows i (cf_Paths (h_Cache h)),
                     hd_limitExempt := hd_limitExempt db @ child_rows i (tl_Exempt (h_TrafficLimits h))\<rparr>
         in then_do (write_locations i 0 [] (h_Locations h) db) (\<lambda>(db, ls).
         let db = write_headers (HostOwner i) (h_Headers h) db
         in then_do (unique ''host_compress_types'' (cp_Types (h_Compression h))) (\<lambda>_.
         then_do (unique ''host_maint_allow'' (mt_AllowFrom (h_Maintenance h))) (\<lambda>_.
         let us = numbered i (hd_upstreamSeq db) (h_Upstreams h)
         in case upstream_fault [] (h_Upstreams h) of
              Some m \<Rightarrow> Inl (translateErr (Driver m))
            | None \<Rightarrow> Inr (db\<lparr>hd_compressTypes := hd_compressTypes db @ child_rows i (cp_Types (h_Compression h)),
                         hd_maintAllow := hd_maintAllow db @ child_rows i (mt_AllowFrom (h_Maintenance h)),
                         hd_upstreams := hd_upstreams db @ child_rows i us,
                         hd_upstreamSeq := hd_upstreamSeq db + int (length us)\<rparr>,
                      h\<lparr>h_Locations := ls, h_Upstreams := us\<rparr>)))))))))"

text \<open>What the table of hosts refuses: an unknown algorithm or guardian mode, thresholds of the passive
  health check that are too small, a certificate or an access list that does not exist.\<close>

record references =
  rf_certificate :: "int \<Rightarrow> bool"
  rf_accessList :: "int \<Rightarrow> bool"
  rf_redirected :: "string \<Rightarrow> bool"

definition row_refused :: "references \<Rightarrow> host \<Rightarrow> string option" where
  "row_refused rf h =
     (if \<not> Algorithm_Valid (h_Algorithm h) \<or> \<not> Mode_Valid (g_Mode (h_Guardian h))
         \<or> ph_MaxFails (h_PassiveHealth h) < 1 \<or> milliseconds (ph_EjectFor (h_PassiveHealth h)) < 1000
      then Some ''constraint failed: CHECK constraint failed: hosts (275)''
      else if (case h_CertificateID h of None \<Rightarrow> False | Some c \<Rightarrow> \<not> rf_certificate rf c)
        \<or> (case h_AccessListID h of None \<Rightarrow> False | Some c \<Rightarrow> \<not> rf_accessList rf c)
      then Some ''constraint failed: FOREIGN KEY constraint failed (787)''
      else None)"

definition Hosts_Create :: "references \<Rightarrow> string option \<Rightarrow> host \<Rightarrow> hosts_db \<Rightarrow> hosts_db \<times> (db_error + host)" where
  "Hosts_Create rf fault h db =
     (case (case fault of Some m \<Rightarrow> Some m | None \<Rightarrow> row_refused rf h) of
        Some m \<Rightarrow> (db, Inl (translateErr (Driver m)))
      | None \<Rightarrow>
          let i = hd_seq db + 1
          in case writeHostChildren (rf_redirected rf) (h\<lparr>h_ID := i\<rparr>)
                    (db\<lparr>hd_rows := hd_rows db @ [(i, hostInsertArgs h)], hd_seq := i\<rparr>) of
               Inl e \<Rightarrow> (db, Inl e)
             | Inr (db', h') \<Rightarrow> (db', Inr h'))"

text \<open>The deletes of \<^verbatim>\<open>Update\<close>, with the rows that cascade from the locations.\<close>

definition own_rule :: "int \<Rightarrow> int list \<Rightarrow> rule_owner \<Rightarrow> bool" where
  "own_rule i lids own = (case own of HostOwner j \<Rightarrow> j = i | LocationOwner l \<Rightarrow> l \<in> set lids)"

definition clear_children :: "int \<Rightarrow> hosts_db \<Rightarrow> hosts_db" where
  "clear_children i db =
     (let lids = map (\<lambda>(k, (lid, _), p). lid) (filter (\<lambda>(k, v, p). k = i) (hd_locations db))
      in db\<lparr>hd_domains := drop_children i (hd_domains db),
            hd_guardianRules := filter (\<lambda>(k, r). k \<noteq> i) (hd_guardianRules db),
            hd_cachePaths := drop_children i (hd_cachePaths db),
            hd_limitExempt := drop_children i (hd_limitExempt db),
            hd_locations := drop_children i (hd_locations db),
            hd_locationUpstreams := filter (\<lambda>(l, u, p). l \<notin> set lids) (hd_locationUpstreams db),
            hd_headerRules := filter (\<lambda>((own, _), r, p). \<not> own_rule i lids own) (hd_headerRules db),
            hd_compressTypes := drop_children i (hd_compressTypes db),
            hd_maintAllow := drop_children i (hd_maintAllow db),
            hd_upstreams := drop_children i (hd_upstreams db)\<rparr>)"

definition Hosts_Update :: "references \<Rightarrow> string option \<Rightarrow> host \<Rightarrow> hosts_db \<Rightarrow> hosts_db \<times> (db_error + host)" where
  "Hosts_Update rf fault h db =
     (case fault of
        Some m \<Rightarrow> (db, Inl (translateErr (Driver m)))
      | None \<Rightarrow>
          if map_of (hd_rows db) (h_ID h) = None then (db, Inl ErrNotFound)
          else case row_refused rf h of
            Some m \<Rightarrow> (db, Inl (translateErr (Driver m)))
          | None \<Rightarrow>
              (case writeHostChildren (rf_redirected rf) h
                      (clear_children (h_ID h) (db\<lparr>hd_rows := al_put (h_ID h) (hostInsertArgs h) (hd_rows db)\<rparr>)) of
                 Inl e \<Rightarrow> (db, Inl e)
               | Inr (db', h') \<Rightarrow> (db', Inr h')))"

definition Hosts_Delete :: "string option \<Rightarrow> int \<Rightarrow> hosts_db \<Rightarrow> hosts_db \<times> db_error option" where
  "Hosts_Delete fault i db =
     (case fault of
        Some m \<Rightarrow> (db, Some (translateErr (Driver m)))
      | None \<Rightarrow>
          if map_of (hd_rows db) i = None then (db, Some ErrNotFound)
          else (clear_children i (db\<lparr>hd_rows := al_del i (hd_rows db)\<rparr>), None))"

definition Hosts_CountByCertificate :: "string option \<Rightarrow> int \<Rightarrow> hosts_db \<Rightarrow> db_error + nat" where
  "Hosts_CountByCertificate fault c db =
     (case fault of
        Some m \<Rightarrow> Inl (translateErr (Driver m))
      | None \<Rightarrow> Inr (length (filter (\<lambda>(i, r). hw_certificate_id r = Some c) (hd_rows db))))"

section \<open>Reading the locations\<close>

text \<open>The capacity a full slice of locations gets when it grows. The runtime doubles it and rounds up to what
  its size class holds: with elements of 120 bytes the capacities are 1, 2, 4, 8, 17, 34, the last of them
  above \<^verbatim>\<open>MaxLocationsPerHost\<close>.\<close>

definition growslice :: "nat \<Rightarrow> nat" where
  "growslice c = (if c = 0 then 1 else if c = 8 then 17 else 2 * c)"

record slice =
  sl_array :: nat
  sl_len :: nat
  sl_cap :: nat

text \<open>The arrays allocated so far, the slice \<^verbatim>\<open>h.Locations\<close> and the pointers of \<^verbatim>\<open>byLocation\<close>, each an array
  and an index.\<close>

record attach =
  at_arrays :: "location list list"
  at_slice :: slice
  at_ptrs :: "(int \<times> nat \<times> nat) list"

definition bare_location :: "int \<Rightarrow> (int \<times> string \<times> bool) \<times> nat \<Rightarrow> location" where
  "bare_location i r = (case r of ((lid, path, strip), p) \<Rightarrow>
     \<lparr>lc_ID = lid, lc_HostID = i, lc_Path = path, lc_StripPrefix = strip, lc_Upstreams = [],
      lc_Headers = \<lparr>hs_Request = [], hs_Response = []\<rparr>, lc_Position = p\<rparr>)"

definition append_location :: "int \<Rightarrow> attach \<Rightarrow> (int \<times> string \<times> bool) \<times> nat \<Rightarrow> attach" where
  "append_location i s r =
     (let l = bare_location i r; sl = at_slice s; n = sl_len sl
      in if n < sl_cap sl
         then s\<lparr>at_arrays := (at_arrays s)[sl_array sl := at_arrays s ! sl_array sl @ [l]],
                at_slice := sl\<lparr>sl_len := Suc n\<rparr>,
                at_ptrs := al_put (lc_ID l) (sl_array sl, n) (at_ptrs s)\<rparr>
         else s\<lparr>at_arrays := at_arrays s @ [(if n = 0 then [] else take n (at_arrays s ! sl_array sl)) @ [l]],
                at_slice := \<lparr>sl_array = length (at_arrays s), sl_len = Suc n, sl_cap = growslice (sl_cap sl)\<rparr>,
                at_ptrs := al_put (lc_ID l) (length (at_arrays s), n) (at_ptrs s)\<rparr>)"

definition no_locations :: attach where
  "no_locations = \<lparr>at_arrays = [], at_slice = \<lparr>sl_array = 0, sl_len = 0, sl_cap = 0\<rparr>, at_ptrs = []\<rparr>"

text \<open>A write through the pointer kept for a location.\<close>

definition through :: "attach \<Rightarrow> int \<times> (location \<Rightarrow> location) \<Rightarrow> attach" where
  "through s x =
     (case map_of (at_ptrs s) (fst x) of
        None \<Rightarrow> s
      | Some (a, k) \<Rightarrow> s\<lparr>at_arrays := (at_arrays s)[a := (at_arrays s ! a)[k := snd x (at_arrays s ! a ! k)]]\<rparr>)"

definition add_upstream :: "upstream \<Rightarrow> location \<Rightarrow> location" where
  "add_upstream u l = l\<lparr>lc_Upstreams := lc_Upstreams l @ [u\<lparr>u_HostID := lc_HostID l\<rparr>]\<rparr>"

definition add_rule :: "string \<Rightarrow> header_rule \<Rightarrow> headers \<Rightarrow> headers" where
  "add_rule direction r h =
     (if direction = ''request'' then h\<lparr>hs_Request := hs_Request h @ [r]\<rparr> else h\<lparr>hs_Response := hs_Response h @ [r]\<rparr>)"

definition location_rows :: "int \<Rightarrow> hosts_db \<Rightarrow> ((int \<times> string \<times> bool) \<times> nat) list" where
  "location_rows i db = map snd (filter (\<lambda>(k, v, p). k = i) (sort_key (\<lambda>(k, v, p). (k, p)) (hd_locations db)))"

definition upstream_writes :: "hosts_db \<Rightarrow> (int \<times> (location \<Rightarrow> location)) list" where
  "upstream_writes db =
     map (\<lambda>(lid, u, p). (lid, add_upstream u)) (sort_key (\<lambda>(k, v, p). (k, p)) (hd_locationUpstreams db))"

definition rule_writes :: "hosts_db \<Rightarrow> (int \<times> (location \<Rightarrow> location)) list" where
  "rule_writes db =
     concat (map (\<lambda>((own, dir), r, p). case own of
         HostOwner _ \<Rightarrow> []
       | LocationOwner lid \<Rightarrow> [(lid, lc_Headers_update (add_rule dir r))])
       (sort_key (\<lambda>(k, v, p). p) (hd_headerRules db)))"

definition attachLocations :: "int \<Rightarrow> hosts_db \<Rightarrow> attach" where
  "attachLocations i db =
     foldl through (foldl through (foldl (append_location i) no_locations (location_rows i db)) (upstream_writes db)) (rule_writes db)"

definition host_locations :: "attach \<Rightarrow> location list" where
  "host_locations s = (if sl_len (at_slice s) = 0 then [] else take (sl_len (at_slice s)) (at_arrays s ! sl_array (at_slice s)))"

definition host_rules :: "int \<Rightarrow> hosts_db \<Rightarrow> headers" where
  "host_rules i db =
     foldl (\<lambda>h ((own, dir), r, p). if own = HostOwner i then add_rule dir r h else h) \<lparr>hs_Request = [], hs_Response = []\<rparr>
       (sort_key (\<lambda>(k, v, p). p) (hd_headerRules db))"

text \<open>The ten attachments of \<^verbatim>\<open>Get\<close> and \<^verbatim>\<open>List\<close> for one host.\<close>

definition attach_all :: "hosts_db \<Rightarrow> host \<Rightarrow> host" where
  "attach_all db h =
     (let i = h_ID h
      in h\<lparr>h_Domains := children_of i (hd_domains db),
           h_Upstreams := map (u_HostID_update (\<lambda>_. i)) (children_of i (hd_upstreams db)),
           h_Guardian := (h_Guardian h)\<lparr>g_Rules := map snd (filter (\<lambda>(k, r). k = i) (sort_key (\<lambda>(k, r). (k, r)) (hd_guardianRules db)))\<rparr>,
           h_Locations := host_locations (attachLocations i db),
           h_Headers := host_rules i db,
           h_Compression := (h_Compression h)\<lparr>cp_Types := children_of i (hd_compressTypes db)\<rparr>,
           h_Maintenance := Maintenance_Normalize ((h_Maintenance h)\<lparr>mt_AllowFrom := children_of i (hd_maintAllow db)\<rparr>),
           h_TrafficLimits := TrafficLimits_Normalize ((h_TrafficLimits h)\<lparr>tl_Exempt := children_of i (hd_limitExempt db)\<rparr>),
           h_Cache := (h_Cache h)\<lparr>cf_Paths := children_of i (hd_cachePaths db)\<rparr>\<rparr>)"

definition Hosts_Get :: "string option \<Rightarrow> int \<Rightarrow> hosts_db \<Rightarrow> db_error + host" where
  "Hosts_Get fault i db =
     (case fault of
        Some m \<Rightarrow> Inl (translateErr (Driver m))
      | None \<Rightarrow>
          (case map_of (hd_rows db) i of
             None \<Rightarrow> Inl (translateErr NoRows)
           | Some r \<Rightarrow> Inr (attach_all db (scanHost i r))))"

definition Hosts_List :: "string option \<Rightarrow> hosts_db \<Rightarrow> db_error + host list" where
  "Hosts_List fault db =
     (case fault of
        Some m \<Rightarrow> Inl (translateErr (Driver m))
      | None \<Rightarrow> Inr (map (\<lambda>(i, r). attach_all db (scanHost i r)) (sort_key (\<lambda>(i, r). (hw_name r, i)) (hd_rows db))))"

section \<open>Pointers into a growing slice\<close>

text \<open>The capacity after a number of appends, and how many elements the last append that moved the slice
  found in it: those from there on were appended since.\<close>

fun cap_of :: "nat \<Rightarrow> nat" where
  "cap_of 0 = 0"
| "cap_of (Suc n) = (if n < cap_of n then cap_of n else growslice (cap_of n))"

fun moved :: "nat \<Rightarrow> nat" where
  "moved 0 = 0"
| "moved (Suc n) = (if n < cap_of n then moved n else n)"

lemma cap_of_bounds: "n \<le> cap_of n" "moved n \<le> n"
  by (induction n) (auto simp: growslice_def)

lemma moved_pos: "2 \<le> n \<Longrightarrow> 0 < moved n"
  by (induction n rule: nat_induct_at_least) (auto simp: numeral_2_eq_2 growslice_def)

abbreviation row_id :: "(int \<times> string \<times> bool) \<times> nat \<Rightarrow> int" where
  "row_id r \<equiv> fst (fst r)"

definition appended :: "int \<Rightarrow> ((int \<times> string \<times> bool) \<times> nat) list \<Rightarrow> attach \<Rightarrow> bool" where
  "appended i ds s \<longleftrightarrow>
     sl_len (at_slice s) = length ds \<and> sl_cap (at_slice s) = cap_of (length ds)
     \<and> fst ` set (at_ptrs s) = row_id ` set ds
     \<and> (ds \<noteq> [] \<longrightarrow> at_arrays s \<noteq> [] \<and> sl_array (at_slice s) = length (at_arrays s) - 1
          \<and> at_arrays s ! sl_array (at_slice s) = map (bare_location i) ds)
     \<and> (\<forall>k < length ds. \<exists>a. map_of (at_ptrs s) (row_id (ds ! k)) = Some (a, k) \<and> a < length (at_arrays s)
          \<and> (a = sl_array (at_slice s) \<longleftrightarrow> moved (length ds) \<le> k))"

lemma appendedI:
  assumes "sl_len (at_slice s) = length ds" "sl_cap (at_slice s) = cap_of (length ds)"
    and "set (al_keys (at_ptrs s)) = row_id ` set ds"
    and "at_arrays s \<noteq> []" "sl_array (at_slice s) = length (at_arrays s) - 1"
    and "at_arrays s ! sl_array (at_slice s) = map (bare_location i) ds"
    and "\<And>k. k < length ds \<Longrightarrow> \<exists>a. map_of (at_ptrs s) (row_id (ds ! k)) = Some (a, k) \<and> a < length (at_arrays s)
      \<and> (a = sl_array (at_slice s) \<longleftrightarrow> moved (length ds) \<le> k)"
  shows "appended i ds s"
  unfolding appended_def using assms by simp

lemma appended_ptr:
  assumes "appended i ds s" "k < length ds"
  obtains a where "map_of (at_ptrs s) (row_id (ds ! k)) = Some (a, k)" "a < length (at_arrays s)"
    "a = sl_array (at_slice s) \<longleftrightarrow> moved (length ds) \<le> k"
  using assms unfolding appended_def by blast

lemma appended_keys: "appended i ds s \<Longrightarrow> fst ` set (at_ptrs s) = row_id ` set ds"
  unfolding appended_def by blast

lemma appended_slice:
  "appended i ds s \<Longrightarrow> ds \<noteq> [] \<Longrightarrow> sl_array (at_slice s) < length (at_arrays s)"
  unfolding appended_def by (metis diff_less length_greater_0_conv less_numeral_extra(1))

lemma bare_location_id [simp]: "lc_ID (bare_location i r) = row_id r"
  by (auto simp: bare_location_def split: prod.splits)

lemma append_in_place:
  assumes "appended i ds s" "length ds < cap_of (length ds)" "row_id r \<notin> row_id ` set ds"
  shows "appended i (ds @ [r]) (append_location i s r)"
proof -
  let ?n = "length ds"
  have ne: "ds \<noteq> []" using assms(2) by auto
  have a: "at_arrays s \<noteq> []" "sl_array (at_slice s) = length (at_arrays s) - 1"
    "at_arrays s ! sl_array (at_slice s) = map (bare_location i) ds" "sl_len (at_slice s) = ?n" "sl_cap (at_slice s) = cap_of ?n"
    "fst ` set (at_ptrs s) = row_id ` set ds"
    using assms(1) ne unfolding appended_def by blast+
  have e: "append_location i s r = s\<lparr>at_arrays := (at_arrays s)[sl_array (at_slice s) := map (bare_location i) (ds @ [r])],
      at_slice := (at_slice s)\<lparr>sl_len := Suc ?n\<rparr>, at_ptrs := al_put (row_id r) (sl_array (at_slice s), ?n) (at_ptrs s)\<rparr>"
    using a assms(2) by (simp add: append_location_def Let_def)
  have cap: "cap_of (Suc ?n) = cap_of ?n" "moved (Suc ?n) = moved ?n" "moved ?n \<le> ?n" using assms(2) cap_of_bounds(2) [of ?n] by auto
  have last: "sl_array (at_slice s) < length (at_arrays s)" using a(1,2) by (cases "at_arrays s") auto
  have ptr: "\<exists>x. map_of (at_ptrs (append_location i s r)) (row_id ((ds @ [r]) ! k)) = Some (x, k) \<and> x < length (at_arrays s)
      \<and> (x = sl_array (at_slice s) \<longleftrightarrow> moved (Suc ?n) \<le> k)" if "k < Suc ?n" for k
  proof (cases "k = ?n")
    case True
    then show ?thesis using e cap last by (simp add: nth_append)
  next
    case False
    with that have k: "k < ?n" by simp
    then have "row_id (ds ! k) \<noteq> row_id r" using assms(3) by (metis image_eqI nth_mem)
    moreover obtain x where "map_of (at_ptrs s) (row_id (ds ! k)) = Some (x, k)" "x < length (at_arrays s)"
      "x = sl_array (at_slice s) \<longleftrightarrow> moved ?n \<le> k" using appended_ptr [OF assms(1) k] .
    ultimately show ?thesis using k cap by (simp add: e nth_append)
  qed
  show ?thesis
  proof (rule appendedI)
    show "set (al_keys (at_ptrs (append_location i s r))) = row_id ` set (ds @ [r])"
      using a(6) by (simp add: e set_keys_al_put [unfolded set_map])
    show "\<exists>x. map_of (at_ptrs (append_location i s r)) (row_id ((ds @ [r]) ! k)) = Some (x, k) \<and> x < length (at_arrays (append_location i s r))
        \<and> (x = sl_array (at_slice (append_location i s r)) \<longleftrightarrow> moved (length (ds @ [r])) \<le> k)" if "k < length (ds @ [r])" for k
      using ptr [of k] that by (simp add: e)
  qed (use a cap last in \<open>simp_all add: e\<close>)
qed

lemma append_moves:
  assumes "appended i ds s" "\<not> length ds < cap_of (length ds)" "row_id r \<notin> row_id ` set ds"
  shows "appended i (ds @ [r]) (append_location i s r)"
proof -
  let ?n = "length ds"
  have a: "sl_len (at_slice s) = ?n" "sl_cap (at_slice s) = cap_of ?n" "fst ` set (at_ptrs s) = row_id ` set ds"
    "?n \<noteq> 0 \<Longrightarrow> at_arrays s ! sl_array (at_slice s) = map (bare_location i) ds"
    using assms(1) unfolding appended_def by auto
  have e: "append_location i s r = s\<lparr>at_arrays := at_arrays s @ [map (bare_location i) (ds @ [r])],
      at_slice := \<lparr>sl_array = length (at_arrays s), sl_len = Suc ?n, sl_cap = growslice (cap_of ?n)\<rparr>,
      at_ptrs := al_put (row_id r) (length (at_arrays s), ?n) (at_ptrs s)\<rparr>"
    using a assms(2) by (cases "ds = []") (simp_all add: append_location_def Let_def)
  have cap: "cap_of (Suc ?n) = growslice (cap_of ?n)" "moved (Suc ?n) = ?n"
    using assms(2) by simp_all
  have ptr: "\<exists>x. map_of (at_ptrs (append_location i s r)) (row_id ((ds @ [r]) ! k)) = Some (x, k) \<and> x < Suc (length (at_arrays s))
      \<and> (x = length (at_arrays s) \<longleftrightarrow> moved (Suc ?n) \<le> k)" if "k < Suc ?n" for k
  proof (cases "k = ?n")
    case True
    then show ?thesis using e cap by (simp add: nth_append)
  next
    case False
    with that have k: "k < ?n" by simp
    then have "row_id (ds ! k) \<noteq> row_id r" using assms(3) by (metis image_eqI nth_mem)
    moreover obtain x where "map_of (at_ptrs s) (row_id (ds ! k)) = Some (x, k)" "x < length (at_arrays s)"
      using appended_ptr [OF assms(1) k] by blast
    ultimately show ?thesis using k cap by (simp add: e nth_append)
  qed
  show ?thesis
  proof (rule appendedI)
    show "set (al_keys (at_ptrs (append_location i s r))) = row_id ` set (ds @ [r])"
      using a(3) by (simp add: e set_keys_al_put [unfolded set_map])
    show "\<exists>x. map_of (at_ptrs (append_location i s r)) (row_id ((ds @ [r]) ! k)) = Some (x, k) \<and> x < length (at_arrays (append_location i s r))
        \<and> (x = sl_array (at_slice (append_location i s r)) \<longleftrightarrow> moved (length (ds @ [r])) \<le> k)" if "k < length (ds @ [r])" for k
      using ptr [of k] that by (simp add: e)
  qed (use a cap in \<open>simp_all add: e\<close>)
qed

lemma append_all:
  assumes "distinct (map row_id rs)"
  shows "appended i rs (foldl (append_location i) no_locations rs)"
  using assms
proof (induction rs rule: rev_induct)
  case Nil
  then show ?case by (simp add: appended_def no_locations_def)
next
  case (snoc r rs)
  then have "appended i rs (foldl (append_location i) no_locations rs)" "row_id r \<notin> row_id ` set rs" by auto
  with append_in_place append_moves show ?case by (cases "length rs < cap_of (length rs)") auto
qed

lemma through_writes:
  assumes "a < length (at_arrays s)" "k < length (at_arrays s ! a)"
  shows "at_ptrs (foldl through s ws) = at_ptrs s \<and> at_slice (foldl through s ws) = at_slice s
    \<and> length (at_arrays (foldl through s ws)) = length (at_arrays s)
    \<and> length (at_arrays (foldl through s ws) ! a) = length (at_arrays s ! a)
    \<and> at_arrays (foldl through s ws) ! a ! k
        = foldl (\<lambda>l w. snd w l) (at_arrays s ! a ! k) (filter (\<lambda>w. map_of (at_ptrs s) (fst w) = Some (a, k)) ws)"
  using assms
proof (induction ws arbitrary: s)
  case (Cons w ws)
  have "at_ptrs (through s w) = at_ptrs s \<and> at_slice (through s w) = at_slice s
    \<and> length (at_arrays (through s w)) = length (at_arrays s) \<and> length (at_arrays (through s w) ! a) = length (at_arrays s ! a)
    \<and> at_arrays (through s w) ! a ! k
        = (if map_of (at_ptrs s) (fst w) = Some (a, k) then snd w (at_arrays s ! a ! k) else at_arrays s ! a ! k)"
  proof (cases "map_of (at_ptrs s) (fst w)")
    case (Some p)
    then show ?thesis using Cons.prems by (cases p; cases "fst p = a") (simp_all add: through_def nth_list_update)
  qed (simp add: through_def)
  with Cons.IH [of "through s w"] Cons.prems show ?case by simp
qed simp

text \<open>What a location looks like with every write that was meant for it.\<close>

definition filled :: "int \<Rightarrow> hosts_db \<Rightarrow> (int \<times> string \<times> bool) \<times> nat \<Rightarrow> location" where
  "filled i db r =
     foldl (\<lambda>l w. snd w l) (bare_location i r) (filter (\<lambda>w. fst w = row_id r) (upstream_writes db @ rule_writes db))"

text \<open>Only the locations appended since the last move of the slice receive their backends and rules.\<close>

lemma host_locations_read:
  assumes "distinct (map row_id (location_rows i db))"
  shows "host_locations (attachLocations i db)
    = map (\<lambda>(k, r). if moved (length (location_rows i db)) \<le> k then filled i db r else bare_location i r)
        (enumerate 0 (location_rows i db))"
proof -
  let ?rs = "location_rows i db" and ?ws = "upstream_writes db @ rule_writes db"
  let ?s = "foldl (append_location i) no_locations ?rs"
  let ?n = "length ?rs" and ?a = "sl_array (at_slice ?s)"
  have ok: "appended i ?rs ?s" using append_all [OF assms] .
  have att: "attachLocations i db = foldl through ?s ?ws" by (simp add: attachLocations_def)
  show ?thesis
  proof (cases "?rs = []")
    case True
    have "at_slice (foldl through s ws) = at_slice s" for s ws
      by (induction ws arbitrary: s) (auto simp: through_def split: option.splits)
    then show ?thesis using True ok att by (simp add: host_locations_def appended_def)
  next
    case False
    with ok have arr: "at_arrays ?s ! ?a = map (bare_location i) ?rs" "?a < length (at_arrays ?s)"
      using appended_slice [OF ok] unfolding appended_def by blast+
    have ptr: "map_of (at_ptrs ?s) (fst w) = Some (?a, k) \<longleftrightarrow> fst w = row_id (?rs ! k) \<and> moved ?n \<le> k"
      if k: "k < ?n" for k and w :: "int \<times> (location \<Rightarrow> location)"
    proof
      assume w: "map_of (at_ptrs ?s) (fst w) = Some (?a, k)"
      have "fst w \<in> row_id ` set ?rs" using appended_keys [OF ok] map_of_SomeD [OF w] by (metis fst_conv image_eqI)
      then obtain j where j: "j < ?n" "fst w = row_id (?rs ! j)" by (auto simp: in_set_conv_nth)
      obtain b where "map_of (at_ptrs ?s) (row_id (?rs ! j)) = Some (b, j)" "b = ?a \<longleftrightarrow> moved ?n \<le> j"
        using appended_ptr [OF ok j(1)] by blast
      with w j show "fst w = row_id (?rs ! k) \<and> moved ?n \<le> k" by auto
    next
      assume "fst w = row_id (?rs ! k) \<and> moved ?n \<le> k"
      with appended_ptr [OF ok k] show "map_of (at_ptrs ?s) (fst w) = Some (?a, k)" by metis
    qed
    have elem: "at_arrays (foldl through ?s ?ws) ! ?a ! k = (if moved ?n \<le> k then filled i db (?rs ! k) else bare_location i (?rs ! k))"
      if k: "k < ?n" for k
    proof -
      have "filter (\<lambda>w. map_of (at_ptrs ?s) (fst w) = Some (?a, k)) ?ws
          = (if moved ?n \<le> k then filter (\<lambda>w. fst w = row_id (?rs ! k)) ?ws else [])"
        by (cases "moved ?n \<le> k") (simp_all add: ptr [OF k])
      then show ?thesis using through_writes [of ?a ?s k ?ws] arr k by (simp add: filled_def)
    qed
    have shape: "at_slice (foldl through ?s ?ws) = at_slice ?s" "length (at_arrays (foldl through ?s ?ws) ! ?a) = ?n" "sl_len (at_slice ?s) = ?n"
      using through_writes [of ?a ?s 0 ?ws] arr False ok by (auto simp: appended_def)
    show ?thesis using att shape False elem
      by (auto simp: host_locations_def nth_enumerate_eq intro!: nth_equalityI)
  qed
qed

section \<open>Rules and backends of one owner\<close>

text \<open>The header rules of an owner, in the order of their positions.\<close>

definition rules_read :: "rule_owner \<Rightarrow> ((rule_owner \<times> string) \<times> header_rule \<times> nat) list \<Rightarrow> headers" where
  "rules_read own rows =
     (let mine = filter (\<lambda>((k, dir), r, p). k = own) (sort_key (\<lambda>(k, v, p). p) rows)
      in \<lparr>hs_Request = map (\<lambda>(k, r, p). r) (filter (\<lambda>((k, dir), r, p). dir = ''request'') mine),
          hs_Response = map (\<lambda>(k, r, p). r) (filter (\<lambda>((k, dir), r, p). dir \<noteq> ''request'') mine)\<rparr>)"

lemma add_rules:
  "foldl (\<lambda>h ((k, dir), r, p). if k = own then add_rule dir r h else h) h rows =
     \<lparr>hs_Request = hs_Request h @ map (\<lambda>(k, r, p). r) (filter (\<lambda>((k, dir), r, p). k = own \<and> dir = ''request'') rows),
      hs_Response = hs_Response h @ map (\<lambda>(k, r, p). r) (filter (\<lambda>((k, dir), r, p). k = own \<and> dir \<noteq> ''request'') rows)\<rparr>"
proof (induction rows arbitrary: h)
  case (Cons x rows)
  then show ?case by (cases x) (auto simp: add_rule_def split: prod.splits)
qed simp

lemma host_rules_eq: "host_rules i db = rules_read (HostOwner i) (hd_headerRules db)"
  unfolding host_rules_def add_rules rules_read_def Let_def filter_filter by (simp add: split_def conj_commute)

lemma write_rules:
  "foldl (\<lambda>l w. snd w l) l (filter (\<lambda>w. fst w = lid)
     (concat (map (\<lambda>((own, dir), r, p). case own of
         HostOwner _ \<Rightarrow> [] | LocationOwner lid \<Rightarrow> [(lid, lc_Headers_update (add_rule dir r))]) rows)))
   = l\<lparr>lc_Headers := foldl (\<lambda>h ((k, dir), r, p). if k = LocationOwner lid then add_rule dir r h else h) (lc_Headers l) rows\<rparr>"
proof (induction rows arbitrary: l)
  case (Cons x rows)
  obtain own dir r p where x: "x = ((own, dir), r, p)" by (metis prod.exhaust)
  show ?case using Cons.IH unfolding x by (cases own) (auto simp: )
qed simp

lemma write_upstreams:
  "foldl (\<lambda>l w. snd w l) l (filter (\<lambda>w. fst w = lid) (map (\<lambda>(lid, u, p). (lid, add_upstream u)) rows))
   = l\<lparr>lc_Upstreams := lc_Upstreams l @ map (u_HostID_update (\<lambda>_. lc_HostID l)) (map (\<lambda>(k, v, p). v) (filter (\<lambda>(k, v, p). k = lid) rows))\<rparr>"
proof (induction rows arbitrary: l)
  case (Cons x rows)
  then show ?case by (cases x) (auto simp: add_upstream_def)
qed simp

lemma filled_eq:
  "filled i db r = (bare_location i r)\<lparr>
     lc_Upstreams := map (u_HostID_update (\<lambda>_. i)) (children_of (row_id r) (hd_locationUpstreams db)),
     lc_Headers := rules_read (LocationOwner (row_id r)) (hd_headerRules db)\<rparr>"
proof -
  have b: "lc_Upstreams (bare_location i r) = []" "lc_HostID (bare_location i r) = i"
    "lc_Headers (bare_location i r) = \<lparr>hs_Request = [], hs_Response = []\<rparr>"
    by (auto simp: bare_location_def split: prod.splits)
  show ?thesis
    unfolding filled_def filter_append foldl_append upstream_writes_def rule_writes_def write_upstreams write_rules add_rules
      rules_read_def Let_def filter_filter
    by (simp add: b children_of_def split_def conj_commute)
qed

lemma sort_child_pos: "sort_key (\<lambda>(k, v, p). p) (child_rows k vs) = child_rows k vs"
proof -
  have "map (\<lambda>(k, v, p). p) (child_rows k vs) = [0..<length vs]"
    by (simp add: child_rows_def enumerate_eq_zip split_def comp_def)
  then show ?thesis by (intro sort_key_id_if_sorted) simp
qed

abbreviation no_rules :: "rule_owner \<Rightarrow> ((rule_owner \<times> string) \<times> header_rule \<times> nat) list \<Rightarrow> bool" where
  "no_rules own rows \<equiv> \<forall>x \<in> set rows. fst (fst x) \<noteq> own"

lemma filter_own_rules:
  "filter (\<lambda>((k, dir), r, p). k = own) (child_rows (own', dir) rs) = (if own' = own then child_rows (own, dir) rs else [])"
  "filter (\<lambda>((k, dir), r, p). dir = ''request'') (child_rows (own', dir) rs) = (if dir = ''request'' then child_rows (own', dir) rs else [])"
  "filter (\<lambda>((k, dir), r, p). dir \<noteq> ''request'') (child_rows (own', dir) rs) = (if dir = ''request'' then [] else child_rows (own', dir) rs)"
  by (auto simp: child_rows_def filter_empty_conv intro!: filter_True)

lemma map_child_rules [simp]: "map (\<lambda>(k, r, p). r) (child_rows own rs) = rs"
  by (rule map_child_rows)

lemma rules_own:
  assumes "no_rules own rows"
  shows "rules_read own (rows @ child_rows (own, ''request'') (hs_Request h) @ child_rows (own, ''response'') (hs_Response h)) = h"
proof -
  have "filter (\<lambda>((k, dir), r, p). k = own) rows = []" using assms by (auto simp: filter_empty_conv)
  then show ?thesis
    unfolding rules_read_def Let_def filter_sort filter_append filter_own_rules
    by (simp add: filter_own_rules sort_child_pos)
qed

lemma rules_other:
  assumes "own' \<noteq> own"
  shows "rules_read own' (rows @ child_rows (own, a) rs @ child_rows (own, b) qs) = rules_read own' rows"
  unfolding rules_read_def Let_def filter_sort filter_append filter_own_rules using assms by simp

section \<open>Reading back what was written\<close>

lemma no_childrenI: "(\<And>x. x \<in> set rows \<Longrightarrow> fst x < k) \<Longrightarrow> no_children (k :: int) rows"
  by (fastforce simp: no_children_def)

lemma write_domains_Inr:
  assumes "write_domains redirected i p ds db = Inr db'"
  shows "db' = db\<lparr>hd_domains := hd_domains db @ map (\<lambda>(p, d). (i, d, p)) (enumerate p ds)\<rparr>"
  using assms
proof (induction ds arbitrary: p db)
  case (Cons d ds)
  then have "write_domains redirected i (Suc p) ds (db\<lparr>hd_domains := hd_domains db @ [(i, d, p)]\<rparr>) = Inr db'"
    by (simp split: if_splits)
  from Cons.IH [OF this] show ?case by simp
qed simp

lemma length_numbered [simp]: "length (numbered i n us) = length us"
  by (simp add: numbered_def)

lemma numbered_HostID: "map (u_HostID_update (\<lambda>_. i)) (numbered i n us) = numbered i n us"
  by (auto simp: numbered_def split_def)

text \<open>The locations as written: their rows, and under the id of each its backends and rules; what other
  locations have is left alone.\<close>

definition location_ids_used :: "hosts_db \<Rightarrow> bool" where
  "location_ids_used db \<longleftrightarrow>
     (\<forall>x \<in> set (hd_locationUpstreams db). fst x \<le> hd_locationSeq db)
     \<and> (\<forall>x \<in> set (hd_headerRules db). \<forall>l. fst (fst x) = LocationOwner l \<longrightarrow> l \<le> hd_locationSeq db)"

definition written_as :: "hosts_db \<Rightarrow> int \<Rightarrow> location \<Rightarrow> bool" where
  "written_as db i l \<longleftrightarrow>
     lc_HostID l = i \<and> children_of (lc_ID l) (hd_locationUpstreams db) = lc_Upstreams l
     \<and> map (u_HostID_update (\<lambda>_. i)) (lc_Upstreams l) = lc_Upstreams l
     \<and> rules_read (LocationOwner (lc_ID l)) (hd_headerRules db) = lc_Headers l"

definition same_location :: "hosts_db \<Rightarrow> hosts_db \<Rightarrow> int \<Rightarrow> bool" where
  "same_location db db' j \<longleftrightarrow>
     children_of j (hd_locationUpstreams db') = children_of j (hd_locationUpstreams db)
     \<and> rules_read (LocationOwner j) (hd_headerRules db') = rules_read (LocationOwner j) (hd_headerRules db)"

definition write_location :: "int \<Rightarrow> nat \<Rightarrow> location \<Rightarrow> hosts_db \<Rightarrow> hosts_db" where
  "write_location i p l db =
     (let lid = hd_locationSeq db + 1; us = numbered i (hd_locationUpstreamSeq db) (lc_Upstreams l)
      in db\<lparr>hd_locations := hd_locations db @ [(i, (lid, lc_Path l, lc_StripPrefix l), p)], hd_locationSeq := lid,
            hd_headerRules := hd_headerRules db @ child_rows (LocationOwner lid, ''request'') (hs_Request (lc_Headers l))
              @ child_rows (LocationOwner lid, ''response'') (hs_Response (lc_Headers l)),
            hd_locationUpstreams := hd_locationUpstreams db @ child_rows lid us,
            hd_locationUpstreamSeq := hd_locationUpstreamSeq db + int (length us)\<rparr>)"

definition stored_location :: "int \<Rightarrow> location \<Rightarrow> hosts_db \<Rightarrow> location" where
  "stored_location i l db =
     l\<lparr>lc_ID := hd_locationSeq db + 1, lc_HostID := i, lc_Upstreams := numbered i (hd_locationUpstreamSeq db) (lc_Upstreams l)\<rparr>"

lemma write_locations_Cons:
  "write_locations i p seen (l # ls) db = Inr (db', ls') \<longleftrightarrow>
     lc_Path l \<notin> set seen \<and> (\<exists>ls''. ls' = stored_location i l db # ls''
       \<and> write_locations i (Suc p) (lc_Path l # seen) ls (write_location i p l db) = Inr (db', ls''))"
  by (auto simp: write_location_def write_headers_def stored_location_def Let_def)

lemma set_child_rows: "x \<in> set (child_rows k vs) \<Longrightarrow> fst x = k"
  by (auto simp: child_rows_def)

lemma write_location_ids: "location_ids_used db \<Longrightarrow> location_ids_used (write_location i p l db)"
  by (fastforce simp: location_ids_used_def write_location_def Let_def dest!: set_child_rows)

lemma write_location_own:
  assumes "location_ids_used db"
  shows "written_as (write_location i p l db) i (stored_location i l db)"
proof -
  let ?lid = "hd_locationSeq db + 1"
  have "no_children ?lid (hd_locationUpstreams db)" "no_rules (LocationOwner ?lid) (hd_headerRules db)"
    using assms by (fastforce simp: location_ids_used_def no_children_def)+
  then show ?thesis
    by (simp add: written_as_def write_location_def stored_location_def Let_def numbered_HostID rules_own)
qed

lemma write_location_other: "j \<le> hd_locationSeq db \<Longrightarrow> same_location db (write_location i p l db) j"
  by (simp add: same_location_def write_location_def Let_def rules_other)

lemma written_as_same: "same_location db db' (lc_ID l) \<Longrightarrow> written_as db i l \<Longrightarrow> written_as db' i l"
  by (simp add: written_as_def same_location_def)

lemma write_locations_Inr:
  assumes "write_locations i p seen ls db = Inr (db', ls')" "location_ids_used db"
  shows "hd_locations db' = hd_locations db @ map (\<lambda>(k, l). (i, (lc_ID l, lc_Path l, lc_StripPrefix l), k)) (enumerate p ls')
    \<and> length ls' = length ls \<and> distinct (map lc_ID ls')
    \<and> (\<forall>l \<in> set ls'. hd_locationSeq db < lc_ID l \<and> written_as db' i l)
    \<and> (\<forall>j \<le> hd_locationSeq db. same_location db db' j) \<and> location_ids_used db'"
  using assms
proof (induction ls arbitrary: p seen db ls')
  case Nil
  then show ?case by (simp add: same_location_def)
next
  case (Cons l ls)
  let ?db = "write_location i p l db" and ?l = "stored_location i l db"
  obtain ls'' where ls': "ls' = ?l # ls''" "write_locations i (Suc p) (lc_Path l # seen) ls ?db = Inr (db', ls'')"
    using Cons.prems(1) unfolding write_locations_Cons by blast
  have seq: "hd_locationSeq ?db = hd_locationSeq db + 1" "lc_ID ?l = hd_locationSeq db + 1"
    by (simp_all add: write_location_def stored_location_def Let_def)
  have rest: "hd_locations db' = hd_locations ?db @ map (\<lambda>(k, l). (i, (lc_ID l, lc_Path l, lc_StripPrefix l), k)) (enumerate (Suc p) ls'')"
    "length ls'' = length ls" "distinct (map lc_ID ls'')"
    "\<And>l. l \<in> set ls'' \<Longrightarrow> hd_locationSeq db + 1 < lc_ID l \<and> written_as db' i l"
    "\<And>j. j \<le> hd_locationSeq db + 1 \<Longrightarrow> same_location ?db db' j" "location_ids_used db'"
    using Cons.IH [OF ls'(2) write_location_ids [OF Cons.prems(2)]] unfolding seq by blast+
  have "written_as db' i ?l"
    using written_as_same [OF rest(5) write_location_own [OF Cons.prems(2)]] seq by simp
  moreover have "same_location db db' j" if "j \<le> hd_locationSeq db" for j
    using rest(5) [of j] write_location_other [OF that, of i p l] that by (simp add: same_location_def)
  moreover have "hd_locations db' = hd_locations db @ map (\<lambda>(k, l). (i, (lc_ID l, lc_Path l, lc_StripPrefix l), k)) (enumerate p ls')"
    unfolding ls'(1) rest(1) by (simp add: write_location_def stored_location_def Let_def)
  moreover have "lc_ID ?l \<notin> lc_ID ` set ls''" using rest(4) seq(2) by force
  ultimately show ?case using rest(2,3,4,6) seq ls'(1) by fastforce
qed

text \<open>Nothing else changes, but for the rules of the locations.\<close>

lemma write_locations_frame:
  assumes "write_locations i p seen ls db = Inr (db', ls')"
  shows "\<exists>ls us n m rs. db' = db\<lparr>hd_locations := ls, hd_locationSeq := n, hd_locationUpstreams := us,
         hd_locationUpstreamSeq := m, hd_headerRules := hd_headerRules db @ rs\<rparr>
         \<and> (\<forall>x \<in> set rs. \<exists>l. fst (fst x) = LocationOwner l)"
  using assms
proof (induction ls arbitrary: p seen db ls')
  case Nil
  then show ?case by (intro exI [of _ "hd_locations db"] exI [of _ "hd_locationUpstreams db"] exI [of _ "hd_locationSeq db"]
    exI [of _ "hd_locationUpstreamSeq db"] exI [of _ "[]"]) simp
next
  case (Cons l ls)
  let ?db = "write_location i p l db"
  let ?rs = "child_rows (LocationOwner (hd_locationSeq db + 1), ''request'') (hs_Request (lc_Headers l))
    @ child_rows (LocationOwner (hd_locationSeq db + 1), ''response'') (hs_Response (lc_Headers l))"
  obtain ls'' where "write_locations i (Suc p) (lc_Path l # seen) ls ?db = Inr (db', ls'')"
    using Cons.prems(1) unfolding write_locations_Cons by blast
  from Cons.IH [OF this] obtain xs us n m rs where
    d: "db' = ?db\<lparr>hd_locations := xs, hd_locationSeq := n, hd_locationUpstreams := us,
         hd_locationUpstreamSeq := m, hd_headerRules := hd_headerRules ?db @ rs\<rparr>" and
    r: "\<forall>x \<in> set rs. \<exists>l. fst (fst x) = LocationOwner l" by blast
  have "hd_headerRules ?db = hd_headerRules db @ ?rs" by (simp add: write_location_def Let_def)
  then have "db' = db\<lparr>hd_locations := xs, hd_locationSeq := n, hd_locationUpstreams := us,
         hd_locationUpstreamSeq := m, hd_headerRules := hd_headerRules db @ (?rs @ rs)\<rparr>"
    unfolding d by (simp add: write_location_def Let_def)
  moreover have "\<forall>x \<in> set (?rs @ rs). \<exists>l. fst (fst x) = LocationOwner l" using r by (fastforce dest!: set_child_rows)
  ultimately show ?case by blast
qed

text \<open>A host as it reads back: durations in whole milliseconds, the disabled rules sorted, the compiled ranges
  of the settings rebuilt, and the locations numbered, those the slice moved away from without their
  backends and header rules.\<close>

definition to_milliseconds :: "duration \<Rightarrow> duration" where
  "to_milliseconds d = from_milliseconds (milliseconds d)"

definition read_location :: "nat \<Rightarrow> nat \<Rightarrow> location \<Rightarrow> location" where
  "read_location n k l =
     (if moved n \<le> k then l else l\<lparr>lc_Upstreams := [], lc_Headers := \<lparr>hs_Request = [], hs_Response = []\<rparr>\<rparr>)\<lparr>lc_Position := k\<rparr>"

definition as_stored :: "host \<Rightarrow> host" where
  "as_stored h =
     h\<lparr>h_HealthCheck := (h_HealthCheck h)\<lparr>hc_Interval := to_milliseconds (hc_Interval (h_HealthCheck h)),
         hc_Timeout := to_milliseconds (hc_Timeout (h_HealthCheck h))\<rparr>,
       h_PassiveHealth := (h_PassiveHealth h)\<lparr>ph_EjectFor := to_milliseconds (ph_EjectFor (h_PassiveHealth h))\<rparr>,
       h_Cache := (h_Cache h)\<lparr>cf_TTL := to_milliseconds (cf_TTL (h_Cache h)), cf_MaxTTL := to_milliseconds (cf_MaxTTL (h_Cache h))\<rparr>,
       h_Guardian := (h_Guardian h)\<lparr>g_Rules := sort (g_Rules (h_Guardian h))\<rparr>,
       h_Maintenance := Maintenance_Normalize ((h_Maintenance h)\<lparr>mt_allowFrom := []\<rparr>),
       h_TrafficLimits := TrafficLimits_Normalize ((h_TrafficLimits h)\<lparr>tl_exempt := []\<rparr>),
       h_Locations := map (\<lambda>(k, l). read_location (length (h_Locations h)) k l) (enumerate 0 (h_Locations h))\<rparr>"

text \<open>No row of any table belongs to the host.\<close>

definition unowned :: "int \<Rightarrow> hosts_db \<Rightarrow> bool" where
  "unowned i db \<longleftrightarrow>
     no_children i (hd_domains db) \<and> (\<forall>x \<in> set (hd_guardianRules db). fst x \<noteq> i) \<and> no_children i (hd_cachePaths db)
     \<and> no_children i (hd_limitExempt db) \<and> no_children i (hd_locations db) \<and> no_children i (hd_compressTypes db)
     \<and> no_children i (hd_maintAllow db) \<and> no_children i (hd_upstreams db) \<and> no_rules (HostOwner i) (hd_headerRules db)"

lemma sort_pairs: "sort_key (\<lambda>(k, r). (k, r)) (map (Pair (i :: int)) (xs :: string list)) = map (Pair i) (sort xs)"
proof -
  have "insort_key (\<lambda>(k, r). (k, r)) (i, x) (map (Pair i) ys) = map (Pair i) (insort x ys)" for x and ys :: "string list"
    by (induction ys) auto
  then show ?thesis by (induction xs) simp_all
qed

lemma sorted_rules:
  assumes "\<forall>x \<in> set rows. fst x \<noteq> i"
  shows "map snd (filter (\<lambda>(k, r). k = i) (sort_key (\<lambda>(k, r). (k, r)) (rows @ map (Pair (i :: int)) (xs :: string list)))) = sort xs"
proof -
  have "filter (\<lambda>(k, r). k = i) rows = []" using assms by (auto simp: filter_empty_conv)
  moreover have "filter (\<lambda>(k, r). k = i) (map (Pair i) xs) = map (Pair i) xs" by (simp add: filter_map comp_def)
  ultimately show ?thesis unfolding filter_sort filter_append by (simp only: append_Nil sort_pairs) (simp add: comp_def)
qed

lemma location_rows_own:
  assumes "no_children i old"
    and "hd_locations db = old @ map (\<lambda>(k, l). (i, (lc_ID l, lc_Path l, lc_StripPrefix l), k)) (enumerate 0 ls)"
  shows "location_rows i db = map (\<lambda>(k, l). ((lc_ID l, lc_Path l, lc_StripPrefix l), k)) (enumerate 0 ls)"
proof -
  let ?vs = "map (\<lambda>l. (lc_ID l, lc_Path l, lc_StripPrefix l)) ls"
  have rows: "hd_locations db = old @ child_rows i ?vs"
    unfolding assms(2) by (auto simp: child_rows_def intro: nth_equalityI simp: nth_enumerate_eq)
  have none: "filter (\<lambda>(k, v, p). k = i) old = []" using assms(1) by (auto simp: no_children_def filter_empty_conv)
  show ?thesis unfolding location_rows_def rows filter_sort filter_append none filter_child_rows
    by (simp add: sort_child_rows) (auto simp: child_rows_def intro: nth_equalityI simp: nth_enumerate_eq)
qed

lemma locations_read_back:
  assumes "no_children i old" "distinct (map lc_ID ls)" "\<forall>l \<in> set ls. written_as db i l"
    and "hd_locations db = old @ map (\<lambda>(k, l). (i, (lc_ID l, lc_Path l, lc_StripPrefix l), k)) (enumerate 0 ls)"
  shows "host_locations (attachLocations i db) = map (\<lambda>(k, l). read_location (length ls) k l) (enumerate 0 ls)"
proof -
  have rows: "location_rows i db = map (\<lambda>(k, l). ((lc_ID l, lc_Path l, lc_StripPrefix l), k)) (enumerate 0 ls)"
    using location_rows_own [OF assms(1,4)] .
  have "map row_id (location_rows i db) = map lc_ID ls"
    unfolding rows by (auto intro: nth_equalityI simp: nth_enumerate_eq)
  then have "distinct (map row_id (location_rows i db))" using assms(2) by simp
  note read = host_locations_read [OF this]
  have "filled i db ((lc_ID l, lc_Path l, lc_StripPrefix l), k) = l\<lparr>lc_Position := k\<rparr>"
    "bare_location i ((lc_ID l, lc_Path l, lc_StripPrefix l), k)
       = l\<lparr>lc_Upstreams := [], lc_Headers := \<lparr>hs_Request = [], hs_Response = []\<rparr>, lc_Position := k\<rparr>" if "l \<in> set ls" for k l
    using assms(3) that by (auto simp: filled_eq written_as_def bare_location_def)
  then show ?thesis unfolding read rows
    by (auto intro!: nth_equalityI simp: nth_enumerate_eq read_location_def)
qed

lemma writeHostChildren_Inr:
  assumes "writeHostChildren redirected h db = Inr (db', h')"
  obtains dbl ls where
    "write_locations (h_ID h) 0 [] (h_Locations h)
       (db\<lparr>hd_domains := hd_domains db @ child_rows (h_ID h) (h_Domains h),
           hd_guardianRules := hd_guardianRules db @ map (Pair (h_ID h)) (g_Rules (h_Guardian h)),
           hd_cachePaths := hd_cachePaths db @ child_rows (h_ID h) (cf_Paths (h_Cache h)),
           hd_limitExempt := hd_limitExempt db @ child_rows (h_ID h) (tl_Exempt (h_TrafficLimits h))\<rparr>) = Inr (dbl, ls)"
    "h' = h\<lparr>h_Locations := ls, h_Upstreams := numbered (h_ID h) (hd_upstreamSeq dbl) (h_Upstreams h)\<rparr>"
    "db' = dbl\<lparr>hd_headerRules := hd_headerRules dbl @ child_rows (HostOwner (h_ID h), ''request'') (hs_Request (h_Headers h))
                 @ child_rows (HostOwner (h_ID h), ''response'') (hs_Response (h_Headers h)),
               hd_compressTypes := hd_compressTypes dbl @ child_rows (h_ID h) (cp_Types (h_Compression h)),
               hd_maintAllow := hd_maintAllow dbl @ child_rows (h_ID h) (mt_AllowFrom (h_Maintenance h)),
               hd_upstreams := hd_upstreams dbl @ child_rows (h_ID h) (h_Upstreams h'),
               hd_upstreamSeq := hd_upstreamSeq dbl + int (length (h_Upstreams h))\<rparr>"
proof -
  have dom: "db1 = db\<lparr>hd_domains := hd_domains db @ child_rows (h_ID h) (h_Domains h)\<rparr>"
    if "write_domains redirected (h_ID h) 0 (h_Domains h) db = Inr db1" for db1
    using write_domains_Inr [OF that] by (simp add: child_rows_def)
  from assms that show thesis
    by (auto simp: writeHostChildren_def Let_def write_headers_def split: if_splits option.splits dest!: dom)
qed

lemma scan_inserted:
  "scanHost (h_ID h) (hostInsertArgs h) =
     h\<lparr>h_Domains := [], h_Upstreams := [],
       h_HealthCheck := (h_HealthCheck h)\<lparr>hc_Interval := to_milliseconds (hc_Interval (h_HealthCheck h)),
         hc_Timeout := to_milliseconds (hc_Timeout (h_HealthCheck h))\<rparr>,
       h_PassiveHealth := (h_PassiveHealth h)\<lparr>ph_EjectFor := to_milliseconds (ph_EjectFor (h_PassiveHealth h))\<rparr>,
       h_Guardian := (h_Guardian h)\<lparr>g_Rules := []\<rparr>,
       h_Cache := (h_Cache h)\<lparr>cf_Paths := [], cf_TTL := to_milliseconds (cf_TTL (h_Cache h)),
         cf_MaxTTL := to_milliseconds (cf_MaxTTL (h_Cache h))\<rparr>,
       h_TrafficLimits := (h_TrafficLimits h)\<lparr>tl_Exempt := [], tl_exempt := []\<rparr>,
       h_Maintenance := (h_Maintenance h)\<lparr>mt_AllowFrom := [], mt_allowFrom := []\<rparr>,
       h_Locations := [], h_Headers := \<lparr>hs_Request = [], hs_Response = []\<rparr>,
       h_Compression := (h_Compression h)\<lparr>cp_Types := []\<rparr>\<rparr>"
  by (simp add: scanHost_def hostInsertArgs_def Let_def to_milliseconds_def)

lemma children_read_back:
  assumes w: "writeHostChildren redirected h db = Inr (db', h')" and "unowned (h_ID h) db" "location_ids_used db"
  shows "attach_all db' (scanHost (h_ID h) (hostInsertArgs h)) = as_stored h'"
proof -
  let ?i = "h_ID h"
  obtain dbl ls where
    wl: "write_locations ?i 0 [] (h_Locations h)
       (db\<lparr>hd_domains := hd_domains db @ child_rows ?i (h_Domains h),
           hd_guardianRules := hd_guardianRules db @ map (Pair ?i) (g_Rules (h_Guardian h)),
           hd_cachePaths := hd_cachePaths db @ child_rows ?i (cf_Paths (h_Cache h)),
           hd_limitExempt := hd_limitExempt db @ child_rows ?i (tl_Exempt (h_TrafficLimits h))\<rparr>) = Inr (dbl, ls)" and
    h': "h' = h\<lparr>h_Locations := ls, h_Upstreams := numbered ?i (hd_upstreamSeq dbl) (h_Upstreams h)\<rparr>" and
    db': "db' = dbl\<lparr>hd_headerRules := hd_headerRules dbl @ child_rows (HostOwner ?i, ''request'') (hs_Request (h_Headers h))
                 @ child_rows (HostOwner ?i, ''response'') (hs_Response (h_Headers h)),
               hd_compressTypes := hd_compressTypes dbl @ child_rows ?i (cp_Types (h_Compression h)),
               hd_maintAllow := hd_maintAllow dbl @ child_rows ?i (mt_AllowFrom (h_Maintenance h)),
               hd_upstreams := hd_upstreams dbl @ child_rows ?i (h_Upstreams h'),
               hd_upstreamSeq := hd_upstreamSeq dbl + int (length (h_Upstreams h))\<rparr>"
    by (rule writeHostChildren_Inr [OF w])
  note un = assms(2) [unfolded unowned_def]
  have ids: "location_ids_used
       (db\<lparr>hd_domains := hd_domains db @ child_rows ?i (h_Domains h),
           hd_guardianRules := hd_guardianRules db @ map (Pair ?i) (g_Rules (h_Guardian h)),
           hd_cachePaths := hd_cachePaths db @ child_rows ?i (cf_Paths (h_Cache h)),
           hd_limitExempt := hd_limitExempt db @ child_rows ?i (tl_Exempt (h_TrafficLimits h))\<rparr>)"
    using assms(3) by (simp add: location_ids_used_def)
  obtain xs us n m rs where frame: "dbl = db\<lparr>hd_domains := hd_domains db @ child_rows ?i (h_Domains h),
           hd_guardianRules := hd_guardianRules db @ map (Pair ?i) (g_Rules (h_Guardian h)),
           hd_cachePaths := hd_cachePaths db @ child_rows ?i (cf_Paths (h_Cache h)),
           hd_limitExempt := hd_limitExempt db @ child_rows ?i (tl_Exempt (h_TrafficLimits h)),
           hd_locations := xs, hd_locationSeq := n, hd_locationUpstreams := us,
           hd_locationUpstreamSeq := m, hd_headerRules := hd_headerRules db @ rs\<rparr>"
    and rs: "\<forall>x \<in> set rs. \<exists>l. fst (fst x) = LocationOwner l"
    using write_locations_frame [OF wl] by auto
  have "host_locations (attachLocations ?i db') = map (\<lambda>(k, l). read_location (length ls) k l) (enumerate 0 ls)"
  proof (rule locations_read_back)
    show "\<forall>l\<in>set ls. written_as db' ?i l"
      using write_locations_Inr [OF wl ids] by (simp add: db' written_as_def rules_other)
  qed (use write_locations_Inr [OF wl ids] un in \<open>simp_all add: db'\<close>)
  moreover have "host_rules ?i db' = h_Headers h"
  proof -
    have "no_rules (HostOwner ?i) (hd_headerRules dbl)" using un rs by (fastforce simp: frame)
    then show ?thesis unfolding host_rules_eq db' by (simp add: rules_own)
  qed
  moreover have "map snd (filter (\<lambda>(k, r). k = ?i) (sort_key (\<lambda>(k, r). (k, r)) (hd_guardianRules db'))) = sort (g_Rules (h_Guardian h))"
    using sorted_rules un by (simp add: db' frame)
  moreover have "children_of ?i (hd_domains db') = h_Domains h" "children_of ?i (hd_cachePaths db') = cf_Paths (h_Cache h)"
    "children_of ?i (hd_limitExempt db') = tl_Exempt (h_TrafficLimits h)" "children_of ?i (hd_upstreams db') = h_Upstreams h'"
    "children_of ?i (hd_compressTypes db') = cp_Types (h_Compression h)" "children_of ?i (hd_maintAllow db') = mt_AllowFrom (h_Maintenance h)"
    using un by (simp_all add: db' frame)
  ultimately show ?thesis
    unfolding attach_all_def as_stored_def scan_inserted by (simp add: Let_def h' numbered_HostID)
qed

section \<open>Every write\<close>

text \<open>Every id in the tables has been given out.\<close>

abbreviation owners_upto :: "int \<Rightarrow> (int \<times> 'v) list \<Rightarrow> bool" where
  "owners_upto n rows \<equiv> \<forall>x \<in> set rows. fst x \<le> n"

definition owned_upto :: "int \<Rightarrow> hosts_db \<Rightarrow> bool" where
  "owned_upto n db \<longleftrightarrow>
     owners_upto n (hd_domains db) \<and> owners_upto n (hd_guardianRules db) \<and> owners_upto n (hd_cachePaths db)
     \<and> owners_upto n (hd_limitExempt db) \<and> owners_upto n (hd_locations db) \<and> owners_upto n (hd_compressTypes db)
     \<and> owners_upto n (hd_maintAllow db) \<and> owners_upto n (hd_upstreams db)
     \<and> (\<forall>x \<in> set (hd_headerRules db). \<forall>j. fst (fst x) = HostOwner j \<longrightarrow> j \<le> n)"

definition hosts_ok :: "hosts_db \<Rightarrow> bool" where
  "hosts_ok db \<longleftrightarrow> owners_upto (hd_seq db) (hd_rows db) \<and> owned_upto (hd_seq db) db \<and> location_ids_used db"

lemma owners_child_rows: "i \<le> n \<Longrightarrow> owners_upto n (child_rows i vs)"
  by (auto dest: set_child_rows)

lemma owners_drop: "owners_upto n rows \<Longrightarrow> owners_upto n (drop_children i rows)"
  by (auto simp: drop_children_def)

lemma owners_no_children: "owners_upto n rows \<Longrightarrow> n < i \<Longrightarrow> no_children i rows"
  by (intro no_childrenI) force

lemma owned_upto_unowned: "owned_upto n db \<Longrightarrow> n < i \<Longrightarrow> unowned i db"
  unfolding owned_upto_def unowned_def by (intro conjI owners_no_children; force)

lemma clear_children_unowned: "unowned i (clear_children i db)"
  by (auto simp: unowned_def clear_children_def Let_def own_rule_def)

lemma clear_children_owned: "owned_upto n db \<Longrightarrow> owned_upto n (clear_children i db)"
  unfolding owned_upto_def by (simp add: clear_children_def Let_def drop_children_def) fastforce

lemma clear_children_ids: "location_ids_used db \<Longrightarrow> location_ids_used (clear_children i db)"
  by (auto simp: location_ids_used_def clear_children_def Let_def)

lemma rows_irrelevant [simp]:
  "owned_upto n (db\<lparr>hd_rows := rs\<rparr>) = owned_upto n db" "location_ids_used (db\<lparr>hd_rows := rs\<rparr>) = location_ids_used db"
  "owned_upto n (db\<lparr>hd_seq := k\<rparr>) = owned_upto n db" "location_ids_used (db\<lparr>hd_seq := k\<rparr>) = location_ids_used db"
  "unowned n (db\<lparr>hd_rows := rs\<rparr>) = unowned n db" "unowned n (db\<lparr>hd_seq := k\<rparr>) = unowned n db"
  by (simp_all add: owned_upto_def location_ids_used_def unowned_def)

lemma owned_upto_mono: "owned_upto n db \<Longrightarrow> n \<le> m \<Longrightarrow> owned_upto m db"
  unfolding owned_upto_def by (meson order_trans)

lemma clear_children_rows [simp]:
  "hd_rows (clear_children i db) = hd_rows db" "hd_seq (clear_children i db) = hd_seq db"
  by (simp_all add: clear_children_def Let_def)

lemma writeHostChildren_keeps:
  assumes w: "writeHostChildren redirected h db = Inr (db', h')" and "owned_upto n db" "h_ID h \<le> n" "location_ids_used db"
  shows "owned_upto n db' \<and> location_ids_used db' \<and> hd_rows db' = hd_rows db \<and> hd_seq db' = hd_seq db \<and> h_ID h' = h_ID h"
  using w
proof (rule writeHostChildren_Inr)
  fix dbl ls
  let ?i = "h_ID h"
  let ?db = "db\<lparr>hd_domains := hd_domains db @ child_rows ?i (h_Domains h),
           hd_guardianRules := hd_guardianRules db @ map (Pair ?i) (g_Rules (h_Guardian h)),
           hd_cachePaths := hd_cachePaths db @ child_rows ?i (cf_Paths (h_Cache h)),
           hd_limitExempt := hd_limitExempt db @ child_rows ?i (tl_Exempt (h_TrafficLimits h))\<rparr>"
  assume wl: "write_locations ?i 0 [] (h_Locations h) ?db = Inr (dbl, ls)"
    and h': "h' = h\<lparr>h_Locations := ls, h_Upstreams := numbered ?i (hd_upstreamSeq dbl) (h_Upstreams h)\<rparr>"
    and db': "db' = dbl\<lparr>hd_headerRules := hd_headerRules dbl @ child_rows (HostOwner ?i, ''request'') (hs_Request (h_Headers h))
                 @ child_rows (HostOwner ?i, ''response'') (hs_Response (h_Headers h)),
               hd_compressTypes := hd_compressTypes dbl @ child_rows ?i (cp_Types (h_Compression h)),
               hd_maintAllow := hd_maintAllow dbl @ child_rows ?i (mt_AllowFrom (h_Maintenance h)),
               hd_upstreams := hd_upstreams dbl @ child_rows ?i (h_Upstreams h'),
               hd_upstreamSeq := hd_upstreamSeq dbl + int (length (h_Upstreams h))\<rparr>"
  have "location_ids_used ?db" using assms(4) by (simp add: location_ids_used_def)
  note out = write_locations_Inr [OF wl this]
  obtain xs us k m rs where frame: "dbl = ?db\<lparr>hd_locations := xs, hd_locationSeq := k, hd_locationUpstreams := us,
           hd_locationUpstreamSeq := m, hd_headerRules := hd_headerRules db @ rs\<rparr>"
    and rs: "\<forall>x \<in> set rs. \<exists>l. fst (fst x) = LocationOwner l"
    using write_locations_frame [OF wl] by auto
  have hdr: "\<forall>x \<in> set (hd_headerRules db'). \<forall>j. fst (fst x) = HostOwner j \<longrightarrow> j \<le> n"
    using assms(2,3) rs by (auto simp: db' frame owned_upto_def dest!: set_child_rows)
  have locs: "owners_upto n (hd_locations db')"
    using assms(2,3) out by (auto simp: db' owned_upto_def)
  have "owned_upto n db'" unfolding owned_upto_def
  proof (intro conjI)
    show "owners_upto n (hd_locations db')" by (rule locs)
    show "\<forall>x \<in> set (hd_headerRules db'). \<forall>j. fst (fst x) = HostOwner j \<longrightarrow> j \<le> n" by (rule hdr)
  qed (use assms(2,3) in \<open>auto simp: db' frame owned_upto_def dest!: set_child_rows\<close>)
  moreover have "location_ids_used db'"
    using out unfolding db' by (auto simp: location_ids_used_def dest!: set_child_rows)
  ultimately show ?thesis by (simp add: h' db' frame)
qed

text \<open>A host without the ids the store gives out.\<close>

definition anon_upstream :: "upstream \<Rightarrow> upstream" where
  "anon_upstream u = u\<lparr>u_ID := 0, u_HostID := 0\<rparr>"

definition anon_location :: "location \<Rightarrow> location" where
  "anon_location l = l\<lparr>lc_ID := 0, lc_HostID := 0, lc_Upstreams := map anon_upstream (lc_Upstreams l)\<rparr>"

definition without_ids :: "host \<Rightarrow> host" where
  "without_ids h =
     h\<lparr>h_ID := 0, h_Upstreams := map anon_upstream (h_Upstreams h), h_Locations := map anon_location (h_Locations h)\<rparr>"

lemma anon_numbered [simp]: "map anon_upstream (numbered i n us) = map anon_upstream us"
  by (auto simp: numbered_def anon_upstream_def intro: nth_equalityI simp: nth_enumerate_eq)

lemma anon_locations: "write_locations i p seen ls db = Inr (db', ls') \<Longrightarrow> map anon_location ls' = map anon_location ls"
proof (induction ls arbitrary: p seen db ls')
  case (Cons l ls)
  then obtain ls'' where "ls' = stored_location i l db # ls''" "map anon_location ls'' = map anon_location ls"
    unfolding write_locations_Cons by blast
  moreover have "anon_location (stored_location i l db) = anon_location l" by (simp add: stored_location_def anon_location_def)
  ultimately show ?case by simp
qed simp

lemma writeHostChildren_anon: "writeHostChildren redirected h db = Inr (db', h') \<Longrightarrow> without_ids h' = without_ids h"
  by (erule writeHostChildren_Inr) (auto simp: without_ids_def dest!: anon_locations)

lemma Hosts_Create_Inl: "Hosts_Create rf fault h db = (db', Inl e) \<Longrightarrow> db' = db"
  by (simp add: Hosts_Create_def Let_def split: option.splits sum.splits prod.splits)

lemma Hosts_Create_Inr:
  "Hosts_Create rf fault h db = (db', Inr h') \<Longrightarrow>
     writeHostChildren (rf_redirected rf) (h\<lparr>h_ID := hd_seq db + 1\<rparr>)
       (db\<lparr>hd_rows := hd_rows db @ [(hd_seq db + 1, hostInsertArgs h)], hd_seq := hd_seq db + 1\<rparr>) = Inr (db', h')"
  by (simp add: Hosts_Create_def Let_def split: option.splits sum.splits prod.splits)

lemma Hosts_Update_Inl: "Hosts_Update rf fault h db = (db', Inl e) \<Longrightarrow> db' = db"
  by (simp add: Hosts_Update_def split: option.splits sum.splits prod.splits if_splits)

lemma Hosts_Update_Inr:
  "Hosts_Update rf fault h db = (db', Inr h') \<Longrightarrow>
     (\<exists>r. map_of (hd_rows db) (h_ID h) = Some r) \<and>
     writeHostChildren (rf_redirected rf) h
       (clear_children (h_ID h) (db\<lparr>hd_rows := al_put (h_ID h) (hostInsertArgs h) (hd_rows db)\<rparr>)) = Inr (db', h')"
  by (simp add: Hosts_Update_def split: option.splits sum.splits prod.splits if_splits)

lemma Hosts_Create_reads:
  assumes "hosts_ok db" "Hosts_Create rf fault h db = (db', Inr h')"
  shows "hosts_ok db' \<and> h_ID h' = hd_seq db + 1 \<and> without_ids h' = without_ids h
    \<and> Hosts_Get None (h_ID h') db' = Inr (as_stored h')"
proof -
  note ok = assms(1) [unfolded hosts_ok_def]
  let ?h = "h\<lparr>h_ID := hd_seq db + 1\<rparr>"
  let ?c = "db\<lparr>hd_rows := hd_rows db @ [(hd_seq db + 1, hostInsertArgs h)], hd_seq := hd_seq db + 1\<rparr>"
  note w = Hosts_Create_Inr [OF assms(2)]
  have c: "owned_upto (hd_seq db + 1) ?c" "unowned (hd_seq db + 1) ?c" "location_ids_used ?c"
    using ok owned_upto_unowned [of "hd_seq db" db "hd_seq db + 1"] owned_upto_mono [of "hd_seq db" db "hd_seq db + 1"]
    by simp_all
  have "map_of (hd_rows db) (hd_seq db + 1) = None" using ok by (force simp: map_of_eq_None_iff)
  moreover have "attach_all db' (scanHost (hd_seq db + 1) (hostInsertArgs h)) = as_stored h'"
    using children_read_back [OF w] c by (simp add: hostInsertArgs_def)
  moreover have "without_ids h' = without_ids h"
    using writeHostChildren_anon [OF w] by (simp add: without_ids_def)
  ultimately show ?thesis using writeHostChildren_keeps [OF w c(1)] c ok
    by (auto simp: hosts_ok_def Hosts_Get_def map_add_def)
qed

lemma Hosts_Update_reads:
  assumes "hosts_ok db" "Hosts_Update rf fault h db = (db', Inr h')"
  shows "hosts_ok db' \<and> h_ID h' = h_ID h \<and> without_ids h' = without_ids h \<and> Hosts_Get None (h_ID h') db' = Inr (as_stored h')"
proof -
  note ok = assms(1) [unfolded hosts_ok_def]
  let ?u = "clear_children (h_ID h) (db\<lparr>hd_rows := al_put (h_ID h) (hostInsertArgs h) (hd_rows db)\<rparr>)"
  obtain r where r: "map_of (hd_rows db) (h_ID h) = Some r" and w: "writeHostChildren (rf_redirected rf) h ?u = Inr (db', h')"
    using Hosts_Update_Inr [OF assms(2)] by blast
  have i: "h_ID h \<le> hd_seq db" using ok map_of_SomeD [OF r] by force
  have u: "owned_upto (hd_seq db) ?u" "location_ids_used ?u"
    using ok by (auto intro!: clear_children_owned clear_children_ids)
  have "owners_upto (hd_seq db) (al_put (h_ID h) (hostInsertArgs h) (hd_rows db))"
    using ok i set_keys_al_put [of "h_ID h" "hostInsertArgs h" "hd_rows db"] by force
  with writeHostChildren_keeps [OF w u(1) i u(2)] children_read_back [OF w clear_children_unowned u(2)]
    writeHostChildren_anon [OF w] show ?thesis by (simp add: hosts_ok_def Hosts_Get_def)
qed

text \<open>A domain a host gets was nobody's before.\<close>

lemma write_domains_claims:
  assumes "write_domains redirected i p ds db = Inr db'" "unique_claims (hd_domains db)"
  shows "unique_claims (hd_domains db') \<and> (\<forall>d \<in> set ds. \<not> redirected d)"
  using assms
proof (induction ds arbitrary: p db)
  case (Cons d ds)
  then have c: "\<not> redirected d" "d \<notin> claimed (hd_domains db)"
    "write_domains redirected i (Suc p) ds (db\<lparr>hd_domains := hd_domains db @ [(i, d, p)]\<rparr>) = Inr db'"
    by (simp_all split: if_splits)
  from Cons.IH [OF c(3)] c(1,2) Cons.prems(2) show ?case by simp
qed simp

lemma writeHostChildren_claims:
  assumes "writeHostChildren redirected h db = Inr (db', h')" "unique_claims (hd_domains db)"
  shows "unique_claims (hd_domains db') \<and> (\<forall>d \<in> set (h_Domains h). \<not> redirected d) \<and>
    hd_domains db' = hd_domains db @ child_rows (h_ID h) (h_Domains h)"
proof -
  obtain db1 where w: "write_domains redirected (h_ID h) 0 (h_Domains h) db = Inr db1"
    using assms(1) by (auto simp: writeHostChildren_def Let_def)
  then have d1: "hd_domains db1 = hd_domains db @ child_rows (h_ID h) (h_Domains h)"
    using write_domains_Inr [OF w] by (simp add: child_rows_def)
  have "hd_domains db' = hd_domains db @ child_rows (h_ID h) (h_Domains h)"
    by (rule writeHostChildren_Inr [OF assms(1)]) (use write_locations_frame in fastforce)
  with write_domains_claims [OF w assms(2)] d1 show ?thesis by simp
qed

text \<open>C6. A host that is created or updated reads back as it was given, but for the ids, which the store
  gives out: its durations in whole milliseconds, its disabled rules sorted, its address lists compiled,
  its locations in order. Of the locations, only those appended to the slice since it last moved have
  their backends and header rules (\<^verbatim>\<open>as_stored\<close>). A write that is refused changes nothing, and every write
  keeps the ids in the tables below the counters.\<close>

theorem host_reads_back:
  assumes "hosts_ok db"
  shows "(case Hosts_Create rf fault h db of
            (db', Inl e) \<Rightarrow> db' = db
          | (db', Inr h') \<Rightarrow> hosts_ok db' \<and> h_ID h' = hd_seq db + 1 \<and> without_ids h' = without_ids h
              \<and> Hosts_Get None (h_ID h') db' = Inr (as_stored h'))
       \<and> (case Hosts_Update rf fault h db of
            (db', Inl e) \<Rightarrow> db' = db
          | (db', Inr h') \<Rightarrow> hosts_ok db' \<and> h_ID h' = h_ID h \<and> without_ids h' = without_ids h
              \<and> Hosts_Get None (h_ID h') db' = Inr (as_stored h'))"
proof (cases "Hosts_Create rf fault h db"; cases "Hosts_Update rf fault h db")
  fix dbc rc dbu ru
  assume c: "Hosts_Create rf fault h db = (dbc, rc)" and u: "Hosts_Update rf fault h db = (dbu, ru)"
  show ?thesis unfolding c u
    using Hosts_Create_Inl Hosts_Create_reads [OF assms] Hosts_Update_Inl Hosts_Update_reads [OF assms] c u
    by (cases rc; cases ru; simp only: prod.case sum.case; blast)
qed

text \<open>C5. Whenever a host has two locations or more, the first of them reads back without any of its backends
  and header rules: the pointer through which they are attached still points at the array the slice has
  been moved away from.\<close>

theorem two_locations_lose_backends:
  assumes "hosts_ok db" "Hosts_Create rf fault h db = (db', Inr h')" "2 \<le> length (h_Locations h)"
  shows "\<exists>g. Hosts_Get None (h_ID h') db' = Inr g \<and> length (h_Locations g) = length (h_Locations h)
    \<and> lc_Path (hd (h_Locations g)) = lc_Path (hd (h_Locations h)) \<and> lc_Upstreams (hd (h_Locations g)) = []
    \<and> lc_Headers (hd (h_Locations g)) = \<lparr>hs_Request = [], hs_Response = []\<rparr>"
proof -
  note read = Hosts_Create_reads [OF assms(1,2)]
  have same: "map anon_location (h_Locations h') = map anon_location (h_Locations h)"
  proof -
    have "h_Locations (without_ids h') = h_Locations (without_ids h)" using read by simp
    then show ?thesis by (simp add: without_ids_def)
  qed
  then have len: "length (h_Locations h') = length (h_Locations h)" by (rule map_eq_imp_length_eq)
  obtain l ls k ks where l: "h_Locations h' = l # ls" "h_Locations h = k # ks"
    using len assms(3) by (cases "h_Locations h'"; cases "h_Locations h") auto
  have "lc_Path (anon_location l) = lc_Path (anon_location k)" using same l by simp
  then have "lc_Path l = lc_Path k" by (simp add: anon_location_def)
  moreover have "0 < moved (length (h_Locations h'))" using moved_pos assms(3) len by simp
  moreover have "Hosts_Get None (h_ID h') db' = Inr (as_stored h')" using read by blast
  ultimately show ?thesis using l len by (simp add: as_stored_def read_location_def)
qed

definition ex_site :: host where
  "ex_site = (ex_host [''example.com''])\<lparr>h_Locations :=
     [\<lparr>lc_ID = 0, lc_HostID = 0, lc_Path = ''/'' @ p, lc_StripPrefix = False, lc_Upstreams = h_Upstreams (ex_host []),
       lc_Headers = \<lparr>hs_Request = [], hs_Response = []\<rparr>, lc_Position = 0\<rparr>. p \<leftarrow> [''api'', ''app'']]\<rparr>"

definition no_hosts :: hosts_db where
  "no_hosts = \<lparr>hd_rows = [], hd_seq = 0, hd_domains = [], hd_guardianRules = [], hd_cachePaths = [], hd_limitExempt = [],
     hd_locations = [], hd_locationSeq = 0, hd_locationUpstreams = [], hd_locationUpstreamSeq = 0, hd_headerRules = [],
     hd_compressTypes = [], hd_maintAllow = [], hd_upstreams = [], hd_upstreamSeq = 0\<rparr>"

definition free_standing :: references where
  "free_standing = \<lparr>rf_certificate = (\<lambda>_. False), rf_accessList = (\<lambda>_. False), rf_redirected = (\<lambda>_. False)\<rparr>"

lemma no_hosts_ok: "hosts_ok no_hosts"
  by (simp add: hosts_ok_def owned_upto_def location_ids_used_def no_hosts_def)

lemma ex_distinct: "distinct DefaultCachePaths" "distinct DefaultCompressionTypes" "distinct (filter SafeByDefault GuardianRules)"
  by code_simp+

lemma ex_site_children: "\<exists>db h. writeHostChildren (\<lambda>_. False) (ex_site\<lparr>h_ID := 1\<rparr>)
    (no_hosts\<lparr>hd_rows := [(1, hostInsertArgs ex_site)], hd_seq := 1\<rparr>) = Inr (db, h)"
  by (simp add: writeHostChildren_def write_headers_def unique_def ex_site_def ex_host_def no_hosts_def Let_def upstream_refused_def
    DefaultGuardian_def DefaultCache_def DefaultTrafficLimits_def DefaultCompression_def DefaultMaintenance_def ex_distinct)

lemma ex_site_created: "\<exists>db h. Hosts_Create free_standing None ex_site no_hosts = (db, Inr h)"
proof -
  have "row_refused free_standing ex_site = None"
    by (simp add: row_refused_def ex_site_def ex_host_def free_standing_def Algorithm_Valid_def DefaultGuardian_def Mode_Valid_def
      DefaultPassiveHealth_def milliseconds_def go_quot_def)
  moreover have "hd_seq no_hosts = 0" "hd_rows no_hosts = []" "rf_redirected free_standing = (\<lambda>_. False)"
    by (simp_all add: no_hosts_def free_standing_def)
  ultimately show ?thesis using ex_site_children by (auto simp: Hosts_Create_def)
qed

theorem host_reads_back_witness:
  "\<exists>db h. Hosts_Create free_standing None ex_site no_hosts = (db, Inr h) \<and> Hosts_Get None (h_ID h) db = Inr (as_stored h)"
  using host_reads_back [OF no_hosts_ok, where rf = free_standing and fault = None and h = ex_site] ex_site_created by auto

theorem two_locations_lose_backends_witness:
  "\<exists>db h g. Hosts_Create free_standing None ex_site no_hosts = (db, Inr h) \<and> Hosts_Get None (h_ID h) db = Inr g
     \<and> lc_Upstreams (hd (h_Locations g)) = [] \<and> lc_Upstreams (hd (h_Locations ex_site)) \<noteq> []"
proof -
  obtain db h where c: "Hosts_Create free_standing None ex_site no_hosts = (db, Inr h)" using ex_site_created by blast
  have "2 \<le> length (h_Locations ex_site)" "lc_Upstreams (hd (h_Locations ex_site)) \<noteq> []" by (simp_all add: ex_site_def ex_host_def)
  with two_locations_lose_backends [OF no_hosts_ok c] c show ?thesis by blast
qed

end
