(* ===== verification/Access_Log.thy ===== *)
theory Access_Log
  imports Store_Base Domain_Settings "HOL-Library.Sublist" "HOL-Library.Product_Lexorder"
begin

text \<open>The access log: its table (\<^verbatim>\<open>store/accesslog.go\<close>) and the writer that fills it behind the requests
  (\<^verbatim>\<open>accesslog/writer.go\<close>). The table is the list of its rows in the order of their ids; a row keeps the
  time of a request in milliseconds. SQLite's \<^verbatim>\<open>LIKE\<close> is written out: it ignores the case of ASCII
  letters, and its wildcards lose their meaning behind the escape character.\<close>

section \<open>The table\<close>

type_synonym log_columns = "int \<times> access_log_entry"

record log_row =
  lr_id :: int
  lr_columns :: log_columns

record log_table =
  lt_rows :: "log_row list"
  lt_seq :: int

definition unix_milli :: "time \<Rightarrow> int" where "unix_milli t = t div 1000000"

definition from_unix_milli :: "int \<Rightarrow> time" where "from_unix_milli n = n * 1000000"

text \<open>What an insert stores of an entry: the id comes from the table and the time from the first column.\<close>

definition columns_of :: "access_log_entry \<Rightarrow> log_columns" where
  "columns_of e = (unix_milli (le_Timestamp e), e\<lparr>le_ID := 0, le_Timestamp := 0\<rparr>)"

definition Log_Write :: "string option \<Rightarrow> access_log_entry list \<Rightarrow> log_table \<Rightarrow> log_table \<times> db_error option" where
  "Log_Write fault es t =
     (if es = [] then (t, None)
      else case fault of
        Some m \<Rightarrow> (t, Some (translateErr (Driver m)))
      | None \<Rightarrow>
          (t\<lparr>lt_rows := lt_rows t @ map (\<lambda>(k, e). \<lparr>lr_id = lt_seq t + 1 + int k, lr_columns = columns_of e\<rparr>) (enumerate 0 es),
             lt_seq := lt_seq t + int (length es)\<rparr>, None))"

fun escapeLike :: "string \<Rightarrow> string" where
  "escapeLike [] = []"
| "escapeLike (c # s) = (if c \<in> {CHR 0x5C, CHR ''%'', CHR ''_''} then CHR 0x5C # c # escapeLike s else c # escapeLike s)"

text \<open>One character of a string for \<^verbatim>\<open>_\<close>: a byte and the continuation bytes after it.\<close>

definition drop_rune :: "string \<Rightarrow> string" where
  "drop_rune s = dropWhile (\<lambda>c. \<not> isUTF8Start c) (tl s)"

function like :: "string \<Rightarrow> string \<Rightarrow> bool" where
  "like [] s \<longleftrightarrow> s = []"
| "like (p # ps) s \<longleftrightarrow>
     (if p = CHR ''%'' then like ps s \<or> (if s = [] then False else like (p # ps) (tl s))
      else if s = [] then False
      else if p = CHR ''_'' then like ps (drop_rune s)
      else if p = CHR 0x5C then
        (case ps of [] \<Rightarrow> False | q # qs \<Rightarrow> lower_char q = lower_char (hd s) \<and> like qs (tl s))
      else lower_char p = lower_char (hd s) \<and> like ps (tl s))"
  by pat_completeness auto
termination
  by (relation "measure (\<lambda>(p, s). length p + length s)") (auto simp: drop_rune_def less_Suc_eq_le intro: le_trans [OF length_dropWhile_le])

declare like.simps(2) [simp del]

definition log_matches :: "access_log_query \<Rightarrow> log_row \<Rightarrow> bool" where
  "log_matches q r \<longleftrightarrow>
     (case lr_columns r of (ts, e) \<Rightarrow>
        unix_milli (the (lq_From q)) \<le> ts \<and> ts \<le> unix_milli (the (lq_To q))
        \<and> (lq_HostID q = 0 \<or> le_HostID e = lq_HostID q)
        \<and> (lq_StatusClass q = 0 \<or> lq_StatusClass q * 100 \<le> le_Status e \<and> le_Status e < lq_StatusClass q * 100 + 100)
        \<and> (lq_FailedOnly q \<longrightarrow> le_Error e \<noteq> [])
        \<and> (lq_Search q = [] \<or>
             (let pattern = ''%'' @ escapeLike (lq_Search q) @ ''%'' in like pattern (le_Path e) \<or> like pattern (le_ClientIP e))))"

definition newest_first :: "log_row list \<Rightarrow> log_row list" where
  "newest_first rs = rev (sort_key (\<lambda>r. (fst (lr_columns r), lr_id r)) rs)"

definition log_entry :: "log_row \<Rightarrow> access_log_entry" where
  "log_entry r = (snd (lr_columns r))\<lparr>le_ID := lr_id r, le_Timestamp := from_unix_milli (fst (lr_columns r))\<rparr>"

definition Log_Query :: "string option \<Rightarrow> time \<Rightarrow> access_log_query \<Rightarrow> log_table \<Rightarrow> db_error + access_log_entry list \<times> nat" where
  "Log_Query fault now q t =
     (let q = AccessLogQuery_Normalize now q
      in case fault of
           Some m \<Rightarrow> Inl (translateErr (Driver m))
         | None \<Rightarrow>
             let rows = filter (log_matches q) (lt_rows t)
             in Inr (map log_entry (take (nat (lq_Limit q)) (drop (nat (lq_Offset q)) (newest_first rows))), length rows))"

text \<open>The two statements of \<^verbatim>\<open>Prune\<close> are not one transaction: the second may fail after the first.\<close>

definition Log_Prune :: "string option \<Rightarrow> string option \<Rightarrow> time \<Rightarrow> int \<Rightarrow> log_table \<Rightarrow> log_table \<times> nat \<times> db_error option" where
  "Log_Prune fault1 fault2 before maxRows t =
     (case fault1 of
        Some m \<Rightarrow> (t, 0, Some (translateErr (Driver m)))
      | None \<Rightarrow>
          let young = filter (\<lambda>r. \<not> fst (lr_columns r) < unix_milli before) (lt_rows t);
              removed = length (lt_rows t) - length young
          in if maxRows > 0 then
               (case fault2 of
                  Some m \<Rightarrow> (t\<lparr>lt_rows := young\<rparr>, removed, Some (translateErr (Driver m)))
                | None \<Rightarrow>
                    let keep = map lr_id (take (nat maxRows) (newest_first young));
                        left = filter (\<lambda>r. lr_id r \<in> set keep) young
                    in (t\<lparr>lt_rows := left\<rparr>, removed + (length young - length left), None))
             else (t\<lparr>lt_rows := young\<rparr>, removed, None))"

section \<open>The writer\<close>

definition bufferSize :: nat where "bufferSize = 4096"
definition batchSize :: nat where "batchSize = 256"

datatype run_phase = Writing | Draining | Returned

record writer =
  wr_entries :: "access_log_entry list"
  wr_batch :: "access_log_entry list"
  wr_dropped :: "64 word"
  wr_written :: "64 word"
  wr_retention :: duration
  wr_maxRows :: int
  wr_phase :: run_phase
  wr_table :: log_table

definition new_writer :: "duration \<Rightarrow> int \<Rightarrow> log_table \<Rightarrow> writer" where
  "new_writer retention maxRows t =
     \<lparr>wr_entries = [], wr_batch = [], wr_dropped = 0, wr_written = 0,
      wr_retention = (if retention \<le> 0 then 7 * 24 * hour else retention),
      wr_maxRows = (if maxRows \<le> 0 then 500000 else maxRows), wr_phase = Writing, wr_table = t\<rparr>"

definition writer_Record :: "access_log_entry \<Rightarrow> writer \<Rightarrow> writer" where
  "writer_Record e w =
     (if length (wr_entries w) < bufferSize then w\<lparr>wr_entries := wr_entries w @ [Truncate e]\<rparr>
      else w\<lparr>wr_dropped := wr_dropped w + 1\<rparr>)"

definition writer_Stats :: "writer \<Rightarrow> 64 word \<times> 64 word \<times> nat" where
  "writer_Stats w = (wr_written w, wr_dropped w, length (wr_entries w))"

text \<open>\<^verbatim>\<open>flush\<close> and the reset of the batch that follows it.\<close>

definition flush_batch :: "string option \<Rightarrow> writer \<Rightarrow> writer" where
  "flush_batch fault w =
     (if wr_batch w = [] then w
      else case Log_Write fault (wr_batch w) (wr_table w) of
        (t, Some _) \<Rightarrow> w\<lparr>wr_table := t, wr_dropped := wr_dropped w + of_nat (length (wr_batch w)), wr_batch := []\<rparr>
      | (t, None) \<Rightarrow> w\<lparr>wr_table := t, wr_written := wr_written w + of_nat (length (wr_batch w)), wr_batch := []\<rparr>)"

definition writer_prune :: "string option \<Rightarrow> string option \<Rightarrow> time \<Rightarrow> writer \<Rightarrow> writer" where
  "writer_prune fault1 fault2 now w =
     w\<lparr>wr_table := fst (Log_Prune fault1 fault2 (now - wr_retention w) (wr_maxRows w) (wr_table w))\<rparr>"

text \<open>The cases of the loop in \<^verbatim>\<open>Run\<close>, each with what the database does, and the requests that call
  \<^verbatim>\<open>Record\<close> meanwhile and after.\<close>

datatype writer_event =
    Recorded access_log_entry
  | Received "string option"
  | FlushTick "string option"
  | PruneTick "string option" "string option" time
  | Cancelled
  | Drained access_log_entry
  | FinalFlush "string option"

inductive writer_step :: "writer \<Rightarrow> writer_event \<Rightarrow> writer \<Rightarrow> bool" where
  recorded: "writer_step w (Recorded e) (writer_Record e w)"
| received: "wr_phase w = Writing \<Longrightarrow> wr_entries w = e # es \<Longrightarrow> w' = w\<lparr>wr_entries := es, wr_batch := wr_batch w @ [e]\<rparr> \<Longrightarrow>
    writer_step w (Received fault) (if batchSize \<le> length (wr_batch w') then flush_batch fault w' else w')"
| flush_tick: "wr_phase w = Writing \<Longrightarrow> writer_step w (FlushTick fault) (flush_batch fault w)"
| prune_tick: "wr_phase w = Writing \<Longrightarrow> writer_step w (PruneTick fault1 fault2 now) (writer_prune fault1 fault2 now w)"
| cancelled: "wr_phase w = Writing \<Longrightarrow> writer_step w Cancelled (w\<lparr>wr_phase := Draining\<rparr>)"
| drained: "wr_phase w = Draining \<Longrightarrow> wr_entries w = e # es \<Longrightarrow>
    writer_step w (Drained e) (w\<lparr>wr_entries := es, wr_batch := wr_batch w @ [e]\<rparr>)"
| final_flush: "wr_phase w = Draining \<Longrightarrow> wr_entries w = [] \<Longrightarrow>
    writer_step w (FinalFlush fault) ((flush_batch fault w)\<lparr>wr_phase := Returned\<rparr>)"

inductive_cases writer_stepE: "writer_step w ev w'"

section \<open>Searching\<close>

lemma like_plain:
  "c \<notin> {CHR ''%'', CHR ''_'', CHR 0x5C} \<Longrightarrow> like (c # ps) s \<longleftrightarrow> s \<noteq> [] \<and> lower_char c = lower_char (hd s) \<and> like ps (tl s)"
  by (subst like.simps) auto

lemma like_escaped: "like (CHR 0x5C # q # qs) s \<longleftrightarrow> s \<noteq> [] \<and> lower_char q = lower_char (hd s) \<and> like qs (tl s)"
  by (subst like.simps) simp

lemma like_percent: "like (CHR ''%'' # ps) s \<longleftrightarrow> like ps s \<or> s \<noteq> [] \<and> like (CHR ''%'' # ps) (tl s)"
  by (subst like.simps) auto

lemma like_any: "like ''%'' s"
proof (induction s)
  case Nil
  then show ?case by (subst like_percent) simp
next
  case (Cons c s)
  then show ?case by (subst like_percent) simp
qed

lemma like_escapeLike: "like (escapeLike p @ ''%'') s \<longleftrightarrow> has_prefix (to_lower s) (to_lower p)"
proof (induction p arbitrary: s)
  case Nil
  then show ?case by (simp add: like_any to_lower_def has_prefix_def)
next
  case (Cons c p)
  have "like (escapeLike (c # p) @ ''%'') s \<longleftrightarrow> s \<noteq> [] \<and> lower_char c = lower_char (hd s) \<and> like (escapeLike p @ ''%'') (tl s)"
  proof (cases "c \<in> {CHR 0x5C, CHR ''%'', CHR ''_''}")
    case True
    then have "escapeLike (c # p) @ ''%'' = CHR 0x5C # c # escapeLike p @ ''%''" by simp
    then show ?thesis by (simp only: like_escaped)
  next
    case False
    then have "escapeLike (c # p) @ ''%'' = c # escapeLike p @ ''%''" by simp
    with False show ?thesis using like_plain [of c "escapeLike p @ ''%''" s] by (simp only: insert_iff empty_iff) blast
  qed
  with Cons.IH [of "tl s"] show ?case by (cases s) (auto simp: to_lower_def has_prefix_def)
qed

text \<open>The search finds the text anywhere, whatever wildcards it contains.\<close>

lemma like_search: "like (''%'' @ escapeLike p @ ''%'') s \<longleftrightarrow> contains (to_lower s) (to_lower p)"
proof (induction s)
  case Nil
  have "like (''%'' @ escapeLike p @ ''%'') [] \<longleftrightarrow> like (escapeLike p @ ''%'') []"
    using like_percent [of "escapeLike p @ ''%''" "[]"] by simp
  then show ?case unfolding like_escapeLike by (auto simp: to_lower_def has_prefix_def)
next
  case (Cons c s)
  have "like (''%'' @ escapeLike p @ ''%'') (c # s) \<longleftrightarrow> like (escapeLike p @ ''%'') (c # s) \<or> like (''%'' @ escapeLike p @ ''%'') s"
    using like_percent [of "escapeLike p @ ''%''" "c # s"] by simp
  then show ?case unfolding like_escapeLike Cons.IH by (simp add: to_lower_def)
qed

text \<open>The rows a query asks for, said without \<^verbatim>\<open>LIKE\<close>.\<close>

definition wanted :: "time \<Rightarrow> access_log_query \<Rightarrow> log_row \<Rightarrow> bool" where
  "wanted now q r \<longleftrightarrow>
     (case lr_columns r of (ts, e) \<Rightarrow>
        let to = (case lq_To q of None \<Rightarrow> now | Some t \<Rightarrow> t);
            start = (case lq_From q of None \<Rightarrow> to - 24 * hour | Some t \<Rightarrow> t);
            sought = to_lower (trim_space (lq_Search q))
        in unix_milli start \<le> ts \<and> ts \<le> unix_milli to
           \<and> (lq_HostID q \<noteq> 0 \<longrightarrow> le_HostID e = lq_HostID q)
           \<and> (lq_StatusClass q \<in> {2..5} \<longrightarrow> le_Status e div 100 = lq_StatusClass q)
           \<and> (lq_FailedOnly q \<longrightarrow> le_Error e \<noteq> [])
           \<and> (contains (to_lower (le_Path e)) sought \<or> contains (to_lower (le_ClientIP e)) sought))"

lemma log_matches_wanted: "log_matches (AccessLogQuery_Normalize now q) r \<longleftrightarrow> wanted now q r"
proof -
  have status: "c * 100 \<le> n \<and> n < c * 100 + 100 \<longleftrightarrow> n div 100 = c" for c n :: int
  proof
    assume "c * 100 \<le> n \<and> n < c * 100 + 100"
    then show "n div 100 = c" by (intro int_div_pos_eq [of n 100 c "n - c * 100"]) auto
  next
    assume "n div 100 = c"
    then show "c * 100 \<le> n \<and> n < c * 100 + 100"
      using div_mult_mod_eq [of n 100] pos_mod_bound [of 100 n] pos_mod_sign [of 100 n] by linarith
  qed
  have nil: "contains s []" for s :: string by (cases s) (simp_all add: has_prefix_def)
  let ?n = "AccessLogQuery_Normalize now q" and ?to = "case lq_To q of None \<Rightarrow> now | Some t \<Rightarrow> t"
  have f: "the (lq_To ?n) = ?to" "the (lq_From ?n) = (case lq_From q of None \<Rightarrow> ?to - 24 * hour | Some t \<Rightarrow> t)"
    "lq_HostID ?n = lq_HostID q" "lq_FailedOnly ?n = lq_FailedOnly q" "lq_Search ?n = trim_space (lq_Search q)"
    by (simp_all add: AccessLogQuery_Normalize_def Let_def split: option.split)
  have band: "(lq_StatusClass ?n = 0 \<or> n div 100 = lq_StatusClass ?n) \<longleftrightarrow> (lq_StatusClass q \<in> {2..5} \<longrightarrow> n div 100 = lq_StatusClass q)" for n
    by (auto simp: AccessLogQuery_Normalize_def Let_def)
  have search: "(p = [] \<or> contains (to_lower a) (to_lower p) \<or> contains (to_lower b) (to_lower p))
      \<longleftrightarrow> contains (to_lower a) (to_lower p) \<or> contains (to_lower b) (to_lower p)" for p a b
    by (auto simp: to_lower_def nil)
  have host: "(lq_HostID q = 0 \<or> h = lq_HostID q) \<longleftrightarrow> (lq_HostID q \<noteq> 0 \<longrightarrow> h = lq_HostID q)" for h by blast
  obtain ts e where r: "lr_columns r = (ts, e)" by fastforce
  show ?thesis unfolding log_matches_def wanted_def like_search Let_def status band f search host r prod.case ..
qed

lemma pages_tile: "concat (map (\<lambda>k. take L (drop (k * L) xs)) [0..<n]) = take (n * L) xs"
proof (induction n)
  case (Suc n)
  have "take (Suc n * L) xs = take (n * L) xs @ take L (drop (n * L) xs)"
    using take_add [of "n * L" L xs] by (simp add: add.commute)
  with Suc show ?case by simp
qed simp

text \<open>Whoever pages through the access log sees every request that was asked for exactly once, newest
  first, and no other: the pages follow each other without gap or overlap, and each reports how many there
  are. A search text is looked for as it is, ignoring case, even if it contains wildcards.\<close>

theorem access_log_pages:
  assumes "0 < L" "L \<le> nat MaxAccessLogPage"
  shows "(\<forall>k < n. \<exists>es. Log_Query None now (q\<lparr>lq_Limit := int L, lq_Offset := int (k * L)\<rparr>) t =
              Inr (es, length (filter (wanted now q) (lt_rows t)))) \<and>
         concat (map (\<lambda>k. case Log_Query None now (q\<lparr>lq_Limit := int L, lq_Offset := int (k * L)\<rparr>) t of
              Inr (es, _) \<Rightarrow> es | Inl _ \<Rightarrow> []) [0..<n])
         = take (n * L) (map log_entry (newest_first (filter (wanted now q) (lt_rows t))))"
proof -
  have w: "wanted now (q\<lparr>lq_Limit := l, lq_Offset := off\<rparr>) = wanted now q" for l off
    by (simp add: wanted_def fun_eq_iff)
  have "lq_Limit (AccessLogQuery_Normalize now (q\<lparr>lq_Limit := int L, lq_Offset := int (k * L)\<rparr>)) = int L"
    "lq_Offset (AccessLogQuery_Normalize now (q\<lparr>lq_Limit := int L, lq_Offset := int (k * L)\<rparr>)) = int (k * L)" for k
    using assms zero_le_mult_iff [of "int k" "int L"] by (auto simp: AccessLogQuery_Normalize_def Let_def MaxAccessLogPage_def simp del: of_nat_mult)
  then have "Log_Query None now (q\<lparr>lq_Limit := int L, lq_Offset := int (k * L)\<rparr>) t =
      Inr (take L (drop (k * L) (map log_entry (newest_first (filter (wanted now q) (lt_rows t))))), length (filter (wanted now q) (lt_rows t)))"
    for k
    unfolding Log_Query_def Let_def log_matches_wanted w by (simp only: nat_int option.case take_map drop_map)
  then show ?thesis by (simp add: pages_tile)
qed

section \<open>Accounting\<close>

fun recorded_in :: "writer_event list \<Rightarrow> access_log_entry list" where
  "recorded_in [] = []"
| "recorded_in (Recorded e # es) = e # recorded_in es"
| "recorded_in (_ # es) = recorded_in es"

lemma enumerate_columns: "map lr_columns (map (\<lambda>(k, e). \<lparr>lr_id = s + int k, lr_columns = columns_of e\<rparr>) (enumerate n es)) = map columns_of es"
  by (induction es arbitrary: n) simp_all

lemma Log_Prune_subseq: "subseq (lt_rows (fst (Log_Prune f1 f2 before mx t))) (lt_rows t)"
  by (auto simp: Log_Prune_def Let_def split: option.splits intro: subseq_filter_left subseq_order.trans)

lemma subseq_middle: "subseq (a @ c) (a @ b @ c)"
  by (metis list_emb_append2 subseq_append' subseq_order.order_refl)

definition writer_ok :: "log_table \<Rightarrow> access_log_entry list \<Rightarrow> writer \<Rightarrow> bool" where
  "writer_ok t recs w \<longleftrightarrow>
     subseq (map lr_columns (lt_rows (wr_table w)) @ map columns_of (wr_batch w @ wr_entries w))
       (map lr_columns (lt_rows t) @ map (\<lambda>e. columns_of (Truncate e)) recs)
     \<and> wr_written w + wr_dropped w + of_nat (length (wr_batch w) + length (wr_entries w)) = of_nat (length recs)
     \<and> length (wr_entries w) \<le> bufferSize \<and> (wr_phase w = Writing \<longrightarrow> length (wr_batch w) < batchSize)
     \<and> (wr_phase w = Returned \<longrightarrow> wr_batch w = [])"

lemma Log_Write_columns:
  "map lr_columns (lt_rows (fst (Log_Write fault es t))) = map lr_columns (lt_rows t) @ (if fault = None then map columns_of es else [])"
  "snd (Log_Write fault es t) = None \<longleftrightarrow> es = [] \<or> fault = None"
  using enumerate_columns [of "lt_seq t + 1" 0 es] by (simp_all add: Log_Write_def split: option.split)

lemma flush_batch_eq:
  "flush_batch fault w =
     (if wr_batch w = [] then w
      else w\<lparr>wr_table := fst (Log_Write fault (wr_batch w) (wr_table w)), wr_batch := [],
             wr_dropped := wr_dropped w + (if fault = None then 0 else of_nat (length (wr_batch w))),
             wr_written := wr_written w + (if fault = None then of_nat (length (wr_batch w)) else 0)\<rparr>)"
  using Log_Write_columns(2) [of fault "wr_batch w" "wr_table w"]
  by (auto simp: flush_batch_def split: prod.split option.split)

lemma flush_batch_subseq:
  "subseq (map lr_columns (lt_rows (wr_table (flush_batch fault w))) @ map columns_of (wr_batch (flush_batch fault w) @ wr_entries w))
     (map lr_columns (lt_rows (wr_table w)) @ map columns_of (wr_batch w @ wr_entries w))"
  by (simp add: flush_batch_eq Log_Write_columns subseq_middle)

lemma flush_batch_ok: "writer_ok t recs w \<Longrightarrow> writer_ok t recs (flush_batch fault w)"
  using flush_batch_subseq [of fault w] subseq_order.trans
  by (fastforce simp: writer_ok_def flush_batch_eq batchSize_def ac_simps)

lemma writer_step_ok:
  "writer_step w ev w' \<Longrightarrow> writer_ok t recs w \<Longrightarrow> writer_ok t (recs @ recorded_in [ev]) w'"
proof (induction rule: writer_step.induct)
  case (recorded w e)
  have "subseq (map lr_columns (lt_rows (wr_table w)) @ map columns_of (wr_batch w @ wr_entries w) @ xs)
      (map lr_columns (lt_rows t) @ map (\<lambda>e. columns_of (Truncate e)) recs @ ys)" if "subseq xs ys" for xs ys
    using list_emb_append_mono [OF conjunct1 [OF recorded [unfolded writer_ok_def]] that] by simp
  from this [of "[columns_of (Truncate e)]" "[columns_of (Truncate e)]"] this [of "[]" "[columns_of (Truncate e)]"]
  show ?case using recorded by (auto simp: writer_ok_def writer_Record_def ac_simps)
next
  case (received w e es w' fault)
  have "writer_ok t recs w'" if "length (wr_batch w') < batchSize"
    using received that by (auto simp: writer_ok_def ac_simps)
  moreover have "writer_ok t recs (flush_batch fault (w'\<lparr>wr_phase := Draining\<rparr>))"
    by (rule flush_batch_ok) (use received in \<open>auto simp: writer_ok_def ac_simps\<close>)
  then have "writer_ok t recs (flush_batch fault w')" if "batchSize \<le> length (wr_batch w')"
    using received that by (auto simp: flush_batch_eq writer_ok_def batchSize_def)
  ultimately show ?case by (simp add: not_le)
next
  case (prune_tick w fault1 fault2 now)
  have "subseq (map lr_columns (lt_rows (wr_table (writer_prune fault1 fault2 now w))) @ xs) (map lr_columns (lt_rows (wr_table w)) @ xs)" for xs
    by (rule list_emb_append_mono [OF subseq_map]) (simp_all add: writer_prune_def Log_Prune_subseq)
  from subseq_order.trans [OF this] prune_tick
  have "subseq (map lr_columns (lt_rows (wr_table (writer_prune fault1 fault2 now w))) @ map columns_of (wr_batch w @ wr_entries w))
      (map lr_columns (lt_rows t) @ map (\<lambda>e. columns_of (Truncate e)) recs)" by (simp add: writer_ok_def)
  with prune_tick show ?case by (simp add: writer_ok_def writer_prune_def)
next
  case (final_flush w fault)
  have "wr_batch (flush_batch fault w) = []"
    by (simp add: flush_batch_eq)
  with flush_batch_ok [OF final_flush(3), of fault] show ?case by (simp add: writer_ok_def)
next
  case (flush_tick w fault)
  then show ?case using flush_batch_ok [of t recs w fault] by simp
next
  case (cancelled w)
  then show ?case by (simp add: writer_ok_def)
next
  case (drained w e es)
  then show ?case by (simp add: writer_ok_def ac_simps)
qed

lemma writer_run_ok: "run writer_step w es w' \<Longrightarrow> writer_ok t recs w \<Longrightarrow> writer_ok t (recs @ recorded_in es) w'"
proof (induction arbitrary: recs rule: run.induct)
  case (run_step w e w1 es w2)
  have "recorded_in (e # es) = recorded_in [e] @ recorded_in es" by (cases e) simp_all
  with run_step.IH [OF writer_step_ok [OF run_step.hyps(1) run_step.prems]] show ?case by simp
qed simp

text \<open>C30. Every recorded request is accounted for: in any interleaving of requests, writes, failures, sweeps
  and the shutdown, each one is written, counted as dropped or still waiting. Rows are in the order of the
  requests, none is invented or doubled, the queue never exceeds its bound, and once the writer has returned
  nothing is left in its hands.\<close>

theorem writer_accounts:
  assumes "run writer_step (new_writer retention maxRows t) es w"
  shows "wr_written w + wr_dropped w + of_nat (length (wr_batch w) + length (wr_entries w)) = of_nat (length (recorded_in es)) \<and>
    subseq (map lr_columns (lt_rows (wr_table w)) @ map columns_of (wr_batch w @ wr_entries w))
      (map lr_columns (lt_rows t) @ map (\<lambda>e. columns_of (Truncate e)) (recorded_in es)) \<and>
    length (wr_entries w) \<le> bufferSize \<and> (wr_phase w = Writing \<longrightarrow> length (wr_batch w) < batchSize) \<and>
    (wr_phase w = Returned \<longrightarrow> wr_batch w = [])"
proof -
  have "writer_ok t [] (new_writer retention maxRows t)"
    by (simp add: writer_ok_def new_writer_def batchSize_def)
  from writer_run_ok [OF assms this] have "writer_ok t (recorded_in es) w" by simp
  then show ?thesis by (simp add: writer_ok_def)
qed

definition ex_entry :: "string \<Rightarrow> access_log_entry" where
  "ex_entry path = \<lparr>le_ID = 0, le_Timestamp = 5 * second, le_HostID = 1, le_Method = ''GET'', le_Path = path, le_Status = 200,
     le_DurationMS = 3, le_BytesOut = 10, le_ClientIP = ''10.0.0.1'', le_Upstream = [], le_UserAgent = [], le_Error = []\<rparr>"

definition ex_log :: log_table where "ex_log = \<lparr>lt_rows = [], lt_seq = 0\<rparr>"

theorem writer_accounts_witness:
  "\<exists>w. run writer_step (new_writer 0 0 ex_log) [Recorded (ex_entry ''/a''), Received None, Cancelled, FinalFlush None] w \<and>
     wr_written w + wr_dropped w + of_nat (length (wr_batch w) + length (wr_entries w)) = 1 \<and> wr_batch w = [] \<and> wr_phase w = Returned"
proof -
  let ?w0 = "new_writer 0 0 ex_log"
  define w1 where "w1 = writer_Record (ex_entry ''/a'') ?w0"
  define w2 where "w2 = w1\<lparr>wr_entries := [], wr_batch := [Truncate (ex_entry ''/a'')]\<rparr>"
  define w where "w = (flush_batch None (w2\<lparr>wr_phase := Draining\<rparr>))\<lparr>wr_phase := Returned\<rparr>"
  have w1: "wr_entries w1 = [Truncate (ex_entry ''/a'')]" "wr_batch w1 = []" "wr_phase w1 = Writing"
    by (simp_all add: w1_def writer_Record_def new_writer_def bufferSize_def)
  have "writer_step w1 (Received None) w2"
    using received [OF w1(3,1) refl, of None] w1(2) by (simp add: w2_def batchSize_def)
  moreover have "writer_step w2 Cancelled (w2\<lparr>wr_phase := Draining\<rparr>)" by (rule cancelled) (simp add: w2_def w1)
  moreover have "writer_step (w2\<lparr>wr_phase := Draining\<rparr>) (FinalFlush None) w"
    unfolding w_def by (rule final_flush) (simp_all add: w2_def)
  ultimately have r: "run writer_step ?w0 [Recorded (ex_entry ''/a''), Received None, Cancelled, FinalFlush None] w"
    using recorded [of ?w0 "ex_entry ''/a''"] unfolding w1_def [symmetric] by (blast intro: run.intros)
  moreover have "wr_phase w = Returned" by (simp add: w_def)
  ultimately show ?thesis using writer_accounts [OF r] by fastforce
qed

definition ex_query :: access_log_query where
  "ex_query = \<lparr>lq_HostID = 0, lq_From = None, lq_To = None, lq_StatusClass = 0, lq_Search = ''A%'', lq_FailedOnly = False, lq_Limit = 0, lq_Offset = 0\<rparr>"

definition ex_found :: log_table where
  "ex_found = fst (Log_Write None [ex_entry ''/ab'', ex_entry ''/a%b''] ex_log)"

text \<open>Of two rows, the search for \<^verbatim>\<open>A%\<close> finds the one that contains a percent sign.\<close>

theorem access_log_pages_witness:
  "concat (map (\<lambda>k. case Log_Query None (10 * second) (ex_query\<lparr>lq_Limit := int 1, lq_Offset := int (k * 1)\<rparr>) ex_found of
       Inr (es, _) \<Rightarrow> es | Inl _ \<Rightarrow> []) [0..<2]) = [(ex_entry ''/a%b'')\<lparr>le_ID := 2\<rparr>]"
proof -
  have rows: "lt_rows ex_found = [\<lparr>lr_id = 1, lr_columns = columns_of (ex_entry ''/ab'')\<rparr>, \<lparr>lr_id = 2, lr_columns = columns_of (ex_entry ''/a%b'')\<rparr>]"
    by (simp add: ex_found_def ex_log_def Log_Write_def)
  have t: "trim_space ''A%'' = ''A%''" "to_lower ''A%'' = ''a%''" "contains (to_lower ''/ab'') ''a%'' = False"
    "contains (to_lower ''/a%b'') ''a%'' = True" "contains (to_lower ''10.0.0.1'') ''a%'' = False" by code_simp+
  have "filter (wanted (10 * second) ex_query) (lt_rows ex_found) = [\<lparr>lr_id = 2, lr_columns = columns_of (ex_entry ''/a%b'')\<rparr>]"
    unfolding rows by (simp add: wanted_def columns_of_def ex_entry_def ex_query_def t unix_milli_def Let_def)
  then show ?thesis
    using access_log_pages [of 1 2 "10 * second" ex_query ex_found]
    by (simp add: MaxAccessLogPage_def newest_first_def log_entry_def columns_of_def ex_entry_def unix_milli_def from_unix_milli_def)
qed

end
