(* ===== verification/Store_Redirects.thy ===== *)
theory Store_Redirects
  imports Store_Children Domain_Redirect
begin

text \<open>The repository of redirects (\<^verbatim>\<open>store/redirects.go\<close>): one row per redirect and a child table of its
  domains. A domain belongs to one redirect only, and a trigger refuses one that a host has. The columns
  \<^verbatim>\<open>created_at\<close> and \<^verbatim>\<open>updated_at\<close>, which only the console shows, are left out.\<close>

record redirect_row =
  rx_name :: string
  rx_enabled :: bool
  rx_target :: string
  rx_status_code :: int
  rx_preserve_path :: bool
  rx_certificate_id :: "int option"

record redirects_db =
  rx_rows :: "(int \<times> redirect_row) list"
  rx_seq :: int
  rx_domains :: "(int \<times> string \<times> nat) list"

definition routedElsewhereMarker :: string where "routedElsewhereMarker = ''domain is already routed elsewhere''"

definition redirect_args :: "redirect \<Rightarrow> redirect_row" where
  "redirect_args rd =
     \<lparr>rx_name = rd_Name rd, rx_enabled = rd_Enabled rd, rx_target = rd_Target rd, rx_status_code = rd_StatusCode rd,
      rx_preserve_path = rd_PreservePath rd, rx_certificate_id = rd_CertificateID rd\<rparr>"

definition scanRedirect :: "int \<times> redirect_row \<Rightarrow> redirect" where
  "scanRedirect p =
     (case p of (i, r) \<Rightarrow>
        \<lparr>rd_ID = i, rd_Name = rx_name r, rd_Enabled = rx_enabled r, rd_Domains = [], rd_Target = rx_target r,
         rd_StatusCode = rx_status_code r, rd_PreservePath = rx_preserve_path r, rd_CertificateID = rx_certificate_id r\<rparr>)"

definition attach_redirect :: "redirects_db \<Rightarrow> redirect \<Rightarrow> redirect" where
  "attach_redirect t rd = rd\<lparr>rd_Domains := children_of (rd_ID rd) (rx_domains t)\<rparr>"

definition Redirects_List :: "string option \<Rightarrow> redirects_db \<Rightarrow> db_error + redirect list" where
  "Redirects_List fault t =
     (case fault of
        Some m \<Rightarrow> Inl (translateErr (Driver m))
      | None \<Rightarrow> Inr (map (\<lambda>p. attach_redirect t (scanRedirect p)) (sort_key (\<lambda>p. (rx_name (snd p), fst p)) (rx_rows t))))"

definition Redirects_Get :: "string option \<Rightarrow> int \<Rightarrow> redirects_db \<Rightarrow> db_error + redirect" where
  "Redirects_Get fault i t =
     (case fault of
        Some m \<Rightarrow> Inl (translateErr (Driver m))
      | None \<Rightarrow>
          (case map_of (rx_rows t) i of
             None \<Rightarrow> Inl (translateErr NoRows)
           | Some r \<Rightarrow> Inr (attach_redirect t (scanRedirect (i, r)))))"

text \<open>The message of the driver for a domain that is taken: the trigger's when a host has it, a violated
  constraint when a redirect has it.\<close>

definition claim_fault :: "(string \<Rightarrow> bool) \<Rightarrow> string \<Rightarrow> redirects_db \<Rightarrow> string option" where
  "claim_fault hosted d t =
     (if hosted d then Some (''constraint failed: '' @ routedElsewhereMarker @ '' (1811)'')
      else if d \<in> (\<lambda>(k, v, p). v) ` set (rx_domains t)
      then Some ''constraint failed: UNIQUE constraint failed: redirect_domains.domain (2067)''
      else None)"

definition redirectDomainConflict :: "string \<Rightarrow> string \<Rightarrow> db_error" where
  "redirectDomainConflict m d =
     (let translated = translateErr (Driver m)
      in if errorIsConflict translated \<or> contains m routedElsewhereMarker
         then ErrConflict (''conflict: domain '' @ [CHR 0x22] @ d @ [CHR 0x22] @ '' is already routed by another host or redirect'')
         else translated)"

fun writeRedirectDomains :: "(string \<Rightarrow> bool) \<Rightarrow> int \<Rightarrow> nat \<Rightarrow> string list \<Rightarrow> redirects_db \<Rightarrow> db_error + redirects_db" where
  "writeRedirectDomains hosted i p [] t = Inr t"
| "writeRedirectDomains hosted i p (d # ds) t =
     (case claim_fault hosted d t of
        Some m \<Rightarrow> Inl (redirectDomainConflict m d)
      | None \<Rightarrow> writeRedirectDomains hosted i (Suc p) ds (t\<lparr>rx_domains := rx_domains t @ [(i, d, p)]\<rparr>))"

definition redirect_refused :: "(int \<Rightarrow> bool) \<Rightarrow> redirect \<Rightarrow> string option" where
  "redirect_refused certificate rd =
     (if \<not> ValidRedirectStatus (rd_StatusCode rd) then Some ''constraint failed: CHECK constraint failed: status_code (275)''
      else if (case rd_CertificateID rd of None \<Rightarrow> False | Some c \<Rightarrow> \<not> certificate c)
      then Some ''constraint failed: FOREIGN KEY constraint failed (787)''
      else None)"

definition Redirects_Create ::
  "(int \<Rightarrow> bool) \<Rightarrow> (string \<Rightarrow> bool) \<Rightarrow> string option \<Rightarrow> redirect \<Rightarrow> redirects_db \<Rightarrow> redirects_db \<times> (db_error + redirect)" where
  "Redirects_Create certificate hosted fault rd t =
     (case (case fault of Some m \<Rightarrow> Some m | None \<Rightarrow> redirect_refused certificate rd) of
        Some m \<Rightarrow> (t, Inl (translateErr (Driver m)))
      | None \<Rightarrow>
          let i = rx_seq t + 1
          in case writeRedirectDomains hosted i 0 (rd_Domains rd)
                    (t\<lparr>rx_rows := rx_rows t @ [(i, redirect_args rd)], rx_seq := i\<rparr>) of
               Inl e \<Rightarrow> (t, Inl e)
             | Inr t' \<Rightarrow> (t', Inr (rd\<lparr>rd_ID := i\<rparr>)))"

definition Redirects_Update ::
  "(int \<Rightarrow> bool) \<Rightarrow> (string \<Rightarrow> bool) \<Rightarrow> string option \<Rightarrow> redirect \<Rightarrow> redirects_db \<Rightarrow> redirects_db \<times> (db_error + redirect)" where
  "Redirects_Update certificate hosted fault rd t =
     (case fault of
        Some m \<Rightarrow> (t, Inl (translateErr (Driver m)))
      | None \<Rightarrow>
          if map_of (rx_rows t) (rd_ID rd) = None then (t, Inl ErrNotFound)
          else case redirect_refused certificate rd of
            Some m \<Rightarrow> (t, Inl (translateErr (Driver m)))
          | None \<Rightarrow>
              (case writeRedirectDomains hosted (rd_ID rd) 0 (rd_Domains rd)
                      (t\<lparr>rx_rows := al_put (rd_ID rd) (redirect_args rd) (rx_rows t),
                         rx_domains := drop_children (rd_ID rd) (rx_domains t)\<rparr>) of
                 Inl e \<Rightarrow> (t, Inl e)
               | Inr t' \<Rightarrow> (t', Inr rd)))"

definition Redirects_Delete :: "string option \<Rightarrow> int \<Rightarrow> redirects_db \<Rightarrow> redirects_db \<times> db_error option" where
  "Redirects_Delete fault i t =
     (case fault of
        Some m \<Rightarrow> (t, Some (translateErr (Driver m)))
      | None \<Rightarrow>
          if map_of (rx_rows t) i = None then (t, Some ErrNotFound)
          else (t\<lparr>rx_rows := al_del i (rx_rows t), rx_domains := drop_children i (rx_domains t)\<rparr>, None))"

definition Redirects_CountByCertificate :: "string option \<Rightarrow> int \<Rightarrow> redirects_db \<Rightarrow> db_error + nat" where
  "Redirects_CountByCertificate fault c t =
     (case fault of
        Some m \<Rightarrow> Inl (translateErr (Driver m))
      | None \<Rightarrow> Inr (length (filter (\<lambda>(i, r). rx_certificate_id r = Some c) (rx_rows t))))"

section \<open>Who has a domain\<close>

text \<open>A write that goes through has named the domain in every conflict, and adds only domains nobody has.\<close>

lemma writeRedirectDomains_Inr:
  assumes "writeRedirectDomains hosted i p ds t = Inr t'"
  shows "t' = t\<lparr>rx_domains := rx_domains t @ map (\<lambda>(p, d). (i, d, p)) (enumerate p ds)\<rparr> \<and>
    (unique_claims (rx_domains t) \<longrightarrow> unique_claims (rx_domains t')) \<and> (\<forall>d \<in> set ds. \<not> hosted d)"
  using assms
proof (induction ds arbitrary: p t)
  case (Cons d ds)
  then have c: "claim_fault hosted d t = None"
    "writeRedirectDomains hosted i (Suc p) ds (t\<lparr>rx_domains := rx_domains t @ [(i, d, p)]\<rparr>) = Inr t'"
    by (auto split: option.splits)
  from Cons.IH [OF c(2)] c(1) show ?case
    by (auto simp: claim_fault_def split: if_splits)
qed simp

lemma writeRedirectDomains_Inl:
  "writeRedirectDomains hosted i p ds t = Inl e \<Longrightarrow>
     \<exists>d \<in> set ds. e = ErrConflict (''conflict: domain '' @ [CHR 0x22] @ d @ [CHR 0x22] @ '' is already routed by another host or redirect'')"
proof (induction ds arbitrary: p t)
  case (Cons d ds)
  show ?case
  proof (cases "claim_fault hosted d t")
    case None
    with Cons show ?thesis by fastforce
  next
    case (Some m)
    have "contains (''constraint failed: '' @ routedElsewhereMarker @ '' (1811)'') routedElsewhereMarker"
      "errorIsConflict (translateErr (Driver ''constraint failed: UNIQUE constraint failed: redirect_domains.domain (2067)''))"
      by code_simp+
    with Some Cons.prems show ?thesis by (auto simp: claim_fault_def redirectDomainConflict_def Let_def split: if_splits)
  qed
qed simp

section \<open>Every write\<close>

definition redirects_ok :: "redirects_db \<Rightarrow> bool" where
  "redirects_ok t \<longleftrightarrow> distinct (al_keys (rx_rows t)) \<and> (\<forall>i \<in> set (al_keys (rx_rows t)). i \<le> rx_seq t) \<and> unique_claims (rx_domains t)"

definition apart_from :: "(string \<Rightarrow> bool) \<Rightarrow> redirects_db \<Rightarrow> bool" where
  "apart_from hosted t \<longleftrightarrow> (\<forall>d \<in> claimed (rx_domains t). \<not> hosted d)"

lemma writeRedirectDomains_ok:
  assumes "writeRedirectDomains hosted i p ds t = Inr t'" "unique_claims (rx_domains t)" "apart_from hosted t"
  shows "rx_rows t' = rx_rows t \<and> rx_seq t' = rx_seq t \<and> unique_claims (rx_domains t') \<and> apart_from hosted t'"
proof -
  note w = writeRedirectDomains_Inr [OF assms(1)]
  then have "t' = t\<lparr>rx_domains := rx_domains t @ map (\<lambda>(p, d). (i, d, p)) (enumerate p ds)\<rparr>" by blast
  then have d: "rx_rows t' = rx_rows t" "rx_seq t' = rx_seq t"
    "rx_domains t' = rx_domains t @ map (\<lambda>(p, d). (i, d, p)) (enumerate p ds)" by simp_all
  have "claimed (rx_domains t') \<subseteq> claimed (rx_domains t) \<union> set ds"
    unfolding d by (force simp: in_set_enumerate_eq)
  with assms(2,3) w d show ?thesis unfolding apart_from_def by blast
qed

lemma apart_dropped: "apart_from hosted t \<Longrightarrow> apart_from hosted (t\<lparr>rx_rows := rs, rx_domains := drop_children i (rx_domains t)\<rparr>)"
  by (auto simp: apart_from_def drop_children_def)

lemma Redirects_Create_ok:
  assumes "redirects_ok t" "apart_from hosted t"
  shows "redirects_ok (fst (Redirects_Create certificate hosted fault rd t)) \<and> apart_from hosted (fst (Redirects_Create certificate hosted fault rd t))"
proof -
  let ?c = "t\<lparr>rx_rows := rx_rows t @ [(rx_seq t + 1, redirect_args rd)], rx_seq := rx_seq t + 1\<rparr>"
  have "redirects_ok t' \<and> apart_from hosted t'"
    if "writeRedirectDomains hosted (rx_seq t + 1) 0 (rd_Domains rd) ?c = Inr t'" for t'
    using writeRedirectDomains_ok [OF that] assms by (fastforce simp: redirects_ok_def apart_from_def)
  with assms show ?thesis
    by (simp add: Redirects_Create_def Let_def split: option.split sum.split)
qed

lemma Redirects_Update_ok:
  assumes "redirects_ok t" "apart_from hosted t"
  shows "redirects_ok (fst (Redirects_Update certificate hosted fault rd t)) \<and> apart_from hosted (fst (Redirects_Update certificate hosted fault rd t))"
proof -
  let ?u = "t\<lparr>rx_rows := al_put (rd_ID rd) (redirect_args rd) (rx_rows t), rx_domains := drop_children (rd_ID rd) (rx_domains t)\<rparr>"
  have "redirects_ok t' \<and> apart_from hosted t'"
    if w: "writeRedirectDomains hosted (rd_ID rd) 0 (rd_Domains rd) ?u = Inr t'" and r: "map_of (rx_rows t) (rd_ID rd) = Some r" for t' r
  proof -
    have "rd_ID rd \<le> rx_seq t" using map_of_SomeD [OF r] assms(1) by (force simp: redirects_ok_def)
    then show ?thesis
      using writeRedirectDomains_ok [OF w] assms unique_claims_dropped [of "rx_domains t" "rd_ID rd"] apart_dropped [OF assms(2)]
        distinct_al_put [of "rx_rows t"] set_keys_al_put [of "rd_ID rd" "redirect_args rd" "rx_rows t"]
      by (simp add: redirects_ok_def)
  qed
  with assms show ?thesis by (auto simp: Redirects_Update_def split: option.split sum.split)
qed

lemma Redirects_Delete_ok:
  assumes "redirects_ok t" "apart_from hosted t"
  shows "redirects_ok (fst (Redirects_Delete fault i t)) \<and> apart_from hosted (fst (Redirects_Delete fault i t))"
  using assms apart_dropped [OF assms(2)] unique_claims_dropped [of "rx_domains t" i]
  by (auto simp: Redirects_Delete_def redirects_ok_def al_del_def distinct_map_filter split: option.split)

end
