(* ===== verification/Store_AccessLists.thy ===== *)
theory Store_AccessLists
  imports Store_Children Domain_Access
begin

text \<open>The repository of access lists (\<^verbatim>\<open>store/accesslists.go\<close>): one row per list and child tables for its
  rules and its users, whose rows have ids of their own. The column \<^verbatim>\<open>created_at\<close>, which only the console
  shows, is left out.\<close>

record access_row =
  aw_name :: string
  aw_satisfy_any :: bool
  aw_updated_at :: int

record lists_db =
  li_rows :: "(int \<times> access_row) list"
  li_seq :: int
  li_rules :: "(int \<times> access_rule \<times> nat) list"
  li_ruleSeq :: int
  li_users :: "(int \<times> basic_auth_user \<times> nat) list"
  li_userSeq :: int

definition list_args :: "access_list \<Rightarrow> access_row" where
  "list_args l = \<lparr>aw_name = al_Name l, aw_satisfy_any = al_SatisfyAny l, aw_updated_at = unix (al_UpdatedAt l)\<rparr>"

definition scanAccessList :: "int \<times> access_row \<Rightarrow> access_list" where
  "scanAccessList p =
     (case p of (i, r) \<Rightarrow>
        \<lparr>al_ID = i, al_Name = aw_name r, al_SatisfyAny = aw_satisfy_any r, al_Rules = [], al_BasicAuth = [],
         al_UpdatedAt = from_unix (aw_updated_at r)\<rparr>)"

definition attachChildren :: "lists_db \<Rightarrow> access_list \<Rightarrow> access_list" where
  "attachChildren t l = l\<lparr>al_Rules := children_of (al_ID l) (li_rules t), al_BasicAuth := children_of (al_ID l) (li_users t)\<rparr>"

definition Lists_List :: "string option \<Rightarrow> lists_db \<Rightarrow> db_error + access_list list" where
  "Lists_List fault t =
     (case fault of
        Some m \<Rightarrow> Inl (translateErr (Driver m))
      | None \<Rightarrow> Inr (map (\<lambda>p. attachChildren t (scanAccessList p)) (sort_key (\<lambda>p. (aw_name (snd p), fst p)) (li_rows t))))"

definition Lists_Get :: "string option \<Rightarrow> int \<Rightarrow> lists_db \<Rightarrow> db_error + access_list" where
  "Lists_Get fault i t =
     (case fault of
        Some m \<Rightarrow> Inl (translateErr (Driver m))
      | None \<Rightarrow>
          (case map_of (li_rows t) i of
             None \<Rightarrow> Inl (translateErr NoRows)
           | Some r \<Rightarrow> Inr (attachChildren t (scanAccessList (i, r)))))"

text \<open>\<^verbatim>\<open>ruleConflict\<close> and \<^verbatim>\<open>userConflict\<close>, and the first entry of each loop that is refused.\<close>

definition ruleConflict :: "string \<Rightarrow> string \<Rightarrow> db_error" where
  "ruleConflict m cidr =
     (let translated = translateErr (Driver m)
      in if errorIsConflict translated then ErrConflict (''conflict: '' @ cidr @ '' is listed twice with the same action'') else translated)"

definition userConflict :: "string \<Rightarrow> string \<Rightarrow> db_error" where
  "userConflict m username =
     (let translated = translateErr (Driver m)
      in if errorIsConflict translated
         then ErrConflict (''conflict: user '' @ [CHR 0x22] @ username @ [CHR 0x22] @ '' is listed twice'') else translated)"

fun rules_fault :: "(string \<times> string) list \<Rightarrow> access_rule list \<Rightarrow> db_error option" where
  "rules_fault seen [] = None"
| "rules_fault seen (r # rs) =
     (if \<not> AccessAction_Valid (ar_Action r) then Some (ruleConflict ''constraint failed: CHECK constraint failed: action (275)'' (ar_CIDR r))
      else if (ar_Action r, ar_CIDR r) \<in> set seen
      then Some (ruleConflict ''constraint failed: UNIQUE constraint failed: access_list_rules.access_list_id (2067)'' (ar_CIDR r))
      else rules_fault ((ar_Action r, ar_CIDR r) # seen) rs)"

fun users_fault :: "string list \<Rightarrow> basic_auth_user list \<Rightarrow> db_error option" where
  "users_fault seen [] = None"
| "users_fault seen (u # us) =
     (if bu_Username u \<in> set seen
      then Some (userConflict ''constraint failed: UNIQUE constraint failed: access_list_users.access_list_id (2067)'' (bu_Username u))
      else users_fault (bu_Username u # seen) us)"

definition numbered_rules :: "int \<Rightarrow> int \<Rightarrow> access_rule list \<Rightarrow> access_rule list" where
  "numbered_rules i n rs = map (\<lambda>(k, r). r\<lparr>ar_ID := n + 1 + int k, ar_AccessListID := i\<rparr>) (enumerate 0 rs)"

definition numbered_users :: "int \<Rightarrow> int \<Rightarrow> basic_auth_user list \<Rightarrow> basic_auth_user list" where
  "numbered_users i n us = map (\<lambda>(k, u). u\<lparr>bu_ID := n + 1 + int k, bu_AccessListID := i\<rparr>) (enumerate 0 us)"

definition writeAccessListChildren :: "access_list \<Rightarrow> lists_db \<Rightarrow> db_error + lists_db \<times> access_list" where
  "writeAccessListChildren l t =
     (let i = al_ID l; rs = numbered_rules i (li_ruleSeq t) (al_Rules l); us = numbered_users i (li_userSeq t) (al_BasicAuth l)
      in case rules_fault [] (al_Rules l) of
           Some e \<Rightarrow> Inl e
         | None \<Rightarrow>
             (case users_fault [] (al_BasicAuth l) of
                Some e \<Rightarrow> Inl e
              | None \<Rightarrow>
                  Inr (t\<lparr>li_rules := li_rules t @ child_rows i rs, li_ruleSeq := li_ruleSeq t + int (length rs),
                         li_users := li_users t @ child_rows i us, li_userSeq := li_userSeq t + int (length us)\<rparr>,
                       l\<lparr>al_Rules := rs, al_BasicAuth := us\<rparr>)))"

definition Lists_Create :: "string option \<Rightarrow> time \<Rightarrow> access_list \<Rightarrow> lists_db \<Rightarrow> lists_db \<times> (db_error + access_list)" where
  "Lists_Create fault now l t =
     (case fault of
        Some m \<Rightarrow> (t, Inl (translateErr (Driver m)))
      | None \<Rightarrow>
          let l = l\<lparr>al_UpdatedAt := now, al_ID := li_seq t + 1\<rparr>
          in case writeAccessListChildren l (t\<lparr>li_rows := li_rows t @ [(al_ID l, list_args l)], li_seq := al_ID l\<rparr>) of
               Inl e \<Rightarrow> (t, Inl e)
             | Inr (t', l') \<Rightarrow> (t', Inr l'))"

definition Lists_Update :: "string option \<Rightarrow> time \<Rightarrow> access_list \<Rightarrow> lists_db \<Rightarrow> lists_db \<times> (db_error + access_list)" where
  "Lists_Update fault now l t =
     (case fault of
        Some m \<Rightarrow> (t, Inl (translateErr (Driver m)))
      | None \<Rightarrow>
          if map_of (li_rows t) (al_ID l) = None then (t, Inl ErrNotFound)
          else
            let l = l\<lparr>al_UpdatedAt := now\<rparr>
            in case writeAccessListChildren l
                      (t\<lparr>li_rows := al_put (al_ID l) (list_args l) (li_rows t), li_rules := drop_children (al_ID l) (li_rules t),
                         li_users := drop_children (al_ID l) (li_users t)\<rparr>) of
                 Inl e \<Rightarrow> (t, Inl e)
               | Inr (t', l') \<Rightarrow> (t', Inr l'))"

text \<open>\<open>guarding\<close> tells whether a host refers to the list.\<close>

definition Lists_Delete :: "(int \<Rightarrow> bool) \<Rightarrow> string option \<Rightarrow> int \<Rightarrow> lists_db \<Rightarrow> lists_db \<times> db_error option" where
  "Lists_Delete guarding fault i t =
     (case fault of
        Some m \<Rightarrow> (t, Some (translateErr (Driver m)))
      | None \<Rightarrow>
          if map_of (li_rows t) i = None then (t, Some ErrNotFound)
          else if guarding i then (t, Some (translateErr (Driver ''constraint failed: FOREIGN KEY constraint failed (787)'')))
          else (t\<lparr>li_rows := al_del i (li_rows t), li_rules := drop_children i (li_rules t), li_users := drop_children i (li_users t)\<rparr>, None))"

section \<open>Reading back\<close>

definition lists_ok :: "lists_db \<Rightarrow> bool" where
  "lists_ok t \<longleftrightarrow> distinct (al_keys (li_rows t)) \<and> (\<forall>i \<in> set (al_keys (li_rows t)). i \<le> li_seq t)
     \<and> (\<forall>x \<in> set (li_rules t). fst x \<in> set (al_keys (li_rows t))) \<and> (\<forall>x \<in> set (li_users t). fst x \<in> set (al_keys (li_rows t)))"

lemma child_owner: "x \<in> set (child_rows k vs) \<Longrightarrow> fst x = k"
  by (auto simp: child_rows_def)

lemma owners_in:
  "\<forall>x \<in> set rows. fst x \<in> K \<Longrightarrow> k \<in> K \<Longrightarrow> \<forall>x \<in> set (drop_children k rows @ child_rows k vs). fst x \<in> K"
  by (auto simp: drop_children_def dest: child_owner)

lemma no_children_outside:
  "\<forall>x \<in> set rows. fst x \<in> K \<Longrightarrow> k \<notin> K \<Longrightarrow> no_children k rows"
  by (fastforce simp: no_children_def)

text \<open>The list as it reads back: with the ids the store gave, and the time in whole seconds.\<close>

lemma writeAccessListChildren_reads:
  assumes "writeAccessListChildren l t = Inr (t', l')" "no_children (al_ID l) (li_rules t)" "no_children (al_ID l) (li_users t)"
  shows "li_rows t' = li_rows t \<and> li_seq t' = li_seq t \<and> al_ID l' = al_ID l \<and>
    li_rules t' = li_rules t @ child_rows (al_ID l) (al_Rules l') \<and> li_users t' = li_users t @ child_rows (al_ID l) (al_BasicAuth l') \<and>
    attachChildren t' (scanAccessList (al_ID l, list_args l)) = l'\<lparr>al_UpdatedAt := from_unix (unix (al_UpdatedAt l))\<rparr>"
proof -
  let ?i = "al_ID l"
  let ?rs = "numbered_rules ?i (li_ruleSeq t) (al_Rules l)" and ?us = "numbered_users ?i (li_userSeq t) (al_BasicAuth l)"
  have t': "t' = t\<lparr>li_rules := li_rules t @ child_rows ?i ?rs, li_ruleSeq := li_ruleSeq t + int (length ?rs),
      li_users := li_users t @ child_rows ?i ?us, li_userSeq := li_userSeq t + int (length ?us)\<rparr>"
    and l': "l' = l\<lparr>al_Rules := ?rs, al_BasicAuth := ?us\<rparr>"
    using assms(1) by (simp_all add: writeAccessListChildren_def Let_def split: option.splits)
  show ?thesis using assms(2,3)
    by (simp add: t' l' attachChildren_def scanAccessList_def list_args_def)
qed

lemma Lists_Create_reads:
  assumes "lists_ok t" "Lists_Create fault now l t = (t', Inr l')"
  shows "lists_ok t' \<and> al_ID l' = li_seq t + 1 \<and> Lists_Get None (al_ID l') t' = Inr (l'\<lparr>al_UpdatedAt := from_unix (unix now)\<rparr>)"
proof -
  let ?i = "li_seq t + 1"
  let ?l = "l\<lparr>al_UpdatedAt := now, al_ID := ?i\<rparr>"
  have w: "writeAccessListChildren ?l (t\<lparr>li_rows := li_rows t @ [(?i, list_args ?l)], li_seq := ?i\<rparr>) = Inr (t', l')"
    using assms(2) by (simp add: Lists_Create_def Let_def split: option.splits sum.splits prod.splits)
  have new: "?i \<notin> set (al_keys (li_rows t))" using assms(1) unfolding lists_ok_def by force
  have "\<forall>x \<in> set (li_rules t). fst x \<in> set (al_keys (li_rows t))" "\<forall>x \<in> set (li_users t). fst x \<in> set (al_keys (li_rows t))"
    using assms(1) unfolding lists_ok_def by blast+
  then have "no_children ?i (li_rules t)" "no_children ?i (li_users t)"
    using no_children_outside [OF _ new] by blast+
  with writeAccessListChildren_reads [OF w] have r: "li_rows t' = li_rows t @ [(?i, list_args ?l)]" "li_seq t' = ?i" "al_ID l' = ?i"
    "li_rules t' = li_rules t @ child_rows ?i (al_Rules l')" "li_users t' = li_users t @ child_rows ?i (al_BasicAuth l')"
    "attachChildren t' (scanAccessList (?i, list_args ?l)) = l'\<lparr>al_UpdatedAt := from_unix (unix now)\<rparr>" by simp_all
  have "map_of (li_rows t) ?i = None" using new by (simp add: map_of_eq_None_iff)
  then have "map_of (li_rows t') ?i = Some (list_args ?l)" unfolding r(1) by (simp add: map_add_def)
  then have "Lists_Get None (al_ID l') t' = Inr (l'\<lparr>al_UpdatedAt := from_unix (unix now)\<rparr>)"
    using r(3,6) by (simp add: Lists_Get_def)
  moreover have "lists_ok t'"
    using assms(1) new unfolding lists_ok_def r by (auto dest: child_owner)
  ultimately show ?thesis using r(3) by simp
qed

lemma Lists_Update_reads:
  assumes "lists_ok t" "Lists_Update fault now l t = (t', Inr l')"
  shows "lists_ok t' \<and> al_ID l' = al_ID l \<and> Lists_Get None (al_ID l') t' = Inr (l'\<lparr>al_UpdatedAt := from_unix (unix now)\<rparr>)"
proof -
  let ?l = "l\<lparr>al_UpdatedAt := now\<rparr>"
  let ?t = "t\<lparr>li_rows := al_put (al_ID l) (list_args ?l) (li_rows t), li_rules := drop_children (al_ID l) (li_rules t),
         li_users := drop_children (al_ID l) (li_users t)\<rparr>"
  have w: "writeAccessListChildren ?l ?t = Inr (t', l')" and "map_of (li_rows t) (al_ID l) \<noteq> None"
    using assms(2) by (auto simp: Lists_Update_def Let_def split: option.splits sum.splits prod.splits if_splits)
  then have i: "al_ID l \<in> set (al_keys (li_rows t))" by (metis map_of_eq_None_iff set_map)
  have r: "li_rows t' = al_put (al_ID l) (list_args ?l) (li_rows t)" "li_seq t' = li_seq t" "al_ID l' = al_ID l"
    "li_rules t' = drop_children (al_ID l) (li_rules t) @ child_rows (al_ID l) (al_Rules l')"
    "li_users t' = drop_children (al_ID l) (li_users t) @ child_rows (al_ID l) (al_BasicAuth l')"
    "attachChildren t' (scanAccessList (al_ID l, list_args ?l)) = l'\<lparr>al_UpdatedAt := from_unix (unix now)\<rparr>"
    using writeAccessListChildren_reads [OF w] by simp_all
  have keys: "set (al_keys (li_rows t')) = set (al_keys (li_rows t))"
    using i set_keys_al_put [of "al_ID l" "list_args ?l" "li_rows t"] unfolding r(1) by auto
  have "Lists_Get None (al_ID l') t' = Inr (l'\<lparr>al_UpdatedAt := from_unix (unix now)\<rparr>)"
    using r(1,3,6) by (simp add: Lists_Get_def)
  moreover have "\<forall>x \<in> set (li_rules t'). fst x \<in> set (al_keys (li_rows t))" "\<forall>x \<in> set (li_users t'). fst x \<in> set (al_keys (li_rows t))"
    using assms(1) i unfolding lists_ok_def r(4,5) by (intro owners_in; blast)+
  moreover have "distinct (al_keys (li_rows t'))" unfolding r(1) using assms(1) distinct_al_put by (auto simp: lists_ok_def)
  ultimately show ?thesis using assms(1) keys r(2,3) by (simp add: lists_ok_def)
qed

end
