(* ===== verification/Api_Config.thy ===== *)
theory Api_Config
  imports Store_Hosts Store_Redirects Store_AccessLists Store_Certificates Api_Users Proxy_Engine
begin

text \<open>The configuration endpoints (\<^verbatim>\<open>api/hosts.go\<close>, \<^verbatim>\<open>api/redirects.go\<close>, \<^verbatim>\<open>api/accesslists.go\<close>) and
  \<^verbatim>\<open>applyConfig\<close> of \<^verbatim>\<open>cmd/ponzproxy/main.go\<close>, which carries the stored configuration to the data plane
  after every change. A handler gets its body decoded, or the error of decoding it; \<open>io\<close> gives the failure
  of each database call. A reply is a status with what is sent, or the error that \<^const>\<open>writeError\<close> renders.\<close>

section \<open>Payloads\<close>

record upstream_payload =
  pu_Scheme :: string
  pu_Address :: string
  pu_Weight :: int
  pu_MaxConns :: int
  pu_Enabled :: bool
  pu_SkipTLSVerify :: bool

record location_payload =
  pl_Path :: string
  pl_StripPrefix :: bool
  pl_Upstreams :: "upstream_payload list"
  pl_Headers :: headers

record health_check_payload =
  pc_Enabled :: bool
  pc_Path :: string
  pc_IntervalSeconds :: int
  pc_TimeoutSeconds :: int
  pc_HealthyThreshold :: int
  pc_UnhealthyThreshold :: int
  pc_ExpectStatus :: int

record cache_payload =
  pk_Enabled :: bool
  pk_Paths :: "string list"
  pk_TTLSeconds :: int
  pk_MaxTTLSeconds :: int
  pk_MaxObjectBytes :: int
  pk_MaxBytes :: int

record host_payload =
  ph_Name :: string
  ph_IsEnabled :: bool
  ph_Domains :: "string list"
  ph_Algorithm :: Algorithm
  ph_Upstreams :: "upstream_payload list"
  ph_CertificateID :: "int option"
  ph_AccessListID :: "int option"
  ph_ForceHTTPS :: bool
  ph_HSTSMaxAge :: int
  ph_WebSocketSupport :: bool
  ph_PreserveHost :: bool
  ph_HealthCheck :: health_check_payload
  ph_PassiveHealth :: "bool \<times> int \<times> int"
  ph_AccessLog :: access_log_settings
  ph_Guardian :: guardian
  ph_Cache :: cache_payload
  ph_TrafficLimits :: "mode \<times> int \<times> int \<times> int \<times> int \<times> string list"
  ph_Maintenance :: maintenance
  ph_ErrorPages :: error_pages
  ph_UsageAlert :: usage_alert
  ph_Locations :: "location_payload list"
  ph_Headers :: headers
  ph_Compression :: compression

text \<open>A duration has 64 bits: a number of seconds that is too large wraps around.\<close>

definition secondsToDuration :: "int \<Rightarrow> duration" where
  "secondsToDuration s = (if s \<le> 0 then 0 else wrap64 (s * second))"

definition upstream_of :: "upstream_payload \<Rightarrow> upstream" where
  "upstream_of u =
     \<lparr>u_ID = 0, u_HostID = 0, u_Scheme = pu_Scheme u, u_Address = pu_Address u, u_Weight = pu_Weight u,
      u_MaxConns = pu_MaxConns u, u_Enabled = pu_Enabled u, u_SkipTLSVerify = pu_SkipTLSVerify u\<rparr>"

definition location_of :: "location_payload \<Rightarrow> location" where
  "location_of l =
     \<lparr>lc_ID = 0, lc_HostID = 0, lc_Path = pl_Path l, lc_StripPrefix = pl_StripPrefix l,
      lc_Upstreams = map upstream_of (pl_Upstreams l), lc_Headers = pl_Headers l, lc_Position = 0\<rparr>"

definition host_toDomain :: "host_payload \<Rightarrow> host" where
  "host_toDomain p =
     \<lparr>h_ID = 0, h_Name = ph_Name p, h_Enabled = ph_IsEnabled p, h_Domains = ph_Domains p, h_Algorithm = ph_Algorithm p,
      h_Upstreams = map upstream_of (ph_Upstreams p), h_CertificateID = ph_CertificateID p, h_AccessListID = ph_AccessListID p,
      h_ForceHTTPS = ph_ForceHTTPS p, h_HSTSMaxAge = ph_HSTSMaxAge p, h_WebSocketSupport = ph_WebSocketSupport p,
      h_PreserveHost = ph_PreserveHost p,
      h_HealthCheck = (let c = ph_HealthCheck p in
        \<lparr>hc_Enabled = pc_Enabled c, hc_Path = pc_Path c, hc_Interval = secondsToDuration (pc_IntervalSeconds c),
         hc_Timeout = secondsToDuration (pc_TimeoutSeconds c), hc_HealthyThreshold = pc_HealthyThreshold c,
         hc_UnhealthyThreshold = pc_UnhealthyThreshold c, hc_ExpectStatus = pc_ExpectStatus c\<rparr>),
      h_PassiveHealth = (case ph_PassiveHealth p of (e, m, s) \<Rightarrow> \<lparr>ph_Enabled = e, ph_MaxFails = m, ph_EjectFor = secondsToDuration s\<rparr>),
      h_AccessLog = ph_AccessLog p, h_Guardian = ph_Guardian p,
      h_Cache = (let c = ph_Cache p in
        \<lparr>cf_Enabled = pk_Enabled c, cf_Paths = pk_Paths c, cf_TTL = secondsToDuration (pk_TTLSeconds c),
         cf_MaxTTL = secondsToDuration (pk_MaxTTLSeconds c), cf_MaxObjectBytes = pk_MaxObjectBytes c, cf_MaxBytes = pk_MaxBytes c\<rparr>),
      h_TrafficLimits = (case ph_TrafficLimits p of (m, rps, b, c, mb, ex) \<Rightarrow>
        \<lparr>tl_Mode = m, tl_RequestsPerSecond = rps, tl_Burst = b, tl_MaxConcurrent = c, tl_MaxBodyBytes = mb, tl_Exempt = ex, tl_exempt = []\<rparr>),
      h_Maintenance = ph_Maintenance p, h_ErrorPages = ph_ErrorPages p, h_UsageAlert = ph_UsageAlert p,
      h_Locations = map location_of (ph_Locations p), h_Headers = ph_Headers p, h_Compression = ph_Compression p\<rparr>"

record redirect_payload =
  pr_Name :: string
  pr_Enabled :: bool
  pr_Domains :: "string list"
  pr_Target :: string
  pr_StatusCode :: int
  pr_PreservePath :: bool
  pr_CertificateID :: "int option"

definition redirect_toDomain :: "redirect_payload \<Rightarrow> redirect" where
  "redirect_toDomain p =
     \<lparr>rd_ID = 0, rd_Name = pr_Name p, rd_Enabled = pr_Enabled p, rd_Domains = pr_Domains p, rd_Target = pr_Target p,
      rd_StatusCode = pr_StatusCode p, rd_PreservePath = pr_PreservePath p, rd_CertificateID = pr_CertificateID p\<rparr>"

record list_payload =
  pa_Name :: string
  pa_SatisfyAny :: bool
  pa_Rules :: "(access_action \<times> string) list"
  pa_BasicAuth :: "(string \<times> string) list"

section \<open>Configuration and its application\<close>

record control_plane =
  ctl_hosts :: hosts_db
  ctl_redirects :: redirects_db
  ctl_lists :: lists_db
  ctl_certs :: certs_table
  ctl_plane :: data_plane

datatype config_call = WHost | WRedirect | WList | RHost | RRedirect | RAccess | RCert | RUsing | AHosts | ARedirects | ALists

type_synonym config_io = "config_call \<Rightarrow> string option"

datatype config_body =
    NoBody
  | OneHost host
  | AllHosts "host list"
  | OneRedirect redirect
  | AllRedirects "redirect list"
  | OneList access_list nat
  | AllLists "(access_list \<times> nat) list"

type_synonym config_reply = "api_error + int \<times> config_body"

definition has_certificate :: "control_plane \<Rightarrow> int \<Rightarrow> bool" where
  "has_certificate c i \<longleftrightarrow> map_of (ct_rows (ctl_certs c)) i \<noteq> None"

definition has_list :: "control_plane \<Rightarrow> int \<Rightarrow> bool" where
  "has_list c i \<longleftrightarrow> map_of (li_rows (ctl_lists c)) i \<noteq> None"

definition hosted :: "control_plane \<Rightarrow> string \<Rightarrow> bool" where
  "hosted c d \<longleftrightarrow> d \<in> claimed (hd_domains (ctl_hosts c))"

definition redirected :: "control_plane \<Rightarrow> string \<Rightarrow> bool" where
  "redirected c d \<longleftrightarrow> d \<in> claimed (rx_domains (ctl_redirects c))"

definition host_refs :: "control_plane \<Rightarrow> references" where
  "host_refs c = \<lparr>rf_certificate = has_certificate c, rf_accessList = has_list c, rf_redirected = redirected c\<rparr>"

definition guarding :: "control_plane \<Rightarrow> int \<Rightarrow> nat" where
  "guarding c i = length (filter (\<lambda>(k, r). hw_access_list_id r = Some i) (hd_rows (ctl_hosts c)))"

text \<open>The three queries of \<^verbatim>\<open>applyConfig\<close>.\<close>

definition load_config :: "config_io \<Rightarrow> control_plane \<Rightarrow> db_error + config" where
  "load_config io c =
     (case Hosts_List (io AHosts) (ctl_hosts c) of
        Inl e \<Rightarrow> Inl e
      | Inr hosts \<Rightarrow>
          (case Redirects_List (io ARedirects) (ctl_redirects c) of
             Inl e \<Rightarrow> Inl e
           | Inr redirects \<Rightarrow>
               (case Lists_List (io ALists) (ctl_lists c) of
                  Inl e \<Rightarrow> Inl e
                | Inr ls \<Rightarrow>
                    Inr \<lparr>cfg_Hosts = hosts, cfg_Redirects = redirects,
                         cfg_AccessLists = foldl (\<lambda>m l. m(al_ID l \<mapsto> l)) Map.empty ls\<rparr>)))"

definition publish :: "(string \<Rightarrow> 64 word) \<Rightarrow> config \<Rightarrow> control_plane \<Rightarrow> control_plane" where
  "publish hash cfg c = c\<lparr>ctl_plane := Reload hash cfg (ctl_plane c)\<rparr>"

text \<open>A failure is only logged.\<close>

definition applyConfig :: "(string \<Rightarrow> 64 word) \<Rightarrow> config_io \<Rightarrow> control_plane \<Rightarrow> control_plane" where
  "applyConfig hash io c = (case load_config io c of Inl _ \<Rightarrow> c | Inr cfg \<Rightarrow> publish hash cfg c)"

section \<open>Hosts\<close>

definition certificate_known :: "config_io \<Rightarrow> control_plane \<Rightarrow> int option \<Rightarrow> api_error option" where
  "certificate_known io c cert =
     (case cert of
        None \<Rightarrow> None
      | Some i \<Rightarrow>
          (case Certs_Get (io RCert) i (ctl_certs c) of
             Inr _ \<Rightarrow> None
           | Inl ErrNotFound \<Rightarrow> Some (Invalid (v_Add ''certificateId'' ''no certificate has id %d'' [FInt i] []))
           | Inl e \<Rightarrow> Some (Db e)))"

definition prepareHost :: "config_io \<Rightarrow> control_plane \<Rightarrow> host \<Rightarrow> api_error + host" where
  "prepareHost io c h0 =
     (let h = Host_Normalize h0
      in case Host_Validate h of
           None \<Rightarrow> Inl (Internal ''panic'')
         | Some (Some v) \<Rightarrow> Inl (Invalid v)
         | Some None \<Rightarrow>
             (case certificate_known io c (h_CertificateID h) of
                Some e \<Rightarrow> Inl e
              | None \<Rightarrow>
                  (case h_AccessListID h of
                     None \<Rightarrow> Inr h
                   | Some i \<Rightarrow>
                       (case Lists_Get (io RAccess) i (ctl_lists c) of
                          Inr _ \<Rightarrow> Inr h
                        | Inl ErrNotFound \<Rightarrow> Inl (Invalid (v_Add ''accessListId'' ''no access list has id %d'' [FInt i] []))
                        | Inl e \<Rightarrow> Inl (Db e)))))"

definition handleListHosts :: "config_io \<Rightarrow> control_plane \<Rightarrow> config_reply" where
  "handleListHosts io c = (case Hosts_List (io RHost) (ctl_hosts c) of Inl e \<Rightarrow> Inl (Db e) | Inr hs \<Rightarrow> Inr (200, AllHosts hs))"

definition handleGetHost :: "config_io \<Rightarrow> string \<Rightarrow> control_plane \<Rightarrow> config_reply" where
  "handleGetHost io raw c =
     (case pathID raw of
        Inl e \<Rightarrow> Inl e
      | Inr i \<Rightarrow> (case Hosts_Get (io RHost) i (ctl_hosts c) of Inl e \<Rightarrow> Inl (Db e) | Inr h \<Rightarrow> Inr (200, OneHost h)))"

definition handleCreateHost :: "(string \<Rightarrow> 64 word) \<Rightarrow> config_io \<Rightarrow> string + host_payload \<Rightarrow> control_plane \<Rightarrow> control_plane \<times> config_reply" where
  "handleCreateHost hash io body c =
     (case body of
        Inl e \<Rightarrow> (c, Inl (bad_request e))
      | Inr p \<Rightarrow>
          (case prepareHost io c (host_toDomain p) of
             Inl e \<Rightarrow> (c, Inl e)
           | Inr h \<Rightarrow>
               (case Hosts_Create (host_refs c) (io WHost) h (ctl_hosts c) of
                  (db, Inl e) \<Rightarrow> (c\<lparr>ctl_hosts := db\<rparr>, Inl (Db e))
                | (db, Inr h) \<Rightarrow> (applyConfig hash io (c\<lparr>ctl_hosts := db\<rparr>), Inr (201, OneHost h)))))"

definition handleUpdateHost ::
  "(string \<Rightarrow> 64 word) \<Rightarrow> config_io \<Rightarrow> string \<Rightarrow> string + host_payload \<Rightarrow> control_plane \<Rightarrow> control_plane \<times> config_reply" where
  "handleUpdateHost hash io raw body c =
     (case pathID raw of
        Inl e \<Rightarrow> (c, Inl e)
      | Inr i \<Rightarrow>
          (case body of
             Inl e \<Rightarrow> (c, Inl (bad_request e))
           | Inr p \<Rightarrow>
               (case prepareHost io c ((host_toDomain p)\<lparr>h_ID := i\<rparr>) of
                  Inl e \<Rightarrow> (c, Inl e)
                | Inr h \<Rightarrow>
                    (case Hosts_Update (host_refs c) (io WHost) h (ctl_hosts c) of
                       (db, Inl e) \<Rightarrow> (c\<lparr>ctl_hosts := db\<rparr>, Inl (Db e))
                     | (db, Inr h) \<Rightarrow> (applyConfig hash io (c\<lparr>ctl_hosts := db\<rparr>), Inr (200, OneHost h))))))"

definition handleDeleteHost :: "(string \<Rightarrow> 64 word) \<Rightarrow> config_io \<Rightarrow> string \<Rightarrow> control_plane \<Rightarrow> control_plane \<times> config_reply" where
  "handleDeleteHost hash io raw c =
     (case pathID raw of
        Inl e \<Rightarrow> (c, Inl e)
      | Inr i \<Rightarrow>
          (case Hosts_Delete (io WHost) i (ctl_hosts c) of
             (db, Some e) \<Rightarrow> (c\<lparr>ctl_hosts := db\<rparr>, Inl (Db e))
           | (db, None) \<Rightarrow> (applyConfig hash io (c\<lparr>ctl_hosts := db\<rparr>), Inr (204, NoBody))))"

section \<open>Redirects\<close>

text \<open>\<open>urls\<close> are \<^verbatim>\<open>url.Parse\<close> and \<^verbatim>\<open>URL.String\<close>.\<close>

type_synonym url_ops = "(string \<Rightarrow> url option) \<times> (url \<Rightarrow> string)"

definition prepareRedirect :: "url_ops \<Rightarrow> config_io \<Rightarrow> control_plane \<Rightarrow> redirect \<Rightarrow> api_error + redirect" where
  "prepareRedirect urls io c rd0 =
     (let rd = Redirect_Normalize (fst urls) (snd urls) rd0
      in case Redirect_Validate (fst urls) rd of
           Some v \<Rightarrow> Inl (Invalid v)
         | None \<Rightarrow> (case certificate_known io c (rd_CertificateID rd) of Some e \<Rightarrow> Inl e | None \<Rightarrow> Inr rd))"

definition handleListRedirects :: "config_io \<Rightarrow> control_plane \<Rightarrow> config_reply" where
  "handleListRedirects io c =
     (case Redirects_List (io RRedirect) (ctl_redirects c) of Inl e \<Rightarrow> Inl (Db e) | Inr rds \<Rightarrow> Inr (200, AllRedirects rds))"

definition handleGetRedirect :: "config_io \<Rightarrow> string \<Rightarrow> control_plane \<Rightarrow> config_reply" where
  "handleGetRedirect io raw c =
     (case pathID raw of
        Inl e \<Rightarrow> Inl e
      | Inr i \<Rightarrow> (case Redirects_Get (io RRedirect) i (ctl_redirects c) of Inl e \<Rightarrow> Inl (Db e) | Inr rd \<Rightarrow> Inr (200, OneRedirect rd)))"

definition handleCreateRedirect ::
  "(string \<Rightarrow> 64 word) \<Rightarrow> url_ops \<Rightarrow> config_io \<Rightarrow> string + redirect_payload \<Rightarrow> control_plane \<Rightarrow> control_plane \<times> config_reply" where
  "handleCreateRedirect hash urls io body c =
     (case body of
        Inl e \<Rightarrow> (c, Inl (bad_request e))
      | Inr p \<Rightarrow>
          (case prepareRedirect urls io c (redirect_toDomain p) of
             Inl e \<Rightarrow> (c, Inl e)
           | Inr rd \<Rightarrow>
               (case Redirects_Create (has_certificate c) (hosted c) (io WRedirect) rd (ctl_redirects c) of
                  (t, Inl e) \<Rightarrow> (c\<lparr>ctl_redirects := t\<rparr>, Inl (Db e))
                | (t, Inr rd) \<Rightarrow> (applyConfig hash io (c\<lparr>ctl_redirects := t\<rparr>), Inr (201, OneRedirect rd)))))"

definition handleUpdateRedirect ::
  "(string \<Rightarrow> 64 word) \<Rightarrow> url_ops \<Rightarrow> config_io \<Rightarrow> string \<Rightarrow> string + redirect_payload \<Rightarrow> control_plane \<Rightarrow> control_plane \<times> config_reply" where
  "handleUpdateRedirect hash urls io raw body c =
     (case pathID raw of
        Inl e \<Rightarrow> (c, Inl e)
      | Inr i \<Rightarrow>
          (case body of
             Inl e \<Rightarrow> (c, Inl (bad_request e))
           | Inr p \<Rightarrow>
               (case prepareRedirect urls io c ((redirect_toDomain p)\<lparr>rd_ID := i\<rparr>) of
                  Inl e \<Rightarrow> (c, Inl e)
                | Inr rd \<Rightarrow>
                    (case Redirects_Update (has_certificate c) (hosted c) (io WRedirect) rd (ctl_redirects c) of
                       (t, Inl e) \<Rightarrow> (c\<lparr>ctl_redirects := t\<rparr>, Inl (Db e))
                     | (t, Inr rd) \<Rightarrow> (applyConfig hash io (c\<lparr>ctl_redirects := t\<rparr>), Inr (200, OneRedirect rd))))))"

definition handleDeleteRedirect :: "(string \<Rightarrow> 64 word) \<Rightarrow> config_io \<Rightarrow> string \<Rightarrow> control_plane \<Rightarrow> control_plane \<times> config_reply" where
  "handleDeleteRedirect hash io raw c =
     (case pathID raw of
        Inl e \<Rightarrow> (c, Inl e)
      | Inr i \<Rightarrow>
          (case Redirects_Delete (io WRedirect) i (ctl_redirects c) of
             (t, Some e) \<Rightarrow> (c\<lparr>ctl_redirects := t\<rparr>, Inl (Db e))
           | (t, None) \<Rightarrow> (applyConfig hash io (c\<lparr>ctl_redirects := t\<rparr>), Inr (204, NoBody))))"

section \<open>Access lists\<close>

definition HostsUsing :: "string option \<Rightarrow> int \<Rightarrow> control_plane \<Rightarrow> db_error + nat" where
  "HostsUsing fault i c = (case fault of Some m \<Rightarrow> Inl (translateErr (Driver m)) | None \<Rightarrow> Inr (guarding c i))"

definition viewOf :: "config_io \<Rightarrow> control_plane \<Rightarrow> access_list \<Rightarrow> access_list \<times> nat" where
  "viewOf io c l = (l, case HostsUsing (io RUsing) (al_ID l) c of Inr n \<Rightarrow> n | Inl _ \<Rightarrow> 0)"

definition storedHashes :: "access_list option \<Rightarrow> string \<Rightarrow> string" where
  "storedHashes existing u =
     (case existing of
        None \<Rightarrow> []
      | Some l \<Rightarrow> (case find (\<lambda>b. bu_Username b = u) (rev (al_BasicAuth l)) of Some b \<Rightarrow> bu_PasswordHash b | None \<Rightarrow> []))"

fun prepare_users :: "crypto \<Rightarrow> access_list option \<Rightarrow> (string \<times> string) list \<Rightarrow> api_error + basic_auth_user list" where
  "prepare_users cr existing [] = Inr []"
| "prepare_users cr existing ((name, password) # us) =
     (case (if password \<noteq> [] then hashPasswordAt cr password else Inr (storedHashes existing name)) of
        Inl e \<Rightarrow> Inl e
      | Inr hash \<Rightarrow>
          (case prepare_users cr existing us of
             Inl e \<Rightarrow> Inl e
           | Inr bs \<Rightarrow> Inr (\<lparr>bu_ID = 0, bu_AccessListID = 0, bu_Username = name, bu_PasswordHash = hash\<rparr> # bs)))"

definition prepareList :: "crypto \<Rightarrow> list_payload \<Rightarrow> access_list option \<Rightarrow> api_error + access_list" where
  "prepareList cr p existing =
     (case prepare_users cr existing (pa_BasicAuth p) of
        Inl e \<Rightarrow> Inl e
      | Inr users \<Rightarrow>
          let l = AccessList_Normalize
                    \<lparr>al_ID = 0, al_Name = pa_Name p, al_SatisfyAny = pa_SatisfyAny p,
                     al_Rules = map (\<lambda>(action, cidr). \<lparr>ar_ID = 0, ar_AccessListID = 0, ar_Action = action, ar_CIDR = cidr\<rparr>) (pa_Rules p),
                     al_BasicAuth = users, al_UpdatedAt = 0\<rparr>
          in case AccessList_Validate l of Some v \<Rightarrow> Inl (Invalid v) | None \<Rightarrow> Inr l)"

definition HandleListLists :: "config_io \<Rightarrow> control_plane \<Rightarrow> config_reply" where
  "HandleListLists io c =
     (case Lists_List (io RAccess) (ctl_lists c) of Inl e \<Rightarrow> Inl (Db e) | Inr ls \<Rightarrow> Inr (200, AllLists (map (viewOf io c) ls)))"

definition HandleGetList :: "config_io \<Rightarrow> string \<Rightarrow> control_plane \<Rightarrow> config_reply" where
  "HandleGetList io raw c =
     (case pathID raw of
        Inl e \<Rightarrow> Inl e
      | Inr i \<Rightarrow>
          (case Lists_Get (io RAccess) i (ctl_lists c) of
             Inl e \<Rightarrow> Inl (Db e)
           | Inr l \<Rightarrow> (case viewOf io c l of (l, n) \<Rightarrow> Inr (200, OneList l n))))"

definition HandleCreateList ::
  "(string \<Rightarrow> 64 word) \<Rightarrow> crypto \<Rightarrow> time \<Rightarrow> config_io \<Rightarrow> string + list_payload \<Rightarrow> control_plane \<Rightarrow> control_plane \<times> config_reply" where
  "HandleCreateList hash cr now io body c =
     (case body of
        Inl e \<Rightarrow> (c, Inl (bad_request e))
      | Inr p \<Rightarrow>
          (case prepareList cr p None of
             Inl e \<Rightarrow> (c, Inl e)
           | Inr l \<Rightarrow>
               (case Lists_Create (io WList) now l (ctl_lists c) of
                  (t, Inl e) \<Rightarrow> (c\<lparr>ctl_lists := t\<rparr>, Inl (Db e))
                | (t, Inr l) \<Rightarrow>
                    let c = applyConfig hash io (c\<lparr>ctl_lists := t\<rparr>)
                    in (c, case viewOf io c l of (l, n) \<Rightarrow> Inr (201, OneList l n)))))"

definition HandleUpdateList ::
  "(string \<Rightarrow> 64 word) \<Rightarrow> crypto \<Rightarrow> time \<Rightarrow> config_io \<Rightarrow> string \<Rightarrow> string + list_payload \<Rightarrow> control_plane \<Rightarrow> control_plane \<times> config_reply" where
  "HandleUpdateList hash cr now io raw body c =
     (case pathID raw of
        Inl e \<Rightarrow> (c, Inl e)
      | Inr i \<Rightarrow>
          (case body of
             Inl e \<Rightarrow> (c, Inl (bad_request e))
           | Inr p \<Rightarrow>
               (case Lists_Get (io RAccess) i (ctl_lists c) of
                  Inl e \<Rightarrow> (c, Inl (Db e))
                | Inr existing \<Rightarrow>
                    (case prepareList cr p (Some existing) of
                       Inl e \<Rightarrow> (c, Inl e)
                     | Inr l \<Rightarrow>
                         (case Lists_Update (io WList) now (l\<lparr>al_ID := i\<rparr>) (ctl_lists c) of
                            (t, Inl e) \<Rightarrow> (c\<lparr>ctl_lists := t\<rparr>, Inl (Db e))
                          | (t, Inr l) \<Rightarrow>
                              let c = applyConfig hash io (c\<lparr>ctl_lists := t\<rparr>)
                              in (c, case viewOf io c l of (l, n) \<Rightarrow> Inr (200, OneList l n)))))))"

definition HandleDeleteList ::
  "(string \<Rightarrow> 64 word) \<Rightarrow> config_io \<Rightarrow> string \<Rightarrow> control_plane \<Rightarrow> control_plane \<times> config_reply" where
  "HandleDeleteList hash io raw c =
     (case pathID raw of
        Inl e \<Rightarrow> (c, Inl e)
      | Inr i \<Rightarrow>
          (case HostsUsing (io RUsing) i c of
             Inr (Suc n) \<Rightarrow>
               (c, Inl (Db (ErrInUse (''in use: '' @ itoa (int (Suc n)) @ '' host(s) are still protected by this access list''))))
           | _ \<Rightarrow>
               (case Lists_Delete (\<lambda>i. guarding c i > 0) (io WList) i (ctl_lists c) of
                  (t, Some e) \<Rightarrow> (c\<lparr>ctl_lists := t\<rparr>, Inl (Db e))
                | (t, None) \<Rightarrow> (applyConfig hash io (c\<lparr>ctl_lists := t\<rparr>), Inr (204, NoBody)))))"

section \<open>Requests one after the other\<close>

datatype config_request =
    CreateHost "string + host_payload"
  | UpdateHost string "string + host_payload"
  | DeleteHost string
  | CreateRedirect "string + redirect_payload"
  | UpdateRedirect string "string + redirect_payload"
  | DeleteRedirect string
  | CreateList "string + list_payload"
  | UpdateList string "string + list_payload"
  | DeleteList string

fun serve_config ::
  "(string \<Rightarrow> 64 word) \<Rightarrow> url_ops \<Rightarrow> crypto \<Rightarrow> control_plane \<Rightarrow> config_io \<times> time \<times> config_request \<Rightarrow> control_plane" where
  "serve_config hash urls cr c (io, now, CreateHost body) = fst (handleCreateHost hash io body c)"
| "serve_config hash urls cr c (io, now, UpdateHost raw body) = fst (handleUpdateHost hash io raw body c)"
| "serve_config hash urls cr c (io, now, DeleteHost raw) = fst (handleDeleteHost hash io raw c)"
| "serve_config hash urls cr c (io, now, CreateRedirect body) = fst (handleCreateRedirect hash urls io body c)"
| "serve_config hash urls cr c (io, now, UpdateRedirect raw body) = fst (handleUpdateRedirect hash urls io raw body c)"
| "serve_config hash urls cr c (io, now, DeleteRedirect raw) = fst (handleDeleteRedirect hash io raw c)"
| "serve_config hash urls cr c (io, now, CreateList body) = fst (HandleCreateList hash cr now io body c)"
| "serve_config hash urls cr c (io, now, UpdateList raw body) = fst (HandleUpdateList hash cr now io raw body c)"
| "serve_config hash urls cr c (io, now, DeleteList raw) = fst (HandleDeleteList hash io raw c)"

end
