(* ===== verification/Requests.thy ===== *)
theory Requests
  imports Go_Base
begin

text \<open>Requests served one after the other: an invariant that every request keeps, of those that meet a
  condition, holds after any sequence of them. Each server instantiates the contract with its own handler.\<close>

locale keeping =
  fixes serve :: "'s \<Rightarrow> 'r \<Rightarrow> 's" and inv_of :: "'s \<Rightarrow> bool" and fair :: "'r \<Rightarrow> bool"
  assumes keeps: "inv_of s \<Longrightarrow> fair r \<Longrightarrow> inv_of (serve s r)"
begin

lemma kept: "inv_of s \<Longrightarrow> list_all fair rs \<Longrightarrow> inv_of (foldl serve s rs)"
  by (induction rs arbitrary: s) (simp_all add: keeps)

end

end
