(* ===== verification/Config_Sync.thy ===== *)
theory Config_Sync
  imports Api_Config Requests
begin

text \<open>What the configuration endpoints keep: the stored tables stay consistent, and what the data plane serves
  is what is stored.\<close>

section \<open>Consistent tables\<close>

definition hosts_valid :: "(int \<Rightarrow> bool) \<Rightarrow> (string \<Rightarrow> bool) \<Rightarrow> hosts_db \<Rightarrow> bool" where
  "hosts_valid listed elsewhere db \<longleftrightarrow> hosts_ok db \<and> distinct (al_keys (hd_rows db)) \<and> unique_claims (hd_domains db)
     \<and> (\<forall>d \<in> claimed (hd_domains db). \<not> elsewhere d)
     \<and> (\<forall>i r a. map_of (hd_rows db) i = Some r \<longrightarrow> hw_access_list_id r = Some a \<longrightarrow> listed a)"

lemma hosts_validI:
  assumes "hosts_ok db" "distinct (al_keys (hd_rows db))" "unique_claims (hd_domains db)"
    "\<And>d. d \<in> claimed (hd_domains db) \<Longrightarrow> \<not> elsewhere d"
    "\<And>i r a. map_of (hd_rows db) i = Some r \<Longrightarrow> hw_access_list_id r = Some a \<Longrightarrow> listed a"
  shows "hosts_valid listed elsewhere db"
  using assms unfolding hosts_valid_def by blast

lemma hosts_validD:
  assumes "hosts_valid listed elsewhere db"
  shows "hosts_ok db" "distinct (al_keys (hd_rows db))" "unique_claims (hd_domains db)"
    "d \<in> claimed (hd_domains db) \<Longrightarrow> \<not> elsewhere d"
    "map_of (hd_rows db) i = Some r \<Longrightarrow> hw_access_list_id r = Some a \<Longrightarrow> listed a"
  using assms unfolding hosts_valid_def by blast+

lemma Hosts_Create_accepted: "Hosts_Create rf fault h db = (db', Inr h') \<Longrightarrow> row_refused rf h = None"
  by (simp add: Hosts_Create_def Let_def split: option.splits)

lemma Hosts_Update_accepted: "Hosts_Update rf fault h db = (db', Inr h') \<Longrightarrow> row_refused rf h = None"
  by (simp add: Hosts_Update_def Let_def split: option.splits if_splits)

lemma row_refused_ID [simp]: "row_refused rf (h\<lparr>h_ID := i\<rparr>) = row_refused rf h"
  by (simp add: row_refused_def)

lemma accepted_list: "row_refused rf h = None \<Longrightarrow> hw_access_list_id (hostInsertArgs h) = Some a \<Longrightarrow> rf_accessList rf a"
  by (auto simp: row_refused_def hostInsertArgs_def split: if_splits)

lemma claimed_append: "claimed (rows @ child_rows k vs) = claimed rows \<union> set vs"
proof -
  have "claimed (child_rows k vs) = set (map (\<lambda>(k, v, p). v) (child_rows k vs))" by (simp only: set_map)
  then show ?thesis by (simp add: image_Un)
qed

lemma clear_children_domains [simp]: "hd_domains (clear_children i db) = drop_children i (hd_domains db)"
  by (simp add: clear_children_def Let_def)

lemma cleared_claimed:
  assumes "d \<in> claimed (hd_domains (clear_children i db))"
  shows "d \<in> set (map (\<lambda>(k, v, p). v) (hd_domains db))"
  using subsetD [OF claimed_dropped assms [unfolded clear_children_domains]] by (simp only: set_map)

lemma written_valid:
  assumes w: "writeHostChildren (rf_redirected rf) h base = Inr (db', h')" and "hosts_ok db'" "row_refused rf h = None"
    and "distinct (al_keys (hd_rows base))" "unique_claims (hd_domains base)" "\<And>d. d \<in> claimed (hd_domains base) \<Longrightarrow> \<not> rf_redirected rf d"
    and rows: "\<And>i r a. map_of (hd_rows base) i = Some r \<Longrightarrow> hw_access_list_id r = Some a \<Longrightarrow>
      r = hostInsertArgs h \<or> rf_accessList rf a"
  shows "hosts_valid (rf_accessList rf) (rf_redirected rf) db'"
proof (rule hosts_validI)
  note c = writeHostChildren_claims [OF w assms(5)]
  have r: "hd_rows db' = hd_rows base"
    by (rule writeHostChildren_Inr [OF w]) (use write_locations_frame in fastforce)
  show "distinct (al_keys (hd_rows db'))" using assms(4) r by simp
  show "unique_claims (hd_domains db')" using c by blast
  show "\<not> rf_redirected rf d" if "d \<in> claimed (hd_domains db')" for d
    using that c assms(6) by (metis claimed_append Un_iff)
  show "rf_accessList rf a" if "map_of (hd_rows db') i = Some x" "hw_access_list_id x = Some a" for i x a
    using that rows accepted_list [OF assms(3)] unfolding r by blast
qed (rule assms(2))

lemma Hosts_Create_valid:
  assumes "hosts_valid (rf_accessList rf) (rf_redirected rf) db" "Hosts_Create rf fault h db = (db', Inr h')"
  shows "hosts_valid (rf_accessList rf) (rf_redirected rf) db'"
proof (rule written_valid [OF Hosts_Create_Inr [OF assms(2)]])
  note ok = hosts_validD [OF assms(1)]
  show "hosts_ok db'" using Hosts_Create_reads [OF ok(1) assms(2)] by blast
  show "row_refused rf (h\<lparr>h_ID := hd_seq db + 1\<rparr>) = None" using Hosts_Create_accepted [OF assms(2)] by simp
  let ?c = "db\<lparr>hd_rows := hd_rows db @ [(hd_seq db + 1, hostInsertArgs h)], hd_seq := hd_seq db + 1\<rparr>"
  show "distinct (al_keys (hd_rows ?c))" using ok(1,2) by (force simp: hosts_ok_def)
  show "unique_claims (hd_domains ?c)" "\<And>d. d \<in> claimed (hd_domains ?c) \<Longrightarrow> \<not> rf_redirected rf d" using ok(3,4) by simp_all
  show "r = hostInsertArgs (h\<lparr>h_ID := hd_seq db + 1\<rparr>) \<or> rf_accessList rf a"
    if "map_of (hd_rows ?c) i = Some r" "hw_access_list_id r = Some a" for i r a
    using that ok(5) by (auto simp: map_add_Some_iff hostInsertArgs_def split: if_splits)
qed

lemma Hosts_Update_valid:
  assumes "hosts_valid (rf_accessList rf) (rf_redirected rf) db" "Hosts_Update rf fault h db = (db', Inr h')"
  shows "hosts_valid (rf_accessList rf) (rf_redirected rf) db'"
proof (rule written_valid [OF conjunct2 [OF Hosts_Update_Inr [OF assms(2)]]])
  note ok = hosts_validD [OF assms(1)]
  show "hosts_ok db'" using Hosts_Update_reads [OF ok(1) assms(2)] by blast
  show "row_refused rf h = None" by (rule Hosts_Update_accepted [OF assms(2)])
  let ?u = "clear_children (h_ID h) (db\<lparr>hd_rows := al_put (h_ID h) (hostInsertArgs h) (hd_rows db)\<rparr>)"
  show "distinct (al_keys (hd_rows ?u))" using distinct_al_put [OF ok(2)] by simp
  show "unique_claims (hd_domains ?u)" using unique_claims_dropped [OF ok(3)] by simp
  show "\<not> rf_redirected rf d" if "d \<in> claimed (hd_domains ?u)" for d
    by (rule ok(4), rule cleared_claimed [OF that, simplified])
  show "r = hostInsertArgs h \<or> rf_accessList rf a"
    if "map_of (hd_rows ?u) i = Some r" "hw_access_list_id r = Some a" for i r a
    using that ok(5) by (auto split: if_splits)
qed

lemma Hosts_Delete_valid:
  assumes "hosts_valid listed elsewhere db" "Hosts_Delete fault i db = (db', None)"
  shows "hosts_valid listed elsewhere db'"
proof (rule hosts_validI)
  note ok = hosts_validD [OF assms(1)]
  have db': "db' = clear_children i (db\<lparr>hd_rows := al_del i (hd_rows db)\<rparr>)"
    using assms(2) by (simp add: Hosts_Delete_def split: option.splits if_splits)
  show "hosts_ok db'" using ok(1) clear_children_owned [of "hd_seq db" "db\<lparr>hd_rows := al_del i (hd_rows db)\<rparr>" i]
    clear_children_ids [of "db\<lparr>hd_rows := al_del i (hd_rows db)\<rparr>" i]
    by (auto simp: db' hosts_ok_def al_del_def)
  show "distinct (al_keys (hd_rows db'))" using distinct_al_del [OF ok(2)] by (simp add: db')
  show "unique_claims (hd_domains db')" using unique_claims_dropped [OF ok(3)] by (simp add: db')
  show "\<not> elsewhere d" if "d \<in> claimed (hd_domains db')" for d
    by (rule ok(4), rule cleared_claimed [OF that [unfolded db'], simplified])
  show "listed a" if "map_of (hd_rows db') j = Some r" "hw_access_list_id r = Some a" for j r a
    using that ok(5) by (auto simp: db' split: if_splits)
qed

lemma Hosts_Delete_fails: "Hosts_Delete fault i db = (db', Some e) \<Longrightarrow> db' = db"
  by (simp add: Hosts_Delete_def split: option.splits if_splits)

section \<open>The control plane\<close>

text \<open>The stored tables are consistent with each other.\<close>

definition stored_ok :: "control_plane \<Rightarrow> bool" where
  "stored_ok c \<longleftrightarrow> hosts_valid (has_list c) (redirected c) (ctl_hosts c) \<and> redirects_ok (ctl_redirects c) \<and> lists_ok (ctl_lists c)"

lemma hosts_valid_mono:
  assumes "hosts_valid listed elsewhere db"
    and "\<And>i r a. map_of (hd_rows db) i = Some r \<Longrightarrow> hw_access_list_id r = Some a \<Longrightarrow> listed a \<Longrightarrow> listed' a"
    and "\<And>d. d \<in> claimed (hd_domains db) \<Longrightarrow> elsewhere' d \<Longrightarrow> elsewhere d"
  shows "hosts_valid listed' elsewhere' db"
proof (rule hosts_validI)
  note ok = hosts_validD [OF assms(1)]
  show "\<not> elsewhere' d" if "d \<in> claimed (hd_domains db)" for d using ok(4) [OF that] assms(3) [OF that] by blast
  show "listed' a" if "map_of (hd_rows db) i = Some r" "hw_access_list_id r = Some a" for i r a
    by (rule assms(2) [OF that ok(5) [OF that]])
qed (use hosts_validD [OF assms(1)] in simp_all)

lemma stored_okD:
  assumes "stored_ok c"
  shows "hosts_valid (has_list c) (redirected c) (ctl_hosts c)" "redirects_ok (ctl_redirects c)" "lists_ok (ctl_lists c)"
    "apart_from (hosted c) (ctl_redirects c)"
proof -
  show v: "hosts_valid (has_list c) (redirected c) (ctl_hosts c)" "redirects_ok (ctl_redirects c)" "lists_ok (ctl_lists c)"
    using assms unfolding stored_ok_def by blast+
  show "apart_from (hosted c) (ctl_redirects c)"
    using hosts_validD(4) [OF v(1)] unfolding apart_from_def hosted_def redirected_def by blast
qed

lemma plane_irrelevant [simp]:
  "stored_ok (c\<lparr>ctl_plane := p\<rparr>) = stored_ok c" "has_list (c\<lparr>ctl_plane := p\<rparr>) = has_list c" "redirected (c\<lparr>ctl_plane := p\<rparr>) = redirected c"
  by (simp_all add: stored_ok_def has_list_def [abs_def] redirected_def [abs_def])

lemma applyConfig_stored [simp]: "stored_ok (applyConfig hash io c) = stored_ok c"
  by (simp add: applyConfig_def publish_def split: sum.split)

lemma store_hosts:
  assumes "stored_ok c" "hosts_valid (has_list c) (redirected c) db"
  shows "stored_ok (c\<lparr>ctl_hosts := db\<rparr>)"
proof -
  have "has_list (c\<lparr>ctl_hosts := db\<rparr>) = has_list c" "redirected (c\<lparr>ctl_hosts := db\<rparr>) = redirected c"
    by (simp_all add: has_list_def [abs_def] redirected_def [abs_def])
  with assms show ?thesis by (simp add: stored_ok_def)
qed

lemma store_redirects:
  assumes "stored_ok c" "redirects_ok t" "apart_from (hosted c) t"
  shows "stored_ok (c\<lparr>ctl_redirects := t\<rparr>)"
proof -
  have "has_list (c\<lparr>ctl_redirects := t\<rparr>) = has_list c" by (simp add: has_list_def [abs_def])
  moreover have "hosts_valid (has_list c) (redirected (c\<lparr>ctl_redirects := t\<rparr>)) (ctl_hosts c)"
  proof (rule hosts_valid_mono [OF stored_okD(1) [OF assms(1)]])
    fix d
    assume "d \<in> claimed (hd_domains (ctl_hosts c))" "redirected (c\<lparr>ctl_redirects := t\<rparr>) d"
    then have "hosted c d" "d \<in> claimed (rx_domains t)" by (simp_all add: hosted_def redirected_def)
    with assms(3) show "redirected c d" by (simp only: apart_from_def)
  qed
  ultimately show ?thesis using assms by (simp add: stored_ok_def)
qed

lemma store_lists:
  assumes "stored_ok c" "lists_ok t"
    and "\<And>i r a. map_of (hd_rows (ctl_hosts c)) i = Some r \<Longrightarrow> hw_access_list_id r = Some a \<Longrightarrow> has_list c a \<Longrightarrow> map_of (li_rows t) a \<noteq> None"
  shows "stored_ok (c\<lparr>ctl_lists := t\<rparr>)"
proof -
  have "redirected (c\<lparr>ctl_lists := t\<rparr>) = redirected c" by (simp add: redirected_def [abs_def])
  moreover have "hosts_valid (has_list (c\<lparr>ctl_lists := t\<rparr>)) (redirected c) (ctl_hosts c)"
    by (rule hosts_valid_mono [OF stored_okD(1) [OF assms(1)]]) (simp_all add: has_list_def [of "c\<lparr>ctl_lists := t\<rparr>"] assms(3))
  ultimately show ?thesis using assms by (simp add: stored_ok_def)
qed

text \<open>What a handler does to the control plane: nothing, or a write that keeps the tables consistent and the
  application of the configuration.\<close>

inductive config_outcome :: "(string \<Rightarrow> 64 word) \<Rightarrow> config_io \<Rightarrow> control_plane \<Rightarrow> control_plane \<Rightarrow> bool" for hash io c where
  unchanged: "config_outcome hash io c c"
| applied: "stored_ok c1 \<Longrightarrow> config_outcome hash io c (applyConfig hash io c1)"

lemma host_written:
  assumes "stored_ok c"
  shows "Hosts_Create (host_refs c) fault h (ctl_hosts c) = (db, Inl e) \<Longrightarrow> config_outcome hash io c (c\<lparr>ctl_hosts := db\<rparr>)"
    and "Hosts_Create (host_refs c) fault h (ctl_hosts c) = (db, Inr h') \<Longrightarrow> config_outcome hash io c (applyConfig hash io (c\<lparr>ctl_hosts := db\<rparr>))"
    and "Hosts_Update (host_refs c) fault h (ctl_hosts c) = (db, Inl e) \<Longrightarrow> config_outcome hash io c (c\<lparr>ctl_hosts := db\<rparr>)"
    and "Hosts_Update (host_refs c) fault h (ctl_hosts c) = (db, Inr h') \<Longrightarrow> config_outcome hash io c (applyConfig hash io (c\<lparr>ctl_hosts := db\<rparr>))"
    and "Hosts_Delete fault i (ctl_hosts c) = (db, Some e) \<Longrightarrow> config_outcome hash io c (c\<lparr>ctl_hosts := db\<rparr>)"
    and "Hosts_Delete fault i (ctl_hosts c) = (db, None) \<Longrightarrow> config_outcome hash io c (applyConfig hash io (c\<lparr>ctl_hosts := db\<rparr>))"
proof -
  have refs: "hosts_valid (rf_accessList (host_refs c)) (rf_redirected (host_refs c)) db = hosts_valid (has_list c) (redirected c) db" for db
    by (simp add: host_refs_def)
  note v = stored_okD(1) [OF assms, folded refs]
  show "Hosts_Create (host_refs c) fault h (ctl_hosts c) = (db, Inl e) \<Longrightarrow> config_outcome hash io c (c\<lparr>ctl_hosts := db\<rparr>)"
    "Hosts_Update (host_refs c) fault h (ctl_hosts c) = (db, Inl e) \<Longrightarrow> config_outcome hash io c (c\<lparr>ctl_hosts := db\<rparr>)"
    "Hosts_Delete fault i (ctl_hosts c) = (db, Some e) \<Longrightarrow> config_outcome hash io c (c\<lparr>ctl_hosts := db\<rparr>)"
    using config_outcome.unchanged [of hash io c] by (auto dest!: Hosts_Create_Inl Hosts_Update_Inl Hosts_Delete_fails)
  show "Hosts_Create (host_refs c) fault h (ctl_hosts c) = (db, Inr h') \<Longrightarrow> config_outcome hash io c (applyConfig hash io (c\<lparr>ctl_hosts := db\<rparr>))"
    by (drule Hosts_Create_valid [OF v]) (simp add: refs config_outcome.applied store_hosts assms)
  show "Hosts_Update (host_refs c) fault h (ctl_hosts c) = (db, Inr h') \<Longrightarrow> config_outcome hash io c (applyConfig hash io (c\<lparr>ctl_hosts := db\<rparr>))"
    by (drule Hosts_Update_valid [OF v]) (simp add: refs config_outcome.applied store_hosts assms)
  show "Hosts_Delete fault i (ctl_hosts c) = (db, None) \<Longrightarrow> config_outcome hash io c (applyConfig hash io (c\<lparr>ctl_hosts := db\<rparr>))"
    by (drule Hosts_Delete_valid [OF stored_okD(1) [OF assms]]) (simp add: config_outcome.applied store_hosts assms)
qed

lemma redirects_unchanged:
  "Redirects_Create certificate taken fault rd t = (t', Inl e) \<Longrightarrow> t' = t"
  "Redirects_Update certificate taken fault rd t = (t', Inl e) \<Longrightarrow> t' = t"
  "Redirects_Delete fault i t = (t', Some e) \<Longrightarrow> t' = t"
  by (simp_all add: Redirects_Create_def Redirects_Update_def Redirects_Delete_def Let_def split: option.splits sum.splits if_splits)

lemma redirect_written:
  assumes "stored_ok c"
  shows "Redirects_Create (has_certificate c) (hosted c) fault rd (ctl_redirects c) = (t, Inl e) \<Longrightarrow> config_outcome hash io c (c\<lparr>ctl_redirects := t\<rparr>)"
    and "Redirects_Create (has_certificate c) (hosted c) fault rd (ctl_redirects c) = (t, Inr rd') \<Longrightarrow>
      config_outcome hash io c (applyConfig hash io (c\<lparr>ctl_redirects := t\<rparr>))"
    and "Redirects_Update (has_certificate c) (hosted c) fault rd (ctl_redirects c) = (t, Inl e) \<Longrightarrow> config_outcome hash io c (c\<lparr>ctl_redirects := t\<rparr>)"
    and "Redirects_Update (has_certificate c) (hosted c) fault rd (ctl_redirects c) = (t, Inr rd') \<Longrightarrow>
      config_outcome hash io c (applyConfig hash io (c\<lparr>ctl_redirects := t\<rparr>))"
    and "Redirects_Delete fault i (ctl_redirects c) = (t, Some e) \<Longrightarrow> config_outcome hash io c (c\<lparr>ctl_redirects := t\<rparr>)"
    and "Redirects_Delete fault i (ctl_redirects c) = (t, None) \<Longrightarrow> config_outcome hash io c (applyConfig hash io (c\<lparr>ctl_redirects := t\<rparr>))"
proof -
  note ok = stored_okD(2,4) [OF assms]
  show "Redirects_Create (has_certificate c) (hosted c) fault rd (ctl_redirects c) = (t, Inl e) \<Longrightarrow> config_outcome hash io c (c\<lparr>ctl_redirects := t\<rparr>)"
    "Redirects_Update (has_certificate c) (hosted c) fault rd (ctl_redirects c) = (t, Inl e) \<Longrightarrow> config_outcome hash io c (c\<lparr>ctl_redirects := t\<rparr>)"
    "Redirects_Delete fault i (ctl_redirects c) = (t, Some e) \<Longrightarrow> config_outcome hash io c (c\<lparr>ctl_redirects := t\<rparr>)"
    using config_outcome.unchanged [of hash io c] by (auto dest!: redirects_unchanged)
  show "Redirects_Create (has_certificate c) (hosted c) fault rd (ctl_redirects c) = (t, Inr rd') \<Longrightarrow>
      config_outcome hash io c (applyConfig hash io (c\<lparr>ctl_redirects := t\<rparr>))"
    using config_outcome.applied [OF store_redirects [OF assms]] Redirects_Create_ok [OF ok, of "has_certificate c" fault rd] by simp
  show "Redirects_Update (has_certificate c) (hosted c) fault rd (ctl_redirects c) = (t, Inr rd') \<Longrightarrow>
      config_outcome hash io c (applyConfig hash io (c\<lparr>ctl_redirects := t\<rparr>))"
    using config_outcome.applied [OF store_redirects [OF assms]] Redirects_Update_ok [OF ok, of "has_certificate c" fault rd] by simp
  show "Redirects_Delete fault i (ctl_redirects c) = (t, None) \<Longrightarrow> config_outcome hash io c (applyConfig hash io (c\<lparr>ctl_redirects := t\<rparr>))"
    using config_outcome.applied [OF store_redirects [OF assms]] Redirects_Delete_ok [OF ok, of fault i] by simp
qed

lemma lists_unchanged:
  "Lists_Create fault now l t = (t', Inl e) \<Longrightarrow> t' = t"
  "Lists_Update fault now l t = (t', Inl e) \<Longrightarrow> t' = t"
  "Lists_Delete used fault i t = (t', Some e) \<Longrightarrow> t' = t"
  by (simp_all add: Lists_Create_def Lists_Update_def Lists_Delete_def Let_def split: option.splits sum.splits if_splits prod.splits)

lemma writeAccessListChildren_rows: "writeAccessListChildren l t = Inr (t', l') \<Longrightarrow> li_rows t' = li_rows t"
  by (auto simp: writeAccessListChildren_def Let_def split: option.splits)

lemma lists_kept:
  "Lists_Create fault now l t = (t', Inr l') \<Longrightarrow> map_of (li_rows t) a \<noteq> None \<Longrightarrow> map_of (li_rows t') a \<noteq> None"
  "Lists_Update fault now l t = (t', Inr l') \<Longrightarrow> map_of (li_rows t) a \<noteq> None \<Longrightarrow> map_of (li_rows t') a \<noteq> None"
  "Lists_Delete used fault i t = (t', None) \<Longrightarrow> map_of (li_rows t) a \<noteq> None \<Longrightarrow> \<not> used i \<and> (a = i \<or> map_of (li_rows t') a \<noteq> None)"
  by (auto simp: Lists_Create_def Lists_Update_def Lists_Delete_def Let_def map_add_Some_iff dest!: writeAccessListChildren_rows
      split: option.splits sum.splits if_splits prod.splits)

lemma Lists_Delete_ok:
  assumes "lists_ok t" "Lists_Delete used fault i t = (t', None)"
  shows "lists_ok t'"
proof -
  have t': "li_rows t' = al_del i (li_rows t)" "li_seq t' = li_seq t" "li_rules t' = drop_children i (li_rules t)" "li_users t' = drop_children i (li_users t)"
    using assms(2) by (auto simp: Lists_Delete_def split: option.splits if_splits)
  have k: "set (al_keys (al_del i (li_rows t))) = set (al_keys (li_rows t)) - {i}" by (auto simp: al_del_def)
  have d: "x \<in> set (drop_children i rows) \<longleftrightarrow> x \<in> set rows \<and> fst x \<noteq> i" for x and rows :: "(int \<times> 'v \<times> nat) list"
    by (auto simp: drop_children_def)
  show ?thesis using assms(1) distinct_al_del unfolding lists_ok_def t' k by (auto simp: d)
qed

lemma guarding_used: "guarding c i > 0 \<longleftrightarrow> (\<exists>(k, r) \<in> set (hd_rows (ctl_hosts c)). hw_access_list_id r = Some i)"
  by (auto simp: guarding_def filter_empty_conv)

lemma list_written:
  assumes "stored_ok c"
  shows "Lists_Create fault now l (ctl_lists c) = (t, Inl e) \<Longrightarrow> config_outcome hash io c (c\<lparr>ctl_lists := t\<rparr>)"
    and "Lists_Create fault now l (ctl_lists c) = (t, Inr l') \<Longrightarrow> config_outcome hash io c (applyConfig hash io (c\<lparr>ctl_lists := t\<rparr>))"
    and "Lists_Update fault now l (ctl_lists c) = (t, Inl e) \<Longrightarrow> config_outcome hash io c (c\<lparr>ctl_lists := t\<rparr>)"
    and "Lists_Update fault now l (ctl_lists c) = (t, Inr l') \<Longrightarrow> config_outcome hash io c (applyConfig hash io (c\<lparr>ctl_lists := t\<rparr>))"
    and "Lists_Delete (\<lambda>i. guarding c i > 0) fault i (ctl_lists c) = (t, Some e) \<Longrightarrow> config_outcome hash io c (c\<lparr>ctl_lists := t\<rparr>)"
    and "Lists_Delete (\<lambda>i. guarding c i > 0) fault i (ctl_lists c) = (t, None) \<Longrightarrow> config_outcome hash io c (applyConfig hash io (c\<lparr>ctl_lists := t\<rparr>))"
proof -
  note ok = stored_okD(3) [OF assms]
  show "Lists_Create fault now l (ctl_lists c) = (t, Inl e) \<Longrightarrow> config_outcome hash io c (c\<lparr>ctl_lists := t\<rparr>)"
    "Lists_Update fault now l (ctl_lists c) = (t, Inl e) \<Longrightarrow> config_outcome hash io c (c\<lparr>ctl_lists := t\<rparr>)"
    "Lists_Delete (\<lambda>i. guarding c i > 0) fault i (ctl_lists c) = (t, Some e) \<Longrightarrow> config_outcome hash io c (c\<lparr>ctl_lists := t\<rparr>)"
    using config_outcome.unchanged [of hash io c] by (auto dest!: lists_unchanged)
  show "config_outcome hash io c (applyConfig hash io (c\<lparr>ctl_lists := t\<rparr>))" if "Lists_Create fault now l (ctl_lists c) = (t, Inr l')"
    using Lists_Create_reads [OF ok that] lists_kept(1) [OF that]
    by (intro config_outcome.applied store_lists [OF assms]) (auto simp: has_list_def)
  show "config_outcome hash io c (applyConfig hash io (c\<lparr>ctl_lists := t\<rparr>))" if "Lists_Update fault now l (ctl_lists c) = (t, Inr l')"
    using Lists_Update_reads [OF ok that] lists_kept(2) [OF that]
    by (intro config_outcome.applied store_lists [OF assms]) (auto simp: has_list_def)
  show "config_outcome hash io c (applyConfig hash io (c\<lparr>ctl_lists := t\<rparr>))" if d: "Lists_Delete (\<lambda>i. guarding c i > 0) fault i (ctl_lists c) = (t, None)"
  proof (intro config_outcome.applied store_lists [OF assms])
    show "lists_ok t" by (rule Lists_Delete_ok [OF ok d])
    fix j r a
    assume "map_of (hd_rows (ctl_hosts c)) j = Some r" "hw_access_list_id r = Some a" "has_list c a"
    then have "guarding c a > 0" "map_of (li_rows (ctl_lists c)) a \<noteq> None"
      using map_of_SomeD guarding_used by (fastforce simp: has_list_def)+
    with lists_kept(3) [OF d] show "map_of (li_rows t) a \<noteq> None" by blast
  qed
qed

lemmas written_outcomes = host_written redirect_written list_written

text \<open>Every handler is one of the two.\<close>

lemma serve_config_outcome:
  assumes "stored_ok c"
  shows "config_outcome hash (fst req) c (serve_config hash urls cr c req)"
proof -
  obtain io now rq where req: "req = (io, now, rq)" by (cases req)
  note w = written_outcomes [OF assms]
  show ?thesis
    unfolding req by (cases rq)
      (auto simp: handleCreateHost_def handleUpdateHost_def handleDeleteHost_def handleCreateRedirect_def handleUpdateRedirect_def
        handleDeleteRedirect_def HandleCreateList_def HandleUpdateList_def HandleDeleteList_def Let_def
        intro: w config_outcome.unchanged split: sum.split prod.split option.split nat.split)
qed

section \<open>What is served\<close>

definition apply_fair :: "config_io \<Rightarrow> bool" where
  "apply_fair io \<longleftrightarrow> io AHosts = None \<and> io ARedirects = None \<and> io ALists = None"

definition served :: "(string \<Rightarrow> 64 word) \<Rightarrow> control_plane \<Rightarrow> bool" where
  "served hash c \<longleftrightarrow> (\<exists>cfg prev st. load_config (\<lambda>_. None) c = Inr cfg
     \<and> en_table (dp_engine (ctl_plane c)) = snd (buildRoutingTable hash cfg prev st))"

lemma load_config_fair: "apply_fair io \<Longrightarrow> load_config io c = load_config (\<lambda>_. None) c"
  by (simp add: load_config_def apply_fair_def cong: sum.case_cong)

lemma load_config_plane [simp]: "load_config io (c\<lparr>ctl_plane := p\<rparr>) = load_config io c"
  by (simp add: load_config_def cong: sum.case_cong)

lemma load_config_Inr: "\<exists>cfg. load_config (\<lambda>_. None) c = Inr cfg"
  by (simp add: load_config_def Hosts_List_def Redirects_List_def Lists_List_def)

lemma published_table:
  "\<exists>prev st. en_table (dp_engine (Reload hash cfg dp)) = snd (buildRoutingTable hash cfg prev st)"
proof (intro exI)
  show "en_table (dp_engine (Reload hash cfg dp)) = snd (buildRoutingTable hash cfg (Some (en_table (dp_engine dp))) (en_store (dp_engine dp)))"
    by (simp add: Reload_def Let_def split: prod.split)
qed

lemma applied_served: "apply_fair io \<Longrightarrow> served hash (applyConfig hash io c)"
  using load_config_Inr [of c] published_table [of hash] by (auto simp: applyConfig_def load_config_fair served_def publish_def)

lemma outcome_kept:
  assumes "config_outcome hash io c c'" "apply_fair io" "stored_ok c \<and> served hash c"
  shows "stored_ok c' \<and> served hash c'"
  using assms by (cases rule: config_outcome.cases) (auto intro: applied_served)

interpretation config: keeping "serve_config hash urls cr" "\<lambda>c. stored_ok c \<and> served hash c" "\<lambda>rq. apply_fair (fst rq)"
  for hash urls cr
  by unfold_locales (meson outcome_kept serve_config_outcome)

section \<open>The tables a configuration is built into\<close>

lemma built_maps:
  assumes "buildRoutingTable hash cfg prev st = (st', t)" "sorted_wrt apart (cfg_Hosts cfg)"
  shows "map rt_host (t_routes t) = cfg_Hosts cfg \<and> maps_ok (t_exact t) (t_wildcard t) (cfg_Hosts cfg)"
proof -
  obtain st1 t1 where b: "build_hosts hash (cfg_AccessLists cfg) prev st empty_table (cfg_Hosts cfg) = (st1, t1)" by fastforce
  have "maps_ok (t_exact empty_table) (t_wildcard empty_table) (map rt_host (t_routes empty_table))"
    by (simp add: maps_ok_def empty_table_def answers_def)
  from build_hosts_ok [OF b this] assms(2)
  have "map rt_host (t_routes t1) = cfg_Hosts cfg \<and> maps_ok (t_exact t1) (t_wildcard t1) (cfg_Hosts cfg)"
    by (auto simp: empty_table_def)
  moreover have "t_exact t = t_exact t1" "t_wildcard t = t_wildcard t1" "t_routes t = t_routes t1"
    using assms(1) b by (auto simp: buildRoutingTable_def Let_def split: prod.splits)
  ultimately show ?thesis by simp
qed

abbreviation access_of :: "(int \<rightharpoonup> access_list) \<Rightarrow> host \<Rightarrow> access_list option" where
  "access_of acls h \<equiv> (case h_AccessListID h of Some i \<Rightarrow> acls i | None \<Rightarrow> None)"

lemma built_access:
  "\<forall>r \<in> set (t_routes t). rt_access r = access_of acls (rt_host r) \<Longrightarrow>
     \<forall>r \<in> set (t_routes (snd (build_hosts hash acls prev st t hs))). rt_access r = access_of acls (rt_host r)"
proof (induction hs arbitrary: st t)
  case (Cons h hs)
  obtain st1 r where r: "build_route hash acls prev st h = (st1, r)" by fastforce
  then have ra: "rt_access r = access_of acls (rt_host r)" by (auto simp: build_route_def Let_def split: prod.splits)
  obtain ex wi where f: "foldl (add_domain (length (t_routes t))) (t_exact t, t_wildcard t) (h_Domains h) = (ex, wi)" by fastforce
  define t1 where "t1 = (if h_Enabled h then t\<lparr>t_routes := t_routes t @ [r], t_exact := ex, t_wildcard := wi\<rparr> else t\<lparr>t_routes := t_routes t @ [r]\<rparr>)"
  have "build_hosts hash acls prev st t (h # hs) = build_hosts hash acls prev st1 t1 hs" using r f by (simp add: t1_def Let_def)
  moreover have "\<forall>r \<in> set (t_routes t1). rt_access r = access_of acls (rt_host r)" using Cons.prems ra by (simp add: t1_def)
  ultimately show ?case using Cons.IH [of t1 st1] by simp
qed simp

lemma buildRoutingTable_access:
  assumes "buildRoutingTable hash cfg prev st = (st', t)" "r \<in> set (t_routes t)"
  shows "rt_access r = access_of (cfg_AccessLists cfg) (rt_host r)"
proof -
  have "t_routes t = t_routes (snd (build_hosts hash (cfg_AccessLists cfg) prev st empty_table (cfg_Hosts cfg)))"
    using assms(1) by (auto simp: buildRoutingTable_def Let_def split: prod.splits)
  then show ?thesis using built_access [of empty_table "cfg_AccessLists cfg"] assms(2) by (simp add: empty_table_def)
qed

lemma built_redirects:
  "fst (foldl (\<lambda>maps rd. if \<not> rd_Enabled rd then maps else foldl (add_domain rd) maps (rd_Domains rd)) m rds) d = Some rd \<Longrightarrow>
     fst m d = Some rd \<or> (\<exists>rd \<in> set rds. d \<in> set (rd_Domains rd))"
proof (induction rds arbitrary: m)
  case (Cons x rds)
  from Cons.IH [of "if \<not> rd_Enabled x then m else foldl (add_domain x) m (rd_Domains x)"] Cons.prems show ?case
    by (auto simp: add_domains split: if_splits)
qed simp

lemma buildRoutingTable_redirects:
  assumes "buildRoutingTable hash cfg prev st = (st', t)" "t_redirectExact t d = Some rd"
  shows "\<exists>rd \<in> set (cfg_Redirects cfg). d \<in> set (rd_Domains rd)"
proof -
  have "t_redirectExact t = fst (build_redirects (cfg_Redirects cfg))"
    using assms(1) by (auto simp: buildRoutingTable_def Let_def split: prod.splits)
  then show ?thesis
    using built_redirects [of "(Map.empty, Map.empty)" "cfg_Redirects cfg" d rd] assms(2) by (simp add: build_redirects_def)
qed

lemma sorted_wrt_map_keys:
  "distinct (map fst xs) \<Longrightarrow> (\<And>x y. x \<in> set xs \<Longrightarrow> y \<in> set xs \<Longrightarrow> fst x \<noteq> fst y \<Longrightarrow> P (f x) (f y)) \<Longrightarrow> sorted_wrt P (map f xs)"
proof (induction xs)
  case (Cons x xs)
  then show ?case by (auto simp: image_iff)
qed simp

lemma index_by:
  assumes "distinct (map k ls)" "l \<in> set ls"
  shows "foldl (\<lambda>m l. m(k l \<mapsto> l)) m ls (k l) = Some l"
  using assms
proof (induction ls arbitrary: m)
  case (Cons x ls)
  have other: "foldl (\<lambda>m l. m(k l \<mapsto> l)) m ls i = m i" if "i \<notin> k ` set ls" for m i
    using that by (induction ls arbitrary: m) auto
  show ?case
  proof (cases "l = x")
    case True
    with Cons.prems have "k x \<notin> k ` set ls" by simp
    with other [OF this, of "m(k x \<mapsto> x)"] True show ?thesis by (simp del: fun_upd_apply add: fun_upd_same)
  next
    case False
    with Cons show ?thesis by simp
  qed
qed simp

lemma attach_all_simps [simp]:
  "h_ID (attach_all db h) = h_ID h" "h_Domains (attach_all db h) = children_of (h_ID h) (hd_domains db)"
  "h_AccessListID (attach_all db h) = h_AccessListID h"
  by (simp_all add: attach_all_def Let_def)

lemma scanHost_simps [simp]: "h_ID (scanHost i r) = i" "h_AccessListID (scanHost i r) = hw_access_list_id r"
  by (simp_all add: scanHost_def)

text \<open>The configuration that is loaded, of tables that are consistent.\<close>

lemma loaded_config:
  assumes "stored_ok c" "load_config (\<lambda>_. None) c = Inr cfg"
  shows "Hosts_Get None i (ctl_hosts c) = Inr h \<Longrightarrow> h \<in> set (cfg_Hosts cfg)"
    and "sorted_wrt apart (cfg_Hosts cfg)"
    and "Lists_Get None a (ctl_lists c) = Inr l \<Longrightarrow> cfg_AccessLists cfg a = Some l"
    and "rd \<in> set (cfg_Redirects cfg) \<Longrightarrow> d \<in> set (rd_Domains rd) \<Longrightarrow> redirected c d"
proof -
  note v = hosts_validD [OF stored_okD(1) [OF assms(1)]]
  let ?db = "ctl_hosts c" and ?f = "\<lambda>p. attach_all (ctl_hosts c) (scanHost (fst p) (snd p))"
  let ?ls = "map (\<lambda>p. attachChildren (ctl_lists c) (scanAccessList p)) (sort_key (\<lambda>p. (aw_name (snd p), fst p)) (li_rows (ctl_lists c)))"
  have hs: "cfg_Hosts cfg = map ?f (sort_key (\<lambda>(i, r). (hw_name r, i)) (hd_rows ?db))"
    and rds: "cfg_Redirects cfg = map (\<lambda>p. attach_redirect (ctl_redirects c) (scanRedirect p))
      (sort_key (\<lambda>p. (rx_name (snd p), fst p)) (rx_rows (ctl_redirects c)))"
    and ls: "cfg_AccessLists cfg = foldl (\<lambda>m l. m(al_ID l \<mapsto> l)) Map.empty ?ls"
    using assms(2) by (auto simp: load_config_def Hosts_List_def Redirects_List_def Lists_List_def case_prod_unfold)
  show "h \<in> set (cfg_Hosts cfg)" if "Hosts_Get None i (ctl_hosts c) = Inr h"
    using that map_of_SomeD unfolding hs by (force simp: Hosts_Get_def split: option.splits)
  have d: "distinct (map fst (sort_key (\<lambda>(i, r). (hw_name r, i)) (hd_rows ?db)))" using v(2) by (simp add: distinct_map)
  show "sorted_wrt apart (cfg_Hosts cfg)"
    unfolding hs by (rule sorted_wrt_map_keys [OF d]) (use unique_claims_apart [OF v(3)] in \<open>auto simp: apart_def\<close>)
  show "cfg_AccessLists cfg a = Some l" if "Lists_Get None a (ctl_lists c) = Inr l"
  proof -
    have "map al_ID ?ls = map fst (sort_key (\<lambda>p. (aw_name (snd p), fst p)) (li_rows (ctl_lists c)))"
      by (simp add: attachChildren_def scanAccessList_def case_prod_unfold comp_def)
    moreover have "distinct (map fst (sort_key (\<lambda>p. (aw_name (snd p), fst p)) (li_rows (ctl_lists c))))"
      using stored_okD(3) [OF assms(1)] by (simp add: lists_ok_def distinct_map)
    moreover have "l \<in> set ?ls" "al_ID l = a"
      using that map_of_SomeD by (force simp: Lists_Get_def attachChildren_def scanAccessList_def split: option.splits)+
    ultimately show ?thesis unfolding ls using index_by [of al_ID ?ls l Map.empty] by metis
  qed
  show "redirected c d" if "rd \<in> set (cfg_Redirects cfg)" "d \<in> set (rd_Domains rd)"
    using that children_claimed unfolding rds redirected_def by (fastforce simp: attach_redirect_def)
qed

lemma served_domain:
  assumes "stored_ok c" "load_config (\<lambda>_. None) c = Inr cfg" "buildRoutingTable hash cfg prev st = (st', t)"
    and "Hosts_Get None i (ctl_hosts c) = Inr h" "h_Enabled h" "d \<in> set (h_Domains h)" "\<not> wild d"
    and "normalizeHostHeader hdr = d" "d \<noteq> []"
  shows "\<exists>j. table_lookup t hdr = Some j \<and> rt_host (t_routes t ! j) = h \<and> t_redirectExact t d = None \<and>
    (case h_AccessListID h of
       None \<Rightarrow> rt_access (t_routes t ! j) = None
     | Some a \<Rightarrow> (\<exists>l. Lists_Get None a (ctl_lists c) = Inr l \<and> rt_access (t_routes t ! j) = Some l))"
proof -
  note cfg = loaded_config [OF assms(1,2)]
  obtain j where j: "j < length (cfg_Hosts cfg)" "cfg_Hosts cfg ! j = h" using cfg(1) [OF assms(4)] by (auto simp: in_set_conv_nth)
  have maps: "map rt_host (t_routes t) = cfg_Hosts cfg" "maps_ok (t_exact t) (t_wildcard t) (cfg_Hosts cfg)"
    using built_maps [OF assms(3) cfg(2)] by blast+
  have "answers (cfg_Hosts cfg) d j" using j assms(5,6) by (simp add: answers_def)
  then have "t_exact t d = Some j" using maps(2) assms(7) unfolding maps_ok_def by blast
  then have look: "table_lookup t hdr = Some j" using assms(8,9) by (simp add: table_lookup_def lookup_maps_def)
  have len: "j < length (t_routes t)" using j(1) arg_cong [OF maps(1), of length] by simp
  then have host: "rt_host (t_routes t ! j) = h" using arg_cong [OF maps(1), of "\<lambda>xs. xs ! j"] j by simp
  have acc: "rt_access (t_routes t ! j) = access_of (cfg_AccessLists cfg) h"
    using buildRoutingTable_access [OF assms(3) nth_mem [OF len]] host by simp
  have row: "\<exists>r. map_of (hd_rows (ctl_hosts c)) i = Some r \<and> h = attach_all (ctl_hosts c) (scanHost i r)"
    using assms(4) by (auto simp: Hosts_Get_def split: option.splits)
  have "d \<in> set (children_of i (hd_domains (ctl_hosts c)))" using row assms(6) by auto
  from hosts_validD(4) [OF stored_okD(1) [OF assms(1)] subsetD [OF children_claimed this]] have "\<not> redirected c d" .
  then have red: "t_redirectExact t d = None"
    using buildRoutingTable_redirects [OF assms(3), of d] cfg(4) by (cases "t_redirectExact t d") auto
  have "\<exists>l. Lists_Get None a (ctl_lists c) = Inr l \<and> rt_access (t_routes t ! j) = Some l" if a: "h_AccessListID h = Some a" for a
  proof -
    from row obtain r where "map_of (hd_rows (ctl_hosts c)) i = Some r" "hw_access_list_id r = Some a" using a by auto
    then have "has_list c a" by (rule hosts_validD(5) [OF stored_okD(1) [OF assms(1)]])
    then obtain l where l: "Lists_Get None a (ctl_lists c) = Inr l" by (auto simp: has_list_def Lists_Get_def)
    with acc a cfg(3) [OF l] show ?thesis by simp
  qed
  with look host red acc show ?thesis by (auto split: option.split)
qed


section \<open>Overlapping requests\<close>


section \<open>Redirects come first\<close>

lemma kept_wildcard:
  "snd m p \<noteq> None \<Longrightarrow>
     snd (foldl (\<lambda>maps rd. if \<not> rd_Enabled rd then maps else foldl (add_domain rd) maps (rd_Domains rd)) m rds) p \<noteq> None"
  by (induction rds arbitrary: m) (simp_all add: add_domains)

lemma wildcard_redirected:
  assumes "rd \<in> set rds" "rd_Enabled rd" "''*.'' @ p \<in> set (rd_Domains rd)"
  shows "snd (build_redirects rds) p \<noteq> None"
proof -
  obtain xs ys where "rds = xs @ rd # ys" using split_list [OF assms(1)] by blast
  with assms(2,3) show ?thesis
    using kept_wildcard [where m = "foldl (add_domain rd) m (rd_Domains rd)" and p = p and rds = ys for m]
    by (simp add: build_redirects_def add_domains)
qed

text \<open>C37. A wildcard redirect hides every host below it. The store keeps a domain from being given to a host and
  to a redirect, but the redirects are asked first and with their wildcards: a request for a name that an
  enabled host has as it stands is answered with the redirect of the domain above it, although the lookup of
  hosts finds the host.\<close>

theorem wildcard_redirect_hides_host:
  assumes "stored_ok c" "served hash c" "en_table e = en_table (dp_engine (ctl_plane c))"
    and "Hosts_Get None i (ctl_hosts c) = Inr h" "h_Enabled h" "d \<in> set (h_Domains h)" "\<not> wild d"
    and "Redirects_Get None k (ctl_redirects c) = Inr rd" "rd_Enabled rd" "''*.'' @ parent \<in> set (rd_Domains rd)"
    and "normalizeHostHeader (q_Host r) = d" "cut d (CHR ''.'') = (label, parent, True)" "d \<noteq> []" "q_TLS r"
  shows "\<exists>j rd'. table_lookup (en_table e) (q_Host r) = Some j \<and> rt_host (t_routes (en_table e) ! j) = h \<and>
    ServeHTTP wd r (e, w) = (record_result wd r None (rd_StatusCode rd') 0 False e,
      http_Redirect conn_ops r (Redirect_Location (wd_parse wd) rd' (request_url r)) (rd_StatusCode rd') w, Completed)"
proof -
  obtain cfg prev st st' t where l: "load_config (\<lambda>_. None) c = Inr cfg"
    and b: "buildRoutingTable hash cfg prev st = (st', t)" and t: "en_table e = t"
    using assms(2,3) unfolding served_def by (metis prod.collapse)
  obtain j where j: "table_lookup t (q_Host r) = Some j" "rt_host (t_routes t ! j) = h" "t_redirectExact t d = None"
    using served_domain [OF assms(1) l b assms(4-7) assms(11,13)] by blast
  have "rd \<in> set (cfg_Redirects cfg)"
    using assms(8) l map_of_SomeD by (force simp: load_config_def Hosts_List_def Redirects_List_def Lists_List_def Redirects_Get_def split: option.splits)
  then have "snd (build_redirects (cfg_Redirects cfg)) parent \<noteq> None" using wildcard_redirected assms(9,10) by blast
  moreover have "t_redirectWildcard t = snd (build_redirects (cfg_Redirects cfg))"
    using b by (auto simp: buildRoutingTable_def Let_def split: prod.splits)
  ultimately obtain rd' where "table_lookupRedirect t (q_Host r) = Some rd'"
    using j(3) assms(11-13) by (auto simp: table_lookupRedirect_def lookup_maps_def)
  with j t assms(14) show ?thesis by (intro exI [of _ j] exI [of _ rd']) (simp add: ServeHTTP_def)
qed

section \<open>An example\<close>

text \<open>A host for \<^verbatim>\<open>example.com\<close> and a redirect of \<^verbatim>\<open>*.com\<close>.\<close>

definition ex_redirects :: redirects_db where
  "ex_redirects =
     \<lparr>rx_rows = [(1, \<lparr>rx_name = ''all'', rx_enabled = True, rx_target = ''https://example.net'', rx_status_code = 301,
        rx_preserve_path = False, rx_certificate_id = None\<rparr>)], rx_seq = 1, rx_domains = [(1, ''*.com'', 0)]\<rparr>"

definition ex_control :: control_plane where
  "ex_control =
     applyConfig (\<lambda>_. 0) (\<lambda>_. None)
       \<lparr>ctl_hosts = fst (Hosts_Create free_standing None Store_Hosts.ex_site no_hosts),
        ctl_redirects = ex_redirects,
        ctl_lists = \<lparr>li_rows = [], li_seq = 0, li_rules = [], li_ruleSeq = 0, li_users = [], li_userSeq = 0\<rparr>,
        ctl_certs = \<lparr>ct_rows = [], ct_domains = [], ct_seq = 0\<rparr>,
        ctl_plane = NewEngine (en_opts (ex_engine Proxy_Cache.ex_site)) None None\<rparr>"

lemma written_apart:
  assumes "set vs \<inter> {d. elsewhere d} = {}" "e \<in> claimed (child_rows k vs)"
  shows "\<not> elsewhere e"
proof -
  have "claimed (child_rows k vs) = set vs"
    using claimed_append [of "[]" k vs] unfolding append_Nil list.set(1) image_empty Un_empty_left .
  then have "e \<in> set vs" using assms(2) by (rule subst)
  with assms(1) show ?thesis by (metis IntI emptyE mem_Collect_eq)
qed

lemma ex_created_valid: "hosts_valid (\<lambda>_. False) (\<lambda>d. d \<in> {''*.com''}) (fst (Hosts_Create free_standing None Store_Hosts.ex_site no_hosts))"
proof -
  obtain db h where c: "Hosts_Create free_standing None Store_Hosts.ex_site no_hosts = (db, Inr h)" using ex_site_created by blast
  let ?none = "\<lambda>_. False"
  have "hosts_valid ?none ?none no_hosts" by (intro hosts_validI no_hosts_ok) (simp_all add: no_hosts_def)
  then have v: "hosts_valid ?none ?none db"
    using Hosts_Create_valid [OF _ c] by (simp add: free_standing_def)
  have d: "hd_domains db = child_rows 1 [''example.com'']"
    using writeHostChildren_claims [OF Hosts_Create_Inr [OF c]]
    by (simp add: no_hosts_def Store_Hosts.ex_site_def ex_host_def)
  have "set [''example.com''] \<inter> {d. d \<in> {''*.com''}} = {}" by simp
  then have apart: "e \<notin> {''*.com''}" if "e \<in> claimed (hd_domains db)" for e
    by (rule written_apart) (rule that [unfolded d])
  show ?thesis unfolding c fst_conv
  proof (rule hosts_valid_mono [OF v])
    show False if "e \<in> claimed (hd_domains db)" "e \<in> {''*.com''}" for e using apart [OF that(1)] that(2) by (rule notE)
  qed
qed

lemma ex_control_ok: "stored_ok ex_control" "served (\<lambda>_. 0) ex_control"
proof -
  have "redirected c = (\<lambda>d. d \<in> {''*.com''})" if "ctl_redirects c = ex_redirects" for c
    using that by (simp add: redirected_def [abs_def] ex_redirects_def)
  then show "stored_ok ex_control"
    unfolding ex_control_def applyConfig_stored using ex_created_valid
    by (simp add: stored_ok_def has_list_def [abs_def] redirects_ok_def lists_ok_def ex_redirects_def)
  show "served (\<lambda>_. 0) ex_control" unfolding ex_control_def by (rule applied_served) (simp add: apply_fair_def)
qed

lemma ex_control_host:
  "\<exists>h. Hosts_Get None 1 (ctl_hosts ex_control) = Inr h \<and> h_Enabled h \<and> h_Domains h = [''example.com'']"
proof -
  obtain db h where c: "Hosts_Create free_standing None Store_Hosts.ex_site no_hosts = (db, Inr h)" using ex_site_created by blast
  have "h_Enabled (without_ids x) = h_Enabled x" "h_Domains (without_ids x) = h_Domains x" for x by (simp_all add: without_ids_def)
  moreover have "h_Enabled Store_Hosts.ex_site" "h_Domains Store_Hosts.ex_site = [''example.com'']"
    by (simp_all add: Store_Hosts.ex_site_def ex_host_def)
  ultimately have "h_Enabled h" "h_Domains h = [''example.com'']" "h_ID h = 1" "Hosts_Get None (h_ID h) db = Inr (as_stored h)"
    using Hosts_Create_reads [OF no_hosts_ok c] by (metis, metis, simp add: no_hosts_def, blast)
  moreover have "ctl_hosts ex_control = db" using c by (simp add: ex_control_def applyConfig_def publish_def split: sum.split)
  ultimately show ?thesis by (simp add: as_stored_def)
qed

definition ex_office :: "config_io \<times> time \<times> config_request" where
  "ex_office = (\<lambda>_. None, 0, CreateList (Inr
     \<lparr>pa_Name = ''office'', pa_SatisfyAny = False, pa_Rules = [(''allow'', ''10.0.0.0/8'')], pa_BasicAuth = []\<rparr>))"



lemma ex_control_redirect:
  "\<exists>rd. Redirects_Get None 1 (ctl_redirects ex_control) = Inr rd \<and> rd_Enabled rd \<and> ''*.'' @ ''com'' \<in> set (rd_Domains rd)"
proof -
  have "ctl_redirects ex_control = ex_redirects" by (simp add: ex_control_def applyConfig_def publish_def split: sum.split)
  moreover have "\<exists>rd. Redirects_Get None 1 ex_redirects = Inr rd \<and> rd_Enabled rd \<and> ''*.'' @ ''com'' \<in> set (rd_Domains rd)"
    by (simp add: Redirects_Get_def ex_redirects_def attach_redirect_def scanRedirect_def children_of_def)
  ultimately show ?thesis by simp
qed

theorem wildcard_redirect_hides_host_witness:
  "\<forall>wd w. \<exists>j rd. table_lookup (en_table (dp_engine (ctl_plane ex_control))) ''example.com'' = Some j \<and>
     ServeHTTP wd ((ex_get ''/'' [])\<lparr>q_TLS := True\<rparr>) (dp_engine (ctl_plane ex_control), w) =
       (record_result wd ((ex_get ''/'' [])\<lparr>q_TLS := True\<rparr>) None (rd_StatusCode rd) 0 False (dp_engine (ctl_plane ex_control)),
        http_Redirect conn_ops ((ex_get ''/'' [])\<lparr>q_TLS := True\<rparr>)
          (Redirect_Location (wd_parse wd) rd (request_url ((ex_get ''/'' [])\<lparr>q_TLS := True\<rparr>))) (rd_StatusCode rd) w, Completed)"
proof (intro allI, goal_cases)
  case (1 wd w)
  obtain h where h: "Hosts_Get None 1 (ctl_hosts ex_control) = Inr h" "h_Enabled h" "h_Domains h = [''example.com'']"
    using ex_control_host by blast
  obtain rd where rd: "Redirects_Get None 1 (ctl_redirects ex_control) = Inr rd" "rd_Enabled rd" "''*.'' @ ''com'' \<in> set (rd_Domains rd)"
    using ex_control_redirect by blast
  have n: "normalizeHostHeader (q_Host ((ex_get ''/'' [])\<lparr>q_TLS := True\<rparr>)) = ''example.com''" by code_simp
  have c: "cut ''example.com'' (CHR ''.'') = (''example'', ''com'', True)" by code_simp
  have w: "\<not> wild ''example.com''" by (simp add: has_prefix_def)
  have d: "''example.com'' \<in> set (h_Domains h)" using h(3) by simp
  have q: "q_Host ((ex_get ''/'' [])\<lparr>q_TLS := True\<rparr>) = ''example.com''" by (simp add: ex_get_def)
  from wildcard_redirect_hides_host [OF ex_control_ok refl h(1,2) d w rd n c] show ?case unfolding q by fastforce
qed

end
