(* ===== verification/Store_Metrics.thy ===== *)
theory Store_Metrics
  imports Metrics Alerts_Usage Store_Base
begin

text \<open>
  The repository of traffic samples (\<^verbatim>\<open>store/metrics.go\<close>) and the resolutions of
  \<^verbatim>\<open>domain/repository.go\<close>. A row has the key host and second; its columns are integers of 64 bits with
  sign. A 64-bit counter with the highest bit set is refused by \<^verbatim>\<open>database/sql\<close> before it reaches
  SQLite, and a \<^verbatim>\<open>SUM\<close> that leaves the range is the error \<^verbatim>\<open>integer overflow\<close>; that the folding of two
  samples of one second turns into a floating-point number beyond the range is left out.
\<close>

section \<open>Rows\<close>

record figures =
  fg_requests :: int
  fg_status :: "int list"
  fg_bytes_in :: int
  fg_bytes_out :: int
  fg_lat_sum :: int
  fg_lat_max :: int

type_synonym metrics_table = "((int \<times> int) \<times> figures) list"

definition figures_of :: "sample \<Rightarrow> figures" where
  "figures_of s =
     \<lparr>fg_requests = uint (sa_Requests s), fg_status = map (\<lambda>i. uint (sa_Status s ! i)) [Status2xx, Status3xx, Status4xx, Status5xx, StatusError],
      fg_bytes_in = uint (sa_BytesIn s), fg_bytes_out = uint (sa_BytesOut s), fg_lat_sum = uint (sa_LatencySumMS s),
      fg_lat_max = uint (sa_LatencyMaxMS s)\<rparr>"

definition add_figures :: "figures \<Rightarrow> figures \<Rightarrow> figures" where
  "add_figures a b =
     \<lparr>fg_requests = fg_requests a + fg_requests b, fg_status = map2 (+) (fg_status a) (fg_status b),
      fg_bytes_in = fg_bytes_in a + fg_bytes_in b, fg_bytes_out = fg_bytes_out a + fg_bytes_out b,
      fg_lat_sum = fg_lat_sum a + fg_lat_sum b, fg_lat_max = max (fg_lat_max a) (fg_lat_max b)\<rparr>"

definition insert_sample :: "metrics_table \<Rightarrow> sample \<Rightarrow> metrics_table" where
  "insert_sample t s =
     (let k = (sa_HostID s, unix (sa_Timestamp s))
      in al_put k (case map_of t k of None \<Rightarrow> figures_of s | Some f \<Rightarrow> add_figures f (figures_of s)) t)"

text \<open>The arguments of the insert after host and time, in their order.\<close>

definition sample_args :: "sample \<Rightarrow> 64 word list" where
  "sample_args s =
     sa_Requests s # map (\<lambda>i. sa_Status s ! i) [Status2xx, Status3xx, Status4xx, Status5xx, StatusError]
     @ [sa_BytesIn s, sa_BytesOut s, sa_LatencySumMS s, sa_LatencyMaxMS s]"

fun high_bit :: "nat \<Rightarrow> 64 word list \<Rightarrow> string option" where
  "high_bit n [] = None"
| "high_bit n (w # ws) =
     (if 2 ^ 63 \<le> uint w
      then Some (''sql: converting argument $'' @ itoa (int n) @ '' type: uint64 values with high bit set are not supported'')
      else high_bit (Suc n) ws)"

fun insert_samples :: "sample list \<Rightarrow> metrics_table \<Rightarrow> db_error + metrics_table" where
  "insert_samples [] t = Inr t"
| "insert_samples (s # ss) t =
     (case high_bit 3 (sample_args s) of
        Some m \<Rightarrow> Inl (translateErr (Driver m))
      | None \<Rightarrow> insert_samples ss (insert_sample t s))"

definition WriteSamples :: "string option \<Rightarrow> sample list \<Rightarrow> metrics_table \<Rightarrow> metrics_table \<times> db_error option" where
  "WriteSamples fault ss t =
     (if ss = [] then (t, None)
      else case fault of
        Some m \<Rightarrow> (t, Some (translateErr (Driver m)))
      | None \<Rightarrow> (case insert_samples ss t of Inl e \<Rightarrow> (t, Some e) | Inr t' \<Rightarrow> (t', None)))"

section \<open>Queries\<close>

definition ResolutionMinute :: string where "ResolutionMinute = ''minute''"
definition ResolutionHour :: string where "ResolutionHour = ''hour''"
definition ResolutionDay :: string where "ResolutionDay = ''day''"

definition Resolution_Valid :: "string \<Rightarrow> bool" where
  "Resolution_Valid r \<longleftrightarrow> r \<in> {ResolutionMinute, ResolutionHour, ResolutionDay}"

definition Resolution_Duration :: "string \<Rightarrow> duration" where
  "Resolution_Duration r = (if r = ResolutionHour then hour else if r = ResolutionDay then 24 * hour else minute)"

record metrics_query =
  mq_HostID :: int
  mq_From :: time
  mq_To :: time
  mq_Resolution :: string

definition in_window :: "time \<Rightarrow> time \<Rightarrow> (int \<times> int) \<times> figures \<Rightarrow> bool" where
  "in_window from til r \<longleftrightarrow> unix from \<le> snd (fst r) \<and> snd (fst r) \<le> unix til"

definition no_figures :: figures where
  "no_figures = \<lparr>fg_requests = 0, fg_status = [0, 0, 0, 0, 0], fg_bytes_in = 0, fg_bytes_out = 0, fg_lat_sum = 0, fg_lat_max = 0\<rparr>"

definition sum_figures :: "figures list \<Rightarrow> figures" where
  "sum_figures fs = foldl add_figures no_figures fs"

definition overflows :: "figures \<Rightarrow> bool" where
  "overflows f \<longleftrightarrow> (\<exists>n \<in> set (fg_requests f # fg_bytes_in f # fg_bytes_out f # fg_lat_sum f # fg_status f). 2 ^ 63 \<le> n)"

text \<open>A group of a query: its key with the sums of its rows.\<close>

definition grouped :: "((int \<times> int) \<times> figures \<Rightarrow> int) \<Rightarrow> metrics_table \<Rightarrow> (int \<times> figures) list" where
  "grouped key rows = map (\<lambda>k. (k, sum_figures (map snd (filter (\<lambda>r. key r = k) rows)))) (sort (remdups (map key rows)))"

definition bucket_of :: "int \<Rightarrow> (int \<times> int) \<times> figures \<Rightarrow> int" where
  "bucket_of b r = go_quot (snd (fst r)) b * b"

definition query_sample :: "int \<Rightarrow> int \<times> figures \<Rightarrow> sample" where
  "query_sample h g =
     \<lparr>sa_HostID = h, sa_Timestamp = from_unix (fst g), sa_Requests = word_of_int (fg_requests (snd g)),
      sa_Status = map word_of_int (fg_status (snd g)), sa_BytesIn = word_of_int (fg_bytes_in (snd g)),
      sa_BytesOut = word_of_int (fg_bytes_out (snd g)), sa_LatencySumMS = word_of_int (fg_lat_sum (snd g)),
      sa_LatencyMaxMS = word_of_int (fg_lat_max (snd g))\<rparr>"

definition Metrics_Query :: "string option \<Rightarrow> metrics_query \<Rightarrow> metrics_table \<Rightarrow> db_error + sample list" where
  "Metrics_Query fault q t =
     (if \<not> Resolution_Valid (mq_Resolution q) then Inl (DbError (''invalid resolution '' @ [CHR 0x22] @ mq_Resolution q @ [CHR 0x22]))
      else if mq_To q < mq_From q then Inl (DbError ''query window ends before it starts'')
      else case fault of
        Some m \<Rightarrow> Inl (translateErr (Driver m))
      | None \<Rightarrow>
          let b = go_quot (Resolution_Duration (mq_Resolution q)) second;
              rows = filter (\<lambda>r. in_window (mq_From q) (mq_To q) r \<and> (mq_HostID q = 0 \<or> fst (fst r) = mq_HostID q)) t;
              gs = grouped (bucket_of b) rows
          in if list_ex (\<lambda>g. overflows (snd g)) gs then Inl (translateErr (Driver ''integer overflow''))
             else Inr (map (query_sample (mq_HostID q)) gs))"

definition Metrics_Prune :: "string option \<Rightarrow> time \<Rightarrow> metrics_table \<Rightarrow> metrics_table \<times> (db_error + nat)" where
  "Metrics_Prune fault before t =
     (case fault of
        Some m \<Rightarrow> (t, Inl (translateErr (Driver m)))
      | None \<Rightarrow>
          let left = filter (\<lambda>r. \<not> snd (fst r) < unix before) t
          in (left, Inr (length t - length left)))"

definition usage_of :: "int \<times> figures \<Rightarrow> usage_row" where
  "usage_of g =
     \<lparr>ur_HostID = fst g, ur_Requests = word_of_int (fg_requests (snd g)), ur_BytesIn = word_of_int (fg_bytes_in (snd g)),
      ur_BytesOut = word_of_int (fg_bytes_out (snd g))\<rparr>"

definition Metrics_Usage :: "string option \<Rightarrow> time \<Rightarrow> time \<Rightarrow> metrics_table \<Rightarrow> db_error + usage_row list" where
  "Metrics_Usage fault from til t =
     (if til < from then Inl (DbError ''usage window ends before it starts'')
      else case fault of
        Some m \<Rightarrow> Inl (translateErr (Driver m))
      | None \<Rightarrow>
          let gs = grouped (\<lambda>r. fst (fst r)) (filter (in_window from til) t)
          in if list_ex (\<lambda>(h, f). 2 ^ 63 \<le> fg_requests f \<or> 2 ^ 63 \<le> fg_bytes_in f \<or> 2 ^ 63 \<le> fg_bytes_out f) gs
             then Inl (translateErr (Driver ''integer overflow''))
             else Inr (map usage_of (sort_key (\<lambda>(h, f). - (fg_bytes_in f + fg_bytes_out f)) gs)))"

section \<open>Columns that add up\<close>

definition figures_ok :: "figures \<Rightarrow> bool" where
  "figures_ok f \<longleftrightarrow> length (fg_status f) = 5 \<and> 0 \<le> fg_requests f \<and> (\<forall>n \<in> set (fg_status f). 0 \<le> n)
     \<and> 0 \<le> fg_bytes_in f \<and> 0 \<le> fg_bytes_out f \<and> 0 \<le> fg_lat_sum f"

lemma figures_of_ok: "figures_ok (figures_of s)"
  by (auto simp: figures_ok_def figures_of_def)

lemma no_figures_ok: "figures_ok no_figures"
  by (simp add: figures_ok_def no_figures_def)

lemma add_figures_ok: "figures_ok a \<Longrightarrow> figures_ok b \<Longrightarrow> figures_ok (add_figures a b)"
  by (auto simp: figures_ok_def add_figures_def set_zip)

lemma foldl_figures_ok: "figures_ok a \<Longrightarrow> \<forall>f \<in> set fs. figures_ok f \<Longrightarrow> figures_ok (foldl add_figures a fs)"
  by (induction fs arbitrary: a) (auto simp: add_figures_ok)

lemma sum_figures_ok: "\<forall>f \<in> set fs. figures_ok f \<Longrightarrow> figures_ok (sum_figures fs)"
  unfolding sum_figures_def by (rule foldl_figures_ok [OF no_figures_ok])

lemma sum_by_key:
  fixes g :: "'a \<Rightarrow> int"
  shows "finite K \<Longrightarrow> key ` set rows \<subseteq> K \<Longrightarrow>
    (\<Sum>k \<in> K. sum_list (map g (filter (\<lambda>r. key r = k) rows))) = sum_list (map g rows)"
proof (induction rows)
  case (Cons r rows)
  have "sum_list (map g (filter (\<lambda>r. key r = k) (r # rows))) =
      (if key r = k then g r else 0) + sum_list (map g (filter (\<lambda>r. key r = k) rows))" for k by simp
  with Cons show ?case by (simp only: sum.distrib) simp
qed simp

lemma sum_al_put:
  fixes g :: "'k \<times> 'v \<Rightarrow> int"
  assumes "distinct (al_keys t)"
  shows "sum_list (map g (al_put k v t)) = sum_list (map g t) + g (k, v) - (case map_of t k of None \<Rightarrow> 0 | Some w \<Rightarrow> g (k, w))"
  using assms by (induction k v t rule: al_put.induct) auto

definition metrics_ok :: "metrics_table \<Rightarrow> bool" where
  "metrics_ok t \<longleftrightarrow> distinct (al_keys t) \<and> (\<forall>r \<in> set t. figures_ok (snd r))"

locale column =
  fixes get :: "figures \<Rightarrow> int"
  assumes get_add: "figures_ok a \<Longrightarrow> figures_ok b \<Longrightarrow> get (add_figures a b) = get a + get b"
    and get_none: "get no_figures = 0"
begin

lemma get_foldl:
  "figures_ok a \<Longrightarrow> \<forall>f \<in> set fs. figures_ok f \<Longrightarrow> get (foldl add_figures a fs) = get a + sum_list (map get fs)"
  by (induction fs arbitrary: a) (simp_all add: add_figures_ok get_add)

lemma get_sum: "\<forall>f \<in> set fs. figures_ok f \<Longrightarrow> get (sum_figures fs) = sum_list (map get fs)"
  by (simp add: sum_figures_def get_foldl no_figures_ok get_none)

text \<open>Grouping the rows of a table neither loses nor invents anything.\<close>

lemma grouped_sum:
  assumes "\<forall>r \<in> set rows. figures_ok (snd r)"
  shows "sum_list (map (\<lambda>g. get (snd g)) (grouped key rows)) = sum_list (map (\<lambda>r. get (snd r)) rows)"
proof -
  let ?K = "sort (remdups (map key rows))"
  have "get (sum_figures (map snd (filter (\<lambda>r. key r = k) rows))) = sum_list (map (\<lambda>r. get (snd r)) (filter (\<lambda>r. key r = k) rows))" for k
    using assms by (subst get_sum) (auto simp: comp_def)
  then have "sum_list (map (\<lambda>g. get (snd g)) (grouped key rows))
      = sum_list (map (\<lambda>k. sum_list (map (\<lambda>r. get (snd r)) (filter (\<lambda>r. key r = k) rows))) ?K)"
    by (simp add: grouped_def comp_def)
  also have "\<dots> = (\<Sum>k \<in> set ?K. sum_list (map (\<lambda>r. get (snd r)) (filter (\<lambda>r. key r = k) rows)))"
    by (rule sum_list_distinct_conv_sum_set) simp
  finally show ?thesis using sum_by_key [of "set ?K" key rows "\<lambda>r. get (snd r)"] by simp
qed

definition tally :: "(int \<times> int \<Rightarrow> bool) \<Rightarrow> metrics_table \<Rightarrow> int" where
  "tally P t = sum_list (map (\<lambda>(k, f). if P k then get f else 0) t)"

lemma tally_filter: "tally P t = sum_list (map (\<lambda>r. get (snd r)) (filter (\<lambda>r. P (fst r)) t))"
  by (induction t) (auto simp: tally_def)

lemma tally_insert:
  assumes "metrics_ok t"
  shows "tally P (insert_sample t s) = tally P t + (if P (sa_HostID s, unix (sa_Timestamp s)) then get (figures_of s) else 0)"
proof (cases "map_of t (sa_HostID s, unix (sa_Timestamp s))")
  case None
  then show ?thesis using assms by (simp add: insert_sample_def tally_def sum_al_put metrics_ok_def)
next
  case (Some f)
  then have "figures_ok f" using assms map_of_SomeD by (fastforce simp: metrics_ok_def)
  with Some show ?thesis using assms
    by (simp add: insert_sample_def tally_def sum_al_put metrics_ok_def get_add figures_of_ok)
qed

end

lemma insert_sample_ok: "metrics_ok t \<Longrightarrow> metrics_ok (insert_sample t s)"
proof -
  assume t: "metrics_ok t"
  let ?k = "(sa_HostID s, unix (sa_Timestamp s))"
  have "r \<in> set (al_put k v m) \<Longrightarrow> r = (k, v) \<or> r \<in> set m" for r k v and m :: metrics_table
    by (induction k v m rule: al_put.induct) (auto split: if_splits)
  moreover have "figures_ok (case map_of t ?k of None \<Rightarrow> figures_of s | Some f \<Rightarrow> add_figures f (figures_of s))"
    using t map_of_SomeD [of t ?k] by (fastforce simp: metrics_ok_def figures_of_ok intro: add_figures_ok split: option.split)
  ultimately show ?thesis
    using t distinct_al_put by (fastforce simp: metrics_ok_def insert_sample_def Let_def)
qed

interpretation requests: column fg_requests
  by unfold_locales (simp_all add: add_figures_def no_figures_def)

interpretation bytes_in: column fg_bytes_in
  by unfold_locales (simp_all add: add_figures_def no_figures_def)

interpretation bytes_out: column fg_bytes_out
  by unfold_locales (simp_all add: add_figures_def no_figures_def)

interpretation lat_sum: column fg_lat_sum
  by unfold_locales (simp_all add: add_figures_def no_figures_def)

interpretation status: column "\<lambda>f. fg_status f ! (i mod 5)" for i
proof
  show "fg_status no_figures ! (i mod 5) = 0"
    using mod_less_divisor [of 5 i] by (auto simp: no_figures_def nth_Cons split: nat.split)
qed (simp add: add_figures_def figures_ok_def)

section \<open>What was written\<close>

definition sample_key :: "sample \<Rightarrow> int \<times> int" where
  "sample_key s = (sa_HostID s, unix (sa_Timestamp s))"

fun write_all :: "(string option \<times> sample list) list \<Rightarrow> metrics_table \<Rightarrow> metrics_table \<times> sample list" where
  "write_all [] t = (t, [])"
| "write_all ((fault, ss) # bs) t =
     (case WriteSamples fault ss t of
        (t', Some e) \<Rightarrow> write_all bs t'
      | (t', None) \<Rightarrow> (case write_all bs t' of (t'', written) \<Rightarrow> (t'', ss @ written)))"

lemma insert_samples_ok: "insert_samples ss t = Inr t' \<Longrightarrow> metrics_ok t \<Longrightarrow> metrics_ok t'"
  by (induction ss arbitrary: t) (auto simp: insert_sample_ok split: option.splits)

lemma WriteSamples_cases:
  "WriteSamples fault ss t = (t', r) \<Longrightarrow> if r = None then insert_samples ss t = Inr t' else t' = t"
  by (auto simp: WriteSamples_def split: if_splits option.splits sum.splits)

lemma write_all_ok: "write_all bs t = (t', ss) \<Longrightarrow> metrics_ok t \<Longrightarrow> metrics_ok t'"
proof (induction bs t arbitrary: t' ss rule: write_all.induct)
  case (2 fault xs bs t)
  obtain t1 r where w: "WriteSamples fault xs t = (t1, r)" by fastforce
  have "metrics_ok t1" using WriteSamples_cases [OF w] insert_samples_ok 2(4) by (auto split: if_splits)
  with 2 w show ?case by (cases r) (auto split: prod.splits)
qed simp

context column begin

lemma tally_inserted:
  "insert_samples ss t = Inr t' \<Longrightarrow> metrics_ok t \<Longrightarrow>
     tally P t' = tally P t + sum_list (map (\<lambda>s. if P (sample_key s) then get (figures_of s) else 0) ss)"
  by (induction ss arbitrary: t) (auto simp: insert_sample_ok tally_insert sample_key_def split: option.splits)

lemma tally_written:
  "write_all bs t = (t', ss) \<Longrightarrow> metrics_ok t \<Longrightarrow>
     tally P t' = tally P t + sum_list (map (\<lambda>s. if P (sample_key s) then get (figures_of s) else 0) ss)"
proof (induction bs t arbitrary: t' ss rule: write_all.induct)
  case (2 fault xs bs t)
  obtain t1 r where w: "WriteSamples fault xs t = (t1, r)" by fastforce
  show ?case
  proof (cases r)
    case None
    then have i: "insert_samples xs t = Inr t1" using WriteSamples_cases [OF w] by simp
    obtain t2 ys where y: "write_all bs t1 = (t2, ys)" by fastforce
    with 2(3) w None have "t' = t2" "ss = xs @ ys" by auto
    with 2(1) [OF w [symmetric] None y] insert_samples_ok [OF i 2(4)] tally_inserted [OF i 2(4)] show ?thesis by simp
  next
    case (Some e)
    then show ?thesis using WriteSamples_cases [OF w] 2 w by (auto split: if_splits)
  qed
qed simp

text \<open>The rows of a table that was empty, in terms of the samples written to it.\<close>

lemma rows_written:
  assumes "write_all bs [] = (t, ss)"
  shows "sum_list (map (\<lambda>r. get (snd r)) (filter (\<lambda>r. P (fst r)) t)) = sum_list (map (\<lambda>s. get (figures_of s)) (filter (\<lambda>s. P (sample_key s)) ss))"
proof -
  have "metrics_ok []" by (simp add: metrics_ok_def)
  from tally_written [OF assms this, of P] have "tally P t = sum_list (map (\<lambda>s. if P (sample_key s) then get (figures_of s) else 0) ss)"
    by (simp add: tally_def)
  then show ?thesis by (simp add: tally_filter sum_list_map_filter')
qed

end

definition in_query :: "metrics_query \<Rightarrow> sample \<Rightarrow> bool" where
  "in_query q s \<longleftrightarrow> unix (mq_From q) \<le> unix (sa_Timestamp s) \<and> unix (sa_Timestamp s) \<le> unix (mq_To q)
     \<and> (mq_HostID q = 0 \<or> sa_HostID s = mq_HostID q)"

definition in_column :: "int \<Rightarrow> bool" where
  "in_column n \<longleftrightarrow> 0 \<le> n \<and> n < 2 ^ 63"

lemma uint_column: "in_column n \<Longrightarrow> uint (word_of_int n :: 64 word) = n"
  by (simp add: in_column_def uint_word_of_int)

lemma fitting_columns:
  assumes "figures_ok f" "\<not> overflows f"
  shows "in_column (fg_requests f)" "in_column (fg_bytes_in f)" "in_column (fg_bytes_out f)" "in_column (fg_lat_sum f)"
    "i < 5 \<Longrightarrow> in_column (fg_status f ! i)"
  using assms unfolding figures_ok_def overflows_def in_column_def by (auto simp: not_le)

lemma grouped_ok:
  assumes "\<forall>r \<in> set rows. figures_ok (snd r)" "g \<in> set (grouped key rows)"
  shows "figures_ok (snd g)"
proof -
  obtain k where "snd g = sum_figures (map snd (filter (\<lambda>r. key r = k) rows))" using assms(2) by (auto simp: grouped_def)
  moreover have "\<forall>f \<in> set (map snd (filter (\<lambda>r. key r = k) rows)). figures_ok f" using assms(1) by simp
  ultimately show ?thesis using sum_figures_ok by simp
qed

lemma figures_of_status: "i < 5 \<Longrightarrow> fg_status (figures_of s) ! i = uint (sa_Status s ! i)"
  by (auto simp: figures_of_def status_classes less_Suc_eq numeral_eq_Suc)

lemma query_sample_status: "figures_ok (snd g) \<Longrightarrow> i < 5 \<Longrightarrow> sa_Status (query_sample h g) ! i = word_of_int (fg_status (snd g) ! i)"
  by (simp add: query_sample_def figures_ok_def)

lemma Metrics_Query_Inr:
  assumes "Metrics_Query None q t = Inr out"
  obtains b rows where "rows = filter (\<lambda>r. in_window (mq_From q) (mq_To q) r \<and> (mq_HostID q = 0 \<or> fst (fst r) = mq_HostID q)) t"
    "out = map (query_sample (mq_HostID q)) (grouped (bucket_of b) rows)" "\<forall>g \<in> set (grouped (bucket_of b) rows). \<not> overflows (snd g)"
  using assms by (auto simp: Metrics_Query_def Let_def list_ex_iff split: if_splits)

text \<open>C7. The history adds up: whatever resolution and window are asked for, every counter summed over the
  points returned is that counter summed over the samples that were written, those of a batch the
  database refused apart, whose host and second the query selects. The points are in order and no two are
  of one bucket.\<close>

theorem history_conserves:
  assumes "write_all bs [] = (t, written)" "Metrics_Query None q t = Inr out"
  shows "(\<Sum>p\<leftarrow>out. uint (sa_Requests p)) = (\<Sum>s\<leftarrow>filter (in_query q) written. uint (sa_Requests s)) \<and>
    (\<Sum>p\<leftarrow>out. uint (sa_BytesIn p)) = (\<Sum>s\<leftarrow>filter (in_query q) written. uint (sa_BytesIn s)) \<and>
    (\<Sum>p\<leftarrow>out. uint (sa_BytesOut p)) = (\<Sum>s\<leftarrow>filter (in_query q) written. uint (sa_BytesOut s)) \<and>
    (\<Sum>p\<leftarrow>out. uint (sa_LatencySumMS p)) = (\<Sum>s\<leftarrow>filter (in_query q) written. uint (sa_LatencySumMS s)) \<and>
    (\<forall>i < 5. (\<Sum>p\<leftarrow>out. uint (sa_Status p ! i)) = (\<Sum>s\<leftarrow>filter (in_query q) written. uint (sa_Status s ! i))) \<and>
    sorted_wrt (\<lambda>a b. sa_Timestamp a < sa_Timestamp b) out"
proof -
  obtain b rows where rows: "rows = filter (\<lambda>r. in_window (mq_From q) (mq_To q) r \<and> (mq_HostID q = 0 \<or> fst (fst r) = mq_HostID q)) t"
    and out: "out = map (query_sample (mq_HostID q)) (grouped (bucket_of b) rows)"
    and fits: "\<forall>g \<in> set (grouped (bucket_of b) rows). \<not> overflows (snd g)"
    by (rule Metrics_Query_Inr [OF assms(2)])
  define P where "P k \<longleftrightarrow> unix (mq_From q) \<le> snd k \<and> snd k \<le> unix (mq_To q) \<and> (mq_HostID q = 0 \<or> fst k = mq_HostID q)" for k :: "int \<times> int"
  have r: "rows = filter (\<lambda>r. P (fst r)) t" unfolding rows by (intro filter_cong) (auto simp: in_window_def P_def)
  have p: "filter (\<lambda>s. P (sample_key s)) written = filter (in_query q) written"
    by (intro filter_cong) (auto simp: P_def sample_key_def in_query_def)
  have "metrics_ok []" by (simp add: metrics_ok_def)
  from write_all_ok [OF assms(1) this] have ok: "\<forall>r \<in> set rows. figures_ok (snd r)" by (auto simp: r metrics_ok_def)
  note g = fitting_columns [OF grouped_ok [OF ok] fits [rule_format]]
  let ?gs = "grouped (bucket_of b) rows"
  have sums: "(\<Sum>p\<leftarrow>out. get p) = (\<Sum>s\<leftarrow>filter (in_query q) written. fig (figures_of s))"
    if "column fig" "\<And>x. x \<in> set ?gs \<Longrightarrow> get (query_sample (mq_HostID q) x) = fig (snd x)" for get :: "sample \<Rightarrow> int" and fig
  proof -
    have "(\<Sum>p\<leftarrow>out. get p) = (\<Sum>x\<leftarrow>?gs. fig (snd x))"
      unfolding out by (simp add: comp_def that(2) cong: map_cong)
    then show ?thesis
      using column.grouped_sum [OF that(1) ok] column.rows_written [OF that(1) assms(1), of P] unfolding r p by simp
  qed
  have "sorted_wrt (\<lambda>a b. sa_Timestamp a < sa_Timestamp b) out"
    unfolding out grouped_def query_sample_def from_unix_def
    by (simp add: sorted_wrt_map strict_sorted_iff)
  moreover have "(\<Sum>p\<leftarrow>out. uint (sa_Requests p)) = (\<Sum>s\<leftarrow>filter (in_query q) written. uint (sa_Requests s))"
    using sums [OF requests.column_axioms, of "\<lambda>p. uint (sa_Requests p)"] g
    by (simp add: query_sample_def uint_column figures_of_def)
  moreover have "(\<Sum>p\<leftarrow>out. uint (sa_BytesIn p)) = (\<Sum>s\<leftarrow>filter (in_query q) written. uint (sa_BytesIn s))"
    using sums [OF bytes_in.column_axioms, of "\<lambda>p. uint (sa_BytesIn p)"] g
    by (simp add: query_sample_def uint_column figures_of_def)
  moreover have "(\<Sum>p\<leftarrow>out. uint (sa_BytesOut p)) = (\<Sum>s\<leftarrow>filter (in_query q) written. uint (sa_BytesOut s))"
    using sums [OF bytes_out.column_axioms, of "\<lambda>p. uint (sa_BytesOut p)"] g
    by (simp add: query_sample_def uint_column figures_of_def)
  moreover have "(\<Sum>p\<leftarrow>out. uint (sa_LatencySumMS p)) = (\<Sum>s\<leftarrow>filter (in_query q) written. uint (sa_LatencySumMS s))"
    using sums [OF lat_sum.column_axioms, of "\<lambda>p. uint (sa_LatencySumMS p)"] g
    by (simp add: query_sample_def uint_column figures_of_def)
  moreover have "(\<Sum>p\<leftarrow>out. uint (sa_Status p ! i)) = (\<Sum>s\<leftarrow>filter (in_query q) written. uint (sa_Status s ! i))" if "i < 5" for i
    using sums [OF status.column_axioms [of i], of "\<lambda>p. uint (sa_Status p ! i)"] g that grouped_ok [OF ok]
    by (simp add: query_sample_status uint_column figures_of_status)
  ultimately show ?thesis by blast
qed

lemma keys_inserted: "set (al_keys (insert_sample t s)) = insert (sample_key s) (set (al_keys t))"
  unfolding insert_sample_def sample_key_def Let_def by (rule set_keys_al_put)

lemma keys_inserted_all: "insert_samples ss t = Inr t' \<Longrightarrow> set (al_keys t') = sample_key ` set ss \<union> set (al_keys t)"
  by (induction ss arbitrary: t) (auto simp: keys_inserted simp del: set_map split: option.splits)

lemma keys_written: "write_all bs t = (t', ss) \<Longrightarrow> set (al_keys t') = sample_key ` set ss \<union> set (al_keys t)"
proof (induction bs t arbitrary: t' ss rule: write_all.induct)
  case (2 fault xs bs t)
  obtain t1 r where w: "WriteSamples fault xs t = (t1, r)" by fastforce
  show ?case
  proof (cases r)
    case None
    then have i: "insert_samples xs t = Inr t1" using WriteSamples_cases [OF w] by simp
    obtain t2 ys where y: "write_all bs t1 = (t2, ys)" by fastforce
    with 2(3) w None have "t' = t2" "ss = xs @ ys" by auto
    with 2(1) [OF w [symmetric] None y] keys_inserted_all [OF i] show ?thesis by (simp add: image_Un Un_ac)
  next
    case (Some e)
    then show ?thesis using WriteSamples_cases [OF w] 2 w by (auto split: if_splits)
  qed
qed simp

definition in_span :: "time \<Rightarrow> time \<Rightarrow> sample \<Rightarrow> bool" where
  "in_span from til s \<longleftrightarrow> unix from \<le> unix (sa_Timestamp s) \<and> unix (sa_Timestamp s) \<le> unix til"

lemma Metrics_Usage_Inr:
  assumes "Metrics_Usage None from til t = Inr rows"
  obtains gs where "gs = grouped (\<lambda>r. fst (fst r)) (filter (in_window from til) t)"
    "rows = map usage_of (sort_key (\<lambda>(h, f). - (fg_bytes_in f + fg_bytes_out f)) gs)"
    "\<forall>g \<in> set gs. fg_requests (snd g) < 2 ^ 63 \<and> fg_bytes_in (snd g) < 2 ^ 63 \<and> fg_bytes_out (snd g) < 2 ^ 63"
  using assms by (auto simp: Metrics_Usage_def Let_def list_ex_iff not_le case_prod_unfold split: if_splits)

text \<open>The usage report adds up: it has one row for every host with a sample in the window, heaviest first,
  and each figure of a row is the sum of that figure over the samples of the host that were written with a
  second in the window.\<close>

theorem usage_conserves:
  assumes "write_all bs [] = (t, written)" "Metrics_Usage None from til t = Inr rows"
  shows "distinct (map ur_HostID rows) \<and> set (map ur_HostID rows) = sa_HostID ` set (filter (in_span from til) written) \<and>
    sorted_wrt (\<lambda>a b. uint (ur_BytesIn b) + uint (ur_BytesOut b) \<le> uint (ur_BytesIn a) + uint (ur_BytesOut a)) rows \<and>
    (\<forall>u \<in> set rows.
       uint (ur_Requests u) = (\<Sum>s\<leftarrow>filter (\<lambda>s. in_span from til s \<and> sa_HostID s = ur_HostID u) written. uint (sa_Requests s)) \<and>
       uint (ur_BytesIn u) = (\<Sum>s\<leftarrow>filter (\<lambda>s. in_span from til s \<and> sa_HostID s = ur_HostID u) written. uint (sa_BytesIn s)) \<and>
       uint (ur_BytesOut u) = (\<Sum>s\<leftarrow>filter (\<lambda>s. in_span from til s \<and> sa_HostID s = ur_HostID u) written. uint (sa_BytesOut s)))"
proof -
  obtain gs where gs: "gs = grouped (\<lambda>r. fst (fst r)) (filter (in_window from til) t)"
    and rows: "rows = map usage_of (sort_key (\<lambda>(h, f). - (fg_bytes_in f + fg_bytes_out f)) gs)"
    and fits: "\<forall>g \<in> set gs. fg_requests (snd g) < 2 ^ 63 \<and> fg_bytes_in (snd g) < 2 ^ 63 \<and> fg_bytes_out (snd g) < 2 ^ 63"
    by (rule Metrics_Usage_Inr [OF assms(2)])
  let ?rs = "filter (in_window from til) t"
  have "metrics_ok []" by (simp add: metrics_ok_def)
  from write_all_ok [OF assms(1) this] have ok: "\<forall>r \<in> set ?rs. figures_ok (snd r)" by (auto simp: metrics_ok_def)
  have fst_gs: "map fst gs = sort (remdups (map (\<lambda>r. fst (fst r)) ?rs))" by (simp add: gs grouped_def comp_def)
  then have d: "distinct gs" "inj_on fst (set gs)" using distinct_map [of fst gs] by simp_all
  have sums: "fig (snd g) = (\<Sum>s\<leftarrow>filter (\<lambda>s. in_span from til s \<and> sa_HostID s = fst g) written. fig (figures_of s))"
    if "column fig" "g \<in> set gs" for fig g
  proof -
    let ?P = "\<lambda>k. unix from \<le> snd k \<and> snd k \<le> unix til \<and> fst k = fst g"
    have "snd g = sum_figures (map snd (filter (\<lambda>r. fst (fst r) = fst g) ?rs))" using that(2) by (auto simp: gs grouped_def)
    then have "fig (snd g) = sum_list (map (\<lambda>r. fig (snd r)) (filter (\<lambda>r. fst (fst r) = fst g) ?rs))"
      using column.get_sum [OF that(1), of "map snd (filter (\<lambda>r. fst (fst r) = fst g) ?rs)"] ok by (simp add: comp_def)
    also have "filter (\<lambda>r. fst (fst r) = fst g) ?rs = filter (\<lambda>r. ?P (fst r)) t"
      unfolding filter_filter by (intro filter_cong) (auto simp: in_window_def)
    also have "sum_list (map (\<lambda>r. fig (snd r)) (filter (\<lambda>r. ?P (fst r)) t)) = (\<Sum>s\<leftarrow>filter (\<lambda>s. ?P (sample_key s)) written. fig (figures_of s))"
      by (rule column.rows_written [OF that(1) assms(1)])
    also have "filter (\<lambda>s. ?P (sample_key s)) written = filter (\<lambda>s. in_span from til s \<and> sa_HostID s = fst g) written"
      by (intro filter_cong) (auto simp: in_span_def sample_key_def)
    finally show ?thesis .
  qed
  have exact: "ur_HostID (usage_of g) = fst g" "uint (ur_Requests (usage_of g)) = fg_requests (snd g)"
    "uint (ur_BytesIn (usage_of g)) = fg_bytes_in (snd g)" "uint (ur_BytesOut (usage_of g)) = fg_bytes_out (snd g)" if "g \<in> set gs" for g
    using fits that grouped_ok [OF ok, of g "\<lambda>r. fst (fst r)"] unfolding gs [symmetric]
    by (auto simp: usage_of_def figures_ok_def in_column_def intro!: uint_column)
  have "map ur_HostID rows = map fst (sort_key (\<lambda>(h, f). - (fg_bytes_in f + fg_bytes_out f)) gs)"
    by (simp add: rows usage_of_def comp_def)
  then have "distinct (map ur_HostID rows)" using d by (simp add: distinct_map)
  moreover have "set (map ur_HostID rows) = sa_HostID ` set (filter (in_span from til) written)"
  proof -
    have "set (map ur_HostID rows) = set (map fst gs)" using exact(1) by (auto simp: rows image_image)
    also have "\<dots> = fst ` {k \<in> set (al_keys t). unix from \<le> snd k \<and> snd k \<le> unix til}"
      unfolding fst_gs by (force simp: in_window_def)
    also have "set (al_keys t) = sample_key ` set written" using keys_written [OF assms(1)] by simp
    also have "fst ` {k \<in> sample_key ` set written. unix from \<le> snd k \<and> snd k \<le> unix til}
        = (\<lambda>s. fst (sample_key s)) ` {s \<in> set written. unix from \<le> snd (sample_key s) \<and> snd (sample_key s) \<le> unix til}" by blast
    finally show ?thesis by (simp add: sample_key_def in_span_def)
  qed
  moreover have "sorted_wrt (\<lambda>a b. uint (ur_BytesIn b) + uint (ur_BytesOut b) \<le> uint (ur_BytesIn a) + uint (ur_BytesOut a)) rows"
  proof -
    let ?k = "\<lambda>(h, f). - (fg_bytes_in f + fg_bytes_out f)"
    have "sorted_wrt (\<lambda>a b. ?k a \<le> ?k b) (sort_key ?k gs)" using sorted_sort_key [of ?k gs] by (simp add: sorted_wrt_map)
    then show ?thesis unfolding rows sorted_wrt_map
    proof (rule sorted_wrt_mono_rel [rotated])
      fix a b
      assume "a \<in> set (sort_key ?k gs)" "b \<in> set (sort_key ?k gs)" and le: "?k a \<le> ?k b"
      then have "a \<in> set gs" "b \<in> set gs" by simp_all
      with le show "uint (ur_BytesIn (usage_of b)) + uint (ur_BytesOut (usage_of b)) \<le> uint (ur_BytesIn (usage_of a)) + uint (ur_BytesOut (usage_of a))"
        by (simp only: exact) (simp add: case_prod_unfold)
    qed
  qed
  moreover have "\<forall>u \<in> set rows.
       uint (ur_Requests u) = (\<Sum>s\<leftarrow>filter (\<lambda>s. in_span from til s \<and> sa_HostID s = ur_HostID u) written. uint (sa_Requests s)) \<and>
       uint (ur_BytesIn u) = (\<Sum>s\<leftarrow>filter (\<lambda>s. in_span from til s \<and> sa_HostID s = ur_HostID u) written. uint (sa_BytesIn s)) \<and>
       uint (ur_BytesOut u) = (\<Sum>s\<leftarrow>filter (\<lambda>s. in_span from til s \<and> sa_HostID s = ur_HostID u) written. uint (sa_BytesOut s))"
    using exact sums [OF requests.column_axioms] sums [OF bytes_in.column_axioms] sums [OF bytes_out.column_axioms]
    by (simp add: rows figures_of_def)
  ultimately show ?thesis by blast
qed

section \<open>Examples\<close>

definition ex_sample :: "int \<Rightarrow> time \<Rightarrow> nat \<Rightarrow> sample" where
  "ex_sample h at_time n =
     \<lparr>sa_HostID = h, sa_Timestamp = at_time, sa_Requests = of_nat n, sa_Status = [of_nat n, 0, 0, 0, 0], sa_BytesIn = 100, sa_BytesOut = 200,
      sa_LatencySumMS = 30, sa_LatencyMaxMS = 20\<rparr>"

text \<open>Three samples of two hosts in one minute, and a batch the database refused.\<close>

definition ex_batches :: "(string option \<times> sample list) list" where
  "ex_batches = [(None, [ex_sample 1 (60 * second) 2, ex_sample 2 (60 * second) 5]), (Some ''disk I/O error'', [ex_sample 1 (65 * second) 9]),
     (None, [ex_sample 1 (70 * second) 3])]"

definition ex_minute :: metrics_query where
  "ex_minute = \<lparr>mq_HostID = 1, mq_From = 0, mq_To = 100 * second, mq_Resolution = ResolutionMinute\<rparr>"

lemma ex_written:
  "(\<Sum>s\<leftarrow>filter (in_query ex_minute) (snd (write_all ex_batches [])). uint (sa_Requests s)) = 5"
  "sa_HostID ` set (filter (in_span 0 (100 * second)) (snd (write_all ex_batches []))) = {1, 2}"
  "\<not> isl (Metrics_Query None ex_minute (fst (write_all ex_batches [])))"
  "\<not> isl (Metrics_Usage None 0 (100 * second) (fst (write_all ex_batches [])))"
  by code_simp+

theorem history_conserves_witness:
  "\<exists>out. Metrics_Query None ex_minute (fst (write_all ex_batches [])) = Inr out \<and> (\<Sum>p\<leftarrow>out. uint (sa_Requests p)) = 5"
proof -
  obtain out where o: "Metrics_Query None ex_minute (fst (write_all ex_batches [])) = Inr out"
    using ex_written(3) by (cases "Metrics_Query None ex_minute (fst (write_all ex_batches []))") auto
  with history_conserves [OF prod.collapse [symmetric] o] ex_written(1) show ?thesis by simp
qed

theorem usage_conserves_witness:
  "\<exists>rows. Metrics_Usage None 0 (100 * second) (fst (write_all ex_batches [])) = Inr rows \<and> set (map ur_HostID rows) = {1, 2}"
proof -
  obtain rows where r: "Metrics_Usage None 0 (100 * second) (fst (write_all ex_batches [])) = Inr rows"
    using ex_written(4) by (cases "Metrics_Usage None 0 (100 * second) (fst (write_all ex_batches []))") auto
  with usage_conserves [OF prod.collapse [symmetric] r] ex_written(2) show ?thesis by simp
qed

end
