(* ===== verification/Api_Metrics.thy ===== *)
theory Api_Metrics
  imports Store_Metrics Store_Hosts Api_Users Access_Log Domain_Certificate
begin

text \<open>
  The endpoints that read history (\<^verbatim>\<open>api/metrics.go\<close>, \<^verbatim>\<open>api/accesslog.go\<close>) and the table of the
  downloadable report (\<^verbatim>\<open>api/usageexport.go\<close>). The query parameters of a request are a function, the empty
  string for one that is absent; parsing an RFC 3339 time is a parameter. Fractions are exact where the
  code has floating-point numbers. A reply is what is sent with status 200, or the error that
  \<^const>\<open>writeError\<close> renders.
\<close>

type_synonym query_values = "string \<Rightarrow> string"
type_synonym time_parser = "string \<Rightarrow> time option"

section \<open>History\<close>

record series_point =
  sp_Timestamp :: time
  sp_Requests :: "64 word"
  sp_RequestsPerSec :: rat
  sp_Partial :: bool
  sp_Status :: "64 word list"
  sp_BytesIn :: "64 word"
  sp_BytesOut :: "64 word"
  sp_MeanLatencyMS :: rat
  sp_MaxLatencyMS :: "64 word"
  sp_ErrorRate :: rat

record series_response =
  sr_HostID :: int
  sr_From :: time
  sr_To :: time
  sr_Resolution :: string
  sr_Points :: "series_point list"

definition dur_seconds :: "duration \<Rightarrow> rat" where "dur_seconds d = of_int d / of_int second"

definition partialSpan :: "time \<Rightarrow> time \<Rightarrow> duration \<Rightarrow> duration \<Rightarrow> duration" where
  "partialSpan bucketStart last_data width flush_every =
     (let span = saturate (last_data - bucketStart)
      in if span > width then width else if span < flush_every then flush_every else span)"

definition flushInterval :: "duration \<Rightarrow> duration" where
  "flushInterval metricsFlush = (if metricsFlush > 0 then metricsFlush else 10 * second)"

definition historyNow :: "time \<Rightarrow> collector option \<Rightarrow> time" where
  "historyNow now c =
     (case c of None \<Rightarrow> now | Some c \<Rightarrow> (case LastFlush c of None \<Rightarrow> now | Some at_time \<Rightarrow> at_time))"

definition maxBuckets :: int where "maxBuckets = 5000"

definition series_point_of :: "duration \<Rightarrow> time \<Rightarrow> duration \<Rightarrow> sample \<Rightarrow> series_point" where
  "series_point_of width last_data flush_every s =
     (let partial = sa_Timestamp s + width > last_data;
          elapsed = (if partial then dur_seconds (partialSpan (sa_Timestamp s) last_data width flush_every) else dur_seconds width);
          elapsed = (if elapsed \<le> 0 then dur_seconds width else elapsed);
          errs = sa_Status s ! Status5xx + sa_Status s ! StatusError
      in \<lparr>sp_Timestamp = sa_Timestamp s, sp_Requests = sa_Requests s,
          sp_RequestsPerSec = of_int (uint (sa_Requests s)) / elapsed, sp_Partial = partial,
          sp_Status = map (\<lambda>i. sa_Status s ! i) [Status2xx, Status3xx, Status4xx, Status5xx, StatusError],
          sp_BytesIn = sa_BytesIn s, sp_BytesOut = sa_BytesOut s, sp_MeanLatencyMS = Sample_MeanLatencyMS s,
          sp_MaxLatencyMS = sa_LatencyMaxMS s,
          sp_ErrorRate = (if sa_Requests s > 0 then ratio errs (sa_Requests s) else 0)\<rparr>)"

definition toSeries :: "sample list \<Rightarrow> string \<Rightarrow> time \<Rightarrow> duration \<Rightarrow> series_point list" where
  "toSeries samples resolution last_data flush_every = map (series_point_of (Resolution_Duration resolution) last_data flush_every) samples"

text \<open>A time in the query, or the default.\<close>

definition time_value :: "time_parser \<Rightarrow> query_values \<Rightarrow> string \<Rightarrow> time \<Rightarrow> api_error + time" where
  "time_value parse q name dflt =
     (if q name = [] then Inr dflt
      else case parse (q name) of
        None \<Rightarrow> Inl (bad_request (name @ '' must be an RFC3339 timestamp''))
      | Some t \<Rightarrow> Inr t)"

definition history_query :: "time_parser \<Rightarrow> time \<Rightarrow> query_values \<Rightarrow> api_error + metrics_query" where
  "history_query parse now q =
     then_do (time_value parse q ''from'' (now - hour)) (\<lambda>from.
     then_do (time_value parse q ''to'' now) (\<lambda>til.
     then_do (if q ''resolution'' = [] then Inr ResolutionMinute
              else if Resolution_Valid (q ''resolution'') then Inr (q ''resolution'')
              else Inl (bad_request ''resolution must be minute, hour or day'')) (\<lambda>resolution.
     then_do (if q ''hostId'' = [] then Inr 0
              else case parse_int (q ''hostId'') of None \<Rightarrow> Inl (bad_request ''hostId must be a number'') | Some i \<Rightarrow> Inr i) (\<lambda>hostID.
     if \<not> til > from then Inl (bad_request ''to must be later than from'')
     else if go_quot (saturate (til - from)) (Resolution_Duration resolution) > maxBuckets
     then Inl (bad_request (''the requested window is too long for this resolution; '' @
                            ''use a coarser resolution or a shorter window''))
     else Inr \<lparr>mq_HostID = hostID, mq_From = from, mq_To = til, mq_Resolution = resolution\<rparr>))))"

definition handleMetricsHistory ::
  "time_parser \<Rightarrow> time \<Rightarrow> string option \<Rightarrow> collector option \<Rightarrow> duration \<Rightarrow> query_values \<Rightarrow> metrics_table \<Rightarrow> api_error + series_response" where
  "handleMetricsHistory parse now fault c metricsFlush q t =
     then_do (history_query parse now q) (\<lambda>mq.
       case Metrics_Query fault mq t of
         Inl e \<Rightarrow> Inl (Db e)
       | Inr samples \<Rightarrow>
           Inr \<lparr>sr_HostID = mq_HostID mq, sr_From = mq_From mq, sr_To = mq_To mq, sr_Resolution = mq_Resolution mq,
                sr_Points = toSeries samples (mq_Resolution mq) (historyNow now c) (flushInterval metricsFlush)\<rparr>)"

section \<open>Usage\<close>

record named_usage =
  nu_HostID :: int
  nu_Name :: string
  nu_Requests :: "64 word"
  nu_BytesIn :: "64 word"
  nu_BytesOut :: "64 word"
  nu_Total :: "64 word"

record usage_response =
  uv_From :: time
  uv_To :: time
  uv_Rows :: "named_usage list"
  uv_Truncated :: bool
  uv_RetentionDays :: int

definition usageLabel :: "int \<Rightarrow> string" where
  "usageLabel i = (if i = 0 then ''(unmatched)'' else ''(deleted host '' @ itoa i @ '')'')"

definition host_names :: "string option \<Rightarrow> hosts_db \<Rightarrow> int \<rightharpoonup> string" where
  "host_names fault db =
     (case Hosts_List fault db of Inl _ \<Rightarrow> Map.empty | Inr hs \<Rightarrow> map_of (rev (map (\<lambda>h. (h_ID h, h_Name h)) hs)))"

definition named_row :: "(int \<rightharpoonup> string) \<Rightarrow> usage_row \<Rightarrow> named_usage" where
  "named_row names u =
     (let name = (case names (ur_HostID u) of None \<Rightarrow> [] | Some n \<Rightarrow> n)
      in \<lparr>nu_HostID = ur_HostID u, nu_Name = (if name = [] then usageLabel (ur_HostID u) else name),
          nu_Requests = ur_Requests u, nu_BytesIn = ur_BytesIn u, nu_BytesOut = ur_BytesOut u,
          nu_Total = ur_BytesIn u + ur_BytesOut u\<rparr>)"

definition usageReport ::
  "string option \<Rightarrow> string option \<Rightarrow> duration \<Rightarrow> time \<Rightarrow> time \<Rightarrow> hosts_db \<Rightarrow> metrics_table \<Rightarrow> api_error + usage_response" where
  "usageReport fault hostFault retention from til db t =
     (case Metrics_Usage fault from til t of
        Inl e \<Rightarrow> Inl (Db e)
      | Inr rows \<Rightarrow>
          Inr \<lparr>uv_From = from, uv_To = til, uv_Rows = map (named_row (host_names hostFault db)) rows,
               uv_Truncated = (retention > 0 \<and> saturate (til - from) > retention),
               uv_RetentionDays = go_quot retention (24 * hour)\<rparr>)"

definition usageWindow :: "time_parser \<Rightarrow> time \<Rightarrow> query_values \<Rightarrow> api_error + time \<times> time" where
  "usageWindow parse now q =
     then_do (time_value parse q ''from'' (now - 30 * 24 * hour)) (\<lambda>from.
     then_do (time_value parse q ''to'' now) (\<lambda>til.
     if til < from then Inl (bad_request ''from must be before to'') else Inr (from, til)))"

definition handleMetricsUsage ::
  "time_parser \<Rightarrow> time \<Rightarrow> string option \<Rightarrow> string option \<Rightarrow> duration \<Rightarrow> query_values \<Rightarrow> hosts_db \<Rightarrow> metrics_table \<Rightarrow>
   api_error + usage_response" where
  "handleMetricsUsage parse now fault hostFault retention q db t =
     then_do (usageWindow parse now q) (\<lambda>(from, til). usageReport fault hostFault retention from til db t)"

section \<open>The access log\<close>

record access_log_response =
  av_Entries :: "access_log_entry list"
  av_Total :: nat
  av_Limit :: int
  av_Offset :: int
  av_Stats :: "64 word \<times> 64 word \<times> nat"

definition number_value :: "string \<Rightarrow> string \<Rightarrow> (int \<Rightarrow> bool) \<Rightarrow> string \<Rightarrow> api_error + int" where
  "number_value name v ok complaint =
     (if v = [] then Inr 0
      else case parse_int v of
        None \<Rightarrow> Inl (bad_request (name @ complaint))
      | Some n \<Rightarrow> if ok n then Inr n else Inl (bad_request (name @ complaint)))"

text \<open>The zero time is what an absent parameter leaves.\<close>

definition bound_value :: "time_parser \<Rightarrow> query_values \<Rightarrow> string \<Rightarrow> api_error + time option" where
  "bound_value parse q name =
     then_do (time_value parse q name zero_time) (\<lambda>t. Inr (if t = zero_time then None else Some t))"

definition access_log_request :: "time_parser \<Rightarrow> query_values \<Rightarrow> api_error + access_log_query" where
  "access_log_request parse q =
     then_do (number_value ''hostId'' (q ''hostId'') (\<lambda>_. True) '' must be a number'') (\<lambda>hostID.
     then_do (number_value ''statusClass'' (q ''statusClass'') (\<lambda>n. 2 \<le> n \<and> n \<le> 5) '' must be 2, 3, 4 or 5'') (\<lambda>cls.
     then_do (bound_value parse q ''from'') (\<lambda>from.
     then_do (bound_value parse q ''to'') (\<lambda>til.
     then_do (number_value ''limit'' (q ''limit'') (\<lambda>n. 0 \<le> n) '' must be a non-negative number'') (\<lambda>limit.
     then_do (number_value ''offset'' (q ''offset'') (\<lambda>n. 0 \<le> n) '' must be a non-negative number'') (\<lambda>offset.
     Inr \<lparr>lq_HostID = hostID, lq_From = from, lq_To = til, lq_StatusClass = cls, lq_Search = q ''search'',
          lq_FailedOnly = (q ''failedOnly'' = ''true''), lq_Limit = limit, lq_Offset = offset\<rparr>))))))"

definition handleAccessLog ::
  "time_parser \<Rightarrow> time \<Rightarrow> string option \<Rightarrow> writer option \<Rightarrow> query_values \<Rightarrow> log_table \<Rightarrow> api_error + access_log_response" where
  "handleAccessLog parse now fault w q t =
     then_do (access_log_request parse q) (\<lambda>lq.
       let lq = AccessLogQuery_Normalize now lq
       in case Log_Query fault now lq t of
            Inl e \<Rightarrow> Inl (Db e)
          | Inr (es, tot) \<Rightarrow>
              Inr \<lparr>av_Entries = es, av_Total = tot, av_Limit = lq_Limit lq, av_Offset = lq_Offset lq,
                   av_Stats = (case w of None \<Rightarrow> (0, 0, 0) | Some w \<Rightarrow> writer_Stats w)\<rparr>)"

end
