(* ===== verification/Alert_Channels.thy ===== *)
theory Alert_Channels
  imports Alerts Store_Hosts Api_Config Requests
begin

text \<open>
  The repository of alert channels (\<^verbatim>\<open>store/alerts.go\<close>) and its endpoints (\<^verbatim>\<open>api/alerts.go\<close>). The columns
  \<^verbatim>\<open>created_at\<close> and \<^verbatim>\<open>updated_at\<close>, which only the console shows, are left out. The message of a failed
  delivery is the argument of the test: it comes from the client of \<^verbatim>\<open>net/http\<close>.
\<close>

section \<open>The tables\<close>

record channel_row =
  cw_name :: string
  cw_type :: string
  cw_url :: string
  cw_enabled :: bool
  cw_min_interval_ms :: int
  cw_last_attempt_at :: "int option"
  cw_last_error :: string

record channels_db =
  cd_rows :: "(int \<times> channel_row) list"
  cd_seq :: int
  cd_events :: "(int \<times> alert_event) list"

definition scanAlertChannel :: "int \<times> channel_row \<Rightarrow> alert_channel" where
  "scanAlertChannel p =
     (case p of (i, r) \<Rightarrow>
        \<lparr>ac_ID = i, ac_Name = cw_name r, ac_Type = cw_type r, ac_Enabled = cw_enabled r, ac_URL = cw_url r, ac_Events = [],
         ac_MinInterval = from_milliseconds (cw_min_interval_ms r), ac_LastAttempt = nullTime (cw_last_attempt_at r),
         ac_LastError = cw_last_error r\<rparr>)"

definition attachEvents :: "channels_db \<Rightarrow> alert_channel \<Rightarrow> alert_channel" where
  "attachEvents t c = c\<lparr>ac_Events := ac_Events c @ map snd (filter (\<lambda>p. fst p = ac_ID c) (sort (cd_events t)))\<rparr>"

definition Channels_List :: "string option \<Rightarrow> channels_db \<Rightarrow> db_error + alert_channel list" where
  "Channels_List fault t =
     (case fault of
        Some m \<Rightarrow> Inl (translateErr (Driver m))
      | None \<Rightarrow> Inr (map (\<lambda>p. attachEvents t (scanAlertChannel p)) (sort_key (\<lambda>p. (cw_name (snd p), fst p)) (cd_rows t))))"

definition Channels_Get :: "string option \<Rightarrow> int \<Rightarrow> channels_db \<Rightarrow> db_error + alert_channel" where
  "Channels_Get fault i t =
     (case fault of
        Some m \<Rightarrow> Inl (translateErr (Driver m))
      | None \<Rightarrow>
          (case map_of (cd_rows t) i of
             None \<Rightarrow> Inl (translateErr NoRows)
           | Some r \<Rightarrow> Inr (attachEvents t (scanAlertChannel (i, r)))))"

text \<open>The checks of the table, and the primary key of its events.\<close>

definition channel_refused :: "alert_channel \<Rightarrow> string option" where
  "channel_refused c =
     (if ac_Type c \<noteq> AlertWebhook then Some ''constraint failed: CHECK constraint failed: type IN ('webhook') (275)''
      else if milliseconds (ac_MinInterval c) < 60000
      then Some ''constraint failed: CHECK constraint failed: min_interval_ms >= 60000 (275)''
      else None)"

fun writeAlertEvents :: "int \<Rightarrow> alert_event list \<Rightarrow> channels_db \<Rightarrow> db_error + channels_db" where
  "writeAlertEvents i [] t = Inr t"
| "writeAlertEvents i (e # es) t =
     (if (i, e) \<in> set (cd_events t)
      then Inl (translateErr (Driver ''constraint failed: UNIQUE constraint failed: alert_channel_events.channel_id, alert_channel_events.event (1555)''))
      else writeAlertEvents i es (t\<lparr>cd_events := cd_events t @ [(i, e)]\<rparr>))"

definition Channels_Create :: "string option \<Rightarrow> alert_channel \<Rightarrow> channels_db \<Rightarrow> channels_db \<times> (db_error + alert_channel)" where
  "Channels_Create fault c t =
     (case (case fault of Some m \<Rightarrow> Some m | None \<Rightarrow> channel_refused c) of
        Some m \<Rightarrow> (t, Inl (translateErr (Driver m)))
      | None \<Rightarrow>
          let i = cd_seq t + 1;
              r = \<lparr>cw_name = ac_Name c, cw_type = ac_Type c, cw_url = ac_URL c, cw_enabled = ac_Enabled c,
                   cw_min_interval_ms = milliseconds (ac_MinInterval c), cw_last_attempt_at = None, cw_last_error = []\<rparr>
          in case writeAlertEvents i (ac_Events c) (t\<lparr>cd_rows := cd_rows t @ [(i, r)], cd_seq := i\<rparr>) of
               Inl e \<Rightarrow> (t, Inl e)
             | Inr t' \<Rightarrow> (t', Inr (c\<lparr>ac_ID := i\<rparr>)))"

definition updated_row :: "alert_channel \<Rightarrow> channel_row \<Rightarrow> channel_row" where
  "updated_row c r =
     r\<lparr>cw_name := ac_Name c, cw_type := ac_Type c, cw_url := ac_URL c, cw_enabled := ac_Enabled c,
       cw_min_interval_ms := milliseconds (ac_MinInterval c)\<rparr>"

definition Channels_Update :: "string option \<Rightarrow> alert_channel \<Rightarrow> channels_db \<Rightarrow> channels_db \<times> db_error option" where
  "Channels_Update fault c t =
     (case fault of
        Some m \<Rightarrow> (t, Some (translateErr (Driver m)))
      | None \<Rightarrow>
          (case map_of (cd_rows t) (ac_ID c) of
             None \<Rightarrow> (t, Some ErrNotFound)
           | Some r \<Rightarrow>
               (case channel_refused c of
                  Some m \<Rightarrow> (t, Some (translateErr (Driver m)))
                | None \<Rightarrow>
                    (case writeAlertEvents (ac_ID c) (ac_Events c)
                            (t\<lparr>cd_rows := al_put (ac_ID c) (updated_row c r) (cd_rows t),
                               cd_events := filter (\<lambda>p. fst p \<noteq> ac_ID c) (cd_events t)\<rparr>) of
                       Inl e \<Rightarrow> (t, Some e)
                     | Inr t' \<Rightarrow> (t', None)))))"

definition Channels_Delete :: "string option \<Rightarrow> int \<Rightarrow> channels_db \<Rightarrow> channels_db \<times> db_error option" where
  "Channels_Delete fault i t =
     (case fault of
        Some m \<Rightarrow> (t, Some (translateErr (Driver m)))
      | None \<Rightarrow>
          if map_of (cd_rows t) i = None then (t, Some ErrNotFound)
          else (t\<lparr>cd_rows := al_del i (cd_rows t), cd_events := filter (\<lambda>p. fst p \<noteq> i) (cd_events t)\<rparr>, None))"

definition RecordDelivery :: "string option \<Rightarrow> int \<Rightarrow> time \<Rightarrow> string \<Rightarrow> channels_db \<Rightarrow> channels_db \<times> db_error option" where
  "RecordDelivery fault i at_time message t =
     (case fault of
        Some m \<Rightarrow> (t, Some (translateErr (Driver m)))
      | None \<Rightarrow>
          (case map_of (cd_rows t) i of
             None \<Rightarrow> (t, None)
           | Some r \<Rightarrow>
               (t\<lparr>cd_rows := al_put i (r\<lparr>cw_last_attempt_at := Some (unix at_time), cw_last_error := message\<rparr>) (cd_rows t)\<rparr>, None)))"

section \<open>The endpoints\<close>

text \<open>What the console gets of a channel: the channel itself, without its address, which is not encoded, and a
  masked form of it.\<close>

record channel_view =
  cv_Channel :: alert_channel
  cv_URL :: string
  cv_MinIntervalSeconds :: int

definition viewOfChannel :: "(string \<Rightarrow> url option) \<Rightarrow> alert_channel \<Rightarrow> channel_view" where
  "viewOfChannel parse c =
     \<lparr>cv_Channel = c, cv_URL = MaskedURL parse c, cv_MinIntervalSeconds = go_quot (ac_MinInterval c) second\<rparr>"

definition shown :: "channel_view \<Rightarrow> string list" where
  "shown v = ac_Name (cv_Channel v) # ac_Type (cv_Channel v) # cv_URL v # ac_LastError (cv_Channel v) # ac_Events (cv_Channel v)"

record channel_payload =
  pc_Name :: string
  pc_Type :: string
  pc_Enabled :: bool
  pc_URL :: string
  pc_Events :: "alert_event list"
  pc_MinIntervalSeconds :: int

definition channel_toDomain :: "channel_payload \<Rightarrow> alert_channel" where
  "channel_toDomain p =
     \<lparr>ac_ID = 0, ac_Name = pc_Name p, ac_Type = pc_Type p, ac_Enabled = pc_Enabled p, ac_URL = pc_URL p, ac_Events = pc_Events p,
      ac_MinInterval = secondsToDuration (pc_MinIntervalSeconds p), ac_LastAttempt = None, ac_LastError = []\<rparr>"

datatype channel_call = LChannels | GChannel | WChannel | RChannels | RecordCall

type_synonym channel_io = "channel_call \<Rightarrow> string option"

record alert_plane =
  ap_channels :: channels_db
  ap_dispatcher :: "dispatcher option"

datatype alert_body =
    ChannelViews "channel_view list"
  | ChannelView channel_view
  | Tested "string option"
  | NoContent

type_synonym alert_reply = "api_error + int \<times> alert_body"

definition reloadAlerts :: "channel_io \<Rightarrow> alert_plane \<Rightarrow> alert_plane" where
  "reloadAlerts io p =
     p\<lparr>ap_dispatcher :=
         map_option (Dispatcher_Reload (case Channels_List (io RChannels) (ap_channels p) of Inl _ \<Rightarrow> None | Inr cs \<Rightarrow> Some cs))
           (ap_dispatcher p)\<rparr>"

definition handleListAlertChannels :: "(string \<Rightarrow> url option) \<Rightarrow> channel_io \<Rightarrow> alert_plane \<Rightarrow> alert_reply" where
  "handleListAlertChannels parse io p =
     (case Channels_List (io LChannels) (ap_channels p) of
        Inl e \<Rightarrow> Inl (Db e)
      | Inr cs \<Rightarrow> Inr (200, ChannelViews (map (viewOfChannel parse) cs)))"

definition handleCreateAlertChannel ::
  "(string \<Rightarrow> url option) \<Rightarrow> channel_io \<Rightarrow> string + channel_payload \<Rightarrow> alert_plane \<Rightarrow> alert_plane \<times> alert_reply" where
  "handleCreateAlertChannel parse io body p =
     (case body of
        Inl e \<Rightarrow> (p, Inl (bad_request e))
      | Inr pl \<Rightarrow>
          let c = AlertChannel_Normalize (channel_toDomain pl)
          in case AlertChannel_Validate parse c of
               Some e \<Rightarrow> (p, Inl (Invalid e))
             | None \<Rightarrow>
                 (case Channels_Create (io WChannel) c (ap_channels p) of
                    (t, Inl e) \<Rightarrow> (p\<lparr>ap_channels := t\<rparr>, Inl (Db e))
                  | (t, Inr c) \<Rightarrow> (reloadAlerts io (p\<lparr>ap_channels := t\<rparr>), Inr (201, ChannelView (viewOfChannel parse c)))))"

definition merged_channel :: "int \<Rightarrow> channel_payload \<Rightarrow> alert_channel \<Rightarrow> alert_channel" where
  "merged_channel i pl old =
     (let c = (channel_toDomain pl)\<lparr>ac_ID := i\<rparr>;
          c = (if ac_URL c = [] then c\<lparr>ac_URL := ac_URL old\<rparr> else c)
      in AlertChannel_Normalize c)"

definition handleUpdateAlertChannel ::
  "(string \<Rightarrow> url option) \<Rightarrow> channel_io \<Rightarrow> string \<Rightarrow> string + channel_payload \<Rightarrow> alert_plane \<Rightarrow> alert_plane \<times> alert_reply" where
  "handleUpdateAlertChannel parse io raw body p =
     (case pathID raw of
        Inl e \<Rightarrow> (p, Inl e)
      | Inr i \<Rightarrow>
          (case body of
             Inl e \<Rightarrow> (p, Inl (bad_request e))
           | Inr pl \<Rightarrow>
               (case Channels_Get (io GChannel) i (ap_channels p) of
                  Inl e \<Rightarrow> (p, Inl (Db e))
                | Inr old \<Rightarrow>
                    let c = merged_channel i pl old
                    in case AlertChannel_Validate parse c of
                         Some e \<Rightarrow> (p, Inl (Invalid e))
                       | None \<Rightarrow>
                           (case Channels_Update (io WChannel) c (ap_channels p) of
                              (t, Some e) \<Rightarrow> (p\<lparr>ap_channels := t\<rparr>, Inl (Db e))
                            | (t, None) \<Rightarrow> (reloadAlerts io (p\<lparr>ap_channels := t\<rparr>), Inr (200, ChannelView (viewOfChannel parse c)))))))"

definition handleDeleteAlertChannel :: "channel_io \<Rightarrow> string \<Rightarrow> alert_plane \<Rightarrow> alert_plane \<times> alert_reply" where
  "handleDeleteAlertChannel io raw p =
     (case pathID raw of
        Inl e \<Rightarrow> (p, Inl e)
      | Inr i \<Rightarrow>
          (case Channels_Delete (io WChannel) i (ap_channels p) of
             (t, Some e) \<Rightarrow> (p\<lparr>ap_channels := t\<rparr>, Inl (Db e))
           | (t, None) \<Rightarrow> (reloadAlerts io (p\<lparr>ap_channels := t\<rparr>), Inr (204, NoContent))))"

text \<open>A test posts once; the dispatcher stores the outcome, and its failing to do so is only logged.\<close>

definition handleTestAlertChannel :: "string + int \<Rightarrow> time \<Rightarrow> channel_io \<Rightarrow> string \<Rightarrow> alert_plane \<Rightarrow> alert_plane \<times> alert_reply" where
  "handleTestAlertChannel answer now io raw p =
     (case pathID raw of
        Inl e \<Rightarrow> (p, Inl e)
      | Inr i \<Rightarrow>
          (case ap_dispatcher p of
             None \<Rightarrow> (p, Inl (bad_request ''alert delivery is not running''))
           | Some d \<Rightarrow>
               (case Channels_Get (io GChannel) i (ap_channels p) of
                  Inl e \<Rightarrow> (p, Inl (Db e))
                | Inr c \<Rightarrow>
                    (case Dispatcher_Test answer c d of
                       (d', e) \<Rightarrow>
                         (p\<lparr>ap_channels := fst (RecordDelivery (io RecordCall) (ac_ID c) now (case e of Some m \<Rightarrow> m | None \<Rightarrow> []) (ap_channels p)),
                            ap_dispatcher := Some d'\<rparr>, Inr (200, Tested e)))))) "

definition handleAlertStats :: "alert_plane \<Rightarrow> 64 word \<times> 64 word \<times> 64 word" where
  "handleAlertStats p = (case ap_dispatcher p of None \<Rightarrow> (0, 0, 0) | Some d \<Rightarrow> (di_sent d, di_failed d, di_dropped d))"

text \<open>What the console's form is built from.\<close>

definition event_labels :: "(alert_event \<times> string \<times> string) list" where
  "event_labels =
     [(AlertUpstreamDown, ''Upstream down'', ''A health check stopped passing and the backend was taken out of rotation.''),
      (AlertUpstreamRecovered, ''Upstream recovered'', ''It started answering again. Useful for closing an incident without checking.''),
      (AlertUpstreamEjected, ''Upstream ejected'', ''Real requests could not connect, so it was removed without waiting for a probe.''),
      (AlertHostUnavailable, ''Host has nothing left'', ''Every upstream is out. Visitors are seeing errors right now.''),
      (AlertCertificateExpiring, ''Certificate expiring'', ''Renewal has not produced a new certificate yet and time is running out.''),
      (AlertCertificateFailed, ''Certificate renewal failed'', ''The only warning before a certificate simply expires.''),
      (AlertUsageExceeded, ''Traffic budget exceeded'',
       ''A host passed the transfer budget set for it. About cost rather than uptime, so it reaches you while there is still time to act.'')]"

definition handleListAlertEvents :: "(alert_event \<times> string \<times> string \<times> string) list" where
  "handleListAlertEvents =
     map (\<lambda>e. case map_of event_labels e of
            None \<Rightarrow> (e, [], AlertEvent_Severity e, [])
          | Some (label, detail) \<Rightarrow> (e, label, AlertEvent_Severity e, detail)) AlertEvents"

text \<open>No event would be a blank row of the form.\<close>

lemma events_have_labels: "\<forall>(e, label, severity, detail) \<in> set handleListAlertEvents. label \<noteq> []"
  by code_simp

section \<open>Reading back\<close>

definition channels_ok :: "channels_db \<Rightarrow> bool" where
  "channels_ok t \<longleftrightarrow> distinct (al_keys (cd_rows t)) \<and> (\<forall>i \<in> set (al_keys (cd_rows t)). i \<le> cd_seq t) \<and>
     fst ` set (cd_events t) \<subseteq> set (al_keys (cd_rows t))"

lemma writeAlertEvents_Inr:
  "writeAlertEvents i es t = Inr t' \<Longrightarrow> t' = t\<lparr>cd_events := cd_events t @ map (Pair i) es\<rparr>"
proof (induction es arbitrary: t)
  case (Cons e es)
  then show ?case using Cons.IH [of "t\<lparr>cd_events := cd_events t @ [(i, e)]\<rparr>"] by (auto split: if_splits)
qed simp

definition events_of :: "int \<Rightarrow> channels_db \<Rightarrow> alert_event list" where
  "events_of i t = map snd (filter (\<lambda>p. fst p = i) (sort (cd_events t)))"

lemma sort_own: "sort (map (Pair (i :: int)) (es :: string list)) = map (Pair i) (sort es)"
proof -
  have "insort (i, x) (map (Pair i) ys) = map (Pair i) (insort x ys)" for x and ys :: "string list"
    by (induction ys) auto
  then show ?thesis by (induction es) simp_all
qed

lemma events_own:
  "filter (\<lambda>p. fst p = i) rows = [] \<Longrightarrow> events_of i (t\<lparr>cd_events := rows @ map (Pair i) es\<rparr>) = sort es"
  by (simp add: events_of_def filter_sort filter_map comp_def sort_own)

lemma events_other:
  "j \<noteq> i \<Longrightarrow> events_of j (t\<lparr>cd_events := rows @ map (Pair i) es\<rparr>) = events_of j (t\<lparr>cd_events := rows\<rparr>)"
  by (simp add: events_of_def filter_sort filter_map comp_def)

lemma events_dropped:
  "j \<noteq> i \<Longrightarrow> events_of j (t\<lparr>cd_events := filter (\<lambda>p. fst p \<noteq> i) (cd_events t)\<rparr>) = events_of j t"
  by (simp add: events_of_def filter_sort) (rule arg_cong [where f = "\<lambda>r. map snd (sort r)"], rule filter_cong, auto)

lemma events_of_rows [simp]: "events_of j (t\<lparr>cd_rows := rs\<rparr>) = events_of j t" "events_of j (t\<lparr>cd_seq := n\<rparr>) = events_of j t"
  by (simp_all add: events_of_def)

lemma Channels_Get_eq:
  "Channels_Get None i t = (case map_of (cd_rows t) i of None \<Rightarrow> Inl ErrNotFound | Some r \<Rightarrow> Inr ((scanAlertChannel (i, r))\<lparr>ac_Events := events_of i t\<rparr>))"
  by (simp add: Channels_Get_def attachEvents_def scanAlertChannel_def events_of_def translateErr_def split: option.split)

lemma Channels_Get_cong:
  "map_of (cd_rows t') j = map_of (cd_rows t) j \<Longrightarrow> events_of j t' = events_of j t \<Longrightarrow> Channels_Get None j t' = Channels_Get None j t"
  by (simp add: Channels_Get_eq split: option.split)

text \<open>What a stored channel reads back as, once it has been edited: the events in their order, the interval in
  whole milliseconds, and the outcome of the last delivery as it was.\<close>

definition edited :: "alert_channel \<Rightarrow> alert_channel \<Rightarrow> alert_channel" where
  "edited c old =
     c\<lparr>ac_Events := sort (ac_Events c), ac_MinInterval := from_milliseconds (milliseconds (ac_MinInterval c)),
       ac_LastAttempt := ac_LastAttempt old, ac_LastError := ac_LastError old\<rparr>"

lemma no_events_dropped: "filter (\<lambda>p. fst p = i) (filter (\<lambda>p. fst p \<noteq> i) rows) = []"
  by (simp add: filter_empty_conv)

lemma Channels_Update_reads:
  assumes "Channels_Update fault c t = (t', None)"
  obtains old where "Channels_Get None (ac_ID c) t = Inr old" "Channels_Get None (ac_ID c) t' = Inr (edited c old)"
    "\<And>j. j \<noteq> ac_ID c \<Longrightarrow> Channels_Get None j t' = Channels_Get None j t"
proof -
  let ?i = "ac_ID c"
  obtain r where r: "map_of (cd_rows t) ?i = Some r"
    and w: "writeAlertEvents ?i (ac_Events c) (t\<lparr>cd_rows := al_put ?i (updated_row c r) (cd_rows t),
      cd_events := filter (\<lambda>p. fst p \<noteq> ?i) (cd_events t)\<rparr>) = Inr t'"
    using assms by (auto simp: Channels_Update_def split: option.splits sum.splits)
  let ?t = "t\<lparr>cd_rows := al_put ?i (updated_row c r) (cd_rows t),
      cd_events := filter (\<lambda>p. fst p \<noteq> ?i) (cd_events t) @ map (Pair ?i) (ac_Events c)\<rparr>"
  have t': "t' = ?t" using writeAlertEvents_Inr [OF w] by simp
  have rows: "map_of (cd_rows t') j = (if j = ?i then Some (updated_row c r) else map_of (cd_rows t) j)" for j by (simp add: t')
  have own: "events_of ?i t' = sort (ac_Events c)" unfolding t' by (rule events_own [OF no_events_dropped])
  have other: "events_of j t' = events_of j t" if "j \<noteq> ?i" for j
    unfolding t' events_other [OF that] using events_dropped [OF that, of "t\<lparr>cd_rows := al_put ?i (updated_row c r) (cd_rows t)\<rparr>"] by simp
  show thesis
  proof
    show "Channels_Get None ?i t = Inr ((scanAlertChannel (?i, r))\<lparr>ac_Events := events_of ?i t\<rparr>)" using r by (simp add: Channels_Get_eq)
    show "Channels_Get None ?i t' = Inr (edited c ((scanAlertChannel (?i, r))\<lparr>ac_Events := events_of ?i t\<rparr>))"
      using rows [of ?i] own by (simp add: Channels_Get_eq edited_def scanAlertChannel_def updated_row_def)
    show "Channels_Get None j t' = Channels_Get None j t" if "j \<noteq> ?i" for j
      using rows [of j] other [OF that] that by (intro Channels_Get_cong) simp_all
  qed
qed

lemma Channels_Create_reads:
  assumes "Channels_Create fault c t = (t', Inr c')" "channels_ok t"
  shows "c' = c\<lparr>ac_ID := cd_seq t + 1\<rparr> \<and>
    Channels_Get None (ac_ID c') t' = Inr (edited c' (c'\<lparr>ac_LastAttempt := None, ac_LastError := []\<rparr>)) \<and>
    (\<forall>j. j \<noteq> ac_ID c' \<longrightarrow> Channels_Get None j t' = Channels_Get None j t)"
proof -
  let ?i = "cd_seq t + 1"
  let ?r = "\<lparr>cw_name = ac_Name c, cw_type = ac_Type c, cw_url = ac_URL c, cw_enabled = ac_Enabled c,
                   cw_min_interval_ms = milliseconds (ac_MinInterval c), cw_last_attempt_at = None, cw_last_error = []\<rparr>"
  have w: "writeAlertEvents ?i (ac_Events c) (t\<lparr>cd_rows := cd_rows t @ [(?i, ?r)], cd_seq := ?i\<rparr>) = Inr t'" and c': "c' = c\<lparr>ac_ID := ?i\<rparr>"
    using assms(1) by (auto simp: Channels_Create_def Let_def split: option.splits sum.splits)
  have t': "t' = t\<lparr>cd_rows := cd_rows t @ [(?i, ?r)], cd_seq := ?i, cd_events := cd_events t @ map (Pair ?i) (ac_Events c)\<rparr>"
    using writeAlertEvents_Inr [OF w] by simp
  have fresh: "?i \<notin> set (al_keys (cd_rows t))" using assms(2) by (auto simp: channels_ok_def)
  then have "filter (\<lambda>p. fst p = ?i) (cd_events t) = []" using assms(2) by (force simp: channels_ok_def filter_empty_conv)
  then have own: "events_of ?i t' = sort (ac_Events c)" unfolding t' by (rule events_own)
  have other: "events_of j t' = events_of j t" if "j \<noteq> ?i" for j unfolding t' events_other [OF that] by simp
  have none: "map_of (cd_rows t) ?i = None" using fresh by (simp add: map_of_eq_None_iff)
  have "Channels_Get None ?i t' = Inr (edited c' (c'\<lparr>ac_LastAttempt := None, ac_LastError := []\<rparr>))"
    using own none by (simp add: Channels_Get_eq c' edited_def scanAlertChannel_def nullTime_def) (simp add: t' map_add_def scanAlertChannel_def nullTime_def)
  moreover have "Channels_Get None j t' = Channels_Get None j t" if "j \<noteq> ?i" for j
    by (rule Channels_Get_cong) (use that other [OF that] in \<open>simp_all add: t' map_add_def split: option.split\<close>)
  ultimately show ?thesis using c' by simp
qed

text \<open>Editing a channel. When an edit of a channel is accepted, the channel reads back with what was sent,
  normalised: its events in order, its interval in whole milliseconds, and the outcome of the last delivery
  as before the edit. A field for the address that was left empty keeps the stored address. Every
  other channel reads back as before, and if the list could be read again the dispatcher has it.\<close>

theorem channel_edit_reads_back:
  assumes "handleUpdateAlertChannel parse io raw (Inr pl) p = (p', Inr (200, reply))" "pathID raw = Inr i"
  shows "\<exists>old c. Channels_Get None i (ap_channels p) = Inr old \<and> c = merged_channel i pl old \<and> reply = ChannelView (viewOfChannel parse c) \<and>
    Channels_Get None i (ap_channels p') = Inr (edited c old) \<and>
    ac_URL c = trim_space (if pc_URL pl = [] then ac_URL old else pc_URL pl) \<and>
    (\<forall>j. j \<noteq> i \<longrightarrow> Channels_Get None j (ap_channels p') = Channels_Get None j (ap_channels p)) \<and>
    (io RChannels = None \<longrightarrow> (\<forall>d. ap_dispatcher p' = Some d \<longrightarrow> Channels_List None (ap_channels p') = Inr (di_channels d)))"
proof -
  obtain old t where g: "Channels_Get (io GChannel) i (ap_channels p) = Inr old"
    and u: "Channels_Update (io WChannel) (merged_channel i pl old) (ap_channels p) = (t, None)"
    and p': "p' = reloadAlerts io (p\<lparr>ap_channels := t\<rparr>)" and reply: "reply = ChannelView (viewOfChannel parse (merged_channel i pl old))"
    using assms by (auto simp: handleUpdateAlertChannel_def Let_def split: sum.splits option.splits prod.splits)
  have old: "Channels_Get None i (ap_channels p) = Inr old" using g by (simp add: Channels_Get_def split: option.splits)
  have i: "ac_ID (merged_channel i pl old) = i" by (simp add: merged_channel_def Let_def AlertChannel_Normalize_def)
  obtain old' where "Channels_Get None i (ap_channels p) = Inr old'" "Channels_Get None i t = Inr (edited (merged_channel i pl old) old')"
    "\<And>j. j \<noteq> i \<Longrightarrow> Channels_Get None j t = Channels_Get None j (ap_channels p)"
    using Channels_Update_reads [OF u] unfolding i by metis
  moreover have "ap_channels p' = t" by (simp add: p' reloadAlerts_def)
  moreover have "ac_URL (merged_channel i pl old) = trim_space (if pc_URL pl = [] then ac_URL old else pc_URL pl)"
    by (simp add: merged_channel_def Let_def AlertChannel_Normalize_def channel_toDomain_def)
  moreover have "Channels_List None t = Inr (di_channels d)" if "io RChannels = None" "ap_dispatcher p' = Some d" for d
    using that by (auto simp: p' reloadAlerts_def Dispatcher_Reload_def Channels_List_def split: sum.splits)
  ultimately show ?thesis using old reply by (intro exI [of _ old] exI [of _ "merged_channel i pl old"]) auto
qed

section \<open>What the console is told\<close>

text \<open>The message of an error of \<^verbatim>\<open>http.Client.Do\<close>: the operation, the quoted address and the cause.\<close>

definition client_message :: "string \<Rightarrow> string \<Rightarrow> string" where
  "client_message address cause = ''Post '' @ [CHR 0x22] @ address @ [CHR 0x22] @ '': '' @ cause"

lemma contains_in: "contains (xs @ p @ ys) p"
  unfolding contains_iff by blast

lemma RecordDelivery_reads:
  assumes "Channels_Get None i t = Inr c"
  shows "Channels_Get None i (fst (RecordDelivery None i now m t)) = Inr (c\<lparr>ac_LastAttempt := Some (from_unix (unix now)), ac_LastError := m\<rparr>)"
proof -
  obtain r where r: "map_of (cd_rows t) i = Some r" and c: "c = (scanAlertChannel (i, r))\<lparr>ac_Events := events_of i t\<rparr>"
    using assms by (auto simp: Channels_Get_eq split: option.splits)
  have "fst (RecordDelivery None i now m t) =
      t\<lparr>cd_rows := al_put i (r\<lparr>cw_last_attempt_at := Some (unix now), cw_last_error := m\<rparr>) (cd_rows t)\<rparr>"
    using r by (simp add: RecordDelivery_def)
  then show ?thesis unfolding c by (simp add: Channels_Get_eq scanAlertChannel_def nullTime_def)
qed

lemma Get_listed:
  assumes "Channels_Get None i t = Inr c" "Channels_List None t = Inr cs"
  shows "c \<in> set cs"
  using assms map_of_SomeD [of "cd_rows t" i] by (force simp: Channels_Get_def Channels_List_def split: option.splits)

lemma Get_ID: "Channels_Get fault i t = Inr c \<Longrightarrow> ac_ID c = i"
  by (auto simp: Channels_Get_def attachEvents_def scanAlertChannel_def split: option.splits)

text \<open>C40. The address of a webhook leaks. The console gets a masked form of the address, which is a credential.
  But when a test cannot reach it, the error of \<^verbatim>\<open>net/http\<close> quotes the address, is stored as the channel's last
  error, and from then on is part of the list of channels that every account may read.\<close>

theorem failed_test_reveals_webhook:
  assumes "pathID raw = Inr i" "ap_dispatcher p = Some d" "io GChannel = None" "io RecordCall = None"
    and "Channels_Get None i (ap_channels p) = Inr c" "answer = Inl (client_message (ac_URL c) cause)"
    and "handleTestAlertChannel answer now io raw p = (p', reply)" "io' LChannels = None"
  shows "reply = Inr (200, Tested (Some (client_message (ac_URL c) cause))) \<and>
    (\<exists>vs v s. handleListAlertChannels parse io' p' = Inr (200, ChannelViews vs) \<and> v \<in> set vs \<and>
      ac_ID (cv_Channel v) = i \<and> cv_URL v = MaskedURL parse c \<and> s \<in> set (shown v) \<and> contains s (ac_URL c))"
proof -
  let ?m = "client_message (ac_URL c) cause"
  have i: "ac_ID c = i" using Get_ID [OF assms(5)] .
  have t: "ap_channels p' = fst (RecordDelivery None i now ?m (ap_channels p))" and r: "reply = Inr (200, Tested (Some ?m))"
    using assms(1-7) i by (auto simp: handleTestAlertChannel_def Dispatcher_Test_def attempt_error_def Let_def)
  let ?c = "c\<lparr>ac_LastAttempt := Some (from_unix (unix now)), ac_LastError := ?m\<rparr>"
  have g: "Channels_Get None i (ap_channels p') = Inr ?c" unfolding t by (rule RecordDelivery_reads [OF assms(5)])
  obtain cs where l: "Channels_List None (ap_channels p') = Inr cs" by (simp add: Channels_List_def)
  have "viewOfChannel parse ?c \<in> viewOfChannel parse ` set cs" using Get_listed [OF g l] by (rule imageI)
  moreover have "handleListAlertChannels parse io' p' = Inr (200, ChannelViews (map (viewOfChannel parse) cs))"
    using l assms(8) by (simp add: handleListAlertChannels_def)
  moreover have "ac_ID (cv_Channel (viewOfChannel parse ?c)) = i" "cv_URL (viewOfChannel parse ?c) = MaskedURL parse c"
    using i by (simp_all add: viewOfChannel_def MaskedURL_def)
  moreover have "?m \<in> set (shown (viewOfChannel parse ?c))" by (simp add: shown_def viewOfChannel_def)
  moreover have "contains ?m (ac_URL c)"
    using contains_in [of "''Post '' @ [CHR 0x22]" "ac_URL c"] by (simp add: client_message_def)
  ultimately show ?thesis using r by (metis set_map)
qed

section \<open>What every request keeps\<close>

datatype alert_request =
    CreateChannel "string + channel_payload"
  | UpdateChannel string "string + channel_payload"
  | DeleteChannel string
  | TestChannel "string + int" time string

fun serve_alerts :: "(string \<Rightarrow> url option) \<Rightarrow> alert_plane \<Rightarrow> channel_io \<times> alert_request \<Rightarrow> alert_plane" where
  "serve_alerts parse p (io, CreateChannel body) = fst (handleCreateAlertChannel parse io body p)"
| "serve_alerts parse p (io, UpdateChannel raw body) = fst (handleUpdateAlertChannel parse io raw body p)"
| "serve_alerts parse p (io, DeleteChannel raw) = fst (handleDeleteAlertChannel io raw p)"
| "serve_alerts parse p (io, TestChannel answer now raw) = fst (handleTestAlertChannel answer now io raw p)"

text \<open>What the dispatcher uses of a channel is everything except the outcome of the last delivery.\<close>

definition settings :: "alert_channel \<Rightarrow> alert_channel" where
  "settings c = c\<lparr>ac_LastAttempt := None, ac_LastError := []\<rparr>"

definition in_step :: "alert_plane \<Rightarrow> bool" where
  "in_step p \<longleftrightarrow> channels_ok (ap_channels p) \<and>
     (\<exists>d cs. ap_dispatcher p = Some d \<and> Channels_List None (ap_channels p) = Inr cs \<and> map settings (di_channels d) = map settings cs)"

lemma RecordDelivery_settings:
  assumes "channels_ok t" "Channels_List None t = Inr cs"
  shows "\<exists>cs'. Channels_List None (fst (RecordDelivery fault i now m t)) = Inr cs' \<and> map settings cs' = map settings cs"
proof (cases "fault = None \<and> map_of (cd_rows t) i \<noteq> None")
  case True
  then obtain r where r: "map_of (cd_rows t) i = Some r" by auto
  let ?r = "r\<lparr>cw_last_attempt_at := Some (unix now), cw_last_error := m\<rparr>"
  define g where "g p = (if fst p = i then (i, ?r) else p)" for p :: "int \<times> channel_row"
  define key where "key p = (cw_name (snd p), fst p)" for p :: "int \<times> channel_row"
  have d: "distinct (al_keys (cd_rows t))" using assms(1) by (simp add: channels_ok_def)
  have same: "fst p = i \<Longrightarrow> p = (i, r)" if "p \<in> set (cd_rows t)" for p
    using that d r map_of_is_SomeI [OF d, of "fst p" "snd p"] by (cases p) auto
  have rows: "al_put i ?r (cd_rows t) = map g (cd_rows t)" unfolding g_def [abs_def] using al_put_present [OF d r] by simp
  have "key (g p) = key p" if "p \<in> set (cd_rows t)" for p using same [OF that] by (cases "fst p = i") (simp_all add: key_def g_def)
  then have s: "sort_key key (map g (cd_rows t)) = map g (sort_key key (cd_rows t))" using map_sort_key by metis
  have "settings (attachEvents t (scanAlertChannel (g p))) = settings (attachEvents t (scanAlertChannel p))" if "p \<in> set (cd_rows t)" for p
    using same [OF that] by (cases "fst p = i") (simp_all add: g_def settings_def attachEvents_def scanAlertChannel_def)
  then have "map settings (map (\<lambda>p. attachEvents t (scanAlertChannel p)) (sort_key key (map g (cd_rows t)))) = map settings cs"
    using assms(2) unfolding s by (auto simp: Channels_List_def key_def [abs_def])
  moreover have "fst (RecordDelivery fault i now m t) = t\<lparr>cd_rows := map g (cd_rows t)\<rparr>"
    using True r rows by (simp add: RecordDelivery_def)
  moreover have "attachEvents (t\<lparr>cd_rows := rs\<rparr>) = attachEvents t" for rs by (simp add: attachEvents_def fun_eq_iff)
  ultimately show ?thesis by (simp add: Channels_List_def key_def [abs_def])
next
  case False
  then have "fst (RecordDelivery fault i now m t) = t" by (auto simp: RecordDelivery_def split: option.splits)
  with assms(2) show ?thesis by simp
qed

lemma channels_put:
  assumes "channels_ok t" "map_of (cd_rows t) i = Some r"
  shows "channels_ok (t\<lparr>cd_rows := al_put i v (cd_rows t)\<rparr>)"
proof -
  have "i \<in> set (al_keys (cd_rows t))" using map_of_SomeD [OF assms(2)] by force
  then have "set (al_keys (al_put i v (cd_rows t))) = set (al_keys (cd_rows t))"
    unfolding set_keys_al_put by (rule insert_absorb)
  with assms(1) show ?thesis by (simp add: channels_ok_def distinct_al_put del: set_map)
qed

lemma channels_fewer: "channels_ok t \<Longrightarrow> channels_ok (t\<lparr>cd_events := filter P (cd_events t)\<rparr>)"
  unfolding channels_ok_def by (auto simp del: set_map)

lemma RecordDelivery_ok: "channels_ok t \<Longrightarrow> channels_ok (fst (RecordDelivery fault i now m t))"
  by (simp add: RecordDelivery_def channels_put split: option.split)

lemma written_ok:
  assumes "writeAlertEvents i es t = Inr t'" "channels_ok t" "i \<in> set (al_keys (cd_rows t))"
  shows "channels_ok t'"
proof -
  have "fst ` set (map (Pair i) es) \<subseteq> set (al_keys (cd_rows t))" using assms(3) unfolding set_map [of "Pair i"] image_image by auto
  then show ?thesis unfolding writeAlertEvents_Inr [OF assms(1)] using assms(2)
    by (simp add: channels_ok_def image_Un del: set_map)
qed

lemma Channels_Create_ok: "channels_ok t \<Longrightarrow> channels_ok (fst (Channels_Create fault c t))"
proof -
  assume t: "channels_ok t"
  let ?i = "cd_seq t + 1"
  have base: "channels_ok (t\<lparr>cd_rows := cd_rows t @ [(?i, r)], cd_seq := ?i\<rparr>)" for r
  proof -
    have "?i \<notin> set (al_keys (cd_rows t))" and le: "\<forall>j \<in> set (al_keys (cd_rows t)). j \<le> cd_seq t"
      using t unfolding channels_ok_def by force+
    moreover have "\<forall>j \<in> insert ?i (set (al_keys (cd_rows t))). j \<le> ?i" using le by force
    ultimately show ?thesis using t by (simp add: channels_ok_def subset_insertI2 del: set_map)
  qed
  have "channels_ok t'" if "writeAlertEvents ?i es (t\<lparr>cd_rows := cd_rows t @ [(?i, r)], cd_seq := ?i\<rparr>) = Inr t'" for r es t'
    by (rule written_ok [OF that base]) simp
  then show ?thesis using t by (simp add: Channels_Create_def Let_def split: option.split sum.split)
qed

lemma Channels_Update_ok: "channels_ok t \<Longrightarrow> channels_ok (fst (Channels_Update fault c t))"
proof -
  assume t: "channels_ok t"
  let ?i = "ac_ID c"
  have "channels_ok t'"
    if "map_of (cd_rows t) ?i = Some r'" and w: "writeAlertEvents ?i es (t\<lparr>cd_rows := al_put ?i r (cd_rows t), cd_events := filter P (cd_events t)\<rparr>) = Inr t'"
    for r r' es t' P
    by (rule written_ok [OF w]) (use channels_fewer [OF channels_put [OF t that(1)]] in \<open>simp_all add: set_keys_al_put del: set_map\<close>)
  then show ?thesis using t by (simp add: Channels_Update_def split: option.split sum.split)
qed

lemma Channels_Delete_ok: "channels_ok t \<Longrightarrow> channels_ok (fst (Channels_Delete fault i t))"
proof -
  assume t: "channels_ok t"
  have "set (al_keys (al_del i (cd_rows t))) = set (al_keys (cd_rows t)) - {i}" by (auto simp: al_del_def)
  moreover have "fst ` set (filter (\<lambda>p. fst p \<noteq> i) es) = fst ` set es - {i}" for es :: "(int \<times> alert_event) list" by auto
  ultimately have "channels_ok (t\<lparr>cd_rows := al_del i (cd_rows t), cd_events := filter (\<lambda>p. fst p \<noteq> i) (cd_events t)\<rparr>)"
    using t unfolding channels_ok_def by (simp add: distinct_al_del del: set_map set_filter) blast
  with t show ?thesis by (simp add: Channels_Delete_def split: option.split)
qed

lemma refused_writes:
  "Channels_Create fault c t = (t', Inl e) \<Longrightarrow> t' = t"
  "Channels_Update fault c t = (t', Some e) \<Longrightarrow> t' = t"
  "Channels_Delete fault i t = (t', Some e) \<Longrightarrow> t' = t"
  by (auto simp: Channels_Create_def Channels_Update_def Channels_Delete_def Let_def split: option.splits sum.splits if_splits)

lemma reload_in_step:
  assumes "in_step p" "io RChannels = None" "channels_ok t"
  shows "in_step (reloadAlerts io (p\<lparr>ap_channels := t\<rparr>))"
  using assms by (auto simp: in_step_def reloadAlerts_def Channels_List_def Dispatcher_Reload_def)

lemma tested_in_step:
  assumes "in_step p" "ap_dispatcher p = Some d" "di_channels d' = di_channels d"
  shows "in_step (p\<lparr>ap_channels := fst (RecordDelivery fault i now m (ap_channels p)), ap_dispatcher := Some d'\<rparr>)"
proof -
  obtain cs where ok: "channels_ok (ap_channels p)" and l: "Channels_List None (ap_channels p) = Inr cs"
    and m: "map settings (di_channels d) = map settings cs"
    using assms(1,2) by (auto simp: in_step_def)
  obtain cs' where "Channels_List None (fst (RecordDelivery fault i now m (ap_channels p))) = Inr cs'" "map settings cs' = map settings cs"
    using RecordDelivery_settings [OF ok l] by blast
  with m assms(3) show ?thesis using RecordDelivery_ok [OF ok] by (simp add: in_step_def)
qed

lemma create_in_step:
  assumes "in_step p" "io RChannels = None"
  shows "in_step (fst (handleCreateAlertChannel parse io body p))"
proof -
  have ok: "channels_ok (ap_channels p)" using assms(1) by (simp add: in_step_def)
  have "in_step (p\<lparr>ap_channels := t\<rparr>)" if "Channels_Create f c (ap_channels p) = (t, Inl e)" for f c t e
    using refused_writes(1) [OF that] assms(1) by simp
  moreover have "in_step (reloadAlerts io (p\<lparr>ap_channels := t\<rparr>))" if "Channels_Create f c (ap_channels p) = (t, Inr c')" for f c t c'
    using reload_in_step [where p = p and io = io and t = t] assms Channels_Create_ok [OF ok, of f c] that by simp
  ultimately show ?thesis using assms(1) by (simp add: handleCreateAlertChannel_def Let_def split: sum.split option.split prod.split)
qed

lemma update_in_step:
  assumes "in_step p" "io RChannels = None"
  shows "in_step (fst (handleUpdateAlertChannel parse io raw body p))"
proof -
  have ok: "channels_ok (ap_channels p)" using assms(1) by (simp add: in_step_def)
  have "in_step (p\<lparr>ap_channels := t\<rparr>)" if "Channels_Update f c (ap_channels p) = (t, Some e)" for f c t e
    using refused_writes(2) [OF that] assms(1) by simp
  moreover have "in_step (reloadAlerts io (p\<lparr>ap_channels := t\<rparr>))" if "Channels_Update f c (ap_channels p) = (t, None)" for f c t
    using reload_in_step [where p = p and io = io and t = t] assms Channels_Update_ok [OF ok, of f c] that by simp
  ultimately show ?thesis using assms(1) by (simp add: handleUpdateAlertChannel_def Let_def split: sum.split option.split prod.split)
qed

lemma delete_in_step:
  assumes "in_step p" "io RChannels = None"
  shows "in_step (fst (handleDeleteAlertChannel io raw p))"
proof -
  have ok: "channels_ok (ap_channels p)" using assms(1) by (simp add: in_step_def)
  have "in_step (p\<lparr>ap_channels := t\<rparr>)" if "Channels_Delete f i (ap_channels p) = (t, Some e)" for f i t e
    using refused_writes(3) [OF that] assms(1) by simp
  moreover have "in_step (reloadAlerts io (p\<lparr>ap_channels := t\<rparr>))" if "Channels_Delete f i (ap_channels p) = (t, None)" for f i t
    using reload_in_step [where p = p and io = io and t = t] assms Channels_Delete_ok [OF ok, of f i] that by simp
  ultimately show ?thesis using assms(1) by (simp add: handleDeleteAlertChannel_def split: sum.split option.split prod.split)
qed

lemma serve_in_step:
  assumes "in_step p" "fst rq RChannels = None"
  shows "in_step (serve_alerts parse p rq)"
proof -
  have "in_step (fst (handleTestAlertChannel answer now io raw p))" for answer now io raw
    using assms(1) tested_in_step [OF assms(1)]
    by (simp add: handleTestAlertChannel_def Dispatcher_Test_def record_delivery_def Let_def split: sum.split option.split)
  with assms create_in_step update_in_step delete_in_step show ?thesis
    by (cases "(parse, p, rq)" rule: serve_alerts.cases) simp_all
qed

interpretation alerts: keeping "serve_alerts parse" in_step "\<lambda>rq. fst rq RChannels = None" for parse
  by unfold_locales (rule serve_in_step)

text \<open>C26. The dispatcher works with what is stored. After any sequence of requests to create, edit, delete and
  test channels, with a database that can read the list again after each change, the channels of the
  dispatcher are those of the table, with the same addresses, events and intervals: a channel that was
  deleted or switched off is not posted to any more.\<close>

theorem dispatcher_knows_channels:
  assumes "in_step p" "list_all (\<lambda>rq. fst rq RChannels = None) rqs" "p' = foldl (serve_alerts parse) p rqs"
  shows "\<exists>d. ap_dispatcher p' = Some d \<and>
    (\<forall>i c. Channels_Get None i (ap_channels p') = Inr c \<longrightarrow> settings c \<in> settings ` set (di_channels d)) \<and>
    (\<forall>c' \<in> set (di_channels d). \<exists>c. Channels_Get None (ac_ID c') (ap_channels p') = Inr c \<and> settings c' = settings c)"
proof -
  have "in_step p'" using alerts.kept [OF assms(1,2)] assms(3) by simp
  then obtain d cs where ok: "channels_ok (ap_channels p')" and d: "ap_dispatcher p' = Some d"
    and l: "Channels_List None (ap_channels p') = Inr cs" and m: "map settings (di_channels d) = map settings cs"
    unfolding in_step_def by blast
  have same: "settings ` set (di_channels d) = settings ` set cs" using arg_cong [OF m, of set] by simp
  have "settings c \<in> settings ` set (di_channels d)" if "Channels_Get None i (ap_channels p') = Inr c" for i c
    unfolding same by (rule imageI [OF Get_listed [OF that l]])
  moreover have "\<exists>c. Channels_Get None (ac_ID c') (ap_channels p') = Inr c \<and> settings c' = settings c" if "c' \<in> set (di_channels d)" for c'
  proof -
    have "settings c' \<in> settings ` set cs" using that same by blast
    then obtain c where c: "c \<in> set cs" "settings c' = settings c" by blast
    obtain i r where r: "(i, r) \<in> set (cd_rows (ap_channels p'))" "c = attachEvents (ap_channels p') (scanAlertChannel (i, r))"
      using c(1) l by (auto simp: Channels_List_def)
    then have "map_of (cd_rows (ap_channels p')) i = Some r" using ok by (simp add: channels_ok_def)
    then have "Channels_Get None i (ap_channels p') = Inr c" using r(2) by (simp add: Channels_Get_def)
    moreover have "ac_ID c' = i" using c(2) Get_ID [OF calculation] by (metis alert_channel.select_convs(1) alert_channel.surjective alert_channel.update_convs(8,9) settings_def)
    ultimately show ?thesis using c(2) by blast
  qed
  ultimately show ?thesis using d by blast
qed

section \<open>An example\<close>

definition ex_plane :: alert_plane where
  "ex_plane =
     \<lparr>ap_channels =
        \<lparr>cd_rows = [(1, \<lparr>cw_name = ''ops'', cw_type = AlertWebhook, cw_url = ''https://hooks.example.com/x'', cw_enabled = True,
            cw_min_interval_ms = 300000, cw_last_attempt_at = None, cw_last_error = []\<rparr>)],
         cd_seq = 1, cd_events = [(1, AlertHostUnavailable)]\<rparr>,
      ap_dispatcher = Some (Dispatcher_Reload (Some [ex_channel]) new_dispatcher)\<rparr>"

lemma ex_plane_get: "Channels_Get None 1 (ap_channels ex_plane) = Inr ex_channel"
  by (simp add: ex_plane_def ex_channel_def Channels_Get_def attachEvents_def scanAlertChannel_def from_milliseconds_def
      nullTime_def)

lemma ex_plane_in_step: "in_step ex_plane"
proof -
  have "Channels_List None (ap_channels ex_plane) = Inr [ex_channel]"
    using ex_plane_get by (simp add: ex_plane_def Channels_List_def Channels_Get_def)
  then show ?thesis by (simp add: in_step_def channels_ok_def) (simp add: ex_plane_def Dispatcher_Reload_def new_dispatcher_def)
qed

lemma ex_path_id: "pathID ''1'' = Inr 1"
  by code_simp

definition ex_edit :: channel_payload where
  "ex_edit = \<lparr>pc_Name = ''on call'', pc_Type = [], pc_Enabled = True, pc_URL = [],
     pc_Events = [AlertUpstreamDown, AlertHostUnavailable], pc_MinIntervalSeconds = 90\<rparr>"

lemma ex_edit_accepted:
  "snd (handleUpdateAlertChannel Domain_Redirect.ex_parse (\<lambda>_. None) ''1'' (Inr ex_edit) ex_plane) =
     Inr (200, ChannelView (viewOfChannel Domain_Redirect.ex_parse (merged_channel 1 ex_edit ex_channel)))"
proof -
  have v: "AlertChannel_Validate Domain_Redirect.ex_parse (merged_channel 1 ex_edit ex_channel) = None" by code_simp
  have "snd (Channels_Update None (merged_channel 1 ex_edit ex_channel) (ap_channels ex_plane)) = None" by code_simp
  then obtain t where u: "Channels_Update None (merged_channel 1 ex_edit ex_channel) (ap_channels ex_plane) = (t, None)"
    by (metis prod.collapse)
  show ?thesis by (simp add: handleUpdateAlertChannel_def ex_path_id ex_plane_get v u Let_def)
qed

theorem channel_edit_reads_back_witness:
  "\<exists>c. Channels_Get None 1 (ap_channels (fst (handleUpdateAlertChannel Domain_Redirect.ex_parse (\<lambda>_. None) ''1'' (Inr ex_edit) ex_plane))) = Inr c \<and>
     ac_URL c = ''https://hooks.example.com/x'' \<and> ac_Events c = [AlertHostUnavailable, AlertUpstreamDown]"
proof -
  obtain p' where u: "handleUpdateAlertChannel Domain_Redirect.ex_parse (\<lambda>_. None) ''1'' (Inr ex_edit) ex_plane =
      (p', Inr (200, ChannelView (viewOfChannel Domain_Redirect.ex_parse (merged_channel 1 ex_edit ex_channel))))"
    using ex_edit_accepted by (metis prod.collapse)
  have "Channels_Get None 1 (ap_channels p') = Inr (edited (merged_channel 1 ex_edit ex_channel) ex_channel)"
    using channel_edit_reads_back [OF u ex_path_id] ex_plane_get by auto
  moreover have "ac_URL (edited (merged_channel 1 ex_edit ex_channel) ex_channel) = ''https://hooks.example.com/x''"
    "ac_Events (edited (merged_channel 1 ex_edit ex_channel) ex_channel) = [AlertHostUnavailable, AlertUpstreamDown]" by code_simp+
  ultimately show ?thesis unfolding u by simp
qed

theorem failed_test_reveals_webhook_witness:
  "\<forall>parse. \<exists>vs v s. handleListAlertChannels parse (\<lambda>_. None)
      (fst (handleTestAlertChannel (Inl (client_message ''https://hooks.example.com/x'' ''connection refused'')) 0 (\<lambda>_. None) ''1'' ex_plane)) =
        Inr (200, ChannelViews vs) \<and> v \<in> set vs \<and> s \<in> set (shown v) \<and> contains s ''https://hooks.example.com/x''"
proof (intro allI, goal_cases)
  case (1 parse)
  have d: "ap_dispatcher ex_plane = Some (Dispatcher_Reload (Some [ex_channel]) new_dispatcher)" by (simp add: ex_plane_def)
  have a: "Inl (client_message ''https://hooks.example.com/x'' ''connection refused'') = (Inl (client_message (ac_URL ex_channel) ''connection refused'') :: string + int)"
    by (simp add: ex_channel_def)
  have url: "ac_URL ex_channel = ''https://hooks.example.com/x''" by (simp add: ex_channel_def)
  from failed_test_reveals_webhook [OF ex_path_id d refl refl ex_plane_get a prod.collapse [symmetric] refl, of 0 parse]
  show ?case unfolding url by blast
qed

theorem dispatcher_knows_channels_witness:
  "\<forall>parse. \<exists>d. ap_dispatcher (foldl (serve_alerts parse) ex_plane [(\<lambda>_. None, DeleteChannel ''1'')]) = Some d \<and> di_channels d = []"
proof (intro allI, goal_cases)
  case (1 parse)
  let ?p = "foldl (serve_alerts parse) ex_plane [(\<lambda>_. None, DeleteChannel ''1'')]"
  obtain d where d: "ap_dispatcher ?p = Some d"
    and s: "\<forall>c' \<in> set (di_channels d). \<exists>c. Channels_Get None (ac_ID c') (ap_channels ?p) = Inr c \<and> settings c' = settings c"
    using dispatcher_knows_channels [OF ex_plane_in_step _ refl, of "[(\<lambda>_. None, DeleteChannel ''1'')]" parse] by auto
  have "cd_rows (ap_channels ?p) = []"
    by (simp add: handleDeleteAlertChannel_def ex_path_id Channels_Delete_def reloadAlerts_def ex_plane_def al_del_def)
  with d s show ?case by (cases "di_channels d") (auto simp: Channels_Get_def)
qed

end
