(* ===== verification/Ws_Hub.thy ===== *)
theory Ws_Hub
  imports Go_Base "HOL-Library.Sublist"
begin

text \<open>
  The hub that sends live metrics to the connected dashboards (\<^verbatim>\<open>api/ws/hub.go\<close>). Its goroutines, the
  broadcast loop and a reading and a writing loop for each dashboard, are steps that interleave; a step is
  one critical section or one operation on a channel or a connection. Dashboards are numbered in the order
  they connect. What the network does, and how the snapshot is encoded, is part of the event of a step.
\<close>

section \<open>Dashboards\<close>

type_synonym payload = string

datatype side = Reader | Writer

datatype loop = Looping | Removing | Closing | Ended

record dashboard =
  ds_queue :: "payload list"
  ds_closed :: bool
  ds_chanClosed :: bool
  ds_connClosed :: bool
  ds_frames :: "payload list"
  ds_greeted :: bool
  ds_loop :: "side \<Rightarrow> loop"

definition sendBuffer :: nat where "sendBuffer = 8"

definition new_dashboard :: dashboard where
  "new_dashboard = \<lparr>ds_queue = [], ds_closed = False, ds_chanClosed = False, ds_connClosed = False, ds_frames = [],
     ds_greeted = False, ds_loop = (\<lambda>_. Looping)\<rparr>"

text \<open>What the broadcast loop is about to do.\<close>

datatype phase =
    Waiting
  | Encoding
  | Copying payload
  | Sending payload "nat list"
  | Dropping nat payload "nat list"
  | ClosingSlow nat payload "nat list"
  | ClosingAll "nat list"
  | Stopped

record hub =
  hb_clients :: "nat set"
  hb_next :: nat
  hb_dash :: "nat \<Rightarrow> dashboard"
  hb_phase :: phase
  hb_panicked :: bool

definition new_hub :: hub where
  "new_hub = \<lparr>hb_clients = {}, hb_next = 0, hb_dash = (\<lambda>_. new_dashboard\<lparr>ds_greeted := True, ds_loop := \<lambda>_. Ended\<rparr>),
     hb_phase = Waiting, hb_panicked = False\<rparr>"

definition on_dash :: "nat \<Rightarrow> (dashboard \<Rightarrow> dashboard) \<Rightarrow> hub \<Rightarrow> hub" where
  "on_dash c f h = h\<lparr>hb_dash := (hb_dash h)(c := f (hb_dash h c))\<rparr>"

text \<open>A send on a closed channel, and closing one twice, panics.\<close>

definition trySend :: "nat \<Rightarrow> payload \<Rightarrow> hub \<Rightarrow> hub \<times> bool" where
  "trySend c p h =
     (let d = hb_dash h c
      in if ds_closed d then (h, False)
         else if ds_chanClosed d then (h\<lparr>hb_panicked := True\<rparr>, False)
         else if length (ds_queue d) < sendBuffer then (on_dash c (\<lambda>d. d\<lparr>ds_queue := ds_queue d @ [p]\<rparr>) h, True)
         else (h, False))"

definition close_dash :: "nat \<Rightarrow> hub \<Rightarrow> hub" where
  "close_dash c h =
     (if ds_closed (hb_dash h c) then h
      else let h = on_dash c (\<lambda>d. d\<lparr>ds_closed := True\<rparr>) h
           in if ds_chanClosed (hb_dash h c) then h\<lparr>hb_panicked := True\<rparr>
              else on_dash c (\<lambda>d. d\<lparr>ds_chanClosed := True, ds_connClosed := True\<rparr>) h)"

text \<open>The critical section of \<^verbatim>\<open>remove\<close>, and whether the dashboard was there.\<close>

definition take_out :: "nat \<Rightarrow> hub \<Rightarrow> hub \<times> bool" where
  "take_out c h = (h\<lparr>hb_clients := hb_clients h - {c}\<rparr>, c \<in> hb_clients h)"

definition add_client :: "hub \<Rightarrow> hub" where
  "add_client h =
     h\<lparr>hb_clients := insert (hb_next h) (hb_clients h), hb_next := Suc (hb_next h), hb_dash := (hb_dash h)(hb_next h := new_dashboard)\<rparr>"

definition set_loop :: "side \<Rightarrow> loop \<Rightarrow> dashboard \<Rightarrow> dashboard" where
  "set_loop s l d = d\<lparr>ds_loop := (ds_loop d)(s := l)\<rparr>"

section \<open>Steps\<close>

datatype hub_event =
    Connected
  | Greeted nat "payload option"
  | Ticked
  | Snapshot "payload option"
  | Copied "nat list"
  | Offered nat payload
  | Finished
  | Dropped
  | ClosedSlow
  | Cancelled "nat list"
  | ClosedNext
  | Written nat payload
  | WriteFailed nat
  | ChannelEnded nat
  | PingFailed nat
  | ReadFailed nat
  | Left side nat
  | ClosedBy side nat

inductive hub_step :: "hub \<Rightarrow> hub_event \<Rightarrow> hub \<Rightarrow> bool" where
  connect: "hub_step h Connected (add_client h)"
| greet: "\<not> ds_greeted (hb_dash h c) \<Longrightarrow> h1 = on_dash c (\<lambda>d. d\<lparr>ds_greeted := True\<rparr>) h \<Longrightarrow>
    hub_step h (Greeted c p) (case p of None \<Rightarrow> h1 | Some p \<Rightarrow> fst (trySend c p h1))"
| tick: "hb_phase h = Waiting \<Longrightarrow> hub_step h Ticked (h\<lparr>hb_phase := (if hb_clients h = {} then Waiting else Encoding)\<rparr>)"
| snapshot: "hb_phase h = Encoding \<Longrightarrow>
    hub_step h (Snapshot p) (h\<lparr>hb_phase := (case p of None \<Rightarrow> Waiting | Some p \<Rightarrow> Copying p)\<rparr>)"
| copy: "hb_phase h = Copying p \<Longrightarrow> distinct cs \<Longrightarrow> set cs = hb_clients h \<Longrightarrow> hub_step h (Copied cs) (h\<lparr>hb_phase := Sending p cs\<rparr>)"
| offer: "hb_phase h = Sending p (c # cs) \<Longrightarrow> trySend c p h = (h1, ok) \<Longrightarrow>
    hub_step h (Offered c p) (h1\<lparr>hb_phase := (if ok then Sending p cs else Dropping c p cs)\<rparr>)"
| finish: "hb_phase h = Sending p [] \<Longrightarrow> hub_step h Finished (h\<lparr>hb_phase := Waiting\<rparr>)"
| drop: "hb_phase h = Dropping c p cs \<Longrightarrow> take_out c h = (h1, present) \<Longrightarrow>
    hub_step h Dropped (h1\<lparr>hb_phase := (if present then ClosingSlow c p cs else Sending p cs)\<rparr>)"
| close_slow: "hb_phase h = ClosingSlow c p cs \<Longrightarrow> hub_step h ClosedSlow ((close_dash c h)\<lparr>hb_phase := Sending p cs\<rparr>)"
| cancel: "hb_phase h = Waiting \<Longrightarrow> distinct cs \<Longrightarrow> set cs = hb_clients h \<Longrightarrow>
    hub_step h (Cancelled cs) (h\<lparr>hb_clients := {}, hb_phase := ClosingAll cs\<rparr>)"
| close_next: "hb_phase h = ClosingAll (c # cs) \<Longrightarrow> hub_step h ClosedNext ((close_dash c h)\<lparr>hb_phase := ClosingAll cs\<rparr>)"
| stop: "hb_phase h = ClosingAll [] \<Longrightarrow> hub_step h Finished (h\<lparr>hb_phase := Stopped\<rparr>)"
| written: "ds_loop (hb_dash h c) Writer = Looping \<Longrightarrow> ds_queue (hb_dash h c) = p # ps \<Longrightarrow> \<not> ds_connClosed (hb_dash h c) \<Longrightarrow>
    hub_step h (Written c p) (on_dash c (\<lambda>d. d\<lparr>ds_queue := ps, ds_frames := ds_frames d @ [p]\<rparr>) h)"
| write_fails: "ds_loop (hb_dash h c) Writer = Looping \<Longrightarrow> ds_queue (hb_dash h c) = p # ps \<Longrightarrow>
    hub_step h (WriteFailed c) (on_dash c (\<lambda>d. set_loop Writer Removing (d\<lparr>ds_queue := ps\<rparr>)) h)"
| channel_ends: "ds_loop (hb_dash h c) Writer = Looping \<Longrightarrow> ds_queue (hb_dash h c) = [] \<Longrightarrow> ds_chanClosed (hb_dash h c) \<Longrightarrow>
    hub_step h (ChannelEnded c) (on_dash c (set_loop Writer Removing) h)"
| ping_fails: "ds_loop (hb_dash h c) Writer = Looping \<Longrightarrow> hub_step h (PingFailed c) (on_dash c (set_loop Writer Removing) h)"
| read_fails: "ds_loop (hb_dash h c) Reader = Looping \<Longrightarrow> hub_step h (ReadFailed c) (on_dash c (set_loop Reader Removing) h)"
| leave: "ds_loop (hb_dash h c) s = Removing \<Longrightarrow> take_out c h = (h1, present) \<Longrightarrow>
    hub_step h (Left s c) (on_dash c (set_loop s (if present then Closing else Ended)) h1)"
| close_by: "ds_loop (hb_dash h c) s = Closing \<Longrightarrow> hub_step h (ClosedBy s c) (on_dash c (set_loop s Ended) (close_dash c h))"

section \<open>What every interleaving keeps\<close>

text \<open>The dashboards whose removal one of the goroutines has still to finish.\<close>

definition closing :: "hub \<Rightarrow> nat \<Rightarrow> bool" where
  "closing h c \<longleftrightarrow> (\<exists>s. ds_loop (hb_dash h c) s = Closing) \<or> (\<exists>p cs. hb_phase h = ClosingSlow c p cs) \<or>
     (\<exists>cs. hb_phase h = ClosingAll cs \<and> c \<in> set cs)"

fun targets :: "phase \<Rightarrow> nat list" where
  "targets (Sending p cs) = cs"
| "targets (Dropping c p cs) = c # cs"
| "targets (ClosingSlow c p cs) = c # cs"
| "targets (ClosingAll cs) = cs"
| "targets _ = []"

definition dash_ok :: "dashboard \<Rightarrow> bool" where
  "dash_ok d \<longleftrightarrow> ds_chanClosed d = ds_closed d \<and> ds_connClosed d = ds_closed d \<and> length (ds_queue d) \<le> sendBuffer"

definition idle :: "dashboard \<Rightarrow> bool" where
  "idle d \<longleftrightarrow> \<not> ds_closed d \<and> ds_greeted d \<and> ds_queue d = [] \<and> (\<forall>s. ds_loop d s = Ended)"

definition hub_ok :: "hub \<Rightarrow> bool" where
  "hub_ok h \<longleftrightarrow> \<not> hb_panicked h \<and> (\<forall>c. dash_ok (hb_dash h c)) \<and> (\<forall>c \<ge> hb_next h. idle (hb_dash h c)) \<and>
     (\<forall>c \<in> hb_clients h. c < hb_next h \<and> \<not> ds_closed (hb_dash h c) \<and> \<not> closing h c) \<and>
     (\<forall>c \<in> set (targets (hb_phase h)). c < hb_next h) \<and>
     (\<forall>c < hb_next h. c \<in> hb_clients h \<or> ds_closed (hb_dash h c) \<or> closing h c)"

lemma hub_okI:
  assumes "\<not> hb_panicked h" "\<And>c. dash_ok (hb_dash h c)" "\<And>c. hb_next h \<le> c \<Longrightarrow> idle (hb_dash h c)"
    "\<And>c. c \<in> hb_clients h \<Longrightarrow> c < hb_next h \<and> \<not> ds_closed (hb_dash h c) \<and> \<not> closing h c"
    "\<And>c. c \<in> set (targets (hb_phase h)) \<Longrightarrow> c < hb_next h"
    "\<And>c. c < hb_next h \<Longrightarrow> c \<in> hb_clients h \<or> ds_closed (hb_dash h c) \<or> closing h c"
  shows "hub_ok h"
  using assms unfolding hub_ok_def by blast

lemma hub_okD:
  assumes "hub_ok h"
  shows "\<not> hb_panicked h" "dash_ok (hb_dash h c)" "hb_next h \<le> c \<Longrightarrow> idle (hb_dash h c)"
    "c \<in> hb_clients h \<Longrightarrow> c < hb_next h" "c \<in> hb_clients h \<Longrightarrow> \<not> ds_closed (hb_dash h c)" "c \<in> hb_clients h \<Longrightarrow> \<not> closing h c"
    "c \<in> set (targets (hb_phase h)) \<Longrightarrow> c < hb_next h"
    "c < hb_next h \<Longrightarrow> c \<in> hb_clients h \<or> ds_closed (hb_dash h c) \<or> closing h c"
  using assms unfolding hub_ok_def by blast+

lemma on_dash_simps [simp]:
  "hb_clients (on_dash c f h) = hb_clients h" "hb_next (on_dash c f h) = hb_next h" "hb_phase (on_dash c f h) = hb_phase h"
  "hb_panicked (on_dash c f h) = hb_panicked h" "hb_dash (on_dash c f h) = (hb_dash h)(c := f (hb_dash h c))"
  by (simp_all add: on_dash_def)

lemma trySend_ok: "hub_ok h \<Longrightarrow> trySend c p h =
    (if \<not> ds_closed (hb_dash h c) \<and> length (ds_queue (hb_dash h c)) < sendBuffer
     then (on_dash c (\<lambda>d. d\<lparr>ds_queue := ds_queue d @ [p]\<rparr>) h, True) else (h, False))"
  using hub_okD(2) [of h c] by (simp add: trySend_def Let_def dash_ok_def)

definition shut :: "dashboard \<Rightarrow> dashboard" where
  "shut d = (if ds_closed d then d else d\<lparr>ds_closed := True, ds_chanClosed := True, ds_connClosed := True\<rparr>)"

lemma close_dash_ok: "hub_ok h \<Longrightarrow> close_dash c h = on_dash c shut h"
  using hub_okD(2) [of h c] by (simp add: close_dash_def Let_def dash_ok_def shut_def on_dash_def fun_upd_idem)

lemma active_allocated: "hub_ok h \<Longrightarrow> \<not> idle (hb_dash h c) \<Longrightarrow> c < hb_next h"
  using hub_okD(3) [of h c] by (meson not_le)

lemma on_dash_ok:
  assumes "hub_ok h" "c < hb_next h" "dash_ok (f (hb_dash h c))" "ds_closed (f (hb_dash h c)) = ds_closed (hb_dash h c)"
    and "\<And>s. ds_loop (f (hb_dash h c)) s = Closing \<longleftrightarrow> ds_loop (hb_dash h c) s = Closing"
  shows "hub_ok (on_dash c f h)"
proof -
  note ok = hub_okD [OF assms(1)] and c = assms(2)
  have closing: "closing (on_dash c f h) x = closing h x" for x using assms(5) by (simp add: closing_def)
  show ?thesis
    by (rule hub_okI) (use ok assms(3,4) c in \<open>auto simp: closing\<close>)
qed

lemma phase_ok:
  assumes "hub_ok h" "\<And>x. closing (h\<lparr>hb_phase := ph\<rparr>) x = closing h x" "\<forall>x \<in> set (targets ph). x < hb_next h"
  shows "hub_ok (h\<lparr>hb_phase := ph\<rparr>)"
  by (rule hub_okI) (use hub_okD [OF assms(1)] assms(2,3) in simp_all)

text \<open>Closing a dashboard that was taken out finishes its removal.\<close>

lemma settled_ok:
  assumes "hub_ok h" "closing h c" "\<And>s. ds_loop (f (hb_dash h c)) s = Closing \<Longrightarrow> ds_loop (hb_dash h c) s = Closing"
    and "dash_ok (f (hb_dash h c))" "ds_closed (f (hb_dash h c))"
    and "\<And>x. x \<noteq> c \<Longrightarrow> closing (on_dash c f h\<lparr>hb_phase := ph\<rparr>) x = closing h x"
    and "set (targets ph) \<subseteq> set (targets (hb_phase h))" "c < hb_next h"
  shows "hub_ok (on_dash c f h\<lparr>hb_phase := ph\<rparr>)"
proof -
  note ok = hub_okD [OF assms(1)]
  have c: "c \<notin> hb_clients h" using ok(6) assms(2) by blast
  show ?thesis
  proof (rule hub_okI)
    fix x
    let ?h = "on_dash c f h\<lparr>hb_phase := ph\<rparr>"
    show "dash_ok (hb_dash ?h x)" using ok(2) assms(4) by simp
    show "idle (hb_dash ?h x)" if "hb_next ?h \<le> x" using ok(3) that assms(8) by simp
    show "x < hb_next ?h \<and> \<not> ds_closed (hb_dash ?h x) \<and> \<not> closing ?h x" if "x \<in> hb_clients ?h"
      using ok(4-6) [of x] that c assms(6) [of x] by auto
    show "x < hb_next ?h" if "x \<in> set (targets (hb_phase ?h))" using ok(7) that assms(7) by auto
    show "x \<in> hb_clients ?h \<or> ds_closed (hb_dash ?h x) \<or> closing ?h x" if "x < hb_next ?h"
      using ok(8) [of x] that assms(5) assms(6) [of x] by (cases "x = c") auto
  qed (use ok(1) in simp)
qed

lemma shut_ok: "dash_ok d \<Longrightarrow> dash_ok (shut d)" "ds_closed (shut d)" "ds_loop (shut d) = ds_loop d"
  by (simp_all add: shut_def dash_ok_def)

lemma closing_allocated: "hub_ok h \<Longrightarrow> closing h c \<Longrightarrow> c < hb_next h"
proof -
  assume ok: "hub_ok h" and c: "closing h c"
  have "c < hb_next h" if "ds_loop (hb_dash h c) s = Closing" for s
    by (rule active_allocated [OF ok]) (use that in \<open>auto simp: idle_def\<close>)
  moreover have "c < hb_next h" if "c \<in> set (targets (hb_phase h))" using hub_okD(7) [OF ok that] .
  ultimately show ?thesis using c by (auto simp: closing_def)
qed

lemma set_loop_simps [simp]:
  "ds_loop (set_loop s l d) = (ds_loop d)(s := l)" "ds_closed (set_loop s l d) = ds_closed d"
  "ds_chanClosed (set_loop s l d) = ds_chanClosed d" "ds_connClosed (set_loop s l d) = ds_connClosed d"
  "ds_queue (set_loop s l d) = ds_queue d" "ds_frames (set_loop s l d) = ds_frames d" "dash_ok (set_loop s l d) = dash_ok d"
  by (simp_all add: set_loop_def dash_ok_def)

lemma taken_ok:
  assumes "hub_ok h" "c \<in> hb_clients h" "dash_ok (f (hb_dash h c))" "ds_closed (f (hb_dash h c)) = ds_closed (hb_dash h c)" "c < hb_next h"
    and "h' = on_dash c f (h\<lparr>hb_clients := hb_clients h - {c}, hb_phase := ph\<rparr>)"
    and "closing h' c" "\<And>x. x \<noteq> c \<Longrightarrow> closing h' x = closing h x" "\<forall>x \<in> set (targets ph). x < hb_next h"
  shows "hub_ok h'"
proof -
  note ok = hub_okD [OF assms(1)]
  show ?thesis
  proof (rule hub_okI)
    fix x
    show "dash_ok (hb_dash h' x)" using ok(2) assms(3) by (simp add: assms(6))
    show "idle (hb_dash h' x)" if "hb_next h' \<le> x" using ok(3) that assms(5) by (simp add: assms(6))
    show "x < hb_next h' \<and> \<not> ds_closed (hb_dash h' x) \<and> \<not> closing h' x" if "x \<in> hb_clients h'"
      using ok(4-6) [of x] that assms(8) [of x] by (auto simp: assms(6))
    show "x < hb_next h'" if "x \<in> set (targets (hb_phase h'))" using assms(9) that by (simp add: assms(6))
    show "x \<in> hb_clients h' \<or> ds_closed (hb_dash h' x) \<or> closing h' x" if "x < hb_next h'"
      using ok(8) [of x] that assms(7) assms(8) [of x] by (cases "x = c") (auto simp: assms(6))
  qed (use ok(1) in \<open>simp add: assms(6)\<close>)
qed

lemma hub_step_ok: "hub_step h e h' \<Longrightarrow> hub_ok h \<Longrightarrow> hub_ok h'"
proof (induction rule: hub_step.induct)
  case (connect h)
  note ok = hub_okD [OF connect]
  have fresh: "idle (hb_dash h (hb_next h))" "hb_next h \<notin> hb_clients h" using ok(3,4) by auto
  have closing: "closing (add_client h) x = (if x = hb_next h then False else closing h x)" for x
    using ok(7) [of "hb_next h"] by (auto simp: closing_def add_client_def new_dashboard_def)
  show ?case
  proof (rule hub_okI)
    fix x
    show "dash_ok (hb_dash (add_client h) x)" using ok(2) by (simp add: add_client_def dash_ok_def new_dashboard_def)
    show "idle (hb_dash (add_client h) x)" if "hb_next (add_client h) \<le> x" using ok(3) that by (simp add: add_client_def)
    show "x < hb_next (add_client h) \<and> \<not> ds_closed (hb_dash (add_client h) x) \<and> \<not> closing (add_client h) x"
      if "x \<in> hb_clients (add_client h)"
      unfolding closing using ok(4-6) [of x] that by (auto simp: add_client_def new_dashboard_def)
    show "x < hb_next (add_client h)" if "x \<in> set (targets (hb_phase (add_client h)))" using ok(7) [of x] that by (simp add: add_client_def)
    show "x \<in> hb_clients (add_client h) \<or> ds_closed (hb_dash (add_client h) x) \<or> closing (add_client h) x"
      if "x < hb_next (add_client h)"
      unfolding closing using ok(8) [of x] that by (auto simp: add_client_def less_Suc_eq)
  qed (use ok(1) in \<open>simp add: add_client_def\<close>)
next
  case (greet h c h1 p)
  have d: "dash_ok (hb_dash h c)" by (rule hub_okD(2) [OF greet.prems])
  have h1: "hub_ok h1" unfolding greet(2)
    by (rule on_dash_ok [OF greet.prems active_allocated [OF greet.prems]]) (use greet(1) d in \<open>simp_all add: idle_def dash_ok_def\<close>)
  show ?case
  proof (cases p)
    case (Some p)
    have "hub_ok (on_dash c (\<lambda>d. d\<lparr>ds_greeted := True, ds_queue := ds_queue d @ [p]\<rparr>) h)" if "length (ds_queue (hb_dash h c)) < sendBuffer"
      by (rule on_dash_ok [OF greet.prems active_allocated [OF greet.prems]]) (use greet(1) d that in \<open>simp_all add: idle_def dash_ok_def\<close>)
    moreover have "on_dash c (\<lambda>d. d\<lparr>ds_queue := ds_queue d @ [p]\<rparr>) h1 = on_dash c (\<lambda>d. d\<lparr>ds_greeted := True, ds_queue := ds_queue d @ [p]\<rparr>) h"
      by (simp add: greet(2) on_dash_def)
    ultimately show ?thesis using Some h1 by (simp add: trySend_ok [OF h1]) (simp add: greet(2))
  qed (simp add: h1)
next
  case (tick h)
  show ?case by (rule phase_ok [OF tick(2)]) (auto simp: closing_def tick(1))
next
  case (snapshot h p)
  show ?case by (rule phase_ok [OF snapshot(2)]) (auto simp: closing_def snapshot(1) split: option.splits)
next
  case (copy h p cs)
  show ?case by (rule phase_ok [OF copy(4)]) (use hub_okD(4) [OF copy(4)] copy in \<open>auto simp: closing_def\<close>)
next
  case (offer h p c cs h1 ok)
  note t = hub_okD(7) [OF offer(3)]
  show ?case
  proof (cases ok)
    case True
    then have h1: "h1 = on_dash c (\<lambda>d. d\<lparr>ds_queue := ds_queue d @ [p]\<rparr>) h" and q: "length (ds_queue (hb_dash h c)) < sendBuffer"
      using offer(2) by (auto simp: trySend_ok [OF offer(3)] split: if_splits)
    have "hub_ok h1" unfolding h1
      by (rule on_dash_ok [OF offer(3)]) (use q t offer(1) hub_okD(2) [OF offer(3), of c] in \<open>simp_all add: dash_ok_def\<close>)
    then have "hub_ok (h1\<lparr>hb_phase := Sending p cs\<rparr>)"
      by (rule phase_ok) (use offer(1) t in \<open>simp_all add: closing_def h1\<close>)
    with True show ?thesis by simp
  next
    case False
    then have "h1 = h" using offer(2) by (auto simp: trySend_ok [OF offer(3)] split: if_splits)
    moreover have "hub_ok (h\<lparr>hb_phase := Dropping c p cs\<rparr>)"
      by (rule phase_ok [OF offer(3)]) (use offer(1) t in \<open>simp_all add: closing_def\<close>)
    ultimately show ?thesis using False by simp
  qed
next
  case (finish h p)
  show ?case by (rule phase_ok [OF finish(2)]) (auto simp: closing_def finish(1))
next
  case (drop h c p cs h1 present)
  have h1: "h1 = h\<lparr>hb_clients := hb_clients h - {c}\<rparr>" and p: "present = (c \<in> hb_clients h)"
    using drop(2) by (auto simp: take_out_def)
  note t = hub_okD(7) [OF drop(3)]
  show ?case
  proof (cases present)
    case True
    have "hub_ok (on_dash c id (h\<lparr>hb_clients := hb_clients h - {c}, hb_phase := ClosingSlow c p cs\<rparr>))"
      by (rule taken_ok [OF drop(3) _ _ _ _ refl]) (use drop(1) True p t hub_okD(2,4) [OF drop(3)] in \<open>auto simp: closing_def\<close>)
    with True show ?thesis by (simp add: h1 on_dash_def)
  next
    case False
    then have "h1 = h" using h1 p by simp
    moreover have "hub_ok (h\<lparr>hb_phase := Sending p cs\<rparr>)"
      by (rule phase_ok [OF drop(3)]) (use drop(1) t in \<open>simp_all add: closing_def\<close>)
    ultimately show ?thesis using False by simp
  qed
next
  case (close_slow h c p cs)
  have c: "closing h c" using close_slow(1) by (simp add: closing_def)
  show ?case unfolding close_dash_ok [OF close_slow(2)]
    by (rule settled_ok [OF close_slow(2) c])
      (use close_slow(1) hub_okD(2,7) [OF close_slow(2)] in \<open>auto simp: shut_ok closing_def\<close>)
next
  case (cancel h cs)
  note ok = hub_okD [OF cancel(4)]
  let ?h = "h\<lparr>hb_clients := {}, hb_phase := ClosingAll cs\<rparr>"
  have closing: "closing ?h x \<longleftrightarrow> closing h x \<or> x \<in> hb_clients h" for x using cancel(1,3) by (auto simp: closing_def)
  show ?case
  proof (rule hub_okI)
    fix x
    show "x \<in> hb_clients ?h \<or> ds_closed (hb_dash ?h x) \<or> closing ?h x" if "x < hb_next ?h"
      using ok(8) [of x] that closing [of x] by auto
  qed (use ok(1-4) cancel(3) in auto)
next
  case (close_next h c cs)
  have c: "closing h c" using close_next(1) by (simp add: closing_def)
  show ?case unfolding close_dash_ok [OF close_next(2)]
    by (rule settled_ok [OF close_next(2) c])
      (use close_next(1) hub_okD(2,7) [OF close_next(2)] in \<open>auto simp: shut_ok closing_def\<close>)
next
  case (stop h)
  show ?case by (rule phase_ok [OF stop(2)]) (auto simp: closing_def stop(1))
next
  case (written h c p ps)
  show ?case by (rule on_dash_ok [OF written(4) active_allocated [OF written(4)]]) (use written hub_okD(2) [OF written(4), of c] in \<open>simp_all add: idle_def dash_ok_def\<close>)
next
  case (write_fails h c p ps)
  show ?case
    by (rule on_dash_ok [OF write_fails(3) active_allocated [OF write_fails(3)]]) (use write_fails hub_okD(2) [OF write_fails(3), of c] in \<open>simp_all add: idle_def dash_ok_def\<close>)
next
  case (channel_ends h c)
  show ?case by (rule on_dash_ok [OF channel_ends(4) active_allocated [OF channel_ends(4)]]) (use channel_ends hub_okD(2) [OF channel_ends(4), of c] in \<open>auto simp: idle_def\<close>)
next
  case (ping_fails h c)
  show ?case by (rule on_dash_ok [OF ping_fails(2) active_allocated [OF ping_fails(2)]]) (use ping_fails hub_okD(2) [OF ping_fails(2), of c] in \<open>auto simp: idle_def\<close>)
next
  case (read_fails h c)
  show ?case by (rule on_dash_ok [OF read_fails(2) active_allocated [OF read_fails(2)]]) (use read_fails hub_okD(2) [OF read_fails(2), of c] in \<open>auto simp: idle_def\<close>)
next
  case (leave h c s h1 present)
  have h1: "h1 = h\<lparr>hb_clients := hb_clients h - {c}\<rparr>" and p: "present = (c \<in> hb_clients h)"
    using leave(2) by (auto simp: take_out_def)
  have c: "c < hb_next h" by (rule active_allocated [OF leave(3)]) (use leave(1) in \<open>auto simp: idle_def\<close>)
  show ?case
  proof (cases present)
    case True
    have "hub_ok (on_dash c (set_loop s Closing) (h\<lparr>hb_clients := hb_clients h - {c}, hb_phase := hb_phase h\<rparr>))"
      by (rule taken_ok [OF leave(3) _ _ _ c refl]) (use True p hub_okD(2,7) [OF leave(3)] in \<open>auto simp: closing_def\<close>)
    with True show ?thesis by (simp add: h1)
  next
    case False
    then have "h1 = h" using h1 p by simp
    moreover have "hub_ok (on_dash c (set_loop s Ended) h)"
      by (rule on_dash_ok [OF leave(3) c]) (use leave(1) hub_okD(2) [OF leave(3)] in auto)
    ultimately show ?thesis using False by simp
  qed
next
  case (close_by h c s)
  have c: "closing h c" using close_by(1) by (auto simp: closing_def)
  have "hub_ok (on_dash c (\<lambda>d. set_loop s Ended (shut d)) h\<lparr>hb_phase := hb_phase h\<rparr>)"
    by (rule settled_ok [OF close_by(2) c])
      (use closing_allocated [OF close_by(2) c] hub_okD(2) [OF close_by(2)] in \<open>auto simp: shut_ok closing_def split: if_splits\<close>)
  then show ?case unfolding close_dash_ok [OF close_by(2)] by (simp add: on_dash_def)
qed

section \<open>What a dashboard gets\<close>

fun offered_to :: "nat \<Rightarrow> hub_event list \<Rightarrow> payload list" where
  "offered_to c [] = []"
| "offered_to c (Offered c' p # es) = (if c' = c then p # offered_to c es else offered_to c es)"
| "offered_to c (_ # es) = offered_to c es"

lemma offered_to_append: "offered_to c (es @ es') = offered_to c es @ offered_to c es'"
  by (induction c es rule: offered_to.induct) simp_all

definition keeps_up :: "hub \<Rightarrow> nat \<Rightarrow> bool" where
  "keeps_up h c \<longleftrightarrow> c \<in> hb_clients h \<and> ds_loop (hb_dash h c) Writer = Looping \<and> (\<forall>p cs. hb_phase h \<noteq> Dropping c p cs)"

definition fed :: "hub \<Rightarrow> hub_event list \<Rightarrow> bool" where
  "fed h es \<longleftrightarrow> (\<forall>c \<ge> hb_next h. offered_to c es = []) \<and>
     (\<forall>c. keeps_up h c \<longrightarrow> subseq (offered_to c es) (ds_frames (hb_dash h c) @ ds_queue (hb_dash h c)))"

lemma fed_same:
  assumes "fed h es" "hb_next h' = hb_next h" "\<And>c. keeps_up h' c \<Longrightarrow> keeps_up h c"
    and "\<And>c. keeps_up h' c \<Longrightarrow> subseq (ds_frames (hb_dash h c) @ ds_queue (hb_dash h c)) (ds_frames (hb_dash h' c) @ ds_queue (hb_dash h' c))"
  shows "fed h' es"
  using assms unfolding fed_def by (metis subseq_order.trans)

lemma shut_frames: "ds_frames (shut d) = ds_frames d" "ds_queue (shut d) = ds_queue d"
  by (simp_all add: shut_def)

lemma hub_step_fed: "hub_step h e h' \<Longrightarrow> hub_ok h \<Longrightarrow> fed h es \<Longrightarrow> fed h' (es @ [e])"
proof (induction rule: hub_step.induct)
  case (connect h)
  then show ?case by (auto simp: fed_def offered_to_append add_client_def keeps_up_def)
next
  case (greet h c h1 p)
  have h1: "hub_ok h1" unfolding greet(2)
    by (rule on_dash_ok [OF greet(3) active_allocated [OF greet(3)]])
      (use greet(1) hub_okD(2) [OF greet(3), of c] in \<open>simp_all add: idle_def dash_ok_def\<close>)
  have "fed (case p of None \<Rightarrow> h1 | Some p \<Rightarrow> fst (trySend c p h1)) es"
    by (rule fed_same [OF greet(4)])
      (auto simp: trySend_ok [OF h1 [unfolded greet(2)]] greet(2) keeps_up_def split: option.splits if_splits)
  then show ?case by (simp add: fed_def offered_to_append)
next
  case (offer h p c cs h1 ok)
  have c: "c < hb_next h" using hub_okD(7) [OF offer(3), of c] offer(1) by simp
  have more: "subseq (xs @ [p]) (ys @ zs @ [p])" if "subseq xs (ys @ zs)" for xs ys zs
    using list_emb_append_mono [OF that, of "[p]" "[p]"] by simp
  show ?case
    using c offer by (auto simp: fed_def offered_to_append trySend_ok keeps_up_def more split: if_splits)
next
  case (drop h c p cs h1 present)
  have "fed (h1\<lparr>hb_phase := if present then ClosingSlow c p cs else Sending p cs\<rparr>) es"
    by (rule fed_same [OF drop(4)]) (use drop(1,2) in \<open>auto simp: take_out_def keeps_up_def split: if_splits\<close>)
  then show ?case by (simp add: fed_def offered_to_append)
next
  case (close_slow h c p cs)
  have "fed ((close_dash c h)\<lparr>hb_phase := Sending p cs\<rparr>) es" unfolding close_dash_ok [OF close_slow(2)]
    by (rule fed_same [OF close_slow(3)]) (use close_slow(1) in \<open>auto simp: keeps_up_def shut_ok shut_frames split: if_splits\<close>)
  then show ?case by (simp add: fed_def offered_to_append)
next
  case (close_next h c cs)
  have "fed ((close_dash c h)\<lparr>hb_phase := ClosingAll cs\<rparr>) es" unfolding close_dash_ok [OF close_next(2)]
    by (rule fed_same [OF close_next(3)]) (use close_next(1) in \<open>auto simp: keeps_up_def shut_ok shut_frames split: if_splits\<close>)
  then show ?case by (simp add: fed_def offered_to_append)
next
  case (leave h c s h1 present)
  have "fed (on_dash c (set_loop s (if present then Closing else Ended)) h1) es"
    by (rule fed_same [OF leave(4)]) (use leave(1,2) in \<open>auto simp: take_out_def keeps_up_def split: if_splits\<close>)
  then show ?case by (simp add: fed_def offered_to_append)
next
  case (close_by h c s)
  have "fed (on_dash c (set_loop s Ended) (close_dash c h)) es" unfolding close_dash_ok [OF close_by(2)]
    by (rule fed_same [OF close_by(3)]) (use close_by(1) in \<open>auto simp: keeps_up_def shut_ok shut_frames split: if_splits\<close>)
  then show ?case by (simp add: fed_def offered_to_append)
next
  case (written h c p ps)
  have "fed (on_dash c (\<lambda>d. d\<lparr>ds_queue := ps, ds_frames := ds_frames d @ [p]\<rparr>) h) es"
    by (rule fed_same [OF written(5)]) (use written(2) in \<open>auto simp: keeps_up_def split: if_splits\<close>)
  then show ?case by (simp add: fed_def offered_to_append)
qed (auto simp: fed_def offered_to_append keeps_up_def split: if_splits option.splits)

text \<open>C25. In every interleaving of connections, broadcasts, slow and broken connections and the shutdown,
  no goroutine sends on a closed channel or closes one twice, and no dashboard has more than eight payloads
  waiting. A dashboard that is still registered, whose writer has met no error and which is not just being dropped for
  being too slow, has got every payload that was broadcast to it, in order, or has it waiting. A
  dashboard that is registered no more has its connection closed, or a goroutine is about to close it.\<close>

theorem hub_feeds_dashboards:
  assumes "run hub_step new_hub es h"
  shows "\<not> hb_panicked h \<and> (\<forall>c. length (ds_queue (hb_dash h c)) \<le> 8) \<and>
    (\<forall>c. keeps_up h c \<longrightarrow> subseq (offered_to c es) (ds_frames (hb_dash h c) @ ds_queue (hb_dash h c))) \<and>
    (\<forall>c < hb_next h. c \<notin> hb_clients h \<longrightarrow> ds_connClosed (hb_dash h c) \<or> closing h c)"
proof -
  have "hub_ok h \<and> fed h (es0 @ es)" if "run hub_step h0 es h" "hub_ok h0" "fed h0 es0" for h0 es0
    using that
  proof (induction arbitrary: es0 rule: run.induct)
    case (run_step s e s' es s'')
    then show ?case using hub_step_ok hub_step_fed by (metis append.assoc append_Cons append_Nil)
  qed simp
  moreover have "hub_ok new_hub" by (rule hub_okI) (simp_all add: new_hub_def new_dashboard_def dash_ok_def idle_def)
  moreover have "fed new_hub []" by (simp add: fed_def keeps_up_def new_hub_def)
  ultimately have ok: "hub_ok h" and fed: "fed h es" using assms by (metis append_Nil)+
  have "ds_connClosed (hb_dash h c) = ds_closed (hb_dash h c)" "length (ds_queue (hb_dash h c)) \<le> 8" for c
    using hub_okD(2) [OF ok, of c] by (simp_all add: dash_ok_def sendBuffer_def)
  with hub_okD(1,8) [OF ok] fed show ?thesis unfolding fed_def by blast
qed

text \<open>A dashboard connects, is greeted, gets one broadcast and leaves.\<close>

theorem hub_feeds_dashboards_witness:
  "\<exists>es h. run hub_step new_hub es h \<and> offered_to 0 es = [''{}''] \<and> \<not> hb_panicked h \<and> ds_connClosed (hb_dash h 0) \<and> hb_clients h = {}"
proof -
  define h1 where "h1 = add_client new_hub"
  define h2 where "h2 = on_dash 0 (\<lambda>d. d\<lparr>ds_greeted := True\<rparr>) h1"
  define h3 where "h3 = h2\<lparr>hb_phase := Encoding\<rparr>"
  define h4 where "h4 = h3\<lparr>hb_phase := Copying ''{}''\<rparr>"
  define h5 where "h5 = h4\<lparr>hb_phase := Sending ''{}'' [0]\<rparr>"
  define h6 where "h6 = (fst (trySend 0 ''{}'' h5))\<lparr>hb_phase := Sending ''{}'' []\<rparr>"
  define h7 where "h7 = on_dash 0 (set_loop Reader Removing) h6"
  define h8 where "h8 = on_dash 0 (set_loop Reader Closing) (fst (take_out 0 h7))"
  define h9 where "h9 = on_dash 0 (set_loop Reader Ended) (close_dash 0 h8)"
  note hs = h9_def h8_def h7_def h6_def h5_def h4_def h3_def h2_def h1_def
  note ds = new_hub_def add_client_def new_dashboard_def trySend_def take_out_def sendBuffer_def
  let ?es = "[Connected, Greeted 0 None, Ticked, Snapshot (Some ''{}''), Copied [0], Offered 0 ''{}'', ReadFailed 0, Left Reader 0, ClosedBy Reader 0]"
  have "hub_step new_hub Connected h1" unfolding h1_def by (rule connect)
  moreover have "hub_step h1 (Greeted 0 None) h2" using greet [of h1 0 h2 None] by (simp add: h2_def) (simp add: h1_def ds)
  moreover have "hub_step h2 Ticked h3" using tick [of h2] by (simp add: hs ds)
  moreover have "hub_step h3 (Snapshot (Some ''{}'')) h4" using snapshot [of h3 "Some ''{}''"] by (simp add: hs ds)
  moreover have "hub_step h4 (Copied [0]) h5" using copy [of h4 "''{}''" "[0]"] by (simp add: hs ds)
  moreover have "hub_step h5 (Offered 0 ''{}'') h6" using offer [of h5 "''{}''" 0 "[]" _ True] by (simp add: hs ds)
  moreover have "hub_step h6 (ReadFailed 0) h7" using read_fails [of h6 0] by (simp add: hs ds)
  moreover have "hub_step h7 (Left Reader 0) h8" using leave [of h7 0 Reader _ True] by (simp add: hs ds)
  moreover have "hub_step h8 (ClosedBy Reader 0) h9" using close_by [of h8 0 Reader] by (simp add: hs ds)
  ultimately have r: "run hub_step new_hub ?es h9" by (meson run_step run_refl)
  have "hb_clients h9 = {}" "hb_next h9 = 1" "ds_loop (hb_dash h9 0) = (\<lambda>s. if s = Reader then Ended else Looping)" "hb_phase h9 = Sending ''{}'' []"
    by (auto simp: hs ds close_dash_def Let_def set_loop_def)
  then have "\<not> closing h9 0" by (simp add: closing_def)
  with hub_feeds_dashboards [OF r] \<open>hb_clients h9 = {}\<close> \<open>hb_next h9 = 1\<close>
  have "\<not> hb_panicked h9 \<and> ds_connClosed (hb_dash h9 0)" by auto
  with r \<open>hb_clients h9 = {}\<close> show ?thesis by (intro exI [of _ ?es] exI [of _ h9]) simp
qed

end
