(* ===== verification/Backup.thy ===== *)
theory Backup
  imports Store_Base Domain_Certificate "HOL-Library.List_Lexorder" "HOL-Library.Char_ord" "HOL-Library.Product_Lexorder" "HOL-Library.Sublist"
begin

text \<open>
  Backups (\<^verbatim>\<open>backup/backup.go\<close>, \<^verbatim>\<open>backup/schedule.go\<close>): what an archive contains, unpacking one, and the rolling set of
  snapshots. A file system is a list of absolute paths, by their components, with what is there; tar and gzip
  are the list of entries that can be read, with the error that ends it. The umask, and links that
  \<^verbatim>\<open>os.Open\<close> would follow, are left out; encoding the manifest is a parameter. A directory has no mode, as restoring one does not use it.
\<close>

section \<open>Paths\<close>

text \<open>\<^verbatim>\<open>filepath.Clean\<close>, with its stack of components reversed.\<close>

definition clean_part :: "bool \<Rightarrow> string list \<Rightarrow> string \<Rightarrow> string list" where
  "clean_part rooted st p =
     (if p = [] \<or> p = ''.'' then st
      else if p = ''..''
        then (case st of
                [] \<Rightarrow> if rooted then [] else [''..'']
              | q # qs \<Rightarrow> if q = ''..'' then ''..'' # st else qs)
      else p # st)"

definition Clean :: "string \<Rightarrow> string" where
  "Clean s =
     (if s = [] then ''.''
      else let rooted = has_prefix s ''/'';
               ps = rev (foldl (clean_part rooted) [] (split s (CHR ''/'')))
           in if rooted then ''/'' @ join ps (CHR ''/'')
              else if ps = [] then ''.'' else join ps (CHR ''/''))"

definition Join :: "string \<Rightarrow> string \<Rightarrow> string" where
  "Join a b = Clean (a @ ''/'' @ b)"

type_synonym path = "string list"

definition parts :: "string \<Rightarrow> path" where
  "parts s = filter (\<lambda>p. p \<noteq> []) (split s (CHR ''/''))"

definition path_string :: "path \<Rightarrow> string" where
  "path_string p = ''/'' @ join p (CHR ''/'')"

fun drop_common :: "path \<Rightarrow> path \<Rightarrow> path \<times> path" where
  "drop_common (x # xs) (y # ys) = (if x = y then drop_common xs ys else (x # xs, y # ys))"
| "drop_common xs ys = (xs, ys)"

text \<open>\<^verbatim>\<open>filepath.Rel\<close> of two absolute and clean paths.\<close>

definition Rel :: "string \<Rightarrow> string \<Rightarrow> string" where
  "Rel base target =
     (case drop_common (parts base) (parts target) of
        (up, down) \<Rightarrow> let ps = map (\<lambda>_. ''..'') up @ down in if ps = [] then ''.'' else join ps (CHR ''/''))"

datatype backup_error =
    AbsolutePath string
  | EscapingPath string
  | TooLarge string
  | NotRegular string
  | OsFailure
  | ReadArchive string
  | BadManifest
  | NotGzip
  | WrongFormat string
  | NoDatabase
  | NoManifest
  | SnapshotFailed

definition safeJoin :: "string \<Rightarrow> string \<Rightarrow> backup_error + string" where
  "safeJoin dir name =
     (if name = [] \<or> has_prefix name ''/'' then Inl (AbsolutePath name)
      else let clean = Clean name
           in if clean = ''..'' \<or> has_prefix clean ''../'' then Inl (EscapingPath name)
              else let target = Join dir clean;
                       rel = Rel dir target
                   in if rel = ''..'' \<or> has_prefix rel ''../'' then Inl (EscapingPath name) else Inr target)"

section \<open>Files\<close>

datatype node = RegFile int string | DirNode | Special

type_synonym fs = "(path \<times> node) list"

text \<open>\<^verbatim>\<open>os.MkdirAll\<close> keeps the directories it made before it met a file.\<close>

fun mkdir_all :: "path \<Rightarrow> string list \<Rightarrow> fs \<Rightarrow> fs \<times> bool" where
  "mkdir_all q [] f = (f, True)"
| "mkdir_all q (c # cs) f =
     (case map_of f (q @ [c]) of
        None \<Rightarrow> mkdir_all (q @ [c]) cs ((q @ [c], DirNode) # f)
      | Some DirNode \<Rightarrow> mkdir_all (q @ [c]) cs f
      | Some _ \<Rightarrow> (f, False))"

definition is_dir :: "path \<Rightarrow> fs \<Rightarrow> bool" where
  "is_dir p f \<longleftrightarrow> p = [] \<or> map_of f p = Some DirNode"

definition create_excl :: "path \<Rightarrow> int \<Rightarrow> string \<Rightarrow> fs \<Rightarrow> fs option" where
  "create_excl p mode content f =
     (if p = [] \<or> map_of f p \<noteq> None \<or> \<not> is_dir (butlast p) f then None else Some ((p, RegFile mode content) # f))"

definition remove_all :: "path \<Rightarrow> fs \<Rightarrow> fs" where
  "remove_all d f = filter (\<lambda>(p, n). \<not> prefix d p) f"

definition rename_tree :: "path \<Rightarrow> path \<Rightarrow> fs \<Rightarrow> fs option" where
  "rename_tree old new f =
     (if map_of f old = None \<or> map_of f new \<noteq> None then None
      else Some (map (\<lambda>(p, n). (if prefix old p then new @ drop (length old) p else p, n)) f))"

section \<open>Archives\<close>

definition Format :: string where "Format = ''ponzproxy-backup/1''"
definition dbName :: string where "dbName = ''ponzproxy.db''"
definition maxEntry :: nat where "maxEntry = 4 * 2 ^ 30"

record manifest =
  mf_Format :: string
  mf_Version :: string
  mf_CreatedAt :: time
  mf_SchemaVersion :: int

definition no_manifest :: manifest where
  "no_manifest = \<lparr>mf_Format = [], mf_Version = [], mf_CreatedAt = zero_time, mf_SchemaVersion = 0\<rparr>"

datatype typeflag = TypeDir | TypeReg | TypeOther

record entry =
  en_Name :: string
  en_Type :: typeflag
  en_Mode :: int
  en_Body :: string

text \<open>The entries a reader returns, and the error it returns after them instead of the end of the archive.\<close>

type_synonym archive = "entry list \<times> string option"

definition dir_entry :: "string \<Rightarrow> entry" where
  "dir_entry name = \<lparr>en_Name = name @ ''/'', en_Type = TypeDir, en_Mode = 448, en_Body = []\<rparr>"

definition file_entry :: "string \<Rightarrow> int \<Rightarrow> string \<Rightarrow> entry" where
  "file_entry name mode body = \<lparr>en_Name = name, en_Type = TypeReg, en_Mode = mode, en_Body = body\<rparr>"

definition addFile :: "path \<Rightarrow> string \<Rightarrow> fs \<Rightarrow> backup_error + entry list" where
  "addFile p name f = (case map_of f p of Some (RegFile mode body) \<Rightarrow> Inr [file_entry name mode body] | _ \<Rightarrow> Inl OsFailure)"

text \<open>\<^verbatim>\<open>filepath.WalkDir\<close> visits a directory before what is in it, and each by the order of the names.\<close>

definition walk :: "path \<Rightarrow> fs \<Rightarrow> (path \<times> node) list" where
  "walk dir f = map (\<lambda>(p, n). (drop (length dir) p, n)) (sort_key fst (filter (\<lambda>(p, n). prefix dir p) f))"

definition tree_entry :: "string \<Rightarrow> path \<times> node \<Rightarrow> entry list" where
  "tree_entry pre v =
     (case v of
        (rel, DirNode) \<Rightarrow> [dir_entry (join (pre # rel) (CHR ''/''))]
      | (rel, RegFile mode body) \<Rightarrow> [file_entry (join (pre # rel) (CHR ''/'')) mode body]
      | (rel, Special) \<Rightarrow> [])"

definition addTree :: "path \<Rightarrow> string \<Rightarrow> fs \<Rightarrow> entry list" where
  "addTree dir pre f = concat (map (tree_entry pre) (walk dir f))"

text \<open>What the database and the clock supply, and how the manifest is encoded.\<close>

record backup_env =
  be_vacuum :: "string option"
  be_schema :: "int option"
  be_version :: string
  be_now :: time
  be_marshal :: "manifest \<Rightarrow> string"

definition manifest_of :: "backup_env \<Rightarrow> int \<Rightarrow> manifest" where
  "manifest_of env schema =
     \<lparr>mf_Format = Format, mf_Version = be_version env, mf_CreatedAt = be_now env, mf_SchemaVersion = schema\<rparr>"

definition Create :: "backup_env \<Rightarrow> path \<Rightarrow> fs \<Rightarrow> backup_error + entry list" where
  "Create env dataDir f =
     (case be_vacuum env of
        None \<Rightarrow> Inl SnapshotFailed
      | Some db \<Rightarrow>
          (case be_schema env of
             None \<Rightarrow> Inl SnapshotFailed
           | Some schema \<Rightarrow>
               let es = [file_entry ''manifest.json'' 384 (be_marshal env (manifest_of env schema)), file_entry dbName 420 db]
               in if map_of f (dataDir @ [''jwt.secret'']) = None
                  then Inr (es @ addTree (dataDir @ [''certs'']) ''certs'' f)
                  else (case addFile (dataDir @ [''jwt.secret'']) ''jwt.secret'' f of
                          Inl e \<Rightarrow> Inl e
                        | Inr secret \<Rightarrow> Inr (es @ secret @ addTree (dataDir @ [''certs'']) ''certs'' f))))"

section \<open>Unpacking\<close>

text \<open>One entry. The first argument decodes a manifest, the second tells on which entries the operating system
  fails, and how much of a file it has written by then.\<close>

definition extract_entry ::
  "(string \<Rightarrow> manifest option) \<Rightarrow> (string \<Rightarrow> nat option) \<Rightarrow> string \<Rightarrow> entry \<Rightarrow> manifest \<Rightarrow> fs \<Rightarrow> fs \<times> (backup_error + manifest)" where
  "extract_entry unmarshal fails dir h m f =
     (case safeJoin dir (en_Name h) of
        Inl e \<Rightarrow> (f, Inl e)
      | Inr target \<Rightarrow>
          if en_Type h = TypeOther then (f, Inl (NotRegular (en_Name h)))
          else if en_Type h = TypeDir then
            (if fails (en_Name h) \<noteq> None then (f, Inl OsFailure)
             else case mkdir_all [] (parts target) f of (f, ok) \<Rightarrow> (f, if ok then Inr m else Inl OsFailure))
          else if length (en_Body h) > maxEntry then (f, Inl (TooLarge (en_Name h)))
          else (case mkdir_all [] (butlast (parts target)) f of
                  (f, False) \<Rightarrow> (f, Inl OsFailure)
                | (f, True) \<Rightarrow>
                    let mode = (if en_Mode h mod 512 = 0 then 384 else en_Mode h mod 512);
                        body = (case fails (en_Name h) of None \<Rightarrow> en_Body h | Some n \<Rightarrow> take n (en_Body h))
                    in case create_excl (parts target) mode body f of
                         None \<Rightarrow> (f, Inl OsFailure)
                       | Some f \<Rightarrow>
                           if fails (en_Name h) \<noteq> None then (f, Inl OsFailure)
                           else if en_Name h = ''manifest.json''
                           then (f, case unmarshal (en_Body h) of None \<Rightarrow> Inl BadManifest | Some m \<Rightarrow> Inr m)
                           else (f, Inr m)))"

fun unpack ::
  "(string \<Rightarrow> manifest option) \<Rightarrow> (string \<Rightarrow> nat option) \<Rightarrow> string \<Rightarrow> archive \<Rightarrow> manifest \<Rightarrow> fs \<Rightarrow> fs \<times> (backup_error + manifest)" where
  "unpack unmarshal fails dir ([], None) m f = (f, Inr m)"
| "unpack unmarshal fails dir ([], Some e) m f = (f, Inl (ReadArchive e))"
| "unpack unmarshal fails dir (h # hs, end_error) m f =
     (case extract_entry unmarshal fails dir h m f of
        (f, Inl e) \<Rightarrow> (f, Inl e)
      | (f, Inr m) \<Rightarrow> unpack unmarshal fails dir (hs, end_error) m f)"

text \<open>What a restore gets from the system: the names of the temporary and of the previous directory, and which
  calls fail.\<close>

record restore_env =
  re_tmp :: string
  re_aside :: string
  re_mkdirFails :: bool
  re_fails :: "string \<Rightarrow> nat option"
  re_asideFails :: bool
  re_placeFails :: bool

text \<open>The staging directory is removed unless it was moved into place.\<close>

definition Restore ::
  "(string \<Rightarrow> manifest option) \<Rightarrow> restore_env \<Rightarrow> path \<Rightarrow> archive option \<Rightarrow> fs \<Rightarrow> fs \<times> path option \<times> backup_error option" where
  "Restore unmarshal env dataDir r f =
     (case r of
        None \<Rightarrow> (f, None, Some NotGzip)
      | Some a \<Rightarrow>
          if re_mkdirFails env \<or> \<not> is_dir (butlast dataDir) f then (f, None, Some OsFailure)
          else let staging = butlast dataDir @ [re_tmp env]
               in case unpack unmarshal (re_fails env) (path_string staging) a no_manifest ((staging, DirNode) # f) of
                    (f, Inl e) \<Rightarrow> (remove_all staging f, None, Some e)
                  | (f, Inr m) \<Rightarrow>
                      if mf_Format m \<noteq> Format then (remove_all staging f, None, Some (WrongFormat (mf_Format m)))
                      else if map_of f (staging @ [dbName]) = None then (remove_all staging f, None, Some NoDatabase)
                      else let aside = butlast dataDir @ [re_aside env];
                               moved = (if map_of f dataDir = None then Some (f, None)
                                        else if re_asideFails env then None
                                        else map_option (\<lambda>g. (g, Some aside)) (rename_tree dataDir aside f))
                           in case moved of
                                None \<Rightarrow> (remove_all staging f, None, Some OsFailure)
                              | Some (g, movedTo) \<Rightarrow>
                                  (case (if re_placeFails env then None else rename_tree staging dataDir g) of
                                     None \<Rightarrow> (remove_all staging g, movedTo, Some OsFailure)
                                   | Some g' \<Rightarrow> (g', movedTo, None)))"

fun describe_entries :: "(string \<Rightarrow> manifest option) \<Rightarrow> archive \<Rightarrow> backup_error + string \<times> string \<times> time" where
  "describe_entries unmarshal ([], None) = Inl NoManifest"
| "describe_entries unmarshal ([], Some e) = Inl (ReadArchive e)"
| "describe_entries unmarshal (h # hs, end_error) =
     (if en_Name h \<noteq> ''manifest.json'' then describe_entries unmarshal (hs, end_error)
      else case unmarshal (en_Body h) of
        None \<Rightarrow> Inl BadManifest
      | Some m \<Rightarrow> Inr (mf_Format m, mf_Version m, mf_CreatedAt m))"

definition Describe :: "(string \<Rightarrow> manifest option) \<Rightarrow> archive option \<Rightarrow> backup_error + string \<times> string \<times> time" where
  "Describe unmarshal r = (case r of None \<Rightarrow> Inl NotGzip | Some a \<Rightarrow> describe_entries unmarshal a)"

section \<open>Paths inside a directory\<close>

definition plain_part :: "string \<Rightarrow> bool" where
  "plain_part p \<longleftrightarrow> p \<noteq> [] \<and> p \<noteq> ''.'' \<and> p \<noteq> ''..'' \<and> CHR ''/'' \<notin> set p"

lemma split_no_sep: "c \<notin> set p \<Longrightarrow> split p c = [p]"
  by (induction p) auto

lemma split_append: "split (a @ c # b) c = split a c @ split b c"
  by (induction a) (auto split: list.splits)

lemma split_join: "ps \<noteq> [] \<Longrightarrow> \<forall>p \<in> set ps. c \<notin> set p \<Longrightarrow> split (join ps c) c = ps"
  by (induction ps c rule: join.induct) (auto simp: split_no_sep split_append)

lemma plain_sep: "list_all plain_part ps \<Longrightarrow> \<forall>p \<in> set ps. CHR ''/'' \<notin> set p"
  by (auto simp: list_all_iff plain_part_def)

lemma foldl_plain: "list_all plain_part ps \<Longrightarrow> foldl (clean_part r) st ps = rev ps @ st"
  by (induction ps arbitrary: st) (simp_all add: clean_part_def plain_part_def)

text \<open>Of a relative path, cleaning leaves steps upwards followed by plain components.\<close>

lemma clean_stack:
  assumes "\<forall>p \<in> set ps. CHR ''/'' \<notin> set p" "list_all plain_part gs"
  shows "\<exists>k gs'. foldl (clean_part False) (gs @ replicate n ''..'') ps = gs' @ replicate k ''..'' \<and> list_all plain_part gs'"
  using assms
proof (induction ps arbitrary: gs n)
  case (Cons p ps)
  have more: "\<exists>k gs'. foldl (clean_part False) (xs @ replicate m ''..'') ps = gs' @ replicate k ''..'' \<and> list_all plain_part gs'"
    if "list_all plain_part xs" for xs m using Cons.IH [of xs m] Cons.prems that by simp
  consider "p = [] \<or> p = ''.''" | "p = ''..''" | "plain_part p" using Cons.prems by (auto simp: plain_part_def)
  then show ?case
  proof cases
    case 1
    then have "clean_part False (gs @ replicate n ''..'') p = gs @ replicate n ''..''" by (auto simp: clean_part_def)
    then show ?thesis using more [OF Cons.prems(2), of n] by simp
  next
    case 2
    show ?thesis
    proof (cases gs)
      case Nil
      have "clean_part False (replicate n ''..'') p = replicate (Suc n) ''..''" using 2 by (cases n) (simp_all add: clean_part_def)
      then show ?thesis using more [of "[]" "Suc n"] Nil by simp
    next
      case (Cons g gs')
      then have "clean_part False (gs @ replicate n ''..'') p = gs' @ replicate n ''..''"
        using 2 Cons.prems(2) by (auto simp: clean_part_def plain_part_def)
      moreover have "list_all plain_part gs'" using Cons.prems(2) Cons by simp
      ultimately show ?thesis using more [of gs' n] by simp
    qed
  next
    case 3
    then have "clean_part False (gs @ replicate n ''..'') p = (p # gs) @ replicate n ''..''"
      by (simp add: clean_part_def plain_part_def)
    then show ?thesis using more [of "p # gs" n] Cons.prems(2) 3 by simp
  qed
qed auto

lemma Clean_relative:
  assumes "s \<noteq> []" "\<not> has_prefix s ''/''" "Clean s \<noteq> ''..''" "\<not> has_prefix (Clean s) ''../''"
  obtains ps where "list_all plain_part ps" "Clean s = (if ps = [] then ''.'' else join ps (CHR ''/''))"
proof -
  have "\<forall>p \<in> set (split s (CHR ''/'')). CHR ''/'' \<notin> set p" using split_parts by fast
  from clean_stack [OF this, of "[]" 0] obtain k gs
    where st: "foldl (clean_part False) [] (split s (CHR ''/'')) = gs @ replicate k ''..''" and gs: "list_all plain_part gs" by auto
  let ?ps = "replicate k ''..'' @ rev gs"
  have c: "Clean s = (if ?ps = [] then ''.'' else join ?ps (CHR ''/''))" using assms(1,2) st by (simp add: Clean_def Let_def)
  have "k = 0"
  proof (rule ccontr)
    assume "k \<noteq> 0"
    then obtain rest where r: "?ps = ''..'' # rest" by (cases k) auto
    show False
    proof (cases rest)
      case Nil
      then show False using assms(3) c r by simp
    next
      case (Cons x xs)
      then show False using assms(4) c r by (simp add: has_prefix_def)
    qed
  qed
  then show thesis using that [of "rev gs"] gs c by (simp add: list_all_rev)
qed

lemma split_path: "list_all plain_part ds \<Longrightarrow> split (path_string ds) (CHR ''/'') = [] # (if ds = [] then [[]] else ds)"
  using split_join [OF _ plain_sep] by (auto simp: path_string_def)

lemma parts_path: "list_all plain_part ds \<Longrightarrow> parts (path_string ds) = ds"
  by (simp add: parts_def split_path) (auto simp: list_all_iff plain_part_def filter_id_conv)

definition relative_string :: "path \<Rightarrow> string" where
  "relative_string ps = (if ps = [] then ''.'' else join ps (CHR ''/''))"

lemma Join_plain:
  assumes "list_all plain_part ds" "list_all plain_part ps"
  shows "Join (path_string ds) (relative_string ps) = path_string (ds @ ps)"
proof -
  have r: "split (relative_string ps) (CHR ''/'') = (if ps = [] then [''.''] else ps)"
    using split_join [OF _ plain_sep [OF assms(2)]] by (simp add: relative_string_def)
  have s: "split (path_string ds @ ''/'' @ relative_string ps) (CHR ''/'') = ([] # (if ds = [] then [[]] else ds)) @ (if ps = [] then [''.''] else ps)"
    using split_append [of "path_string ds"] by (simp add: split_path [OF assms(1)] r)
  have "foldl (clean_part True) [] (split (path_string ds @ ''/'' @ relative_string ps) (CHR ''/'')) = rev (ds @ ps)"
    unfolding s using foldl_plain [OF assms(1)] foldl_plain [OF assms(2)] by (auto simp: clean_part_def)
  then show ?thesis by (simp add: Join_def Clean_def Let_def) (simp add: path_string_def has_prefix_def)
qed

lemma drop_common_same: "drop_common ds (ds @ ps) = ([], ps)"
  by (induction ds) (cases ps, auto)

lemma plain_not_up: "list_all plain_part ps \<Longrightarrow> relative_string ps \<noteq> ''..'' \<and> \<not> has_prefix (relative_string ps) ''../''"
proof -
  assume ps: "list_all plain_part ps"
  have s: "split (relative_string ps) (CHR ''/'') = (if ps = [] then [''.''] else ps)"
    using split_join [OF _ plain_sep [OF ps]] by (simp add: relative_string_def)
  have "hd (split (relative_string ps) (CHR ''/'')) = ''..''" if "relative_string ps = ''..'' \<or> has_prefix (relative_string ps) ''../''"
    using that by (auto simp: has_prefix_iff)
  then show ?thesis unfolding s using ps by (cases ps) (auto simp: plain_part_def)
qed

lemma Rel_plain:
  "list_all plain_part ds \<Longrightarrow> list_all plain_part ps \<Longrightarrow> Rel (path_string ds) (path_string (ds @ ps)) = relative_string ps"
  by (simp add: Rel_def parts_path drop_common_same relative_string_def)

lemma safeJoin_inside:
  assumes "safeJoin (path_string ds) name = Inr target" "list_all plain_part ds"
  obtains ps where "list_all plain_part ps" "parts target = ds @ ps"
proof -
  have n: "name \<noteq> []" "\<not> has_prefix name ''/''" "Clean name \<noteq> ''..''" "\<not> has_prefix (Clean name) ''../''"
    and t: "target = Join (path_string ds) (Clean name)"
    using assms(1) by (auto simp: safeJoin_def Let_def split: if_splits)
  obtain ps where ps: "list_all plain_part ps" "Clean name = relative_string ps"
    using Clean_relative [OF n] by (auto simp: relative_string_def)
  then have "parts target = ds @ ps" using t Join_plain [OF assms(2) ps(1)] parts_path [of "ds @ ps"] assms(2) by simp
  then show thesis using that ps(1) by blast
qed

lemma safeJoin_plain:
  assumes "list_all plain_part ds" "list_all plain_part ps" "ps \<noteq> []" "tail = [] \<or> tail = ''/''"
  shows "safeJoin (path_string ds) (join ps (CHR ''/'') @ tail) = Inr (path_string (ds @ ps))"
proof -
  let ?s = "join ps (CHR ''/'')"
  have s: "split ?s (CHR ''/'') = ps" using split_join [OF assms(3) plain_sep [OF assms(2)]] .
  obtain p ps' where p: "ps = p # ps'" using assms(3) by (cases ps) auto
  obtain x xs where x: "p = x # xs" "x \<noteq> CHR ''/''" using assms(2) p by (cases p) (auto simp: plain_part_def)
  have "\<exists>ys. ?s = x # ys" unfolding p x(1) by (cases ps') simp_all
  then have "?s \<noteq> []" "\<not> has_prefix (?s @ tail) ''/''"
    using x(2) by (auto simp: has_prefix_iff)
  moreover have "split (?s @ tail) (CHR ''/'') = ps \<or> split (?s @ tail) (CHR ''/'') = ps @ [[]]"
    using assms(4) s split_append [of ?s "CHR ''/''" "[]"] by auto
  then have "foldl (clean_part False) [] (split (?s @ tail) (CHR ''/'')) = rev ps"
    using foldl_plain [OF assms(2), of False "[]"] by (auto simp: clean_part_def)
  ultimately have c: "Clean (?s @ tail) = relative_string ps" using assms(3) by (simp add: Clean_def Let_def relative_string_def)
  show ?thesis
    using \<open>?s \<noteq> []\<close> \<open>\<not> has_prefix (?s @ tail) ''/''\<close> plain_not_up [OF assms(2)]
    by (simp add: safeJoin_def c Let_def Join_plain [OF assms(1,2)] Rel_plain [OF assms(1,2)])
qed

section \<open>What unpacking touches\<close>

text \<open>Everything above a path is a directory.\<close>

definition dirs_to :: "path \<Rightarrow> fs \<Rightarrow> bool" where
  "dirs_to d f \<longleftrightarrow> (\<forall>q. prefix q d \<longrightarrow> q \<noteq> [] \<longrightarrow> map_of f q = Some DirNode)"

definition same_outside :: "path \<Rightarrow> fs \<Rightarrow> fs \<Rightarrow> bool" where
  "same_outside d f g \<longleftrightarrow> (\<forall>p. strict_prefix d p \<or> map_of g p = map_of f p)"

lemma same_outside_trans: "same_outside d f g \<Longrightarrow> same_outside d g h \<Longrightarrow> same_outside d f h"
  unfolding same_outside_def by metis

lemma same_outside_refl [simp]: "same_outside d f f"
  by (simp add: same_outside_def)

lemma same_dirs: "same_outside d f g \<Longrightarrow> dirs_to d f \<Longrightarrow> dirs_to d g"
  unfolding same_outside_def dirs_to_def by (metis prefix_order.dual_order.strict_iff_not)

lemma mkdir_all_inside: "mkdir_all q cs f = (g, ok) \<Longrightarrow> dirs_to d f \<Longrightarrow> prefix d (q @ cs) \<Longrightarrow> same_outside d f g"
proof (induction q cs f rule: mkdir_all.induct)
  case (2 q c cs f)
  let ?q = "q @ [c]"
  show ?case
  proof (cases "map_of f ?q")
    case None
    have "\<not> prefix ?q d" using 2(4) None by (auto simp: dirs_to_def)
    moreover have "prefix ?q (q @ c # cs)" by simp
    ultimately have d: "strict_prefix d ?q" using 2(5) by (metis prefix_same_cases strict_prefix_def)
    then have new: "same_outside d f ((?q, DirNode) # f)" by (auto simp: same_outside_def)
    have "same_outside d ((?q, DirNode) # f) g"
      using 2(1) [OF None _ same_dirs [OF new 2(4)]] 2(3,5) None by simp
    with new show ?thesis by (rule same_outside_trans)
  next
    case (Some n)
    then show ?thesis using 2 by (cases n) simp_all
  qed
qed simp

lemma mkdir_all_existing:
  "(\<And>r. prefix r cs \<Longrightarrow> r \<noteq> [] \<Longrightarrow> map_of f (q @ r) = Some DirNode) \<Longrightarrow> mkdir_all q cs f = (f, True)"
proof (induction cs arbitrary: q)
  case (Cons c cs)
  have "map_of f (q @ [c]) = Some DirNode" by (rule Cons.prems) simp_all
  moreover have "mkdir_all (q @ [c]) cs f = (f, True)"
  proof (rule Cons.IH)
    show "map_of f ((q @ [c]) @ r) = Some DirNode" if "prefix r cs" "r \<noteq> []" for r
      using Cons.prems [of "c # r"] that by simp
  qed
  ultimately show ?case by simp
qed simp

lemma create_excl_inside: "create_excl p mode content f = Some g \<Longrightarrow> strict_prefix d p \<Longrightarrow> same_outside d f g"
  by (auto simp: create_excl_def same_outside_def split: if_splits)

lemma unpack_entry_inside:
  assumes "list_all plain_part ds" "dirs_to ds f"
  shows "same_outside ds f (fst (extract_entry unmarshal fails (path_string ds) h m f))"
proof (cases "safeJoin (path_string ds) (en_Name h)")
  case (Inr target)
  obtain ps where p: "parts target = ds @ ps" using safeJoin_inside [OF Inr assms(1)] by blast
  obtain f1 ok1 where d: "mkdir_all [] (parts target) f = (f1, ok1)" by fastforce
  have d1: "same_outside ds f f1" by (rule mkdir_all_inside [OF d assms(2)]) (simp add: p)
  obtain f2 ok2 where mk: "mkdir_all [] (butlast (parts target)) f = (f2, ok2)" by fastforce
  have made: "same_outside ds f f2 \<and> (\<forall>mode body g. create_excl (parts target) mode body f2 = Some g \<longrightarrow> same_outside ds f2 g)"
  proof (cases "ps = []")
    case True
    have "mkdir_all [] (butlast ds) f = (f, True)"
      by (rule mkdir_all_existing) (use assms(2) prefix_order.order_trans [OF _ prefixeq_butlast] in \<open>auto simp: dirs_to_def\<close>)
    then show ?thesis using mk p assms(2) True by (cases "ds = []") (auto simp: create_excl_def dirs_to_def)
  next
    case False
    have "same_outside ds f f2" by (rule mkdir_all_inside [OF mk assms(2)]) (simp add: p False butlast_append)
    moreover have "strict_prefix ds (parts target)" using False by (simp add: p strict_prefix_def)
    ultimately show ?thesis using create_excl_inside by blast
  qed
  define body where "body = (case fails (en_Name h) of None \<Rightarrow> en_Body h | Some n \<Rightarrow> take n (en_Body h))"
  define mode where "mode = (if en_Mode h mod 512 = 0 then 384 else en_Mode h mod 512)"
  have created: "same_outside ds f g" if "create_excl (parts target) mode body f2 = Some g" for g
    using made that same_outside_trans by blast
  have "fst (extract_entry unmarshal fails (path_string ds) h m f) \<in> {f, f1, f2} \<or>
      create_excl (parts target) mode body f2 = Some (fst (extract_entry unmarshal fails (path_string ds) h m f))"
    unfolding extract_entry_def Inr d mk body_def [symmetric] mode_def [symmetric]
    using d mk by (cases ok2; cases "create_excl (parts target) mode body f2") (simp_all add: Let_def)
  then show ?thesis using d1 made created by auto
qed (simp add: extract_entry_def)

lemma unpack_inside:
  "list_all plain_part ds \<Longrightarrow> dirs_to ds f \<Longrightarrow> same_outside ds f (fst (unpack unmarshal fails (path_string ds) a m f))"
proof (induction unmarshal fails "path_string ds" a m f rule: unpack.induct)
  case (3 unmarshal fails h hs end_error m f)
  obtain f1 r where e: "extract_entry unmarshal fails (path_string ds) h m f = (f1, r)" by fastforce
  have i: "same_outside ds f f1" using unpack_entry_inside [OF 3(2,3), of unmarshal fails h m] e by simp
  show ?case
  proof (cases r)
    case (Inr m1)
    with 3(1) [OF e [symmetric] Inr 3(2) same_dirs [OF i 3(3)]] e i show ?thesis by (simp add: same_outside_trans)
  qed (simp add: e i)
qed simp_all

text \<open>A tree that is moved to a path with nothing at it or below it.\<close>

lemma map_of_moved:
  assumes "\<forall>p \<in> fst ` set f. \<not> prefix new p" "\<not> prefix old new" "\<not> prefix new old"
  shows "map_of (map (\<lambda>(p, n). (if prefix old p then new @ drop (length old) p else p, n)) f) p =
    (if prefix new p then map_of f (old @ drop (length new) p) else if prefix old p then None else map_of f p)"
  using assms(1)
proof (induction f)
  case (Cons x f)
  obtain q n where x: "x = (q, n)" by fastforce
  have q: "\<not> prefix new q" using Cons.prems x by simp
  have m: "p = new @ drop (length old) q \<longleftrightarrow> prefix new p \<and> q = old @ drop (length new) p" if "prefix old q"
    using that by (auto simp: prefix_def)
  have o: "q = old @ drop (length new) p \<Longrightarrow> prefix old q" by simp
  have "\<not> (prefix old p \<and> prefix new p)" using assms(2,3) by (meson prefix_same_cases)
  then show ?case using Cons x q m o by (auto simp: prefix_def)
qed simp

definition fs_ok :: "fs \<Rightarrow> bool" where
  "fs_ok f \<longleftrightarrow> (\<forall>p q. map_of f p \<noteq> None \<longrightarrow> strict_prefix q p \<longrightarrow> q \<noteq> [] \<longrightarrow> map_of f q = Some DirNode)"

lemma nothing_below: "fs_ok f \<Longrightarrow> map_of f d = None \<Longrightarrow> d \<noteq> [] \<Longrightarrow> prefix d p \<Longrightarrow> map_of f p = None"
  unfolding fs_ok_def by (metis option.distinct(1) prefix_order.le_less)

lemma staging_dirs:
  assumes "fs_ok f" "is_dir d f"
  shows "dirs_to (d @ [t]) ((d @ [t], DirNode) # f)"
proof (unfold dirs_to_def, intro allI impI)
  fix q
  assume q: "prefix q (d @ [t])" "q \<noteq> []"
  have "map_of f q = Some DirNode" if "prefix q d"
    using that q(2) assms by (cases "q = d") (auto simp: is_dir_def fs_ok_def strict_prefix_def)
  with q show "map_of ((d @ [t], DirNode) # f) q = Some DirNode" by auto
qed

lemma map_of_remove_all: "map_of (remove_all d f) p = (if prefix d p then None else map_of f p)"
  by (induction f) (auto simp: remove_all_def)

lemma rename_tree_map:
  assumes "rename_tree old new f = Some g" "\<And>p. prefix new p \<Longrightarrow> map_of f p = None" "\<not> prefix old new" "\<not> prefix new old"
  shows "map_of g p = (if prefix new p then map_of f (old @ drop (length new) p) else if prefix old p then None else map_of f p)"
proof -
  have "\<forall>p \<in> fst ` set f. \<not> prefix new p" using assms(2) by (force simp: map_of_eq_None_iff)
  from map_of_moved [OF this assms(3,4)] show ?thesis using assms(1) by (auto simp: rename_tree_def split: if_splits)
qed

lemma apart_below: "\<not> prefix x y \<Longrightarrow> \<not> prefix y x \<Longrightarrow> prefix y p \<Longrightarrow> \<not> prefix x p"
  by (meson prefix_same_cases)

text \<open>C24. A restore loses nothing and writes nowhere else. Whatever the archive holds, and wherever the restore
  fails, every file outside the data directory is as before, and the previous data directory is either
  still in place, unchanged, or at the path that is returned. Only a restore that fails at its very last step leaves
  the data directory moved aside.\<close>

theorem Restore_confined:
  assumes "dataDir \<noteq> []" "list_all plain_part (re_tmp env # re_aside env # dataDir)" "distinct [re_tmp env, re_aside env, last dataDir]"
    and "fs_ok f" "map_of f (butlast dataDir @ [re_tmp env]) = None"
    and "Restore unmarshal env dataDir r f = (f', movedTo, err)"
  shows "(\<forall>p. \<not> prefix dataDir p \<longrightarrow> (\<forall>a. movedTo = Some a \<longrightarrow> \<not> prefix a p) \<longrightarrow> map_of f' p = map_of f p) \<and>
    (\<forall>a. movedTo = Some a \<longrightarrow> a = butlast dataDir @ [re_aside env] \<and> (\<forall>q. map_of f' (a @ q) = map_of f (dataDir @ q))) \<and>
    (movedTo = None \<and> err \<noteq> None \<longrightarrow> (\<forall>p. map_of f' p = map_of f p)) \<and>
    (movedTo = None \<and> err = None \<longrightarrow> map_of f dataDir = None) \<and>
    (err = None \<longrightarrow> map_of f' (dataDir @ [dbName]) \<noteq> None)"
proof (cases "r = None \<or> re_mkdirFails env \<or> \<not> is_dir (butlast dataDir) f")
  case True
  then have "f' = f" "movedTo = None" "err \<noteq> None" using assms(6) by (auto simp: Restore_def split: option.splits)
  then show ?thesis by auto
next
  case False
  obtain P d where D: "dataDir = P @ [d]" using assms(1) by (cases dataDir rule: rev_cases) auto
  let ?P = "butlast dataDir"
  let ?S = "?P @ [re_tmp env]" and ?A = "?P @ [re_aside env]"
  obtain a where r: "r = Some a" using False by auto
  have apart: "\<not> prefix ?S dataDir" "\<not> prefix dataDir ?S" "\<not> prefix ?A dataDir" "\<not> prefix dataDir ?A" "\<not> prefix ?S ?A" "\<not> prefix ?A ?S"
    using assms(3) by (auto simp: D)
  have below: "map_of f p = None" if "map_of f (?P @ [x]) = None" "prefix (?P @ [x]) p" for p x
    using nothing_below [OF assms(4) that(1) _ that(2)] by simp
  have "dirs_to ?S ((?S, DirNode) # f)" by (rule staging_dirs [OF assms(4)]) (use False in simp)
  moreover have "list_all plain_part ?S" using assms(2) by (auto simp: list_all_iff dest: in_set_butlastD)
  ultimately have u: "same_outside ?S ((?S, DirNode) # f) (fst (unpack unmarshal (re_fails env) (path_string ?S) a no_manifest ((?S, DirNode) # f)))"
    by (intro unpack_inside)
  obtain f1 res where un: "unpack unmarshal (re_fails env) (path_string ?S) a no_manifest ((?S, DirNode) # f) = (f1, res)" by fastforce
  have f1: "map_of f1 p = map_of f p" if "\<not> prefix ?S p" for p
    using u that unfolding un same_outside_def fst_conv by (metis fun_upd_apply map_of_Cons_code(2) map_of.simps(2) fst_conv prefix_order.refl prefix_order.dual_order.strict_implies_order)
  have gone: "map_of (remove_all ?S f1) p = map_of f p" for p
    using f1 [of p] below [OF assms(5)] by (simp add: map_of_remove_all)
  show ?thesis
  proof (cases "\<exists>m. res = Inr m \<and> mf_Format m = Format \<and> map_of f1 (?S @ [dbName]) \<noteq> None")
    case False
    then have "\<exists>e. Restore unmarshal env dataDir r f = (remove_all ?S f1, None, Some e)"
      using \<open>\<not> (r = None \<or> _)\<close> r un by (cases res) (simp_all add: Restore_def Let_def)
    then have "f' = remove_all ?S f1" "movedTo = None" "err \<noteq> None" using assms(6) by auto
    then show ?thesis using gone by auto
  next
    case True
    then obtain m db where m: "res = Inr m" "mf_Format m = Format" "map_of f1 (?S @ [dbName]) = Some db" by blast
    define moved where "moved = (if map_of f1 dataDir = None then Some (f1, None) else if re_asideFails env then None
      else map_option (\<lambda>g. (g, Some ?A)) (rename_tree dataDir ?A f1))"
    have eq: "Restore unmarshal env dataDir r f = (case moved of
        None \<Rightarrow> (remove_all ?S f1, None, Some OsFailure)
      | Some (g, movedTo) \<Rightarrow>
          (case (if re_placeFails env then None else rename_tree ?S dataDir g) of
             None \<Rightarrow> (remove_all ?S g, movedTo, Some OsFailure)
           | Some g' \<Rightarrow> (g', movedTo, None)))"
      using \<open>\<not> (r = None \<or> _)\<close> r un m by (simp add: Restore_def Let_def moved_def)
    show ?thesis
    proof (cases moved)
      case None
      then have "f' = remove_all ?S f1" "movedTo = None" "err \<noteq> None" using assms(6) unfolding eq by auto
      then show ?thesis using gone by auto
    next
      case (Some gm)
      obtain g mt where gm: "gm = (g, mt)" by fastforce
      have mt: "mt = None \<and> g = f1 \<and> map_of f dataDir = None \<or> mt = Some ?A \<and> rename_tree dataDir ?A f1 = Some g"
        using Some gm f1 [OF apart(1)] by (auto simp: moved_def split: if_splits)
      have g: "map_of g p = (if mt \<noteq> None \<and> prefix ?A p then map_of f1 (dataDir @ drop (length ?A) p)
          else if prefix dataDir p then None else map_of f1 p)" for p
      proof (cases mt)
        case None
        have "map_of f1 p = None" if "prefix dataDir p"
        proof -
          have "\<not> prefix ?S p" using apart(1,2) that by (meson prefix_same_cases)
          moreover have "map_of f p = None" using below [of d p] that None mt by (simp add: D)
          ultimately show ?thesis using f1 by simp
        qed
        then show ?thesis using None mt by auto
      next
        case Some
        then have rn: "rename_tree dataDir ?A f1 = Some g" using mt by auto
        then have "map_of f ?A = None" using f1 [OF apart(5)] by (auto simp: rename_tree_def split: if_splits)
        then have "map_of f1 q = None" if "prefix ?A q" for q
          using below [OF _ that] f1 [of q] apart(5,6) that by (metis prefix_same_cases)
        from rename_tree_map [OF rn this apart(4,3)] Some show ?thesis by auto
      qed
      have prev: "map_of f1 (dataDir @ q) = map_of f (dataDir @ q)" for q
        by (rule f1) (use apart(1,2) in \<open>meson prefix_same_cases prefixI\<close>)
      show ?thesis
      proof (cases "if re_placeFails env then None else rename_tree ?S dataDir g")
        case None
        then have e: "f' = remove_all ?S g" "movedTo = mt" "err = Some OsFailure" using assms(6) unfolding eq Some gm by auto
        have f': "map_of f' p = (if prefix ?S p then None else map_of g p)" for p by (simp add: e map_of_remove_all)
        have "map_of f' p = map_of f p" if "\<not> prefix dataDir p" "mt = Some ?A \<Longrightarrow> \<not> prefix ?A p" for p
          using that f' [of p] g [of p] f1 [of p] below [OF assms(5), of p] mt by auto
        moreover have "map_of f' (?A @ q) = map_of f (dataDir @ q)" if "mt = Some ?A" for q
          using f' [of "?A @ q"] g [of "?A @ q"] prev [of q] that apart_below [OF apart(5,6), of "?A @ q"] by simp
        moreover have "map_of f' p = map_of f p" if "mt = None" "prefix dataDir p" for p
          using f' [of p] g [of p] that mt below [of d p] apart_below [OF apart(1,2), of p] by (simp add: D)
        ultimately show ?thesis using e mt by (intro conjI allI impI) auto
      next
        case (Some g')
        then have e: "f' = g'" "movedTo = mt" "err = None" and rn: "rename_tree ?S dataDir g = Some g'"
          using assms(6) unfolding eq \<open>moved = Some gm\<close> gm by (auto split: if_splits)
        have g': "map_of g' p = (if prefix dataDir p then map_of g (?S @ drop (length dataDir) p) else if prefix ?S p then None else map_of g p)" for p
          by (rule rename_tree_map [OF rn _ apart(1,2)]) (use g apart(3,4) in \<open>meson prefix_same_cases\<close>)
        have "map_of f' p = map_of f p" if "\<not> prefix dataDir p" "mt = Some ?A \<Longrightarrow> \<not> prefix ?A p" for p
          using that e(1) g' [of p] g [of p] f1 [of p] below [OF assms(5), of p] mt by auto
        moreover have "map_of f' (?A @ q) = map_of f (dataDir @ q)" if "mt = Some ?A" for q
          using e(1) g' [of "?A @ q"] g [of "?A @ q"] prev [of q] that apart_below [OF apart(5,6), of "?A @ q"] apart_below [OF apart(4,3), of "?A @ q"]
          by simp
        moreover have "map_of f' (dataDir @ [dbName]) \<noteq> None"
          using e(1) g' [of "dataDir @ [dbName]"] g [of "?S @ [dbName]"] m(3) apart_below [OF apart(2,1), of "?S @ [dbName]"]
            apart_below [OF apart(6,5), of "?S @ [dbName]"] by simp
        ultimately show ?thesis using e mt by (intro conjI allI impI) auto
      qed
    qed
  qed
qed

section \<open>An example\<close>

definition ex_data :: fs where
  "ex_data =
     [([''srv''], DirNode), ([''srv'', ''ponz''], DirNode), ([''srv'', ''ponz'', ''jwt.secret''], RegFile 384 ''k''),
      ([''srv'', ''ponz'', ''certs''], DirNode), ([''srv'', ''ponz'', ''certs'', ''acme''], DirNode),
      ([''srv'', ''ponz'', ''certs'', ''acme'', ''key''], RegFile 384 ''pem'')]"

lemma fs_okI:
  "list_all (\<lambda>p. list_all (\<lambda>q. q = p \<or> q = [] \<or> map_of f q = Some DirNode) (prefixes p)) (map fst f) \<Longrightarrow> fs_ok f"
proof (unfold fs_ok_def, intro allI impI)
  fix p q
  assume a: "list_all (\<lambda>p. list_all (\<lambda>q. q = p \<or> q = [] \<or> map_of f q = Some DirNode) (prefixes p)) (map fst f)"
    and p: "map_of f p \<noteq> None" and q: "strict_prefix q p" "q \<noteq> []"
  have "p \<in> set (map fst f)" using p by (auto simp: map_of_eq_None_iff)
  with a have "list_all (\<lambda>q. q = p \<or> q = [] \<or> map_of f q = Some DirNode) (prefixes p)" unfolding list_all_iff [of _ "map fst f"] by blast
  moreover have "q \<in> set (prefixes p)" using q(1) by (simp add: strict_prefix_def)
  ultimately show "map_of f q = Some DirNode" using q by (auto simp: list_all_iff strict_prefix_def)
qed

lemma ex_data_ok: "fs_ok ex_data"
  by (rule fs_okI) code_simp

definition ex_restore :: restore_env where
  "ex_restore = \<lparr>re_tmp = ''tmp'', re_aside = ''old'', re_mkdirFails = False, re_fails = (\<lambda>_. None), re_asideFails = False, re_placeFails = False\<rparr>"

text \<open>An archive with an entry that leaves the directory it is unpacked into.\<close>

theorem Restore_confined_witness:
  "\<forall>p. map_of (fst (Restore (\<lambda>_. None) ex_restore [''srv'', ''ponz'']
      (Some ([file_entry ''certs/x'' 384 ''x'', file_entry ''../ponz/jwt.secret'' 384 ''forged''], None)) ex_data)) p = map_of ex_data p"
proof -
  let ?r = "Restore (\<lambda>_. None) ex_restore [''srv'', ''ponz'']
      (Some ([file_entry ''certs/x'' 384 ''x'', file_entry ''../ponz/jwt.secret'' 384 ''forged''], None)) ex_data"
  have j: "safeJoin (path_string [''srv'', ''tmp'']) ''certs/x'' = Inr ''/srv/tmp/certs/x''"
    "safeJoin (path_string [''srv'', ''tmp'']) ''../ponz/jwt.secret'' = Inl (EscapingPath ''../ponz/jwt.secret'')"
    "parts ''/srv/tmp/certs/x'' = [''srv'', ''tmp'', ''certs'', ''x'']" by code_simp+
  have r: "snd ?r = (None, Some (EscapingPath ''../ponz/jwt.secret''))"
    by (simp add: Restore_def ex_restore_def ex_data_def is_dir_def extract_entry_def file_entry_def j maxEntry_def create_excl_def Let_def)
  have e: "?r = (fst ?r, None, Some (EscapingPath ''../ponz/jwt.secret''))" using r by (metis prod.collapse)
  have p: "list_all plain_part (re_tmp ex_restore # re_aside ex_restore # [''srv'', ''ponz''])"
    "distinct [re_tmp ex_restore, re_aside ex_restore, last [''srv'', ''ponz'']]"
    "map_of ex_data (butlast [''srv'', ''ponz''] @ [re_tmp ex_restore]) = None"
    by (simp_all add: ex_restore_def ex_data_def plain_part_def)
  from conjunct1 [OF conjunct2 [OF conjunct2 [OF Restore_confined [OF list.distinct(2) p(1,2) ex_data_ok p(3) e]]]]
  show ?thesis by (simp only: simp_thms option.distinct not_False_eq_True)
qed

end
