(* ===== verification/Backup_Roundtrip.thy ===== *)
theory Backup_Roundtrip
  imports Backup
begin

text \<open>A data directory that is backed up and restored (\<^verbatim>\<open>backup/backup.go\<close>) holds what it held.\<close>

section \<open>What a restored backup holds\<close>

text \<open>The files of a backup, by their paths in the data directory.\<close>

definition entry_of :: "path \<times> node \<Rightarrow> entry" where
  "entry_of x =
     (case snd x of
        RegFile mode body \<Rightarrow> file_entry (join (fst x) (CHR ''/'')) mode body
      | _ \<Rightarrow> dir_entry (join (fst x) (CHR ''/'')))"

fun restored :: "node \<Rightarrow> node" where
  "restored (RegFile mode body) = RegFile (if mode mod 512 = 0 then 384 else mode mod 512) body"
| "restored n = n"

fun storable_node :: "node \<Rightarrow> bool" where
  "storable_node (RegFile mode body) \<longleftrightarrow> length body \<le> maxEntry"
| "storable_node DirNode \<longleftrightarrow> True"
| "storable_node Special \<longleftrightarrow> False"

definition tree_ok :: "(path \<times> node) list \<Rightarrow> bool" where
  "tree_ok xs \<longleftrightarrow> distinct (map fst xs) \<and> (\<forall>x \<in> set xs. fst x \<noteq> [] \<and> list_all plain_part (fst x) \<and> storable_node (snd x)) \<and>
     sorted_wrt (\<lambda>a b. \<not> strict_prefix (fst b) (fst a)) xs \<and>
     (\<forall>x \<in> set xs. 1 < length (fst x) \<longrightarrow> (butlast (fst x), DirNode) \<in> set xs)"

text \<open>Parents come before what is in them.\<close>

lemma tree_ok_before:
  assumes "tree_ok (pre @ x # post)" "prefix r (fst x)" "r \<noteq> []" "r \<noteq> fst x"
  shows "map_of pre r = Some DirNode"
proof -
  have parent: "(butlast (fst y), DirNode) \<in> set pre1" if "pre @ x # post = pre1 @ y # post1" "1 < length (fst y)" for pre1 y post1
  proof -
    have "tree_ok (pre1 @ y # post1)" using assms(1) that(1) by simp
    then have m: "(butlast (fst y), DirNode) \<in> set (pre1 @ y # post1)" and o: "\<forall>z \<in> set post1. \<not> strict_prefix (fst z) (fst y)"
      using that(2) by (auto simp: tree_ok_def sorted_wrt_append)
    have sp: "strict_prefix (butlast (fst y)) (fst y)" using that(2) by (cases "fst y" rule: rev_cases) (auto simp: strict_prefix_def)
    then have "(butlast (fst y), DirNode) \<notin> set post1" using o by force
    moreover have "(butlast (fst y), DirNode) \<noteq> y" using sp by (metis fst_conv prefix_order.less_irrefl)
    ultimately show ?thesis using m by auto
  qed
  have "(r, DirNode) \<in> set pre1" if "pre @ x # post = pre1 @ y # post1" "strict_prefix r (fst y)" for pre1 y post1
    using that
  proof (induction "length pre1" arbitrary: pre1 y post1 rule: less_induct)
    case less
    obtain zs z where z: "fst y = zs @ [z]" "prefix r zs" using less.prems(2) by (cases "fst y" rule: rev_cases) (auto simp: strict_prefix_def)
    have "1 < length (fst y)" using z assms(3) by (cases zs) auto
    then have m: "(zs, DirNode) \<in> set pre1" using parent [OF less.prems(1)] z(1) by simp
    show ?case
    proof (cases "r = zs")
      case False
      obtain pre2 post2 where p: "pre1 = pre2 @ (zs, DirNode) # post2" using split_list [OF m] by blast
      have "(r, DirNode) \<in> set pre2" by (rule less.hyps [of pre2 "(zs, DirNode)" "post2 @ y # post1"]) (use p less.prems(1) z(2) False in \<open>auto simp: strict_prefix_def\<close>)
      then show ?thesis using p by simp
    qed (simp add: m)
  qed
  from this [OF refl] have "(r, DirNode) \<in> set pre" using assms(2,4) by (simp add: strict_prefix_def)
  then show ?thesis using assms(1) by (simp add: tree_ok_def)
qed

definition layer :: "path \<Rightarrow> (path \<times> node) list \<Rightarrow> fs \<Rightarrow> fs" where
  "layer ds xs f = rev (map (\<lambda>(ps, n). (ds @ ps, restored n)) xs) @ f"

lemma layer_simps [simp]: "layer ds [] f = f" "layer ds (xs @ [(ps, n)]) f = (ds @ ps, restored n) # layer ds xs f"
  by (simp_all add: layer_def)

lemma layer_inside:
  assumes "distinct (map fst xs)" "\<And>p. strict_prefix ds p \<Longrightarrow> map_of f p = None" "q \<noteq> []"
  shows "map_of (layer ds xs f) (ds @ q) = map_option restored (map_of xs q)"
  using assms(1)
proof (induction xs rule: rev_induct)
  case Nil
  then show ?case using assms(2) [of "ds @ q"] assms(3) by (simp add: strict_prefix_def)
next
  case (snoc x xs)
  obtain ps n where x: "x = (ps, n)" by fastforce
  have "ps \<notin> fst ` set xs" using snoc.prems x by simp
  then have "map_of xs ps = None" by (simp add: map_of_eq_None_iff)
  with snoc x show ?case by (auto simp: map_add_def split: option.split)
qed

lemma layer_outside: "\<not> prefix ds p \<Longrightarrow> map_of (layer ds xs f) p = map_of f p"
  by (induction xs rule: rev_induct) auto

lemma layer_self: "\<forall>x \<in> set xs. fst x \<noteq> [] \<Longrightarrow> map_of (layer ds xs f) ds = map_of f ds"
  by (induction xs rule: rev_induct) auto

lemma mkdir_all_append:
  "mkdir_all q (cs @ cs') f = (case mkdir_all q cs f of (g, ok) \<Rightarrow> if ok then mkdir_all (q @ cs) cs' g else (g, False))"
  by (induction q cs f rule: mkdir_all.induct) (auto split: option.split node.split prod.split)

lemma extract_item:
  assumes "tree_ok (xs @ x # rest)" "list_all plain_part ds" "ds \<noteq> []" "dirs_to ds f" "\<And>p. strict_prefix ds p \<Longrightarrow> map_of f p = None"
  shows "extract_entry unmarshal (\<lambda>_. None) (path_string ds) (entry_of x) m (layer ds xs f) =
    (layer ds (xs @ [x]) f,
     if en_Name (entry_of x) = ''manifest.json''
     then (case unmarshal (en_Body (entry_of x)) of None \<Rightarrow> Inl BadManifest | Some m \<Rightarrow> Inr m)
     else Inr m)"
proof -
  obtain ps n where x: "x = (ps, n)" by fastforce
  have ps: "ps \<noteq> []" "list_all plain_part ps" "storable_node n" and d: "distinct (map fst xs)" "map_of xs ps = None"
    and ne: "\<forall>x \<in> set xs. fst x \<noteq> []"
    using assms(1) x by (auto simp: tree_ok_def map_of_eq_None_iff)
  have up: "map_of (layer ds xs f) r = Some DirNode" if "prefix r (ds @ ps)" "r \<noteq> []" "r \<noteq> ds @ ps" for r
  proof (cases "prefix r ds")
    case True
    show ?thesis
    proof (cases "r = ds")
      case True
      then show ?thesis using layer_self [OF ne] assms(3,4) by (simp add: dirs_to_def)
    next
      case False
      then have "\<not> prefix ds r" using True by (meson prefix_order.antisym)
      then show ?thesis using layer_outside assms(4) True that(2) by (simp add: dirs_to_def)
    qed
  next
    case False
    note r = that(1)
    obtain q where q: "r = ds @ q" "prefix q ps" "q \<noteq> []" using r False unfolding prefix_append by (metis append_Nil2 prefix_order.refl)
    have "map_of xs q = Some DirNode" by (rule tree_ok_before [OF assms(1)]) (use x q that(3) in auto)
    then show ?thesis using layer_inside [OF d(1) assms(5) q(3)] q(1) by simp
  qed
  have none: "map_of (layer ds xs f) (ds @ ps) = None" using layer_inside [OF d(1) assms(5) ps(1)] d(2) by simp
  obtain qs c where c: "ds @ ps = qs @ [c]" using ps(1) by (metis append_is_Nil_conv rev_exhaust)
  have parents: "mkdir_all [] qs (layer ds xs f) = (layer ds xs f, True)"
    by (rule mkdir_all_existing) (use up c in \<open>auto simp: prefix_def\<close>)
  have t: "parts (path_string (ds @ ps)) = ds @ ps" by (rule parts_path) (simp add: assms(2) ps(2))
  show ?thesis
  proof (cases n)
    case (RegFile mode body)
    have "safeJoin (path_string ds) (join ps (CHR ''/'')) = Inr (path_string (ds @ ps))"
      using safeJoin_plain [OF assms(2) ps(2,1), of "[]"] by simp
    moreover have "is_dir qs (layer ds xs f)" using up [of qs] c by (auto simp: is_dir_def)
    then have "create_excl (ds @ ps) mode' body (layer ds xs f) = Some ((ds @ ps, RegFile mode' body) # layer ds xs f)" for mode'
      using none ps(1) c by (auto simp: create_excl_def)
    ultimately show ?thesis
      using RegFile ps(3) parents c by (simp add: x extract_entry_def entry_of_def file_entry_def t [unfolded c] not_less Let_def)
  next
    case DirNode
    have s: "safeJoin (path_string ds) (join ps (CHR ''/'') @ ''/'') = Inr (path_string (ds @ ps))"
      using safeJoin_plain [OF assms(2) ps(2,1), of "''/''"] by simp
    have "mkdir_all [] (ds @ ps) (layer ds xs f) = ((ds @ ps, DirNode) # layer ds xs f, True)"
      using none unfolding c by (simp add: mkdir_all_append parents)
    moreover have "join ps (CHR ''/'') @ ''/'' \<noteq> ''manifest.json''" by (rule notI, drule arg_cong [where f = last]) simp
    ultimately show ?thesis using DirNode s by (simp add: x extract_entry_def entry_of_def dir_entry_def t)
  next
    case Special
    then show ?thesis using ps(3) by simp
  qed
qed

lemma unpack_items:
  assumes "list_all plain_part ds" "ds \<noteq> []" "dirs_to ds f" "\<And>p. strict_prefix ds p \<Longrightarrow> map_of f p = None"
  shows "tree_ok (xs @ rest) \<Longrightarrow> \<forall>x \<in> set rest. en_Name (entry_of x) \<noteq> ''manifest.json'' \<Longrightarrow>
    unpack unmarshal (\<lambda>_. None) (path_string ds) (map entry_of rest, None) m (layer ds xs f) = (layer ds (xs @ rest) f, Inr m)"
proof (induction rest arbitrary: xs)
  case (Cons x rest)
  from Cons.IH [of "xs @ [x]"] Cons.prems show ?case by (simp add: extract_item [OF Cons.prems(1) assms])
qed simp

text \<open>The files a backup is made of.\<close>

definition tree_items :: "path \<Rightarrow> string \<Rightarrow> fs \<Rightarrow> (path \<times> node) list" where
  "tree_items dir pre f = filter (\<lambda>x. snd x \<noteq> Special) (map (\<lambda>(rel, n). (pre # rel, n)) (walk dir f))"

lemma addTree_items: "addTree dir pre f = map entry_of (tree_items dir pre f)"
proof -
  have "concat (map (tree_entry pre) ws) = map entry_of (filter (\<lambda>x. snd x \<noteq> Special) (map (\<lambda>(rel, n). (pre # rel, n)) ws))" for ws
    by (induction ws) (auto simp: tree_entry_def entry_of_def split: node.splits)
  then show ?thesis by (simp add: addTree_def tree_items_def)
qed

lemma tree_items_iff: "(ps, n) \<in> set (tree_items dir pre f) \<longleftrightarrow> n \<noteq> Special \<and> (\<exists>rel. ps = pre # rel \<and> (dir @ rel, n) \<in> set f)"
  by (force simp: tree_items_def walk_def prefix_def)

lemma strict_prefix_less: "strict_prefix a b \<Longrightarrow> a < (b :: string list)"
proof -
  assume "strict_prefix a b"
  then obtain c cs where "b = a @ c # cs" by (auto elim: strict_prefixE')
  then show ?thesis by (auto simp: list_less_def intro!: lexord_append_rightI)
qed

lemma walk_sorted:
  assumes "distinct (map fst f)"
  shows "sorted_wrt (\<lambda>a b. \<not> strict_prefix (fst b) (fst a)) (walk dir f)" "distinct (map fst (walk dir f))"
proof -
  let ?fs = "filter (\<lambda>(p, n). prefix dir p) f"
  have "distinct (map fst ?fs)" using assms by (simp add: distinct_map_filter)
  then have d: "distinct (map fst (sort_key fst ?fs))" by (simp add: distinct_map) 
  have "sorted_wrt (\<le>) (map fst (sort_key fst ?fs))" by simp
  then have o: "sorted_wrt (\<lambda>a b. fst a \<le> fst b) (sort_key fst ?fs)" by (simp add: sorted_wrt_map)
  have p: "prefix dir (fst a)" if "a \<in> set (sort_key fst ?fs)" for a using that by auto
  have "sorted_wrt (\<lambda>a b. \<not> strict_prefix (drop (length dir) (fst b)) (drop (length dir) (fst a))) (sort_key fst ?fs)"
  proof (rule sorted_wrt_mono_rel [OF _ o])
    fix a b assume ab: "a \<in> set (sort_key fst ?fs)" "b \<in> set (sort_key fst ?fs)" "fst a \<le> fst b"
    have "strict_prefix (fst b) (fst a)" if "strict_prefix (drop (length dir) (fst b)) (drop (length dir) (fst a))"
      using that p [OF ab(1)] p [OF ab(2)] by (auto simp: prefix_def strict_prefix_def)
    then show "\<not> strict_prefix (drop (length dir) (fst b)) (drop (length dir) (fst a))"
      using strict_prefix_less ab(3) by (meson not_le)
  qed
  then show "sorted_wrt (\<lambda>a b. \<not> strict_prefix (fst b) (fst a)) (walk dir f)"
    by (simp add: walk_def sorted_wrt_map split_def)
  have "inj_on (drop (length dir)) (fst ` set (sort_key fst ?fs))" by (auto simp: inj_on_def prefix_def)
  with d have "distinct (map (drop (length dir)) (map fst (sort_key fst ?fs)))" by (simp only: distinct_map [of "drop (length dir)"] set_map)
  then show "distinct (map fst (walk dir f))" by (simp add: walk_def split_def comp_def)
qed

lemma tree_items_ok:
  assumes "distinct (map fst f)" "fs_ok f" "plain_part pre" "dir \<noteq> []" "map_of f dir = None \<or> map_of f dir = Some DirNode"
    and "\<And>p n. (p, n) \<in> set f \<Longrightarrow> list_all plain_part p \<and> (n = Special \<or> storable_node n)"
  shows "tree_ok (tree_items dir pre f)"
proof -
  have mem: "map_of f p = Some n \<longleftrightarrow> (p, n) \<in> set f" for p n using assms(1) by simp
  let ?ws = "map (\<lambda>(rel, n). (pre # rel, n)) (walk dir f)"
  have "inj_on (Cons pre) X" for X by (simp add: inj_on_def)
  then have "distinct (map (Cons pre) (map fst (walk dir f)))"
    using walk_sorted(2) [OF assms(1)] by (simp only: distinct_map [of "Cons pre"])
  then have "distinct (map fst ?ws)" by (simp add: split_def comp_def)
  then have "distinct (map fst (tree_items dir pre f))" unfolding tree_items_def by (rule distinct_map_filter)
  moreover have "sorted_wrt (\<lambda>a b. \<not> strict_prefix (fst b) (fst a)) (tree_items dir pre f)"
    unfolding tree_items_def using walk_sorted(1) [OF assms(1)]
    by (intro sorted_wrt_filter) (simp add: sorted_wrt_map split_def)
  moreover have "fst x \<noteq> [] \<and> list_all plain_part (fst x) \<and> storable_node (snd x)" if "x \<in> set (tree_items dir pre f)" for x
  proof -
    note x = that
    obtain rel where "fst x = pre # rel" "(dir @ rel, snd x) \<in> set f" "snd x \<noteq> Special"
      using x tree_items_iff [of "fst x" "snd x" dir pre f] by auto
    then show ?thesis using assms(3) assms(6) [of "dir @ rel" "snd x"] by auto
  qed
  moreover have "(butlast (fst x), DirNode) \<in> set (tree_items dir pre f)"
    if x: "x \<in> set (tree_items dir pre f)" "1 < length (fst x)" for x
  proof -
    obtain rel where r: "fst x = pre # rel" "(dir @ rel, snd x) \<in> set f" using x(1) tree_items_iff [of "fst x" "snd x" dir pre f] by auto
    then have "rel \<noteq> []" using x(2) by auto
    then have "strict_prefix (dir @ butlast rel) (dir @ rel)" by (cases rel rule: rev_cases) (auto simp: strict_prefix_def)
    then have "map_of f (dir @ butlast rel) = Some DirNode"
      using assms(2,4) r(2) mem [of "dir @ rel" "snd x"] unfolding fs_ok_def by blast
    then show ?thesis using r(1) \<open>rel \<noteq> []\<close> mem by (auto simp: tree_items_iff)
  qed
  ultimately show ?thesis unfolding tree_ok_def by blast
qed

lemma tree_items_map:
  assumes "distinct (map fst f)"
  shows "map_of (tree_items dir pre f) (pre # rel) = (case map_of f (dir @ rel) of Some Special \<Rightarrow> None | n \<Rightarrow> n)"
proof -
  have "inj_on (Cons pre) X" for X by (simp add: inj_on_def)
  then have "distinct (map (Cons pre) (map fst (walk dir f)))"
    using walk_sorted(2) [OF assms] by (simp only: distinct_map [of "Cons pre"])
  then have "distinct (map fst (map (\<lambda>(rel, n). (pre # rel, n)) (walk dir f)))" by (simp add: split_def comp_def)
  then have d: "distinct (map fst (tree_items dir pre f))" unfolding tree_items_def by (rule distinct_map_filter)
  have m: "map_of (tree_items dir pre f) (pre # rel) = Some n \<longleftrightarrow> n \<noteq> Special \<and> map_of f (dir @ rel) = Some n" for n
    using d assms by (simp add: tree_items_iff)
  show ?thesis
  proof (cases "map_of (tree_items dir pre f) (pre # rel)")
    case None
    then have "map_of f (dir @ rel) \<noteq> Some n" if "n \<noteq> Special" for n using m [of n] that by simp
    then have "map_of f (dir @ rel) = None \<or> map_of f (dir @ rel) = Some Special" by (metis not_Some_eq)
    with None show ?thesis by auto
  next
    case (Some n)
    then show ?thesis using m [of n] by (cases n) simp_all
  qed
qed

lemma plain_names: "plain_part ''manifest.json''" "plain_part dbName" "plain_part ''jwt.secret''" "plain_part ''certs''"
  by (simp_all add: plain_part_def dbName_def)

definition top_items :: "string \<Rightarrow> string \<Rightarrow> node option \<Rightarrow> (path \<times> node) list" where
  "top_items manifest db secret =
     [([''manifest.json''], RegFile 384 manifest), ([dbName], RegFile 420 db)] @
     (case secret of None \<Rightarrow> [] | Some n \<Rightarrow> [([''jwt.secret''], n)])"

lemma Create_items:
  assumes "Create env dataDir f = Inr es"
  obtains db schema where "be_vacuum env = Some db" "be_schema env = Some schema"
    "es = map entry_of (top_items (be_marshal env (manifest_of env schema)) db (map_of f (dataDir @ [''jwt.secret''])) @
      tree_items (dataDir @ [''certs'']) ''certs'' f)"
    "\<forall>n. map_of f (dataDir @ [''jwt.secret'']) = Some n \<longrightarrow> n \<noteq> DirNode \<and> n \<noteq> Special"
proof -
  obtain db schema where b: "be_vacuum env = Some db" "be_schema env = Some schema" using assms by (auto simp: Create_def split: option.splits)
  show thesis
  proof (cases "map_of f (dataDir @ [''jwt.secret''])")
    case None
    then show thesis using that [OF b] assms b
      by (simp add: Create_def Let_def addTree_items top_items_def entry_of_def dbName_def)
  next
    case (Some n)
    then obtain mode body where "n = RegFile mode body" using assms b by (cases n) (simp_all add: Create_def addFile_def Let_def)
    then show thesis using that [OF b] assms b Some
      by (simp add: Create_def addFile_def Let_def addTree_items top_items_def entry_of_def dbName_def)
  qed
qed

lemma sorted_wrt_all: "(\<And>a b. a \<in> set xs \<Longrightarrow> b \<in> set xs \<Longrightarrow> R a b) \<Longrightarrow> sorted_wrt R xs"
  by (induction xs) auto

lemma backup_tree_ok:
  assumes "tree_ok cs" "\<And>x. x \<in> set cs \<Longrightarrow> hd (fst x) = ''certs''" "length manifest \<le> maxEntry" "length db \<le> maxEntry"
    and "\<And>n. secret = Some n \<Longrightarrow> storable_node n"
  shows "tree_ok (top_items manifest db secret @ cs)"
proof -
  have one: "length (fst x) = 1" "fst x \<noteq> []" "hd (fst x) \<noteq> ''certs''" "list_all plain_part (fst x) \<and> storable_node (snd x)"
    if "x \<in> set (top_items manifest db secret)" for x
    using that assms(3-5) by (auto simp: top_items_def plain_names plain_part_def dbName_def split: option.splits)
  have d: "distinct (map fst (top_items manifest db secret))"
    by (auto simp: top_items_def dbName_def split: option.split)
  have "\<not> strict_prefix (fst b) (fst a)" if "length (fst a) = 1" "fst b \<noteq> []" for a b :: "path \<times> node"
    using that by (cases "fst a") (auto simp: strict_prefix_def prefix_def Cons_eq_append_conv)
  then have R: "\<not> strict_prefix (fst b) (fst a)" if "a \<in> set (top_items manifest db secret)" "fst b \<noteq> []" for a b :: "path \<times> node"
    using one(1) [OF that(1)] that(2) by blast
  have cs: "distinct (map fst cs)" "\<And>x. x \<in> set cs \<Longrightarrow> fst x \<noteq> [] \<and> list_all plain_part (fst x) \<and> storable_node (snd x)"
    "sorted_wrt (\<lambda>a b. \<not> strict_prefix (fst b) (fst a)) cs"
    "\<And>x. x \<in> set cs \<Longrightarrow> 1 < length (fst x) \<Longrightarrow> (butlast (fst x), DirNode) \<in> set cs"
    using assms(1) by (simp_all add: tree_ok_def)
  have "sorted_wrt (\<lambda>a b. \<not> strict_prefix (fst b) (fst a)) (top_items manifest db secret @ cs)"
    unfolding sorted_wrt_append
  proof (intro conjI ballI)
    show "sorted_wrt (\<lambda>a b. \<not> strict_prefix (fst b) (fst a)) (top_items manifest db secret)"
      by (rule sorted_wrt_all) (use R one(2) in blast)
  qed (use R cs(2,3) in blast)+
  moreover have "fst ` set (top_items manifest db secret) \<inter> fst ` set cs = {}" using one(3) assms(2) by force
  then have "distinct (map fst (top_items manifest db secret @ cs))" using d cs(1) by simp
  moreover have "fst x \<noteq> [] \<and> list_all plain_part (fst x) \<and> storable_node (snd x)" if "x \<in> set (top_items manifest db secret @ cs)" for x
    using that one(2,4) [of x] cs(2) [of x] by auto
  moreover have "(butlast (fst x), DirNode) \<in> set (top_items manifest db secret @ cs)"
    if "x \<in> set (top_items manifest db secret @ cs)" "1 < length (fst x)" for x
    using that one(1) [of x] cs(4) [of x] by auto
  ultimately show ?thesis unfolding tree_ok_def by blast
qed

lemma other_name:
  assumes "fst y \<noteq> []" "list_all plain_part (fst y)" "fst y \<noteq> [''manifest.json'']"
  shows "en_Name (entry_of y) \<noteq> ''manifest.json''"
proof -
  have "join (fst y) (CHR ''/'') \<noteq> ''manifest.json''"
  proof
    assume "join (fst y) (CHR ''/'') = ''manifest.json''"
    then have "fst y = split ''manifest.json'' (CHR ''/'')" using split_join [OF assms(1) plain_sep [OF assms(2)]] by simp
    with assms(3) show False by simp
  qed
  moreover have "join (fst y) (CHR ''/'') @ ''/'' \<noteq> ''manifest.json''" by (rule notI, drule arg_cong [where f = last]) simp
  ultimately show ?thesis by (simp add: entry_of_def file_entry_def dir_entry_def split: node.split)
qed

text \<open>C23. A backup restores. The archive that is made of a data directory, unpacked on a machine that has none, gives
  a data directory with the database, the secret and every file and directory of the certificates as they were,
  with nothing else but the manifest; what is neither a file nor a directory is left out.\<close>

theorem backup_restores:
  assumes "Create env dataDir f = Inr es" "distinct (map fst f)" "fs_ok f"
    and "\<And>p n. (p, n) \<in> set f \<Longrightarrow> list_all plain_part p \<and> (n = Special \<or> storable_node n)"
    and "map_of f (dataDir @ [''certs'']) = None \<or> map_of f (dataDir @ [''certs'']) = Some DirNode"
    and "be_vacuum env = Some db" "length db \<le> maxEntry"
    and "be_schema env = Some schema" "length (be_marshal env (manifest_of env schema)) \<le> maxEntry"
    and "unmarshal (be_marshal env (manifest_of env schema)) = Some (manifest_of env schema)"
    and "into \<noteq> []" "list_all plain_part (re_tmp renv # into)" "re_tmp renv \<noteq> last into" "fs_ok g" "map_of g into = None"
    and "is_dir (butlast into) g" "map_of g (butlast into @ [re_tmp renv]) = None"
    and "re_fails renv = (\<lambda>_. None)" "\<not> re_mkdirFails renv" "\<not> re_placeFails renv"
  shows "\<exists>g'. Restore unmarshal renv into (Some (es, None)) g = (g', None, None) \<and>
    map_of g' (into @ [dbName]) = Some (RegFile 420 db) \<and>
    map_of g' (into @ [''jwt.secret'']) = map_option restored (map_of f (dataDir @ [''jwt.secret''])) \<and>
    (\<forall>rel. map_of g' (into @ ''certs'' # rel) =
       (case map_of f (dataDir @ ''certs'' # rel) of Some Special \<Rightarrow> None | n \<Rightarrow> map_option restored n)) \<and>
    (\<forall>c rel. map_of g' (into @ c # rel) \<noteq> None \<longrightarrow> c = ''certs'' \<or> rel = [] \<and> c \<in> {''manifest.json'', dbName, ''jwt.secret''})"
proof -
  let ?C = "dataDir @ [''certs'']" and ?s = "map_of f (dataDir @ [''jwt.secret''])" and ?body = "be_marshal env (manifest_of env schema)"
  let ?cs = "tree_items ?C ''certs'' f"
  let ?items = "top_items ?body db ?s @ ?cs"
  have es: "es = map entry_of ?items" and secret: "\<And>n. ?s = Some n \<Longrightarrow> n \<noteq> DirNode \<and> n \<noteq> Special"
    using Create_items [OF assms(1)] assms(6,8) by (metis option.inject)+
  have sec: "storable_node n" if "?s = Some n" for n using secret [OF that] assms(4) [OF map_of_SomeD [OF that]] by blast
  have certs: "tree_ok ?cs"
    by (rule tree_items_ok [OF assms(2,3) plain_names(4) _ assms(5)]) (use assms(4) in auto)
  have ok: "tree_ok ?items"
    by (rule backup_tree_ok [OF certs _ assms(9,7) sec]) (auto simp: tree_items_iff)
  obtain P d where into: "into = P @ [d]" using assms(11) by (cases into rule: rev_cases) auto
  let ?S = "P @ [re_tmp renv]"
  let ?g0 = "(?S, DirNode) # g"
  have below: "map_of g p = None" if "map_of g (P @ [x]) = None" "prefix (P @ [x]) p" for x p
    using nothing_below [OF assms(14) that(1) _ that(2)] by simp
  have free: "map_of ?g0 p = None" if "strict_prefix ?S p" for p
    using below [of "re_tmp renv" p] assms(17) that by (auto simp: into strict_prefix_def)
  have dirs: "dirs_to ?S ?g0" by (rule staging_dirs [OF assms(14)]) (use assms(16) into in simp)
  have plain: "list_all plain_part ?S" using assms(12) by (simp add: into)
  obtain x rest where x: "?items = x # rest" "x = ([''manifest.json''], RegFile 384 ?body)" by (simp add: top_items_def)
  have "extract_entry unmarshal (\<lambda>_. None) (path_string ?S) (entry_of x) no_manifest ?g0 = (layer ?S [x] ?g0, Inr (manifest_of env schema))"
    using extract_item [of "[]" x rest ?S ?g0 unmarshal no_manifest] ok plain dirs free x assms(10)
    by (simp add: entry_of_def file_entry_def)
  moreover have "en_Name (entry_of y) \<noteq> ''manifest.json''" if "y \<in> set rest" for y
  proof (rule other_name)
    have "[''manifest.json''] \<notin> fst ` set rest" using ok x by (simp add: tree_ok_def)
    then show "fst y \<noteq> [''manifest.json'']" using that by (metis imageI)
  qed (use ok x that in \<open>auto simp: tree_ok_def\<close>)
  then have "unpack unmarshal (\<lambda>_. None) (path_string ?S) (map entry_of rest, None) (manifest_of env schema) (layer ?S [x] ?g0) =
      (layer ?S ?items ?g0, Inr (manifest_of env schema))"
    using unpack_items [of ?S ?g0 "[x]" rest] plain dirs free ok x(1) by simp
  ultimately have un: "unpack unmarshal (re_fails renv) (path_string ?S) (es, None) no_manifest ?g0 = (layer ?S ?items ?g0, Inr (manifest_of env schema))"
    unfolding es x(1) assms(18) by simp
  let ?L = "layer ?S ?items ?g0"
  have d: "distinct (map fst ?items)" "\<forall>x \<in> set ?items. fst x \<noteq> []" using ok by (auto simp: tree_ok_def)
  have L: "map_of ?L (?S @ q) = map_option restored (map_of ?items q)" if "q \<noteq> []" for q
    using layer_inside [OF d(1) free that] .
  have apart: "\<not> prefix ?S into" "\<not> prefix into ?S" using assms(13) by (auto simp: into)
  have Lnone: "map_of ?L p = None" if "prefix into p" for p
    using layer_outside [of ?S p] below [of d p] assms(15) that apart_below [OF apart that] by (auto simp: into)
  have db: "map_of ?items [dbName] = Some (RegFile 420 db)" by (simp add: top_items_def dbName_def)
  have "map_of ?L ?S = Some DirNode" using layer_self [OF d(2)] by simp
  then obtain g' where g': "rename_tree ?S into ?L = Some g'" using Lnone [of into] by (simp add: rename_tree_def)
  have m: "map_of g' (into @ q) = map_option restored (map_of ?items q)" if "q \<noteq> []" for q
    using rename_tree_map [OF g' Lnone apart] L [OF that] by simp
  have "Restore unmarshal renv into (Some (es, None)) g = (g', None, None)"
    using un g' assms(16,19,20) L [of "[dbName]"] db Lnone [of into]
    by (simp add: Restore_def Let_def into manifest_of_def)
  moreover have "map_of g' (into @ [dbName]) = Some (RegFile 420 db)" using m [of "[dbName]"] db by simp
  moreover have "map_of ?items [''jwt.secret''] = ?s"
  proof -
    have "map_of ?cs [''jwt.secret''] = None" by (auto simp: map_of_eq_None_iff tree_items_iff)
    then show ?thesis by (simp add: top_items_def dbName_def map_add_def split: option.split)
  qed
  moreover have items: "map_of ?items (''certs'' # rel) = map_of ?cs (''certs'' # rel)" for rel
    by (simp add: top_items_def dbName_def map_add_def split: option.split)
  moreover have "c = ''certs'' \<or> rel = [] \<and> c \<in> {''manifest.json'', dbName, ''jwt.secret''}" if "map_of g' (into @ c # rel) \<noteq> None" for c rel
  proof -
    have "c # rel \<in> fst ` set ?items" using that m [of "c # rel"] by (auto simp: map_of_eq_None_iff)
    then show ?thesis by (auto simp: top_items_def tree_items_iff split: option.splits)
  qed
  ultimately show ?thesis using m tree_items_map [OF assms(2), of ?C "''certs''"] by (intro exI [of _ g']) (auto split: option.split node.split)
qed

section \<open>An example\<close>

definition ex_backup :: backup_env where
  "ex_backup = \<lparr>be_vacuum = Some ''db'', be_schema = Some 7, be_version = ''v1'', be_now = 0, be_marshal = mf_Version\<rparr>"

definition ex_unmarshal :: "string \<Rightarrow> manifest option" where
  "ex_unmarshal s = Some \<lparr>mf_Format = Format, mf_Version = s, mf_CreatedAt = 0, mf_SchemaVersion = 7\<rparr>"

theorem backup_restores_witness:
  "\<exists>es g'. Create ex_backup [''srv'', ''ponz''] ex_data = Inr es \<and> Restore ex_unmarshal ex_restore [''new''] (Some (es, None)) [] = (g', None, None) \<and>
     map_of g' [''new'', ''certs'', ''acme'', ''key''] = Some (RegFile 384 ''pem'')"
proof -
  obtain es where es: "Create ex_backup [''srv'', ''ponz''] ex_data = Inr es"
    by (simp add: Create_def ex_backup_def addFile_def Let_def ex_data_def)
  have d: "distinct (map fst ex_data)" by code_simp
  have "list_all (\<lambda>(p, n). list_all plain_part p \<and> (n = Special \<or> storable_node n)) ex_data"
    by (simp add: ex_data_def plain_part_def maxEntry_def)
  then have n: "list_all plain_part p \<and> (n = Special \<or> storable_node n)" if "(p, n) \<in> set ex_data" for p n
    using that by (auto simp: list_all_iff)
  have c: "map_of ex_data ([''srv'', ''ponz''] @ [''certs'']) = Some DirNode" by (simp add: ex_data_def)
  have k: "map_of ex_data ([''srv'', ''ponz''] @ ''certs'' # [''acme'', ''key'']) = Some (RegFile 384 ''pem'')" by (simp add: ex_data_def)
  have "\<exists>g'. Restore ex_unmarshal ex_restore [''new''] (Some (es, None)) [] = (g', None, None) \<and>
    (\<forall>rel. map_of g' ([''new''] @ ''certs'' # rel) =
       (case map_of ex_data ([''srv'', ''ponz''] @ ''certs'' # rel) of Some Special \<Rightarrow> None | n \<Rightarrow> map_option restored n))"
    using backup_restores [OF es d ex_data_ok n disjI2 [OF c], of "''db''" 7 ex_unmarshal "[''new'']" ex_restore "[]"]
    by (simp add: ex_backup_def ex_restore_def ex_unmarshal_def manifest_of_def maxEntry_def plain_part_def fs_ok_def is_dir_def) blast
  with es k show ?thesis by fastforce
qed

end
