(* ===== verification/Backup_Schedule.thy ===== *)
theory Backup_Schedule
  imports Backup Api_Users
begin

text \<open>The scheduled snapshots (\<^verbatim>\<open>backup/schedule.go\<close>) and the endpoints that serve and delete one (\<^verbatim>\<open>api/backup.go\<close>).\<close>

section \<open>Scheduled snapshots\<close>

text \<open>The backup directory, as the names in it and whether each is a directory.\<close>

type_synonym listing = "(string \<times> bool) list"

definition is_archive :: "string \<Rightarrow> bool" where
  "is_archive name \<longleftrightarrow> has_prefix name ''ponzproxy-'' \<and> has_suffix name ''.tar.gz''"

definition is_partial :: "string \<Rightarrow> bool" where
  "is_partial name \<longleftrightarrow> has_suffix name ''.partial''"

definition keep_at_least :: "int \<Rightarrow> nat" where
  "keep_at_least keep = nat (if keep < 1 then 1 else keep)"

definition archives :: "listing \<Rightarrow> string list" where
  "archives d = rev (sort (map fst (filter (\<lambda>(name, dir). \<not> dir \<and> \<not> is_partial name \<and> is_archive name) d)))"

text \<open>Removing stops at the first archive that cannot be removed; a \<^verbatim>\<open>.partial\<close> file that cannot is passed over.\<close>

fun remove_archives :: "(string \<Rightarrow> bool) \<Rightarrow> string list \<Rightarrow> listing \<Rightarrow> listing \<times> bool" where
  "remove_archives fails [] d = (d, True)"
| "remove_archives fails (name # names) d =
     (if fails name then (d, False) else remove_archives fails names (filter (\<lambda>p. fst p \<noteq> name) d))"

definition prune_backups :: "(string \<Rightarrow> bool) \<Rightarrow> nat \<Rightarrow> listing \<Rightarrow> listing \<times> bool" where
  "prune_backups fails keep d =
     (let left = filter (\<lambda>(name, dir). dir \<or> \<not> is_partial name \<or> fails name) d
      in remove_archives fails (drop (min keep (length (archives d))) (archives d)) left)"

definition list_backups :: "listing \<Rightarrow> string list" where
  "list_backups d = rev (sort (map fst (filter (\<lambda>(name, dir). \<not> dir \<and> is_archive name) d)))"

text \<open>A snapshot in two steps: the \<^verbatim>\<open>.partial\<close> file is created, and after it has been written it is renamed.\<close>

definition archive_name :: "string \<Rightarrow> string" where
  "archive_name stamp = ''ponzproxy-'' @ stamp @ ''.tar.gz''"

definition begin_snapshot :: "string \<Rightarrow> listing \<Rightarrow> listing option" where
  "begin_snapshot stamp d =
     (let partial = archive_name stamp @ ''.partial''
      in if partial \<in> fst ` set d then None else Some (d @ [(partial, False)]))"

definition end_snapshot :: "bool \<Rightarrow> string \<Rightarrow> listing \<Rightarrow> listing \<times> bool" where
  "end_snapshot written stamp d =
     (let partial = archive_name stamp @ ''.partial'';
          gone = filter (\<lambda>p. fst p \<noteq> partial) d
      in if \<not> written then (gone, False)
         else if partial \<notin> fst ` set d then (d, False)
         else (filter (\<lambda>p. fst p \<noteq> archive_name stamp) gone @ [(archive_name stamp, False)], True))"

lemma partial_not_archive: "is_partial name \<Longrightarrow> \<not> is_archive name"
proof
  assume "is_partial name" "is_archive name"
  then obtain a b where "name = a @ ''.partial''" "name = b @ ''.tar.gz''" by (auto simp: is_partial_def is_archive_def has_suffix_iff)
  then have "last name = CHR ''l''" "last name = CHR ''z''" by simp_all
  then show False by simp
qed

lemma remove_archives_all:
  "\<forall>n \<in> set names. \<not> fails n \<Longrightarrow> remove_archives fails names d = (filter (\<lambda>p. fst p \<notin> set names) d, True)"
  by (induction names arbitrary: d) (auto simp: conj_commute intro: filter_cong)

text \<open>Pruning keeps the newest archives, whose names sort last, and removes the other archives and every unfinished
  one; it touches nothing else.\<close>

lemma archives_listed: "archives d = list_backups d"
  unfolding archives_def list_backups_def using partial_not_archive
  by (intro arg_cong [where f = rev] arg_cong [where f = sort] arg_cong [where f = "map fst"] filter_cong) auto

lemma listed_backups:
  assumes "distinct (map fst d)"
  shows "distinct (list_backups d)" "sorted (rev (list_backups d))" "set (list_backups d) = {n. (n, False) \<in> set d \<and> is_archive n}"
  using distinct_map_filter [OF assms, of "\<lambda>(name, dir). \<not> dir \<and> is_archive name"] by (auto simp: list_backups_def image_iff)

lemma prune_keeps_newest:
  assumes "distinct (map fst d)" "\<And>n. \<not> fails n" "prune_backups fails keep d = (d', ok)"
  shows "ok \<and> list_backups d' = take keep (list_backups d) \<and>
    set d' = {(n, dir) \<in> set d. (dir \<or> \<not> is_partial n) \<and> (dir \<or> \<not> is_archive n \<or> n \<in> set (take keep (list_backups d)))}"
proof -
  let ?A = "list_backups d"
  note A = listed_backups [OF assms(1)]
  have rest: "set ?A = set (take keep ?A) \<union> set (drop keep ?A)" "set (take keep ?A) \<inter> set (drop keep ?A) = {}"
    using A(1) by (metis append_take_drop_id set_append) (rule set_take_disj_set_drop_if_distinct [OF A(1)], simp)
  have "drop (min keep (length ?A)) ?A = drop keep ?A" by (simp add: min_def)
  then have d': "d' = filter (\<lambda>p. fst p \<notin> set (drop keep ?A)) (filter (\<lambda>(name, dir). dir \<or> \<not> is_partial name) d)" and ok: ok
    using assms(2,3) by (simp_all add: prune_backups_def Let_def archives_listed remove_archives_all)
  have dir: "n \<notin> set ?A" if "(n, True) \<in> set d" for n
    using A(3) that assms(1) eq_key_imp_eq_value [OF assms(1)] by blast
  have mem: "n \<notin> set (drop keep ?A) \<longleftrightarrow> dir \<or> \<not> is_archive n \<or> n \<in> set (take keep ?A)" if "(n, dir) \<in> set d" for n dir
    using rest dir [of n] A(3) that by (cases dir) auto
  have set: "set d' = {(n, dir) \<in> set d. (dir \<or> \<not> is_partial n) \<and> (dir \<or> \<not> is_archive n \<or> n \<in> set (take keep ?A))}" (is "_ = ?K")
  proof (rule set_eqI)
    fix x :: "string \<times> bool"
    obtain n dir where "x = (n, dir)" by fastforce
    then show "x \<in> set d' \<longleftrightarrow> x \<in> ?K" using mem [of n dir] by (auto simp: d')
  qed
  have "distinct (map fst d')" unfolding d' by (intro distinct_map_filter assms(1))
  note B = listed_backups [OF this]
  have "set (list_backups d') = set (take keep ?A)"
    unfolding B(3) set using A(3) rest(1) partial_not_archive by auto
  moreover have "sorted (rev (take keep ?A))" using A(2) by (simp add: rev_take sorted_wrt_drop)
  ultimately have "rev (list_backups d') = rev (take keep ?A)"
    using B(1,2) A(1) by (intro sorted_distinct_set_unique) simp_all
  then show ?thesis using ok set by simp
qed

text \<open>A snapshot that an operator asks for while the scheduler prunes is lost: pruning takes its unfinished file for a
  leftover, and the rename fails.\<close>

lemma prune_takes_running_snapshot:
  assumes "begin_snapshot stamp d = Some d1" "distinct (map fst d)" "\<And>n. \<not> fails n" "prune_backups fails keep d1 = (d2, ok)"
  shows "end_snapshot True stamp d2 = (d2, False)"
proof -
  let ?p = "archive_name stamp @ ''.partial''"
  have p: "is_partial ?p" unfolding is_partial_def has_suffix_iff by blast
  have d1: "d1 = d @ [(?p, False)]" "?p \<notin> fst ` set d" using assms(1) by (auto simp: begin_snapshot_def Let_def split: if_splits)
  then have "distinct (map fst d1)" using assms(2) by simp
  from prune_keeps_newest [OF this assms(3,4)] have "set d2 \<subseteq> {(n, dir) \<in> set d1. dir \<or> \<not> is_partial n}" by auto
  moreover have "\<not> dir" if "(?p, dir) \<in> set d1" for dir using that d1 by force
  ultimately have "?p \<notin> fst ` set d2" using p by force
  then show ?thesis by (simp add: end_snapshot_def Let_def)
qed

section \<open>Snapshots over HTTP\<close>

definition Base :: "string \<Rightarrow> string" where
  "Base s =
     (if s = [] then ''.''
      else let t = rev (dropWhile (\<lambda>c. c = CHR ''/'') (rev s));
               b = rev (takeWhile (\<lambda>c. c \<noteq> CHR ''/'') (rev t))
           in if b = [] then ''/'' else b)"

definition valid_backup_name :: "string \<Rightarrow> bool" where
  "valid_backup_name name \<longleftrightarrow> \<not> (name = [] \<or> name \<noteq> Base name \<or> has_prefix name ''/'')"

definition backup_path :: "path \<Rightarrow> string \<Rightarrow> path" where
  "backup_path dataDir name = parts (Join (path_string (dataDir @ [''backups''])) name)"

definition handleBackupFile :: "path \<Rightarrow> string \<Rightarrow> fs \<Rightarrow> api_error + string" where
  "handleBackupFile dataDir name f =
     (if \<not> valid_backup_name name then Inl (bad_request ''invalid backup name'')
      else case map_of f (backup_path dataDir name) of
        Some (RegFile mode body) \<Rightarrow> Inr body
      | _ \<Rightarrow> Inl (Db ErrNotFound))"

text \<open>\<^verbatim>\<open>os.Remove\<close> removes a directory only when it is empty.\<close>

definition handleBackupDelete :: "path \<Rightarrow> string \<Rightarrow> fs \<Rightarrow> fs \<times> (api_error + int)" where
  "handleBackupDelete dataDir name f =
     (if \<not> valid_backup_name name then (f, Inl (bad_request ''invalid backup name''))
      else let p = backup_path dataDir name
           in if map_of f p = None \<or> list_ex (\<lambda>(q, n). strict_prefix p q) f then (f, Inl (Db ErrNotFound))
              else (filter (\<lambda>(q, n). q \<noteq> p) f, Inr 204))"

text \<open>A name that passes is a single component, so only files of the backup directory itself are served.\<close>

lemma Base_plain: "valid_backup_name name \<Longrightarrow> CHR ''/'' \<notin> set name"
proof
  assume v: "valid_backup_name name" and s: "CHR ''/'' \<in> set name"
  have b: "name = Base name" "name \<noteq> []" "\<not> has_prefix name ''/''" using v by (auto simp: valid_backup_name_def)
  then have "name \<noteq> ''/''" by (auto simp: has_prefix_def)
  then have "name = rev (takeWhile (\<lambda>c. c \<noteq> CHR ''/'') (dropWhile (\<lambda>c. c = CHR ''/'') (rev name)))"
    using b(1,2) unfolding Base_def by (auto simp: Let_def split: if_splits)
  then have "set name \<subseteq> {c. c \<noteq> CHR ''/''}" by (metis (mono_tags, lifting) mem_Collect_eq set_rev set_takeWhileD subsetI)
  with s show False by blast
qed

lemma handleBackupFile_inside:
  assumes "handleBackupFile dataDir name f = Inr body" "list_all plain_part dataDir" "dataDir \<noteq> []" "dirs_to (dataDir @ [''backups'']) f"
  shows "plain_part name \<and> (\<exists>mode. map_of f (dataDir @ [''backups'', name]) = Some (RegFile mode body))"
proof -
  let ?d = "dataDir @ [''backups'']"
  have v: "valid_backup_name name" and b: "\<exists>mode. map_of f (backup_path dataDir name) = Some (RegFile mode body)"
    using assms(1) by (auto simp: handleBackupFile_def split: if_splits option.splits node.splits)
  have d: "list_all plain_part ?d" using assms(2) by (simp add: plain_part_def)
  have s: "CHR ''/'' \<notin> set name" "name \<noteq> []" using Base_plain [OF v] v by (auto simp: valid_backup_name_def)
  have up: "backup_path dataDir ''..'' = dataDir"
  proof -
    have "split (path_string ?d @ ''/'' @ ''..'') (CHR ''/'') = ([] # ?d) @ [''..'']"
      using split_append [of "path_string ?d" "CHR ''/''" "''..''"] split_path [OF d] by simp
    then have "Join (path_string ?d) ''..'' = path_string dataDir"
      by (simp add: Join_def Clean_def foldl_plain [OF assms(2)] clean_part_def) (simp add: path_string_def has_prefix_def)
    then show ?thesis by (simp add: backup_path_def parts_path [OF assms(2)])
  qed
  have here: "backup_path dataDir ''.'' = ?d"
    using Join_plain [OF d, of "[]"] parts_path [OF d] by (simp add: backup_path_def relative_string_def)
  have "name \<noteq> ''.''" using b here assms(4) by (auto simp: dirs_to_def)
  moreover have "name \<noteq> ''..''"
  proof
    assume "name = ''..''"
    then obtain mode where m: "map_of f dataDir = Some (RegFile mode body)" using b up by auto
    moreover have "map_of f dataDir = Some DirNode" using assms(3,4) by (simp add: dirs_to_def)
    ultimately show False by simp
  qed
  ultimately have p: "plain_part name" using s by (simp add: plain_part_def)
  then have "backup_path dataDir name = ?d @ [name]"
    using Join_plain [OF d, of "[name]"] parts_path [of "?d @ [name]"] d by (simp add: backup_path_def relative_string_def)
  with b p show ?thesis by simp
qed

end
