(* ===== verification/Dns_Provider.thy ===== *)
theory Dns_Provider
  imports Certmgr Go_Url
begin

text \<open>
  The providers that publish TXT records for dns-01 challenges (\<^verbatim>\<open>certmgr/dnsprovider\<close>): the registry, and
  Cloudflare's, with its search for the zone of a name and the envelope of its replies. The service has a
  state of its own; what it answers to a request, and the decoding of JSON, are the fields of \<open>dns_api\<close>.
\<close>

section \<open>The registry\<close>

record field =
  fi_Key :: string
  fi_Label :: string
  fi_Required :: bool
  fi_Secret :: bool
  fi_Help :: string

record descriptor =
  de_Name :: string
  de_Label :: string
  de_Description :: string
  de_Fields :: "field list"

record cloudflare =
  cl_token :: string

type_synonym factory = "string \<Rightarrow> go_error + cloudflare"

type_synonym registry = "(string \<times> descriptor \<times> factory) list"

definition Register :: "descriptor \<Rightarrow> factory \<Rightarrow> registry \<Rightarrow> registry" where
  "Register d f reg = al_put (de_Name d) (d, f) reg"

definition New_provider :: "(string \<Rightarrow> string) \<Rightarrow> registry \<Rightarrow> string \<Rightarrow> string \<Rightarrow> go_error + cloudflare" where
  "New_provider quote reg name credentials =
     (case map_of reg name of
        None \<Rightarrow> Inl (plain (''unknown dns provider '' @ quote name))
      | Some (_, build) \<Rightarrow> build credentials)"

definition Descriptors :: "registry \<Rightarrow> descriptor list" where
  "Descriptors reg = sort_key de_Label (map (\<lambda>(_, d, _). d) reg)"

section \<open>Cloudflare\<close>

definition cloudflare_descriptor :: descriptor where
  "cloudflare_descriptor =
     \<lparr>de_Name = ''cloudflare'', de_Label = ''Cloudflare'',
      de_Description = ''Uses a scoped API token. Create one with Zone:DNS:Edit permission on the zones you want certificates for.'',
      de_Fields = [\<lparr>fi_Key = ''apiToken'', fi_Label = ''API token'', fi_Required = True, fi_Secret = True,
        fi_Help = ''A scoped token, not the global API key.''\<rparr>]\<rparr>"

text \<open>\<open>unmarshal\<close> reads the field \<^verbatim>\<open>apiToken\<close> of the credentials.\<close>

definition newCloudflare :: "(string \<Rightarrow> go_error + string) \<Rightarrow> factory" where
  "newCloudflare unmarshal raw =
     (case unmarshal raw of
        Inl e \<Rightarrow> Inl (wrap ''cloudflare credentials'' e)
      | Inr token \<Rightarrow>
          if trim_space token = [] then Inl (plain ''cloudflare: an API token is required'')
          else Inr \<lparr>cl_token = trim_space token\<rparr>)"

definition providers :: "(string \<Rightarrow> go_error + string) \<Rightarrow> registry" where
  "providers unmarshal = Register cloudflare_descriptor (newCloudflare unmarshal) []"

text \<open>A request, with the name and the content of the TXT record it creates.\<close>

record api_request =
  rq_Method :: string
  rq_Path :: string
  rq_Token :: string
  rq_Body :: "(string \<times> string \<times> string \<times> int) option"

datatype answer = Unreachable go_error | Unreadable go_error | Answer int string

text \<open>What the service does with a request, the envelope of a reply (whether it succeeded, and its errors),
  and the identifiers in its result.\<close>

record 's dns_api =
  da_send :: "'s \<Rightarrow> api_request \<Rightarrow> 's \<times> answer"
  da_envelope :: "string \<Rightarrow> (bool \<times> (int \<times> string) list) option"
  da_ids :: "string \<Rightarrow> go_error + string list"

definition formatErrors :: "(int \<times> string) list \<Rightarrow> int \<Rightarrow> string" where
  "formatErrors errs status =
     (if errs = [] then ''request failed with HTTP '' @ itoa status
      else join_with ''; '' (map (\<lambda>(code, message). message @ '' (code '' @ itoa code @ '')'') errs))"

definition responseLimit :: nat where "responseLimit = 2 ^ 20"

definition api_do ::
  "'s dns_api \<Rightarrow> cloudflare \<Rightarrow> string \<Rightarrow> string \<Rightarrow> (string \<times> string \<times> string \<times> int) option \<Rightarrow> 's \<Rightarrow> 's \<times> (go_error + string)" where
  "api_do api c method path body s =
     (case da_send api s \<lparr>rq_Method = method, rq_Path = path, rq_Token = cl_token c, rq_Body = body\<rparr> of
        (s, Unreachable e) \<Rightarrow> (s, Inl (wrap ''cloudflare'' e))
      | (s, Unreadable e) \<Rightarrow> (s, Inl (wrap ''cloudflare: read response'' e))
      | (s, Answer status body) \<Rightarrow>
          let raw = take responseLimit body
          in (s, case da_envelope api raw of
                   None \<Rightarrow> Inl (plain (''cloudflare: HTTP '' @ itoa status @ '' with an unreadable body''))
                 | Some (success, errs) \<Rightarrow>
                     if \<not> success then Inl (plain (''cloudflare: '' @ formatErrors errs status)) else Inr raw))"

definition zone_query :: "string \<Rightarrow> string" where
  "zone_query candidate = ''/zones?name='' @ QueryEscape candidate"

definition records_path :: "string \<Rightarrow> string" where
  "records_path zone = ''/zones/'' @ zone @ ''/dns_records''"

definition records_query :: "string \<Rightarrow> string \<Rightarrow> string \<Rightarrow> string" where
  "records_query zone name val =
     records_path zone @ ''?content='' @ QueryEscape val @ ''&name='' @ QueryEscape name @ ''&type=TXT''"

definition trim_dots :: "string \<Rightarrow> string" where
  "trim_dots s = rev (dropWhile (\<lambda>c. c = CHR ''.'') (rev (dropWhile (\<lambda>c. c = CHR ''.'') s)))"

text \<open>The loop of \<^verbatim>\<open>zoneFor\<close>: it stops before the last label.\<close>

fun zone_of :: "'s dns_api \<Rightarrow> cloudflare \<Rightarrow> string \<Rightarrow> string list \<Rightarrow> 's \<Rightarrow> 's \<times> (go_error + string)" where
  "zone_of api c quoted (a # b # labels) s =
     (case api_do api c ''GET'' (zone_query (join (a # b # labels) (CHR ''.''))) None s of
        (s, Inl e) \<Rightarrow> (s, Inl e)
      | (s, Inr raw) \<Rightarrow>
          (case da_ids api raw of
             Inl e \<Rightarrow> (s, Inl (wrap ''cloudflare: decode zone list'' e))
           | Inr (i # _) \<Rightarrow> (s, Inr i)
           | Inr [] \<Rightarrow> zone_of api c quoted (b # labels) s))"
| "zone_of api c quoted labels s = (s, Inl (plain (''cloudflare: no zone in this account covers '' @ quoted)))"

definition zoneFor :: "(string \<Rightarrow> string) \<Rightarrow> 's dns_api \<Rightarrow> cloudflare \<Rightarrow> string \<Rightarrow> 's \<Rightarrow> 's \<times> (go_error + string)" where
  "zoneFor quote api c name s = zone_of api c (quote name) (split (trim_dots name) (CHR ''.'')) s"

definition Present_record :: "(string \<Rightarrow> string) \<Rightarrow> 's dns_api \<Rightarrow> cloudflare \<Rightarrow> string \<Rightarrow> string \<Rightarrow> 's \<Rightarrow> 's \<times> go_error option" where
  "Present_record quote api c name val s =
     (case zoneFor quote api c name s of
        (s, Inl e) \<Rightarrow> (s, Some e)
      | (s, Inr zone) \<Rightarrow>
          (case api_do api c ''POST'' (records_path zone) (Some (''TXT'', name, val, 60)) s of
             (s, Inl e) \<Rightarrow> (s, Some e)
           | (s, Inr _) \<Rightarrow> (s, None)))"

fun delete_records :: "'s dns_api \<Rightarrow> cloudflare \<Rightarrow> string \<Rightarrow> string list \<Rightarrow> 's \<Rightarrow> 's \<times> go_error option" where
  "delete_records api c zone [] s = (s, None)"
| "delete_records api c zone (i # is) s =
     (case api_do api c ''DELETE'' (records_path zone @ ''/'' @ i) None s of
        (s, Inl e) \<Rightarrow> (s, Some e)
      | (s, Inr _) \<Rightarrow> delete_records api c zone is s)"

definition CleanUp_record :: "(string \<Rightarrow> string) \<Rightarrow> 's dns_api \<Rightarrow> cloudflare \<Rightarrow> string \<Rightarrow> string \<Rightarrow> 's \<Rightarrow> 's \<times> go_error option" where
  "CleanUp_record quote api c name val s =
     (case zoneFor quote api c name s of
        (s, Inl e) \<Rightarrow> (s, Some e)
      | (s, Inr zone) \<Rightarrow>
          (case api_do api c ''GET'' (records_query zone name val) None s of
             (s, Inl e) \<Rightarrow> (s, Some e)
           | (s, Inr raw) \<Rightarrow>
               (case da_ids api raw of
                  Inl e \<Rightarrow> (s, Some (wrap ''cloudflare: decode record list'' e))
                | Inr ids \<Rightarrow> delete_records api c zone ids s)))"

section \<open>What the service promises\<close>

text \<open>What an account holds: the names and identifiers of its zones, and its TXT records with their
  identifier, zone, name and content.\<close>

record account =
  ax_zones :: "(string \<times> string) list"
  ax_records :: "(string \<times> string \<times> string \<times> string) list"

definition answers ::
  "'s dns_api \<Rightarrow> cloudflare \<Rightarrow> string \<Rightarrow> string \<Rightarrow> (string \<times> string \<times> string \<times> int) option \<Rightarrow> 's \<Rightarrow> 's \<Rightarrow> string list \<Rightarrow> bool" where
  "answers api c method path body s s' ids \<longleftrightarrow>
     (\<exists>raw. api_do api c method path body s = (s', Inr raw) \<and> da_ids api raw = Inr ids)"

fun suffix_names :: "string list \<Rightarrow> string list" where
  "suffix_names (a # b # labels) = join (a # b # labels) (CHR ''.'') # suffix_names (b # labels)"
| "suffix_names labels = []"

definition matching :: "string \<Rightarrow> string \<Rightarrow> string \<Rightarrow> string \<times> string \<times> string \<times> string \<Rightarrow> bool" where
  "matching z name val = (\<lambda>(i, z', n, v). z' = z \<and> n = name \<and> v = val)"

text \<open>The documented behaviour for the requests about one record: searching zones by name, searching records,
  creating a record that is not there yet, and deleting one by its identifier.\<close>

definition honours :: "'s dns_api \<Rightarrow> cloudflare \<Rightarrow> ('s \<Rightarrow> account) \<Rightarrow> string \<Rightarrow> string \<Rightarrow> bool" where
  "honours api c acct name val \<longleftrightarrow>
     (\<forall>s. \<forall>n \<in> set (suffix_names (split (trim_dots name) (CHR ''.''))). \<exists>s'.
        acct s' = acct s \<and>
        answers api c ''GET'' (zone_query n) None s s' (map snd (filter (\<lambda>(m, i). m = n) (ax_zones (acct s))))) \<and>
     (\<forall>s. \<forall>(m, z) \<in> set (ax_zones (acct s)). \<exists>s'.
        acct s' = acct s \<and>
        answers api c ''GET'' (records_query z name val) None s s' (map fst (filter (matching z name val) (ax_records (acct s))))) \<and>
     (\<forall>s. \<forall>(m, z) \<in> set (ax_zones (acct s)). list_all (\<lambda>r. \<not> matching z name val r) (ax_records (acct s)) \<longrightarrow> (\<exists>s' i raw.
        i \<notin> fst ` set (ax_records (acct s)) \<and> acct s' = (acct s)\<lparr>ax_records := ax_records (acct s) @ [(i, z, name, val)]\<rparr> \<and>
        api_do api c ''POST'' (records_path z) (Some (''TXT'', name, val, 60)) s = (s', Inr raw))) \<and>
     (\<forall>s. \<forall>(m, z) \<in> set (ax_zones (acct s)). \<forall>i \<in> fst ` set (ax_records (acct s)). \<exists>s' raw.
        acct s' = (acct s)\<lparr>ax_records := filter (\<lambda>r. fst r \<noteq> i) (ax_records (acct s))\<rparr> \<and>
        api_do api c ''DELETE'' (records_path z @ ''/'' @ i) None s = (s', Inr raw))"

text \<open>The zone a name belongs to: the one with the longest name of those that end the name.\<close>

definition longest_zone :: "string \<Rightarrow> account \<Rightarrow> (string \<times> string) option" where
  "longest_zone name a =
     (case find (\<lambda>n. n \<in> fst ` set (ax_zones a)) (suffix_names (split (trim_dots name) (CHR ''.''))) of
        None \<Rightarrow> None
      | Some n \<Rightarrow> find (\<lambda>(m, i). m = n) (ax_zones a))"

lemma filter_found: "find P xs = Some x \<Longrightarrow> \<exists>ys. filter P xs = x # ys"
  by (induction xs) (auto split: if_splits)

lemma zone_of_finds:
  assumes "\<forall>s. \<forall>n \<in> set (suffix_names labels). \<exists>s'. acct s' = acct s \<and>
      answers api c ''GET'' (zone_query n) None s s' (map snd (filter (\<lambda>(m, i). m = n) (ax_zones (acct s))))"
  shows "\<exists>s'. acct s' = acct s \<and>
    (case find (\<lambda>n. n \<in> fst ` set (ax_zones (acct s))) (suffix_names labels) of
       None \<Rightarrow> \<exists>e. zone_of api c q labels s = (s', Inl e)
     | Some n \<Rightarrow> \<exists>p. find (\<lambda>(m, i). m = n) (ax_zones (acct s)) = Some p \<and> zone_of api c q labels s = (s', Inr (snd p)))"
  using assms
proof (induction labels arbitrary: s rule: suffix_names.induct)
  case (1 a b labels)
  let ?n = "join (a # b # labels) (CHR ''.'')"
  obtain s1 raw where s1: "acct s1 = acct s" and r: "api_do api c ''GET'' (zone_query ?n) None s = (s1, Inr raw)"
    and ids: "da_ids api raw = Inr (map snd (filter (\<lambda>(m, i). m = ?n) (ax_zones (acct s))))"
    using 1(2) [THEN spec, of s] by (auto simp: answers_def)
  show ?case
  proof (cases "?n \<in> fst ` set (ax_zones (acct s))")
    case True
    then obtain p where p: "find (\<lambda>(m, i). m = ?n) (ax_zones (acct s)) = Some p"
      by (cases "find (\<lambda>(m, i). m = ?n) (ax_zones (acct s))") (auto simp: find_None_iff)
    obtain ps where "filter (\<lambda>(m, i). m = ?n) (ax_zones (acct s)) = p # ps" using filter_found [OF p] by blast
    then show ?thesis using True s1 r ids p by auto
  next
    case False
    then have "filter (\<lambda>(m, i). m = ?n) (ax_zones (acct s)) = []" by (force simp: filter_empty_conv)
    then have z: "zone_of api c q (a # b # labels) s = zone_of api c q (b # labels) s1" using r ids by simp
    have "\<forall>s. \<forall>n \<in> set (suffix_names (b # labels)). \<exists>s'. acct s' = acct s \<and>
        answers api c ''GET'' (zone_query n) None s s' (map snd (filter (\<lambda>(m, i). m = n) (ax_zones (acct s))))"
      using 1(2) by simp
    from 1(1) [OF this, of s1, unfolded s1] False show ?thesis unfolding z by simp
  qed
qed auto

lemma zoneFor_finds:
  assumes "honours api c acct name val"
  shows "\<exists>s'. acct s' = acct s \<and>
    (case longest_zone name (acct s) of
       None \<Rightarrow> \<exists>e. zoneFor quote api c name s = (s', Inl e)
     | Some p \<Rightarrow> p \<in> set (ax_zones (acct s)) \<and> zoneFor quote api c name s = (s', Inr (snd p)))"
proof -
  let ?ns = "split (trim_dots name) (CHR ''.'')"
  have "\<forall>s. \<forall>n \<in> set (suffix_names ?ns). \<exists>s'. acct s' = acct s \<and>
      answers api c ''GET'' (zone_query n) None s s' (map snd (filter (\<lambda>(m, i). m = n) (ax_zones (acct s))))"
    using assms unfolding honours_def by (elim conjE)
  from zone_of_finds [OF this, of s "quote name"] show ?thesis
    by (auto simp: zoneFor_def longest_zone_def split: option.splits dest: find_SomeD)
qed

lemma delete_records_all:
  assumes "honours api c acct name val" "(m, z) \<in> set (ax_zones (acct s))" "set is \<subseteq> fst ` set (ax_records (acct s))" "distinct is"
  shows "\<exists>s'. delete_records api c z is s = (s', None) \<and>
    acct s' = (acct s)\<lparr>ax_records := filter (\<lambda>r. fst r \<notin> set is) (ax_records (acct s))\<rparr>"
  using assms(2-4)
proof (induction "is" arbitrary: s)
  case (Cons i "is")
  have "\<forall>s. \<forall>(m, z) \<in> set (ax_zones (acct s)). \<forall>i \<in> fst ` set (ax_records (acct s)). \<exists>s' raw.
        acct s' = (acct s)\<lparr>ax_records := filter (\<lambda>r. fst r \<noteq> i) (ax_records (acct s))\<rparr> \<and>
        api_do api c ''DELETE'' (records_path z @ ''/'' @ i) None s = (s', Inr raw)"
    using assms(1) unfolding honours_def by (elim conjE)
  with Cons.prems(1,2) obtain s1 raw where d: "api_do api c ''DELETE'' (records_path z @ ''/'' @ i) None s = (s1, Inr raw)"
    and s1: "acct s1 = (acct s)\<lparr>ax_records := filter (\<lambda>r. fst r \<noteq> i) (ax_records (acct s))\<rparr>" by fastforce
  have "set is \<subseteq> fst ` set (ax_records (acct s1))" using Cons.prems(2,3) by (force simp: s1)
  with Cons.IH [of s1] Cons.prems(1,3) obtain s' where "delete_records api c z is s1 = (s', None)"
    "acct s' = (acct s1)\<lparr>ax_records := filter (\<lambda>r. fst r \<notin> set is) (ax_records (acct s1))\<rparr>" by (auto simp: s1)
  with d s1 show ?case by (simp add: conj_commute)
qed simp

text \<open>Publishing and withdrawing a TXT record. With a service that behaves as documented, the record goes into
  the zone with the longest name that ends the record's name, and cleaning up afterwards removes from
  this zone exactly the records with this name and content, however many there are, none included. Without
  such a zone both fail and the account is as before.\<close>

theorem txt_record_comes_and_goes:
  assumes "honours api c acct name val" "distinct (map fst (ax_records (acct s)))"
  shows "case longest_zone name (acct s) of
      None \<Rightarrow> \<exists>s1 s2 e e'. Present_record quote api c name val s = (s1, Some e) \<and> CleanUp_record quote api c name val s = (s2, Some e') \<and>
        acct s1 = acct s \<and> acct s2 = acct s
    | Some (m, z) \<Rightarrow>
        (list_all (\<lambda>r. \<not> matching z name val r) (ax_records (acct s)) \<longrightarrow>
          (\<exists>s1 i. Present_record quote api c name val s = (s1, None) \<and> i \<notin> fst ` set (ax_records (acct s)) \<and>
             acct s1 = (acct s)\<lparr>ax_records := ax_records (acct s) @ [(i, z, name, val)]\<rparr>)) \<and>
        (\<exists>s2. CleanUp_record quote api c name val s = (s2, None) \<and>
           acct s2 = (acct s)\<lparr>ax_records := filter (\<lambda>r. \<not> matching z name val r) (ax_records (acct s))\<rparr>)"
proof -
  obtain s1 where s1: "acct s1 = acct s" and z: "case longest_zone name (acct s) of
      None \<Rightarrow> \<exists>e. zoneFor quote api c name s = (s1, Inl e)
    | Some p \<Rightarrow> p \<in> set (ax_zones (acct s)) \<and> zoneFor quote api c name s = (s1, Inr (snd p))"
    using zoneFor_finds [OF assms(1)] by blast
  show ?thesis
  proof (cases "longest_zone name (acct s)")
    case None
    with z s1 show ?thesis by (auto simp: Present_record_def CleanUp_record_def)
  next
    case (Some p)
    obtain m z' where p: "p = (m, z')" by (cases p)
    have in_zone: "(m, z') \<in> set (ax_zones (acct s1))" and look: "zoneFor quote api c name s = (s1, Inr z')" using z Some p s1 by auto
    note h = assms(1) [unfolded honours_def]
    have "\<exists>s2 i. Present_record quote api c name val s = (s2, None) \<and> i \<notin> fst ` set (ax_records (acct s)) \<and>
        acct s2 = (acct s)\<lparr>ax_records := ax_records (acct s) @ [(i, z', name, val)]\<rparr>"
      if none: "list_all (\<lambda>r. \<not> matching z' name val r) (ax_records (acct s))"
    proof -
      from h [THEN conjunct2, THEN conjunct2, THEN conjunct1, THEN spec, THEN bspec, OF in_zone] none
      obtain s2 i raw where "i \<notin> fst ` set (ax_records (acct s))" "acct s2 = (acct s)\<lparr>ax_records := ax_records (acct s) @ [(i, z', name, val)]\<rparr>"
        "api_do api c ''POST'' (records_path z') (Some (''TXT'', name, val, 60)) s1 = (s2, Inr raw)"
        unfolding s1 prod.case by blast
      then show ?thesis using look by (intro exI [of _ s2] exI [of _ i]) (simp add: Present_record_def)
    qed
    moreover obtain s2 raw where s2: "acct s2 = acct s" and g: "api_do api c ''GET'' (records_query z' name val) None s1 = (s2, Inr raw)"
      and ids: "da_ids api raw = Inr (map fst (filter (matching z' name val) (ax_records (acct s))))"
      using h [THEN conjunct2, THEN conjunct1, THEN spec, THEN bspec, OF in_zone] by (auto simp: answers_def s1)
    let ?is = "map fst (filter (matching z' name val) (ax_records (acct s)))"
    have "distinct ?is" using assms(2) by (simp add: distinct_map_filter)
    then obtain s3 where "delete_records api c z' ?is s2 = (s3, None)"
      and s3: "acct s3 = (acct s)\<lparr>ax_records := filter (\<lambda>r. fst r \<notin> set ?is) (ax_records (acct s))\<rparr>"
      using delete_records_all [OF assms(1), of m z' s2 ?is] in_zone by (auto simp: s1 s2)
    then have c: "CleanUp_record quote api c name val s = (s3, None)" using look g ids by (simp add: CleanUp_record_def)
    have "filter (\<lambda>r. fst r \<notin> set ?is) (ax_records (acct s)) = filter (\<lambda>r. \<not> matching z' name val r) (ax_records (acct s))"
    proof (rule filter_cong [OF refl])
      fix r assume "r \<in> set (ax_records (acct s))"
      then show "(fst r \<notin> set ?is) = (\<not> matching z' name val r)" using assms(2) by (force simp: distinct_map inj_on_def)
    qed
    with c s3 calculation show ?thesis by (simp add: Some p)
  qed
qed

text \<open>An account with one zone, which has the record of the example or not.\<close>

definition ex_name :: string where "ex_name = ''_acme-challenge.www.example.com''"

definition ex_account :: "bool \<Rightarrow> account" where
  "ex_account b = \<lparr>ax_zones = [(''example.com'', ''z1'')], ax_records = (if b then [(''r1'', ''z1'', ex_name, ''token'')] else [])\<rparr>"

definition ex_cloudflare_api :: "bool dns_api" where
  "ex_cloudflare_api =
     \<lparr>da_send = (\<lambda>b rq.
        if rq_Method rq = ''POST'' then (True, Answer 200 [])
        else if rq_Path rq = zone_query ''example.com'' then (b, Answer 200 ''z1'')
        else if rq_Path rq = records_query ''z1'' ex_name ''token'' \<and> b then (b, Answer 200 ''r1'')
        else if rq_Path rq = records_path ''z1'' @ ''/r1'' then (False, Answer 200 [])
        else (b, Answer 200 [])),
      da_envelope = (\<lambda>_. Some (True, [])),
      da_ids = (\<lambda>raw. Inr (if raw = [] then [] else [raw]))\<rparr>"

lemma ex_api_do:
  "api_do ex_cloudflare_api c method path body b =
     (fst (da_send ex_cloudflare_api b \<lparr>rq_Method = method, rq_Path = path, rq_Token = cl_token c, rq_Body = body\<rparr>),
      case snd (da_send ex_cloudflare_api b \<lparr>rq_Method = method, rq_Path = path, rq_Token = cl_token c, rq_Body = body\<rparr>) of
        Answer _ raw \<Rightarrow> Inr (take responseLimit raw)
      | Unreachable e \<Rightarrow> Inl (wrap ''cloudflare'' e)
      | Unreadable e \<Rightarrow> Inl (wrap ''cloudflare: read response'' e))"
  by (simp add: api_do_def ex_cloudflare_api_def Let_def split: prod.split answer.split)

lemma short_reply: "length s \<le> 2 \<Longrightarrow> take responseLimit s = s"
  by (rule take_all) (simp add: responseLimit_def)

lemma ex_honours: "honours ex_cloudflare_api c ex_account ex_name ''token''"
proof -
  have s: "suffix_names (split (trim_dots ex_name) (CHR ''.'')) =
      [ex_name, ''www.example.com'', ''example.com'']" by code_simp
  have q: "zone_query ex_name \<noteq> zone_query ''example.com''" "zone_query ''www.example.com'' \<noteq> zone_query ''example.com''"
    "zone_query ex_name \<noteq> records_query ''z1'' ex_name ''token''" "zone_query ''www.example.com'' \<noteq> records_query ''z1'' ex_name ''token''"
    "zone_query ex_name \<noteq> records_path ''z1'' @ ''/r1''" "zone_query ''www.example.com'' \<noteq> records_path ''z1'' @ ''/r1''"
    "records_query ''z1'' ex_name ''token'' \<noteq> zone_query ''example.com''" "records_query ''z1'' ex_name ''token'' \<noteq> records_path ''z1'' @ ''/r1''"
    "records_path ''z1'' @ ''/r1'' \<noteq> zone_query ''example.com''" "records_path ''z1'' @ ''/r1'' \<noteq> records_query ''z1'' ex_name ''token''"
    "ex_name \<noteq> ''example.com''" "''example.com'' \<noteq> ex_name" by code_simp+
  show ?thesis
    unfolding honours_def s answers_def ex_api_do
    by (intro conjI allI; case_tac s)
      (auto simp: q ex_account_def ex_cloudflare_api_def short_reply matching_def)
qed

theorem txt_record_comes_and_goes_witness:
  "\<exists>s1. Present_record id ex_cloudflare_api \<lparr>cl_token = ''secret''\<rparr> ex_name ''token'' False = (s1, None) \<and>
     ax_records (ex_account s1) \<noteq> []"
proof -
  have d: "distinct (map fst (ax_records (ex_account False)))" by code_simp
  have z: "longest_zone ex_name (ex_account False) = Some (''example.com'', ''z1'')" by code_simp
  have n: "list_all (\<lambda>r. \<not> matching ''z1'' ex_name ''token'' r) (ax_records (ex_account False))" by code_simp
  from txt_record_comes_and_goes [OF ex_honours d, of id "\<lparr>cl_token = ''secret''\<rparr>"] z n show ?thesis by fastforce
qed

end
