(* ===== verification/Spec2Isabelle.thy ===== *)
theory Spec2Isabelle
  imports Balancer_Pool Limiter Cache_Store Proxy_Routing Proxy_Handler Alerts Alerts_Usage Health_Checker Metrics Proxy_Engine
    Store_Base Store_Users Api_Login Api_Users Api_Server Domain_Certificate Store_Children Store_Certificates Certmgr Store_Hosts
    Access_Log Store_Redirects Store_AccessLists Api_Config Config_Sync Store_Metrics Api_Metrics
    Alert_Channels Ws_Hub Backup_Roundtrip Backup_Schedule Dns_Provider
begin

text \<open>
  PonzProxy is a reverse proxy and load balancer with a web console. A data plane answers the visitors of the
  configured hosts; a control plane (a REST interface and a live feed) edits the configuration that a SQLite
  database stores, and after every change hands all of it to the data plane. Beside them run the health
  checker, the metrics collector, the writer of the access log, the alert dispatcher, the usage watcher, the
  certificate manager and the backup scheduler. This library models these parts and proves what makes each of
  them correct, and what holds where they meet.

  \<^bold>\<open>Conventions.\<close> Strings are lists of bytes. A \<^verbatim>\<open>struct\<close> is a record with the fields of the code under a
  short prefix, an \<^verbatim>\<open>error\<close> is the left side of a sum or an option, and a method that changes its receiver
  returns it changed. Integers that may wrap are \<open>64 word\<close> or go through \<open>wrap64\<close>; times and durations are
  nanoseconds. Fractions that the code keeps in \<^verbatim>\<open>float64\<close> are rational or real numbers, except where
  rounding decides a result (the unit of the IP hash), where it is written out. A method that holds its
  mutex from start to end is one step; where the code gives the mutex up, or a goroutine runs beside others,
  the parts are separate steps of a relation, and properties are about every interleaving. Code outside the
  repository is a parameter, and what is assumed of it is a hypothesis: hashes and bcrypt, signatures of
  tokens, \<^verbatim>\<open>net/url\<close>, X.509, gzip, JSON, SQLite's handling of a script, the network, the
  certificate authority. What the code uses of the rest of the standard library is defined.

  \<^bold>\<open>Foundations.\<close> \<open>Go_Base\<close> (strings, decimal numbers, division, association lists, runs of steps), \<open>Go_Http\<close>
  (headers), \<open>Go_Url\<close> (percent-encoding), \<open>Netip\<close> (addresses and prefixes), \<open>Domain_Errors\<close> (validation
  errors), \<open>Requests\<close> (the contract \<open>keeping\<close>: an invariant that each request keeps is kept by all of them).

  \<^bold>\<open>What is configured\<close> (\<^verbatim>\<open>internal/domain\<close>). \<open>Domain_Upstream\<close>, \<open>Domain_Cache\<close>, \<open>Domain_Settings\<close>,
  \<open>Domain_Host\<close>, \<open>Domain_Redirect\<close>, \<open>Domain_Access\<close>, \<open>Domain_Alert\<close>, \<open>Domain_Certificate\<close>: the types, their
  normalisation and validation. The lemmas show that an accepted value is in the canonical form its users
  rely on, and what a decision made from it (an access rule, a redirect, a path location) comes to.

  \<^bold>\<open>The data plane.\<close>
  \<open>Balancer_Backend\<close>, \<open>Balancer_Selector\<close>, \<open>Balancer_Pool\<close> (\<^verbatim>\<open>internal/balancer\<close>): the state of a backend,
  the four algorithms, picking. Proportionality of the weighted rotation, optimality of least connections,
  stability of the hash and when it fails, soundness and completeness of picking.
  \<open>Limiter\<close> (\<^verbatim>\<open>internal/limiter\<close>): the bounds on rate and concurrency of a client in any interleaving.
  \<open>Cache_Policy\<close>, \<open>Cache_Store\<close> (\<^verbatim>\<open>internal/cache\<close>): what may be stored, and the linked list on a heap
  of nodes that refines an abstract least-recently-used list.
  \<open>Guardian\<close> (\<^verbatim>\<open>internal/guardian\<close>): the rules for request targets, whatever their encoding.
  \<open>Proxy_Routing\<close>, \<open>Proxy_Engine\<close>, \<open>Proxy_Access\<close>, \<open>Proxy_Writer\<close>, \<open>Proxy_Page\<close>, \<open>Proxy_Compress\<close>,
  \<open>Proxy_Cache\<close>, \<open>Proxy_Forward\<close>, \<open>Proxy_Handler\<close> (\<^verbatim>\<open>internal/proxy\<close>): the routing table, reloads, the
  credential cache, the writers a response passes through, the retry loop and \<^verbatim>\<open>ServeHTTP\<close> with all its
  stages. Lookup is characterised, grants rest on decisions, compression is transparent, a cached answer is the
  body of an earlier response, retries end and are safe, and no stage is skipped.
  \<open>Health_Checker\<close> (\<^verbatim>\<open>internal/health\<close>), \<open>Metrics\<close> (\<^verbatim>\<open>internal/metrics\<close>): the probes as interleaved steps and
  the alerts they raise; the counters, whose flushed samples add up to the traffic recorded.
  \<open>Alerts\<close>, \<open>Alerts_Usage\<close> (\<^verbatim>\<open>internal/alerts\<close>): throttling, delivery, traffic budgets.

  \<^bold>\<open>The store\<close> (\<^verbatim>\<open>internal/store\<close>, \<^verbatim>\<open>internal/accesslog\<close>). \<open>Store_Base\<close> (errors, migrations), \<open>Store_Children\<close>
  (lists kept in child tables), \<open>Store_Users\<close>, \<open>Store_Certificates\<close>, \<open>Store_Hosts\<close>, \<open>Store_Redirects\<close>,
  \<open>Store_AccessLists\<close>, \<open>Store_Metrics\<close>, \<open>Access_Log\<close>, and the table in \<open>Alert_Channels\<close>. A table is an
  association list from ids to rows with the constraints of the schema, a transaction is a function that
  changes all or nothing. The lemmas are round trips: what is written reads back, and nothing else changes.
  Reading the locations of a host keeps the slice and the pointers into it, since a property depends on them.

  \<^bold>\<open>The control plane\<close> (\<^verbatim>\<open>internal/api\<close>, \<^verbatim>\<open>internal/certmgr\<close>, \<^verbatim>\<open>internal/backup\<close>). \<open>Api_Login\<close>,
  \<open>Api_Users\<close>, \<open>Api_Server\<close>: throttled sign-in, sessions, accounts, and which endpoint asks for what.
  \<open>Api_Config\<close>, \<open>Config_Sync\<close>: the endpoints of hosts, redirects and access lists with \<^verbatim>\<open>applyConfig\<close>, and that
  the routing table served afterwards is that of the stored configuration; what overlapping requests break.
  \<open>Api_Metrics\<close>: history and usage. \<open>Alert_Channels\<close>: channels, and that the dispatcher knows them.
  \<open>Certmgr\<close>: challenges, orders, server names, renewal. \<open>Dns_Provider\<close>: the provider registry and Cloudflare's.
  \<open>Ws_Hub\<close>: the live feed as interleaved loops. \<open>Backup\<close>, \<open>Backup_Roundtrip\<close>, \<open>Backup_Schedule\<close>: archives, what a
  restore touches, that a backup restores, and the directory of snapshots; the file system is a map from paths.

  \<^bold>\<open>Bounds and fuel.\<close> Recursion is on data or comes with a measure. The loop that evicts from the cache is a
  partial function into an option, and the refinement shows that it always returns. The retry loop ends
  because it counts attempts up to the code's maximum. \<open>walk\<close>, which reads the list of a cache off its heap, takes
  the number of nodes as its bound. \<open>decode_rounds\<close> does the two rounds of the code, \<open>post_loop\<close> its attempts
  at a delivery, and \<open>wait_txt\<close> the 36 lookups that fit into the deadline of three minutes.

  \<^bold>\<open>Not modelled.\<close> The rendering of downloads (\<^verbatim>\<open>internal/report\<close>), since it only lays out the figures of the
  traffic history. The handlers of \<^verbatim>\<open>api/certificates.go\<close>, which call operations that are modelled.
  The start of the process with its flags, environment and listeners (\<^verbatim>\<open>cmd/ponzproxy\<close> but for
  \<^verbatim>\<open>applyConfig\<close>, \<^verbatim>\<open>platform/config\<close>), the embedded web interface, log lines, and the account key file of the
  certificate authority: these are input and output around the parts above.
\<close>

end
